(* ===== verification/T560_Prelude.thy ===== *)
theory T560_Prelude
  imports Main "HOL-Library.AList" "HOL-Library.Sublist" "HOL-Library.Multiset"
begin

text \<open>
  Shared vocabulary of the development: JavaScript strings and their library functions,
  insertion-ordered maps and sets, decimal printing, and the generic list facts that the
  component theories use.

  \<^bold>\<open>Strings.\<close> A JavaScript string is a sequence of UTF-16 code units. The model keeps the
  code units below 256 (ASCII and Latin-1), one \<^typ>\<open>char\<close> each, so that \<open>length\<close>, slices and
  indices count what the source counts. White space, lower-casing and the regular-expression
  classes are the ECMAScript ones restricted to that range.

  \<^bold>\<open>Maps and sets.\<close> \<open>Map\<close>, \<open>Set\<close> and plain objects iterate in insertion order. A map is an
  association list with the library's \<^const>\<open>AList.update\<close> (overwrite in place, otherwise
  append) and \<^const>\<open>AList.delete\<close>; a set built from an array is the array without later
  duplicates.
\<close>

named_theorems js_string \<open>facts on the JavaScript string library\<close>
named_theorems store_simps \<open>facts on the insertion-ordered maps\<close>

type_synonym ('k, 'v) omap = "('k \<times> 'v) list"

type_synonym 'a result = "string + 'a"

section \<open>Characters\<close>

definition is_ws :: "char \<Rightarrow> bool" where
  "is_ws c \<longleftrightarrow> c \<in> set [CHR 0x09, CHR 0x0A, CHR 0x0B, CHR 0x0C, CHR 0x0D, CHR 0x20, CHR 0xA0]"

definition code_of :: "char \<Rightarrow> int" where
  "code_of c = of_char c"

definition is_digit :: "char \<Rightarrow> bool" where
  "is_digit c \<longleftrightarrow> 48 \<le> code_of c \<and> code_of c \<le> 57"

definition is_upper :: "char \<Rightarrow> bool" where
  "is_upper c \<longleftrightarrow> 65 \<le> code_of c \<and> code_of c \<le> 90"

definition is_lower :: "char \<Rightarrow> bool" where
  "is_lower c \<longleftrightarrow> 97 \<le> code_of c \<and> code_of c \<le> 122"

definition is_alnum :: "char \<Rightarrow> bool" where
  "is_alnum c \<longleftrightarrow> is_digit c \<or> is_upper c \<or> is_lower c"

definition is_word_char :: "char \<Rightarrow> bool" where
  "is_word_char c \<longleftrightarrow> is_alnum c \<or> c = CHR ''_''"

text \<open>
  Lower-casing maps \<open>A\<close>..\<open>Z\<close> and the Latin-1 capitals (192..222 without 215) 32 code points up.
  Upper-casing is its inverse; sharp s (223) expands to two letters. The micro sign and
  y-diaeresis have their capitals above 255 and are left alone.
\<close>

definition lower_char :: "char \<Rightarrow> char" where
  "lower_char c =
     (let n = code_of c in
      if 65 \<le> n \<and> n \<le> 90 \<or> 192 \<le> n \<and> n \<le> 222 \<and> n \<noteq> 215 then char_of (n + 32) else c)"

definition upper_char :: "char \<Rightarrow> string" where
  "upper_char c =
     (let n = code_of c in
      if n = 223 then ''SS''
      else if 97 \<le> n \<and> n \<le> 122 \<or> 224 \<le> n \<and> n \<le> 254 \<and> n \<noteq> 247 then [char_of (n - 32)]
      else [c])"

definition to_lower :: "string \<Rightarrow> string" where
  "to_lower s = map lower_char s"

definition to_upper :: "string \<Rightarrow> string" where
  "to_upper s = concat (map upper_char s)"

section \<open>The string library\<close>

definition trim :: "string \<Rightarrow> string" where
  "trim s = rev (dropWhile is_ws (rev (dropWhile is_ws s)))"

definition starts_with :: "string \<Rightarrow> string \<Rightarrow> bool" where
  "starts_with s p \<longleftrightarrow> prefix p s"

definition ends_with :: "string \<Rightarrow> string \<Rightarrow> bool" where
  "ends_with s p \<longleftrightarrow> prefix (rev p) (rev s)"

fun str_includes :: "string \<Rightarrow> string \<Rightarrow> bool" where
  "str_includes [] p = (p = [])"
| "str_includes (c # s) p = (prefix p (c # s) \<or> str_includes s p)"

fun js_join :: "string \<Rightarrow> string list \<Rightarrow> string" where
  "js_join sep [] = []"
| "js_join sep [x] = x"
| "js_join sep (x # y # ys) = x @ sep @ js_join sep (y # ys)"

text \<open>\<open>indexOf\<close> of one character, \<open>None\<close> for \<open>-1\<close>; \<open>lastIndexOf\<close> likewise.\<close>

fun index_of :: "char \<Rightarrow> string \<Rightarrow> nat option" where
  "index_of c [] = None"
| "index_of c (x # xs) = (if x = c then Some 0 else map_option Suc (index_of c xs))"

fun last_index_of :: "char \<Rightarrow> string \<Rightarrow> nat option" where
  "last_index_of c [] = None"
| "last_index_of c (x # xs) =
     (case last_index_of c xs of
        Some i \<Rightarrow> Some (Suc i)
      | None \<Rightarrow> if x = c then Some 0 else None)"

text \<open>\<open>s.slice(0, -k)\<close> and \<open>s.slice(-k)\<close> for positive \<open>k\<close>.\<close>

definition drop_last :: "nat \<Rightarrow> 'a list \<Rightarrow> 'a list" where
  "drop_last k s = take (length s - k) s"

definition take_last :: "nat \<Rightarrow> 'a list \<Rightarrow> 'a list" where
  "take_last k s = drop (length s - k) s"

text \<open>\<open>s.split(c)\<close> at every occurrence of one character.\<close>

fun split_on :: "char \<Rightarrow> string \<Rightarrow> string list" where
  "split_on c [] = [[]]"
| "split_on c (x # xs) =
     (if x = c then [] # split_on c xs
      else (case split_on c xs of [] \<Rightarrow> [[x]] | w # ws \<Rightarrow> (x # w) # ws))"

text \<open>\<open>s.split(/\s+/g).filter(Boolean)\<close>: the maximal runs of non-blank characters.\<close>

fun words_acc :: "string \<Rightarrow> string \<Rightarrow> string list" where
  "words_acc acc [] = (if acc = [] then [] else [rev acc])"
| "words_acc acc (c # cs) =
     (if is_ws c then (if acc = [] then words_acc [] cs else rev acc # words_acc [] cs)
      else words_acc (c # acc) cs)"

definition js_words :: "string \<Rightarrow> string list" where
  "js_words s = words_acc [] s"

text \<open>\<open>s.replace(/\s+/g, r)\<close>: every maximal run of white space becomes one \<open>r\<close>.\<close>

fun squeeze_ws :: "string \<Rightarrow> bool \<Rightarrow> string \<Rightarrow> string" where
  "squeeze_ws r inrun [] = []"
| "squeeze_ws r inrun (c # cs) =
     (if is_ws c then (if inrun then squeeze_ws r True cs else r @ squeeze_ws r True cs)
      else c # squeeze_ws r False cs)"

definition replace_ws :: "string \<Rightarrow> string \<Rightarrow> string" where
  "replace_ws r s = squeeze_ws r False s"

text \<open>\<open>s.replace(/[^...]/g, r)\<close> for a one-character class and a replacement string.\<close>

definition replace_chars :: "(char \<Rightarrow> bool) \<Rightarrow> string \<Rightarrow> string \<Rightarrow> string" where
  "replace_chars bad r s = concat (map (\<lambda>c. if bad c then r else [c]) s)"

section \<open>Decimal printing\<close>

definition digit_char :: "nat \<Rightarrow> char" where
  "digit_char d = char_of (48 + int (d mod 10))"

fun nat_to_string :: "nat \<Rightarrow> string" where
  "nat_to_string n =
     (if n < 10 then [digit_char n] else nat_to_string (n div 10) @ [digit_char (n mod 10)])"

declare nat_to_string.simps [simp del]

definition int_to_string :: "int \<Rightarrow> string" where
  "int_to_string i = (if i < 0 then ''-'' @ nat_to_string (nat (- i)) else nat_to_string (nat i))"

definition digit_val :: "char \<Rightarrow> nat" where
  "digit_val c = nat (code_of c - 48)"

definition string_to_nat :: "string \<Rightarrow> nat" where
  "string_to_nat s = foldl (\<lambda>a c. 10 * a + digit_val c) 0 s"

section \<open>Ordered sets\<close>

text \<open>\<open>Array.from(new Set(xs))\<close> keeps the first occurrence of every element.\<close>

fun dedup :: "'a list \<Rightarrow> 'a list" where
  "dedup [] = []"
| "dedup (x # xs) = x # filter (\<lambda>y. y \<noteq> x) (dedup xs)"

definition set_add :: "'a list \<Rightarrow> 'a \<Rightarrow> 'a list" where
  "set_add xs x = (if x \<in> set xs then xs else xs @ [x])"

section \<open>Facts on characters and case\<close>

lemma code_of_bounds: "0 \<le> code_of c" "code_of c < 256"
proof -
  have "code_of c = int (of_char c)" by (simp add: code_of_def of_nat_of_char)
  moreover have "of_char c < (256 :: nat)" by simp
  ultimately show "0 \<le> code_of c" "code_of c < 256" by linarith+
qed

lemma code_of_char_of [simp]: "0 \<le> n \<Longrightarrow> n < 256 \<Longrightarrow> code_of (char_of n) = n"
  by (simp add: code_of_def)

lemma char_of_code_of [simp]: "char_of (code_of c) = c"
  by (simp add: code_of_def)

lemma is_ws_code: "is_ws c \<longleftrightarrow> code_of c \<in> {9, 10, 11, 12, 13, 32, 160}"
proof -
  have eq: "c = d \<longleftrightarrow> code_of c = code_of d" for d
    by (metis char_of_code_of)
  show ?thesis
    unfolding is_ws_def by (simp add: eq code_of_def)
qed

lemma lower_char_code:
  "code_of (lower_char c) =
     (let n = code_of c in
      if 65 \<le> n \<and> n \<le> 90 \<or> 192 \<le> n \<and> n \<le> 222 \<and> n \<noteq> 215 then n + 32 else n)"
  by (auto simp: lower_char_def Let_def)

lemma lower_char_idem [simp]: "lower_char (lower_char c) = lower_char c"
proof -
  have "\<not> (65 \<le> n \<and> n \<le> 90 \<or> 192 \<le> n \<and> n \<le> 222 \<and> n \<noteq> 215)"
    if "n = code_of (lower_char c)" for n
    using that lower_char_code [of c] by (auto simp: Let_def split: if_splits)
  then show ?thesis
    unfolding lower_char_def [of "lower_char c"] Let_def by (metis if_not_P)
qed

lemma is_ws_lower_char [simp]: "is_ws (lower_char c) = is_ws c"
  using lower_char_code [of c] by (auto simp: is_ws_code Let_def split: if_splits)

lemma to_lower_idem [simp]: "to_lower (to_lower s) = to_lower s"
  by (simp add: to_lower_def)

lemma length_to_lower [simp]: "length (to_lower s) = length s"
  by (simp add: to_lower_def)

lemma to_lower_Nil_iff [simp]: "to_lower s = [] \<longleftrightarrow> s = []"
  by (simp add: to_lower_def)

section \<open>Facts on trimming\<close>

lemma dropWhile_map_ws: "dropWhile is_ws (map lower_char s) = map lower_char (dropWhile is_ws s)"
  by (induction s) auto

lemma trim_to_lower [js_string]: "trim (to_lower s) = to_lower (trim s)"
  by (simp add: trim_def to_lower_def dropWhile_map_ws rev_map)

lemma dropWhile_idem_hd: "xs = [] \<or> \<not> P (hd xs) \<Longrightarrow> dropWhile P xs = xs"
  by (cases xs) auto

lemma hd_dropWhile_not: "dropWhile P xs = [] \<or> \<not> P (hd (dropWhile P xs))"
  by (meson hd_dropWhile)

lemma last_dropWhile_rev:
  assumes "xs = [] \<or> \<not> P (hd xs)"
  shows "rev (dropWhile P (rev xs)) = [] \<or> \<not> P (hd (rev (dropWhile P (rev xs))))"
proof (cases xs)
  case Nil
  then show ?thesis by simp
next
  case (Cons x ys)
  with assms have nP: "\<not> P x" by simp
  have "rev (dropWhile P (rev xs)) = x # rev (dropWhile P (rev ys))"
    using Cons nP by (cases "\<exists>y \<in> set (rev ys). P y \<longrightarrow> False")
      (auto simp: dropWhile_append)
  with nP show ?thesis by simp
qed

lemma trim_ends:
  shows trim_hd: "trim s = [] \<or> \<not> is_ws (hd (trim s))"
    and trim_last: "trim s = [] \<or> \<not> is_ws (last (trim s))"
proof -
  show "trim s = [] \<or> \<not> is_ws (hd (trim s))"
    unfolding trim_def by (rule last_dropWhile_rev) (rule hd_dropWhile_not)
  show "trim s = [] \<or> \<not> is_ws (last (trim s))"
    unfolding trim_def last_rev
    using hd_dropWhile_not [of is_ws "rev (dropWhile is_ws s)"] by auto
qed

lemma trim_id: "s = [] \<or> \<not> is_ws (hd s) \<and> \<not> is_ws (last s) \<Longrightarrow> trim s = s"
  by (cases "s = []") (auto simp: trim_def dropWhile_idem_hd hd_rev)

lemma trim_idem [simp]: "trim (trim s) = trim s"
  using trim_ends [of s] by (intro trim_id) auto

lemma trim_Nil [simp]: "trim [] = []"
  by (simp add: trim_def)

lemma trim_eq_Nil_iff [js_string]: "trim s = [] \<longleftrightarrow> (\<forall>c \<in> set s. is_ws c)"
proof
  assume "trim s = []"
  then have "\<forall>c \<in> set (dropWhile is_ws s). is_ws c"
    by (simp add: trim_def)
  then have "dropWhile is_ws s = []"
    using hd_dropWhile_not [of is_ws s] by (metis hd_in_set)
  then show "\<forall>c \<in> set s. is_ws c" by simp
next
  assume "\<forall>c \<in> set s. is_ws c"
  then have "dropWhile is_ws s = []" by simp
  then show "trim s = []" by (simp only: trim_def) simp
qed

lemma set_trim_subset: "set (trim s) \<subseteq> set s"
  unfolding trim_def by (auto dest!: set_dropWhileD)

lemma length_trim_le: "length (trim s) \<le> length s"
  using length_dropWhile_le [of is_ws s] length_dropWhile_le [of is_ws "rev (dropWhile is_ws s)"]
  by (simp add: trim_def)

section \<open>Facts on upper-casing\<close>

lemma upper_char_again: "d \<in> set (upper_char c) \<Longrightarrow> upper_char d = [d]"
proof (cases "code_of c = 223")
  case True
  assume "d \<in> set (upper_char c)"
  with True have "d = CHR ''S''" by (simp add: upper_char_def)
  moreover have "upper_char (CHR ''S'') = ''S''" by code_simp
  ultimately show ?thesis by simp
next
  case False
  assume "d \<in> set (upper_char c)"
  with False code_of_bounds [of c] show ?thesis by (auto simp: upper_char_def Let_def split: if_splits)
qed

lemma to_upper_idem [simp]: "to_upper (to_upper s) = to_upper s"
proof -
  have "concat (map upper_char xs) = xs" if "\<forall>d \<in> set xs. upper_char d = [d]" for xs
    using that by (induction xs) auto
  moreover have "\<forall>d \<in> set (concat (map upper_char s)). upper_char d = [d]" using upper_char_again by auto
  ultimately show ?thesis by (simp only: to_upper_def)
qed

lemma upper_char_ws: "d \<in> set (upper_char c) \<Longrightarrow> is_ws d = is_ws c"
proof -
  assume d: "d \<in> set (upper_char c)"
  have "code_of d \<in> {code_of c} \<or> (code_of c = 223 \<and> code_of d = 83)
     \<or> (code_of d = code_of c - 32 \<and> (97 \<le> code_of c \<and> code_of c \<le> 122 \<or> 224 \<le> code_of c \<and> code_of c \<le> 254))"
  proof (cases "code_of c = 223")
    case True
    have "code_of (CHR ''S'') = 83" by code_simp
    with d True show ?thesis by (auto simp: upper_char_def)
  next
    case False
    with d code_of_bounds [of c] show ?thesis by (auto simp: upper_char_def Let_def split: if_splits)
  qed
  then show ?thesis by (auto simp: is_ws_code)
qed

lemma upper_char_nonempty: "upper_char c \<noteq> []"
  by (simp add: upper_char_def Let_def)

lemma trim_to_upper: "trim s = s \<Longrightarrow> trim (to_upper s) = to_upper s"
proof (cases "s = []")
  case False
  assume t: "trim s = s"
  with False trim_ends [of s] have ends: "\<not> is_ws (hd s)" "\<not> is_ws (last s)" by auto
  have "hd (to_upper s) \<in> set (upper_char (hd s))"
    using False by (cases s) (auto simp: to_upper_def upper_char_nonempty hd_append)
  moreover have "last (to_upper s) \<in> set (upper_char (last s))"
    using False by (cases s rule: rev_cases) (auto simp: to_upper_def upper_char_nonempty last_append)
  ultimately show ?thesis using ends upper_char_ws by (intro trim_id) blast
qed (simp add: to_upper_def)

lemma to_upper_Nil_iff [simp]: "to_upper s = [] \<longleftrightarrow> s = []"
  by (cases s) (auto simp: to_upper_def upper_char_nonempty)

section \<open>Facts on searching, splitting and replacing\<close>

lemma str_includes_iff [js_string]: "str_includes s p \<longleftrightarrow> (\<exists>u v. s = u @ p @ v)"
proof (induction s)
  case Nil
  then show ?case by auto
next
  case (Cons c s)
  show ?case
  proof
    assume "str_includes (c # s) p"
    then consider "prefix p (c # s)" | "str_includes s p" by auto
    then show "\<exists>u v. c # s = u @ p @ v"
    proof cases
      case 1
      then show ?thesis by (metis append_Nil prefixE)
    next
      case 2
      with Cons.IH obtain u v where "s = u @ p @ v" by blast
      then have "c # s = (c # u) @ p @ v" by simp
      then show ?thesis by blast
    qed
  next
    assume "\<exists>u v. c # s = u @ p @ v"
    then obtain u v where uv: "c # s = u @ p @ v" by blast
    show "str_includes (c # s) p"
    proof (cases u)
      case Nil
      with uv have "prefix p (c # s)" by simp
      then show ?thesis by simp
    next
      case (Cons d u')
      with uv have "s = u' @ p @ v" by simp
      with Cons.IH show ?thesis by auto
    qed
  qed
qed

lemma words_acc_nonblank:
  "w \<in> set (words_acc acc s) \<Longrightarrow> (\<forall>c \<in> set acc. \<not> is_ws c) \<Longrightarrow> w \<noteq> [] \<and> (\<forall>c \<in> set w. \<not> is_ws c)"
proof (induction acc s rule: words_acc.induct)
  case (1 acc)
  then show ?case by (simp split: if_splits)
next
  case (2 acc c cs)
  show ?case
  proof (cases "is_ws c")
    case True
    from True "2.prems"(1) have "w = rev acc \<and> acc \<noteq> [] \<or> w \<in> set (words_acc [] cs)"
      by (auto split: if_splits)
    then show ?thesis
    proof
      assume "w = rev acc \<and> acc \<noteq> []"
      with "2.prems"(2) show ?thesis by simp
    next
      assume w: "w \<in> set (words_acc [] cs)"
      show ?thesis
      proof (cases "acc = []")
        case True
        from "2.IH"(1) [OF \<open>is_ws c\<close> True w] show ?thesis by simp
      next
        case False
        from "2.IH"(2) [OF \<open>is_ws c\<close> False w] show ?thesis by simp
      qed
    qed
  next
    case False
    with "2.prems" have "w \<in> set (words_acc (c # acc) cs)" and "\<forall>d \<in> set (c # acc). \<not> is_ws d"
      by auto
    then show ?thesis by (rule "2.IH"(3) [OF False])
  qed
qed

lemma js_words_nonblank [js_string]:
  "w \<in> set (js_words s) \<Longrightarrow> w \<noteq> [] \<and> (\<forall>c \<in> set w. \<not> is_ws c)"
  unfolding js_words_def by (rule words_acc_nonblank) auto

lemma trim_nonblank: "\<forall>c \<in> set w. \<not> is_ws c \<Longrightarrow> trim w = w"
  by (intro trim_id) (cases "w = []", auto)

lemma js_words_trimmed [simp]: "w \<in> set (js_words s) \<Longrightarrow> trim w = w"
  by (auto dest: js_words_nonblank intro: trim_nonblank)

lemma split_on_nonempty [simp]: "split_on c s \<noteq> []"
  by (induction s) (auto split: list.splits)

lemma js_join_Cons: "ws \<noteq> [] \<Longrightarrow> js_join sep (w # ws) = w @ sep @ js_join sep ws"
  by (cases ws) auto

lemma js_join_hd_Cons: "ws \<noteq> [] \<Longrightarrow> js_join sep ((x # hd ws) # tl ws) = x # js_join sep ws"
  by (cases ws; cases "tl ws") auto

lemma js_join_split_on [simp]: "js_join [c] (split_on c s) = s"
proof (induction s)
  case Nil
  then show ?case by simp
next
  case (Cons x s)
  then show ?case
    using js_join_hd_Cons [of "split_on c s" "[c]" x]
    by (auto simp: js_join_Cons split: list.splits)
qed

lemma set_split_on: "w \<in> set (split_on c s) \<Longrightarrow> c \<notin> set w"
  by (induction s arbitrary: w) (auto split: if_splits list.splits)

lemma set_replace_chars: "set (replace_chars bad r s) \<subseteq> set r \<union> {c. \<not> bad c}"
  by (auto simp: replace_chars_def split: if_splits)

lemma length_replace_chars_one: "length r = 1 \<Longrightarrow> length (replace_chars bad r s) = length s"
  unfolding replace_chars_def
  by (induction s) auto

lemma replace_chars_delete: "replace_chars bad [] s = filter (\<lambda>c. \<not> bad c) s"
  by (induction s) (auto simp: replace_chars_def)

lemma index_of_Some: "index_of c s = Some i \<Longrightarrow> i < length s \<and> s ! i = c"
  by (induction s arbitrary: i) (auto split: if_splits)

lemma index_of_None_iff: "index_of c s = None \<longleftrightarrow> c \<notin> set s"
  by (induction s) auto

section \<open>Facts on decimal printing\<close>

lemma digit_char_code [simp]: "code_of (digit_char d) = 48 + int (d mod 10)"
proof -
  have "d mod 10 < 10" by simp
  then have "int (d mod 10) < 10" by linarith
  then show ?thesis unfolding digit_char_def by (intro code_of_char_of) linarith+
qed

lemma digit_val_digit_char [simp]: "digit_val (digit_char d) = d mod 10"
  by (simp add: digit_val_def)

lemma is_digit_digit_char [simp]: "is_digit (digit_char d)"
proof -
  have "d mod 10 < 10" by simp
  then have "int (d mod 10) < 10" by linarith
  then show ?thesis unfolding is_digit_def digit_char_code by linarith
qed

lemma string_to_nat_append1: "string_to_nat (s @ [c]) = 10 * string_to_nat s + digit_val c"
  by (simp add: string_to_nat_def)

lemma string_to_nat_to_string [simp]: "string_to_nat (nat_to_string n) = n"
proof (induction n rule: nat_to_string.induct)
  case (1 n)
  show ?case
  proof (cases "n < 10")
    case True
    then show ?thesis by (simp add: nat_to_string.simps [of n] string_to_nat_def)
  next
    case False
    with 1 show ?thesis by (simp add: nat_to_string.simps [of n] string_to_nat_append1)
  qed
qed

lemma nat_to_string_inj [simp]: "nat_to_string m = nat_to_string n \<longleftrightarrow> m = n"
  by (metis string_to_nat_to_string)

lemma nat_to_string_digits: "c \<in> set (nat_to_string n) \<Longrightarrow> is_digit c"
proof (induction n rule: nat_to_string.induct)
  case (1 n)
  then show ?case
    by (cases "n < 10") (auto simp: nat_to_string.simps [of n])
qed

lemma nat_to_string_nonempty [simp]: "nat_to_string n \<noteq> []"
  by (subst nat_to_string.simps) auto

lemma length_nat_to_string_le: "n < 10 ^ k \<Longrightarrow> 0 < k \<Longrightarrow> length (nat_to_string n) \<le> k"
proof (induction k arbitrary: n)
  case 0
  then show ?case by simp
next
  case (Suc k)
  show ?case
  proof (cases "n < 10")
    case True
    then show ?thesis by (simp add: nat_to_string.simps [of n])
  next
    case False
    with Suc.prems have "n div 10 < 10 ^ k" and "0 < k"
      by (auto intro: gr0I simp: less_mult_imp_div_less mult.commute)
    then have "length (nat_to_string (n div 10)) \<le> k" by (rule Suc.IH)
    with False show ?thesis by (simp add: nat_to_string.simps [of n])
  qed
qed

section \<open>Facts on ordered sets\<close>

lemma set_dedup [simp]: "set (dedup xs) = set xs"
  by (induction xs) auto

lemma distinct_dedup [simp]: "distinct (dedup xs)"
  by (induction xs) auto

lemma dedup_id: "distinct xs \<Longrightarrow> dedup xs = xs"
proof (induction xs)
  case Nil
  then show ?case by simp
next
  case (Cons x xs)
  then have "filter (\<lambda>y. y \<noteq> x) xs = xs"
    by (intro filter_True) auto
  with Cons show ?case by simp
qed

lemma dedup_idem [simp]: "dedup (dedup xs) = dedup xs"
  by (simp add: dedup_id)

lemma dedup_Nil_iff [simp]: "dedup xs = [] \<longleftrightarrow> xs = []"
  by (cases xs) auto

lemma set_set_add [simp]: "set (set_add xs x) = insert x (set xs)"
  by (auto simp: set_add_def)

lemma distinct_set_add [simp]: "distinct (set_add xs x) \<longleftrightarrow> distinct xs"
  by (auto simp: set_add_def)

lemma list_all_both: "list_all P xs \<Longrightarrow> list_all Q xs \<Longrightarrow> list_all (\<lambda>x. P x \<and> Q x) xs"
  by (induction xs) auto

section \<open>Last characters of a text\<close>

lemma take_last_id: "length xs \<le> n \<Longrightarrow> take_last n xs = xs"
  by (simp add: take_last_def)

lemma length_take_last [simp]: "length (take_last n xs) = min n (length xs)"
  by (auto simp: take_last_def)

lemma take_last_take_last_append [simp]: "take_last n (take_last n xs @ ys) = take_last n (xs @ ys)"
proof (cases "length xs \<le> n")
  case True
  then show ?thesis by (simp add: take_last_id)
next
  case False
  then have "length xs + length ys - n = (length xs - n) + length ys" by simp
  with False show ?thesis by (simp add: take_last_def add.commute)
qed

section \<open>Keyed stores\<close>

text \<open>
  What the components rely on when they keep state in a \<open>Map\<close> or in a JSON object: a read
  after a write or a delete, and no key stored twice. The laws are stated once; the registry
  of processes, the pairing store, the setup flow and the checkout guard use them through the
  interpretation on association lists.
\<close>

locale keyed_store =
  fixes empty :: "'m"
    and get :: "'m \<Rightarrow> 'k \<Rightarrow> 'v option"
    and put :: "'k \<Rightarrow> 'v \<Rightarrow> 'm \<Rightarrow> 'm"
    and del :: "'k \<Rightarrow> 'm \<Rightarrow> 'm"
    and invar :: "'m \<Rightarrow> bool"
  assumes get_empty: "get empty k = None"
    and get_put: "get (put k v m) k' = (if k' = k then Some v else get m k')"
    and get_del: "get (del k m) k' = (if k' = k then None else get m k')"
    and invar_empty: "invar empty"
    and invar_put: "invar m \<Longrightarrow> invar (put k v m)"
    and invar_del: "invar m \<Longrightarrow> invar (del k m)"
begin

lemma get_put_same: "get (put k v m) k = Some v"
  by (simp add: get_put)

lemma get_put_other: "k' \<noteq> k \<Longrightarrow> get (put k v m) k' = get m k'"
  by (simp add: get_put)

lemma get_del_same: "get (del k m) k = None"
  by (simp add: get_del)

lemma get_del_other: "k' \<noteq> k \<Longrightarrow> get (del k m) k' = get m k'"
  by (simp add: get_del)

text \<open>Moving a key from one store to another keeps the two stores disjoint.\<close>

lemma move_disjoint:
  assumes "\<And>j. get m j = None \<or> get n j = None"
  shows "get (del k m) j = None \<or> get (put k v n) j = None"
  using assms by (auto simp: get_put get_del)

lemma del_disjoint:
  assumes "\<And>j. get m j = None \<or> get n j = None"
  shows "get (del k m) j = None \<or> get (del k n) j = None"
  using assms by (auto simp: get_del)

end

lemma update_new: "k \<notin> fst ` set m \<Longrightarrow> AList.update k v m = m @ [(k, v)]"
  by (induction m) auto

lemma list_all_update:
  "list_all P fs \<Longrightarrow> P (k, v) \<Longrightarrow> list_all P (AList.update k v fs)"
  by (induction fs) auto

definition omap_invar :: "('k, 'v) omap \<Rightarrow> bool" where
  "omap_invar m \<longleftrightarrow> distinct (map fst m)"

interpretation omap: keyed_store "[]" map_of AList.update AList.delete omap_invar
proof unfold_locales
  show "map_of [] k = None" for k :: 'k by simp
  show "map_of (AList.update k v m) k' = (if k' = k then Some v else map_of m k')"
    for k k' :: 'k and v :: 'v and m
    by (simp add: AList.update_conv')
  show "map_of (AList.delete k m) k' = (if k' = k then None else map_of m k')"
    for k k' :: 'k and m :: "('k, 'v) omap"
    by (simp add: AList.delete_conv')
  show "omap_invar []" by (simp add: omap_invar_def)
  show "omap_invar m \<Longrightarrow> omap_invar (AList.update k v m)" for k :: 'k and v :: 'v and m
    by (simp add: omap_invar_def AList.distinct_update)
  show "omap_invar m \<Longrightarrow> omap_invar (AList.delete k m)" for k :: 'k and m :: "('k, 'v) omap"
    by (simp add: omap_invar_def AList.distinct_delete)
qed

declare omap.get_put [store_simps] omap.get_del [store_simps]
  omap.invar_empty [store_simps] omap.invar_put [store_simps] omap.invar_del [store_simps]

lemma omap_get_filter [store_simps]:
  "omap_invar m \<Longrightarrow>
   map_of (filter (\<lambda>(k, v). P k v) m) k =
     (case map_of m k of None \<Rightarrow> None | Some v \<Rightarrow> if P k v then Some v else None)"
  by (induction m) (auto simp: omap_invar_def image_iff split: option.splits dest!: map_of_SomeD)

lemma omap_invar_filter [store_simps]: "omap_invar m \<Longrightarrow> omap_invar (filter P m)"
  by (auto simp: omap_invar_def distinct_map inj_on_def)

lemma omap_mem_iff: "omap_invar m \<Longrightarrow> (k, v) \<in> set m \<longleftrightarrow> map_of m k = Some v"
  by (simp add: omap_invar_def)

end
