(* ===== verification/Js_Value.thy ===== *)
theory Js_Value
  imports Complex_Main T560_Prelude
begin

text \<open>
  JavaScript values as the sources inspect them: the \<open>unknown\<close> data that comes out of
  \<open>JSON.parse\<close>, tool arguments and chat messages. The coercions \<open>Boolean(v)\<close>, \<open>String(v)\<close> and
  \<open>Number(v)\<close>, property access, \<open>in\<close>, object spread, and what a value becomes when it is
  written as JSON and read back.

  A number is a rational, an infinity or \<open>NaN\<close>; arithmetic is exact, so rounding of IEEE
  doubles is not modelled, and \<open>String(n)\<close> prints up to 17 decimals without the exponent
  notation that JavaScript uses from \<open>1e21\<close> on and below \<open>1e-6\<close>. A property read sees own properties only.
\<close>

datatype jnum = NaN | PosInf | NegInf | Fin rat

datatype jsv =
    JUndef
  | JNull
  | JBool bool
  | JNum jnum
  | JStr string
  | JArr "jsv list"
  | JObj "(string \<times> jsv) list"

section \<open>Inspection\<close>

fun truthy :: "jsv \<Rightarrow> bool" where
  "truthy JUndef = False"
| "truthy JNull = False"
| "truthy (JBool b) = b"
| "truthy (JNum NaN) = False"
| "truthy (JNum (Fin q)) = (q \<noteq> 0)"
| "truthy (JNum _) = True"
| "truthy (JStr s) = (s \<noteq> [])"
| "truthy (JArr _) = True"
| "truthy (JObj _) = True"

fun nullish :: "jsv \<Rightarrow> bool" where
  "nullish JUndef = True"
| "nullish JNull = True"
| "nullish _ = False"

text \<open>\<open>v && typeof v === "object"\<close>: arrays count as objects, \<open>null\<close> does not.\<close>

fun is_object :: "jsv \<Rightarrow> bool" where
  "is_object (JArr _) = True"
| "is_object (JObj _) = True"
| "is_object _ = False"

fun is_array :: "jsv \<Rightarrow> bool" where
  "is_array (JArr _) = True"
| "is_array _ = False"

fun is_string :: "jsv \<Rightarrow> bool" where
  "is_string (JStr _) = True"
| "is_string _ = False"

fun elems :: "jsv \<Rightarrow> jsv list" where
  "elems (JArr xs) = xs"
| "elems _ = []"

fun obj_entries :: "jsv \<Rightarrow> (string \<times> jsv) list" where
  "obj_entries (JObj fs) = fs"
| "obj_entries (JArr xs) = zip (map nat_to_string [0..<length xs]) xs"
| "obj_entries _ = []"

text \<open>The string inside a string value; the empty string stands for every other value.\<close>

fun str_of :: "jsv \<Rightarrow> string" where
  "str_of (JStr s) = s"
| "str_of _ = []"

fun jget :: "jsv \<Rightarrow> string \<Rightarrow> jsv" where
  "jget (JObj fs) k = (case map_of fs k of None \<Rightarrow> JUndef | Some v \<Rightarrow> v)"
| "jget _ k = JUndef"

fun jhas :: "jsv \<Rightarrow> string \<Rightarrow> bool" where
  "jhas (JObj fs) k = (map_of fs k \<noteq> None)"
| "jhas _ k = False"

text \<open>\<open>{ ...v, k: x }\<close>; the spread of a non-object contributes nothing.\<close>

fun jput :: "string \<Rightarrow> jsv \<Rightarrow> jsv \<Rightarrow> jsv" where
  "jput k x (JObj fs) = JObj (AList.update k x fs)"
| "jput k x v = JObj (AList.update k x (obj_entries v))"

text \<open>
  A table that is a plain object has the members of \<open>Object.prototype\<close> too: under a key that names one of them a lookup finds the
  inherited member when the table has none of its own. The keys of the tables below are lower case, and the members with such a
  name are these.
\<close>

definition inherited_member :: "string \<Rightarrow> bool" where
  "inherited_member k \<longleftrightarrow> k = ''constructor'' \<or> k = ''__proto__''"

definition coalesce :: "jsv \<Rightarrow> jsv \<Rightarrow> jsv" where
  "coalesce v d = (if nullish v then d else v)"

section \<open>Coercions\<close>

fun frac_digits :: "nat \<Rightarrow> rat \<Rightarrow> string" where
  "frac_digits 0 q = []"
| "frac_digits (Suc n) q =
     (if q = 0 then [] else
      let d = \<lfloor>10 * q\<rfloor> in digit_char (nat d) # frac_digits n (10 * q - of_int d))"

definition rat_to_string :: "rat \<Rightarrow> string" where
  "rat_to_string q =
     (let a = \<bar>q\<bar>; i = \<lfloor>a\<rfloor>; f = a - of_int i in
      (if q < 0 then ''-'' else []) @ int_to_string i @
      (if f = 0 then [] else ''.'' @ frac_digits 17 f))"

fun num_to_string :: "jnum \<Rightarrow> string" where
  "num_to_string NaN = ''NaN''"
| "num_to_string PosInf = ''Infinity''"
| "num_to_string NegInf = ''-Infinity''"
| "num_to_string (Fin q) = rat_to_string q"

fun to_str :: "jsv \<Rightarrow> string" where
  "to_str JUndef = ''undefined''"
| "to_str JNull = ''null''"
| "to_str (JBool b) = (if b then ''true'' else ''false'')"
| "to_str (JNum n) = num_to_string n"
| "to_str (JStr s) = s"
| "to_str (JArr xs) = js_join '','' (map (\<lambda>x. if nullish x then [] else to_str x) xs)"
| "to_str (JObj _) = ''[object Object]''"

text \<open>\<open>String(v ?? "")\<close>, the coercion the sources use most.\<close>

definition str_or_empty :: "jsv \<Rightarrow> string" where
  "str_or_empty v = (if nullish v then [] else to_str v)"

definition scale10 :: "nat \<Rightarrow> int \<Rightarrow> rat" where
  "scale10 m e = (if 0 \<le> e then of_nat m * 10 ^ nat e else of_nat m / 10 ^ nat (- e))"

definition parse_exponent :: "string \<Rightarrow> int option" where
  "parse_exponent s =
     (case s of
        [] \<Rightarrow> Some 0
      | c # r \<Rightarrow>
          if c \<noteq> CHR ''e'' \<and> c \<noteq> CHR ''E'' then None
          else let neg = (r \<noteq> [] \<and> hd r = CHR ''-'');
                   ds = (if r \<noteq> [] \<and> (hd r = CHR ''-'' \<or> hd r = CHR ''+'') then tl r else r)
               in if ds = [] \<or> \<not> list_all is_digit ds then None
                  else Some (if neg then - int (string_to_nat ds) else int (string_to_nat ds)))"

definition parse_unsigned :: "string \<Rightarrow> rat option" where
  "parse_unsigned s =
     (let i = takeWhile is_digit s; r = dropWhile is_digit s;
          f = (case r of c # r' \<Rightarrow> if c = CHR ''.'' then takeWhile is_digit r' else [] | [] \<Rightarrow> []);
          r2 = (case r of c # r' \<Rightarrow> if c = CHR ''.'' then dropWhile is_digit r' else r | [] \<Rightarrow> [])
      in if i = [] \<and> f = [] then None
         else map_option (\<lambda>e. scale10 (string_to_nat (i @ f)) (e - int (length f)))
                (parse_exponent r2))"

definition radix_val :: "char \<Rightarrow> nat" where
  "radix_val c =
     (if is_digit c then nat (code_of c - 48)
      else if is_lower c then nat (code_of c - 87)
      else if is_upper c then nat (code_of c - 55) else 36)"

definition parse_radix :: "nat \<Rightarrow> string \<Rightarrow> jnum" where
  "parse_radix b ds =
     (if ds = [] \<or> \<not> list_all (\<lambda>c. radix_val c < b) ds then NaN
      else Fin (of_nat (foldl (\<lambda>a c. b * a + radix_val c) 0 ds)))"

definition str_to_num :: "string \<Rightarrow> jnum" where
  "str_to_num s =
     (let t = trim s in
      if t = [] then Fin 0
      else if t = ''Infinity'' \<or> t = ''+Infinity'' then PosInf
      else if t = ''-Infinity'' then NegInf
      else if starts_with t ''0x'' \<or> starts_with t ''0X'' then parse_radix 16 (drop 2 t)
      else if starts_with t ''0o'' \<or> starts_with t ''0O'' then parse_radix 8 (drop 2 t)
      else if starts_with t ''0b'' \<or> starts_with t ''0B'' then parse_radix 2 (drop 2 t)
      else if starts_with t ''-'' then
        (case parse_unsigned (tl t) of None \<Rightarrow> NaN | Some q \<Rightarrow> Fin (- q))
      else
        (case parse_unsigned (if starts_with t ''+'' then tl t else t) of
           None \<Rightarrow> NaN | Some q \<Rightarrow> Fin q))"

fun to_num :: "jsv \<Rightarrow> jnum" where
  "to_num JUndef = NaN"
| "to_num JNull = Fin 0"
| "to_num (JBool b) = Fin (if b then 1 else 0)"
| "to_num (JNum n) = n"
| "to_num (JStr s) = str_to_num s"
| "to_num (JArr xs) = str_to_num (to_str (JArr xs))"
| "to_num (JObj _) = NaN"

fun is_finite :: "jnum \<Rightarrow> bool" where
  "is_finite (Fin _) = True"
| "is_finite _ = False"

fun fin_or :: "rat \<Rightarrow> jnum \<Rightarrow> rat" where
  "fin_or d (Fin q) = q"
| "fin_or d _ = d"

text \<open>\<open>Number.parseInt(s, 10)\<close>: leading white space, a sign, then the longest run of digits.\<close>

definition parse_int :: "string \<Rightarrow> jnum" where
  "parse_int s =
     (let t = dropWhile is_ws s;
          r = (if t \<noteq> [] \<and> (hd t = CHR ''-'' \<or> hd t = CHR ''+'') then tl t else t);
          ds = takeWhile is_digit r
      in if ds = [] then NaN
         else Fin (if starts_with t ''-'' then - of_nat (string_to_nat ds) else of_nat (string_to_nat ds)))"

section \<open>Writing as JSON and reading back\<close>

text \<open>
  \<open>JSON.parse(JSON.stringify(v))\<close> for an object or array \<open>v\<close>: undefined members of objects
  disappear, undefined array elements and non-finite numbers become \<open>null\<close>.
\<close>

fun json_clean :: "jsv \<Rightarrow> jsv" where
  "json_clean JUndef = JNull"
| "json_clean (JNum n) = (if is_finite n then JNum n else JNull)"
| "json_clean (JArr xs) = JArr (map json_clean xs)"
| "json_clean (JObj fs) =
     JObj (map (\<lambda>(k, v). (k, json_clean v)) (filter (\<lambda>(k, v). v \<noteq> JUndef) fs))"
| "json_clean v = v"

text \<open>What a file that should hold JSON contains: a document, or text that \<open>JSON.parse\<close> refuses.\<close>

datatype file_content = Json jsv | Unparsable

section \<open>Facts\<close>

lemma is_object_truthy: "is_object v \<Longrightarrow> truthy v"
  by (cases v) auto

lemma not_object_jget [simp]: "\<not> is_object v \<Longrightarrow> jget v k = JUndef"
  by (cases v) auto

lemma jget_jput [simp]:
  "is_object v \<Longrightarrow> \<not> is_array v \<Longrightarrow> jget (jput k x v) k' = (if k' = k then x else jget v k')"
  by (cases v) (auto simp: AList.update_conv' split: option.splits)

lemma jput_is_object [simp]: "is_object (jput k x v)"
  by (cases v) auto

lemma jput_not_array [simp]: "\<not> is_array (jput k x v)"
  by (cases v) auto

lemma is_string_iff: "is_string v \<longleftrightarrow> (\<exists>s. v = JStr s)"
  by (cases v) auto

lemma is_array_iff: "is_array v \<longleftrightarrow> (\<exists>xs. v = JArr xs)"
  by (cases v) auto

lemma str_or_empty_JStr [simp]: "str_or_empty (JStr s) = s"
  by (simp add: str_or_empty_def)

lemma str_or_empty_nullish [simp]: "nullish v \<Longrightarrow> str_or_empty v = []"
  by (simp add: str_or_empty_def)

lemma jget_notin: "k \<notin> fst ` set fs \<Longrightarrow> jget (JObj fs) k = JUndef"
  by (auto simp: map_of_eq_None_iff [symmetric] split: option.splits)

lemma json_clean_not_JUndef [simp]: "json_clean v \<noteq> JUndef"
  by (cases v) auto

lemma json_clean_idem [simp]: "json_clean (json_clean v) = json_clean v"
proof (induction v rule: json_clean.induct)
  case (4 fs)
  have "map (\<lambda>(k, v). (k, json_clean v)) (map (\<lambda>(k, v). (k, json_clean v)) gs)
          = map (\<lambda>(k, v). (k, json_clean v)) gs"
    if "set gs \<subseteq> set (filter (\<lambda>(k, v). v \<noteq> JUndef) fs)" for gs
  proof -
    have "json_clean (json_clean v) = json_clean v" if "(k, v) \<in> set gs" for k v
      using that \<open>set gs \<subseteq> _\<close> by (intro 4) auto
    then show ?thesis by auto
  qed
  moreover have "filter (\<lambda>(k, v). v \<noteq> JUndef) (map (\<lambda>(k, v). (k, json_clean v)) gs)
          = map (\<lambda>(k, v). (k, json_clean v)) gs" for gs :: "(string \<times> jsv) list"
    by (induction gs) auto
  ultimately show ?case by (simp only: json_clean.simps order_refl)
qed auto

end
