(* ===== verification/Tool_Call_Id.thy ===== *)
theory Tool_Call_Id
  imports Js_Value
begin

text \<open>
  Tool-call identifiers, \<open>src/agents/tool-call-id.ts\<close>: the sanitiser that keeps only
  alphanumeric characters, the generator of unused identifiers, the readers of the ids in a
  message, and the rewriting of a whole transcript. SHA-1 is a parameter (\<open>sha\<close> maps a text to
  its hexadecimal digest), and so is the decimal text of the clock (\<open>clock\<close>), which the code
  reads only after 998 candidates were taken. Messages are JSON values. The lemmas show that a
  generated id is unused and at most 40 characters long, and that a transcript rewrite renames
  ids injectively and consistently, so that every tool result still belongs to its call.
\<close>

named_theorems id_defs \<open>unfolding rules of the tool-call id model\<close>

datatype id_mode = Strict | Strict9

definition STRICT9_LEN :: nat where "STRICT9_LEN = 9"

definition MAX_LEN :: nat where "MAX_LEN = 40"

definition TOOL_CALL_TYPES :: "string list" where
  "TOOL_CALL_TYPES = [''toolCall'', ''toolUse'', ''functionCall'']"

record tool_call_like =
  call_id :: string
  call_name :: "string option"

section \<open>Sanitising and generating ids\<close>

definition shortHash :: "(string \<Rightarrow> string) \<Rightarrow> string \<Rightarrow> nat \<Rightarrow> string" where
  "shortHash sha s len = take len (sha s)"

definition sanitizeToolCallId :: "(string \<Rightarrow> string) \<Rightarrow> string \<Rightarrow> id_mode \<Rightarrow> string" where
  "sanitizeToolCallId sha i mode =
     (if i = [] then (if mode = Strict9 then ''defaultid'' else ''defaulttoolid'')
      else
        let alphanumericOnly = replace_chars (\<lambda>c. \<not> is_alnum c) [] i in
        if mode = Strict9 then
          (if STRICT9_LEN \<le> length alphanumericOnly then take STRICT9_LEN alphanumericOnly
           else if alphanumericOnly \<noteq> [] then shortHash sha alphanumericOnly STRICT9_LEN
           else shortHash sha ''sanitized'' STRICT9_LEN)
        else if alphanumericOnly \<noteq> [] then alphanumericOnly else ''sanitizedtoolid'')"

text \<open>The loops \<open>for (let i = a; i < b; i += 1)\<close> that look for an unused candidate.\<close>

fun try_ids :: "(nat \<Rightarrow> string) \<Rightarrow> string list \<Rightarrow> nat \<Rightarrow> nat \<Rightarrow> string option" where
  "try_ids gen used i 0 = None"
| "try_ids gen used i (Suc n) =
     (if gen i \<notin> set used then Some (gen i) else try_ids gen used (Suc i) n)"

definition suffix_id :: "string \<Rightarrow> nat \<Rightarrow> string" where
  "suffix_id candidate i =
     (let suf = ''x'' @ nat_to_string i in take (MAX_LEN - length suf) candidate @ suf)"

definition makeUniqueToolCallId ::
  "(string \<Rightarrow> string) \<Rightarrow> string \<Rightarrow> string \<Rightarrow> string list \<Rightarrow> id_mode \<Rightarrow> string" where
  "makeUniqueToolCallId sha now i used mode =
     (if mode = Strict9 then
        let base = sanitizeToolCallId sha i mode;
            candidate = (if STRICT9_LEN \<le> length base then take STRICT9_LEN base else [])
        in if candidate \<noteq> [] \<and> candidate \<notin> set used then candidate
           else (case try_ids (\<lambda>k. shortHash sha (i @ '':'' @ nat_to_string k) STRICT9_LEN) used 0 1000 of
                   Some h \<Rightarrow> h
                 | None \<Rightarrow> shortHash sha (i @ '':'' @ now) STRICT9_LEN)
      else
        let base = take MAX_LEN (sanitizeToolCallId sha i mode) in
        if base \<notin> set used then base
        else
          let hash = shortHash sha i 8;
              maxBaseLen = MAX_LEN - length hash;
              clippedBase = (if maxBaseLen < length base then take maxBaseLen base else base);
              candidate = clippedBase @ hash
          in if candidate \<notin> set used then candidate
             else (case try_ids (suffix_id candidate) used 2 998 of
                     Some n \<Rightarrow> n
                   | None \<Rightarrow> let ts = ''t'' @ now in take (MAX_LEN - length ts) candidate @ ts))"

section \<open>Reading ids from messages\<close>

definition nonempty_str :: "jsv \<Rightarrow> bool" where
  "nonempty_str v \<longleftrightarrow> (case v of JStr s \<Rightarrow> s \<noteq> [] | _ \<Rightarrow> False)"

definition is_call_type :: "jsv \<Rightarrow> bool" where
  "is_call_type v \<longleftrightarrow> (case v of JStr s \<Rightarrow> s \<in> set TOOL_CALL_TYPES | _ \<Rightarrow> False)"

fun extractToolCall :: "jsv \<Rightarrow> tool_call_like option" where
  "extractToolCall block =
     (if is_object block \<and> nonempty_str (jget block ''id'') \<and> is_call_type (jget block ''type'')
      then Some \<lparr>call_id = str_of (jget block ''id''),
                 call_name = (case jget block ''name'' of JStr n \<Rightarrow> Some n | _ \<Rightarrow> None)\<rparr>
      else None)"

definition extractToolCallsFromAssistant :: "jsv \<Rightarrow> tool_call_like list" where
  "extractToolCallsFromAssistant msg = List.map_filter extractToolCall (elems (jget msg ''content''))"

definition extractToolResultId :: "jsv \<Rightarrow> string option" where
  "extractToolResultId msg =
     (if nonempty_str (jget msg ''toolCallId'') then Some (str_of (jget msg ''toolCallId''))
      else if nonempty_str (jget msg ''toolUseId'') then Some (str_of (jget msg ''toolUseId''))
      else None)"

definition has_role :: "string \<Rightarrow> jsv \<Rightarrow> bool" where
  "has_role r msg \<longleftrightarrow> is_object msg \<and> jget msg ''role'' = JStr r"

definition message_ids :: "jsv \<Rightarrow> string list" where
  "message_ids msg =
     (if has_role ''assistant'' msg then map call_id (extractToolCallsFromAssistant msg)
      else if has_role ''toolResult'' msg
        then (case extractToolResultId msg of Some i \<Rightarrow> [i] | None \<Rightarrow> [])
      else [])"

definition collectToolCallIds :: "jsv list \<Rightarrow> string list" where
  "collectToolCallIds messages = foldl set_add [] (concat (map message_ids messages))"

section \<open>Rewriting a transcript\<close>

record id_state =
  id_map :: "(string, string) omap"
  used_ids :: "string list"

definition resolve ::
  "(string \<Rightarrow> string list \<Rightarrow> string) \<Rightarrow> string \<Rightarrow> id_state \<Rightarrow> string \<times> id_state" where
  "resolve fresh i st =
     (case map_of (id_map st) i of
        Some existing \<Rightarrow>
          if existing \<noteq> [] then (existing, st)
          else let n = fresh i (used_ids st) in
               (n, \<lparr>id_map = AList.update i n (id_map st), used_ids = set_add (used_ids st) n\<rparr>)
      | None \<Rightarrow>
          let n = fresh i (used_ids st) in
          (n, \<lparr>id_map = AList.update i n (id_map st), used_ids = set_add (used_ids st) n\<rparr>))"

definition rewriteBlock ::
  "(string \<Rightarrow> string list \<Rightarrow> string) \<Rightarrow> jsv \<Rightarrow> id_state \<Rightarrow> jsv \<times> bool \<times> id_state" where
  "rewriteBlock fresh block st =
     (if is_object block \<and> is_call_type (jget block ''type'') \<and> nonempty_str (jget block ''id'')
      then let i = str_of (jget block ''id''); (nextId, st') = resolve fresh i st in
           if nextId = i then (block, False, st')
           else (jput ''id'' (JStr nextId) block, True, st')
      else (block, False, st))"

fun rewriteBlocks ::
  "(string \<Rightarrow> string list \<Rightarrow> string) \<Rightarrow> jsv list \<Rightarrow> id_state \<Rightarrow> jsv list \<times> bool \<times> id_state" where
  "rewriteBlocks fresh [] st = ([], False, st)"
| "rewriteBlocks fresh (b # bs) st =
     (let (b', c, st1) = rewriteBlock fresh b st;
          (bs', cs, st2) = rewriteBlocks fresh bs st1
      in (b' # bs', c \<or> cs, st2))"

definition rewriteAssistantToolCallIds ::
  "(string \<Rightarrow> string list \<Rightarrow> string) \<Rightarrow> jsv \<Rightarrow> id_state \<Rightarrow> jsv \<times> bool \<times> id_state" where
  "rewriteAssistantToolCallIds fresh msg st =
     (case jget msg ''content'' of
        JArr blocks \<Rightarrow>
          let (nxt, changed, st') = rewriteBlocks fresh blocks st in
          if changed then (jput ''content'' (JArr nxt) msg, True, st') else (msg, False, st')
      | _ \<Rightarrow> (msg, False, st))"

definition resolveField ::
  "(string \<Rightarrow> string list \<Rightarrow> string) \<Rightarrow> jsv \<Rightarrow> id_state \<Rightarrow> string option \<times> string option \<times> id_state" where
  "resolveField fresh v st =
     (if nonempty_str v
      then let (n, st') = resolve fresh (str_of v) st in (Some (str_of v), Some n, st')
      else (None, None, st))"

definition putField :: "string \<Rightarrow> string option \<Rightarrow> jsv \<Rightarrow> jsv" where
  "putField k n msg = (case n of Some s \<Rightarrow> if s \<noteq> [] then jput k (JStr s) msg else msg | None \<Rightarrow> msg)"

definition rewriteToolResultIds ::
  "(string \<Rightarrow> string list \<Rightarrow> string) \<Rightarrow> jsv \<Rightarrow> id_state \<Rightarrow> jsv \<times> bool \<times> id_state" where
  "rewriteToolResultIds fresh msg st =
     (let (toolCallId, nextToolCallId, st1) = resolveField fresh (jget msg ''toolCallId'') st;
          (toolUseId, nextToolUseId, st2) = resolveField fresh (jget msg ''toolUseId'') st1
      in if nextToolCallId = toolCallId \<and> nextToolUseId = toolUseId then (msg, False, st2)
         else (putField ''toolUseId'' nextToolUseId (putField ''toolCallId'' nextToolCallId msg),
               True, st2))"

definition rewriteMessage ::
  "(string \<Rightarrow> string list \<Rightarrow> string) \<Rightarrow> jsv \<Rightarrow> id_state \<Rightarrow> jsv \<times> bool \<times> id_state" where
  "rewriteMessage fresh msg st =
     (if has_role ''assistant'' msg then rewriteAssistantToolCallIds fresh msg st
      else if has_role ''toolResult'' msg then rewriteToolResultIds fresh msg st
      else (msg, False, st))"

fun rewriteMessages ::
  "(string \<Rightarrow> string list \<Rightarrow> string) \<Rightarrow> jsv list \<Rightarrow> id_state \<Rightarrow> jsv list \<times> bool \<times> id_state" where
  "rewriteMessages fresh [] st = ([], False, st)"
| "rewriteMessages fresh (m # ms) st =
     (let (m', c, st1) = rewriteMessage fresh m st;
          (ms', cs, st2) = rewriteMessages fresh ms st1
      in (m' # ms', c \<or> cs, st2))"

definition sanitizeToolCallIdsForTranscript ::
  "(string \<Rightarrow> string) \<Rightarrow> (string list \<Rightarrow> string) \<Rightarrow> jsv list \<Rightarrow> id_mode \<Rightarrow> jsv list" where
  "sanitizeToolCallIdsForTranscript sha clock messages mode =
     (let (out, changed, st) =
            rewriteMessages (\<lambda>i used. makeUniqueToolCallId sha (clock used) i used mode) messages
              \<lparr>id_map = [], used_ids = []\<rparr>
      in if changed then out else messages)"

section \<open>Facts on generated ids\<close>

lemma try_ids_Some: "try_ids gen used i n = Some s \<Longrightarrow> s \<notin> set used \<and> (\<exists>k. s = gen k \<and> i \<le> k \<and> k < i + n)"
proof (induction n arbitrary: i)
  case 0
  then show ?case by simp
next
  case (Suc n)
  then show ?case
    by (cases "gen i \<notin> set used") (auto dest!: Suc.IH)
qed

lemma try_ids_None: "try_ids gen used i n = None \<Longrightarrow> k \<in> {i..<i + n} \<Longrightarrow> gen k \<in> set used"
proof (induction n arbitrary: i)
  case 0
  then show ?case by simp
next
  case (Suc n)
  then show ?case
    by (cases "k = i") (auto split: if_splits)
qed

lemma try_ids_pigeonhole:
  assumes "inj_on gen {i..<i + n}" and "card (set used) < n"
  shows "\<exists>s. try_ids gen used i n = Some s"
proof (rule ccontr)
  assume "\<not> ?thesis"
  then have "try_ids gen used i n = None" by (cases "try_ids gen used i n") auto
  then have "gen ` {i..<i + n} \<subseteq> set used" by (auto dest: try_ids_None)
  then have "card (gen ` {i..<i + n}) \<le> card (set used)" by (intro card_mono) auto
  with assms show False by (simp add: card_image)
qed

lemma not_digit_x [simp]: "\<not> is_digit (CHR ''x'')"
  by code_simp

lemma suffix_id_takeWhile: "takeWhile is_digit (rev (suffix_id c i)) = rev (nat_to_string i)"
proof -
  have "takeWhile is_digit (rev (nat_to_string i) @ CHR ''x'' # ys) = rev (nat_to_string i)" for ys
    by (subst takeWhile_append2) (auto dest: nat_to_string_digits)
  then show ?thesis by (simp add: suffix_id_def Let_def)
qed

lemma suffix_id_inj: "suffix_id c i = suffix_id c j \<longleftrightarrow> i = j"
  by (metis nat_to_string_inj rev_rev_ident suffix_id_takeWhile)

lemma suffix_id_nonempty [simp]: "suffix_id c i \<noteq> []"
  by (simp add: suffix_id_def Let_def)

lemma length_suffix_id: "i < 1000 \<Longrightarrow> length (suffix_id c i) \<le> MAX_LEN"
  using length_nat_to_string_le [of i 3] by (auto simp: suffix_id_def Let_def MAX_LEN_def)

lemma sanitize_strict_nonempty: "sanitizeToolCallId sha i Strict \<noteq> []"
  by (auto simp: sanitizeToolCallId_def Let_def)

lemma sanitize_strict_alnum: "c \<in> set (sanitizeToolCallId sha i Strict) \<Longrightarrow> is_alnum c"
proof -
  have "list_all is_alnum ''defaulttoolid''" "list_all is_alnum ''sanitizedtoolid''"
    by code_simp+
  then show "c \<in> set (sanitizeToolCallId sha i Strict) \<Longrightarrow> is_alnum c"
    unfolding sanitizeToolCallId_def Let_def list_all_iff
    by (auto simp: replace_chars_delete split: if_splits)
qed

lemma length_shortHash: "length (shortHash sha s n) \<le> n"
  by (simp add: shortHash_def)

text \<open>
  The strict generator by cases: the plain base, the base with a hash, or a suffixed candidate.
  While fewer than 998 ids are taken the clock is never read.
\<close>

definition strict_candidate :: "(string \<Rightarrow> string) \<Rightarrow> string \<Rightarrow> string" where
  "strict_candidate sha i =
     (let base = take MAX_LEN (sanitizeToolCallId sha i Strict);
          hash = shortHash sha i 8; m = MAX_LEN - length hash
      in (if m < length base then take m base else base) @ hash)"

lemma makeUnique_strict_cases:
  assumes "card (set used) < 998"
  obtains (base) "makeUniqueToolCallId sha now i used Strict = take MAX_LEN (sanitizeToolCallId sha i Strict)"
      "take MAX_LEN (sanitizeToolCallId sha i Strict) \<notin> set used"
  | (hash) "makeUniqueToolCallId sha now i used Strict = strict_candidate sha i"
      "strict_candidate sha i \<notin> set used"
  | (suffix) k where "makeUniqueToolCallId sha now i used Strict = suffix_id (strict_candidate sha i) k"
      "suffix_id (strict_candidate sha i) k \<notin> set used" "k < 1000"
proof -
  have "inj_on (suffix_id (strict_candidate sha i)) {2..<2 + 998}"
    by (auto simp: inj_on_def suffix_id_inj)
  from try_ids_pigeonhole [OF this assms] obtain s
    where s: "try_ids (suffix_id (strict_candidate sha i)) used 2 998 = Some s" by blast
  from try_ids_Some [OF s] obtain k where k: "s = suffix_id (strict_candidate sha i) k"
    "s \<notin> set used" "k < 1000" by auto
  have eq: "makeUniqueToolCallId sha now i used Strict =
      (if take MAX_LEN (sanitizeToolCallId sha i Strict) \<notin> set used
       then take MAX_LEN (sanitizeToolCallId sha i Strict)
       else if strict_candidate sha i \<notin> set used then strict_candidate sha i else s)"
    using s by (simp add: makeUniqueToolCallId_def strict_candidate_def Let_def)
  show thesis
  proof (cases "take MAX_LEN (sanitizeToolCallId sha i Strict) \<notin> set used")
    case True
    with eq show ?thesis by (intro base) auto
  next
    case False
    show ?thesis
    proof (cases "strict_candidate sha i \<notin> set used")
      case True
      with False eq show ?thesis by (intro hash) auto
    next
      case cand: False
      with False eq k show ?thesis by (intro suffix [of k]) auto
    qed
  qed
qed

lemma strict_candidate_nonempty: "strict_candidate sha i \<noteq> []"
  using sanitize_strict_nonempty [of sha i] length_shortHash [of sha i 8]
  by (auto simp: strict_candidate_def Let_def MAX_LEN_def)

lemma length_strict_candidate: "length (strict_candidate sha i) \<le> MAX_LEN"
  using length_shortHash [of sha i 8]
  by (auto simp: strict_candidate_def Let_def MAX_LEN_def)

section \<open>Sources of unused ids\<close>

text \<open>
  What the transcript rewriter relies on: given fewer than \<open>capacity\<close> used ids, the source
  returns a non-empty id that is not among them.
\<close>

locale id_source =
  fixes fresh :: "string \<Rightarrow> string list \<Rightarrow> string" and capacity :: nat
  assumes fresh_unused: "card (set used) < capacity \<Longrightarrow> fresh i used \<notin> set used"
    and fresh_nonempty: "card (set used) < capacity \<Longrightarrow> fresh i used \<noteq> []"

interpretation strict_ids: id_source "\<lambda>i used. makeUniqueToolCallId sha (clock used) i used Strict" 998
  for sha clock
proof unfold_locales
  fix used :: "string list" and i
  assume "card (set used) < 998"
  then show "makeUniqueToolCallId sha (clock used) i used Strict \<notin> set used"
    by (rule makeUnique_strict_cases [where sha = sha and now = "clock used" and i = i]) auto
  assume "card (set used) < 998"
  then show "makeUniqueToolCallId sha (clock used) i used Strict \<noteq> []"
    by (rule makeUnique_strict_cases [where sha = sha and now = "clock used" and i = i])
      (auto simp: sanitize_strict_nonempty strict_candidate_nonempty MAX_LEN_def)
qed

section \<open>Renaming by the rewriter's map\<close>

definition ids_good :: "string set \<Rightarrow> id_state \<Rightarrow> bool" where
  "ids_good U st \<longleftrightarrow>
     omap_invar (id_map st) \<and> distinct (map snd (id_map st)) \<and> fst ` set (id_map st) \<subseteq> U
     \<and> set (used_ids st) = snd ` set (id_map st) \<and> [] \<notin> snd ` set (id_map st)"

definition ids_extend :: "id_state \<Rightarrow> id_state \<Rightarrow> bool" where
  "ids_extend st st' \<longleftrightarrow> map_of (id_map st) \<subseteq>\<^sub>m map_of (id_map st')"

definition renamed :: "id_state \<Rightarrow> string \<Rightarrow> string" where
  "renamed st i = (case map_of (id_map st) i of Some n \<Rightarrow> n | None \<Rightarrow> i)"

text \<open>Every id a message makes the rewriter resolve.\<close>

definition resolved_ids :: "jsv \<Rightarrow> string list" where
  "resolved_ids msg =
     (if has_role ''assistant'' msg then map call_id (extractToolCallsFromAssistant msg)
      else if has_role ''toolResult'' msg
        then map str_of (filter nonempty_str [jget msg ''toolCallId'', jget msg ''toolUseId''])
      else [])"

lemma ids_extend_refl [simp]: "ids_extend st st"
  by (simp add: ids_extend_def)

lemma ids_extend_trans: "ids_extend a b \<Longrightarrow> ids_extend b c \<Longrightarrow> ids_extend a c"
  unfolding ids_extend_def by (rule map_le_trans)

lemma renamed_extend: "map_of (id_map st) i = Some n \<Longrightarrow> ids_extend st st' \<Longrightarrow> renamed st' i = n"
  unfolding ids_extend_def renamed_def map_le_def by (metis domI option.simps(5))

lemma inj_on_renamed:
  assumes "ids_good U st" and "V \<subseteq> fst ` set (id_map st)"
  shows "inj_on (renamed st) V"
proof (rule inj_onI)
  fix i j assume "i \<in> V" "j \<in> V" and eq: "renamed st i = renamed st j"
  with assms(2) obtain n m where n: "map_of (id_map st) i = Some n" "map_of (id_map st) j = Some m"
    by (metis (no_types, lifting) domD dom_map_of_conv_image_fst subsetD)
  with eq have "(i, n) \<in> set (id_map st)" "(j, n) \<in> set (id_map st)"
    by (auto simp: renamed_def dest: map_of_SomeD)
  moreover have "inj_on snd (set (id_map st))" using assms(1) by (simp add: ids_good_def distinct_map)
  ultimately have "(i, n) = (j, n)" by (metis inj_onD snd_conv)
  then show "i = j" by simp
qed

lemma nonempty_str_iff: "nonempty_str v \<longleftrightarrow> (\<exists>s. v = JStr s \<and> s \<noteq> [])"
  by (auto simp: nonempty_str_def split: jsv.splits)

lemma map_filter_Cons_ids:
  "map call_id (List.map_filter extractToolCall (b # bs)) =
     (case extractToolCall b of None \<Rightarrow> [] | Some c \<Rightarrow> [call_id c]) @
     map call_id (List.map_filter extractToolCall bs)"
  by (cases "extractToolCall b") (simp_all add: List.map_filter_simps del: extractToolCall.simps)

context id_source
begin

lemma resolve_ok:
  assumes good: "ids_good U st" and U: "finite U" "card U \<le> capacity" and i: "i \<in> U"
    and res: "resolve fresh i st = (n, st')"
  shows "ids_good U st' \<and> ids_extend st st' \<and> map_of (id_map st') i = Some n \<and> n \<noteq> []"
proof (cases "map_of (id_map st) i")
  case (Some e)
  then have "e \<in> snd ` set (id_map st)" by (metis map_of_SomeD image_eqI snd_conv)
  with good have "e \<noteq> []" unfolding ids_good_def by metis
  with Some res good show ?thesis by (auto simp: resolve_def)
next
  case None
  then have i_new: "i \<notin> fst ` set (id_map st)" by (simp add: map_of_eq_None_iff)
  have "insert i (fst ` set (id_map st)) \<subseteq> U" using good i by (auto simp: ids_good_def)
  with U(1) have "card (insert i (fst ` set (id_map st))) \<le> card U" by (rule card_mono)
  with i_new U(2) have "card (fst ` set (id_map st)) < capacity" by simp
  moreover have "card (set (used_ids st)) = card (fst ` set (id_map st))"
    using good unfolding ids_good_def omap_invar_def
    by (metis distinct_card length_map list.set_map)
  ultimately have "fresh i (used_ids st) \<notin> set (used_ids st)" "fresh i (used_ids st) \<noteq> []"
    using fresh_unused fresh_nonempty by auto
  moreover have st': "n = fresh i (used_ids st)"
    "st' = \<lparr>id_map = id_map st @ [(i, n)], used_ids = set_add (used_ids st) n\<rparr>"
    using res None i_new by (auto simp: resolve_def Let_def update_new)
  ultimately show ?thesis
    using good i i_new None
    by (auto simp: ids_good_def ids_extend_def omap_invar_def map_le_def map_add_def)
qed

lemma rewriteBlock_ok:
  assumes good: "ids_good U st" and U: "finite U" "card U \<le> capacity"
    and ids: "\<And>c. extractToolCall b = Some c \<Longrightarrow> call_id c \<in> U"
    and res: "rewriteBlock fresh b st = (b', ch, st')"
  shows "ids_good U st' \<and> ids_extend st st' \<and> (\<not> ch \<longrightarrow> b' = b) \<and>
    (\<forall>st2. ids_extend st' st2 \<longrightarrow>
       map_option call_id (extractToolCall b') = map_option (renamed st2 \<circ> call_id) (extractToolCall b)) \<and>
    (\<forall>c. extractToolCall b = Some c \<longrightarrow> call_id c \<in> fst ` set (id_map st'))"
proof (cases "extractToolCall b")
  case None
  then have "rewriteBlock fresh b st = (b, False, st)"
    by (auto simp: rewriteBlock_def split: if_splits)
  with res None good show ?thesis by auto
next
  case (Some c)
  then obtain fs where b: "b = JObj fs" by (cases b) (auto simp: nonempty_str_def split: if_splits)
  from Some have shape: "is_call_type (jget b ''type'')" "jget b ''id'' = JStr (call_id c)" "call_id c \<noteq> []"
    by (auto simp: nonempty_str_iff split: if_splits)
  obtain n st1 where r: "resolve fresh (call_id c) st = (n, st1)" by fastforce
  from resolve_ok [OF good U ids [OF Some] r] have ok: "ids_good U st1" "ids_extend st st1"
    "map_of (id_map st1) (call_id c) = Some n" "n \<noteq> []" by auto
  have out: "st' = st1" "ch = (n \<noteq> call_id c)" "b' = (if n = call_id c then b else jput ''id'' (JStr n) b)"
    using res r shape b by (auto simp: rewriteBlock_def nonempty_str_iff split: if_splits)
  have "map_option call_id (extractToolCall b') = Some n"
    using shape out b ok(4) by (auto simp: nonempty_str_iff simp del: jget.simps jput.simps)
  moreover have "renamed st2 (call_id c) = n" if "ids_extend st' st2" for st2
    using renamed_extend ok(3) that out(1) by blast
  moreover have "call_id c \<in> fst ` set (id_map st')"
    using ok(3) out(1) by (metis domI dom_map_of_conv_image_fst)
  ultimately show ?thesis
    using Some ok(1,2) out by (simp del: extractToolCall.simps)
qed

lemma rewriteBlocks_ok:
  assumes "ids_good U st" and "finite U" "card U \<le> capacity"
    and "set (map call_id (List.map_filter extractToolCall bs)) \<subseteq> U"
    and "rewriteBlocks fresh bs st = (bs', ch, st')"
  shows "ids_good U st' \<and> ids_extend st st' \<and> (\<not> ch \<longrightarrow> bs' = bs) \<and>
    (\<forall>st2. ids_extend st' st2 \<longrightarrow>
       map call_id (List.map_filter extractToolCall bs') =
         map (renamed st2) (map call_id (List.map_filter extractToolCall bs))) \<and>
    set (map call_id (List.map_filter extractToolCall bs)) \<subseteq> fst ` set (id_map st')"
  using assms
proof (induction bs arbitrary: st bs' ch st')
  case Nil
  then show ?case by (simp add: List.map_filter_simps)
next
  case (Cons b bs)
  obtain b1 c1 st1 where r1: "rewriteBlock fresh b st = (b1, c1, st1)" using prod_cases3 by blast
  obtain bs2 c2 st2 where r2: "rewriteBlocks fresh bs st1 = (bs2, c2, st2)" using prod_cases3 by blast
  from Cons.prems(5) r1 r2 have out: "bs' = b1 # bs2" "ch = (c1 \<or> c2)" "st' = st2" by auto
  have ids: "call_id c \<in> U" if "extractToolCall b = Some c" for c
    using Cons.prems(4) that unfolding map_filter_Cons_ids by simp
  from rewriteBlock_ok [OF Cons.prems(1-3) ids r1] have A:
    "ids_good U st1" "ids_extend st st1" "\<not> c1 \<Longrightarrow> b1 = b"
    "\<And>s. ids_extend st1 s \<Longrightarrow>
       map_option call_id (extractToolCall b1) = map_option (renamed s \<circ> call_id) (extractToolCall b)"
    "\<And>c. extractToolCall b = Some c \<Longrightarrow> call_id c \<in> fst ` set (id_map st1)"
    by blast+
  have "set (map call_id (List.map_filter extractToolCall bs)) \<subseteq> U"
    using Cons.prems(4) unfolding map_filter_Cons_ids by simp
  from Cons.IH [OF A(1) Cons.prems(2,3) this r2] have B:
    "ids_good U st2" "ids_extend st1 st2" "\<not> c2 \<Longrightarrow> bs2 = bs"
    "\<And>s. ids_extend st2 s \<Longrightarrow> map call_id (List.map_filter extractToolCall bs2) =
         map (renamed s) (map call_id (List.map_filter extractToolCall bs))"
    "set (map call_id (List.map_filter extractToolCall bs)) \<subseteq> fst ` set (id_map st2)"
    by blast+
  have heads: "(case extractToolCall b1 of None \<Rightarrow> [] | Some c \<Rightarrow> [call_id c]) =
      map (renamed s) (case extractToolCall b of None \<Rightarrow> [] | Some c \<Rightarrow> [call_id c])"
    if "ids_extend st2 s" for s
    using A(4) [OF ids_extend_trans [OF B(2) that]] by (auto split: option.splits simp del: extractToolCall.simps)
  have dom12: "fst ` set (id_map st1) \<subseteq> fst ` set (id_map st2)"
    using B(2) unfolding ids_extend_def by (metis dom_map_of_conv_image_fst map_le_implies_dom_le)
  show ?case
    unfolding out map_filter_Cons_ids
    using A(2,3,5) B heads dom12 ids_extend_trans [OF A(2) B(2)]
    by (auto split: option.splits simp del: extractToolCall.simps)
qed

lemma resolveField_ok:
  assumes good: "ids_good U st" and U: "finite U" "card U \<le> capacity"
    and ids: "nonempty_str v \<Longrightarrow> str_of v \<in> U"
    and res: "resolveField fresh v st = (old, nxt, st')"
  shows "ids_good U st' \<and> ids_extend st st' \<and>
    old = (if nonempty_str v then Some (str_of v) else None) \<and>
    (\<forall>st2. ids_extend st' st2 \<longrightarrow> nxt = map_option (renamed st2) old) \<and>
    (\<forall>n. nxt = Some n \<longrightarrow> n \<noteq> []) \<and>
    (nonempty_str v \<longrightarrow> str_of v \<in> fst ` set (id_map st'))"
proof (cases "nonempty_str v")
  case False
  with res good show ?thesis by (auto simp: resolveField_def)
next
  case True
  obtain n st1 where r: "resolve fresh (str_of v) st = (n, st1)" by fastforce
  from resolve_ok [OF good U ids [OF True] r] have ok: "ids_good U st1" "ids_extend st st1"
    "map_of (id_map st1) (str_of v) = Some n" "n \<noteq> []" by auto
  have out: "old = Some (str_of v)" "nxt = Some n" "st' = st1"
    using res r True by (auto simp: resolveField_def)
  have "str_of v \<in> fst ` set (id_map st1)"
    using ok(3) by (metis domI dom_map_of_conv_image_fst)
  then show ?thesis
    using True ok out renamed_extend [OF ok(3)] by auto
qed

lemma rewriteToolResultIds_ok:
  assumes good: "ids_good U st" and U: "finite U" "card U \<le> capacity"
    and role: "has_role ''toolResult'' m" and ids: "set (resolved_ids m) \<subseteq> U"
    and res: "rewriteToolResultIds fresh m st = (m', ch, st')"
  shows "ids_good U st' \<and> ids_extend st st' \<and> (\<not> ch \<longrightarrow> m' = m) \<and>
    (\<forall>st2. ids_extend st' st2 \<longrightarrow> message_ids m' = map (renamed st2) (message_ids m)) \<and>
    set (resolved_ids m) \<subseteq> fst ` set (id_map st')"
proof -
  from role obtain fs where m: "m = JObj fs" by (cases m) (auto simp: has_role_def)
  have not_asst: "\<not> has_role ''assistant'' m" using role by (auto simp: has_role_def)
  obtain o1 n1 st1 where r1: "resolveField fresh (jget m ''toolCallId'') st = (o1, n1, st1)"
    using prod_cases3 by blast
  obtain o2 n2 st2 where r2: "resolveField fresh (jget m ''toolUseId'') st1 = (o2, n2, st2)"
    using prod_cases3 by blast
  have in_U: "nonempty_str (jget m k) \<Longrightarrow> str_of (jget m k) \<in> U" if "k \<in> {''toolCallId'', ''toolUseId''}" for k
    using ids role not_asst that by (auto simp: resolved_ids_def split: if_splits)
  from resolveField_ok [OF good U in_U r1] have A: "ids_good U st1" "ids_extend st st1"
    "o1 = (if nonempty_str (jget m ''toolCallId'') then Some (str_of (jget m ''toolCallId'')) else None)"
    "\<And>s. ids_extend st1 s \<Longrightarrow> n1 = map_option (renamed s) o1" "\<And>n. n1 = Some n \<Longrightarrow> n \<noteq> []"
    "nonempty_str (jget m ''toolCallId'') \<Longrightarrow> str_of (jget m ''toolCallId'') \<in> fst ` set (id_map st1)"
    by auto
  from resolveField_ok [OF A(1) U in_U r2] have B: "ids_good U st2" "ids_extend st1 st2"
    "o2 = (if nonempty_str (jget m ''toolUseId'') then Some (str_of (jget m ''toolUseId'')) else None)"
    "\<And>s. ids_extend st2 s \<Longrightarrow> n2 = map_option (renamed s) o2" "\<And>n. n2 = Some n \<Longrightarrow> n \<noteq> []"
    "nonempty_str (jget m ''toolUseId'') \<Longrightarrow> str_of (jget m ''toolUseId'') \<in> fst ` set (id_map st2)"
    by auto
  define m2 where "m2 = putField ''toolUseId'' n2 (putField ''toolCallId'' n1 m)"
  have out: "st' = st2" "ch = (\<not> (n1 = o1 \<and> n2 = o2))" "m' = (if n1 = o1 \<and> n2 = o2 then m else m2)"
    using res r1 r2 by (auto simp: rewriteToolResultIds_def m2_def split: if_splits)
  have n1: "n1 = map_option (renamed s) o1" if "ids_extend st2 s" for s
    using A(4) ids_extend_trans [OF B(2) that] by blast
  have dom12: "fst ` set (id_map st1) \<subseteq> fst ` set (id_map st2)"
    using B(2) unfolding ids_extend_def by (metis dom_map_of_conv_image_fst map_le_implies_dom_le)
  have get1: "jget m2 ''toolCallId'' = (case n1 of Some s \<Rightarrow> JStr s | None \<Rightarrow> jget m ''toolCallId'')"
    and get2: "jget m2 ''toolUseId'' = (case n2 of Some s \<Rightarrow> JStr s | None \<Rightarrow> jget m ''toolUseId'')"
    and get3: "jget m2 ''role'' = jget m ''role''" and obj: "is_object m2"
    unfolding m2_def putField_def using m A(5) B(5)
    by (cases n1; cases n2; simp del: jget.simps jput.simps)+
  have "extractToolResultId m2 = map_option (renamed s) (extractToolResultId m)" if "ids_extend st2 s" for s
  proof (cases n1)
    case (Some a)
    with n1 [OF that] A(3,5) get1 show ?thesis
      by (auto simp: extractToolResultId_def nonempty_str_def split: if_splits)
  next
    case None
    with n1 [OF that] A(3) have no1: "\<not> nonempty_str (jget m ''toolCallId'')" by (auto split: if_splits)
    show ?thesis
    proof (cases n2)
      case (Some b)
      with None no1 B(4) [OF that] B(3,5) get1 get2 show ?thesis
        by (auto simp: extractToolResultId_def nonempty_str_def split: if_splits)
    next
      case None
      with \<open>n1 = None\<close> no1 B(4) [OF that] B(3) get1 get2 show ?thesis
        by (auto simp: extractToolResultId_def split: if_splits)
    qed
  qed
  moreover have "extractToolResultId m = map_option (renamed s) (extractToolResultId m)"
    if "ids_extend st2 s" "n1 = o1" "n2 = o2" for s
    using n1 [OF that(1)] B(4) [OF that(1)] that A(3) B(3)
    by (auto simp: extractToolResultId_def split: if_splits)
  moreover have "message_ids m = (case extractToolResultId m of Some i \<Rightarrow> [i] | None \<Rightarrow> [])"
    "message_ids m2 = (case extractToolResultId m2 of Some i \<Rightarrow> [i] | None \<Rightarrow> [])"
    using role not_asst get3 obj by (auto simp: message_ids_def has_role_def)
  ultimately have "message_ids m' = map (renamed s) (message_ids m)" if "ids_extend st2 s" for s
    using that out(3) by (cases "extractToolResultId m") auto
  moreover have "set (resolved_ids m) \<subseteq> fst ` set (id_map st2)"
    using A(6) B(6) dom12 role not_asst by (auto simp: resolved_ids_def)
  ultimately show ?thesis
    using out B(1) ids_extend_trans [OF A(2) B(2)] by auto
qed

lemma rewriteAssistantToolCallIds_ok:
  assumes good: "ids_good U st" and U: "finite U" "card U \<le> capacity"
    and role: "has_role ''assistant'' m" and ids: "set (resolved_ids m) \<subseteq> U"
    and res: "rewriteAssistantToolCallIds fresh m st = (m', ch, st')"
  shows "ids_good U st' \<and> ids_extend st st' \<and> (\<not> ch \<longrightarrow> m' = m) \<and>
    (\<forall>st2. ids_extend st' st2 \<longrightarrow> message_ids m' = map (renamed st2) (message_ids m)) \<and>
    set (resolved_ids m) \<subseteq> fst ` set (id_map st')"
proof (cases "jget m ''content''")
  case (JArr blocks)
  from role obtain fs where m: "m = JObj fs" by (cases m) (auto simp: has_role_def)
  have mids: "message_ids m = map call_id (List.map_filter extractToolCall blocks)"
    "resolved_ids m = map call_id (List.map_filter extractToolCall blocks)"
    using role JArr by (auto simp: message_ids_def resolved_ids_def extractToolCallsFromAssistant_def)
  obtain nxt c st1 where r: "rewriteBlocks fresh blocks st = (nxt, c, st1)" using prod_cases3 by blast
  have out: "st' = st1" "ch = c" "m' = (if c then jput ''content'' (JArr nxt) m else m)"
    using res r JArr by (auto simp: rewriteAssistantToolCallIds_def split: if_splits)
  from ids mids have "set (map call_id (List.map_filter extractToolCall blocks)) \<subseteq> U" by simp
  note B = rewriteBlocks_ok [OF good U this r]
  have "message_ids m' = map call_id (List.map_filter extractToolCall nxt)"
  proof (cases c)
    case True
    with out role m show ?thesis
      by (simp add: message_ids_def has_role_def extractToolCallsFromAssistant_def
          del: jget.simps jput.simps)
  next
    case False
    with B out mids show ?thesis by simp
  qed
  with B out mids show ?thesis by auto
qed (use role res good in \<open>auto simp: rewriteAssistantToolCallIds_def message_ids_def resolved_ids_def
        extractToolCallsFromAssistant_def List.map_filter_simps\<close>)

lemma rewriteMessage_ok:
  assumes "ids_good U st" "finite U" "card U \<le> capacity" "set (resolved_ids m) \<subseteq> U"
    and "rewriteMessage fresh m st = (m', ch, st')"
  shows "ids_good U st' \<and> ids_extend st st' \<and> (\<not> ch \<longrightarrow> m' = m) \<and>
    (\<forall>st2. ids_extend st' st2 \<longrightarrow> message_ids m' = map (renamed st2) (message_ids m)) \<and>
    set (resolved_ids m) \<subseteq> fst ` set (id_map st')"
proof (cases "has_role ''assistant'' m")
  case True
  with assms show ?thesis
    by (intro rewriteAssistantToolCallIds_ok) (auto simp: rewriteMessage_def)
next
  case not_asst: False
  show ?thesis
  proof (cases "has_role ''toolResult'' m")
    case True
    with not_asst assms show ?thesis
      by (intro rewriteToolResultIds_ok) (auto simp: rewriteMessage_def)
  next
    case False
    with not_asst assms show ?thesis
      by (auto simp: rewriteMessage_def message_ids_def resolved_ids_def)
  qed
qed

lemma rewriteMessages_ok:
  assumes "ids_good U st" "finite U" "card U \<le> capacity" "set (concat (map resolved_ids ms)) \<subseteq> U"
    and "rewriteMessages fresh ms st = (ms', ch, st')"
  shows "ids_good U st' \<and> ids_extend st st' \<and> (\<not> ch \<longrightarrow> ms' = ms) \<and>
    (\<forall>st2. ids_extend st' st2 \<longrightarrow> map message_ids ms' = map (\<lambda>m. map (renamed st2) (message_ids m)) ms) \<and>
    set (concat (map resolved_ids ms)) \<subseteq> fst ` set (id_map st')"
  using assms
proof (induction ms arbitrary: st ms' ch st')
  case Nil
  then show ?case by simp
next
  case (Cons m ms)
  obtain m1 c1 st1 where r1: "rewriteMessage fresh m st = (m1, c1, st1)" using prod_cases3 by blast
  obtain ms2 c2 st2 where r2: "rewriteMessages fresh ms st1 = (ms2, c2, st2)" using prod_cases3 by blast
  from Cons.prems(5) r1 r2 have out: "ms' = m1 # ms2" "ch = (c1 \<or> c2)" "st' = st2" by auto
  have "set (resolved_ids m) \<subseteq> U" "set (concat (map resolved_ids ms)) \<subseteq> U"
    using Cons.prems(4) by auto
  note A = rewriteMessage_ok [OF Cons.prems(1-3) this(1) r1]
  then have "ids_good U st1" by blast
  note B = Cons.IH [OF this Cons.prems(2,3) \<open>set (concat (map resolved_ids ms)) \<subseteq> U\<close> r2]
  have ext: "ids_extend st st1" "ids_extend st1 st2" using A B by blast+
  have dom12: "fst ` set (id_map st1) \<subseteq> fst ` set (id_map st2)"
    using ext(2) unfolding ids_extend_def by (metis dom_map_of_conv_image_fst map_le_implies_dom_le)
  have hd_ok: "message_ids m1 = map (renamed s) (message_ids m)" if "ids_extend st2 s" for s
    using A ids_extend_trans [OF ext(2) that] by blast
  have "set (resolved_ids m) \<subseteq> fst ` set (id_map st2)" using A dom12 by blast
  with A B hd_ok ids_extend_trans [OF ext] show ?case
    unfolding out by simp
qed

end

section \<open>Properties\<close>

lemma suffix_id_alnum:
  assumes "\<And>c. c \<in> set cand \<Longrightarrow> is_alnum c" and "c \<in> set (suffix_id cand i)"
  shows "is_alnum c"
proof -
  have "is_alnum (CHR ''x'')" by code_simp
  moreover have "is_alnum c" if "c \<in> set (nat_to_string i)"
    using nat_to_string_digits [OF that] by (simp add: is_alnum_def)
  ultimately show ?thesis
    using assms by (auto simp: suffix_id_def Let_def dest: in_set_takeD)
qed

lemma strict_candidate_alnum:
  assumes "list_all is_alnum (sha i)"
  shows "\<forall>c \<in> set (strict_candidate sha i). is_alnum c"
  using assms sanitize_strict_alnum [of _ sha i]
  by (auto simp: strict_candidate_def Let_def shortHash_def list_all_iff dest: in_set_takeD split: if_splits)

text \<open>
  While fewer than 998 ids are in use, the strict generator returns an id that is unused,
  non-empty, at most 40 characters long and purely alphanumeric (the digest of SHA-1 being
  alphanumeric).
\<close>

theorem makeUniqueToolCallId_strict_ok:
  assumes "card (set used) < 998" and "list_all is_alnum (sha i)"
  shows "makeUniqueToolCallId sha now i used Strict \<notin> set used
    \<and> makeUniqueToolCallId sha now i used Strict \<noteq> []
    \<and> length (makeUniqueToolCallId sha now i used Strict) \<le> 40
    \<and> list_all is_alnum (makeUniqueToolCallId sha now i used Strict)"
proof (cases rule: makeUnique_strict_cases [OF assms(1), where sha = sha and now = now and i = i,
    case_names base hash suffix])
  case base
  with sanitize_strict_nonempty [of sha i] sanitize_strict_alnum [of _ sha i] show ?thesis
    by (auto simp: MAX_LEN_def list_all_iff dest: in_set_takeD)
next
  case hash
  with strict_candidate_nonempty [of sha i] length_strict_candidate [of sha i]
    strict_candidate_alnum [of sha i] assms(2) show ?thesis
    by (auto simp: MAX_LEN_def list_all_iff)
next
  case (suffix k)
  have "list_all is_alnum (suffix_id (strict_candidate sha i) k)"
    unfolding list_all_iff
    using suffix_id_alnum strict_candidate_alnum [of sha i, OF assms(2)] by meson
  with suffix length_suffix_id [of k "strict_candidate sha i"] show ?thesis
    by (auto simp: MAX_LEN_def)
qed

theorem makeUniqueToolCallId_strict_ok_witness:
  "makeUniqueToolCallId (\<lambda>s. replicate 40 (CHR ''a'')) [] ''call-1|x'' [''call1x''] Strict = ''call1xaaaaaaaa''
   \<and> makeUniqueToolCallId (\<lambda>s. replicate 40 (CHR ''a'')) [] ''call-1|x'' [''call1x''] Strict \<notin> {''call1x''}"
proof
  show "makeUniqueToolCallId (\<lambda>s. replicate 40 (CHR ''a'')) [] ''call-1|x'' [''call1x''] Strict = ''call1xaaaaaaaa''"
    by code_simp
  have "list_all is_alnum (replicate 40 (CHR ''a''))" by code_simp
  then show "makeUniqueToolCallId (\<lambda>s. replicate 40 (CHR ''a'')) [] ''call-1|x'' [''call1x''] Strict \<notin> {''call1x''}"
    using makeUniqueToolCallId_strict_ok [of "[''call1x'']" "\<lambda>s. replicate 40 (CHR ''a'')" "''call-1|x''" "[]"]
    by simp
qed

text \<open>
  C5. Rewriting a transcript renames its tool-call ids by one injective function: with at most
  998 distinct ids, the ids that every message of the result carries (the calls of an assistant
  message, the reference of a tool result) are the images of the original ones, position by
  position, so each tool result still refers to its own call and to no other.
\<close>

theorem sanitizeToolCallIdsForTranscript_renames:
  assumes "card (set (concat (map resolved_ids messages))) \<le> 998"
  shows "\<exists>f. inj_on f (set (concat (map resolved_ids messages))) \<and>
    map message_ids (sanitizeToolCallIdsForTranscript sha clock messages Strict) =
      map (\<lambda>m. map f (message_ids m)) messages"
proof -
  let ?fresh = "\<lambda>i used. makeUniqueToolCallId sha (clock used) i used Strict"
  let ?U = "set (concat (map resolved_ids messages))"
  obtain out ch st where r: "rewriteMessages ?fresh messages \<lparr>id_map = [], used_ids = []\<rparr> = (out, ch, st)"
    using prod_cases3 by blast
  have "ids_good ?U \<lparr>id_map = [], used_ids = []\<rparr>" by (simp add: ids_good_def omap_invar_def)
  from strict_ids.rewriteMessages_ok [OF this finite_set assms subset_refl r]
  have ok: "ids_good ?U st" "\<not> ch \<longrightarrow> out = messages" "?U \<subseteq> fst ` set (id_map st)"
    "map message_ids out = map (\<lambda>m. map (renamed st) (message_ids m)) messages"
    by auto
  have "sanitizeToolCallIdsForTranscript sha clock messages Strict = out"
    using r ok(2) by (simp add: sanitizeToolCallIdsForTranscript_def)
  with ok(4) inj_on_renamed [OF ok(1,3)] show ?thesis by auto
qed

definition demo_transcript :: "jsv list" where
  "demo_transcript =
     [JObj [(''role'', JStr ''assistant''),
            (''content'', JArr [JObj [(''type'', JStr ''toolCall''), (''id'', JStr ''a|1'')],
                              JObj [(''type'', JStr ''toolCall''), (''id'', JStr ''a-1'')]])],
      JObj [(''role'', JStr ''toolResult''), (''toolCallId'', JStr ''a-1'')]]"

theorem sanitizeToolCallIdsForTranscript_renames_witness:
  "map message_ids demo_transcript = [[''a|1'', ''a-1''], [''a-1'']] \<and>
   (\<exists>f. inj_on f {''a|1'', ''a-1''} \<and>
     map message_ids (sanitizeToolCallIdsForTranscript (\<lambda>s. ''0123456789'') (\<lambda>u. []) demo_transcript Strict)
       = [[f ''a|1'', f ''a-1''], [f ''a-1'']])"
proof -
  have ids: "map message_ids demo_transcript = [[''a|1'', ''a-1''], [''a-1'']]"
    and res: "concat (map resolved_ids demo_transcript) = [''a|1'', ''a-1'', ''a-1'']"
    by code_simp+
  have "card (set (concat (map resolved_ids demo_transcript))) \<le> 998"
    unfolding res by simp
  from sanitizeToolCallIdsForTranscript_renames [OF this, of "\<lambda>s. ''0123456789''" "\<lambda>u. []"]
  obtain f where f: "inj_on f (set (concat (map resolved_ids demo_transcript)))"
    "map message_ids (sanitizeToolCallIdsForTranscript (\<lambda>s. ''0123456789'') (\<lambda>u. []) demo_transcript Strict)
      = map (\<lambda>m. map f (message_ids m)) demo_transcript" by blast
  have inj: "inj_on f {''a|1'', ''a-1''}"
    using f(1) unfolding res by (rule inj_on_subset) simp
  have "map (\<lambda>m. map f (message_ids m)) demo_transcript = map (map f) (map message_ids demo_transcript)"
    by simp
  with f(2) have "map message_ids (sanitizeToolCallIdsForTranscript (\<lambda>s. ''0123456789'') (\<lambda>u. []) demo_transcript Strict)
      = [[f ''a|1'', f ''a-1''], [f ''a-1'']]"
    unfolding ids by simp
  with ids inj show ?thesis by (intro conjI exI [of _ f])
qed

end
