(* ===== verification/Transcript_Repair.thy ===== *)
theory Transcript_Repair
  imports Tool_Call_Id
begin

text \<open>
  Repair of a stored conversation, \<open>src/agents/session-transcript-repair.ts\<close>: dropping
  malformed tool calls from assistant messages, and moving every tool result directly behind
  the assistant message that asked for it, with synthetic error results for calls that have
  none. The main loop of \<open>repairToolUseResultPairing\<close>, with its inner scan over the messages up to
  the next assistant message, is the recursion \<open>pairLoop\<close> over the remaining messages.
  The lemmas show that no other message is lost or reordered, that a repaired transcript has
  every result behind its call and no id answered twice, and that every call has an answer.
\<close>

section \<open>Malformed tool calls\<close>

definition isToolCallBlock :: "jsv \<Rightarrow> bool" where
  "isToolCallBlock block \<longleftrightarrow> is_object block \<and> is_call_type (jget block ''type'')"

definition hasToolCallInput :: "jsv \<Rightarrow> bool" where
  "hasToolCallInput block \<longleftrightarrow>
     (jhas block ''input'' \<and> \<not> nullish (jget block ''input''))
     \<or> (jhas block ''arguments'' \<and> \<not> nullish (jget block ''arguments''))"

definition hasNonEmptyStringField :: "jsv \<Rightarrow> bool" where
  "hasNonEmptyStringField v \<longleftrightarrow> (case v of JStr s \<Rightarrow> trim s \<noteq> [] | _ \<Rightarrow> False)"

definition hasToolCallId :: "jsv \<Rightarrow> bool" where
  "hasToolCallId block = hasNonEmptyStringField (jget block ''id'')"

definition hasToolCallName :: "jsv \<Rightarrow> bool" where
  "hasToolCallName block = hasNonEmptyStringField (jget block ''name'')"

definition malformedCall :: "jsv \<Rightarrow> bool" where
  "malformedCall block \<longleftrightarrow>
     isToolCallBlock block \<and> (\<not> hasToolCallInput block \<or> \<not> hasToolCallId block \<or> \<not> hasToolCallName block)"

record input_report =
  ir_messages :: "jsv list"
  droppedToolCalls :: nat
  droppedAssistantMessages :: nat

text \<open>The loop of \<open>repairToolCallInputs\<close>: output, the two counters and the \<open>changed\<close> flag.\<close>

fun repairInputsLoop :: "jsv list \<Rightarrow> jsv list \<times> nat \<times> nat \<times> bool" where
  "repairInputsLoop [] = ([], 0, 0, False)"
| "repairInputsLoop (msg # rest) =
     (let (out, calls, assts, changed) = repairInputsLoop rest in
      if \<not> has_role ''assistant'' msg \<or> \<not> is_array (jget msg ''content'')
      then (msg # out, calls, assts, changed)
      else
        let content = elems (jget msg ''content'');
            nextContent = filter (\<lambda>b. \<not> malformedCall b) content;
            dropped = length (filter malformedCall content)
        in if 0 < dropped
           then (if nextContent = [] then (out, calls + dropped, Suc assts, True)
                 else (jput ''content'' (JArr nextContent) msg # out, calls + dropped, assts, True))
           else (msg # out, calls, assts, changed))"

definition repairToolCallInputs :: "jsv list \<Rightarrow> input_report" where
  "repairToolCallInputs messages =
     (let (out, calls, assts, changed) = repairInputsLoop messages in
      \<lparr>ir_messages = (if changed then out else messages),
       droppedToolCalls = calls, droppedAssistantMessages = assts\<rparr>)"

definition sanitizeToolCallInputs :: "jsv list \<Rightarrow> jsv list" where
  "sanitizeToolCallInputs messages = ir_messages (repairToolCallInputs messages)"

section \<open>Pairing results with calls\<close>

definition MISSING_RESULT_TEXT :: string where
  "MISSING_RESULT_TEXT =
     ''[t560] missing tool result in session history; inserted synthetic error result for transcript repair.''"

definition makeMissingToolResult :: "int \<Rightarrow> string \<Rightarrow> string option \<Rightarrow> jsv" where
  "makeMissingToolResult now toolCallId toolName =
     JObj [(''role'', JStr ''toolResult''),
           (''toolCallId'', JStr toolCallId),
           (''toolName'', JStr (case toolName of Some n \<Rightarrow> n | None \<Rightarrow> ''unknown'')),
           (''content'', JArr [JObj [(''type'', JStr ''text''), (''text'', JStr MISSING_RESULT_TEXT)]]),
           (''isError'', JBool True),
           (''timestamp'', JNum (Fin (of_int now)))]"

record pair_state =
  pr_out :: "jsv list"
  pr_added :: "jsv list"
  pr_seen :: "string list"
  pr_duplicates :: nat
  pr_orphans :: nat
  pr_moved :: bool
  pr_changed :: bool

definition initPair :: pair_state where
  "initPair = \<lparr>pr_out = [], pr_added = [], pr_seen = [], pr_duplicates = 0, pr_orphans = 0,
               pr_moved = False, pr_changed = False\<rparr>"

definition pushOut :: "jsv \<Rightarrow> pair_state \<Rightarrow> pair_state" where
  "pushOut msg st = st\<lparr>pr_out := pr_out st @ [msg]\<rparr>"

definition pushToolResult :: "jsv \<Rightarrow> pair_state \<Rightarrow> pair_state" where
  "pushToolResult msg st =
     (case extractToolResultId msg of
        Some i \<Rightarrow>
          if i \<in> set (pr_seen st)
          then st\<lparr>pr_duplicates := Suc (pr_duplicates st), pr_changed := True\<rparr>
          else st\<lparr>pr_seen := pr_seen st @ [i], pr_out := pr_out st @ [msg]\<rparr>
      | None \<Rightarrow> st\<lparr>pr_out := pr_out st @ [msg]\<rparr>)"

text \<open>
  The inner scan: results that answer one of the assistant message's calls are collected by
  id (the first one wins), other results are dropped, everything else goes to the remainder,
  and the next assistant message ends the span.
\<close>

fun scanSpan ::
  "string list \<Rightarrow> jsv list \<Rightarrow> (string, jsv) omap \<Rightarrow> jsv list \<Rightarrow> pair_state \<Rightarrow>
   (string, jsv) omap \<times> jsv list \<times> pair_state \<times> jsv list" where
  "scanSpan ids [] spanR remainder st = (spanR, remainder, st, [])"
| "scanSpan ids (nxt # rest) spanR remainder st =
     (if \<not> is_object nxt then scanSpan ids rest spanR (remainder @ [nxt]) st
      else if has_role ''assistant'' nxt then (spanR, remainder, st, nxt # rest)
      else if has_role ''toolResult'' nxt then
        (case extractToolResultId nxt of
           Some i \<Rightarrow>
             if i \<in> set ids then
               (if i \<in> set (pr_seen st)
                then scanSpan ids rest spanR remainder
                       (st\<lparr>pr_duplicates := Suc (pr_duplicates st), pr_changed := True\<rparr>)
                else if map_of spanR i = None
                  then scanSpan ids rest (AList.update i nxt spanR) remainder st
                else scanSpan ids rest spanR remainder st)
             else scanSpan ids rest spanR remainder
                    (st\<lparr>pr_orphans := Suc (pr_orphans st), pr_changed := True\<rparr>)
         | None \<Rightarrow> scanSpan ids rest spanR remainder
                    (st\<lparr>pr_orphans := Suc (pr_orphans st), pr_changed := True\<rparr>))
      else scanSpan ids rest spanR (remainder @ [nxt]) st)"

fun answerCalls ::
  "bool \<Rightarrow> int \<Rightarrow> (string, jsv) omap \<Rightarrow> tool_call_like list \<Rightarrow> pair_state \<Rightarrow> pair_state" where
  "answerCalls allowSynthetic now spanR [] st = st"
| "answerCalls allowSynthetic now spanR (call # calls) st =
     answerCalls allowSynthetic now spanR calls
       (case map_of spanR (call_id call) of
          Some existing \<Rightarrow> pushToolResult existing st
        | None \<Rightarrow>
            if allowSynthetic
            then let missing = makeMissingToolResult now (call_id call) (call_name call) in
                 pushToolResult missing (st\<lparr>pr_added := pr_added st @ [missing], pr_changed := True\<rparr>)
            else st)"

definition stopped :: "jsv \<Rightarrow> bool" where
  "stopped msg \<longleftrightarrow> jget msg ''stopReason'' = JStr ''error'' \<or> jget msg ''stopReason'' = JStr ''aborted''"

definition closeSpan ::
  "bool \<Rightarrow> int \<Rightarrow> jsv \<Rightarrow> tool_call_like list \<Rightarrow> (string, jsv) omap \<Rightarrow> jsv list \<Rightarrow> pair_state \<Rightarrow> pair_state" where
  "closeSpan allowSynthetic now msg toolCalls spanR remainder st1 =
     (let st2 = pushOut msg st1;
          st3 = (if spanR \<noteq> [] \<and> remainder \<noteq> []
                 then st2\<lparr>pr_moved := True, pr_changed := True\<rparr> else st2);
          st4 = answerCalls allowSynthetic now spanR toolCalls st3
      in st4\<lparr>pr_out := pr_out st4 @ remainder\<rparr>)"

lemma scanSpan_rest_length:
  "scanSpan ids ms spanR remainder st = (spanR', remainder', st', rest) \<Longrightarrow> length rest \<le> length ms"
  by (induction ids ms spanR remainder st rule: scanSpan.induct)
    (auto split: if_splits option.splits)

function pairLoop :: "bool \<Rightarrow> int \<Rightarrow> jsv list \<Rightarrow> pair_state \<Rightarrow> pair_state" where
  "pairLoop allowSynthetic now [] st = st"
| "pairLoop allowSynthetic now (msg # rest) st =
     (if \<not> is_object msg then pairLoop allowSynthetic now rest (pushOut msg st)
      else if \<not> has_role ''assistant'' msg then
        (if \<not> has_role ''toolResult'' msg then pairLoop allowSynthetic now rest (pushOut msg st)
         else pairLoop allowSynthetic now rest
                (st\<lparr>pr_orphans := Suc (pr_orphans st), pr_changed := True\<rparr>))
      else if stopped msg then pairLoop allowSynthetic now rest (pushOut msg st)
      else
        let toolCalls = extractToolCallsFromAssistant msg in
        if toolCalls = [] then pairLoop allowSynthetic now rest (pushOut msg st)
        else
          let (spanR, remainder, st1, rest') = scanSpan (map call_id toolCalls) rest [] [] st
          in pairLoop allowSynthetic now rest'
               (closeSpan allowSynthetic now msg toolCalls spanR remainder st1))"
  by pat_completeness auto
termination
  by (relation "measure (\<lambda>(a, n, ms, st). length ms)")
    (auto dest!: scanSpan_rest_length [OF sym] simp: less_Suc_eq_le)

record pair_report =
  rp_messages :: "jsv list"
  rp_added :: "jsv list"
  rp_duplicates :: nat
  rp_orphans :: nat
  rp_moved :: bool

definition repairToolUseResultPairing :: "bool \<Rightarrow> int \<Rightarrow> jsv list \<Rightarrow> pair_report" where
  "repairToolUseResultPairing allowSynthetic now messages =
     (let st = pairLoop allowSynthetic now messages initPair;
          changedOrMoved = (pr_changed st \<or> pr_moved st)
      in \<lparr>rp_messages = (if changedOrMoved then pr_out st else messages),
          rp_added = pr_added st, rp_duplicates = pr_duplicates st, rp_orphans = pr_orphans st,
          rp_moved = changedOrMoved\<rparr>)"

section \<open>What a repaired transcript looks like\<close>

definition is_result :: "jsv \<Rightarrow> bool" where
  "is_result m \<longleftrightarrow> has_role ''toolResult'' m"

definition is_assistant :: "jsv \<Rightarrow> bool" where
  "is_assistant m \<longleftrightarrow> has_role ''assistant'' m"

definition call_ids :: "jsv \<Rightarrow> string list" where
  "call_ids m = map call_id (extractToolCallsFromAssistant m)"

definition open_calls :: "jsv \<Rightarrow> string list" where
  "open_calls m = (if is_assistant m \<and> \<not> stopped m then call_ids m else [])"

definition result_ids :: "jsv list \<Rightarrow> string list" where
  "result_ids ms = concat (map (\<lambda>m. if is_result m then (case extractToolResultId m of Some i \<Rightarrow> [i] | None \<Rightarrow> []) else []) ms)"

text \<open>
  \<open>paired cur ms\<close>: every tool result of \<open>ms\<close> answers a call of the assistant message in front of
  the run of results it stands in; \<open>cur\<close> holds the calls open at the start.
\<close>

fun paired :: "string list \<Rightarrow> jsv list \<Rightarrow> bool" where
  "paired cur [] = True"
| "paired cur (m # ms) =
     (if is_result m
      then (case extractToolResultId m of Some i \<Rightarrow> i \<in> set cur | None \<Rightarrow> False) \<and> paired cur ms
      else paired (open_calls m) ms)"

fun open_after :: "string list \<Rightarrow> jsv list \<Rightarrow> string list" where
  "open_after cur [] = cur"
| "open_after cur (m # ms) = open_after (if is_result m then cur else open_calls m) ms"

lemma paired_append: "paired cur (xs @ ys) \<longleftrightarrow> paired cur xs \<and> paired (open_after cur xs) ys"
  by (induction xs arbitrary: cur) auto

lemma paired_results:
  "\<forall>r \<in> set rs. is_result r \<and> (\<exists>i \<in> set cur. extractToolResultId r = Some i) \<Longrightarrow> paired cur rs"
  by (induction rs) auto

lemma paired_others: "\<forall>r \<in> set rs. \<not> is_result r \<Longrightarrow> paired cur rs"
  by (induction rs arbitrary: cur) auto

lemma role_exclusive: "is_assistant m \<Longrightarrow> \<not> is_result m"
  by (auto simp: is_assistant_def is_result_def has_role_def)

lemma result_ids_append [simp]: "result_ids (xs @ ys) = result_ids xs @ result_ids ys"
  by (simp add: result_ids_def)

lemma result_ids_others: "\<forall>r \<in> set rs. \<not> is_result r \<Longrightarrow> result_ids rs = []"
  by (auto simp: result_ids_def)

lemma result_ids_one: "is_result m \<Longrightarrow> extractToolResultId m = Some i \<Longrightarrow> result_ids [m] = [i]"
  by (simp add: result_ids_def)

lemma missing_result [simp]:
  "is_result (makeMissingToolResult now i n)"
  "i \<noteq> [] \<Longrightarrow> extractToolResultId (makeMissingToolResult now i n) = Some i"
  by (simp_all add: is_result_def has_role_def makeMissingToolResult_def extractToolResultId_def
      nonempty_str_def)

lemma extracted_call_nonempty: "c \<in> set (extractToolCallsFromAssistant m) \<Longrightarrow> call_id c \<noteq> []"
  by (auto simp: extractToolCallsFromAssistant_def List.map_filter_def nonempty_str_iff split: if_splits)

section \<open>The scan and the answers\<close>

definition span_entry :: "string list \<Rightarrow> string list \<Rightarrow> string \<Rightarrow> jsv \<Rightarrow> bool" where
  "span_entry ids seen i m \<longleftrightarrow>
     is_result m \<and> extractToolResultId m = Some i \<and> i \<in> set ids \<and> i \<notin> set seen"

lemma scanSpan_state:
  assumes "scanSpan ids ms spanR rem st = (spanR', rem', st', rest)"
  shows "pr_out st' = pr_out st \<and> pr_seen st' = pr_seen st \<and> pr_added st' = pr_added st
    \<and> pr_moved st' = pr_moved st \<and> (pr_changed st \<longrightarrow> pr_changed st')"
  using assms
  by (induction ids ms spanR rem st rule: scanSpan.induct) (auto split: if_splits option.splits)

lemma scanSpan_remainder:
  assumes "scanSpan ids ms spanR rem st = (spanR', rem', st', rest)"
  shows "\<exists>X. rem' = rem @ X \<and> filter (\<lambda>m. \<not> is_result m) ms = X @ filter (\<lambda>m. \<not> is_result m) rest
    \<and> (\<forall>m \<in> set X. \<not> is_result m \<and> \<not> is_assistant m) \<and> set rest \<subseteq> set ms"
  using assms
proof (induction ms arbitrary: spanR rem st)
  case Nil
  then show ?case by auto
next
  case (Cons nxt ms)
  consider (obj) "\<not> is_object nxt" | (asst) "has_role ''assistant'' nxt"
    | (res) "is_object nxt" "\<not> has_role ''assistant'' nxt" "has_role ''toolResult'' nxt"
    | (other) "is_object nxt" "\<not> has_role ''assistant'' nxt" "\<not> has_role ''toolResult'' nxt" by blast
  then show ?case
  proof cases
    case obj
    then have "\<not> is_result nxt" "\<not> is_assistant nxt" by (auto simp: is_result_def is_assistant_def has_role_def)
    moreover have "scanSpan ids ms spanR (rem @ [nxt]) st = (spanR', rem', st', rest)"
      using Cons.prems obj by simp
    ultimately show ?thesis using Cons.IH by force
  next
    case asst
    then have "is_object nxt" by (simp add: has_role_def)
    with asst Cons.prems show ?thesis by auto
  next
    case res
    then obtain s r where "scanSpan ids ms s rem r = (spanR', rem', st', rest)"
      using Cons.prems by (auto split: if_splits option.splits)
    then have "\<exists>X. rem' = rem @ X \<and> filter (\<lambda>m. \<not> is_result m) ms = X @ filter (\<lambda>m. \<not> is_result m) rest
      \<and> (\<forall>m \<in> set X. \<not> is_result m \<and> \<not> is_assistant m) \<and> set rest \<subseteq> set ms" by (rule Cons.IH)
    moreover have "is_result nxt" using res by (simp add: is_result_def)
    ultimately show ?thesis by auto
  next
    case other
    then have "\<not> is_result nxt" "\<not> is_assistant nxt" by (auto simp: is_result_def is_assistant_def)
    moreover have "scanSpan ids ms spanR (rem @ [nxt]) st = (spanR', rem', st', rest)"
      using Cons.prems other by simp
    ultimately show ?thesis using Cons.IH by force
  qed
qed

lemma scanSpan_entries:
  assumes "scanSpan ids ms spanR rem st = (spanR', rem', st', rest)"
    and "\<forall>(i, m) \<in> set spanR. span_entry ids (pr_seen st) i m \<and> m \<in> S" and "set ms \<subseteq> S"
  shows "\<forall>(i, m) \<in> set spanR'. span_entry ids (pr_seen st) i m \<and> m \<in> S"
  using assms
proof (induction ms arbitrary: spanR rem st)
  case Nil
  then show ?case by simp
next
  case (Cons nxt ms)
  have step: "(\<forall>(i, m) \<in> set s. span_entry ids (pr_seen st) i m \<and> m \<in> S) \<Longrightarrow> pr_seen r = pr_seen st \<Longrightarrow>
      scanSpan ids ms s q r = (spanR', rem', st', rest) \<Longrightarrow>
      \<forall>(i, m) \<in> set spanR'. span_entry ids (pr_seen st) i m \<and> m \<in> S" for s q r
    using Cons.IH [of s q r] Cons.prems(3) by auto
  show ?case
  proof (cases "has_role ''toolResult'' nxt \<and> (\<exists>i. extractToolResultId nxt = Some i \<and> i \<in> set ids \<and>
      i \<notin> set (pr_seen st) \<and> map_of spanR i = None)")
    case True
    then obtain i where i: "has_role ''toolResult'' nxt" "extractToolResultId nxt = Some i" "i \<in> set ids"
      "i \<notin> set (pr_seen st)" "map_of spanR i = None" by blast
    have "scanSpan ids ms (AList.update i nxt spanR) rem st = (spanR', rem', st', rest)"
      using Cons.prems(1) i by (auto simp: has_role_def)
    moreover have "AList.update i nxt spanR = spanR @ [(i, nxt)]"
      using i(5) by (intro update_new) (simp add: map_of_eq_None_iff)
    ultimately show ?thesis
      using i Cons.prems(2,3) by (intro step [of "spanR @ [(i, nxt)]" st rem])
        (auto simp: span_entry_def is_result_def)
  next
    case False
    show ?thesis
    proof (cases "has_role ''assistant'' nxt")
      case True
      with Cons.prems show ?thesis by (auto simp: has_role_def)
    next
      case na: False
      from Cons.prems(1) False na consider q where "scanSpan ids ms spanR q st = (spanR', rem', st', rest)"
        | d where "scanSpan ids ms spanR rem (st\<lparr>pr_duplicates := d, pr_changed := True\<rparr>) = (spanR', rem', st', rest)"
        | d where "scanSpan ids ms spanR rem (st\<lparr>pr_orphans := d, pr_changed := True\<rparr>) = (spanR', rem', st', rest)"
        by (simp split: if_splits option.splits)
      then show ?thesis
      proof cases
        case 1
        then show ?thesis by (intro step [OF Cons.prems(2)]) simp_all
      next
        case (2 d)
        then show ?thesis by (intro step [OF Cons.prems(2) _ 2]) simp
      next
        case (3 d)
        then show ?thesis by (intro step [OF Cons.prems(2) _ 3]) simp
      qed
    qed
  qed
qed

lemma pushToolResult_added [simp]: "pr_added (pushToolResult m st) = pr_added st"
  by (simp add: pushToolResult_def split: option.split)

text \<open>
  What answering the calls appends: results that answer one of the calls, each id new, and the
  list of seen ids grows by exactly their ids.
\<close>

definition answers :: "string list \<Rightarrow> pair_state \<Rightarrow> pair_state \<Rightarrow> bool" where
  "answers ids st st' \<longleftrightarrow>
     (\<exists>rs. pr_out st' = pr_out st @ rs \<and> pr_seen st' = pr_seen st @ result_ids rs
        \<and> (\<forall>r \<in> set rs. is_result r \<and> (\<exists>i \<in> set ids. extractToolResultId r = Some i))
        \<and> (distinct (pr_seen st) \<longrightarrow> distinct (pr_seen st')))"

lemma answers_refl [simp]: "answers ids st st"
  by (auto simp: answers_def result_ids_def)

lemma answers_trans: "answers ids a b \<Longrightarrow> answers ids b c \<Longrightarrow> answers ids a c"
  unfolding answers_def by (elim exE conjE, rule_tac x = "rs @ rsa" in exI) auto

lemma answers_push:
  assumes "is_result m" "extractToolResultId m = Some i" "i \<in> set ids"
    and "pr_out st = pr_out st0" "pr_seen st = pr_seen st0"
  shows "answers ids st0 (pushToolResult m st)"
proof (cases "i \<in> set (pr_seen st)")
  case True
  then show ?thesis using assms by (auto simp: answers_def pushToolResult_def result_ids_def)
next
  case False
  then show ?thesis
    using assms by (auto simp: answers_def pushToolResult_def result_ids_one intro!: exI [of _ "[m]"])
qed

definition call_step :: "bool \<Rightarrow> int \<Rightarrow> (string, jsv) omap \<Rightarrow> tool_call_like \<Rightarrow> pair_state \<Rightarrow> pair_state" where
  "call_step allowSynthetic now spanR call st =
     (case map_of spanR (call_id call) of
        Some existing \<Rightarrow> pushToolResult existing st
      | None \<Rightarrow>
          if allowSynthetic
          then let missing = makeMissingToolResult now (call_id call) (call_name call) in
               pushToolResult missing (st\<lparr>pr_added := pr_added st @ [missing], pr_changed := True\<rparr>)
          else st)"

lemma answerCalls_Cons:
  "answerCalls a now spanR (call # calls) st = answerCalls a now spanR calls (call_step a now spanR call st)"
  by (simp add: call_step_def)

lemma call_step_answers:
  assumes "\<forall>(i, m) \<in> set spanR. is_result m \<and> extractToolResultId m = Some i"
    and "call_id call \<noteq> []" and "call_id call \<in> set ids"
  shows "answers ids st (call_step a now spanR call st)"
proof (cases "map_of spanR (call_id call)")
  case (Some m)
  then have "(call_id call, m) \<in> set spanR" by (rule map_of_SomeD)
  with assms Some show ?thesis
    unfolding call_step_def by (auto intro!: answers_push)
next
  case None
  with assms show ?thesis
    by (auto simp: call_step_def Let_def intro!: answers_push)
qed

lemma answerCalls_answers:
  assumes "\<forall>(i, m) \<in> set spanR. is_result m \<and> extractToolResultId m = Some i"
    and "\<forall>c \<in> set calls. call_id c \<noteq> [] \<and> call_id c \<in> set ids"
  shows "answers ids st (answerCalls a now spanR calls st)"
  using assms(2)
proof (induction calls arbitrary: st)
  case Nil
  then show ?case by simp
next
  case (Cons c calls)
  then have "answers ids st (call_step a now spanR c st)"
    by (intro call_step_answers [OF assms(1)]) auto
  moreover have "answers ids (call_step a now spanR c st) (answerCalls a now spanR calls (call_step a now spanR c st))"
    using Cons by simp
  ultimately show ?case unfolding answerCalls_Cons by (rule answers_trans)
qed

lemma answers_seen_mono: "answers ids st st' \<Longrightarrow> set (pr_seen st) \<subseteq> set (pr_seen st')"
  by (auto simp: answers_def)

lemma answerCalls_complete:
  assumes "\<forall>(i, m) \<in> set spanR. is_result m \<and> extractToolResultId m = Some i"
    and "\<forall>c \<in> set calls. call_id c \<noteq> []"
  shows "call_id ` set calls \<subseteq> set (pr_seen (answerCalls True now spanR calls st))"
  using assms(2)
proof (induction calls arbitrary: st)
  case Nil
  then show ?case by simp
next
  case (Cons c calls)
  let ?st = "call_step True now spanR c st"
  obtain m s where m: "is_result m" "extractToolResultId m = Some (call_id c)" "?st = pushToolResult m s"
  proof (cases "map_of spanR (call_id c)")
    case (Some m)
    with assms(1) that [of m st] show ?thesis by (auto simp: call_step_def dest: map_of_SomeD)
  next
    case None
    let ?mm = "makeMissingToolResult now (call_id c) (call_name c)"
    from None that [of ?mm "st\<lparr>pr_added := pr_added st @ [?mm], pr_changed := True\<rparr>"] Cons.prems
    show ?thesis by (auto simp: call_step_def Let_def)
  qed
  have "call_id c \<in> set (pr_seen ?st)"
    unfolding m(3) using m(2) by (simp add: pushToolResult_def)
  moreover have "answers (map call_id calls) ?st (answerCalls True now spanR calls ?st)"
    using Cons.prems by (intro answerCalls_answers [OF assms(1)]) auto
  ultimately have "call_id c \<in> set (pr_seen (answerCalls True now spanR calls ?st))"
    by (auto dest: answers_seen_mono)
  with Cons show ?case unfolding answerCalls_Cons by auto
qed

text \<open>Whatever is appended comes from the span or was announced as added, and adding sets the flag.\<close>

lemma pushToolResult_sources:
  "set (pr_out (pushToolResult m st)) \<subseteq> set (pr_out st) \<union> {m} \<and> (pr_changed st \<longrightarrow> pr_changed (pushToolResult m st))"
  by (auto simp: pushToolResult_def split: option.splits)

lemma answerCalls_sources:
  assumes "\<forall>(i, m) \<in> set spanR. m \<in> S"
  shows "set (pr_out (answerCalls a now spanR calls st)) \<subseteq>
           set (pr_out st) \<union> S \<union> set (pr_added (answerCalls a now spanR calls st))
    \<and> set (pr_added st) \<subseteq> set (pr_added (answerCalls a now spanR calls st))
    \<and> (pr_changed st \<longrightarrow> pr_changed (answerCalls a now spanR calls st))
    \<and> (pr_changed st \<or> pr_added st = [] \<longrightarrow>
        pr_changed (answerCalls a now spanR calls st) \<or> pr_added (answerCalls a now spanR calls st) = [])"
proof (induction calls arbitrary: st)
  case Nil
  then show ?case by auto
next
  case (Cons c calls)
  have step: "set (pr_out (call_step a now spanR c st)) \<subseteq> set (pr_out st) \<union> S \<union> set (pr_added (call_step a now spanR c st))
    \<and> set (pr_added st) \<subseteq> set (pr_added (call_step a now spanR c st))
    \<and> (pr_changed st \<longrightarrow> pr_changed (call_step a now spanR c st))
    \<and> (pr_changed st \<or> pr_added st = [] \<longrightarrow>
        pr_changed (call_step a now spanR c st) \<or> pr_added (call_step a now spanR c st) = [])"
  proof (cases "map_of spanR (call_id c)")
    case (Some m)
    with assms have "m \<in> S" by (auto dest: map_of_SomeD)
    with Some pushToolResult_sources [of m st] show ?thesis by (auto simp: call_step_def)
  next
    case None
    define mm where "mm = makeMissingToolResult now (call_id c) (call_name c)"
    from None pushToolResult_sources [of mm "st\<lparr>pr_added := pr_added st @ [mm], pr_changed := True\<rparr>"] show ?thesis
      by (auto simp: call_step_def Let_def mm_def)
  qed
  show ?case
    unfolding answerCalls_Cons using Cons.IH [of "call_step a now spanR c st"] step by blast
qed

section \<open>The loop invariant\<close>

definition pair_inv :: "bool \<Rightarrow> jsv set \<Rightarrow> pair_state \<Rightarrow> bool" where
  "pair_inv a S st \<longleftrightarrow>
     paired [] (pr_out st) \<and> result_ids (pr_out st) = pr_seen st \<and> distinct (pr_seen st)
     \<and> set (pr_out st) \<subseteq> S \<union> set (pr_added st) \<and> (pr_changed st \<or> pr_added st = [])
     \<and> (a \<longrightarrow> (\<forall>m \<in> set (pr_out st). set (open_calls m) \<subseteq> set (pr_seen st)))"

lemma pair_inv_init: "pair_inv a S initPair"
  by (simp add: pair_inv_def initPair_def result_ids_def)

lemma open_calls_result: "is_result m \<Longrightarrow> open_calls m = []"
  using role_exclusive by (auto simp: open_calls_def)

lemma pair_inv_pushOut:
  assumes "pair_inv a S st" "\<not> is_result m" "m \<in> S" "open_calls m = []"
  shows "pair_inv a S (pushOut m st)"
  using assms by (auto simp: pair_inv_def pushOut_def paired_append result_ids_def)

lemma pair_inv_counts:
  assumes "pair_inv a S st" "pr_out st' = pr_out st" "pr_seen st' = pr_seen st" "pr_added st' = pr_added st"
    "pr_changed st \<longrightarrow> pr_changed st'"
  shows "pair_inv a S st'"
  using assms by (auto simp: pair_inv_def)

lemma closeSpan_ok:
  assumes inv: "pair_inv a S st" and S: "msg \<in> S" "set remainder \<subseteq> S"
    and msg: "is_assistant msg" "\<not> stopped msg"
    and rem: "\<forall>m \<in> set remainder. \<not> is_result m \<and> \<not> is_assistant m"
    and span: "\<forall>(i, m) \<in> set spanR. is_result m \<and> extractToolResultId m = Some i \<and> m \<in> S"
  defines "calls \<equiv> extractToolCallsFromAssistant msg"
  shows "pair_inv a S (closeSpan a now msg calls spanR remainder st) \<and>
    filter (\<lambda>m. \<not> is_result m) (pr_out (closeSpan a now msg calls spanR remainder st)) =
      filter (\<lambda>m. \<not> is_result m) (pr_out st) @ msg # remainder"
proof -
  define st3 where "st3 = (if spanR \<noteq> [] \<and> remainder \<noteq> []
     then (pushOut msg st)\<lparr>pr_moved := True, pr_changed := True\<rparr> else pushOut msg st)"
  define st4 where "st4 = answerCalls a now spanR calls st3"
  have close: "closeSpan a now msg calls spanR remainder st = st4\<lparr>pr_out := pr_out st4 @ remainder\<rparr>"
    by (simp add: closeSpan_def Let_def st4_def st3_def)
  have st3: "pr_out st3 = pr_out st @ [msg]" "pr_seen st3 = pr_seen st" "pr_added st3 = pr_added st"
    "pr_changed st \<longrightarrow> pr_changed st3" by (simp_all add: st3_def pushOut_def)
  have span': "\<forall>(i, m) \<in> set spanR. is_result m \<and> extractToolResultId m = Some i"
    "\<forall>(i, m) \<in> set spanR. m \<in> S" using span by auto
  have nonempty: "\<forall>c \<in> set calls. call_id c \<noteq> []"
    unfolding calls_def using extracted_call_nonempty by blast
  have "answers (call_ids msg) st3 st4"
    unfolding st4_def using nonempty
    by (intro answerCalls_answers [OF span'(1)]) (auto simp: call_ids_def calls_def)
  then obtain rs where rs: "pr_out st4 = pr_out st @ msg # rs" "pr_seen st4 = pr_seen st @ result_ids rs"
    "\<forall>r \<in> set rs. is_result r \<and> (\<exists>i \<in> set (call_ids msg). extractToolResultId r = Some i)"
    "distinct (pr_seen st) \<longrightarrow> distinct (pr_seen st4)"
    by (auto simp: answers_def st3)
  note src = answerCalls_sources [OF span'(2), of a now calls st3, folded st4_def]
  have not_res: "\<not> is_result msg" using msg(1) role_exclusive by blast
  have oc: "open_calls msg = call_ids msg" using msg by (simp add: open_calls_def)
  have "paired [] (pr_out st4 @ remainder)"
  proof -
    have "paired (call_ids msg) rs" using rs(3) by (rule paired_results)
    moreover have "paired cur remainder" for cur using rem by (intro paired_others) auto
    ultimately show ?thesis
      using inv not_res oc unfolding rs(1) pair_inv_def by (simp add: paired_append)
  qed
  moreover have "result_ids (pr_out st4 @ remainder) = pr_seen st4"
    using inv rem not_res unfolding rs(1,2) pair_inv_def
    by (simp add: result_ids_others) (simp add: result_ids_def)
  moreover have "set (open_calls m) \<subseteq> set (pr_seen st4)" if "a" "m \<in> set (pr_out st4 @ remainder)" for m
  proof -
    have "set (call_ids msg) \<subseteq> set (pr_seen st4)"
      unfolding st4_def using answerCalls_complete [OF span'(1) nonempty] that(1)
      by (simp add: call_ids_def calls_def)
    moreover have "open_calls m = []" if "m \<in> set rs" using rs(3) that open_calls_result by blast
    moreover have "open_calls m = []" if "m \<in> set remainder" using rem that by (simp add: open_calls_def)
    moreover have "set (open_calls m) \<subseteq> set (pr_seen st4)" if "m \<in> set (pr_out st)"
      using inv that \<open>a\<close> rs(2) by (auto simp: pair_inv_def)
    ultimately show ?thesis using that(2) oc by (auto simp: rs(1))
  qed
  moreover have "filter (\<lambda>m. \<not> is_result m) (pr_out st4 @ remainder) =
      filter (\<lambda>m. \<not> is_result m) (pr_out st) @ msg # remainder"
    using rs(3) rem not_res unfolding rs(1) by (simp add: filter_empty_conv filter_id_conv)
  moreover have "distinct (pr_seen st4)" using inv rs(4) by (simp add: pair_inv_def)
  moreover have "set (pr_out st4 @ remainder) \<subseteq> S \<union> set (pr_added st4)"
  proof -
    have "set (pr_out st3) \<subseteq> S \<union> set (pr_added st3)"
      using inv S(1) unfolding st3 pair_inv_def by auto
    with src S(2) show ?thesis by auto
  qed
  moreover have "pr_changed st4 \<or> pr_added st4 = []"
    using inv src st3(3,4) unfolding pair_inv_def by metis
  ultimately show ?thesis
    unfolding close pair_inv_def by simp
qed

lemma pairLoop_orphan:
  assumes "is_result msg"
  shows "pairLoop a now (msg # rest) st =
    pairLoop a now rest (st\<lparr>pr_orphans := Suc (pr_orphans st), pr_changed := True\<rparr>)"
  using assms role_exclusive [of msg] by (auto simp: is_result_def is_assistant_def has_role_def)

lemma pairLoop_plain:
  assumes "\<not> is_result msg" "open_calls msg = []"
  shows "pairLoop a now (msg # rest) st = pairLoop a now rest (pushOut msg st)"
  using assms by (auto simp: open_calls_def call_ids_def is_result_def is_assistant_def split: if_splits)

lemma pairLoop_span:
  assumes "is_assistant msg" "\<not> stopped msg" "extractToolCallsFromAssistant msg \<noteq> []"
    and "scanSpan (map call_id (extractToolCallsFromAssistant msg)) rest [] [] st = (spanR, rem, st1, rest')"
  shows "pairLoop a now (msg # rest) st =
    pairLoop a now rest' (closeSpan a now msg (extractToolCallsFromAssistant msg) spanR rem st1)"
  using assms by (auto simp: is_assistant_def has_role_def)

text \<open>One round of the loop, given the claim for the rounds that follow.\<close>

lemma pairLoop_step:
  assumes inv: "pair_inv a S st" and S: "msg \<in> S" "set rest \<subseteq> S"
    and IH: "\<And>ys st'. length ys \<le> length rest \<Longrightarrow> pair_inv a S st' \<Longrightarrow> set ys \<subseteq> S \<Longrightarrow>
      pair_inv a S (pairLoop a now ys st') \<and>
      filter (\<lambda>m. \<not> is_result m) (pr_out (pairLoop a now ys st')) =
        filter (\<lambda>m. \<not> is_result m) (pr_out st') @ filter (\<lambda>m. \<not> is_result m) ys"
  shows "pair_inv a S (pairLoop a now (msg # rest) st) \<and>
    filter (\<lambda>m. \<not> is_result m) (pr_out (pairLoop a now (msg # rest) st)) =
      filter (\<lambda>m. \<not> is_result m) (pr_out st) @ filter (\<lambda>m. \<not> is_result m) (msg # rest)"
proof -
  let ?calls = "extractToolCallsFromAssistant msg"
  consider (orphan) "is_result msg"
    | (plain) "\<not> is_result msg" "open_calls msg = []"
    | (span) "is_assistant msg" "\<not> stopped msg" "?calls \<noteq> []"
    by (cases "open_calls msg = []") (auto simp: open_calls_def call_ids_def split: if_splits)
  then show ?thesis
  proof cases
    case orphan
    let ?st = "st\<lparr>pr_orphans := Suc (pr_orphans st), pr_changed := True\<rparr>"
    have "pair_inv a S ?st" using inv by (rule pair_inv_counts) auto
    from IH [OF order_refl this S(2)] orphan show ?thesis
      unfolding pairLoop_orphan [OF orphan] by simp
  next
    case plain
    have "pair_inv a S (pushOut msg st)" using pair_inv_pushOut inv plain S(1) by blast
    from IH [OF order_refl this S(2)] plain show ?thesis
      unfolding pairLoop_plain [OF plain] by (simp add: pushOut_def)
  next
    case span
    obtain spanR rem st1 rest' where sc:
      "scanSpan (map call_id ?calls) rest [] [] st = (spanR, rem, st1, rest')" using prod_cases4 by blast
    from scanSpan_remainder [OF sc] have rem: "filter (\<lambda>m. \<not> is_result m) rest = rem @ filter (\<lambda>m. \<not> is_result m) rest'"
      "\<forall>m \<in> set rem. \<not> is_result m \<and> \<not> is_assistant m" "set rest' \<subseteq> set rest" by auto
    have "set rem \<subseteq> set (filter (\<lambda>m. \<not> is_result m) rest)" unfolding rem(1) by simp
    then have rem_S: "set rem \<subseteq> S" "set rest' \<subseteq> S" using S(2) rem(3) by auto
    have inv1: "pair_inv a S st1"
      using scanSpan_state [OF sc] by (intro pair_inv_counts [OF inv]) auto
    have "\<forall>(i, m) \<in> set spanR. span_entry (map call_id ?calls) (pr_seen st) i m \<and> m \<in> S"
      using scanSpan_entries [OF sc _ S(2)] by simp
    then have "\<forall>(i, m) \<in> set spanR. is_result m \<and> extractToolResultId m = Some i \<and> m \<in> S"
      by (auto simp: span_entry_def)
    note cs = closeSpan_ok [OF inv1 S(1) rem_S(1) span(1,2) rem(2) this, of now]
    have "length rest' \<le> length rest" using scanSpan_rest_length [OF sc] .
    from IH [OF this conjunct1 [OF cs] rem_S(2)] have rest_ok:
      "pair_inv a S (pairLoop a now rest' (closeSpan a now msg ?calls spanR rem st1))"
      "filter (\<lambda>m. \<not> is_result m) (pr_out (pairLoop a now rest' (closeSpan a now msg ?calls spanR rem st1))) =
        (filter (\<lambda>m. \<not> is_result m) (pr_out st1) @ msg # rem) @ filter (\<lambda>m. \<not> is_result m) rest'"
      unfolding conjunct2 [OF cs] by auto
    have "\<not> is_result msg" using span(1) role_exclusive by blast
    then show ?thesis
      unfolding pairLoop_span [OF span sc] rest_ok(2)
      using rest_ok(1) rem(1) scanSpan_state [OF sc] by simp
  qed
qed

lemma pairLoop_ok:
  "pair_inv a S st \<Longrightarrow> set ms \<subseteq> S \<Longrightarrow>
   pair_inv a S (pairLoop a now ms st) \<and>
   filter (\<lambda>m. \<not> is_result m) (pr_out (pairLoop a now ms st)) =
     filter (\<lambda>m. \<not> is_result m) (pr_out st) @ filter (\<lambda>m. \<not> is_result m) ms"
proof (induction ms arbitrary: st rule: measure_induct_rule [where f = length])
  case (less ms)
  show ?case
  proof (cases ms)
    case Nil
    with less.prems show ?thesis by simp
  next
    case (Cons msg rest)
    have S: "msg \<in> S" "set rest \<subseteq> S" using less.prems(2) Cons by auto
    have short: "length ys < length ms" if "length ys \<le> length rest" for ys :: "jsv list"
      using that Cons by simp
    show ?thesis
      unfolding Cons by (rule pairLoop_step [OF less.prems(1) S]) (rule less.IH [OF short])
  qed
qed

section \<open>A repair that reports no change\<close>

lemma answerCalls_changed: "pr_changed st \<Longrightarrow> pr_changed (answerCalls a now spanR calls st)"
  using answerCalls_sources [of spanR UNIV a now calls st] by blast

lemma closeSpan_changed:
  "pr_changed st \<or> spanR \<noteq> [] \<and> rem \<noteq> [] \<Longrightarrow> pr_changed (closeSpan a now msg calls spanR rem st)"
  by (auto simp: closeSpan_def Let_def pushOut_def intro: answerCalls_changed)

text \<open>Induction along the rounds of the loop: an orphan, a plain message, or a whole span.\<close>

lemma pairLoop_rounds [case_names Nil orphan plain span]:
  assumes "\<And>st. P [] st"
    and "\<And>msg rest st. is_result msg \<Longrightarrow>
      P rest (st\<lparr>pr_orphans := Suc (pr_orphans st), pr_changed := True\<rparr>) \<Longrightarrow> P (msg # rest) st"
    and "\<And>msg rest st. \<not> is_result msg \<Longrightarrow> open_calls msg = [] \<Longrightarrow> P rest (pushOut msg st) \<Longrightarrow> P (msg # rest) st"
    and "\<And>msg rest st spanR rem st1 rest'. is_assistant msg \<Longrightarrow> \<not> stopped msg \<Longrightarrow>
      extractToolCallsFromAssistant msg \<noteq> [] \<Longrightarrow>
      scanSpan (map call_id (extractToolCallsFromAssistant msg)) rest [] [] st = (spanR, rem, st1, rest') \<Longrightarrow>
      P rest' (closeSpan a now msg (extractToolCallsFromAssistant msg) spanR rem st1) \<Longrightarrow> P (msg # rest) st"
  shows "P ms st"
proof (induction ms arbitrary: st rule: measure_induct_rule [where f = length])
  case (less ms)
  show ?case
  proof (cases ms)
    case Nil
    with assms(1) show ?thesis by simp
  next
    case (Cons msg rest)
    let ?calls = "extractToolCallsFromAssistant msg"
    obtain spanR rem st1 rest' where sc:
      "scanSpan (map call_id ?calls) rest [] [] st = (spanR, rem, st1, rest')" using prod_cases4 by blast
    have P: "P rest' st'" "P rest st'" for st'
      using less.IH [of rest'] less.IH [of rest] scanSpan_rest_length [OF sc] Cons by simp_all
    consider "is_result msg" | "\<not> is_result msg" "open_calls msg = []"
      | "is_assistant msg" "\<not> stopped msg" "?calls \<noteq> []"
      by (cases "open_calls msg = []") (auto simp: open_calls_def call_ids_def split: if_splits)
    then have "P (msg # rest) st"
    proof cases
      case 1
      then show ?thesis using P(2) by (rule assms(2))
    next
      case 2
      then show ?thesis using P(2) by (rule assms(3))
    next
      case 3
      then show ?thesis using sc P(1) by (rule assms(4))
    qed
    with Cons show ?thesis by simp
  qed
qed

lemma pairLoop_changed: "pr_changed st \<Longrightarrow> pr_changed (pairLoop a now ms st)"
proof (induction ms st rule: pairLoop_rounds [of _ a now])
  case (span msg rest st spanR rem st1 rest')
  have "pr_changed st1" using scanSpan_state [OF span(4)] span(6) by blast
  with span(5) closeSpan_changed show ?case unfolding pairLoop_span [OF span(1-4)] by blast
qed (simp_all add: pairLoop_orphan pairLoop_plain pushOut_def del: pairLoop.simps(2))

text \<open>In a span the scan left without setting the flag, the results are contiguous or absent.\<close>

lemma scanSpan_quiet:
  assumes "scanSpan ids ms spanR rem st = (spanR', rem', st', rest)" and "\<not> pr_changed st'"
  shows "\<exists>X. ms = X @ rest \<and> (rest = [] \<or> is_assistant (hd rest))
    \<and> (rem' = [] \<longrightarrow> (\<forall>m \<in> set X. is_result m \<and> (\<exists>i \<in> set ids. extractToolResultId m = Some i)))
    \<and> (spanR' = [] \<longrightarrow> spanR = [] \<and> (\<forall>m \<in> set X. \<not> is_result m))"
  using assms
proof (induction ms arbitrary: spanR rem st)
  case Nil
  then show ?case by simp
next
  case (Cons nxt ms)
  have mono: "scanSpan ids ms s q r = (spanR', rem', st', rest) \<Longrightarrow> \<not> pr_changed r" for s q r
    using scanSpan_state Cons.prems(2) by blast
  have remn: "scanSpan ids ms s q r = (spanR', rem', st', rest) \<Longrightarrow> rem' = [] \<Longrightarrow> q = []" for s q r
    using scanSpan_remainder by blast
  consider (asst) "is_assistant nxt" | (res) i where "is_result nxt" "extractToolResultId nxt = Some i" "i \<in> set ids"
      "scanSpan ids ms (if map_of spanR i = None then AList.update i nxt spanR else spanR) rem st = (spanR', rem', st', rest)"
    | (other) "\<not> is_result nxt" "scanSpan ids ms spanR (rem @ [nxt]) st = (spanR', rem', st', rest)"
    using Cons.prems(1) role_exclusive [of nxt] mono
    by (fastforce simp: is_result_def is_assistant_def has_role_def split: if_splits option.splits)
  then show ?case
  proof cases
    case asst
    then show ?thesis using Cons.prems(1) by (auto simp: is_assistant_def has_role_def)
  next
    case res
    from Cons.IH [OF res(4) Cons.prems(2)] obtain X where X: "ms = X @ rest" "rest = [] \<or> is_assistant (hd rest)"
      "rem' = [] \<longrightarrow> (\<forall>m \<in> set X. is_result m \<and> (\<exists>i \<in> set ids. extractToolResultId m = Some i))"
      "spanR' = [] \<longrightarrow> (if map_of spanR i = None then AList.update i nxt spanR else spanR) = []" by blast
    have "(if map_of spanR i = None then AList.update i nxt spanR else spanR) \<noteq> []"
      by (cases spanR) auto
    with X res show ?thesis by (intro exI [of _ "nxt # X"]) auto
  next
    case other
    from Cons.IH [OF other(2) Cons.prems(2)] obtain X where X: "ms = X @ rest" "rest = [] \<or> is_assistant (hd rest)"
      "spanR' = [] \<longrightarrow> spanR = [] \<and> (\<forall>m \<in> set X. \<not> is_result m)" by blast
    with remn [OF other(2)] other(1) show ?thesis by (intro exI [of _ "nxt # X"]) auto
  qed
qed

lemma paired_start: "ms = [] \<or> is_assistant (hd ms) \<Longrightarrow> paired cur ms = paired cur' ms"
  by (cases ms) (auto dest: role_exclusive)

lemma pairLoop_quiet: "\<not> pr_changed (pairLoop a now ms st) \<Longrightarrow> paired cur ms"
proof (induction ms st arbitrary: cur rule: pairLoop_rounds [of _ a now])
  case (orphan msg rest st)
  then show ?case using pairLoop_changed by (simp add: pairLoop_orphan del: pairLoop.simps)
next
  case (plain msg rest st)
  then show ?case by (simp add: pairLoop_plain del: pairLoop.simps)
next
  case (span msg rest st spanR rem st1 rest')
  let ?st = "closeSpan a now msg (extractToolCallsFromAssistant msg) spanR rem st1"
  have quiet: "\<not> pr_changed (pairLoop a now rest' ?st)"
    using span(6) unfolding pairLoop_span [OF span(1-4)] .
  then have "\<not> pr_changed ?st" using pairLoop_changed by blast
  then have nc: "\<not> pr_changed st1" "spanR = [] \<or> rem = []" using closeSpan_changed by blast+
  from scanSpan_quiet [OF span(4) nc(1)] obtain X where X: "rest = X @ rest'"
    "rem = [] \<longrightarrow> (\<forall>m \<in> set X. is_result m \<and> (\<exists>i \<in> set (call_ids msg). extractToolResultId m = Some i))"
    "spanR = [] \<longrightarrow> (\<forall>m \<in> set X. \<not> is_result m)" unfolding call_ids_def by blast
  have "paired (call_ids msg) X"
    using nc(2) X(2,3) paired_results paired_others by metis
  then have "paired (call_ids msg) rest" unfolding X(1) paired_append using span(5) [OF quiet] by blast
  moreover have "\<not> is_result msg" "open_calls msg = call_ids msg"
    using span role_exclusive by (auto simp: open_calls_def)
  ultimately show ?case by simp
qed simp

section \<open>Repairing again changes nothing\<close>

text \<open>The scan over a run of fresh results and a remainder collects exactly them.\<close>

lemma scanSpan_normal:
  assumes "\<forall>r \<in> set rs. is_result r \<and> (\<exists>i \<in> set ids. extractToolResultId r = Some i)"
    and "distinct (map fst spanR @ result_ids rs)" and "set (result_ids rs) \<inter> set (pr_seen st) = {}"
    and "\<forall>m \<in> set xs. \<not> is_result m \<and> \<not> is_assistant m" and "rest = [] \<or> is_assistant (hd rest)"
  shows "scanSpan ids (rs @ xs @ rest) spanR rem st =
    (spanR @ zip (result_ids rs) rs, rem @ xs, st, rest)"
  using assms
proof (induction rs arbitrary: spanR)
  case Nil
  from Nil(4) have "scanSpan ids (xs @ rest) spanR rem st = (spanR, rem @ xs, st, rest)"
  proof (induction xs arbitrary: rem)
    case Nil
    show ?case
      using \<open>rest = [] \<or> is_assistant (hd rest)\<close>
      by (cases rest) (auto simp: is_assistant_def has_role_def)
  next
    case (Cons x xs)
    then show ?case by (auto simp: is_assistant_def is_result_def has_role_def)
  qed
  then show ?case by (simp add: result_ids_def)
next
  case (Cons r rs)
  then obtain i where i: "is_result r" "extractToolResultId r = Some i" "i \<in> set ids" by auto
  have ids: "result_ids (r # rs) = i # result_ids rs" using i by (simp add: result_ids_def)
  have new: "i \<notin> fst ` set spanR" "i \<notin> set (pr_seen st)" using Cons.prems(2,3) unfolding ids by auto
  then have "scanSpan ids ((r # rs) @ xs @ rest) spanR rem st = scanSpan ids (rs @ xs @ rest) (spanR @ [(i, r)]) rem st"
    using i role_exclusive [of r]
    by (auto simp: is_result_def is_assistant_def has_role_def update_new map_of_eq_None_iff)
  also have "\<dots> = ((spanR @ [(i, r)]) @ zip (result_ids rs) rs, rem @ xs, st, rest)"
    using Cons.prems unfolding ids by (intro Cons.IH) auto
  finally show ?case unfolding ids by simp
qed

lemma scanSpan_stops:
  "scanSpan ids ms spanR rem st = (spanR', rem', st', rest) \<Longrightarrow> rest = [] \<or> is_assistant (hd rest)"
  by (induction ids ms spanR rem st rule: scanSpan.induct)
    (auto simp: is_assistant_def split: if_splits option.splits)

text \<open>What \<open>answerCalls\<close> appends without synthetic results, as a function of the span and the seen ids.\<close>

fun picks :: "(string, jsv) omap \<Rightarrow> string set \<Rightarrow> tool_call_like list \<Rightarrow> jsv list" where
  "picks spanR seen [] = []"
| "picks spanR seen (c # cs) =
     (case map_of spanR (call_id c) of
        None \<Rightarrow> picks spanR seen cs
      | Some m \<Rightarrow> if call_id c \<in> seen then picks spanR seen cs
                  else m # picks spanR (insert (call_id c) seen) cs)"

lemma answerCalls_picks:
  assumes "\<forall>(i, m) \<in> set spanR. is_result m \<and> extractToolResultId m = Some i"
  shows "pr_out (answerCalls False now spanR calls st) = pr_out st @ picks spanR (set (pr_seen st)) calls
    \<and> pr_seen (answerCalls False now spanR calls st) =
        pr_seen st @ result_ids (picks spanR (set (pr_seen st)) calls)"
proof (induction calls arbitrary: st)
  case Nil
  then show ?case by (simp add: result_ids_def)
next
  case (Cons c calls)
  show ?case
  proof (cases "map_of spanR (call_id c)")
    case None
    with Cons.IH [of st] show ?thesis by simp
  next
    case (Some m)
    then have m: "is_result m" "extractToolResultId m = Some (call_id c)"
      using assms by (auto dest: map_of_SomeD)
    with Some Cons.IH [of "pushToolResult m st"] show ?thesis
      by (simp add: pushToolResult_def) (simp add: result_ids_def)
  qed
qed

lemma picks_entries:
  assumes "\<forall>(i, m) \<in> set spanR. is_result m \<and> extractToolResultId m = Some i"
  shows "(\<forall>r \<in> set (picks spanR seen calls). is_result r \<and>
      (\<exists>i \<in> call_id ` set calls. extractToolResultId r = Some i \<and> map_of spanR i = Some r))
    \<and> distinct (result_ids (picks spanR seen calls)) \<and> set (result_ids (picks spanR seen calls)) \<inter> seen = {}"
proof (induction calls arbitrary: seen)
  case Nil
  then show ?case by (simp add: result_ids_def)
next
  case (Cons c calls)
  show ?case
  proof (cases "map_of spanR (call_id c)")
    case None
    with Cons.IH [of seen] show ?thesis by auto
  next
    case (Some m)
    then have m: "is_result m" "extractToolResultId m = Some (call_id c)"
      using assms by (auto dest: map_of_SomeD)
    have "result_ids (m # rs) = call_id c # result_ids rs" for rs using m by (simp add: result_ids_def)
    with Some m Cons.IH [of seen] Cons.IH [of "insert (call_id c) seen"] show ?thesis by auto
  qed
qed

lemma picks_restrict:
  "(\<And>i. map_of S2 i = (if i \<in> D then map_of S i else None)) \<Longrightarrow>
   \<forall>(i, m) \<in> set S. is_result m \<and> extractToolResultId m = Some i \<Longrightarrow>
   set (result_ids (picks S seen calls)) \<subseteq> D \<Longrightarrow> picks S2 seen calls = picks S seen calls"
proof (induction calls arbitrary: seen)
  case Nil
  then show ?case by simp
next
  case (Cons c calls)
  show ?case
  proof (cases "map_of S (call_id c)")
    case None
    with Cons show ?thesis by simp
  next
    case (Some m)
    then have m: "is_result m" "extractToolResultId m = Some (call_id c)"
      using Cons.prems(2) by (auto dest: map_of_SomeD)
    have "result_ids (m # rs) = call_id c # result_ids rs" for rs using m by (simp add: result_ids_def)
    with Some Cons show ?thesis by auto
  qed
qed

lemma map_of_zip_results:
  assumes "\<forall>r \<in> set rs. is_result r \<and> (\<exists>i. extractToolResultId r = Some i \<and> map_of spanR i = Some r)"
  shows "map_of (zip (result_ids rs) rs) i = (if i \<in> set (result_ids rs) then map_of spanR i else None)
    \<and> length (result_ids rs) = length rs \<and>
    (\<forall>(i, m) \<in> set (zip (result_ids rs) rs). is_result m \<and> extractToolResultId m = Some i)"
  using assms
proof (induction rs)
  case Nil
  then show ?case by (simp add: result_ids_def)
next
  case (Cons r rs)
  then obtain k where k: "is_result r" "extractToolResultId r = Some k" "map_of spanR k = Some r" by auto
  then have "result_ids (r # rs) = k # result_ids rs" by (simp add: result_ids_def)
  with k Cons show ?case by auto
qed

lemma pairLoop_again:
  "\<exists>xs. pr_out (pairLoop False now ms st) = pr_out st @ xs
     \<and> (ms = [] \<or> is_assistant (hd ms) \<longrightarrow> xs = [] \<or> is_assistant (hd xs))
     \<and> (\<forall>st2. pr_seen st2 = pr_seen st \<longrightarrow> pr_out (pairLoop False now' xs st2) = pr_out st2 @ xs)"
proof (induction ms st rule: pairLoop_rounds [of _ False now])
  case (orphan msg rest st)
  then have "\<not> is_assistant msg" using role_exclusive by blast
  with orphan(2) show ?case unfolding pairLoop_orphan [OF orphan(1)] by auto
next
  case (plain msg rest st)
  then obtain xs where xs: "pr_out (pairLoop False now rest (pushOut msg st)) = pr_out st @ msg # xs"
    "\<And>st2. pr_seen st2 = pr_seen st \<Longrightarrow> pr_out (pairLoop False now' xs st2) = pr_out st2 @ xs"
    by (auto simp: pushOut_def)
  have "pr_out (pairLoop False now' (msg # xs) st2) = pr_out st2 @ msg # xs" if "pr_seen st2 = pr_seen st" for st2
    using xs(2) [of "pushOut msg st2"] that unfolding pairLoop_plain [OF plain(1,2)] by (simp add: pushOut_def)
  then show ?case
    unfolding pairLoop_plain [OF plain(1,2), of False now] using xs(1)
    by (intro exI [of _ "msg # xs"]) (auto simp del: pairLoop.simps)
next
  case (span msg rest st spanR rem st1 rest')
  let ?calls = "extractToolCallsFromAssistant msg" and ?ids = "map call_id (extractToolCallsFromAssistant msg)"
  define rs where "rs = picks spanR (set (pr_seen st)) ?calls"
  have state: "pr_out st1 = pr_out st" "pr_seen st1 = pr_seen st" using scanSpan_state [OF span(4)] by auto
  have entries: "\<forall>(i, m) \<in> set spanR. is_result m \<and> extractToolResultId m = Some i"
    using scanSpan_entries [OF span(4), of UNIV] by (auto simp: span_entry_def)
  have rem: "\<forall>m \<in> set rem. \<not> is_result m \<and> \<not> is_assistant m" using scanSpan_remainder [OF span(4)] by auto
  have close: "pr_out (closeSpan False n msg ?calls sp rem s) = pr_out s @ msg # picks sp (set (pr_seen s)) ?calls @ rem
      \<and> pr_seen (closeSpan False n msg ?calls sp rem s) = pr_seen s @ result_ids (picks sp (set (pr_seen s)) ?calls)"
    if "\<forall>(i, m) \<in> set sp. is_result m \<and> extractToolResultId m = Some i" for n sp s
    using answerCalls_picks [OF that] by (simp add: closeSpan_def Let_def pushOut_def)
  obtain xs where xs: "pr_out (pairLoop False now rest' (closeSpan False now msg ?calls spanR rem st1)) =
      pr_out st @ msg # rs @ rem @ xs" "xs = [] \<or> is_assistant (hd xs)"
    "\<And>st2. pr_seen st2 = pr_seen st @ result_ids rs \<Longrightarrow> pr_out (pairLoop False now' xs st2) = pr_out st2 @ xs"
    using span(5) close [OF entries, of now st1] scanSpan_stops [OF span(4)] state by (auto simp: rs_def)
  note rs = picks_entries [OF entries, of "set (pr_seen st)" ?calls, folded rs_def]
  have zip: "map_of (zip (result_ids rs) rs) i = (if i \<in> set (result_ids rs) then map_of spanR i else None)"
    and ent2: "\<forall>(i, m) \<in> set (zip (result_ids rs) rs). is_result m \<and> extractToolResultId m = Some i" for i
    using map_of_zip_results [of rs spanR i] rs by blast+
  have again: "pr_out (pairLoop False now' (msg # rs @ rem @ xs) st2) = pr_out st2 @ msg # rs @ rem @ xs"
    if seen: "pr_seen st2 = pr_seen st" for st2
  proof -
    have sc: "scanSpan ?ids (rs @ rem @ xs) [] [] st2 = (zip (result_ids rs) rs, rem, st2, xs)"
      using rs rem xs(2) seen by (subst scanSpan_normal) auto
    have picks: "picks (zip (result_ids rs) rs) (set (pr_seen st2)) ?calls = rs"
      unfolding seen using picks_restrict [OF zip entries, of "set (pr_seen st)" ?calls] by (simp add: rs_def)
    show ?thesis
      unfolding pairLoop_span [OF span(1-3) sc]
      using close [OF ent2, of now' st2] xs(3) seen picks by simp
  qed
  then show ?case
    unfolding pairLoop_span [OF span(1-4)] using xs(1) span(1)
    by (intro exI [of _ "msg # rs @ rem @ xs"]) (auto simp del: pairLoop.simps)
qed simp

lemma answerCalls_clock: "answerCalls False now spanR calls st = answerCalls False now' spanR calls st"
  by (induction calls arbitrary: st) (auto split: option.splits)

lemma pairLoop_clock: "pairLoop False now ms st = pairLoop False now' ms st"
proof (induction ms st rule: pairLoop_rounds [of _ False now'])
  case (span msg rest st spanR rem st1 rest')
  have "closeSpan False now m c s r t = closeSpan False now' m c s r t" for m c s r t
    by (simp add: closeSpan_def Let_def answerCalls_clock [of now _ _ _ now'])
  with span show ?case by (simp only: pairLoop_span [OF span(1-4)])
qed (simp_all add: pairLoop_orphan pairLoop_plain del: pairLoop.simps(2))

lemma repairToolUseResultPairing_again:
  "rp_messages (repairToolUseResultPairing False now' (rp_messages (repairToolUseResultPairing False now ms))) =
     rp_messages (repairToolUseResultPairing False now ms)"
proof -
  let ?st = "pairLoop False now ms initPair"
  have "pr_out (pairLoop False now' (pr_out ?st) initPair) = pr_out ?st"
    using pairLoop_again [of now ms initPair now'] by (auto simp: initPair_def)
  then show ?thesis
    using pairLoop_clock [of now' ms initPair now]
    by (simp add: repairToolUseResultPairing_def Let_def)
qed

lemma repairToolUseResultPairing_paired:
  "paired [] (rp_messages (repairToolUseResultPairing a now ms))"
proof (cases "rp_moved (repairToolUseResultPairing a now ms)")
  case True
  then show ?thesis
    using pairLoop_ok [OF pair_inv_init, of ms "set ms" a now]
    by (auto simp: repairToolUseResultPairing_def Let_def pair_inv_def)
next
  case False
  then show ?thesis
    using pairLoop_quiet [of a now ms initPair "[]"] by (auto simp: repairToolUseResultPairing_def Let_def)
qed

section \<open>Malformed calls: facts\<close>

definition clean_message :: "jsv \<Rightarrow> bool" where
  "clean_message m \<longleftrightarrow> \<not> is_assistant m \<or> list_all (\<lambda>b. \<not> malformedCall b) (elems (jget m ''content''))"

definition malformed_count :: "jsv list \<Rightarrow> nat" where
  "malformed_count ms =
     sum_list (map (\<lambda>m. if is_assistant m then length (filter malformedCall (elems (jget m ''content''))) else 0) ms)"

lemma elems_not_array [simp]: "\<not> is_array v \<Longrightarrow> elems v = []"
  by (cases v) auto

lemma assistant_put_content:
  "is_assistant m \<Longrightarrow> is_assistant (jput ''content'' v m) \<and> jget (jput ''content'' v m) ''content'' = v"
  by (cases m) (auto simp: is_assistant_def has_role_def AList.update_conv')

lemma repairInputsLoop_ok:
  assumes "repairInputsLoop ms = (out, calls, assts, changed)"
  shows "list_all clean_message out \<and> (\<not> changed \<longrightarrow> out = ms) \<and> calls = malformed_count ms
    \<and> changed = (0 < calls) \<and> length ms = length out + assts"
  using assms
proof (induction ms arbitrary: out calls assts changed)
  case Nil
  then show ?case by (simp add: malformed_count_def)
next
  case (Cons m ms)
  obtain o1 c1 a1 ch1 where r: "repairInputsLoop ms = (o1, c1, a1, ch1)" using prod_cases4 by blast
  note IH = Cons.IH [OF r]
  show ?case
  proof (cases "is_assistant m \<and> is_array (jget m ''content'')")
    case False
    with Cons.prems r have "out = m # o1" "calls = c1" "assts = a1" "changed = ch1"
      by (auto simp: is_assistant_def)
    with False IH show ?thesis by (auto simp: clean_message_def malformed_count_def)
  next
    case True
    let ?content = "elems (jget m ''content'')"
    let ?next = "filter (\<lambda>b. \<not> malformedCall b) ?content"
    show ?thesis
    proof (cases "filter malformedCall ?content = []")
      case none: True
      with Cons.prems r True have "out = m # o1" "calls = c1" "assts = a1" "changed = ch1"
        by (auto simp: is_assistant_def)
      moreover have "clean_message m"
        using none unfolding clean_message_def list_all_iff filter_empty_conv by blast
      moreover have "malformed_count (m # ms) = malformed_count ms"
        using none by (simp add: malformed_count_def)
      ultimately show ?thesis using IH by simp
    next
      case some: False
      then have "0 < length (filter malformedCall ?content)" by simp
      then have "repairInputsLoop (m # ms) =
          (if ?next = [] then o1 else jput ''content'' (JArr ?next) m # o1,
           c1 + length (filter malformedCall ?content), if ?next = [] then Suc a1 else a1, True)"
        using r True by (simp add: is_assistant_def Let_def)
      with Cons.prems have "out = (if ?next = [] then o1 else jput ''content'' (JArr ?next) m # o1)"
        "calls = c1 + length (filter malformedCall ?content)" "assts = (if ?next = [] then Suc a1 else a1)"
        "changed" by auto
      moreover have "clean_message (jput ''content'' (JArr ?next) m)"
        using assistant_put_content True by (auto simp: clean_message_def list_all_iff)
      ultimately show ?thesis using IH True some by (auto simp: malformed_count_def)
    qed
  qed
qed

lemma repairInputsLoop_clean:
  assumes "list_all clean_message ms"
  shows "repairInputsLoop ms = (ms, 0, 0, False)"
  using assms
proof (induction ms)
  case Nil
  then show ?case by simp
next
  case (Cons m ms)
  then have "is_assistant m \<Longrightarrow> filter malformedCall (elems (jget m ''content'')) = []"
    by (auto simp: clean_message_def list_all_iff filter_empty_conv)
  with Cons show ?case by (auto simp: is_assistant_def)
qed

section \<open>Properties\<close>

text \<open>
  Pairing repair never loses, invents or reorders a message other than tool results: the
  sequence of all other messages is the same before and after.
\<close>

theorem repair_keeps_other_messages:
  "filter (\<lambda>m. \<not> is_result m) (rp_messages (repairToolUseResultPairing allowSynthetic now messages)) =
     filter (\<lambda>m. \<not> is_result m) messages"
  using pairLoop_ok [OF pair_inv_init, of messages "set messages" allowSynthetic now]
  by (simp add: repairToolUseResultPairing_def Let_def initPair_def)

text \<open>
  C3. The transcript the repair returns is well paired: every tool result stands in the run
  directly behind the assistant message that asked for it. Unless the repair returned its input
  unchanged, no tool-call id is answered twice.
\<close>

theorem repair_pairs_results:
  "paired [] (rp_messages (repairToolUseResultPairing allowSynthetic now messages))
   \<and> (distinct (result_ids (rp_messages (repairToolUseResultPairing allowSynthetic now messages)))
      \<or> rp_messages (repairToolUseResultPairing allowSynthetic now messages) = messages)"
  using repairToolUseResultPairing_paired
    pairLoop_ok [OF pair_inv_init, of messages "set messages" allowSynthetic now]
  by (auto simp: repairToolUseResultPairing_def Let_def pair_inv_def)

definition demo_user :: jsv where
  "demo_user = JObj [(''role'', JStr ''user''), (''content'', JStr ''hi'')]"

definition demo_call :: "string \<Rightarrow> jsv" where
  "demo_call i = JObj [(''role'', JStr ''assistant''),
     (''content'', JArr [JObj [(''type'', JStr ''toolCall''), (''id'', JStr i), (''name'', JStr ''exec'')]])]"

definition demo_result :: "string \<Rightarrow> jsv" where
  "demo_result i = JObj [(''role'', JStr ''toolResult''), (''toolCallId'', JStr i)]"

text \<open>
  With synthetic results allowed, every tool call of an assistant message that did not stop
  with an error has a tool result in the returned transcript.
\<close>

theorem repair_answers_every_call:
  assumes "m \<in> set messages" and "is_assistant m" and "\<not> stopped m" and "i \<in> set (call_ids m)"
  shows "\<exists>r \<in> set (rp_messages (repairToolUseResultPairing True now messages)).
    is_result r \<and> extractToolResultId r = Some i"
proof -
  let ?st = "pairLoop True now messages initPair"
  have ok: "pair_inv True (set messages) ?st"
    "filter (\<lambda>m. \<not> is_result m) (pr_out ?st) = filter (\<lambda>m. \<not> is_result m) messages"
    using pairLoop_ok [OF pair_inv_init, of messages "set messages" True now] by (auto simp: initPair_def)
  have "m \<in> set (filter (\<lambda>m. \<not> is_result m) messages)" using assms(1,2) role_exclusive by auto
  then have "m \<in> set (pr_out ?st)" unfolding ok(2) [symmetric] by simp
  with ok(1) assms(2-4) have "i \<in> set (result_ids (pr_out ?st))"
    by (auto simp: pair_inv_def open_calls_def)
  then obtain r where r: "r \<in> set (pr_out ?st)" "is_result r" "extractToolResultId r = Some i"
    by (auto simp: result_ids_def split: if_splits option.splits)
  show ?thesis
  proof (cases "pr_changed ?st \<or> pr_moved ?st")
    case True
    with r show ?thesis by (auto simp: repairToolUseResultPairing_def Let_def)
  next
    case False
    with ok(1) have "set (pr_out ?st) \<subseteq> set messages" by (auto simp: pair_inv_def)
    with False r show ?thesis by (auto simp: repairToolUseResultPairing_def Let_def)
  qed
qed

theorem repair_answers_every_call_witness:
  "\<exists>r \<in> set (rp_messages (repairToolUseResultPairing True 7 [demo_user, demo_call ''a''])).
     is_result r \<and> extractToolResultId r = Some ''a''"
proof (rule repair_answers_every_call [of "demo_call ''a''"])
  show "is_assistant (demo_call ''a'')" "\<not> stopped (demo_call ''a'')" "''a'' \<in> set (call_ids (demo_call ''a''))"
    by code_simp+
qed simp

text \<open>
  After the input repair no assistant message carries a malformed tool call, the reported
  number of dropped calls is the number of malformed ones, the dropped messages account for
  the change in length, and repairing again changes nothing.
\<close>

theorem repairToolCallInputs_ok:
  "list_all clean_message (ir_messages (repairToolCallInputs messages))
   \<and> droppedToolCalls (repairToolCallInputs messages) = malformed_count messages
   \<and> length messages = length (ir_messages (repairToolCallInputs messages))
        + droppedAssistantMessages (repairToolCallInputs messages)
   \<and> sanitizeToolCallInputs (sanitizeToolCallInputs messages) = sanitizeToolCallInputs messages"
proof -
  obtain out calls assts changed where r: "repairInputsLoop messages = (out, calls, assts, changed)"
    using prod_cases4 by blast
  note ok = repairInputsLoop_ok [OF r]
  then have eq: "ir_messages (repairToolCallInputs messages) = out"
    using r by (auto simp: repairToolCallInputs_def)
  have "repairInputsLoop out = (out, 0, 0, False)" using ok by (intro repairInputsLoop_clean) simp
  then have "sanitizeToolCallInputs out = out" by (simp add: sanitizeToolCallInputs_def repairToolCallInputs_def)
  with ok eq r show ?thesis by (simp add: sanitizeToolCallInputs_def repairToolCallInputs_def)
qed

text \<open>
  A second result for the same call, when it is the transcript's only fault, is not
  removed: the scan skips it without marking a change, so the transcript comes back with the
  id answered twice and no duplicate counted.
\<close>

theorem repair_misses_adjacent_duplicate:
  "let r = repairToolUseResultPairing True 0 [demo_call ''a'', demo_result ''a'', demo_result ''a''] in
     rp_messages r = [demo_call ''a'', demo_result ''a'', demo_result ''a'']
     \<and> rp_duplicates r = 0 \<and> \<not> rp_moved r \<and> \<not> distinct (result_ids (rp_messages r))"
  by code_simp

end
