(* ===== verification/Posix_Path.thy ===== *)
theory Posix_Path
  imports T560_Prelude
begin

text \<open>
  The part of Node's \<open>path\<close> module the sources use, on POSIX: \<open>resolve\<close>, \<open>relative\<close>, \<open>join\<close>, \<open>basename\<close>,
  \<open>dirname\<close> and \<open>isAbsolute\<close>. An absolute path is the list of its components; \<open>pcwd\<close> is the directory of
  the process. The main fact characterises the containment test
  \<open>relative === "" || !relative.startsWith("..")\<close> that several components use: it is the prefix order on
  components, except that a first component that merely begins with two dots is taken for a
  step upwards.
\<close>

definition is_absolute :: "string \<Rightarrow> bool" where
  "is_absolute p \<longleftrightarrow> starts_with p ''/''"

text \<open>Normalising: empty components and \<open>.\<close> disappear, \<open>..\<close> removes the component before it.\<close>

fun norm_parts :: "string list \<Rightarrow> string list \<Rightarrow> string list" where
  "norm_parts acc [] = rev acc"
| "norm_parts acc (c # cs) =
     (if c = [] \<or> c = ''.'' then norm_parts acc cs
      else if c = ''..'' then norm_parts (tl acc) cs
      else norm_parts (c # acc) cs)"

definition parts_of :: "string \<Rightarrow> string list" where
  "parts_of p = norm_parts [] (split_on (CHR ''/'') p)"

definition abs_path :: "string list \<Rightarrow> string" where
  "abs_path cs = ''/'' @ js_join ''/'' cs"

text \<open>\<open>path.resolve(base, p)\<close>; with \<open>base = pcwd\<close> also \<open>path.resolve(p)\<close>.\<close>

definition resolve_from :: "string \<Rightarrow> string \<Rightarrow> string \<Rightarrow> string" where
  "resolve_from pcwd base p =
     (if is_absolute p then abs_path (parts_of p)
      else if is_absolute base then abs_path (parts_of (base @ ''/'' @ p))
      else abs_path (parts_of (pcwd @ ''/'' @ base @ ''/'' @ p)))"

definition path_resolve :: "string \<Rightarrow> string \<Rightarrow> string" where
  "path_resolve pcwd p = resolve_from pcwd pcwd p"

fun drop_common :: "string list \<Rightarrow> string list \<Rightarrow> string list \<times> string list" where
  "drop_common (x # xs) (y # ys) = (if x = y then drop_common xs ys else (x # xs, y # ys))"
| "drop_common xs ys = (xs, ys)"

definition path_relative :: "string \<Rightarrow> string \<Rightarrow> string \<Rightarrow> string" where
  "path_relative pcwd from_path to_path =
     (let (up, down) = drop_common (parts_of (path_resolve pcwd from_path)) (parts_of (path_resolve pcwd to_path))
      in js_join ''/'' (map (\<lambda>_. ''..'') up @ down))"

text \<open>\<open>path.join(a, b)\<close> for an absolute \<open>a\<close>.\<close>

definition path_join :: "string \<Rightarrow> string \<Rightarrow> string" where
  "path_join a b = abs_path (parts_of (a @ ''/'' @ b))"

definition basename :: "string \<Rightarrow> string" where
  "basename p =
     (let q = rev (dropWhile (\<lambda>c. c = CHR ''/'') (rev p)) in
      if q = [] then [] else last (split_on (CHR ''/'') q))"

definition path_dirname :: "string \<Rightarrow> string" where
  "path_dirname p = abs_path (butlast (parts_of p))"

section \<open>Facts\<close>

definition component :: "string \<Rightarrow> bool" where
  "component c \<longleftrightarrow> c \<noteq> [] \<and> c \<noteq> ''.'' \<and> c \<noteq> ''..'' \<and> CHR ''/'' \<notin> set c"

lemma norm_parts_component:
  "\<forall>c \<in> set acc. component c \<Longrightarrow> \<forall>c \<in> set cs. CHR ''/'' \<notin> set c \<Longrightarrow> \<forall>c \<in> set (norm_parts acc cs). component c"
proof (induction acc cs rule: norm_parts.induct)
  case (2 acc c cs)
  have "\<forall>c \<in> set (tl acc). component c" using "2.prems"(1) by (cases acc) auto
  moreover have rest: "\<forall>c \<in> set cs. CHR ''/'' \<notin> set c" using "2.prems"(2) by simp
  moreover have "component c" if "c \<noteq> []" "c \<noteq> ''.''" "c \<noteq> ''..''"
    using that "2.prems"(2) by (simp add: component_def)
  moreover have "\<forall>d \<in> set (c # acc). component d" if "component c" using that "2.prems"(1) by simp
  ultimately show ?case
    using "2.IH"(1) [OF _ "2.prems"(1) rest] "2.IH"(2) [OF _ _ _ rest] "2.IH"(3) [OF _ _ _ rest]
    by (simp only: norm_parts.simps) (simp only: split: if_split, blast)
qed simp

lemma parts_of_component: "c \<in> set (parts_of p) \<Longrightarrow> component c"
proof -
  have "\<forall>w \<in> set (split_on (CHR ''/'') p). CHR ''/'' \<notin> set w" using set_split_on by fast
  then have "\<forall>c \<in> set (parts_of p). component c"
    unfolding parts_of_def by (intro norm_parts_component) simp_all
  then show "c \<in> set (parts_of p) \<Longrightarrow> component c" by blast
qed

lemma norm_parts_id:
  "\<forall>c \<in> set cs. component c \<Longrightarrow> norm_parts acc cs = rev acc @ cs"
  by (induction acc cs rule: norm_parts.induct) (auto simp: component_def)

lemma split_on_notin: "c \<notin> set s \<Longrightarrow> split_on c s = [s]"
  by (induction s) auto

lemma split_on_append: "c \<notin> set s \<Longrightarrow> split_on c (s @ c # r) = s # split_on c r"
  by (induction s) auto

lemma split_on_join:
  "cs \<noteq> [] \<Longrightarrow> \<forall>w \<in> set cs. c \<notin> set w \<Longrightarrow> split_on c (js_join [c] cs) = cs"
proof (induction cs)
  case (Cons w ws)
  then show ?case
    by (cases ws) (auto simp: split_on_notin split_on_append)
qed simp

lemma parts_of_abs_path [simp]:
  assumes "\<forall>c \<in> set cs. component c"
  shows "parts_of (abs_path cs) = cs"
proof (cases "cs = []")
  case True
  then show ?thesis by (simp add: parts_of_def abs_path_def)
next
  case False
  have "split_on (CHR ''/'') (abs_path cs) = [] # cs"
    using split_on_join [OF False, of "CHR ''/''"] assms by (simp add: abs_path_def component_def)
  then show ?thesis using norm_parts_id [OF assms, of "[]"] by (simp add: parts_of_def)
qed

lemma is_absolute_abs_path [simp]: "is_absolute (abs_path cs)"
  by (simp add: is_absolute_def abs_path_def starts_with_def)

lemma parts_of_resolve [simp]: "is_absolute p \<Longrightarrow> parts_of (path_resolve pcwd p) = parts_of p"
  by (simp add: path_resolve_def resolve_from_def parts_of_component)

lemma resolve_from_absolute [simp]: "is_absolute (resolve_from pcwd base p)"
  by (simp add: resolve_from_def)

lemma drop_common_spec:
  "drop_common xs ys = (up, down) \<Longrightarrow> \<exists>zs. xs = zs @ up \<and> ys = zs @ down \<and> (up = [] \<or> down = [] \<or> hd up \<noteq> hd down)"
proof (induction xs ys rule: drop_common.induct)
  case (1 x xs y ys)
  show ?case
  proof (cases "x = y")
    case True
    with 1 obtain zs where "xs = zs @ up" "ys = zs @ down" "up = [] \<or> down = [] \<or> hd up \<noteq> hd down" by auto
    with True show ?thesis by (intro exI [of _ "x # zs"]) simp
  next
    case False
    with "1.prems" show ?thesis by auto
  qed
qed auto

lemma dots_join: "w \<noteq> [] \<Longrightarrow> w \<noteq> ''.'' \<Longrightarrow> CHR ''/'' \<notin> set w \<Longrightarrow>
    starts_with (js_join ''/'' (w # ws)) ''..'' \<longleftrightarrow> starts_with w ''..''"
proof -
  assume w: "w \<noteq> []" "w \<noteq> ''.''" "CHR ''/'' \<notin> set w"
  have "prefix ''..'' (w @ r) \<longleftrightarrow> prefix ''..'' w" if "r = [] \<or> hd r = CHR ''/''" for r
    using w that by (cases w; cases "tl w"; cases r) (auto simp: prefix_def)
  then show ?thesis by (cases ws) (simp_all add: starts_with_def)
qed

text \<open>The containment test of the sources, in terms of components.\<close>

lemma contains_test:
  assumes "is_absolute root" "is_absolute target"
  shows "path_relative pcwd root target = [] \<or> \<not> starts_with (path_relative pcwd root target) ''..'' \<longleftrightarrow>
    (\<exists>rest. parts_of target = parts_of root @ rest \<and> (rest = [] \<or> \<not> starts_with (hd rest) ''..''))"
proof -
  obtain up down where ud: "drop_common (parts_of root) (parts_of target) = (up, down)" by fastforce
  from drop_common_spec [OF ud] obtain zs where zs: "parts_of root = zs @ up" "parts_of target = zs @ down"
    "up = [] \<or> down = [] \<or> hd up \<noteq> hd down" by blast
  have rel: "path_relative pcwd root target = js_join ''/'' (map (\<lambda>_. ''..'') up @ down)"
    using assms ud by (simp add: path_relative_def)
  have comp: "c \<in> set down \<Longrightarrow> component c" for c using parts_of_component [of c target] zs(2) by simp
  show ?thesis
  proof (cases "up = []")
    case True
    then have rest: "(\<exists>rest. parts_of target = parts_of root @ rest \<and> (rest = [] \<or> \<not> starts_with (hd rest) ''..'')) \<longleftrightarrow>
        down = [] \<or> \<not> starts_with (hd down) ''..''" using zs by auto
    show ?thesis
    proof (cases down)
      case Nil
      with True rest show ?thesis by (simp add: rel)
    next
      case (Cons w ws)
      have w: "component w" using comp Cons by simp
      then have "starts_with (js_join ''/'' (w # ws)) ''..'' \<longleftrightarrow> starts_with w ''..''"
        by (intro dots_join) (auto simp: component_def)
      moreover have "js_join ''/'' (w # ws) \<noteq> []" using w by (cases ws) (auto simp: component_def)
      ultimately show ?thesis using True rest by (simp add: rel Cons)
    qed
  next
    case False
    then obtain u us where u: "up = u # us" by (cases up) auto
    have "starts_with (js_join ''/'' (''..'' # ws)) ''..''" for ws
      by (cases ws) (auto simp: starts_with_def prefix_def)
    moreover have "js_join ''/'' (''..'' # ws) \<noteq> []" for ws by (cases ws) auto
    moreover have "\<nexists>rest. parts_of target = parts_of root @ rest" using zs(3) u by (auto simp: zs(1,2))
    ultimately show ?thesis by (simp add: rel u)
  qed
qed

end
