(* ===== verification/Session_Store.thy ===== *)
theory Session_Store
  imports Transcript_Repair Posix_Path
begin

text \<open>
  Persisted conversations, \<open>src/provider/session.ts\<close>: the file name of a session, the
  sanitiser that runs the two transcript repairs, and loading, saving and clearing a session.
  The disk is a map from paths to file contents; a file is a JSON document or text that does
  not parse. \<open>JSON.parse\<close> after \<open>JSON.stringify\<close> is \<^const>\<open>json_clean\<close>. Errors of the file system
  itself are not modelled. The sanitiser relies on the repairs through the locale
  \<open>transcript_fixers\<close>, interpreted on the repairs of \<open>Transcript_Repair\<close>. The lemmas show that
  sanitising is idempotent and yields a well-paired transcript that never starts with a tool
  result, and that a saved session of at most 40 messages is read back as it was written.
\<close>

section \<open>Operations\<close>

definition MAX_SESSION_MESSAGES :: nat where
  "MAX_SESSION_MESSAGES = 40"

definition session_char :: "char \<Rightarrow> bool" where
  "session_char c \<longleftrightarrow> is_word_char c \<or> c = CHR ''-''"

definition sanitizeSessionId :: "string \<Rightarrow> string" where
  "sanitizeSessionId sessionId =
     (let safe = replace_chars (\<lambda>c. \<not> session_char c) ''_'' sessionId in
      if 64 < length safe then take 64 safe else safe)"

text \<open>\<open>path.join\<close> on the state directory (a normalised path) and two plain names.\<close>

definition resolveSessionPath :: "string \<Rightarrow> string \<Rightarrow> string" where
  "resolveSessionPath stateDir sessionId =
     stateDir @ ''/sessions/'' @ sanitizeSessionId sessionId @ ''.json''"

definition coerceMessageArray :: "jsv \<Rightarrow> jsv list" where
  "coerceMessageArray raw =
     (case raw of
        JArr xs \<Rightarrow> filter (\<lambda>item. is_object item \<and> jhas item ''role'') xs
      | _ \<Rightarrow> [])"

definition isProviderErrorAssistantStub :: "jsv \<Rightarrow> bool" where
  "isProviderErrorAssistantStub msg \<longleftrightarrow>
     has_role ''assistant'' msg \<and> jget msg ''stopReason'' = JStr ''error''
     \<and> \<not> (is_array (jget msg ''content'') \<and> 0 < length (elems (jget msg ''content'')))"

definition sanitizeSessionTranscript :: "jsv list \<Rightarrow> jsv list" where
  "sanitizeSessionTranscript messages =
     (let withoutErrorStubs = filter (\<lambda>msg. \<not> isProviderErrorAssistantStub msg) messages;
          repairedInputs = ir_messages (repairToolCallInputs withoutErrorStubs);
          repairedPairing = rp_messages (repairToolUseResultPairing False 0 repairedInputs)
      in dropWhile (has_role ''toolResult'') repairedPairing)"

type_synonym disk = "(string, file_content) omap"

definition loadSessionMessages :: "string \<Rightarrow> string \<Rightarrow> disk \<Rightarrow> jsv list" where
  "loadSessionMessages stateDir sessionId disk =
     (case map_of disk (resolveSessionPath stateDir sessionId) of
        Some (Json raw) \<Rightarrow> sanitizeSessionTranscript (coerceMessageArray raw)
      | _ \<Rightarrow> [])"

definition saveSessionMessages :: "string \<Rightarrow> string \<Rightarrow> jsv list \<Rightarrow> disk \<Rightarrow> disk" where
  "saveSessionMessages stateDir sessionId messages disk =
     (let sanitized = sanitizeSessionTranscript messages;
          trimmed = (if MAX_SESSION_MESSAGES < length sanitized
                     then drop (length sanitized - MAX_SESSION_MESSAGES) sanitized
                     else sanitized);
          safeTrimmed = sanitizeSessionTranscript trimmed
      in AList.update (resolveSessionPath stateDir sessionId)
           (Json (json_clean (JArr safeTrimmed))) disk)"

definition clearSessionMessages :: "string \<Rightarrow> string \<Rightarrow> disk \<Rightarrow> disk" where
  "clearSessionMessages stateDir sessionId disk =
     AList.delete (resolveSessionPath stateDir sessionId) disk"

section \<open>What the sanitiser relies on\<close>

locale transcript_fixers =
  fixes stub :: "'m \<Rightarrow> bool"
    and clean :: "'m \<Rightarrow> bool"
    and fixInputs :: "'m list \<Rightarrow> 'm list"
    and fixPairs :: "'m list \<Rightarrow> 'm list"
  assumes inputs_clean: "list_all clean (fixInputs ms)"
    and inputs_id: "list_all clean ms \<Longrightarrow> fixInputs ms = ms"
    and inputs_no_stub: "list_all (\<lambda>m. \<not> stub m) ms \<Longrightarrow> list_all (\<lambda>m. \<not> stub m) (fixInputs ms)"
    and inputs_length: "length (fixInputs ms) \<le> length ms"
    and pairs_subset: "set (fixPairs ms) \<subseteq> set ms"
    and pairs_again: "fixPairs (fixPairs ms) = fixPairs ms"
    and pairs_length: "length (fixPairs ms) \<le> length ms"
begin

lemma composed_ok:
  "list_all clean (fixPairs (fixInputs (filter (\<lambda>m. \<not> stub m) ms)))
   \<and> list_all (\<lambda>m. \<not> stub m) (fixPairs (fixInputs (filter (\<lambda>m. \<not> stub m) ms)))"
proof -
  have sub: "list_all P ms \<Longrightarrow> list_all P (fixPairs ms)" for P ms
    using pairs_subset [of ms] unfolding list_all_iff by blast
  have "list_all (\<lambda>m. \<not> stub m) (fixInputs (filter (\<lambda>m. \<not> stub m) ms))"
    by (rule inputs_no_stub) (simp add: list_all_iff)
  then show ?thesis using inputs_clean sub by blast
qed

lemma composed_length: "length (fixPairs (fixInputs (filter (\<lambda>m. \<not> stub m) ms))) \<le> length ms"
  using pairs_length [of "fixInputs (filter (\<lambda>m. \<not> stub m) ms)"]
    inputs_length [of "filter (\<lambda>m. \<not> stub m) ms"] length_filter_le [of "\<lambda>m. \<not> stub m" ms]
  by linarith

lemma composed_again:
  "fixPairs (fixInputs (filter (\<lambda>m. \<not> stub m) (fixPairs (fixInputs (filter (\<lambda>m. \<not> stub m) ms))))) =
     fixPairs (fixInputs (filter (\<lambda>m. \<not> stub m) ms))"
proof -
  let ?out = "fixPairs (fixInputs (filter (\<lambda>m. \<not> stub m) ms))"
  have "filter (\<lambda>m. \<not> stub m) ?out = ?out"
    using composed_ok [of ms] unfolding list_all_iff by (intro filter_True) blast
  moreover have "fixInputs ?out = ?out" using composed_ok [of ms] by (intro inputs_id) blast
  ultimately show ?thesis by (simp add: pairs_again)
qed

end

section \<open>The repairs meet the contract\<close>

lemma ir_messages_loop: "ir_messages (repairToolCallInputs ms) = fst (repairInputsLoop ms)"
proof -
  obtain out calls assts changed where r: "repairInputsLoop ms = (out, calls, assts, changed)"
    using prod_cases4 by blast
  then show ?thesis using repairInputsLoop_ok [OF r] by (auto simp: repairToolCallInputs_def)
qed

text \<open>Every message of the output is an input message, or one with some of its blocks dropped.\<close>

lemma repairInputs_pred:
  assumes "list_all Q ms"
    and "\<And>m. Q m \<Longrightarrow> has_role ''assistant'' m \<Longrightarrow> is_array (jget m ''content'') \<Longrightarrow>
      filter (\<lambda>b. \<not> malformedCall b) (elems (jget m ''content'')) \<noteq> [] \<Longrightarrow>
      Q (jput ''content'' (JArr (filter (\<lambda>b. \<not> malformedCall b) (elems (jget m ''content'')))) m)"
  shows "list_all Q (ir_messages (repairToolCallInputs ms))"
  unfolding ir_messages_loop using assms(1)
proof (induction ms)
  case Nil
  then show ?case by simp
next
  case (Cons m ms)
  obtain out calls assts changed where r: "repairInputsLoop ms = (out, calls, assts, changed)"
    using prod_cases4 by blast
  with Cons assms(2) [of m] show ?case by (auto simp: Let_def)
qed

lemma has_role_record: "has_role r m \<Longrightarrow> is_object m \<and> \<not> is_array m"
  by (cases m) (auto simp: has_role_def)

lemma dropped_blocks_not_stub:
  assumes "has_role ''assistant'' m" "bs \<noteq> []"
  shows "\<not> isProviderErrorAssistantStub (jput ''content'' (JArr bs) m)"
  using assms has_role_record [OF assms(1)] by (simp add: isProviderErrorAssistantStub_def)

lemma scanSpan_count:
  "scanSpan ids ms spanR rem st = (spanR', rem', st', rest) \<Longrightarrow>
   length spanR' + length rem' + length rest \<le> length spanR + length rem + length ms"
proof (induction ms arbitrary: spanR rem st)
  case (Cons nxt ms)
  have upd: "length (AList.update i nxt spanR) \<le> Suc (length spanR)" for i
    by (induction spanR) auto
  from Cons.prems consider "rest = nxt # ms" "spanR' = spanR" "rem' = rem"
    | s q r where "scanSpan ids ms s q r = (spanR', rem', st', rest)"
        "length s + length q \<le> length spanR + length rem + 1"
    using upd by (fastforce split: if_splits option.splits)
  then show ?case
  proof cases
    case (2 s q r)
    with Cons.IH [OF 2(1)] show ?thesis by simp
  qed simp
qed simp

lemma picks_count:
  assumes "\<forall>(i, m) \<in> set spanR. is_result m \<and> extractToolResultId m = Some i"
  shows "length (picks spanR seen calls) \<le> length spanR"
proof -
  note rs = picks_entries [OF assms, of seen calls]
  let ?rs = "picks spanR seen calls"
  have len: "length (result_ids ?rs) = length ?rs"
    using map_of_zip_results [of ?rs spanR] rs by blast
  have "set (result_ids ?rs) \<subseteq> fst ` set spanR"
  proof
    fix i assume "i \<in> set (result_ids ?rs)"
    then obtain r where "r \<in> set ?rs" "extractToolResultId r = Some i"
      by (auto simp: result_ids_def split: if_splits option.splits)
    then have "map_of spanR i = Some r" using rs by auto
    then show "i \<in> fst ` set spanR" by (auto dest: map_of_SomeD intro: rev_image_eqI)
  qed
  then have "card (set (result_ids ?rs)) \<le> card (fst ` set spanR)" by (intro card_mono) auto
  also have "\<dots> \<le> length spanR" by (metis card_length list.set_map length_map)
  finally show ?thesis using rs len distinct_card by metis
qed

lemma pairLoop_count: "length (pr_out (pairLoop False now ms st)) \<le> length (pr_out st) + length ms"
proof (induction ms st rule: pairLoop_rounds [of _ False now])
  case (orphan msg rest st)
  then show ?case unfolding pairLoop_orphan [OF orphan(1)] by simp
next
  case (plain msg rest st)
  then show ?case unfolding pairLoop_plain [OF plain(1,2)] by (simp add: pushOut_def)
next
  case (span msg rest st spanR rem st1 rest')
  have entries: "\<forall>(i, m) \<in> set spanR. is_result m \<and> extractToolResultId m = Some i"
    using scanSpan_entries [OF span(4), of UNIV] by (auto simp: span_entry_def)
  let ?st = "closeSpan False now msg (extractToolCallsFromAssistant msg) spanR rem st1"
  have "length (pr_out ?st) \<le> Suc (length (pr_out st) + length spanR + length rem)"
    using answerCalls_picks [OF entries] picks_count [OF entries] scanSpan_state [OF span(4)]
    by (auto simp: closeSpan_def Let_def pushOut_def)
  with span(5) scanSpan_count [OF span(4)] show ?case unfolding pairLoop_span [OF span(1-4)] by simp
qed simp

definition session_inputs :: "jsv list \<Rightarrow> jsv list" where
  "session_inputs ms = ir_messages (repairToolCallInputs ms)"

definition session_pairs :: "jsv list \<Rightarrow> jsv list" where
  "session_pairs ms = rp_messages (repairToolUseResultPairing False 0 ms)"

lemma answerCalls_adds_nothing: "pr_added (answerCalls False now spanR calls st) = pr_added st"
  by (induction calls arbitrary: st) (auto split: option.splits)

lemma pairLoop_adds_nothing: "pr_added (pairLoop False now ms st) = pr_added st"
proof (induction ms st rule: pairLoop_rounds [of _ False now])
  case (span msg rest st spanR rem st1 rest')
  then show ?case unfolding pairLoop_span [OF span(1-4)]
    using scanSpan_state [OF span(4)]
    by (simp add: closeSpan_def Let_def pushOut_def answerCalls_adds_nothing)
qed (simp_all add: pairLoop_orphan pairLoop_plain pushOut_def del: pairLoop.simps(2))

interpretation fixers: transcript_fixers isProviderErrorAssistantStub clean_message session_inputs session_pairs
proof unfold_locales
  fix ms :: "jsv list"
  obtain out calls assts changed where r: "repairInputsLoop ms = (out, calls, assts, changed)"
    using prod_cases4 by blast
  note ok = repairInputsLoop_ok [OF r]
  show "list_all clean_message (session_inputs ms)" "length (session_inputs ms) \<le> length ms"
    using ok r by (simp_all add: session_inputs_def ir_messages_loop)
  show "session_inputs ms = ms" if "list_all clean_message ms"
    by (simp add: session_inputs_def ir_messages_loop repairInputsLoop_clean [OF that])
  show "list_all (\<lambda>m. \<not> isProviderErrorAssistantStub m) (session_inputs ms)"
    if "list_all (\<lambda>m. \<not> isProviderErrorAssistantStub m) ms"
    unfolding session_inputs_def using that
    by (rule repairInputs_pred) (rule dropped_blocks_not_stub)
  have inv: "pair_inv False (set ms) (pairLoop False 0 ms initPair)"
    using pairLoop_ok [OF pair_inv_init, of ms "set ms" False 0] by simp
  then show "set (session_pairs ms) \<subseteq> set ms"
    using pairLoop_adds_nothing [of 0 ms initPair]
    by (auto simp: session_pairs_def repairToolUseResultPairing_def Let_def pair_inv_def initPair_def)
  show "session_pairs (session_pairs ms) = session_pairs ms"
    unfolding session_pairs_def by (rule repairToolUseResultPairing_again)
  show "length (session_pairs ms) \<le> length ms"
    using pairLoop_count [of 0 ms initPair]
    by (auto simp: session_pairs_def repairToolUseResultPairing_def Let_def initPair_def)
qed


lemma sanitizeSessionTranscript_alt:
  "sanitizeSessionTranscript ms =
     session_pairs (session_inputs (filter (\<lambda>m. \<not> isProviderErrorAssistantStub m) ms))"
proof -
  let ?out = "session_pairs (session_inputs (filter (\<lambda>m. \<not> isProviderErrorAssistantStub m) ms))"
  have "paired [] ?out" unfolding session_pairs_def by (rule repairToolUseResultPairing_paired)
  then have "dropWhile (has_role ''toolResult'') ?out = ?out"
    by (cases ?out) (auto simp: is_result_def split: if_splits option.splits)
  then show ?thesis by (simp add: sanitizeSessionTranscript_def Let_def session_inputs_def session_pairs_def)
qed

section \<open>Messages that are JSON\<close>

definition json_message :: "jsv \<Rightarrow> bool" where
  "json_message m \<longleftrightarrow> json_clean m = m \<and> is_object m \<and> jhas m ''role''"

lemma json_clean_JObj_iff:
  "json_clean (JObj fs) = JObj fs \<longleftrightarrow> list_all (\<lambda>(k, v). json_clean v = v) fs"
proof -
  have undef: "v \<noteq> JUndef" if "json_clean v = v" for v using that json_clean_not_JUndef by metis
  have "length (filter (\<lambda>(k, v). v \<noteq> JUndef) fs) < length fs" if "\<not> list_all (\<lambda>(k, v). v \<noteq> JUndef) fs"
    using that by (induction fs) (auto simp: less_Suc_eq_le split: if_splits)
  moreover have "length (filter (\<lambda>(k, v). v \<noteq> JUndef) fs) = length fs" if "json_clean (JObj fs) = JObj fs"
    using that by (auto dest!: arg_cong [of _ _ length])
  ultimately have "list_all (\<lambda>(k, v). v \<noteq> JUndef) fs" if "json_clean (JObj fs) = JObj fs"
    using that by (metis less_irrefl)
  moreover have "filter (\<lambda>(k, v). v \<noteq> JUndef) fs = fs \<and>
      (map (\<lambda>(k, v). (k, json_clean v)) fs = fs \<longleftrightarrow> list_all (\<lambda>(k, v). json_clean v = v) fs)"
    if "list_all (\<lambda>(k, v). v \<noteq> JUndef) fs"
    using that by (induction fs) auto
  moreover have "list_all (\<lambda>(k, v). v \<noteq> JUndef) fs" if "list_all (\<lambda>(k, v). json_clean v = v) fs"
    using that by (induction fs) (auto dest: undef)
  ultimately show ?thesis by (metis (no_types, lifting) json_clean.simps(4) jsv.inject(5))
qed

lemma json_clean_JArr_iff: "json_clean (JArr xs) = JArr xs \<longleftrightarrow> list_all (\<lambda>v. json_clean v = v) xs"
  by (simp add: list_all_iff) (metis map_idI map_eq_conv list.map_ident)

lemma json_message_drop_blocks:
  assumes "json_message m" "has_role ''assistant'' m" "is_array (jget m ''content'')"
  shows "json_message (jput ''content'' (JArr (filter P (elems (jget m ''content'')))) m)"
proof -
  obtain fs where m: "m = JObj fs" using has_role_record [OF assms(2)] by (cases m) auto
  obtain xs where xs: "map_of fs ''content'' = Some (JArr xs)"
    using assms(3) unfolding m by (auto simp: is_array_iff split: option.splits)
  have fs: "list_all (\<lambda>(k, v). json_clean v = v) fs"
    using assms(1) unfolding json_message_def m json_clean_JObj_iff by blast
  then have "json_clean (JArr xs) = JArr xs"
    using map_of_SomeD [OF xs] unfolding list_all_iff by blast
  then have "json_clean (JArr (filter P xs)) = JArr (filter P xs)"
    unfolding json_clean_JArr_iff list_all_iff by simp
  then have "json_clean (JObj (AList.update ''content'' (JArr (filter P xs)) fs)) =
      JObj (AList.update ''content'' (JArr (filter P xs)) fs)"
    unfolding json_clean_JObj_iff by (intro list_all_update [OF fs]) simp
  moreover have "map_of (AList.update ''content'' v fs) ''role'' = map_of fs ''role''" for v
    by (simp add: AList.update_conv')
  ultimately show ?thesis
    using assms(1) unfolding json_message_def m by (simp add: xs)
qed

lemma sanitize_json_messages:
  assumes "list_all json_message ms"
  shows "list_all json_message (sanitizeSessionTranscript ms)"
proof -
  have "list_all json_message (session_inputs (filter (\<lambda>m. \<not> isProviderErrorAssistantStub m) ms))"
    unfolding session_inputs_def using assms json_message_drop_blocks
    by (intro repairInputs_pred) (auto simp: list_all_iff)
  then show ?thesis
    unfolding sanitizeSessionTranscript_alt using fixers.pairs_subset unfolding list_all_iff by blast
qed

lemma coerce_json_messages:
  assumes "list_all json_message ms"
  shows "coerceMessageArray (json_clean (JArr ms)) = ms"
proof -
  have "json_clean (JArr ms) = JArr ms"
    using assms unfolding json_clean_JArr_iff list_all_iff json_message_def by blast
  then show ?thesis
    using assms unfolding coerceMessageArray_def
    by (auto simp: list_all_iff json_message_def intro!: filter_True)
qed

lemma session_id_chars: "c \<in> set (sanitizeSessionId s) \<Longrightarrow> session_char c"
proof -
  assume "c \<in> set (sanitizeSessionId s)"
  then have "c \<in> set (replace_chars (\<lambda>c. \<not> session_char c) ''_'' s)"
    by (auto simp: sanitizeSessionId_def Let_def split: if_splits dest: in_set_takeD)
  then have "c = CHR ''_'' \<or> session_char c" using set_replace_chars by fastforce
  then show ?thesis by (auto simp: session_char_def is_word_char_def)
qed

section \<open>Properties\<close>

text \<open>
  C2. The sanitised transcript contains no error stub and no malformed tool call, every tool
  result in it follows the assistant message that asked for it (so the transcript never starts
  with one), it is never longer than the input, and sanitising it again changes nothing.
\<close>

theorem sanitizeSessionTranscript_ok:
  "list_all (\<lambda>m. \<not> isProviderErrorAssistantStub m \<and> clean_message m) (sanitizeSessionTranscript messages)
   \<and> paired [] (sanitizeSessionTranscript messages)
   \<and> length (sanitizeSessionTranscript messages) \<le> length messages
   \<and> sanitizeSessionTranscript (sanitizeSessionTranscript messages) = sanitizeSessionTranscript messages"
proof -
  have "paired [] (sanitizeSessionTranscript messages)"
    unfolding sanitizeSessionTranscript_alt session_pairs_def by (rule repairToolUseResultPairing_paired)
  moreover have "list_all (\<lambda>m. \<not> isProviderErrorAssistantStub m \<and> clean_message m) (sanitizeSessionTranscript messages)"
    unfolding sanitizeSessionTranscript_alt 
    by (rule list_all_both [OF conjunct2 conjunct1]) (rule fixers.composed_ok)+
  moreover have "length (sanitizeSessionTranscript messages) \<le> length messages"
    unfolding sanitizeSessionTranscript_alt by (rule fixers.composed_length)
  moreover have "sanitizeSessionTranscript (sanitizeSessionTranscript messages) = sanitizeSessionTranscript messages"
    unfolding sanitizeSessionTranscript_alt by (rule fixers.composed_again)
  ultimately show ?thesis by simp
qed

text \<open>
  C1. A session made of JSON messages is read back as it was written: loading after saving
  gives the sanitised last 40 messages of the sanitised transcript, at most 40 in number; the
  files of sessions with another file name are untouched.
\<close>

theorem load_after_save:
  assumes "list_all json_message messages"
  shows "loadSessionMessages dir sid (saveSessionMessages dir sid messages disk) =
      sanitizeSessionTranscript (take_last MAX_SESSION_MESSAGES (sanitizeSessionTranscript messages))
    \<and> length (loadSessionMessages dir sid (saveSessionMessages dir sid messages disk)) \<le> MAX_SESSION_MESSAGES
    \<and> (sanitizeSessionId sid' \<noteq> sanitizeSessionId sid \<longrightarrow>
        loadSessionMessages dir sid' (saveSessionMessages dir sid messages disk) = loadSessionMessages dir sid' disk)"
proof -
  let ?t = "take_last MAX_SESSION_MESSAGES (sanitizeSessionTranscript messages)"
  have trim: "(if MAX_SESSION_MESSAGES < length xs then drop (length xs - MAX_SESSION_MESSAGES) xs else xs) =
      take_last MAX_SESSION_MESSAGES xs" for xs :: "jsv list" by (simp add: take_last_def)
  have "list_all json_message ?t"
    using sanitize_json_messages [OF assms] by (auto simp: list_all_iff take_last_def dest: in_set_dropD)
  then have "list_all json_message (sanitizeSessionTranscript ?t)" by (rule sanitize_json_messages)
  then have load: "loadSessionMessages dir sid (saveSessionMessages dir sid messages disk) = sanitizeSessionTranscript ?t"
    unfolding loadSessionMessages_def saveSessionMessages_def Let_def trim omap.get_put_same
    using fixers.composed_again [of ?t] by (simp add: coerce_json_messages sanitizeSessionTranscript_alt del: json_clean.simps)
  moreover have "length (sanitizeSessionTranscript ?t) \<le> MAX_SESSION_MESSAGES"
    unfolding sanitizeSessionTranscript_alt [of ?t] using fixers.composed_length [of ?t]
    by (auto simp: take_last_def)
  moreover have "loadSessionMessages dir sid' (saveSessionMessages dir sid messages disk) = loadSessionMessages dir sid' disk"
    if "sanitizeSessionId sid' \<noteq> sanitizeSessionId sid"
    using that by (simp add: loadSessionMessages_def saveSessionMessages_def Let_def resolveSessionPath_def store_simps)
  ultimately show ?thesis by simp
qed

theorem load_after_save_witness:
  "loadSessionMessages ''/s'' ''a'' (saveSessionMessages ''/s'' ''a'' [demo_result ''x'', demo_user, demo_call ''x''] []) =
     sanitizeSessionTranscript (take_last MAX_SESSION_MESSAGES (sanitizeSessionTranscript [demo_result ''x'', demo_user, demo_call ''x'']))
   \<and> list_all json_message [demo_result ''x'', demo_user, demo_call ''x'']"
proof -
  have js: "list_all json_message [demo_result ''x'', demo_user, demo_call ''x'']" by code_simp
  from load_after_save [OF js] js show ?thesis by blast
qed

lemma norm_parts_append: "norm_parts acc (xs @ ys) = norm_parts (rev (norm_parts acc xs)) ys"
  by (induction acc xs rule: norm_parts.induct) auto

lemma split_on_app: "split_on c (a @ c # b) = split_on c a @ split_on c b"
  by (induction a) (auto simp: neq_Nil_conv split: list.split)

lemma parts_of_below:
  assumes "component d" "component f"
  shows "parts_of (a @ ''/'' @ d @ ''/'' @ f) = parts_of a @ [d, f]"
  using assms by (simp add: parts_of_def component_def split_on_app split_on_notin norm_parts_append)

lemma session_file_component: "component (sanitizeSessionId sid @ ''.json'')"
proof -
  have "\<not> session_char (CHR ''/'')" by code_simp
  then have "CHR ''/'' \<notin> set (sanitizeSessionId sid)" using session_id_chars by blast
  then show ?thesis by (auto simp: component_def Cons_eq_append_conv append_eq_Cons_conv)
qed

text \<open>
  C4. A session file lies directly in the sessions directory: the path of a session, whatever its id, is the state
  directory, \<open>sessions\<close> and one file name, which is made of at most 64 letters, digits, underscores or dashes before its
  extension; two sessions share a file just when their sanitised ids agree. Saving and clearing a session change no other
  path of the disk. An id of that form is its own file name.
\<close>

theorem session_path_confined:
  "parts_of (resolveSessionPath stateDir sid) = parts_of stateDir @ [''sessions'', sanitizeSessionId sid @ ''.json'']
   \<and> list_all session_char (sanitizeSessionId sid) \<and> length (sanitizeSessionId sid) \<le> 64
   \<and> (resolveSessionPath stateDir sid' = resolveSessionPath stateDir sid \<longleftrightarrow> sanitizeSessionId sid' = sanitizeSessionId sid)
   \<and> {p. map_of (saveSessionMessages stateDir sid messages disk) p \<noteq> map_of disk p} \<subseteq> {resolveSessionPath stateDir sid}
   \<and> {p. map_of (clearSessionMessages stateDir sid disk) p \<noteq> map_of disk p} \<subseteq> {resolveSessionPath stateDir sid}
   \<and> sanitizeSessionId (sanitizeSessionId sid) = sanitizeSessionId sid"
proof -
  have "component ''sessions''" by code_simp
  then have parts: "parts_of (resolveSessionPath stateDir sid) = parts_of stateDir @ [''sessions'', sanitizeSessionId sid @ ''.json'']"
    using parts_of_below [OF _ session_file_component, of "''sessions''" stateDir sid] by (simp add: resolveSessionPath_def)
  have chars: "list_all session_char (sanitizeSessionId sid)"
    using session_id_chars by (simp add: list_all_iff)
  have len: "length (sanitizeSessionId sid) \<le> 64" by (simp add: sanitizeSessionId_def Let_def)
  have same: "resolveSessionPath stateDir sid' = resolveSessionPath stateDir sid \<longleftrightarrow> sanitizeSessionId sid' = sanitizeSessionId sid"
    by (simp add: resolveSessionPath_def)
  have save: "{p. map_of (saveSessionMessages stateDir sid messages disk) p \<noteq> map_of disk p} \<subseteq> {resolveSessionPath stateDir sid}"
    by (auto simp: saveSessionMessages_def Let_def update_conv' split: if_split_asm)
  have clear: "{p. map_of (clearSessionMessages stateDir sid disk) p \<noteq> map_of disk p} \<subseteq> {resolveSessionPath stateDir sid}"
    by (auto simp: clearSessionMessages_def delete_conv' split: if_split_asm)
  have "sanitizeSessionId s = s" if "list_all session_char s" "length s \<le> 64" for s
  proof -
    have "replace_chars (\<lambda>c. \<not> session_char c) ''_'' s = s"
      using that(1) unfolding replace_chars_def by (induction s) auto
    with that(2) show ?thesis by (simp add: sanitizeSessionId_def Let_def)
  qed
  with parts chars len same save clear show ?thesis by blast
qed

end
