(* ===== verification/Session_Slug.thy ===== *)
theory Session_Slug
  imports Complex_Main T560_Prelude
begin

text \<open>
  Names of process sessions, \<open>src/agents/session-slug.ts\<close>. \<open>Math.random()\<close> is a sequence \<open>rnd\<close> of
  rationals, read at a counter that every draw advances; the base-36 texts of the last draw
  and of the clock are parameters. The lemmas show that a name is returned after finitely many
  draws and is not taken while fewer than twelve names are.
\<close>

definition SLUG_ADJECTIVES :: "string list" where
  "SLUG_ADJECTIVES =
     [''amber'', ''briny'', ''brisk'', ''calm'', ''clear'', ''cool'', ''crisp'', ''dawn'', ''delta'', ''ember'',
      ''faint'', ''fast'', ''fresh'', ''gentle'', ''glow'', ''good'', ''grand'', ''keen'', ''kind'', ''lucky'',
      ''marine'', ''mellow'', ''mild'', ''neat'', ''nimble'', ''nova'', ''oceanic'', ''plaid'', ''quick'', ''quiet'',
      ''rapid'', ''salty'', ''sharp'', ''swift'', ''tender'', ''tidal'', ''tidy'', ''tide'', ''vivid'', ''warm'',
      ''wild'', ''young'']"

definition SLUG_NOUNS :: "string list" where
  "SLUG_NOUNS =
     [''atlas'', ''basil'', ''bison'', ''bloom'', ''breeze'', ''canyon'', ''cedar'', ''claw'', ''cloud'', ''comet'',
      ''coral'', ''cove'', ''crest'', ''crustacean'', ''daisy'', ''dune'', ''ember'', ''falcon'', ''fjord'', ''forest'',
      ''glade'', ''gulf'', ''harbor'', ''haven'', ''kelp'', ''lagoon'', ''lobster'', ''meadow'', ''mist'', ''nudibranch'',
      ''nexus'', ''ocean'', ''orbit'', ''otter'', ''pine'', ''prairie'', ''reef'', ''ridge'', ''river'', ''rook'',
      ''sable'', ''sage'', ''seaslug'', ''shell'', ''shoal'', ''shore'', ''slug'', ''summit'', ''tidepool'', ''trail'',
      ''valley'', ''wharf'', ''willow'', ''zephyr'']"

definition randomChoice :: "(nat \<Rightarrow> rat) \<Rightarrow> string list \<Rightarrow> string \<Rightarrow> nat \<Rightarrow> string" where
  "randomChoice rnd vals fallback k =
     (let i = nat \<lfloor>rnd k * of_nat (length vals)\<rfloor> in if i < length vals then vals ! i else fallback)"

text \<open>The slug of two or three words, and the counter after its draws.\<close>

definition createSlugBase :: "(nat \<Rightarrow> rat) \<Rightarrow> nat \<Rightarrow> nat \<Rightarrow> string \<times> nat" where
  "createSlugBase rnd nwords k =
     (let parts = [randomChoice rnd SLUG_ADJECTIVES ''steady'' k,
                   randomChoice rnd SLUG_NOUNS ''harbor'' (k + 1)]
      in if 2 < nwords
         then (js_join ''-'' (parts @ [randomChoice rnd SLUG_NOUNS ''reef'' (k + 2)]), k + 3)
         else (js_join ''-'' parts, k + 2))"

definition numbered :: "string \<Rightarrow> nat \<Rightarrow> string" where
  "numbered base i = base @ ''-'' @ nat_to_string i"

fun tryNumbered :: "(string \<Rightarrow> bool) \<Rightarrow> string \<Rightarrow> nat list \<Rightarrow> string option" where
  "tryNumbered taken base [] = None"
| "tryNumbered taken base (i # is) =
     (if \<not> taken (numbered base i) then Some (numbered base i) else tryNumbered taken base is)"

definition trySlug :: "(string \<Rightarrow> bool) \<Rightarrow> string \<Rightarrow> string option" where
  "trySlug taken base = (if \<not> taken base then Some base else tryNumbered taken base [2..<13])"

fun trySlugs ::
  "(nat \<Rightarrow> rat) \<Rightarrow> (string \<Rightarrow> bool) \<Rightarrow> nat \<Rightarrow> nat \<Rightarrow> nat \<Rightarrow> string option \<times> nat" where
  "trySlugs rnd taken nwords 0 k = (None, k)"
| "trySlugs rnd taken nwords (Suc n) k =
     (let (base, k') = createSlugBase rnd nwords k in
      case trySlug taken base of
        Some s \<Rightarrow> (Some s, k')
      | None \<Rightarrow> trySlugs rnd taken nwords n k')"

definition createSessionSlug ::
  "(nat \<Rightarrow> rat) \<Rightarrow> (nat \<Rightarrow> string) \<Rightarrow> string \<Rightarrow> (string \<Rightarrow> bool) \<Rightarrow> nat \<Rightarrow> string" where
  "createSessionSlug rnd rnd36 now36 taken k =
     (case trySlugs rnd taken 2 12 k of
        (Some s, _) \<Rightarrow> s
      | (None, k1) \<Rightarrow>
          (case trySlugs rnd taken 3 12 k1 of
             (Some s, _) \<Rightarrow> s
           | (None, k2) \<Rightarrow>
               let (base, k3) = createSlugBase rnd 3 k2;
                   fallback = base @ ''-'' @ take 3 (drop 2 (rnd36 k3))
               in if taken fallback then fallback @ ''-'' @ now36 else fallback))"

section \<open>Facts\<close>

lemma tryNumbered_Some: "tryNumbered taken base is = Some s \<Longrightarrow> \<not> taken s"
  by (induction "is") (auto split: if_splits)

lemma tryNumbered_None: "tryNumbered taken base is = None \<longleftrightarrow> list_all (\<lambda>i. taken (numbered base i)) is"
  by (induction "is") auto

lemma trySlug_Some: "trySlug taken base = Some s \<Longrightarrow> \<not> taken s"
  by (auto simp: trySlug_def tryNumbered_Some split: if_splits)

lemma trySlugs_Some: "trySlugs rnd taken w n k = (Some s, k') \<Longrightarrow> \<not> taken s"
  by (induction n arbitrary: k) (auto simp: trySlug_Some split: prod.splits option.splits)

lemma numbered_inj: "numbered base i = numbered base j \<longleftrightarrow> i = j"
  by (simp add: numbered_def)

text \<open>Each base has twelve candidates, so a base fails only when twelve names are taken.\<close>

lemma trySlug_None_many:
  assumes "trySlug (\<lambda>s. s \<in> set ids) base = None"
  shows "12 \<le> length ids"
proof -
  have "base \<in> set ids" and "list_all (\<lambda>i. numbered base i \<in> set ids) [2..<13]"
    using assms by (auto simp: trySlug_def tryNumbered_None split: if_splits)
  then have sub: "insert base (numbered base ` set [2..<13]) \<subseteq> set ids" by (auto simp: list_all_iff)
  have "card (numbered base ` set [2..<13]) = 11"
    by (subst card_image) (auto simp: inj_on_def numbered_inj)
  moreover have "base \<notin> numbered base ` set [2..<13]" by (auto simp: numbered_def)
  ultimately have "card (insert base (numbered base ` set [2..<13])) = 12"
    by (subst card_insert_disjoint) (auto simp del: set_upt)
  with sub have "12 \<le> card (set ids)" by (metis List.finite_set card_mono)
  then show ?thesis using card_length order_trans by blast
qed

text \<open>
  While fewer than twelve session names are in use, the generated name is not in use,
  whatever the random draws are. In general the result is unused, or it is the last resort, a
  taken fallback extended by the clock.
\<close>

theorem createSessionSlug_fresh:
  "(length ids < 12 \<longrightarrow> createSessionSlug rnd rnd36 now36 (\<lambda>s. s \<in> set ids) k \<notin> set ids)
   \<and> (\<not> taken (createSessionSlug rnd rnd36 now36 taken k)
      \<or> (\<exists>f. taken f \<and> createSessionSlug rnd rnd36 now36 taken k = f @ ''-'' @ now36))"
proof
  show "length ids < 12 \<longrightarrow> createSessionSlug rnd rnd36 now36 (\<lambda>s. s \<in> set ids) k \<notin> set ids"
  proof
    assume "length ids < 12"
    then obtain s where s: "trySlug (\<lambda>s. s \<in> set ids) (fst (createSlugBase rnd 2 k)) = Some s"
      using trySlug_None_many not_le by (metis option.exhaust)
    have "trySlugs rnd (\<lambda>s. s \<in> set ids) 2 (Suc 11) k = (Some s, snd (createSlugBase rnd 2 k))"
      unfolding trySlugs.simps using s by (cases "createSlugBase rnd 2 k") simp
    then have "trySlugs rnd (\<lambda>s. s \<in> set ids) 2 12 k = (Some s, snd (createSlugBase rnd 2 k))" by simp
    then have "createSessionSlug rnd rnd36 now36 (\<lambda>s. s \<in> set ids) k = s"
      by (simp only: createSessionSlug_def) simp
    with trySlug_Some [OF s] show "createSessionSlug rnd rnd36 now36 (\<lambda>s. s \<in> set ids) k \<notin> set ids" by simp
  qed
  show "\<not> taken (createSessionSlug rnd rnd36 now36 taken k)
      \<or> (\<exists>f. taken f \<and> createSessionSlug rnd rnd36 now36 taken k = f @ ''-'' @ now36)"
    unfolding createSessionSlug_def
    by (auto simp: Let_def dest: trySlugs_Some split: prod.splits option.splits)
qed

theorem createSessionSlug_fresh_witness:
  "createSessionSlug (\<lambda>_. 0) (\<lambda>_. ''0.abc'') ''k9'' (\<lambda>s. s \<in> set [''amber-atlas'']) 0 \<notin> set [''amber-atlas'']
   \<and> createSessionSlug (\<lambda>_. 0) (\<lambda>_. ''0.abc'') ''k9'' (\<lambda>s. s \<in> set [''amber-atlas'']) 0 = ''amber-atlas-2''"
proof
  show "createSessionSlug (\<lambda>_. 0) (\<lambda>_. ''0.abc'') ''k9'' (\<lambda>s. s \<in> set [''amber-atlas'']) 0 \<notin> set [''amber-atlas'']"
    using createSessionSlug_fresh [of "[''amber-atlas'']"] by simp
  show "createSessionSlug (\<lambda>_. 0) (\<lambda>_. ''0.abc'') ''k9'' (\<lambda>s. s \<in> set [''amber-atlas'']) 0 = ''amber-atlas-2''"
    by code_simp
qed

end
