(* ===== verification/Process_Registry.thy ===== *)
theory Process_Registry
  imports Js_Value Session_Slug
begin

text \<open>
  The registry of shell processes, \<open>src/agents/bash-process-registry.ts\<close>. A session object is
  shared between the code that started the process and the registry's map, so the model keeps
  the objects in a heap and the map \<open>runningSessions\<close> holds addresses: an object deleted from the
  map goes on receiving output, as it does in the code. Of a child process the model keeps the
  signals it was sent, of its input the text written. The four pending fields are declared
  non-optional, so the \<open>??=\<close> defaults of \<open>appendOutput\<close> never fire and are left out.
  The lemmas show that the pending and aggregated buffers hold exactly the last characters of
  the output, that a session is never running and finished at once, and what the sweep removes;
  the invariant holds in every reachable state of the step relation \<open>reg_step\<close>.
\<close>

section \<open>Data\<close>

datatype process_status = Running | Completed | Failed | Killed

datatype stream = Stdout | Stderr

record session_stdin =
  stdin_written :: string
  stdin_ended :: bool
  can_destroy :: bool
  stdin_destroyed :: bool
  stdin_error :: "string option"

record process_session =
  ps_id :: string
  ps_command :: string
  ps_scopeKey :: "string option"
  ps_child :: "string list option"
  ps_stdin :: "session_stdin option"
  ps_pid :: jsv
  ps_startedAt :: int
  ps_cwd :: jsv
  maxOutputChars :: nat
  pendingMaxOutputChars :: "nat option"
  totalOutputChars :: nat
  pendingStdout :: "string list"
  pendingStderr :: "string list"
  pendingStdoutChars :: nat
  pendingStderrChars :: nat
  aggregated :: string
  ps_tail :: string
  exitCode :: jsv
  exitSignal :: jsv
  exited :: bool
  truncated :: bool
  backgrounded :: bool

record finished_session =
  fs_id :: string
  fs_command :: string
  fs_scopeKey :: "string option"
  fs_startedAt :: int
  fs_endedAt :: int
  fs_cwd :: jsv
  fs_status :: process_status
  fs_exitCode :: jsv
  fs_exitSignal :: jsv
  fs_aggregated :: string
  fs_tail :: string
  fs_truncated :: bool
  fs_totalOutputChars :: nat

type_synonym addr = nat

record registry =
  objects :: "(addr, process_session) omap"
  runningSessions :: "(string, addr) omap"
  finishedSessions :: "(string, finished_session) omap"
  jobTtlMs :: rat
  sweeper :: "rat option"

definition DEFAULT_JOB_TTL_MS :: rat where "DEFAULT_JOB_TTL_MS = 30 * 60 * 1000"
definition MIN_JOB_TTL_MS :: rat where "MIN_JOB_TTL_MS = 60 * 1000"
definition MAX_JOB_TTL_MS :: rat where "MAX_JOB_TTL_MS = 3 * 60 * 60 * 1000"
definition DEFAULT_PENDING_OUTPUT_CHARS :: nat where "DEFAULT_PENDING_OUTPUT_CHARS = 30000"

fun clampTtl :: "jnum option \<Rightarrow> rat" where
  "clampTtl None = DEFAULT_JOB_TTL_MS"
| "clampTtl (Some NaN) = DEFAULT_JOB_TTL_MS"
| "clampTtl (Some PosInf) = MAX_JOB_TTL_MS"
| "clampTtl (Some NegInf) = MIN_JOB_TTL_MS"
| "clampTtl (Some (Fin v)) =
     (if v = 0 then DEFAULT_JOB_TTL_MS else min (max v MIN_JOB_TTL_MS) MAX_JOB_TTL_MS)"

section \<open>Output buffers\<close>

definition tail :: "string \<Rightarrow> nat \<Rightarrow> string" where
  "tail txt mx = (if length txt \<le> mx then txt else drop (length txt - mx) txt)"

definition trimWithCap :: "string \<Rightarrow> nat \<Rightarrow> string" where
  "trimWithCap txt mx = (if length txt \<le> mx then txt else drop (length txt - mx) txt)"

definition sumPendingChars :: "string list \<Rightarrow> nat" where
  "sumPendingChars buffer = foldl (\<lambda>total chunk. total + length chunk) 0 buffer"

text \<open>The \<open>while\<close> loop that drops whole chunks; \<open>pendingChars - buffer[0].length >= cap\<close> over integers.\<close>

fun shiftBuffer :: "string list \<Rightarrow> nat \<Rightarrow> nat \<Rightarrow> string list \<times> nat" where
  "shiftBuffer [] pendingChars cap = ([], pendingChars)"
| "shiftBuffer (b # buffer) pendingChars cap =
     (if cap + length b \<le> pendingChars then shiftBuffer buffer (pendingChars - length b) cap
      else (b # buffer, pendingChars))"

definition capPendingBuffer :: "string list \<Rightarrow> nat \<Rightarrow> nat \<Rightarrow> string list \<times> nat" where
  "capPendingBuffer buffer pendingChars cap =
     (if pendingChars \<le> cap then (buffer, pendingChars)
      else if buffer \<noteq> [] \<and> last buffer \<noteq> [] \<and> cap \<le> length (last buffer)
        then ([drop (length (last buffer) - cap) (last buffer)], cap)
      else
        let (buffer', pendingChars') = shiftBuffer buffer pendingChars cap in
        case buffer' of
          b # bs \<Rightarrow> if cap < pendingChars' then (drop (pendingChars' - cap) b # bs, cap)
                    else (buffer', pendingChars')
        | [] \<Rightarrow> (buffer', pendingChars'))"

definition pendingCap :: "process_session \<Rightarrow> nat" where
  "pendingCap s =
     min (case pendingMaxOutputChars s of Some n \<Rightarrow> n | None \<Rightarrow> DEFAULT_PENDING_OUTPUT_CHARS)
         (maxOutputChars s)"

definition pushPending :: "nat \<Rightarrow> string list \<Rightarrow> nat \<Rightarrow> string \<Rightarrow> string list \<times> nat \<times> bool" where
  "pushPending cap buffer bufferChars chunk =
     (let pendingChars = bufferChars + length chunk in
      if cap < pendingChars
      then let (b, n) = capPendingBuffer (buffer @ [chunk]) pendingChars cap in (b, n, True)
      else (buffer @ [chunk], pendingChars, False))"

definition appendOutput :: "process_session \<Rightarrow> stream \<Rightarrow> string \<Rightarrow> process_session" where
  "appendOutput s stream chunk =
     (let (buffer, chars, over) =
            (if stream = Stdout then pushPending (pendingCap s) (pendingStdout s) (pendingStdoutChars s) chunk
             else pushPending (pendingCap s) (pendingStderr s) (pendingStderrChars s) chunk);
          s1 = (if over then s\<lparr>truncated := True\<rparr> else s);
          s2 = (if stream = Stdout then s1\<lparr>pendingStdout := buffer, pendingStdoutChars := chars\<rparr>
                else s1\<lparr>pendingStderr := buffer, pendingStderrChars := chars\<rparr>);
          agg = trimWithCap (aggregated s @ chunk) (maxOutputChars s)
      in s2\<lparr>totalOutputChars := totalOutputChars s + length chunk,
            truncated := truncated s1 \<or> length agg < length (aggregated s) + length chunk,
            aggregated := agg,
            ps_tail := tail agg 2000\<rparr>)"

definition drainSession :: "process_session \<Rightarrow> (string \<times> string) \<times> process_session" where
  "drainSession s =
     ((concat (pendingStdout s), concat (pendingStderr s)),
      s\<lparr>pendingStdout := [], pendingStderr := [], pendingStdoutChars := 0, pendingStderrChars := 0\<rparr>)"

section \<open>Operations on the registry\<close>

definition updateObject :: "addr \<Rightarrow> (process_session \<Rightarrow> process_session) \<Rightarrow> registry \<Rightarrow> registry" where
  "updateObject a f reg =
     (case map_of (objects reg) a of
        Some s \<Rightarrow> reg\<lparr>objects := AList.update a (f s) (objects reg)\<rparr>
      | None \<Rightarrow> reg)"

definition isSessionIdTaken :: "string \<Rightarrow> registry \<Rightarrow> bool" where
  "isSessionIdTaken i reg \<longleftrightarrow>
     map_of (runningSessions reg) i \<noteq> None \<or> map_of (finishedSessions reg) i \<noteq> None"

definition createSessionSlugFor ::
  "(nat \<Rightarrow> rat) \<Rightarrow> (nat \<Rightarrow> string) \<Rightarrow> string \<Rightarrow> nat \<Rightarrow> registry \<Rightarrow> string" where
  "createSessionSlugFor rnd rnd36 now36 k reg =
     createSessionSlug rnd rnd36 now36 (\<lambda>i. isSessionIdTaken i reg) k"

definition startSweeper :: "registry \<Rightarrow> registry" where
  "startSweeper reg =
     (case sweeper reg of
        Some _ \<Rightarrow> reg
      | None \<Rightarrow> reg\<lparr>sweeper := Some (max 30000 (jobTtlMs reg / 6))\<rparr>)"

definition stopSweeper :: "registry \<Rightarrow> registry" where
  "stopSweeper reg = reg\<lparr>sweeper := None\<rparr>"

definition addSession :: "addr \<Rightarrow> process_session \<Rightarrow> registry \<Rightarrow> registry" where
  "addSession a s reg =
     startSweeper (reg\<lparr>objects := AList.update a s (objects reg),
                       runningSessions := AList.update (ps_id s) a (runningSessions reg)\<rparr>)"

definition getSession :: "string \<Rightarrow> registry \<Rightarrow> addr option" where
  "getSession i reg = map_of (runningSessions reg) i"

definition getFinishedSession :: "string \<Rightarrow> registry \<Rightarrow> finished_session option" where
  "getFinishedSession i reg = map_of (finishedSessions reg) i"

definition deleteSession :: "string \<Rightarrow> registry \<Rightarrow> registry" where
  "deleteSession i reg =
     reg\<lparr>runningSessions := AList.delete i (runningSessions reg),
         finishedSessions := AList.delete i (finishedSessions reg)\<rparr>"

text \<open>Releasing the handles of an exited process; the record keeps no reference to them.\<close>

definition closeHandles :: "process_session \<Rightarrow> process_session" where
  "closeHandles s = s\<lparr>ps_child := None, ps_stdin := None\<rparr>"

definition finishedOf :: "process_session \<Rightarrow> process_status \<Rightarrow> int \<Rightarrow> finished_session" where
  "finishedOf s status now =
     \<lparr>fs_id = ps_id s, fs_command = ps_command s, fs_scopeKey = ps_scopeKey s,
      fs_startedAt = ps_startedAt s, fs_endedAt = now, fs_cwd = ps_cwd s, fs_status = status,
      fs_exitCode = exitCode s, fs_exitSignal = exitSignal s, fs_aggregated = aggregated s,
      fs_tail = ps_tail s, fs_truncated = truncated s, fs_totalOutputChars = totalOutputChars s\<rparr>"

definition moveToFinished :: "addr \<Rightarrow> process_status \<Rightarrow> int \<Rightarrow> registry \<Rightarrow> registry" where
  "moveToFinished a status now reg =
     (case map_of (objects reg) a of
        None \<Rightarrow> reg
      | Some s \<Rightarrow>
          let reg1 = reg\<lparr>runningSessions := AList.delete (ps_id s) (runningSessions reg),
                         objects := AList.update a (closeHandles s) (objects reg)\<rparr>
          in if \<not> backgrounded s then reg1
             else reg1\<lparr>finishedSessions :=
                         AList.update (ps_id s) (finishedOf s status now) (finishedSessions reg1)\<rparr>)"

definition markExited ::
  "addr \<Rightarrow> jsv \<Rightarrow> jsv \<Rightarrow> process_status \<Rightarrow> int \<Rightarrow> registry \<Rightarrow> registry" where
  "markExited a code signal status now reg =
     moveToFinished a status now
       (updateObject a (\<lambda>s. s\<lparr>exited := True, exitCode := code, exitSignal := signal,
                              ps_tail := tail (aggregated s) 2000\<rparr>) reg)"

definition markBackgrounded :: "addr \<Rightarrow> registry \<Rightarrow> registry" where
  "markBackgrounded a reg = updateObject a (\<lambda>s. s\<lparr>backgrounded := True\<rparr>) reg"

definition listRunningSessions :: "registry \<Rightarrow> process_session list" where
  "listRunningSessions reg =
     filter backgrounded (List.map_filter (\<lambda>(i, a). map_of (objects reg) a) (runningSessions reg))"

definition listFinishedSessions :: "registry \<Rightarrow> finished_session list" where
  "listFinishedSessions reg = map snd (finishedSessions reg)"

definition clearFinished :: "registry \<Rightarrow> registry" where
  "clearFinished reg = reg\<lparr>finishedSessions := []\<rparr>"

definition resetProcessRegistryForTests :: "registry \<Rightarrow> registry" where
  "resetProcessRegistryForTests reg =
     stopSweeper (reg\<lparr>runningSessions := [], finishedSessions := []\<rparr>)"

definition setJobTtlMs :: "jnum option \<Rightarrow> registry \<Rightarrow> registry" where
  "setJobTtlMs v reg =
     (if v = None \<or> v = Some NaN then reg
      else startSweeper (stopSweeper (reg\<lparr>jobTtlMs := clampTtl v\<rparr>)))"

definition pruneFinishedSessions :: "int \<Rightarrow> registry \<Rightarrow> registry" where
  "pruneFinishedSessions now reg =
     (let cutoff = of_int now - jobTtlMs reg in
      reg\<lparr>finishedSessions :=
            filter (\<lambda>(i, s). \<not> of_int (fs_endedAt s) < cutoff) (finishedSessions reg)\<rparr>)"

definition initRegistry :: "string option \<Rightarrow> registry" where
  "initRegistry env =
     \<lparr>objects = [], runningSessions = [], finishedSessions = [],
      jobTtlMs = clampTtl (Some (parse_int (case env of Some s \<Rightarrow> s | None \<Rightarrow> []))),
      sweeper = None\<rparr>"

section \<open>The buffers hold the last characters\<close>

lemma tail_take_last: "tail txt mx = take_last mx txt"
  by (simp add: tail_def take_last_def)

lemma trimWithCap_take_last: "trimWithCap txt mx = take_last mx txt"
  by (simp add: trimWithCap_def take_last_def)

lemma sumPendingChars_concat: "sumPendingChars buffer = length (concat buffer)"
proof -
  have "foldl (\<lambda>total chunk. total + length chunk) n buffer = n + length (concat buffer)" for n
    by (induction buffer arbitrary: n) auto
  then show ?thesis by (simp add: sumPendingChars_def)
qed

lemma shiftBuffer_ok:
  "shiftBuffer buffer n cap = (buffer', n') \<Longrightarrow> n = length (concat buffer) \<Longrightarrow> cap \<le> n \<Longrightarrow>
   n' = length (concat buffer') \<and> cap \<le> n' \<and> concat buffer' = drop (n - n') (concat buffer)
   \<and> (case buffer' of [] \<Rightarrow> True | b # _ \<Rightarrow> n' < cap + length b)"
proof (induction buffer arbitrary: n)
  case (Cons b buffer)
  show ?case
  proof (cases "cap + length b \<le> n")
    case True
    with Cons.prems(1) have sh: "shiftBuffer buffer (n - length b) cap = (buffer', n')" by simp
    have n: "n - length b = length (concat buffer)" "cap \<le> n - length b" using True Cons.prems(2) by auto
    from Cons.IH [OF sh n] have IH: "n' = length (concat buffer')" "cap \<le> n'"
        "concat buffer' = drop (length (concat buffer) - n') (concat buffer)"
        "case buffer' of [] \<Rightarrow> True | b # _ \<Rightarrow> n' < cap + length b" unfolding n(1) by blast+
    have "n' \<le> length (concat buffer)" by (subst IH(1), subst IH(3)) simp
    then have "drop (n - n') (concat (b # buffer)) = drop (length (concat buffer) - n') (concat buffer)"
      unfolding Cons.prems(2) by simp
    with IH show ?thesis by metis
  next
    case False
    with Cons.prems show ?thesis by auto
  qed
qed simp

lemma capPendingBuffer_ok:
  assumes "capPendingBuffer buffer n cap = (buffer', n')" "n = length (concat buffer)"
  shows "n' = length (concat buffer') \<and> concat buffer' = take_last cap (concat buffer)"
proof (cases "n \<le> cap")
  case True
  with assms show ?thesis by (auto simp: capPendingBuffer_def take_last_def)
next
  case over: False
  show ?thesis
  proof (cases "buffer \<noteq> [] \<and> last buffer \<noteq> [] \<and> cap \<le> length (last buffer)")
    case True
    then obtain bs l where b: "buffer = bs @ [l]" "cap \<le> length l" by (metis append_butlast_last_id)
    with over True assms(1) have "buffer' = [drop (length l - cap) l]" "n' = cap"
      by (auto simp: capPendingBuffer_def)
    with b show ?thesis by (simp add: take_last_def)
  next
    case False
    obtain buf1 n1 where sh: "shiftBuffer buffer n cap = (buf1, n1)" by (cases "shiftBuffer buffer n cap")
    note ok = shiftBuffer_ok [OF sh assms(2)]
    have tl: "take_last cap (concat buffer) = drop (n1 - cap) (concat buf1)"
    proof -
      have "cap \<le> n" using over by simp
      note ok = ok [OF this]
      have "n1 \<le> n" using ok assms(2) by (metis diff_le_self length_drop)
      then have "n - cap = n1 - cap + (n - n1)" using ok over by linarith
      then have "drop (n1 - cap) (drop (n - n1) (concat buffer)) = drop (n - cap) (concat buffer)" by simp
      then show ?thesis using ok unfolding take_last_def assms(2) [symmetric] by metis
    qed
    have cap: "(buffer', n') = (case buf1 of b # bs \<Rightarrow> if cap < n1 then (drop (n1 - cap) b # bs, cap) else (buf1, n1) | [] \<Rightarrow> (buf1, n1))"
      using assms(1) over False sh by (simp only: capPendingBuffer_def) (simp split: if_splits)
    have "cap \<le> n" using over by simp
    from ok [OF this] have ok: "n1 = length (concat buf1)" "cap \<le> n1"
      "case buf1 of [] \<Rightarrow> True | b # _ \<Rightarrow> n1 < cap + length b" by blast+
    show ?thesis
    proof (cases "buf1 \<noteq> [] \<and> cap < n1")
      case True
      then obtain b bs where b: "buf1 = b # bs" by (cases buf1) auto
      have r: "buffer' = drop (n1 - cap) b # bs" "n' = cap" using cap True unfolding b by simp_all
      have "n1 - cap \<le> length b" "n1 = length b + length (concat bs)" using ok unfolding b by simp_all
      then show ?thesis using True unfolding tl r b by simp
    next
      case False
      then have "buffer' = buf1" "n' = n1" using cap by (cases buf1; simp)+
      moreover have "n1 - cap = 0" using False ok(1,2) by (cases buf1) auto
      ultimately show ?thesis using ok(1) unfolding tl by simp
    qed
  qed
qed

lemma pushPending_ok:
  assumes "pushPending cap buffer n chunk = (buffer', n', over)" "n = length (concat buffer)"
  shows "n' = length (concat buffer') \<and> concat buffer' = take_last cap (concat buffer @ chunk)
    \<and> over = (cap < length (concat buffer @ chunk))"
proof (cases "cap < n + length chunk")
  case True
  then obtain b m where cp: "capPendingBuffer (buffer @ [chunk]) (n + length chunk) cap = (b, m)"
    by (cases "capPendingBuffer (buffer @ [chunk]) (n + length chunk) cap")
  with True assms(1) have "buffer' = b" "n' = m" "over" by (auto simp: pushPending_def)
  with capPendingBuffer_ok [OF cp] True assms(2) show ?thesis by simp
next
  case False
  with assms show ?thesis by (auto simp: pushPending_def take_last_id)
qed

definition pending :: "stream \<Rightarrow> process_session \<Rightarrow> string" where
  "pending stream s = concat (if stream = Stdout then pendingStdout s else pendingStderr s)"

definition counted :: "process_session \<Rightarrow> bool" where
  "counted s \<longleftrightarrow> pendingStdoutChars s = sumPendingChars (pendingStdout s)
     \<and> pendingStderrChars s = sumPendingChars (pendingStderr s)"

lemma appendOutput_ok:
  assumes "counted s"
  shows "counted (appendOutput s stream chunk)"
    and "pending str (appendOutput s stream chunk) =
      (if str = stream then take_last (pendingCap s) (pending str s @ chunk) else pending str s)"
    and "pendingCap (appendOutput s stream chunk) = pendingCap s"
    and "maxOutputChars (appendOutput s stream chunk) = maxOutputChars s"
    and "aggregated (appendOutput s stream chunk) = take_last (maxOutputChars s) (aggregated s @ chunk)"
    and "ps_tail (appendOutput s stream chunk) = take_last 2000 (aggregated (appendOutput s stream chunk))"
    and "totalOutputChars (appendOutput s stream chunk) = totalOutputChars s + length chunk"
    and "truncated (appendOutput s stream chunk) \<longleftrightarrow>
      truncated s \<or> pendingCap s < length (pending stream s @ chunk) \<or> maxOutputChars s < length (aggregated s @ chunk)"
    and "ps_id (appendOutput s stream chunk) = ps_id s"
    and "exited (appendOutput s stream chunk) = exited s"
proof -
  obtain b n ov where p: "(if stream = Stdout then pushPending (pendingCap s) (pendingStdout s) (pendingStdoutChars s) chunk
             else pushPending (pendingCap s) (pendingStderr s) (pendingStderrChars s) chunk) = (b, n, ov)"
    using prod_cases3 by blast
  have ok: "n = length (concat b) \<and> concat b = take_last (pendingCap s) (pending stream s @ chunk)
      \<and> ov = (pendingCap s < length (pending stream s @ chunk))"
    using p assms by (cases stream) (auto simp: pending_def counted_def sumPendingChars_concat dest!: pushPending_ok)
  have app: "appendOutput s stream chunk =
      (let s1 = (if ov then s\<lparr>truncated := True\<rparr> else s);
           s2 = (if stream = Stdout then s1\<lparr>pendingStdout := b, pendingStdoutChars := n\<rparr>
                 else s1\<lparr>pendingStderr := b, pendingStderrChars := n\<rparr>);
           agg = trimWithCap (aggregated s @ chunk) (maxOutputChars s)
       in s2\<lparr>totalOutputChars := totalOutputChars s + length chunk,
             truncated := truncated s1 \<or> length agg < length (aggregated s) + length chunk,
             aggregated := agg, ps_tail := tail agg 2000\<rparr>)"
    unfolding appendOutput_def p by simp
  show "counted (appendOutput s stream chunk)"
    using ok assms unfolding app by (cases stream) (auto simp: counted_def sumPendingChars_concat Let_def)
  show "pending str (appendOutput s stream chunk) =
      (if str = stream then take_last (pendingCap s) (pending str s @ chunk) else pending str s)"
    using ok unfolding app by (cases str; cases stream) (auto simp: pending_def Let_def)
  show "truncated (appendOutput s stream chunk) \<longleftrightarrow>
      truncated s \<or> pendingCap s < length (pending stream s @ chunk) \<or> maxOutputChars s < length (aggregated s @ chunk)"
    using ok unfolding app by (auto simp: Let_def trimWithCap_take_last)
  show "pendingCap (appendOutput s stream chunk) = pendingCap s"
    "aggregated (appendOutput s stream chunk) = take_last (maxOutputChars s) (aggregated s @ chunk)"
    "ps_tail (appendOutput s stream chunk) = take_last 2000 (aggregated (appendOutput s stream chunk))"
    "maxOutputChars (appendOutput s stream chunk) = maxOutputChars s"
    "totalOutputChars (appendOutput s stream chunk) = totalOutputChars s + length chunk"
    "ps_id (appendOutput s stream chunk) = ps_id s" "exited (appendOutput s stream chunk) = exited s"
    unfolding app by (auto simp: Let_def pendingCap_def trimWithCap_take_last tail_take_last)
qed

definition streamed :: "stream \<Rightarrow> (stream \<times> string) list \<Rightarrow> string" where
  "streamed str chunks = concat (map snd (filter (\<lambda>(t, c). t = str) chunks))"

definition appendAll :: "(stream \<times> string) list \<Rightarrow> process_session \<Rightarrow> process_session" where
  "appendAll chunks s = foldl (\<lambda>s (t, c). appendOutput s t c) s chunks"

lemma appendAll_ok:
  "counted s \<Longrightarrow> length (pending str s) \<le> pendingCap s \<Longrightarrow> length (aggregated s) \<le> maxOutputChars s \<Longrightarrow>
   counted (appendAll chunks s)
   \<and> pending str (appendAll chunks s) = take_last (pendingCap s) (pending str s @ streamed str chunks)
   \<and> aggregated (appendAll chunks s) = take_last (maxOutputChars s) (aggregated s @ concat (map snd chunks))"
proof (induction chunks arbitrary: s)
  case Nil
  then show ?case by (simp add: appendAll_def streamed_def take_last_id)
next
  case (Cons tc chunks)
  obtain t c where tc: "tc = (t, c)" by (cases tc)
  note ap = appendOutput_ok [OF Cons.prems(1), where stream = t and chunk = c]
  have step: "appendAll (tc # chunks) s = appendAll chunks (appendOutput s t c)"
    by (simp add: appendAll_def tc)
  have "length (pending str (appendOutput s t c)) \<le> pendingCap (appendOutput s t c)"
    "length (aggregated (appendOutput s t c)) \<le> maxOutputChars (appendOutput s t c)"
    using Cons.prems(2) unfolding ap(2,3,4,5) by auto
  note IH = Cons.IH [OF ap(1) this]
  have "streamed str (tc # chunks) = (if str = t then c else []) @ streamed str chunks"
    by (auto simp: streamed_def tc)
  moreover have "concat (map snd (tc # chunks)) = c @ concat (map snd chunks)" by (simp add: tc)
  ultimately show ?case
    unfolding step using IH unfolding ap(2-5) by simp
qed

section \<open>Reachable registries\<close>

definition fresh_session :: "process_session \<Rightarrow> bool" where
  "fresh_session s \<longleftrightarrow> pendingStdout s = [] \<and> pendingStderr s = [] \<and> pendingStdoutChars s = 0
     \<and> pendingStderrChars s = 0 \<and> aggregated s = [] \<and> ps_tail s = [] \<and> totalOutputChars s = 0 \<and> \<not> exited s"

text \<open>
  What the rest of the program does with the registry: a process is started under an unused
  name, its output arrives, it is polled, put into the background, exits; names are removed,
  the finished sessions are cleared or swept, the life time is changed.
\<close>

inductive reg_step :: "registry \<Rightarrow> registry \<Rightarrow> bool" where
  Add: "map_of (objects reg) a = None \<Longrightarrow> \<not> isSessionIdTaken (ps_id s) reg \<Longrightarrow> fresh_session s \<Longrightarrow>
        reg_step reg (addSession a s reg)"
| Output: "reg_step reg (updateObject a (\<lambda>s. appendOutput s str chunk) reg)"
| Drain: "reg_step reg (updateObject a (\<lambda>s. snd (drainSession s)) reg)"
| Exit: "reg_step reg (markExited a code signal status now reg)"
| Background: "reg_step reg (markBackgrounded a reg)"
| Delete: "reg_step reg (deleteSession i reg)"
| Clear: "reg_step reg (clearFinished reg)"
| Prune: "reg_step reg (pruneFinishedSessions now reg)"
| SetTtl: "reg_step reg (setJobTtlMs v reg)"

definition session_ok :: "process_session \<Rightarrow> bool" where
  "session_ok s \<longleftrightarrow> counted s
     \<and> length (pending Stdout s) \<le> pendingCap s \<and> length (pending Stderr s) \<le> pendingCap s
     \<and> length (aggregated s) \<le> maxOutputChars s \<and> ps_tail s = take_last 2000 (aggregated s)
     \<and> length (aggregated s) \<le> totalOutputChars s
     \<and> (truncated s \<or> length (aggregated s) = totalOutputChars s)"

text \<open>The well-formedness of a registry, one conjunct per map and one for the sweeper.\<close>

definition reg_ok :: "registry \<Rightarrow> bool" where
  "reg_ok reg \<longleftrightarrow>
     omap_invar (runningSessions reg) \<and> omap_invar (finishedSessions reg)
     \<and> (\<forall>i. map_of (runningSessions reg) i = None \<or> map_of (finishedSessions reg) i = None)
     \<and> (\<forall>i a. map_of (runningSessions reg) i = Some a \<longrightarrow>
          (\<exists>s. map_of (objects reg) a = Some s \<and> ps_id s = i \<and> \<not> exited s))
     \<and> (\<forall>i f. map_of (finishedSessions reg) i = Some f \<longrightarrow> fs_id f = i)
     \<and> (\<forall>a s. map_of (objects reg) a = Some s \<longrightarrow> session_ok s)
     \<and> (objects reg = [] \<longrightarrow> runningSessions reg = [] \<and> finishedSessions reg = [])
     \<and> (objects reg \<noteq> [] \<longrightarrow> sweeper reg \<noteq> None)
     \<and> MIN_JOB_TTL_MS \<le> jobTtlMs reg \<and> jobTtlMs reg \<le> MAX_JOB_TTL_MS"

lemma clampTtl_bounds: "MIN_JOB_TTL_MS \<le> clampTtl v \<and> clampTtl v \<le> MAX_JOB_TTL_MS"
  by (induction v rule: clampTtl.induct)
    (auto simp: MIN_JOB_TTL_MS_def MAX_JOB_TTL_MS_def DEFAULT_JOB_TTL_MS_def)

lemma session_ok_fresh: "fresh_session s \<Longrightarrow> session_ok s"
  by (simp add: fresh_session_def session_ok_def counted_def pending_def sumPendingChars_def take_last_def)

lemma session_ok_append: "session_ok s \<Longrightarrow> session_ok (appendOutput s str chunk)"
proof -
  assume ok: "session_ok s"
  then have c: "counted s" by (simp add: session_ok_def)
  note ap = appendOutput_ok [OF c, where stream = str and chunk = chunk]
  show ?thesis
    using ok unfolding session_ok_def by (auto simp: ap)
qed

lemma session_ok_drain: "session_ok s \<Longrightarrow> session_ok (snd (drainSession s))"
  by (simp add: session_ok_def drainSession_def counted_def pending_def sumPendingChars_def pendingCap_def)

lemma session_ok_fields:
  assumes "session_ok s"
    and "pendingStdout s' = pendingStdout s" "pendingStderr s' = pendingStderr s"
    "pendingStdoutChars s' = pendingStdoutChars s" "pendingStderrChars s' = pendingStderrChars s"
    "aggregated s' = aggregated s" "ps_tail s' = ps_tail s" "totalOutputChars s' = totalOutputChars s"
    "truncated s' = truncated s" "maxOutputChars s' = maxOutputChars s"
    "pendingMaxOutputChars s' = pendingMaxOutputChars s"
  shows "session_ok s'"
  using assms by (simp add: session_ok_def counted_def pending_def pendingCap_def)

lemma updateObject_ok:
  assumes "reg_ok reg"
    and "\<And>s. session_ok s \<Longrightarrow> session_ok (f s)" "\<And>s. ps_id (f s) = ps_id s" "\<And>s. exited (f s) = exited s"
  shows "reg_ok (updateObject a f reg)"
proof (cases "map_of (objects reg) a")
  case None
  then show ?thesis using assms(1) by (simp add: updateObject_def)
next
  case (Some s)
  have ne: "AList.update a (f s) (objects reg) \<noteq> []" by (cases "objects reg") auto
  have some: "objects reg \<noteq> []" using Some by auto
  have run: "\<exists>t. map_of (AList.update a (f s) (objects reg)) b = Some t \<and> ps_id t = i \<and> \<not> exited t"
    if "map_of (runningSessions reg) i = Some b" for i b
    using assms(1,3,4) Some that unfolding reg_ok_def by (fastforce simp: store_simps)
  have sess: "session_ok t" if "map_of (AList.update a (f s) (objects reg)) b = Some t" for b t
    using assms(1,2) Some that unfolding reg_ok_def by (auto simp: store_simps split: if_splits)
  show ?thesis
    using assms(1) Some run sess ne some unfolding reg_ok_def by (simp add: updateObject_def)
qed

lemma addSession_ok:
  assumes "reg_ok reg" "map_of (objects reg) a = None" "\<not> isSessionIdTaken (ps_id s) reg" "fresh_session s"
  shows "reg_ok (addSession a s reg)"
proof -
  let ?reg = "reg\<lparr>objects := AList.update a s (objects reg),
                  runningSessions := AList.update (ps_id s) a (runningSessions reg)\<rparr>"
  have ne: "AList.update a s (objects reg) \<noteq> []" by (cases "objects reg") auto
  have run: "\<exists>t. map_of (AList.update a s (objects reg)) b = Some t \<and> ps_id t = i \<and> \<not> exited t"
    if "map_of (AList.update (ps_id s) a (runningSessions reg)) i = Some b" for i b
    using assms that unfolding reg_ok_def
    by (auto simp: store_simps fresh_session_def split: if_splits) (metis option.distinct(1))+
  have sess: "session_ok t" if "map_of (AList.update a s (objects reg)) b = Some t" for b t
    using assms(1,4) that unfolding reg_ok_def by (auto simp: store_simps session_ok_fresh split: if_splits)
  have disj: "map_of (AList.update (ps_id s) a (runningSessions reg)) i = None \<or> map_of (finishedSessions reg) i = None" for i
    using assms(1,3) unfolding reg_ok_def isSessionIdTaken_def by (auto simp: store_simps)
  have "addSession a s reg = ?reg\<lparr>sweeper := Some (case sweeper reg of Some p \<Rightarrow> p | None \<Rightarrow> max 30000 (jobTtlMs reg / 6))\<rparr>"
    by (simp add: addSession_def startSweeper_def split: option.splits)
  then show ?thesis
    using assms(1) run sess disj ne unfolding reg_ok_def by (simp add: store_simps)
qed

definition exitedSession :: "jsv \<Rightarrow> jsv \<Rightarrow> process_session \<Rightarrow> process_session" where
  "exitedSession code signal s =
     s\<lparr>exited := True, exitCode := code, exitSignal := signal, ps_tail := tail (aggregated s) 2000\<rparr>"

lemma exitedSession_fields [simp]:
  "ps_id (exitedSession code signal s) = ps_id s" "exited (exitedSession code signal s)"
  "backgrounded (exitedSession code signal s) = backgrounded s"
  "ps_id (closeHandles s) = ps_id s" "exited (closeHandles s) = exited s"
  by (simp_all add: exitedSession_def closeHandles_def)

lemma markExited_cases:
  "markExited a code signal status now reg =
     (case map_of (objects reg) a of
        None \<Rightarrow> reg
      | Some s \<Rightarrow>
          reg\<lparr>objects := AList.update a (closeHandles (exitedSession code signal s))
                            (AList.update a (exitedSession code signal s) (objects reg)),
              runningSessions := AList.delete (ps_id s) (runningSessions reg),
              finishedSessions :=
                (if backgrounded s
                 then AList.update (ps_id s) (finishedOf (exitedSession code signal s) status now) (finishedSessions reg)
                 else finishedSessions reg)\<rparr>)"
  by (simp add: markExited_def moveToFinished_def updateObject_def exitedSession_def [symmetric]
      store_simps Let_def split: option.split)

lemma session_ok_exit: "session_ok s \<Longrightarrow> session_ok (closeHandles (exitedSession code signal s))"
proof -
  assume ok: "session_ok s"
  then have "ps_tail s = tail (aggregated s) 2000" by (simp add: session_ok_def tail_take_last)
  with ok show ?thesis by (intro session_ok_fields [OF ok]) (simp_all add: closeHandles_def exitedSession_def)
qed

lemma markExited_ok:
  assumes "reg_ok reg"
  shows "reg_ok (markExited a code signal status now reg)"
proof (cases "map_of (objects reg) a")
  case None
  then show ?thesis using assms by (simp add: markExited_cases)
next
  case (Some s)
  let ?s = "closeHandles (exitedSession code signal s)"
  let ?obj = "AList.update a ?s (AList.update a (exitedSession code signal s) (objects reg))"
  let ?fin = "if backgrounded s
    then AList.update (ps_id s) (finishedOf (exitedSession code signal s) status now) (finishedSessions reg)
    else finishedSessions reg"
  have obj: "map_of ?obj b = (if b = a then Some ?s else map_of (objects reg) b)" for b
    by (simp add: store_simps)
  have fin: "map_of ?fin i = (if backgrounded s \<and> i = ps_id s
      then Some (finishedOf (exitedSession code signal s) status now) else map_of (finishedSessions reg) i)" for i
    by (simp add: store_simps)
  have run: "\<exists>t. map_of ?obj b = Some t \<and> ps_id t = i \<and> \<not> exited t"
    if "map_of (AList.delete (ps_id s) (runningSessions reg)) i = Some b" for i b
    using assms Some that unfolding obj reg_ok_def by (force simp: store_simps split: if_splits)
  have sess: "session_ok t" if "map_of ?obj b = Some t" for b t
    using assms Some that session_ok_exit unfolding obj reg_ok_def by (auto split: if_splits)
  have ne: "?obj \<noteq> []" "objects reg \<noteq> []" using obj [of a] Some by force+
  have disj: "map_of (AList.delete (ps_id s) (runningSessions reg)) i = None \<or> map_of ?fin i = None" for i
    using assms unfolding fin reg_ok_def by (auto simp: store_simps)
  have fid: "fs_id f = i" if "map_of ?fin i = Some f" for i f
    using assms that unfolding fin reg_ok_def by (auto simp: finishedOf_def split: if_splits)
  have inv: "omap_invar (AList.delete (ps_id s) (runningSessions reg))" "omap_invar ?fin"
    using assms unfolding reg_ok_def by (auto simp: store_simps)
  define reg' where "reg' = reg\<lparr>objects := ?obj, runningSessions := AList.delete (ps_id s) (runningSessions reg),
    finishedSessions := ?fin\<rparr>"
  have "markExited a code signal status now reg = reg'" using Some by (simp add: markExited_cases reg'_def)
  moreover have "objects reg' = ?obj" "runningSessions reg' = AList.delete (ps_id s) (runningSessions reg)"
    "finishedSessions reg' = ?fin" "sweeper reg' = sweeper reg" "jobTtlMs reg' = jobTtlMs reg"
    by (simp_all add: reg'_def)
  ultimately show ?thesis
    using assms run sess ne disj fid inv unfolding reg_ok_def by presburger
qed

lemma startSweeper_some: "sweeper (startSweeper reg) \<noteq> None"
  by (simp add: startSweeper_def split: option.splits)

lemma startSweeper_fields [simp]:
  "objects (startSweeper reg) = objects reg" "runningSessions (startSweeper reg) = runningSessions reg"
  "finishedSessions (startSweeper reg) = finishedSessions reg" "jobTtlMs (startSweeper reg) = jobTtlMs reg"
  by (simp_all add: startSweeper_def split: option.splits)

lemma setJobTtlMs_ok: "reg_ok reg \<Longrightarrow> reg_ok (setJobTtlMs v reg)"
  using startSweeper_some clampTtl_bounds [of v]
  by (auto simp: setJobTtlMs_def reg_ok_def stopSweeper_def)

lemma delete_disjoint:
  assumes "reg_ok reg"
  shows "reg_ok (deleteSession i reg)"
  using assms unfolding reg_ok_def deleteSession_def
  by (auto simp: store_simps)

lemma clearFinished_ok: "reg_ok reg \<Longrightarrow> reg_ok (clearFinished reg)"
  by (auto simp: reg_ok_def clearFinished_def store_simps)

lemma prune_get:
  assumes "omap_invar (finishedSessions reg)"
  shows "map_of (finishedSessions (pruneFinishedSessions now reg)) i =
    (case map_of (finishedSessions reg) i of
       None \<Rightarrow> None
     | Some f \<Rightarrow> if of_int (fs_endedAt f) < of_int now - jobTtlMs reg then None else Some f)"
  using omap_get_filter [OF assms, of "\<lambda>i f. \<not> of_int (fs_endedAt f) < of_int now - jobTtlMs reg" i]
  by (simp add: pruneFinishedSessions_def split: option.splits)

lemma prune_fields [simp]:
  "objects (pruneFinishedSessions now reg) = objects reg"
  "runningSessions (pruneFinishedSessions now reg) = runningSessions reg"
  "sweeper (pruneFinishedSessions now reg) = sweeper reg" "jobTtlMs (pruneFinishedSessions now reg) = jobTtlMs reg"
  by (simp_all add: pruneFinishedSessions_def)

lemma prune_ok:
  assumes "reg_ok reg"
  shows "reg_ok (pruneFinishedSessions now reg)"
proof -
  let ?fin = "finishedSessions (pruneFinishedSessions now reg)"
  have inv: "omap_invar (finishedSessions reg)" using assms by (simp add: reg_ok_def)
  have 1: "omap_invar ?fin"
    using inv by (simp add: pruneFinishedSessions_def store_simps)
  have 2: "map_of ?fin i = None \<or> map_of ?fin i = map_of (finishedSessions reg) i" for i
    by (simp add: prune_get [OF inv] split: option.splits)
  have 3: "map_of (runningSessions reg) i = None \<or> map_of ?fin i = None" for i
    using assms 2 [of i] unfolding reg_ok_def by metis
  have 4: "fs_id f = i" if "map_of ?fin i = Some f" for i f
    using assms 2 [of i] that unfolding reg_ok_def by simp
  have 5: "objects reg = [] \<Longrightarrow> runningSessions reg = [] \<and> ?fin = []"
    using assms by (simp add: reg_ok_def pruneFinishedSessions_def)
  show ?thesis using assms 1 3 4 5 unfolding reg_ok_def prune_fields by blast
qed

lemma reg_step_ok: "reg_step reg reg' \<Longrightarrow> reg_ok reg \<Longrightarrow> reg_ok reg'"
proof (induction rule: reg_step.induct)
  case (Add reg a s)
  then show ?case by (intro addSession_ok)
next
  case (Output reg a str chunk)
  then show ?case
    using session_ok_append by (intro updateObject_ok) (auto simp: appendOutput_def Let_def split: prod.splits)
next
  case (Drain reg a)
  then show ?case
    using session_ok_drain by (intro updateObject_ok) (auto simp: drainSession_def)
next
  case (Background reg a)
  have "session_ok s \<Longrightarrow> session_ok (s\<lparr>backgrounded := True\<rparr>)" for s by (erule session_ok_fields) simp_all
  with Background show ?case unfolding markBackgrounded_def by (intro updateObject_ok) auto
qed (simp_all add: markExited_ok delete_disjoint clearFinished_ok prune_ok setJobTtlMs_ok)

lemma reg_ok_init: "reg_ok (initRegistry env)"
  using clampTtl_bounds by (simp add: reg_ok_def initRegistry_def store_simps)


inductive_cases reg_stepE: "reg_step reg reg'"

lemma reachable_reg_ok: "reg_step\<^sup>*\<^sup>* reg reg' \<Longrightarrow> reg_ok reg \<Longrightarrow> reg_ok reg'"
  by (induction rule: rtranclp_induct) (auto intro: reg_step_ok)

section \<open>Properties\<close>

text \<open>
  C6. In every registry the program can reach, no session is running and finished at once, a
  running entry names a live object of that id that has not exited, the pending counters equal
  the pending text and stay within their cap, the aggregated text stays within its cap and is
  complete unless the session is marked truncated, the sweeper runs whenever there is
  something to sweep, and the life time of finished sessions is between one minute and three
  hours.
\<close>

theorem reachable_registry_ok:
  assumes "reg_step\<^sup>*\<^sup>* (initRegistry env) reg"
  shows "reg_ok reg"
  using assms reg_ok_init by (rule reachable_reg_ok)

definition demo_session :: process_session where
  "demo_session = \<lparr>ps_id = ''amber-atlas'', ps_command = ''make'', ps_scopeKey = Some ''chat'', ps_child = Some [],
     ps_stdin = None, ps_pid = JUndef, ps_startedAt = 0, ps_cwd = JUndef, maxOutputChars = 8,
     pendingMaxOutputChars = Some 4, totalOutputChars = 0, pendingStdout = [], pendingStderr = [],
     pendingStdoutChars = 0, pendingStderrChars = 0, aggregated = [], ps_tail = [], exitCode = JUndef,
     exitSignal = JUndef, exited = False, truncated = False, backgrounded = True\<rparr>"

definition demo_registry :: registry where
  "demo_registry = updateObject 0 (\<lambda>s. appendOutput s Stdout ''hello'') (addSession 0 demo_session (initRegistry None))"

theorem reachable_registry_ok_witness:
  "reg_ok demo_registry \<and> map_option (pending Stdout) (map_of (objects demo_registry) 0) = Some ''ello''"
proof
  have "reg_step (initRegistry None) (addSession 0 demo_session (initRegistry None))"
    by (rule reg_step.Add) code_simp+
  then have "reg_step\<^sup>*\<^sup>* (initRegistry None) demo_registry"
    unfolding demo_registry_def using reg_step.Output by (meson rtranclp.rtrancl_refl rtranclp.rtrancl_into_rtrancl)
  then show "reg_ok demo_registry" by (rule reachable_registry_ok)
  show "map_option (pending Stdout) (map_of (objects demo_registry) 0) = Some ''ello''" by code_simp
qed

text \<open>
  Whatever chunks arrive on the two streams after the last poll, the next poll drains, for
  each stream, exactly the last \<open>pendingCap\<close> characters of what was pending and arrived, the
  aggregated log is the last \<open>maxOutputChars\<close> characters of everything, and draining leaves nothing
  pending.
\<close>

theorem drain_after_output:
  assumes "session_ok s"
  shows "fst (drainSession (appendAll chunks s)) =
      (take_last (pendingCap s) (pending Stdout s @ streamed Stdout chunks),
       take_last (pendingCap s) (pending Stderr s @ streamed Stderr chunks))
    \<and> aggregated (appendAll chunks s) = take_last (maxOutputChars s) (aggregated s @ concat (map snd chunks))
    \<and> fst (drainSession (snd (drainSession (appendAll chunks s)))) = ([], [])"
proof -
  have *: "counted s" "length (pending str s) \<le> pendingCap s" "length (aggregated s) \<le> maxOutputChars s" for str
    using assms by (cases str; simp add: session_ok_def)+
  have d: "fst (drainSession t) = (pending Stdout t, pending Stderr t)" for t
    by (simp add: drainSession_def pending_def)
  show ?thesis
    unfolding d using appendAll_ok [OF *(1) *(2) [of Stdout] *(3), of chunks]
      appendAll_ok [OF *(1) *(2) [of Stderr] *(3), of chunks]
    by (simp add: drainSession_def pending_def)
qed

theorem drain_after_output_witness:
  "fst (drainSession (appendAll [(Stdout, ''abc''), (Stderr, ''x''), (Stdout, ''de'')] demo_session)) = (''bcde'', ''x'')"
proof -
  have "session_ok demo_session" by (rule session_ok_fresh) code_simp
  from drain_after_output [OF this, of "[(Stdout, ''abc''), (Stderr, ''x''), (Stdout, ''de'')]"]
  have "fst (drainSession (appendAll [(Stdout, ''abc''), (Stderr, ''x''), (Stdout, ''de'')] demo_session)) =
    (take_last (pendingCap demo_session) (pending Stdout demo_session @ streamed Stdout [(Stdout, ''abc''), (Stderr, ''x''), (Stdout, ''de'')]),
     take_last (pendingCap demo_session) (pending Stderr demo_session @ streamed Stderr [(Stdout, ''abc''), (Stderr, ''x''), (Stdout, ''de'')]))"
    by blast
  also have "\<dots> = (''bcde'', ''x'')" by code_simp
  finally show ?thesis .
qed

text \<open>
  When a background process of the registry exits, its id stops being a running session
  and names a finished session with the exit data and the log; a later sweep keeps it exactly
  as long as it ended no more than the life time ago, and the sessions of other ids are not
  touched.
\<close>

theorem exit_then_sweep:
  assumes "reg_ok reg" and "getSession i reg = Some a" and "map_of (objects reg) a = Some s" and "backgrounded s"
  shows "getSession i (markExited a code signal status now reg) = None
    \<and> getFinishedSession i (markExited a code signal status now reg) =
        Some (finishedOf (exitedSession code signal s) status now)
    \<and> getFinishedSession i (pruneFinishedSessions later (markExited a code signal status now reg)) =
        (if of_int (later - now) \<le> jobTtlMs reg then Some (finishedOf (exitedSession code signal s) status now) else None)
    \<and> (j \<noteq> i \<longrightarrow> getSession j (markExited a code signal status now reg) = getSession j reg
        \<and> getFinishedSession j (markExited a code signal status now reg) = getFinishedSession j reg)"
proof -
  let ?reg = "markExited a code signal status now reg"
  have i: "ps_id s = i" using assms(1-3) unfolding reg_ok_def getSession_def by fastforce
  have reg: "runningSessions ?reg = AList.delete i (runningSessions reg)"
    "finishedSessions ?reg = AList.update i (finishedOf (exitedSession code signal s) status now) (finishedSessions reg)"
    "jobTtlMs ?reg = jobTtlMs reg"
    using assms(3,4) i by (simp_all add: markExited_cases)
  have inv: "omap_invar (finishedSessions ?reg)" using markExited_ok [OF assms(1)] by (simp add: reg_ok_def)
  have "fs_endedAt (finishedOf (exitedSession code signal s) status now) = now" by (simp add: finishedOf_def)
  moreover have "\<not> (of_int now < of_int later - jobTtlMs reg) \<longleftrightarrow> of_int (later - now) \<le> jobTtlMs reg" by auto
  ultimately show ?thesis
    unfolding getSession_def getFinishedSession_def prune_get [OF inv] reg by (simp add: store_simps)
qed

theorem exit_then_sweep_witness:
  "getFinishedSession ''amber-atlas'' (pruneFinishedSessions 60000 (markExited 0 JNull JNull Completed 7 demo_registry)) \<noteq> None"
proof -
  have "reg_ok demo_registry"
  proof -
    have "reg_ok (addSession 0 demo_session (initRegistry None))"
      by (rule addSession_ok [OF reg_ok_init]) code_simp+
    then show ?thesis unfolding demo_registry_def by (rule reg_step_ok [OF reg_step.Output])
  qed
  moreover have "getSession ''amber-atlas'' demo_registry = Some 0" by code_simp
  moreover have "map_of (objects demo_registry) 0 = Some (appendOutput demo_session Stdout ''hello'')" by code_simp
  moreover have "backgrounded (appendOutput demo_session Stdout ''hello'')" by code_simp
  moreover have "of_int (60000 - 7) \<le> jobTtlMs demo_registry" by code_simp
  ultimately show ?thesis
    using exit_then_sweep [of demo_registry "''amber-atlas''" 0 "appendOutput demo_session Stdout ''hello''" JNull JNull Completed 7 60000]
    by simp
qed

end
