(* ===== verification/Process_Tool.thy ===== *)
theory Process_Tool
  imports Process_Registry
begin

text \<open>
  The \<open>process\<close> tool, \<open>src/agents/bash-tools.process.ts\<close>: list, poll, log, write, kill and remove
  on the registry of processes, restricted to the caller's scope. Arguments and results are
  JSON values; a rejected write is an \<open>Inl\<close>. A poll may wait: \<open>ticks\<close> lists the clock and the registry at
  the successive wake-ups of its timer, and \<open>None\<close> says that the call has not returned
  within them. The lemmas show that a poll returns at its deadline at the latest, that a caller
  with a scope neither sees nor changes the sessions of another scope through any action but
  \<open>clear\<close> and \<open>remove\<close>, and that those two ignore the scope.
\<close>

section \<open>Model\<close>

definition isInScope :: "string option \<Rightarrow> string option \<Rightarrow> bool" where
  "isInScope scopeKey sessionScopeKey \<longleftrightarrow>
     scopeKey = None \<or> scopeKey = Some [] \<or> scopeKey = sessionScopeKey"

fun status_text :: "process_status \<Rightarrow> string" where
  "status_text Running = ''running''"
| "status_text Completed = ''completed''"
| "status_text Failed = ''failed''"
| "status_text Killed = ''killed''"

text \<open>\<open>Math.round(ms / 1000)\<close> is the floor of \<open>(ms + 500) / 1000\<close>.\<close>

definition renderSessionSummary ::
  "int \<Rightarrow> string \<Rightarrow> string \<Rightarrow> string \<Rightarrow> int \<Rightarrow> int option \<Rightarrow> string" where
  "renderSessionSummary now i status command startedAt endedAt =
     (let runtimeMs = (case endedAt of Some e \<Rightarrow> e | None \<Rightarrow> now) - startedAt;
          seconds = max 0 ((runtimeMs + 500) div 1000)
      in i @ '' '' @ status @ '' '' @ int_to_string seconds @ ''s :: '' @ command)"

definition resolveProcessStatus :: "process_session \<Rightarrow> string" where
  "resolveProcessStatus s =
     (if \<not> exited s then ''running''
      else if (nullish (exitCode s) \<or> exitCode s = JNum (Fin 0)) \<and> \<not> truthy (exitSignal s) then ''completed''
      else ''failed'')"

definition num :: "int \<Rightarrow> jsv" where
  "num i = JNum (Fin (of_int i))"

definition tool_text :: "string \<Rightarrow> (string \<times> jsv) list \<Rightarrow> jsv" where
  "tool_text txt details =
     JObj [(''content'', JArr [JObj [(''type'', JStr ''text''), (''text'', JStr txt)]]), (''details'', JObj details)]"

definition failed_text :: "string \<Rightarrow> jsv" where
  "failed_text txt = tool_text txt [(''status'', JStr ''failed'')]"

definition running_item :: "process_session \<Rightarrow> jsv" where
  "running_item s =
     JObj [(''sessionId'', JStr (ps_id s)), (''status'', JStr ''running''), (''pid'', ps_pid s),
           (''command'', JStr (ps_command s)), (''cwd'', ps_cwd s), (''startedAt'', num (ps_startedAt s))]"

definition finished_item :: "finished_session \<Rightarrow> jsv" where
  "finished_item f =
     JObj [(''sessionId'', JStr (fs_id f)), (''status'', JStr (status_text (fs_status f))),
           (''command'', JStr (fs_command f)), (''cwd'', fs_cwd f), (''startedAt'', num (fs_startedAt f)),
           (''endedAt'', num (fs_endedAt f)), (''exitCode'', fs_exitCode f), (''exitSignal'', fs_exitSignal f)]"

definition listAction :: "string option \<Rightarrow> int \<Rightarrow> registry \<Rightarrow> jsv" where
  "listAction scopeKey now reg =
     (let running = filter (\<lambda>s. isInScope scopeKey (ps_scopeKey s)) (listRunningSessions reg);
          finished = filter (\<lambda>f. isInScope scopeKey (fs_scopeKey f)) (listFinishedSessions reg);
          lines = js_join [CHR 0x0A]
            (map (\<lambda>s. renderSessionSummary now (ps_id s) ''running'' (ps_command s) (ps_startedAt s) None) running
             @ map (\<lambda>f. renderSessionSummary now (fs_id f) (status_text (fs_status f)) (fs_command f)
                          (fs_startedAt f) (Some (fs_endedAt f))) finished)
      in tool_text (if lines \<noteq> [] then lines else ''No running or recent sessions.'')
           [(''status'', JStr ''completed''),
            (''sessions'', JArr (map running_item running @ map finished_item finished))])"

definition not_found :: "string \<Rightarrow> string" where
  "not_found sessionId = ''No session found for '' @ sessionId @ ''.''"

definition scoped_running :: "string option \<Rightarrow> string \<Rightarrow> registry \<Rightarrow> (addr \<times> process_session) option" where
  "scoped_running scopeKey sessionId reg =
     (case getSession sessionId reg of
        None \<Rightarrow> None
      | Some a \<Rightarrow>
          (case map_of (objects reg) a of
             Some s \<Rightarrow> if isInScope scopeKey (ps_scopeKey s) then Some (a, s) else None
           | None \<Rightarrow> None))"

definition scoped_finished :: "string option \<Rightarrow> string \<Rightarrow> registry \<Rightarrow> finished_session option" where
  "scoped_finished scopeKey sessionId reg =
     (case getFinishedSession sessionId reg of
        Some f \<Rightarrow> if isInScope scopeKey (fs_scopeKey f) then Some f else None
      | None \<Rightarrow> None)"

text \<open>\<open>Math.max(0, Math.min(120000, Math.floor(t)))\<close> for a number, 0 for anything else.\<close>

fun poll_timeout :: "jsv \<Rightarrow> int" where
  "poll_timeout (JNum (Fin q)) = max 0 (min 120000 \<lfloor>q\<rfloor>)"
| "poll_timeout (JNum PosInf) = 120000"
| "poll_timeout _ = 0"

definition has_exited :: "addr \<Rightarrow> registry \<Rightarrow> bool" where
  "has_exited a reg \<longleftrightarrow> (case map_of (objects reg) a of Some s \<Rightarrow> exited s | None \<Rightarrow> False)"

fun poll_wait :: "int \<Rightarrow> addr \<Rightarrow> (int \<times> registry) list \<Rightarrow> registry option" where
  "poll_wait deadline a [] = None"
| "poll_wait deadline a ((t, reg) # ticks) =
     (if \<not> has_exited a reg \<and> t < deadline then poll_wait deadline a ticks else Some reg)"

definition drained_result :: "string \<Rightarrow> addr \<Rightarrow> registry \<Rightarrow> jsv \<times> registry" where
  "drained_result sessionId a reg =
     (case map_of (objects reg) a of
        None \<Rightarrow> (failed_text (not_found sessionId), reg)
      | Some s \<Rightarrow>
          let ((out, err), s') = drainSession s; txt = out @ err in
          (tool_text (if txt \<noteq> [] then txt else ''(no new output)'')
             [(''status'', JStr (resolveProcessStatus s')), (''sessionId'', JStr sessionId),
              (''running'', JBool (\<not> exited s')), (''exitCode'', exitCode s'), (''exitSignal'', exitSignal s')],
           updateObject a (\<lambda>_. s') reg))"

definition pollAction ::
  "string option \<Rightarrow> string \<Rightarrow> jsv \<Rightarrow> int \<Rightarrow> (int \<times> registry) list \<Rightarrow> registry \<Rightarrow> (jsv \<times> registry) option" where
  "pollAction scopeKey sessionId params now ticks reg =
     (case scoped_running scopeKey sessionId reg of
        None \<Rightarrow>
          (case scoped_finished scopeKey sessionId reg of
             None \<Rightarrow> Some (failed_text (not_found sessionId), reg)
           | Some f \<Rightarrow>
               Some (tool_text (if fs_aggregated f \<noteq> [] then fs_aggregated f else ''(no output)'')
                       [(''status'', JStr (if fs_status f = Completed then ''completed'' else ''failed'')),
                        (''sessionId'', JStr sessionId), (''exitCode'', fs_exitCode f), (''exitSignal'', fs_exitSignal f)],
                     reg))
      | Some (a, s) \<Rightarrow>
          let timeoutMs = poll_timeout (jget params ''timeout'') in
          if 0 < timeoutMs \<and> \<not> exited s
          then map_option (drained_result sessionId a) (poll_wait (now + timeoutMs) a ((now, reg) # ticks))
          else Some (drained_result sessionId a reg))"

text \<open>\<open>split(/\r?\n/)\<close>: a carriage return before a line feed belongs to the separator.\<close>

fun split_lines :: "string \<Rightarrow> string list" where
  "split_lines [] = [[]]"
| "split_lines (c # cs) =
     (if c = CHR 0x0A then [] # split_lines cs
      else if c = CHR 0x0D \<and> cs \<noteq> [] \<and> hd cs = CHR 0x0A then split_lines cs
      else (case split_lines cs of [] \<Rightarrow> [[c]] | w # ws \<Rightarrow> (c # w) # ws))"

fun max0 :: "jnum \<Rightarrow> jnum" where
  "max0 (Fin q) = Fin (max 0 q)"
| "max0 NegInf = Fin 0"
| "max0 n = n"

text \<open>The index \<open>slice\<close> makes of a non-negative number; \<open>NaN\<close> counts as 0.\<close>

fun slice_index :: "nat \<Rightarrow> jnum \<Rightarrow> nat" where
  "slice_index len (Fin q) = min len (nat \<lfloor>q\<rfloor>)"
| "slice_index len PosInf = len"
| "slice_index len _ = 0"

fun num_add :: "jnum \<Rightarrow> int \<Rightarrow> jnum" where
  "num_add (Fin q) i = Fin (q + of_int i)"
| "num_add n i = n"

fun log_limit :: "jnum \<Rightarrow> int" where
  "log_limit (Fin q) = max 1 (min 2000 \<lfloor>q\<rfloor>)"
| "log_limit _ = 200"

definition logAction :: "string option \<Rightarrow> string \<Rightarrow> jsv \<Rightarrow> registry \<Rightarrow> jsv" where
  "logAction scopeKey sessionId params reg =
     (let target = (case scoped_running scopeKey sessionId reg of
                      Some (a, s) \<Rightarrow> Some (aggregated s)
                    | None \<Rightarrow> map_option fs_aggregated (scoped_finished scopeKey sessionId reg))
      in case target of
           None \<Rightarrow> failed_text (not_found sessionId)
         | Some whole \<Rightarrow>
             let lines = split_lines whole;
                 offset = max0 (to_num (coalesce (jget params ''offset'') (num 0)));
                 limit = log_limit (to_num (coalesce (jget params ''limit'') (num 200)));
                 from_ix = slice_index (length lines) offset;
                 to_ix = slice_index (length lines) (num_add offset limit);
                 sliced = js_join [CHR 0x0A] (drop from_ix (take to_ix lines))
             in tool_text (if sliced \<noteq> [] then sliced else ''(no log output)'')
                  [(''status'', JStr ''completed''), (''sessionId'', JStr sessionId), (''offset'', JNum offset),
                   (''limit'', num limit), (''totalLines'', num (int (length lines)))])"

definition writeAction ::
  "string option \<Rightarrow> string \<Rightarrow> string \<Rightarrow> jsv \<Rightarrow> registry \<Rightarrow> (string + jsv) \<times> registry" where
  "writeAction scopeKey action sessionId params reg =
     (case scoped_running scopeKey sessionId reg of
        None \<Rightarrow> (Inr (failed_text (''No active session found for '' @ sessionId @ ''.'')), reg)
      | Some (a, s) \<Rightarrow>
          let data = str_or_empty (jget params ''data'');
              payload = (if action = ''submit'' then data @ [CHR 0x0A] else data)
          in if payload = [] then (Inr (failed_text ''data is required for write/submit/paste.''), reg)
             else (case ps_stdin s of
                None \<Rightarrow> (Inr (failed_text (''Session '' @ sessionId @ '' stdin is not writable.'')), reg)
              | Some input \<Rightarrow>
                  if stdin_destroyed input
                  then (Inr (failed_text (''Session '' @ sessionId @ '' stdin is not writable.'')), reg)
                  else (case stdin_error input of
                     Some e \<Rightarrow> (Inl e, reg)
                   | None \<Rightarrow>
                       let input' = input\<lparr>stdin_written := stdin_written input @ payload,
                                          stdin_ended := stdin_ended input \<or> jget params ''eof'' = JBool True\<rparr>
                       in (Inr (tool_text (''Wrote '' @ nat_to_string (length payload) @ '' bytes to '' @ sessionId @ ''.'')
                                  [(''status'', JStr ''completed''), (''sessionId'', JStr sessionId)]),
                           updateObject a (\<lambda>s. s\<lparr>ps_stdin := Some input'\<rparr>) reg))))"

definition killAction :: "string option \<Rightarrow> string \<Rightarrow> registry \<Rightarrow> jsv \<times> registry" where
  "killAction scopeKey sessionId reg =
     (case scoped_running scopeKey sessionId reg of
        Some (a, s) \<Rightarrow>
          (case ps_child s of
             Some signals \<Rightarrow>
               (tool_text (''Sent SIGTERM to '' @ sessionId @ ''.'')
                  [(''status'', JStr ''completed''), (''sessionId'', JStr sessionId), (''killed'', JBool True)],
                updateObject a (\<lambda>s. s\<lparr>ps_child := Some (signals @ [''SIGTERM''])\<rparr>) reg)
           | None \<Rightarrow>
               (tool_text (''Session '' @ sessionId @ '' is not running.'')
                  [(''status'', JStr ''failed''), (''sessionId'', JStr sessionId), (''killed'', JBool False)], reg))
      | None \<Rightarrow>
          (tool_text (''Session '' @ sessionId @ '' is not running.'')
             [(''status'', JStr ''failed''), (''sessionId'', JStr sessionId), (''killed'', JBool False)], reg))"

definition processExecute ::
  "string option \<Rightarrow> jsv \<Rightarrow> int \<Rightarrow> (int \<times> registry) list \<Rightarrow> registry \<Rightarrow> ((string + jsv) \<times> registry) option" where
  "processExecute scopeKey params now ticks reg =
     (let action = to_lower (trim (to_str (coalesce (jget params ''action'') (JStr ''list'')))) in
      if action = ''list'' then Some (Inr (listAction scopeKey now reg), reg)
      else
        let sessionId = trim (str_or_empty (jget params ''sessionId'')) in
        if sessionId = [] then Some (Inr (failed_text ''sessionId is required for this action.''), reg)
        else if action = ''poll''
          then map_option (\<lambda>(r, reg'). (Inr r, reg')) (pollAction scopeKey sessionId params now ticks reg)
        else if action = ''log'' then Some (Inr (logAction scopeKey sessionId params reg), reg)
        else if action \<in> set [''write'', ''submit'', ''paste'']
          then Some (writeAction scopeKey action sessionId params reg)
        else if action = ''kill'' then (case killAction scopeKey sessionId reg of (r, reg') \<Rightarrow> Some (Inr r, reg'))
        else if action \<in> set [''clear'', ''remove'']
          then Some (Inr (tool_text (''Removed session '' @ sessionId @ '' from registry.'')
                            [(''status'', JStr ''completed''), (''sessionId'', JStr sessionId)]),
                     deleteSession sessionId reg)
        else Some (Inr (failed_text
          ''Unknown process action. Use list, poll, log, write, submit, paste, kill, clear, or remove.''), reg))"

text \<open>\<open>createProcessTool\<close> applies the configured life time before it returns the tool.\<close>

definition createProcessTool :: "jnum option \<Rightarrow> registry \<Rightarrow> registry" where
  "createProcessTool cleanupMs reg = (case cleanupMs of Some n \<Rightarrow> setJobTtlMs (Some n) reg | None \<Rightarrow> reg)"

section \<open>Waiting\<close>

lemma poll_timeout_bounds: "0 \<le> poll_timeout v \<and> poll_timeout v \<le> 120000"
  by (induction v rule: poll_timeout.induct) auto

lemma poll_wait_returns:
  "(t, r) \<in> set ticks \<Longrightarrow> deadline \<le> t \<Longrightarrow> \<exists>reg. poll_wait deadline a ticks = Some reg"
  by (induction deadline a ticks rule: poll_wait.induct) auto

lemma poll_wait_snapshot: "poll_wait deadline a ticks = Some reg \<Longrightarrow> reg \<in> snd ` set ticks"
  by (induction deadline a ticks rule: poll_wait.induct) (auto split: if_splits)

lemma poll_wait_reason:
  "poll_wait deadline a ticks = Some reg \<Longrightarrow> \<exists>t. (t, reg) \<in> set ticks \<and> (has_exited a reg \<or> deadline \<le> t)"
  by (induction deadline a ticks rule: poll_wait.induct) (auto split: if_splits)

section \<open>Scopes\<close>

text \<open>Nothing outside the scope \<open>k\<close> differs between the two registries, and the maps are the same.\<close>

definition others_kept :: "string \<Rightarrow> registry \<Rightarrow> registry \<Rightarrow> bool" where
  "others_kept k reg reg' \<longleftrightarrow>
     runningSessions reg' = runningSessions reg \<and> finishedSessions reg' = finishedSessions reg
     \<and> jobTtlMs reg' = jobTtlMs reg
     \<and> (\<forall>b s. map_of (objects reg) b = Some s \<longrightarrow> ps_scopeKey s \<noteq> Some k \<longrightarrow> map_of (objects reg') b = Some s)"

definition scopes_kept :: "registry \<Rightarrow> registry \<Rightarrow> bool" where
  "scopes_kept reg reg' \<longleftrightarrow>
     (\<forall>b s. map_of (objects reg) b = Some s \<longrightarrow>
        (\<exists>s'. map_of (objects reg') b = Some s' \<and> ps_scopeKey s' = ps_scopeKey s))"

lemma others_kept_refl [simp]: "others_kept k reg reg"
  by (simp add: others_kept_def)

lemma others_kept_update:
  assumes "map_of (objects reg) a = Some s" "ps_scopeKey s = Some k"
  shows "others_kept k reg (updateObject a f reg)"
  using assms by (auto simp: others_kept_def updateObject_def store_simps)

lemma scoped_running_in_scope:
  assumes "scoped_running (Some k) i reg = Some (a, s)" "k \<noteq> []"
  shows "map_of (objects reg) a = Some s \<and> ps_scopeKey s = Some k"
  using assms by (auto simp: scoped_running_def isInScope_def split: option.splits if_splits)

lemma drained_kept:
  assumes "map_of (objects reg) a = Some s" "ps_scopeKey s = Some k" "drained_result i a reg = (r, reg')"
  shows "others_kept k reg reg'"
  using assms others_kept_update [OF assms(1,2)] by (auto simp: drained_result_def Let_def split: prod.splits)

lemma pollAction_kept:
  assumes "k \<noteq> []" "pollAction (Some k) i params now ticks reg = Some (r, reg')"
    and "\<forall>(t, r) \<in> set ticks. scopes_kept reg r"
  shows "\<exists>base \<in> insert reg (snd ` set ticks). others_kept k base reg'"
proof (cases "scoped_running (Some k) i reg")
  case None
  with assms(2) show ?thesis by (auto simp: pollAction_def split: option.splits)
next
  case (Some as)
  then obtain a s where run: "scoped_running (Some k) i reg = Some (a, s)" by (cases as) auto
  note a = scoped_running_in_scope [OF run assms(1)]
  obtain base where at: "base \<in> insert reg (snd ` set ticks)" "drained_result i a base = (r, reg')"
    using assms(2) run by (auto simp: pollAction_def Let_def split: if_splits dest!: poll_wait_snapshot)
  have "scopes_kept reg base" using at(1) assms(3) by (auto simp: scopes_kept_def)
  with a obtain s' where "map_of (objects base) a = Some s'" "ps_scopeKey s' = Some k"
    unfolding scopes_kept_def by metis
  from drained_kept [OF this at(2)] at(1) show ?thesis by blast
qed

lemma writeAction_kept:
  assumes "k \<noteq> []" "writeAction (Some k) action i params reg = (r, reg')"
  shows "others_kept k reg reg'"
proof (cases "scoped_running (Some k) i reg")
  case None
  with assms(2) show ?thesis by (simp add: writeAction_def)
next
  case (Some as)
  then obtain a s where run: "scoped_running (Some k) i reg = Some (a, s)" by (cases as) auto
  note a = scoped_running_in_scope [OF run assms(1)]
  have "reg' = reg \<or> (\<exists>f. reg' = updateObject a f reg)"
    using assms(2) run by (auto simp: writeAction_def Let_def split: option.splits if_splits)
  then show ?thesis using a others_kept_update by auto
qed

lemma killAction_kept:
  assumes "k \<noteq> []" "killAction (Some k) i reg = (r, reg')"
  shows "others_kept k reg reg'"
proof (cases "scoped_running (Some k) i reg")
  case None
  with assms(2) show ?thesis by (simp add: killAction_def)
next
  case (Some as)
  then obtain a s where run: "scoped_running (Some k) i reg = Some (a, s)" by (cases as) auto
  note a = scoped_running_in_scope [OF run assms(1)]
  have "reg' = reg \<or> (\<exists>f. reg' = updateObject a f reg)"
    using assms(2) run by (auto simp: killAction_def split: option.splits)
  then show ?thesis using a others_kept_update by auto
qed

definition process_action :: "jsv \<Rightarrow> string" where
  "process_action params = to_lower (trim (to_str (coalesce (jget params ''action'') (JStr ''list''))))"

section \<open>Properties\<close>

text \<open>
  C7. A caller with a scope changes nothing outside it: apart from \<open>clear\<close> and \<open>remove\<close>, no action of
  the process tool alters a session of another scope, or the maps of running and finished
  sessions, compared with the registry at the moment the action completes (at once, or after
  the last wake-up of a waiting poll).
\<close>

theorem process_tool_keeps_other_scopes:
  assumes "k \<noteq> []" and "processExecute (Some k) params now ticks reg = Some (r, reg')"
    and "process_action params \<noteq> ''clear''" and "process_action params \<noteq> ''remove''"
    and "\<forall>(t, r) \<in> set ticks. scopes_kept reg r"
  shows "\<exists>base \<in> insert reg (snd ` set ticks). others_kept k base reg'"
proof -
  have "others_kept k reg reg' \<or>
      (\<exists>i r. pollAction (Some k) i params now ticks reg = Some (r, reg')) \<or>
      (\<exists>i a r. writeAction (Some k) a i params reg = (r, reg')) \<or>
      (\<exists>i r. killAction (Some k) i reg = (r, reg'))"
    using assms(2-4) unfolding processExecute_def process_action_def Let_def
    by (auto split: if_splits prod.splits)
  then show ?thesis
    using writeAction_kept [OF assms(1)] killAction_kept [OF assms(1)] pollAction_kept [OF assms(1) _ assms(5)]
    by blast
qed

definition kill_params :: jsv where
  "kill_params = JObj [(''action'', JStr '' Kill ''), (''sessionId'', JStr ''amber-atlas'')]"

theorem process_tool_keeps_other_scopes_witness:
  "\<exists>base \<in> insert demo_registry (snd ` set []).
     others_kept ''other'' base (snd (the (processExecute (Some ''other'') kill_params 0 [] demo_registry)))"
proof -
  let ?res = "processExecute (Some ''other'') kill_params 0 [] demo_registry"
  have "?res \<noteq> None" by code_simp
  then have run: "?res = Some (fst (the ?res), snd (the ?res))" by auto
  have "process_action kill_params \<noteq> ''clear''" "process_action kill_params \<noteq> ''remove''" by code_simp+
  with process_tool_keeps_other_scopes [OF _ run] show ?thesis by simp
qed

text \<open>
  The process tool always answers: every call returns at once or, for a poll that waits,
  as soon as its timer has fired once at or after its deadline, which is at most two minutes
  away.
\<close>

theorem process_tool_returns:
  assumes "(t, r) \<in> set ticks" and "now + 120000 \<le> t"
  shows "\<exists>res reg'. processExecute scopeKey params now ticks reg = Some (res, reg')"
proof -
  have poll: "pollAction scopeKey i params now ticks reg \<noteq> None" for i
  proof -
    let ?d = "now + poll_timeout (jget params ''timeout'')"
    have "?d \<le> t" using poll_timeout_bounds [of "jget params ''timeout''"] assms(2) by linarith
    then have "poll_wait ?d a ((now, reg) # ticks) \<noteq> None" for a
      using poll_wait_returns [of t r "(now, reg) # ticks" ?d] assms(1) by (metis list.set_intros(2) option.distinct(1))
    then show ?thesis
      by (simp add: pollAction_def Let_def del: poll_wait.simps not_None_eq split: option.split)
  qed
  have "processExecute scopeKey params now ticks reg \<noteq> None"
    unfolding processExecute_def Let_def using poll by (simp del: not_None_eq split: prod.splits)
  then show ?thesis by auto
qed

theorem process_tool_returns_witness:
  "\<exists>res reg'. processExecute None (JObj [(''action'', JStr ''poll''), (''sessionId'', JStr ''amber-atlas''),
      (''timeout'', num 500)]) 0 [(200, demo_registry), (120000, demo_registry)] demo_registry = Some (res, reg')"
  by (rule process_tool_returns [of 120000 demo_registry]) simp_all

text \<open>
  \<open>remove\<close> does not check the scope: a caller of another scope, to whom a poll says that the
  session does not exist, deletes the running session of the first scope from the registry.
\<close>

theorem process_remove_ignores_scope:
  "let poll = JObj [(''action'', JStr ''poll''), (''sessionId'', JStr ''amber-atlas'')];
       remove = JObj [(''action'', JStr ''remove''), (''sessionId'', JStr ''amber-atlas'')]
   in processExecute (Some ''other'') poll 0 [] demo_registry =
        Some (Inr (failed_text ''No session found for amber-atlas.''), demo_registry)
      \<and> getSession ''amber-atlas'' demo_registry \<noteq> None
      \<and> map_option (\<lambda>(r, reg). getSession ''amber-atlas'' reg)
          (processExecute (Some ''other'') remove 0 [] demo_registry) = Some None"
  by code_simp

end
