(* ===== verification/Pairing.thy ===== *)
theory Pairing
  imports Js_Value
begin

text \<open>
  Pairing of chat users, \<open>src/channels/pairing.ts\<close>: a user asks for a code, the owner approves the
  code, and from then on messages of that user or chat are accepted. The store is a JSON file;
  reading it normalises whatever is there. When there is no usable file, \<open>readStore\<close> returns a
  shallow copy of the module constant \<open>DEFAULT_STORE\<close>, whose \<open>approved\<close> object and \<open>pending\<close> array are
  shared with the constant: the operations then also change the constant. The model keeps both
  the file and the constant in its state, so this aliasing is visible. Random bytes and the
  clock are parameters. The lemmas show what an approval grants, that a request grants nothing,
  that an issued code can be approved, and that a code outlives the deletion of the file.
\<close>

section \<open>Model\<close>

record pending_pairing =
  pp_id :: string
  pp_channel :: string
  pp_userId :: string
  pp_chatId :: string
  pp_code :: string
  pp_createdAt :: jnum
  pp_lastSeenAt :: jnum

record pairing_store =
  approved :: "(string, string list) omap"
  pending_list :: "pending_pairing list"

record pairing_state =
  pairing_file :: "file_content option"
  default_store :: pairing_store

definition DEFAULT_STORE :: pairing_store where
  "DEFAULT_STORE = \<lparr>approved = [], pending_list = []\<rparr>"

definition pairingId :: "string \<Rightarrow> string \<Rightarrow> string \<Rightarrow> string" where
  "pairingId channel userId chatId = channel @ '':'' @ userId @ '':'' @ chatId"

definition cleanEntries :: "jsv list \<Rightarrow> string list" where
  "cleanEntries entries = filter (\<lambda>s. s \<noteq> []) (map (\<lambda>e. trim (to_str e)) entries)"

fun normalizeApproved :: "(string \<times> jsv) list \<Rightarrow> (string, string list) omap \<Rightarrow> (string, string list) omap" where
  "normalizeApproved [] acc = acc"
| "normalizeApproved ((channel, entries) # rest) acc =
     (if \<not> is_array entries then normalizeApproved rest acc
      else let cleaned = cleanEntries (elems entries) in
           if 0 < length cleaned then normalizeApproved rest (AList.update channel (dedup cleaned) acc)
           else normalizeApproved rest acc)"

definition normalizePending :: "int \<Rightarrow> jsv \<Rightarrow> pending_pairing" where
  "normalizePending now item =
     \<lparr>pp_id = trim (str_or_empty (jget item ''id'')),
      pp_channel = trim (str_or_empty (jget item ''channel'')),
      pp_userId = trim (str_or_empty (jget item ''userId'')),
      pp_chatId = trim (str_or_empty (jget item ''chatId'')),
      pp_code = to_upper (trim (str_or_empty (jget item ''code''))),
      pp_createdAt = to_num (coalesce (jget item ''createdAt'') (JNum (Fin (of_int now)))),
      pp_lastSeenAt = to_num (coalesce (jget item ''lastSeenAt'') (JNum (Fin (of_int now))))\<rparr>"

definition usablePending :: "pending_pairing \<Rightarrow> bool" where
  "usablePending e \<longleftrightarrow> pp_id e \<noteq> [] \<and> pp_channel e \<noteq> [] \<and> pp_userId e \<noteq> [] \<and> pp_chatId e \<noteq> [] \<and> pp_code e \<noteq> []"

text \<open>\<open>normalizeStore\<close>; \<open>None\<close> where the code falls back to the copy of \<open>DEFAULT_STORE\<close>.\<close>

definition normalizeStore :: "int \<Rightarrow> jsv \<Rightarrow> pairing_store option" where
  "normalizeStore now raw =
     (if \<not> is_object raw then None
      else Some
        \<lparr>approved = (if is_object (jget raw ''approved'')
                     then normalizeApproved (obj_entries (jget raw ''approved'')) [] else []),
         pending_list = filter usablePending
           (map (normalizePending now) (filter is_object (elems (jget raw ''pending''))))\<rparr>)"

text \<open>The store that is read, and whether its parts are those of the module constant.\<close>

definition readStore :: "int \<Rightarrow> pairing_state \<Rightarrow> pairing_store \<times> bool" where
  "readStore now st =
     (case pairing_file st of
        Some (Json raw) \<Rightarrow>
          (case normalizeStore now raw of Some s \<Rightarrow> (s, False) | None \<Rightarrow> (default_store st, True))
      | _ \<Rightarrow> (default_store st, True))"

definition pending_json :: "pending_pairing \<Rightarrow> jsv" where
  "pending_json e =
     JObj [(''id'', JStr (pp_id e)), (''channel'', JStr (pp_channel e)), (''userId'', JStr (pp_userId e)),
           (''chatId'', JStr (pp_chatId e)), (''code'', JStr (pp_code e)),
           (''createdAt'', JNum (pp_createdAt e)), (''lastSeenAt'', JNum (pp_lastSeenAt e))]"

definition store_json :: "pairing_store \<Rightarrow> jsv" where
  "store_json s =
     JObj [(''version'', JNum (Fin 1)),
           (''approved'', JObj (map (\<lambda>(c, es). (c, JArr (map JStr es))) (approved s))),
           (''pending'', JArr (map pending_json (pending_list s)))]"

text \<open>\<open>writeStore\<close>, together with the effect the preceding mutations had on the constant.\<close>

definition writeStore :: "bool \<Rightarrow> pairing_store \<Rightarrow> pairing_state \<Rightarrow> pairing_state" where
  "writeStore aliased s st =
     st\<lparr>pairing_file := Some (Json (json_clean (store_json s))),
        default_store := (if aliased then s else default_store st)\<rparr>"

definition ALPHABET :: string where
  "ALPHABET = ''ABCDEFGHJKLMNPQRSTUVWXYZ23456789''"

definition generateCode :: "nat list \<Rightarrow> string" where
  "generateCode bytes = map (\<lambda>b. ALPHABET ! (b mod length ALPHABET)) bytes"

definition approvedFor :: "pairing_store \<Rightarrow> string \<Rightarrow> string list" where
  "approvedFor s channel = (case map_of (approved s) channel of Some es \<Rightarrow> es | None \<Rightarrow> [])"

definition isPairingApproved :: "int \<Rightarrow> string \<Rightarrow> string \<Rightarrow> string \<Rightarrow> pairing_state \<Rightarrow> bool" where
  "isPairingApproved now channel userId chatId st =
     (let store = fst (readStore now st);
          channel = trim channel; userId = trim userId; chatId = trim chatId;
          i = pairingId channel userId chatId;
          approved = approvedFor store channel
      in i \<in> set approved \<or> userId \<in> set approved \<or> chatId \<in> set approved)"

text \<open>The search for an unused code: up to 64 candidates, then one more whatever it is.\<close>

fun pickCode :: "(nat \<Rightarrow> nat list) \<Rightarrow> string list \<Rightarrow> nat \<Rightarrow> nat \<Rightarrow> string" where
  "pickCode bytes used k 0 = generateCode (bytes k)"
| "pickCode bytes used k (Suc n) =
     (let candidate = generateCode (bytes k) in
      if candidate \<notin> set used then candidate else pickCode bytes used (Suc k) n)"

definition touch :: "jnum \<Rightarrow> string \<Rightarrow> pending_pairing list \<Rightarrow> pending_pairing list" where
  "touch now i es =
     (case find (\<lambda>e. pp_id e = i) es of
        None \<Rightarrow> es
      | Some _ \<Rightarrow> takeWhile (\<lambda>e. pp_id e \<noteq> i) es
                  @ (hd (dropWhile (\<lambda>e. pp_id e \<noteq> i) es))\<lparr>pp_lastSeenAt := now\<rparr>
                  # tl (dropWhile (\<lambda>e. pp_id e \<noteq> i) es))"

definition requestPairingCode ::
  "(nat \<Rightarrow> nat list) \<Rightarrow> int \<Rightarrow> string \<Rightarrow> string \<Rightarrow> string \<Rightarrow> pairing_state \<Rightarrow> (string \<times> bool) \<times> pairing_state" where
  "requestPairingCode bytes now channel userId chatId st =
     (let (store, aliased) = readStore now st;
          channel = trim channel; userId = trim userId; chatId = trim chatId;
          i = pairingId channel userId chatId
      in case find (\<lambda>e. pp_id e = i) (pending_list store) of
           Some existing \<Rightarrow>
             ((pp_code existing, False),
              writeStore aliased (store\<lparr>pending_list := touch (Fin (of_int now)) i (pending_list store)\<rparr>) st)
         | None \<Rightarrow>
             let code = pickCode bytes (map pp_code (pending_list store)) 0 64;
                 entry = \<lparr>pp_id = i, pp_channel = channel, pp_userId = userId, pp_chatId = chatId,
                          pp_code = code, pp_createdAt = Fin (of_int now), pp_lastSeenAt = Fin (of_int now)\<rparr>
             in ((code, True), writeStore aliased (store\<lparr>pending_list := pending_list store @ [entry]\<rparr>) st))"

text \<open>The sort of \<open>listPendingPairings\<close>, most recent first, for finite times.\<close>

definition listPendingPairings :: "int \<Rightarrow> string option \<Rightarrow> pairing_state \<Rightarrow> pending_pairing list" where
  "listPendingPairings now channel st =
     (let store = fst (readStore now st);
          list = (case channel of
                    Some c \<Rightarrow> if trim c \<noteq> [] then filter (\<lambda>e. pp_channel e = trim c) (pending_list store)
                              else pending_list store
                  | None \<Rightarrow> pending_list store)
      in sort_key (\<lambda>e. - fin_or 0 (pp_lastSeenAt e)) list)"

definition approvePairingCode ::
  "int \<Rightarrow> string \<Rightarrow> string \<Rightarrow> pairing_state \<Rightarrow> pending_pairing option \<times> pairing_state" where
  "approvePairingCode now channel code st =
     (let (store, aliased) = readStore now st;
          channel = trim channel; code = to_upper (trim code)
      in if channel = [] \<or> code = [] then (None, st)
         else
           let hit = (\<lambda>e. pp_channel e = channel \<and> pp_code e = code) in
           case find hit (pending_list store) of
             None \<Rightarrow> (None, st)
           | Some p \<Rightarrow>
               let rest = takeWhile (\<lambda>e. \<not> hit e) (pending_list store) @ tl (dropWhile (\<lambda>e. \<not> hit e) (pending_list store));
                   granted = set_add (set_add (set_add (approvedFor store channel) (pp_id p)) (pp_userId p)) (pp_chatId p)
               in (Some p,
                   writeStore aliased
                     (store\<lparr>pending_list := rest, approved := AList.update channel granted (approved store)\<rparr>) st))"

section \<open>Stores as they are read\<close>

definition clean_text :: "string \<Rightarrow> bool" where
  "clean_text s \<longleftrightarrow> s \<noteq> [] \<and> trim s = s"

definition grants_ok :: "(string, string list) omap \<Rightarrow> bool" where
  "grants_ok m \<longleftrightarrow> omap_invar m \<and> (\<forall>(c, es) \<in> set m. es \<noteq> [] \<and> distinct es \<and> list_all clean_text es)"

definition pending_ok :: "pending_pairing \<Rightarrow> bool" where
  "pending_ok e \<longleftrightarrow> clean_text (pp_id e) \<and> clean_text (pp_channel e) \<and> clean_text (pp_userId e)
     \<and> clean_text (pp_chatId e) \<and> clean_text (pp_code e) \<and> to_upper (pp_code e) = pp_code e"

definition store_ok :: "pairing_store \<Rightarrow> bool" where
  "store_ok s \<longleftrightarrow> grants_ok (approved s) \<and> list_all pending_ok (pending_list s)"

definition state_ok :: "pairing_state \<Rightarrow> bool" where
  "state_ok st \<longleftrightarrow> store_ok (default_store st)"

definition fixTime :: "int \<Rightarrow> jnum \<Rightarrow> jnum" where
  "fixTime now n = (if is_finite n then n else Fin (of_int now))"

definition fixTimes :: "int \<Rightarrow> pending_pairing \<Rightarrow> pending_pairing" where
  "fixTimes now e = e\<lparr>pp_createdAt := fixTime now (pp_createdAt e), pp_lastSeenAt := fixTime now (pp_lastSeenAt e)\<rparr>"

lemma normalizePending_ok: "usablePending (normalizePending now item) \<Longrightarrow> pending_ok (normalizePending now item)"
  by (simp add: usablePending_def normalizePending_def pending_ok_def clean_text_def trim_to_upper)

lemma cleanEntries_clean: "list_all clean_text (dedup (cleanEntries es))"
  by (auto simp: list_all_iff cleanEntries_def clean_text_def)

lemma grants_ok_update:
  assumes "grants_ok m" "es \<noteq> []" "distinct es" "list_all clean_text es"
  shows "grants_ok (AList.update c es m)"
proof -
  have inv: "omap_invar m" "omap_invar (AList.update c es m)" using assms(1) by (auto simp: grants_ok_def store_simps)
  have "ds \<noteq> [] \<and> distinct ds \<and> list_all clean_text ds" if "(d, ds) \<in> set (AList.update c es m)" for d ds
    using that assms unfolding omap_mem_iff [OF inv(2)] grants_ok_def
    by (auto simp: store_simps omap_mem_iff [OF inv(1), symmetric] split: if_splits)
  with inv(2) show ?thesis by (auto simp: grants_ok_def)
qed

lemma normalizeApproved_ok: "grants_ok acc \<Longrightarrow> grants_ok (normalizeApproved fs acc)"
proof (induction fs acc rule: normalizeApproved.induct)
  case (2 channel entries rest acc)
  have "grants_ok (AList.update channel (dedup (cleanEntries (elems entries))) acc)"
    if "cleanEntries (elems entries) \<noteq> []"
    using 2(4) that cleanEntries_clean by (intro grants_ok_update) auto
  with 2 show ?case by (auto simp: Let_def)
qed simp

lemma grants_ok_Nil [simp]: "grants_ok []"
  by (simp add: grants_ok_def store_simps)

lemma normalizeStore_ok: "normalizeStore now raw = Some s \<Longrightarrow> store_ok s"
  by (auto simp: normalizeStore_def store_ok_def list_all_iff normalizeApproved_ok normalizePending_ok split: if_splits)

lemma readStore_ok: "state_ok st \<Longrightarrow> store_ok (fst (readStore now st))"
  by (auto simp: readStore_def state_ok_def normalizeStore_ok split: option.splits file_content.splits)

section \<open>Reading back what was written\<close>

lemma normalizeApproved_back:
  assumes "grants_ok (acc @ m)"
  shows "normalizeApproved (map (\<lambda>(c, es). (c, JArr (map JStr es))) m) acc = acc @ m"
  using assms
proof (induction m arbitrary: acc)
  case (Cons ces m)
  obtain c es where ces: "ces = (c, es)" by (cases ces)
  have es: "es \<noteq> []" "distinct es" "list_all clean_text es" "c \<notin> fst ` set acc"
    using Cons.prems by (auto simp: grants_ok_def ces omap_invar_def)
  have "map (\<lambda>e. trim (to_str e)) (map JStr es) = es"
    using es(3) by (simp add: clean_text_def list_all_iff map_idI)
  moreover have "filter (\<lambda>s. s \<noteq> []) es = es" using es(3) by (auto simp: clean_text_def list_all_iff intro: filter_True)
  ultimately have "cleanEntries (map JStr es) = es" by (simp add: cleanEntries_def)
  moreover have "AList.update c es acc = acc @ [(c, es)]" using es(4) by (induction acc) auto
  ultimately show ?case
    using es Cons.IH [of "acc @ [(c, es)]"] Cons.prems by (simp add: ces dedup_id)
qed simp

lemma pending_json_back:
  "pending_ok e \<Longrightarrow> normalizePending now (json_clean (pending_json e)) = fixTimes now e"
  by (cases e) (auto simp: pending_json_def normalizePending_def fixTimes_def fixTime_def pending_ok_def
      clean_text_def coalesce_def str_or_empty_def)

lemma store_json_back:
  assumes "store_ok s"
  shows "normalizeStore now (json_clean (store_json s)) =
    Some \<lparr>approved = approved s, pending_list = map (fixTimes now) (pending_list s)\<rparr>"
proof -
  have ap: "json_clean (JArr (map JStr es)) = JArr (map JStr es)" for es by (simp add: map_idI)
  then have "map (\<lambda>(k, v). (k, json_clean v)) (map (\<lambda>(c, es). (c, JArr (map JStr es))) m) =
      map (\<lambda>(c, es). (c, JArr (map JStr es))) m" for m :: "(string, string list) omap"
    by (induction m) auto
  moreover have "filter (\<lambda>(k, v). v \<noteq> JUndef) (map (\<lambda>(c, es). (c, JArr (map JStr es))) m) =
      map (\<lambda>(c, es). (c, JArr (map JStr es))) m" for m :: "(string, string list) omap"
    by (induction m) auto
  ultimately have grants: "json_clean (JObj (map (\<lambda>(c, es). (c, JArr (map JStr es))) (approved s))) =
      JObj (map (\<lambda>(c, es). (c, JArr (map JStr es))) (approved s))"
    by (simp only: json_clean.simps)
  have obj: "is_object (json_clean (pending_json e))" for e by (simp add: pending_json_def)
  have pend: "map (normalizePending now) (map json_clean (map pending_json (pending_list s))) =
      map (fixTimes now) (pending_list s)"
    using assms by (auto simp: store_ok_def list_all_iff pending_json_back)
  have usable: "usablePending (fixTimes now e)" if "e \<in> set (pending_list s)" for e
    using assms that by (auto simp: store_ok_def list_all_iff pending_ok_def clean_text_def usablePending_def fixTimes_def)
  have "json_clean (store_json s) =
      JObj [(''version'', JNum (Fin 1)), (''approved'', JObj (map (\<lambda>(c, es). (c, JArr (map JStr es))) (approved s))),
            (''pending'', JArr (map json_clean (map pending_json (pending_list s))))]"
    using grants by (simp add: store_json_def)
  moreover have "filter is_object (map json_clean (map pending_json (pending_list s))) =
      map json_clean (map pending_json (pending_list s))"
    using obj by (auto intro!: filter_True)
  moreover have "filter usablePending (map (fixTimes now) (pending_list s)) = map (fixTimes now) (pending_list s)"
    using usable by (auto intro!: filter_True)
  moreover have "normalizeApproved (map (\<lambda>(c, es). (c, JArr (map JStr es))) (approved s)) [] = approved s"
    using normalizeApproved_back [of "[]" "approved s"] assms by (simp add: store_ok_def)
  ultimately show ?thesis
    unfolding normalizeStore_def using pend by (simp del: map_map)
qed

lemma readStore_writeStore:
  "store_ok s \<Longrightarrow> readStore now (writeStore aliased s st) =
     (\<lparr>approved = approved s, pending_list = map (fixTimes now) (pending_list s)\<rparr>, False)"
  by (simp add: readStore_def writeStore_def store_json_back)

lemma writeStore_ok: "state_ok st \<Longrightarrow> store_ok s \<Longrightarrow> state_ok (writeStore aliased s st)"
  by (simp add: state_ok_def writeStore_def)

section \<open>Codes\<close>

lemma ALPHABET_char: "c \<in> set ALPHABET \<Longrightarrow> upper_char c = [c] \<and> \<not> is_ws c"
proof -
  have "list_all (\<lambda>c. upper_char c = [c] \<and> \<not> is_ws c) ALPHABET" by code_simp
  then show "c \<in> set ALPHABET \<Longrightarrow> upper_char c = [c] \<and> \<not> is_ws c" by (simp add: list_all_iff)
qed

lemma generateCode_chars: "c \<in> set (generateCode bytes) \<Longrightarrow> c \<in> set ALPHABET"
proof -
  have "0 < length ALPHABET" by code_simp
  then have "ALPHABET ! (b mod length ALPHABET) \<in> set ALPHABET" for b by (intro nth_mem) simp
  then show "c \<in> set (generateCode bytes) \<Longrightarrow> c \<in> set ALPHABET" by (auto simp: generateCode_def)
qed

lemma generateCode_clean:
  assumes "bytes \<noteq> []"
  shows "clean_text (generateCode bytes) \<and> to_upper (generateCode bytes) = generateCode bytes"
proof -
  have "concat (map upper_char xs) = xs" if "\<forall>c \<in> set xs. c \<in> set ALPHABET" for xs
    using that ALPHABET_char by (induction xs) auto
  then have "to_upper (generateCode bytes) = generateCode bytes"
    using generateCode_chars unfolding to_upper_def by blast
  moreover have "trim (generateCode bytes) = generateCode bytes"
    using generateCode_chars ALPHABET_char by (intro trim_nonblank) blast
  ultimately show ?thesis using assms by (simp add: clean_text_def generateCode_def)
qed

lemma pickCode_gen: "\<exists>j. pickCode bytes used k n = generateCode (bytes j)"
  by (induction n arbitrary: k) (auto simp: Let_def)

lemma pickCode_fresh:
  "k \<le> j \<Longrightarrow> j < k + n \<Longrightarrow> generateCode (bytes j) \<notin> set used \<Longrightarrow> pickCode bytes used k n \<notin> set used"
proof (induction n arbitrary: k)
  case (Suc n)
  show ?case
  proof (cases "generateCode (bytes k) \<in> set used")
    case True
    with Suc.prems have "Suc k \<le> j" by (metis Suc_leI le_neq_implies_less)
    with Suc True show ?thesis by (simp add: Let_def)
  qed (simp add: Let_def)
qed simp

section \<open>The operations keep stores well formed\<close>

definition store_of :: "int \<Rightarrow> pairing_state \<Rightarrow> pairing_store" where
  "store_of now st = fst (readStore now st)"

lemma pending_ok_seen: "pending_ok e \<Longrightarrow> pending_ok (e\<lparr>pp_lastSeenAt := n\<rparr>)"
  by (simp add: pending_ok_def)

lemma touch_ok: "list_all pending_ok es \<Longrightarrow> list_all pending_ok (touch n i es)"
proof (cases "find (\<lambda>e. pp_id e = i) es")
  case (Some e)
  assume ok: "list_all pending_ok es"
  from Some have "dropWhile (\<lambda>e. pp_id e \<noteq> i) es \<noteq> []" by (auto simp: find_Some_iff)
  then obtain d ds where d: "dropWhile (\<lambda>e. pp_id e \<noteq> i) es = d # ds" by (cases "dropWhile (\<lambda>e. pp_id e \<noteq> i) es") auto
  have es: "es = takeWhile (\<lambda>e. pp_id e \<noteq> i) es @ d # ds" using d by (metis takeWhile_dropWhile_id)
  then have "list_all pending_ok (takeWhile (\<lambda>e. pp_id e \<noteq> i) es @ d # ds)" using ok by metis
  then show ?thesis using Some d by (simp add: touch_def pending_ok_seen)
qed (simp add: touch_def)

lemma pairingId_clean:
  assumes "trim c = c" "trim h = h"
  shows "clean_text (pairingId c u h)"
proof -
  have colon: "\<not> is_ws (CHR '':'')" by code_simp
  have "\<not> is_ws (hd (pairingId c u h))"
    using assms(1) trim_ends(1) [of c] colon by (cases c) (auto simp: pairingId_def)
  moreover have "\<not> is_ws (last (pairingId c u h))"
    using assms(2) trim_ends(2) [of h] colon by (cases "h = []") (auto simp: pairingId_def)
  ultimately show ?thesis by (simp add: clean_text_def trim_id) (simp add: pairingId_def)
qed

definition aliased_of :: "int \<Rightarrow> pairing_state \<Rightarrow> bool" where
  "aliased_of now st = snd (readStore now st)"

lemma readStore_pair: "readStore now st = (store_of now st, aliased_of now st)"
  by (simp add: store_of_def aliased_of_def)

lemma store_of_ok: "state_ok st \<Longrightarrow> store_ok (store_of now st)"
  unfolding store_of_def by (rule readStore_ok)

lemma approved_any_time: "approved (store_of now st) = approved (store_of now' st)"
  by (auto simp: store_of_def readStore_def normalizeStore_def split: option.splits file_content.splits if_splits)

lemma store_of_write: "store_ok s \<Longrightarrow> store_of now (writeStore a s st) =
    \<lparr>approved = approved s, pending_list = map (fixTimes now) (pending_list s)\<rparr>"
  by (simp add: store_of_def readStore_writeStore)

text \<open>What is granted on a channel: the identities its approved list contains.\<close>

definition granted :: "pairing_state \<Rightarrow> string \<Rightarrow> string \<Rightarrow> bool" where
  "granted st channel x \<longleftrightarrow> x \<in> set (approvedFor (store_of 0 st) channel)"

lemma isPairingApproved_granted:
  "isPairingApproved now c u h st \<longleftrightarrow>
     granted st (trim c) (pairingId (trim c) (trim u) (trim h)) \<or> granted st (trim c) (trim u) \<or> granted st (trim c) (trim h)"
  using approved_any_time [of now st 0]
  by (simp add: isPairingApproved_def granted_def Let_def approvedFor_def store_of_def)

text \<open>Both operations that write replace the store by one with known parts.\<close>

definition new_entry :: "(nat \<Rightarrow> nat list) \<Rightarrow> int \<Rightarrow> string \<Rightarrow> string \<Rightarrow> string \<Rightarrow> pairing_store \<Rightarrow> pending_pairing" where
  "new_entry bytes now c u h s =
     \<lparr>pp_id = pairingId c u h, pp_channel = c, pp_userId = u, pp_chatId = h,
      pp_code = pickCode bytes (map pp_code (pending_list s)) 0 64,
      pp_createdAt = Fin (of_int now), pp_lastSeenAt = Fin (of_int now)\<rparr>"

lemma request_cases:
  obtains (existing) e where "find (\<lambda>e. pp_id e = pairingId (trim c) (trim u) (trim h)) (pending_list (store_of now st)) = Some e"
      "requestPairingCode bytes now c u h st = ((pp_code e, False),
        writeStore (aliased_of now st) ((store_of now st)\<lparr>pending_list :=
          touch (Fin (of_int now)) (pairingId (trim c) (trim u) (trim h)) (pending_list (store_of now st))\<rparr>) st)"
  | (created) "find (\<lambda>e. pp_id e = pairingId (trim c) (trim u) (trim h)) (pending_list (store_of now st)) = None"
      "requestPairingCode bytes now c u h st =
        ((pp_code (new_entry bytes now (trim c) (trim u) (trim h) (store_of now st)), True),
         writeStore (aliased_of now st) ((store_of now st)\<lparr>pending_list :=
           pending_list (store_of now st) @ [new_entry bytes now (trim c) (trim u) (trim h) (store_of now st)]\<rparr>) st)"
proof (cases "find (\<lambda>e. pp_id e = pairingId (trim c) (trim u) (trim h)) (pending_list (store_of now st))")
  case None
  then show thesis by (intro that(2)) (simp_all add: requestPairingCode_def readStore_pair new_entry_def Let_def)
next
  case (Some e)
  then show thesis by (intro that(1)) (simp_all add: requestPairingCode_def readStore_pair Let_def)
qed

lemma new_entry_ok:
  assumes "\<And>j. bytes j \<noteq> []" "trim c \<noteq> []" "trim u \<noteq> []" "trim h \<noteq> []"
  shows "pending_ok (new_entry bytes now (trim c) (trim u) (trim h) s)"
proof -
  obtain j where j: "pickCode bytes (map pp_code (pending_list s)) 0 64 = generateCode (bytes j)"
    using pickCode_gen by blast
  show ?thesis
    using assms generateCode_clean [OF assms(1), of j] pairingId_clean [of "trim c" "trim h" "trim u"]
    by (simp add: pending_ok_def new_entry_def j clean_text_def)
qed

lemma request_store_ok:
  assumes "state_ok st" "\<And>j. bytes j \<noteq> []" "trim c \<noteq> []" "trim u \<noteq> []" "trim h \<noteq> []"
  shows "\<exists>a s. snd (requestPairingCode bytes now c u h st) = writeStore a s st \<and> store_ok s
    \<and> approved s = approved (store_of now st)"
proof (cases rule: request_cases [of c u h now st bytes])
  case (existing e)
  then show ?thesis using store_of_ok [OF assms(1), of now] by (fastforce simp: store_ok_def touch_ok)
next
  case created
  then show ?thesis
    using store_of_ok [OF assms(1), of now] new_entry_ok [OF assms(2-5)] by (fastforce simp: store_ok_def)
qed

lemma approve_cases:
  assumes "approvePairingCode now channel code st = (Some p, st')"
  obtains s where "st' = writeStore (aliased_of now st) s st"
    "p \<in> set (pending_list (store_of now st))" "pp_channel p = trim channel" "trim channel \<noteq> []"
    "approved s = AList.update (trim channel)
       (set_add (set_add (set_add (approvedFor (store_of now st) (trim channel)) (pp_id p)) (pp_userId p)) (pp_chatId p))
       (approved (store_of now st))"
    "set (pending_list s) \<subseteq> set (pending_list (store_of now st))"
proof -
  let ?hit = "\<lambda>e. pp_channel e = trim channel \<and> pp_code e = to_upper (trim code)"
  let ?es = "pending_list (store_of now st)"
  let ?s = "(store_of now st)\<lparr>pending_list := takeWhile (\<lambda>e. \<not> ?hit e) ?es @ tl (dropWhile (\<lambda>e. \<not> ?hit e) ?es),
     approved := AList.update (trim channel)
       (set_add (set_add (set_add (approvedFor (store_of now st) (trim channel)) (pp_id p)) (pp_userId p)) (pp_chatId p))
       (approved (store_of now st))\<rparr>"
  have "find ?hit ?es = Some p" "st' = writeStore (aliased_of now st) ?s st" "trim channel \<noteq> []"
    using assms by (auto simp: approvePairingCode_def readStore_pair Let_def split: if_splits option.splits)
  moreover have "p \<in> set ?es" "?hit p" if "find ?hit ?es = Some p"
    using that by (auto simp: find_Some_iff)
  moreover have "set (takeWhile (\<lambda>e. \<not> ?hit e) ?es @ tl (dropWhile (\<lambda>e. \<not> ?hit e) ?es)) \<subseteq> set ?es"
  proof -
    have "set (tl xs) \<subseteq> set xs" for xs :: "pending_pairing list" by (cases xs) auto
    then have "set (tl (dropWhile (\<lambda>e. \<not> ?hit e) ?es)) \<subseteq> set ?es" using set_dropWhileD by fast
    then show ?thesis using set_takeWhileD by fastforce
  qed
  ultimately show thesis using that [of ?s] by simp
qed


lemma approve_store_ok:
  assumes "state_ok st" "approvePairingCode now channel code st = (Some p, st')"
  shows "\<exists>a s. st' = writeStore a s st \<and> store_ok s \<and> pending_ok p \<and>
    approved s = AList.update (trim channel)
       (set_add (set_add (set_add (approvedFor (store_of now st) (trim channel)) (pp_id p)) (pp_userId p)) (pp_chatId p))
       (approved (store_of now st))"
proof -
  note ok = store_of_ok [OF assms(1), of now]
  from assms(2) obtain s where s: "st' = writeStore (aliased_of now st) s st"
    "p \<in> set (pending_list (store_of now st))" "pp_channel p = trim channel" "trim channel \<noteq> []"
    "approved s = AList.update (trim channel)
       (set_add (set_add (set_add (approvedFor (store_of now st) (trim channel)) (pp_id p)) (pp_userId p)) (pp_chatId p))
       (approved (store_of now st))"
    "set (pending_list s) \<subseteq> set (pending_list (store_of now st))" by (rule approve_cases)
  have p: "pending_ok p" using ok s(2) by (simp add: store_ok_def list_all_iff)
  have old: "distinct (approvedFor (store_of now st) (trim channel)) \<and>
      list_all clean_text (approvedFor (store_of now st) (trim channel))"
    using ok by (auto simp: store_ok_def grants_ok_def approvedFor_def split: option.splits dest!: map_of_SomeD)
  let ?g = "set_add (set_add (set_add (approvedFor (store_of now st) (trim channel)) (pp_id p)) (pp_userId p)) (pp_chatId p)"
  have "pp_chatId p \<in> set ?g" by simp
  then have "?g \<noteq> []" by (metis empty_iff empty_set)
  moreover have "distinct ?g" "list_all clean_text ?g"
    using old p by (auto simp: list_all_iff pending_ok_def)
  ultimately have "grants_ok (approved s)"
    unfolding s(5) using ok by (intro grants_ok_update) (auto simp: store_ok_def)
  moreover have "list_all pending_ok (pending_list s)"
    using ok s(6) by (auto simp: store_ok_def list_all_iff)
  ultimately have "store_ok s" by (simp add: store_ok_def)
  with s(1,5) p show ?thesis by blast
qed

lemma granted_write:
  "store_ok s \<Longrightarrow> granted (writeStore a s st) channel x \<longleftrightarrow> x \<in> set (approvedFor s channel)"
  by (simp add: granted_def store_of_write approvedFor_def)

lemma granted_store: "granted st channel x \<longleftrightarrow> x \<in> set (approvedFor (store_of now st) channel)"
  using approved_any_time [of 0 st now] by (simp add: granted_def approvedFor_def)

section \<open>Properties\<close>

text \<open>
  C8. Approving a code grants access to exactly one pairing: afterwards a user in a chat of a
  channel is accepted if and only if it was accepted before, or the channel is the approved
  one and the pairing id, the user id or the chat id is one of those of the approved request.
  An approval that finds no request changes nothing.
\<close>

theorem approve_grants_exactly:
  assumes "state_ok st" and "approvePairingCode now channel code st = (res, st')"
  shows "case res of
      None \<Rightarrow> st' = st
    | Some p \<Rightarrow>
        (isPairingApproved later c u h st' \<longleftrightarrow>
           isPairingApproved later c u h st \<or>
           trim c = trim channel \<and>
           {pairingId (trim c) (trim u) (trim h), trim u, trim h} \<inter> {pp_id p, pp_userId p, pp_chatId p} \<noteq> {})"
proof (cases res)
  case None
  then show ?thesis
    using assms(2) by (auto simp: approvePairingCode_def readStore_pair Let_def split: if_splits option.splits)
next
  case (Some p)
  with assms(2) have "approvePairingCode now channel code st = (Some p, st')" by simp
  from approve_store_ok [OF assms(1) this] obtain a s where s: "st' = writeStore a s st" "store_ok s"
    "approved s = AList.update (trim channel)
       (set_add (set_add (set_add (approvedFor (store_of now st) (trim channel)) (pp_id p)) (pp_userId p)) (pp_chatId p))
       (approved (store_of now st))" by blast
  have "granted st' ch x \<longleftrightarrow> granted st ch x \<or> ch = trim channel \<and> x \<in> {pp_id p, pp_userId p, pp_chatId p}" for ch x
    unfolding s(1) granted_write [OF s(2)] granted_store [of st ch x now]
    using s(3) by (auto simp: approvedFor_def store_simps)
  then show ?thesis unfolding isPairingApproved_granted Some by auto
qed

definition empty_state :: pairing_state where
  "empty_state = \<lparr>pairing_file = None, default_store = DEFAULT_STORE\<rparr>"

definition demo_bytes :: "nat \<Rightarrow> nat list" where
  "demo_bytes k = [0, 1, 2, 3, 4, 5, 6, 7]"

definition demo_paired :: pairing_state where
  "demo_paired = snd (requestPairingCode demo_bytes 5 ''telegram'' ''42'' '' 77 '' empty_state)"

lemma empty_state_ok: "state_ok empty_state"
  by (simp add: state_ok_def empty_state_def DEFAULT_STORE_def store_ok_def)

lemma demo_bytes_nonempty: "demo_bytes j \<noteq> []"
  by (simp add: demo_bytes_def)

theorem approve_grants_exactly_witness:
  "isPairingApproved 9 ''telegram'' ''42'' ''77'' (snd (approvePairingCode 6 ''telegram'' ''abcdefgh'' demo_paired))
   \<and> \<not> isPairingApproved 9 ''telegram'' ''43'' ''78'' (snd (approvePairingCode 6 ''telegram'' ''abcdefgh'' demo_paired))"
proof -
  have nonblank: "trim ''telegram'' \<noteq> []" "trim ''42'' \<noteq> []" "trim '' 77 '' \<noteq> []" by code_simp+
  have ok: "state_ok demo_paired"
    unfolding demo_paired_def
    using request_store_ok [where bytes = demo_bytes and now = 5, OF empty_state_ok demo_bytes_nonempty nonblank] writeStore_ok [OF empty_state_ok] by force
  define p where "p = \<lparr>pp_id = ''telegram:42:77'', pp_channel = ''telegram'', pp_userId = ''42'', pp_chatId = ''77'',
      pp_code = ''ABCDEFGH'', pp_createdAt = Fin 5, pp_lastSeenAt = Fin 5\<rparr>"
  have res: "fst (approvePairingCode 6 ''telegram'' ''abcdefgh'' demo_paired) = Some p" unfolding p_def by code_simp
  then have "approvePairingCode 6 ''telegram'' ''abcdefgh'' demo_paired =
      (Some p, snd (approvePairingCode 6 ''telegram'' ''abcdefgh'' demo_paired))" by (metis prod.collapse)
  note ex = approve_grants_exactly [OF ok this, of 9 "''telegram''"]
  have "trim ''42'' = ''42''" "trim ''77'' = ''77''" "trim ''43'' = ''43''" "trim ''78'' = ''78''"
    "trim ''telegram'' = ''telegram''" by code_simp+
  moreover have "\<not> isPairingApproved 9 ''telegram'' ''43'' ''78'' demo_paired" by code_simp
  ultimately show ?thesis
    using ex [of "''42''" "''77''"] ex [of "''43''" "''78''"] by (simp add: p_def pairingId_def)
qed

lemma request_keeps_grants:
  assumes "state_ok st" and "\<And>j. length (bytes j) = 8"
    and "trim channel \<noteq> []" and "trim userId \<noteq> []" and "trim chatId \<noteq> []"
  shows "state_ok (snd (requestPairingCode bytes now channel userId chatId st))"
    and "granted (snd (requestPairingCode bytes now channel userId chatId st)) ch x \<longleftrightarrow> granted st ch x"
proof -
  have "bytes j \<noteq> []" for j using assms(2) [of j] by auto
  from request_store_ok [where bytes = bytes and now = now, OF assms(1) this assms(3-5)] obtain a s where
    s: "snd (requestPairingCode bytes now channel userId chatId st) = writeStore a s st" "store_ok s"
      "approved s = approved (store_of now st)" by blast
  show "state_ok (snd (requestPairingCode bytes now channel userId chatId st))"
    unfolding s(1) using assms(1) s(2) by (rule writeStore_ok)
  show "granted (snd (requestPairingCode bytes now channel userId chatId st)) ch x \<longleftrightarrow> granted st ch x"
    unfolding s(1) granted_write [OF s(2)] granted_store [of st ch x now] using s(3) by (simp add: approvedFor_def)
qed

text \<open>
  Asking for a code approves nobody: for every channel, user and chat the answer of
  \<open>isPairingApproved\<close> is the same before and after the request.
\<close>

theorem request_approves_nobody:
  assumes "state_ok st" and "\<And>j. length (bytes j) = 8"
    and "trim channel \<noteq> []" and "trim userId \<noteq> []" and "trim chatId \<noteq> []"
  shows "isPairingApproved later c u h (snd (requestPairingCode bytes now channel userId chatId st)) =
    isPairingApproved later c u h st"
  unfolding isPairingApproved_granted request_keeps_grants(2) [OF assms] by simp

theorem request_approves_nobody_witness:
  "isPairingApproved 9 ''telegram'' ''42'' ''77'' demo_paired = isPairingApproved 9 ''telegram'' ''42'' ''77'' empty_state
   \<and> \<not> isPairingApproved 9 ''telegram'' ''42'' ''77'' demo_paired"
proof
  show "isPairingApproved 9 ''telegram'' ''42'' ''77'' demo_paired = isPairingApproved 9 ''telegram'' ''42'' ''77'' empty_state"
    unfolding demo_paired_def by (rule request_approves_nobody [OF empty_state_ok]) (simp add: demo_bytes_def, code_simp+)
  show "\<not> isPairingApproved 9 ''telegram'' ''42'' ''77'' demo_paired" by code_simp
qed

lemma approve_issued_code:
  assumes "state_ok st" and "\<And>j. length (bytes j) = 8"
    and "trim channel \<noteq> []" and "trim userId \<noteq> []" and "trim chatId \<noteq> []"
    and "requestPairingCode bytes now channel userId chatId st = ((code, True), st1)"
    and "j < 64" and "generateCode (bytes j) \<notin> set (map pp_code (pending_list (store_of now st)))"
  shows "length code = 8 \<and> set code \<subseteq> set ALPHABET \<and>
    (\<exists>p st2. approvePairingCode now2 channel code st1 = (Some p, st2)
       \<and> pp_userId p = trim userId \<and> pp_chatId p = trim chatId
       \<and> isPairingApproved now3 channel userId chatId st2)"
proof -
  have nonempty: "bytes j \<noteq> []" for j using assms(2) [of j] by auto
  let ?e = "new_entry bytes now (trim channel) (trim userId) (trim chatId) (store_of now st)"
  let ?s = "(store_of now st)\<lparr>pending_list := pending_list (store_of now st) @ [?e]\<rparr>"
  have req: "code = pp_code ?e" "st1 = writeStore (aliased_of now st) ?s st"
    using assms(6) by (cases rule: request_cases [of channel userId chatId now st bytes]; simp)+
  have e: "pending_ok ?e" using nonempty assms(3-5) by (rule new_entry_ok)
  have ok: "store_ok ?s" using store_of_ok [OF assms(1), of now] e by (simp add: store_ok_def)
  have fresh: "code \<notin> set (map pp_code (pending_list (store_of now st)))"
    unfolding req(1) new_entry_def 
    using pickCode_fresh [of 0 j 64 bytes "map pp_code (pending_list (store_of now st))"] assms(7,8) by simp
  obtain k where k: "code = generateCode (bytes k)" using pickCode_gen unfolding req(1) new_entry_def by fastforce
  have shape: "length code = 8" "set code \<subseteq> set ALPHABET"
    unfolding k using assms(2) [of k] generateCode_chars by (auto simp: generateCode_def)
  have code: "to_upper (trim code) = code" "code \<noteq> []"
    using e unfolding req(1) by (auto simp: pending_ok_def clean_text_def)
  let ?hit = "\<lambda>e. pp_channel e = trim channel \<and> pp_code e = code"
  have fx: "pp_code (fixTimes now2 e) = pp_code e" "pp_channel (fixTimes now2 e) = pp_channel e"
      "pp_userId (fixTimes now2 e) = pp_userId e" "pp_chatId (fixTimes now2 e) = pp_chatId e"
      "pp_id (fixTimes now2 e) = pp_id e" for e
    by (simp_all add: fixTimes_def)
  have pend: "pending_list (store_of now2 st1) = map (fixTimes now2) (pending_list (store_of now st)) @ [fixTimes now2 ?e]"
    unfolding req(2) store_of_write [OF ok] by simp
  have none: "find ?hit (map (fixTimes now2) (pending_list (store_of now st))) = None"
    using fresh by (auto simp: find_None_iff fx)
  have "find ?hit (pending_list (store_of now2 st1)) = Some (fixTimes now2 ?e)"
  proof -
    have last: "find P (xs @ [x]) = Some x" if "find P xs = None" "P x" for P xs and x :: pending_pairing
      using that by (induction xs) (auto split: if_splits)
    have "?hit (fixTimes now2 ?e)" unfolding fx req(1) by (simp add: new_entry_def)
    from last [OF none this] show ?thesis unfolding pend .
  qed
  then obtain st2 where st2: "approvePairingCode now2 channel code st1 = (Some (fixTimes now2 ?e), st2)"
    using assms(3) code by (auto simp: approvePairingCode_def readStore_pair Let_def)
  have "state_ok st1" unfolding req(2) using writeStore_ok [OF assms(1) ok] .
  from approve_store_ok [OF this st2] obtain a s where s: "st2 = writeStore a s st1" "store_ok s"
    "approved s = AList.update (trim channel)
       (set_add (set_add (set_add (approvedFor (store_of now2 st1) (trim channel)) (pp_id (fixTimes now2 ?e)))
         (pp_userId (fixTimes now2 ?e))) (pp_chatId (fixTimes now2 ?e))) (approved (store_of now2 st1))" by blast
  have "granted st2 (trim channel) (trim userId)"
    unfolding s(1) granted_write [OF s(2)] using s(3) by (simp add: approvedFor_def store_simps fx new_entry_def)
  then have "isPairingApproved now3 channel userId chatId st2" unfolding isPairingApproved_granted by blast
  with st2 shape show ?thesis by (simp add: fx) (simp add: new_entry_def)
qed

text \<open>
  A code that was just issued can be approved: when one of the 64 candidates is not in
  use, a request that created a code gives eight characters of the unambiguous alphabet, and
  approving that code on the same channel finds this user's request and makes
  \<open>isPairingApproved\<close> true for the user and chat.
\<close>

theorem issued_code_approves:
  assumes "state_ok st" and "\<And>j. length (bytes j) = 8"
    and "trim channel \<noteq> []" and "trim userId \<noteq> []" and "trim chatId \<noteq> []"
    and "requestPairingCode bytes now channel userId chatId st = ((code, True), st1)"
    and "j < 64" and "generateCode (bytes j) \<notin> set (map pp_code (pending_list (store_of now st)))"
  shows "length code = 8 \<and> set code \<subseteq> set ALPHABET \<and>
    (\<exists>p st2. approvePairingCode now2 channel code st1 = (Some p, st2)
       \<and> pp_userId p = trim userId \<and> pp_chatId p = trim chatId
       \<and> isPairingApproved now3 channel userId chatId st2)"
  using assms by (rule approve_issued_code)

theorem issued_code_approves_witness:
  "\<exists>p st2. approvePairingCode 6 ''telegram'' ''ABCDEFGH'' demo_paired = (Some p, st2)
     \<and> pp_userId p = ''42'' \<and> pp_chatId p = ''77'' \<and> isPairingApproved 7 ''telegram'' ''42'' '' 77 '' st2"
proof -
  have nonblank: "trim ''telegram'' \<noteq> []" "trim ''42'' \<noteq> []" "trim '' 77 '' \<noteq> []" by code_simp+
  have "fst (requestPairingCode demo_bytes 5 ''telegram'' ''42'' '' 77 '' empty_state) = (''ABCDEFGH'', True)" by code_simp
  then have req: "requestPairingCode demo_bytes 5 ''telegram'' ''42'' '' 77 '' empty_state = ((''ABCDEFGH'', True), demo_paired)"
    unfolding demo_paired_def by (metis prod.collapse)
  have fresh: "generateCode (demo_bytes 0) \<notin> set (map pp_code (pending_list (store_of 5 empty_state)))" by code_simp
  have eight: "length (demo_bytes j) = 8" for j by (simp add: demo_bytes_def)
  have "trim ''42'' = ''42''" "trim '' 77 '' = ''77''" by code_simp+
  with issued_code_approves [OF empty_state_ok eight nonblank req _ fresh, of 6 7] show ?thesis by simp
qed

text \<open>
  Deleting the pairing file does not forget a code that was issued when the file was
  missing: the request was also recorded in the module's default store, so after the deletion
  the same code is returned as already pending and can still be approved.
\<close>

theorem deleted_store_keeps_code:
  "let st = demo_paired\<lparr>pairing_file := None\<rparr> in
     fst (requestPairingCode demo_bytes 9 ''telegram'' ''42'' ''77'' st) = (''ABCDEFGH'', False)
     \<and> isPairingApproved 9 ''telegram'' ''42'' ''77'' (snd (approvePairingCode 9 ''telegram'' ''ABCDEFGH'' st))"
  by code_simp

end
