(* ===== verification/Credentials_Vault.thy ===== *)
theory Credentials_Vault
  imports Js_Value "HOL-Library.Char_ord" "HOL-Library.List_Lexorder" "HOL-Library.Countable"
begin

text \<open>
  The credential vault, \<open>src/security/credentials-vault.ts\<close>: service names, the normalisation of a
  decrypted store, the encrypted envelope, the key file, and setting, reading, deleting and
  listing credentials. Code outside the repository is a parameter: \<open>host\<close> is the lower-level
  \<open>new URL(s).hostname\<close> (\<open>None\<close> when the constructor throws), and a \<open>vault_crypto\<close> bundles AES-GCM and the
  base64 text of keys; what is relied on is \<open>crypto_ok\<close>. Plain texts are JSON documents, the initialisation
  vector is an argument. The workspace directory is an absolute path. \<open>mkdir\<close> and \<open>chmod\<close> are not
  modelled, nor are errors of writing. The records are a plain object: a lookup under \<open>constructor\<close> or \<open>__proto__\<close> finds the
  inherited member when there is no record, and storing under \<open>__proto__\<close> sets the prototype of the object, which
  is not written to the file. The lemmas show that a stored credential is read back with all its fields, that other services keep
  theirs, that a vault file that can be read but not opened is never overwritten while one that cannot be read is, and three ways in
  which a credential that was accepted is not found again.
\<close>

section \<open>Service names\<close>

fun squeeze_bad :: "(char \<Rightarrow> bool) \<Rightarrow> bool \<Rightarrow> string \<Rightarrow> string" where
  "squeeze_bad ok inrun [] = []"
| "squeeze_bad ok inrun (c # cs) =
     (if ok c then c # squeeze_bad ok False cs
      else if inrun then squeeze_bad ok True cs else CHR ''-'' # squeeze_bad ok True cs)"

definition service_char :: "char \<Rightarrow> bool" where
  "service_char c \<longleftrightarrow> is_lower c \<or> is_digit c \<or> c \<in> set ''._-''"

definition strip_dashes :: "string \<Rightarrow> string" where
  "strip_dashes s = rev (dropWhile (\<lambda>c. c = CHR ''-'') (rev (dropWhile (\<lambda>c. c = CHR ''-'') s)))"

definition normalizeSetupService :: "(string \<Rightarrow> string option) \<Rightarrow> string \<Rightarrow> string option" where
  "normalizeSetupService host input =
     (let v = to_lower (trim input) in
      if v = [] then None
      else if v = ''email'' \<or> v = ''mail'' then Some ''email''
      else if v \<in> set [''x'', ''x.com'', ''twitter'', ''twitter.com''] then Some ''x.com''
      else
        let candidate = (if str_includes v ''://''
                         then (case host v of Some h \<Rightarrow> to_lower h | None \<Rightarrow> v) else v);
            candidate = (if starts_with candidate ''www.'' then drop 4 candidate else candidate);
            sanitized = strip_dashes (squeeze_bad service_char False candidate)
        in if sanitized = [] \<or> 80 < length sanitized then None else Some sanitized)"

definition inferMailboxServiceCandidatesFromIdentifier :: "string \<Rightarrow> string list" where
  "inferMailboxServiceCandidatesFromIdentifier identifier =
     (let v = to_lower (trim identifier) in
      case last_index_of (CHR ''@'') v of
        None \<Rightarrow> []
      | Some k \<Rightarrow>
          if Suc k = length v then []
          else
            let domain = trim (drop (Suc k) v) in
            if domain = [] then []
            else if domain \<in> set [''gmail.com'', ''googlemail.com''] then [''mail.google.com'', ''email'']
            else if domain \<in> set [''outlook.com'', ''hotmail.com'', ''live.com'', ''msn.com'']
              then [''outlook.office.com'', ''outlook.live.com'', ''email'']
            else if domain = ''yahoo.com'' \<or> ends_with domain ''.yahoo.com'' then [''mail.yahoo.com'', ''email'']
            else if domain \<in> set [''icloud.com'', ''me.com'', ''mac.com''] then [''icloud.com'', ''email'']
            else [''email''])"

section \<open>Records\<close>

datatype auth_mode = Password | PasswordWithMfa | PasswordlessMfaCode

datatype mfa_strategy = UserPrompt | EmailOrUser

record credential =
  cr_service :: string
  cr_identifier :: string
  cr_secret :: string
  cr_authMode :: auth_mode
  cr_websiteUrl :: "string option"
  cr_mfaStrategy :: "mfa_strategy option"
  cr_mfaSourceService :: "string option"
  cr_mfaCode :: "string option"
  cr_createdAt :: int
  cr_updatedAt :: int

type_synonym vault_store = "(string, credential) omap"

text \<open>
  \<open>records[service]\<close> on the plain object: a lookup is truthy also for an inherited member; an assignment to \<open>__proto__\<close> sets the
  prototype, so the record is lost when the store is written. No document that the program writes has an entry of that name, so a
  store that was read from one has the prototype it was created with.
\<close>

definition has_record :: "vault_store \<Rightarrow> string \<Rightarrow> bool" where
  "has_record records service \<longleftrightarrow> map_of records service \<noteq> None \<or> inherited_member service"

definition put_record :: "string \<Rightarrow> credential \<Rightarrow> vault_store \<Rightarrow> vault_store" where
  "put_record service r records = (if service = ''__proto__'' then records else AList.update service r records)"

fun inferFrom ::
  "(string \<Rightarrow> string option) \<Rightarrow> vault_store \<Rightarrow> string \<Rightarrow> string list \<Rightarrow> string option" where
  "inferFrom host records target [] = None"
| "inferFrom host records target (candidate # rest) =
     (case normalizeSetupService host candidate of
        None \<Rightarrow> inferFrom host records target rest
      | Some normalized \<Rightarrow>
          (case map_of records normalized of
             None \<Rightarrow> inferFrom host records target rest
           | Some mailbox \<Rightarrow>
               if to_lower (trim (cr_identifier mailbox)) = target then Some normalized
               else inferFrom host records target rest))"

definition inferMfaSourceServiceFromIdentifier ::
  "(string \<Rightarrow> string option) \<Rightarrow> string \<Rightarrow> vault_store \<Rightarrow> string option" where
  "inferMfaSourceServiceFromIdentifier host identifier records =
     (let target = to_lower (trim identifier) in
      if target = [] then None
      else inferFrom host records target (inferMailboxServiceCandidatesFromIdentifier identifier))"

definition auth_of_text :: "string \<Rightarrow> auth_mode" where
  "auth_of_text t =
     (if t = ''passwordless_mfa_code'' \<or> t = ''passwordless'' then PasswordlessMfaCode
      else if t = ''password_with_mfa'' \<or> t = ''password+mfa'' \<or> t = ''mfa_password'' then PasswordWithMfa
      else Password)"

fun auth_text :: "auth_mode \<Rightarrow> string" where
  "auth_text Password = ''password''"
| "auth_text PasswordWithMfa = ''password_with_mfa''"
| "auth_text PasswordlessMfaCode = ''passwordless_mfa_code''"

fun strategy_text :: "mfa_strategy \<Rightarrow> string" where
  "strategy_text UserPrompt = ''user_prompt''"
| "strategy_text EmailOrUser = ''email_or_user''"

text \<open>\<open>Number.isFinite(n) && n > 0 ? Math.floor(n) : Date.now()\<close>.\<close>

fun stamp :: "int \<Rightarrow> jnum \<Rightarrow> int" where
  "stamp now (Fin q) = (if 0 < q then \<lfloor>q\<rfloor> else now)"
| "stamp now _ = now"

definition nonempty_opt :: "string \<Rightarrow> string option" where
  "nonempty_opt s = (if s = [] then None else Some s)"

definition normalizeEntry :: "(string \<Rightarrow> string option) \<Rightarrow> int \<Rightarrow> string \<Rightarrow> jsv \<Rightarrow> credential option" where
  "normalizeEntry host now serviceKey entry =
     (let service = normalizeSetupService host (to_str (coalesce (jget entry ''service'') (JStr serviceKey)));
          identifier = trim (str_or_empty (jget entry ''identifier''));
          secret = str_or_empty (jget entry ''secret'');
          authMode = auth_of_text (to_lower (trim (str_or_empty (jget entry ''authMode''))));
          websiteUrl = nonempty_opt (trim (str_or_empty (jget entry ''websiteUrl'')));
          mfaStrategy = (if to_lower (trim (str_or_empty (jget entry ''mfaStrategy''))) = ''email_or_user''
                         then EmailOrUser else UserPrompt);
          mfaSourceService = normalizeSetupService host (str_or_empty (jget entry ''mfaSourceService''));
          mfaCode = (case jget entry ''mfaCode'' of JStr s \<Rightarrow> nonempty_opt (trim s) | _ \<Rightarrow> None);
          createdAt = to_num (coalesce (jget entry ''createdAt'') (JNum (Fin (of_int now))));
          updatedAt = to_num (coalesce (jget entry ''updatedAt'') (JNum (Fin (of_int now))))
      in case service of
           None \<Rightarrow> None
         | Some service \<Rightarrow>
             if identifier = [] \<or> trim secret = [] \<and> authMode = Password then None
             else Some \<lparr>cr_service = service, cr_identifier = identifier, cr_secret = secret, cr_authMode = authMode,
                        cr_websiteUrl = websiteUrl,
                        cr_mfaStrategy = (if authMode \<noteq> Password then Some mfaStrategy else None),
                        cr_mfaSourceService = (if authMode \<noteq> Password then mfaSourceService else None),
                        cr_mfaCode = mfaCode,
                        cr_createdAt = stamp now createdAt, cr_updatedAt = stamp now updatedAt\<rparr>)"

fun normalizeEntries ::
  "(string \<Rightarrow> string option) \<Rightarrow> int \<Rightarrow> (string \<times> jsv) list \<Rightarrow> vault_store \<Rightarrow> vault_store" where
  "normalizeEntries host now [] records = records"
| "normalizeEntries host now ((serviceKey, entry) # rest) records =
     (if \<not> is_object entry then normalizeEntries host now rest records
      else (case normalizeEntry host now serviceKey entry of
              None \<Rightarrow> normalizeEntries host now rest records
            | Some r \<Rightarrow> normalizeEntries host now rest (put_record (cr_service r) r records)))"

definition normalizeVaultStore :: "(string \<Rightarrow> string option) \<Rightarrow> int \<Rightarrow> jsv \<Rightarrow> vault_store" where
  "normalizeVaultStore host now raw =
     (if is_object raw \<and> is_object (jget raw ''records'')
      then normalizeEntries host now (obj_entries (jget raw ''records'')) [] else [])"

definition opt_field :: "string \<Rightarrow> string option \<Rightarrow> (string \<times> jsv) list" where
  "opt_field k v = (case v of Some s \<Rightarrow> [(k, JStr s)] | None \<Rightarrow> [])"

definition credential_json :: "credential \<Rightarrow> jsv" where
  "credential_json r =
     JObj ([(''service'', JStr (cr_service r)), (''identifier'', JStr (cr_identifier r)),
            (''secret'', JStr (cr_secret r)), (''authMode'', JStr (auth_text (cr_authMode r)))]
           @ opt_field ''websiteUrl'' (cr_websiteUrl r)
           @ opt_field ''mfaStrategy'' (map_option strategy_text (cr_mfaStrategy r))
           @ opt_field ''mfaSourceService'' (cr_mfaSourceService r)
           @ opt_field ''mfaCode'' (cr_mfaCode r)
           @ [(''createdAt'', JNum (Fin (of_int (cr_createdAt r)))), (''updatedAt'', JNum (Fin (of_int (cr_updatedAt r))))])"

definition vault_json :: "vault_store \<Rightarrow> jsv" where
  "vault_json records =
     JObj [(''version'', JNum (Fin 1)), (''records'', JObj (map (\<lambda>(k, r). (k, credential_json r)) records))]"

section \<open>The encrypted file and the key\<close>

record 'k vault_crypto =
  keyOfText :: "string \<Rightarrow> 'k option"
  textOfKey :: "'k \<Rightarrow> string"
  encrypt :: "'k \<Rightarrow> string \<Rightarrow> jsv \<Rightarrow> string \<times> string"
  decrypt :: "'k \<Rightarrow> string \<Rightarrow> string \<Rightarrow> string \<Rightarrow> jsv option"

text \<open>\<open>Unreadable\<close> is a file whose \<open>readFile\<close> rejects although it can be written, such as one without permission to read.\<close>

datatype vault_file = EmptyFile | JsonFile jsv | BadFile | Unreadable

record vault_state =
  key_file :: "string option"
  vault_files :: "(string, vault_file) omap"

text \<open>The values that change from call to call: clock, fresh key, fresh initialisation vector.\<close>

record 'k vault_env =
  env_now :: int
  env_key :: 'k
  env_iv :: string

definition resolveWorkspaceVaultFile :: "string \<Rightarrow> string" where
  "resolveWorkspaceVaultFile workspaceDir = workspaceDir @ ''/.t560-secure/credentials.v1.enc''"

definition toEnvelope :: "jsv \<Rightarrow> (string \<times> string \<times> string) option" where
  "toEnvelope raw =
     (if \<not> is_object raw \<or> jget raw ''algorithm'' \<noteq> JStr ''aes-256-gcm'' then None
      else
        let version = to_num (coalesce (jget raw ''version'') (JNum (Fin 0)));
            iv = str_or_empty (jget raw ''iv''); tag = str_or_empty (jget raw ''tag'');
            ciphertext = str_or_empty (jget raw ''ciphertext'')
        in if version \<noteq> Fin 1 \<or> iv = [] \<or> tag = [] \<or> ciphertext = [] then None
           else Some (iv, tag, ciphertext))"

definition encryptStore :: "'k vault_crypto \<Rightarrow> string \<Rightarrow> vault_store \<Rightarrow> 'k \<Rightarrow> jsv" where
  "encryptStore cr iv records key =
     (let (tag, ciphertext) = encrypt cr key iv (json_clean (vault_json records)) in
      JObj [(''version'', JNum (Fin 1)), (''algorithm'', JStr ''aes-256-gcm''), (''iv'', JStr iv),
            (''tag'', JStr tag), (''ciphertext'', JStr ciphertext)])"

definition decryptStore ::
  "'k vault_crypto \<Rightarrow> (string \<Rightarrow> string option) \<Rightarrow> int \<Rightarrow> string \<times> string \<times> string \<Rightarrow> 'k \<Rightarrow> vault_store option" where
  "decryptStore cr host now envelope key =
     (case envelope of (iv, tag, ciphertext) \<Rightarrow>
        map_option (normalizeVaultStore host now) (decrypt cr key iv tag ciphertext))"

definition readOrCreateVaultKey ::
  "'k vault_crypto \<Rightarrow> 'k vault_env \<Rightarrow> bool \<Rightarrow> vault_state \<Rightarrow> 'k result \<times> vault_state" where
  "readOrCreateVaultKey cr env allowCreate st =
     (case (case key_file st of Some raw \<Rightarrow> keyOfText cr (trim raw) | None \<Rightarrow> None) of
        Some key \<Rightarrow> (Inr key, st)
      | None \<Rightarrow>
          if \<not> allowCreate then (Inl ''Credential key is missing or invalid'', st)
          else (Inr (env_key env), st\<lparr>key_file := Some (textOfKey cr (env_key env) @ [CHR 0x0A])\<rparr>))"

definition readVaultStore ::
  "'k vault_crypto \<Rightarrow> (string \<Rightarrow> string option) \<Rightarrow> 'k vault_env \<Rightarrow> string \<Rightarrow> vault_state
   \<Rightarrow> ('k \<times> vault_store) result \<times> vault_state" where
  "readVaultStore cr host env workspaceDir st =
     (let payload = (case map_of (vault_files st) (resolveWorkspaceVaultFile workspaceDir) of
                       Some Unreadable \<Rightarrow> None
                     | f \<Rightarrow> f) in
      case readOrCreateVaultKey cr env (payload = None) st of
        (Inl e, st1) \<Rightarrow> (Inl e, st1)
      | (Inr key, st1) \<Rightarrow>
          (case payload of
             None \<Rightarrow> (Inr (key, []), st1)
           | Some Unreadable \<Rightarrow> (Inr (key, []), st1)
           | Some EmptyFile \<Rightarrow> (Inr (key, []), st1)
           | Some BadFile \<Rightarrow> (Inl ''Credential vault file is invalid JSON.'', st1)
           | Some (JsonFile parsed) \<Rightarrow>
               (case toEnvelope parsed of
                  None \<Rightarrow> (Inl ''Credential vault file format is invalid.'', st1)
                | Some envelope \<Rightarrow>
                    (case decryptStore cr host (env_now env) envelope key of
                       None \<Rightarrow> (Inl ''Could not decrypt credential vault. Verify key integrity.'', st1)
                     | Some records \<Rightarrow> (Inr (key, records), st1)))))"

definition writeVaultStore ::
  "'k vault_crypto \<Rightarrow> 'k vault_env \<Rightarrow> string \<Rightarrow> 'k \<Rightarrow> vault_store \<Rightarrow> vault_state \<Rightarrow> vault_state" where
  "writeVaultStore cr env workspaceDir key records st =
     st\<lparr>vault_files := AList.update (resolveWorkspaceVaultFile workspaceDir)
                         (JsonFile (json_clean (encryptStore cr (env_iv env) records key))) (vault_files st)\<rparr>"

section \<open>Operations\<close>

record credential_params =
  cp_service :: string
  cp_identifier :: string
  cp_secret :: string
  cp_authMode :: "auth_mode option"
  cp_websiteUrl :: "string option"
  cp_mfaStrategy :: "mfa_strategy option"
  cp_mfaSourceService :: "string option"
  cp_mfaCode :: "string option"

definition opt_str :: "string option \<Rightarrow> string" where
  "opt_str v = (case v of Some s \<Rightarrow> s | None \<Rightarrow> [])"

definition orElse :: "'a option \<Rightarrow> 'a option \<Rightarrow> 'a option" where
  "orElse a b = (case a of Some _ \<Rightarrow> a | None \<Rightarrow> b)"

text \<open>
  The record \<open>setCredential\<close> stores, from the parameters and the records already there. An inherited member has none of the fields
  that are taken over from an existing record, so it counts as no record here.
\<close>

definition newCredential ::
  "(string \<Rightarrow> string option) \<Rightarrow> int \<Rightarrow> string \<Rightarrow> credential_params \<Rightarrow> vault_store \<Rightarrow> credential" where
  "newCredential host now service params records =
     (let identifier = trim (cp_identifier params);
          authMode = (case cp_authMode params of Some m \<Rightarrow> m | None \<Rightarrow> Password);
          websiteUrl = trim (opt_str (cp_websiteUrl params));
          mfaSourceService = normalizeSetupService host (opt_str (cp_mfaSourceService params));
          rawSecret = cp_secret params;
          secret = (if authMode = Password \<or> authMode = PasswordWithMfa then rawSecret
                    else if trim rawSecret \<noteq> [] then rawSecret else ''__PASSWORDLESS_MFA__'');
          mfaCode = trim (opt_str (cp_mfaCode params));
          existing = map_of records service;
          existingWebsiteUrl = trim (opt_str (Option.bind existing cr_websiteUrl));
          existingMfaSourceService = normalizeSetupService host (opt_str (Option.bind existing cr_mfaSourceService));
          inferred = inferMfaSourceServiceFromIdentifier host identifier records;
          resolvedWebsiteUrl = (if websiteUrl \<noteq> [] then websiteUrl else existingWebsiteUrl);
          resolvedMfaSourceService = orElse mfaSourceService (orElse existingMfaSourceService inferred);
          resolvedMfaStrategy =
            (if authMode = Password then UserPrompt
             else if cp_mfaStrategy params = Some EmailOrUser then EmailOrUser
             else if resolvedMfaSourceService \<noteq> None then EmailOrUser
             else if Option.bind existing cr_mfaStrategy = Some EmailOrUser then EmailOrUser
             else UserPrompt)
      in \<lparr>cr_service = service, cr_identifier = identifier, cr_secret = secret, cr_authMode = authMode,
          cr_websiteUrl = nonempty_opt resolvedWebsiteUrl,
          cr_mfaStrategy = (if authMode \<noteq> Password then Some resolvedMfaStrategy else None),
          cr_mfaSourceService = (if authMode \<noteq> Password then resolvedMfaSourceService else None),
          cr_mfaCode = nonempty_opt mfaCode,
          cr_createdAt = (case existing of Some r \<Rightarrow> cr_createdAt r | None \<Rightarrow> now),
          cr_updatedAt = now\<rparr>)"

definition setCredential ::
  "'k vault_crypto \<Rightarrow> (string \<Rightarrow> string option) \<Rightarrow> 'k vault_env \<Rightarrow> string \<Rightarrow> credential_params \<Rightarrow> vault_state
   \<Rightarrow> (string \<times> bool) result \<times> vault_state" where
  "setCredential cr host env workspaceDir params st =
     (case normalizeSetupService host (cp_service params) of
        None \<Rightarrow> (Inl ''Unsupported setup service.'', st)
      | Some service \<Rightarrow>
          if trim (cp_identifier params) = [] then (Inl ''Identifier is required.'', st)
          else if cp_authMode params \<noteq> Some PasswordlessMfaCode \<and> cp_secret params = []
            then (Inl ''Secret is required.'', st)
          else (case readVaultStore cr host env workspaceDir st of
                  (Inl e, st1) \<Rightarrow> (Inl e, st1)
                | (Inr (key, records), st1) \<Rightarrow>
                    (Inr (service, \<not> has_record records service),
                     writeVaultStore cr env workspaceDir key
                       (put_record service (newCredential host (env_now env) service params records) records) st1)))"

text \<open>
  What a lookup returns: nothing, a copy of the record, or, for an inherited member, an object whose fields are all undefined.
\<close>

datatype found_credential = NoCredential | Credential credential | BlankCredential

definition find_record :: "vault_store \<Rightarrow> string \<Rightarrow> found_credential" where
  "find_record records service =
     (case map_of records service of
        Some r \<Rightarrow> Credential r
      | None \<Rightarrow> if inherited_member service then BlankCredential else NoCredential)"

definition getCredential ::
  "'k vault_crypto \<Rightarrow> (string \<Rightarrow> string option) \<Rightarrow> 'k vault_env \<Rightarrow> string \<Rightarrow> string \<Rightarrow> vault_state
   \<Rightarrow> found_credential result \<times> vault_state" where
  "getCredential cr host env workspaceDir service st =
     (case normalizeSetupService host service of
        None \<Rightarrow> (Inr NoCredential, st)
      | Some service \<Rightarrow>
          (case readVaultStore cr host env workspaceDir st of
             (Inl e, st1) \<Rightarrow> (Inl e, st1)
           | (Inr (key, records), st1) \<Rightarrow> (Inr (find_record records service), st1)))"

definition deleteCredential ::
  "'k vault_crypto \<Rightarrow> (string \<Rightarrow> string option) \<Rightarrow> 'k vault_env \<Rightarrow> string \<Rightarrow> string \<Rightarrow> vault_state
   \<Rightarrow> bool result \<times> vault_state" where
  "deleteCredential cr host env workspaceDir service st =
     (case normalizeSetupService host service of
        None \<Rightarrow> (Inr False, st)
      | Some service \<Rightarrow>
          (case readVaultStore cr host env workspaceDir st of
             (Inl e, st1) \<Rightarrow> (Inl e, st1)
           | (Inr (key, records), st1) \<Rightarrow>
               if \<not> has_record records service then (Inr False, st1)
               else (Inr True, writeVaultStore cr env workspaceDir key (AList.delete service records) st1)))"

definition listConfiguredServices ::
  "'k vault_crypto \<Rightarrow> (string \<Rightarrow> string option) \<Rightarrow> 'k vault_env \<Rightarrow> string \<Rightarrow> vault_state
   \<Rightarrow> string list result \<times> vault_state" where
  "listConfiguredServices cr host env workspaceDir st =
     (case readVaultStore cr host env workspaceDir st of
        (Inl e, st1) \<Rightarrow> (Inl e, st1)
      | (Inr (key, records), st1) \<Rightarrow>
          (Inr (sort (List.map_filter (\<lambda>k. normalizeSetupService host k) (map fst records))), st1))"

section \<open>What the cryptography promises\<close>

definition crypto_ok :: "'k vault_crypto \<Rightarrow> bool" where
  "crypto_ok cr \<longleftrightarrow>
     (\<forall>k iv p. fst (encrypt cr k iv p) \<noteq> [] \<and> snd (encrypt cr k iv p) \<noteq> []
        \<and> decrypt cr k iv (fst (encrypt cr k iv p)) (snd (encrypt cr k iv p)) = Some p)
     \<and> (\<forall>k. keyOfText cr (trim (textOfKey cr k @ [CHR 0x0A])) = Some k)"

instance jnum :: countable by countable_datatype

instance jsv :: countable by countable_datatype

definition demo_crypto :: "unit vault_crypto" where
  "demo_crypto = \<lparr>keyOfText = (\<lambda>_. Some ()), textOfKey = (\<lambda>_. ''k''),
     encrypt = (\<lambda>_ _ p. (''t'', nat_to_string (to_nat p))),
     decrypt = (\<lambda>_ _ _ c. Some (from_nat (string_to_nat c)))\<rparr>"

lemma demo_crypto_ok: "crypto_ok demo_crypto"
  by (simp add: crypto_ok_def demo_crypto_def)

section \<open>Service names are safe\<close>

lemma squeeze_bad_chars: "c \<in> set (squeeze_bad ok b s) \<Longrightarrow> ok c \<or> c = CHR ''-''"
  by (induction ok b s rule: squeeze_bad.induct) (auto split: if_splits)

lemma set_strip_dashes: "set (strip_dashes s) \<subseteq> set s"
  unfolding strip_dashes_def by (auto dest!: set_dropWhileD)

lemma service_char_dash: "service_char (CHR ''-'')"
  by (simp add: service_char_def)

lemma normalizeSetupService_chars:
  assumes "normalizeSetupService host input = Some s"
  shows "s \<noteq> [] \<and> length s \<le> 80 \<and> list_all service_char s"
proof -
  have fixed: "list_all service_char ''email''" "list_all service_char ''x.com''" by code_simp+
  have "list_all service_char (strip_dashes (squeeze_bad service_char False c))" for c
    using set_strip_dashes squeeze_bad_chars service_char_dash unfolding list_all_iff by blast
  with assms fixed show ?thesis
    by (auto simp: normalizeSetupService_def Let_def split: if_splits)
qed

lemma normalizeSetupService_Nil [simp]: "normalizeSetupService host [] = None"
  by (simp add: normalizeSetupService_def)

section \<open>Reading back a stored record\<close>

definition stable :: "(string \<Rightarrow> string option) \<Rightarrow> string \<Rightarrow> bool" where
  "stable host s \<longleftrightarrow> normalizeSetupService host s = Some s"

definition clean_opt :: "string option \<Rightarrow> bool" where
  "clean_opt v \<longleftrightarrow> (case v of Some s \<Rightarrow> s \<noteq> [] \<and> trim s = s | None \<Rightarrow> True)"

definition credential_ok :: "credential \<Rightarrow> bool" where
  "credential_ok r \<longleftrightarrow>
     cr_identifier r \<noteq> [] \<and> trim (cr_identifier r) = cr_identifier r
     \<and> clean_opt (cr_websiteUrl r) \<and> clean_opt (cr_mfaCode r)
     \<and> (cr_authMode r = Password \<longleftrightarrow> cr_mfaStrategy r = None)
     \<and> (cr_authMode r = Password \<longrightarrow> cr_mfaSourceService r = None)"

definition fix_stamp :: "int \<Rightarrow> int \<Rightarrow> int" where
  "fix_stamp now t = (if 0 < t then t else now)"

text \<open>What a record becomes when it is written and read: the two service names are normalised again.\<close>

definition reread :: "(string \<Rightarrow> string option) \<Rightarrow> int \<Rightarrow> credential \<Rightarrow> credential option" where
  "reread host now r =
     (if trim (cr_secret r) = [] \<and> cr_authMode r = Password then None
      else map_option (\<lambda>s. r\<lparr>cr_service := s,
             cr_mfaSourceService := Option.bind (cr_mfaSourceService r) (normalizeSetupService host),
             cr_createdAt := fix_stamp now (cr_createdAt r), cr_updatedAt := fix_stamp now (cr_updatedAt r)\<rparr>)
           (normalizeSetupService host (cr_service r)))"

lemma auth_round: "auth_of_text (to_lower (trim (auth_text m))) = m"
proof (cases m)
  case Password
  show ?thesis unfolding Password by code_simp
next
  case PasswordWithMfa
  show ?thesis unfolding PasswordWithMfa by code_simp
next
  case PasswordlessMfaCode
  show ?thesis unfolding PasswordlessMfaCode by code_simp
qed

lemma strategy_round: "(if to_lower (trim (strategy_text m)) = ''email_or_user'' then EmailOrUser else UserPrompt) = m"
proof (cases m)
  case UserPrompt
  show ?thesis unfolding UserPrompt by code_simp
next
  case EmailOrUser
  show ?thesis unfolding EmailOrUser by code_simp
qed

lemma stamp_of_int: "stamp now (Fin (of_int t)) = fix_stamp now t"
  by (simp add: fix_stamp_def)

lemma credential_json_clean: "json_clean (credential_json r) = credential_json r"
  by (auto simp: credential_json_def opt_field_def split: option.splits)

lemma credential_json_fields:
  "is_object (credential_json r)"
  "jget (credential_json r) ''service'' = JStr (cr_service r)"
  "jget (credential_json r) ''identifier'' = JStr (cr_identifier r)"
  "jget (credential_json r) ''secret'' = JStr (cr_secret r)"
  "jget (credential_json r) ''authMode'' = JStr (auth_text (cr_authMode r))"
  "jget (credential_json r) ''websiteUrl'' = (case cr_websiteUrl r of Some s \<Rightarrow> JStr s | None \<Rightarrow> JUndef)"
  "jget (credential_json r) ''mfaStrategy'' = (case cr_mfaStrategy r of Some s \<Rightarrow> JStr (strategy_text s) | None \<Rightarrow> JUndef)"
  "jget (credential_json r) ''mfaSourceService'' = (case cr_mfaSourceService r of Some s \<Rightarrow> JStr s | None \<Rightarrow> JUndef)"
  "jget (credential_json r) ''mfaCode'' = (case cr_mfaCode r of Some s \<Rightarrow> JStr s | None \<Rightarrow> JUndef)"
  "jget (credential_json r) ''createdAt'' = JNum (Fin (of_int (cr_createdAt r)))"
  "jget (credential_json r) ''updatedAt'' = JNum (Fin (of_int (cr_updatedAt r)))"
  by (simp_all add: credential_json_def opt_field_def split: option.splits)

lemma nonempty_opt_clean: "clean_opt v \<Longrightarrow> nonempty_opt (trim (str_or_empty (case v of Some s \<Rightarrow> JStr s | None \<Rightarrow> JUndef))) = v"
  by (auto simp: clean_opt_def nonempty_opt_def split: option.splits)

lemma nonempty_opt_code:
  "clean_opt v \<Longrightarrow> (case (case v of Some s \<Rightarrow> JStr s | None \<Rightarrow> JUndef) of JStr s \<Rightarrow> nonempty_opt (trim s) | _ \<Rightarrow> None) = v"
  by (auto simp: clean_opt_def nonempty_opt_def split: option.splits)

lemma normalizeEntry_back:
  assumes "credential_ok r"
  shows "normalizeEntry host now k (credential_json r) = reread host now r"
proof -
  have id: "trim (cr_identifier r) = cr_identifier r" "cr_identifier r \<noteq> []"
    using assms by (auto simp: credential_ok_def)
  have src: "normalizeSetupService host (str_or_empty (case cr_mfaSourceService r of Some s \<Rightarrow> JStr s | None \<Rightarrow> JUndef)) =
      Option.bind (cr_mfaSourceService r) (normalizeSetupService host)"
    by (simp split: option.splits)
  have strat: "(if cr_authMode r \<noteq> Password then
      Some (if to_lower (trim (str_or_empty (case cr_mfaStrategy r of Some s \<Rightarrow> JStr (strategy_text s) | None \<Rightarrow> JUndef))) = ''email_or_user''
            then EmailOrUser else UserPrompt) else None) = cr_mfaStrategy r"
    using assms strategy_round by (cases "cr_mfaStrategy r") (auto simp: credential_ok_def)
  have src2: "(if cr_authMode r \<noteq> Password then Option.bind (cr_mfaSourceService r) (normalizeSetupService host) else None) =
      Option.bind (cr_mfaSourceService r) (normalizeSetupService host)"
    using assms by (auto simp: credential_ok_def)
  have web: "nonempty_opt (trim (str_or_empty (case cr_websiteUrl r of Some s \<Rightarrow> JStr s | None \<Rightarrow> JUndef))) = cr_websiteUrl r"
    and code: "(case (case cr_mfaCode r of Some s \<Rightarrow> JStr s | None \<Rightarrow> JUndef) of JStr s \<Rightarrow> nonempty_opt (trim s) | _ \<Rightarrow> None) = cr_mfaCode r"
    using assms nonempty_opt_clean nonempty_opt_code by (auto simp: credential_ok_def)
  have co: "coalesce (JStr x) d = JStr x" "coalesce (JNum n) d = JNum n" for x d n by (simp_all add: coalesce_def)
  show ?thesis
    unfolding normalizeEntry_def credential_json_fields Let_def co id(1) auth_round src strat src2 web code str_or_empty_JStr
      to_str.simps to_num.simps stamp_of_int
    using id(2) by (auto simp: reread_def intro!: credential.equality split: option.split)
qed


text \<open>The records of a store, as their re-reading leaves them.\<close>

fun reread_all :: "(string \<Rightarrow> string option) \<Rightarrow> int \<Rightarrow> vault_store \<Rightarrow> vault_store \<Rightarrow> vault_store" where
  "reread_all host now [] acc = acc"
| "reread_all host now ((k, r) # rest) acc =
     reread_all host now rest (case reread host now r of None \<Rightarrow> acc | Some r' \<Rightarrow> put_record (cr_service r') r' acc)"

lemma normalizeEntries_back:
  "list_all (\<lambda>(k, r). credential_ok r) records \<Longrightarrow>
   normalizeEntries host now (map (\<lambda>(k, r). (k, credential_json r)) records) acc = reread_all host now records acc"
  by (induction host now records acc rule: reread_all.induct)
    (auto simp: normalizeEntry_back credential_json_fields split: option.split)

lemma vault_json_clean: "json_clean (vault_json records) = vault_json records"
proof -
  have undef: "credential_json r \<noteq> JUndef" for r by (simp add: credential_json_def)
  have "map (\<lambda>(k, v). (k, json_clean v)) (map (\<lambda>(k, r). (k, credential_json r)) records) =
      map (\<lambda>(k, r). (k, credential_json r)) records"
    by (induction records) (auto simp: credential_json_clean)
  moreover have "filter (\<lambda>(k, v). v \<noteq> JUndef) (map (\<lambda>(k, r). (k, credential_json r)) records) =
      map (\<lambda>(k, r). (k, credential_json r)) records"
    by (induction records) (auto simp: undef)
  ultimately have "json_clean (JObj (map (\<lambda>(k, r). (k, credential_json r)) records)) =
      JObj (map (\<lambda>(k, r). (k, credential_json r)) records)" by (simp only: json_clean.simps)
  then show ?thesis by (simp add: vault_json_def)
qed

lemma normalizeVaultStore_back:
  "list_all (\<lambda>(k, r). credential_ok r) records \<Longrightarrow>
   normalizeVaultStore host now (json_clean (vault_json records)) = reread_all host now records []"
  unfolding vault_json_clean by (simp add: normalizeVaultStore_def vault_json_def normalizeEntries_back)

lemma clean_nonempty [simp]: "clean_opt (nonempty_opt (trim x))"
  by (simp add: clean_opt_def nonempty_opt_def)

lemma clean_code [simp]: "clean_opt (case v of JStr s \<Rightarrow> nonempty_opt (trim s) | _ \<Rightarrow> None)"
  by (cases v) (simp_all, simp_all add: clean_opt_def)

lemma normalizeEntry_ok:
  assumes "normalizeEntry host now k e = Some r"
  shows "credential_ok r"
proof -
  obtain service where "normalizeSetupService host (to_str (coalesce (jget e ''service'') (JStr k))) = Some service"
    using assms by (fastforce simp: normalizeEntry_def Let_def split: option.splits)
  with assms show ?thesis
    unfolding normalizeEntry_def Let_def credential_ok_def by (simp split: if_splits) force+
qed

lemma normalizeEntry_secret: "normalizeEntry host now k e = Some r \<Longrightarrow> cr_authMode r = Password \<longrightarrow> trim (cr_secret r) \<noteq> []"
  by (auto simp: normalizeEntry_def Let_def split: option.splits if_splits)

definition store_sound :: "vault_store \<Rightarrow> bool" where
  "store_sound records \<longleftrightarrow> omap_invar records \<and>
     list_all (\<lambda>(k, r). k = cr_service r \<and> k \<noteq> ''__proto__'' \<and> credential_ok r \<and> (cr_authMode r = Password \<longrightarrow> trim (cr_secret r) \<noteq> [])) records"

lemma store_sound_proto: "store_sound records \<Longrightarrow> map_of records ''__proto__'' = None"
  by (auto simp: store_sound_def list_all_iff map_of_eq_None_iff)

lemma store_sound_update:
  assumes "store_sound records" "credential_ok r" "cr_authMode r = Password \<longrightarrow> trim (cr_secret r) \<noteq> []"
  shows "store_sound (put_record (cr_service r) r records)"
  using assms by (auto simp: store_sound_def put_record_def store_simps intro!: list_all_update)


lemma normalizeEntries_sound: "store_sound acc \<Longrightarrow> store_sound (normalizeEntries host now fs acc)"
  by (induction host now fs acc rule: normalizeEntries.induct)
    (auto split: option.splits intro: store_sound_update normalizeEntry_ok dest: normalizeEntry_secret)

lemma store_sound_Nil [simp]: "store_sound []"
  by (simp add: store_sound_def store_simps)

lemma normalizeVaultStore_sound: "store_sound (normalizeVaultStore host now raw)"
  by (simp add: normalizeVaultStore_def normalizeEntries_sound)

definition all_stable :: "(string \<Rightarrow> string option) \<Rightarrow> vault_store \<Rightarrow> bool" where
  "all_stable host records \<longleftrightarrow> list_all (\<lambda>(k, r). stable host k) records"

lemma reread_service: "stable host (cr_service r) \<Longrightarrow> reread host now r = Some r' \<Longrightarrow> cr_service r' = cr_service r"
  by (auto simp: reread_def stable_def split: if_splits)

lemma reread_all_get:
  assumes "list_all (\<lambda>(k, r). k = cr_service r \<and> k \<noteq> ''__proto__'' \<and> stable host k) records" "distinct (map fst records)"
  shows "map_of (reread_all host now records acc) t =
    (case Option.bind (map_of records t) (reread host now) of None \<Rightarrow> map_of acc t | Some r \<Rightarrow> Some r)"
  using assms
proof (induction records arbitrary: acc)
  case (Cons kr records)
  obtain k r where kr: "kr = (k, r)" by (cases kr)
  have k: "k = cr_service r" "stable host k" "k \<notin> fst ` set records" "k \<noteq> ''__proto__''" using Cons.prems by (auto simp: kr)
  have none: "map_of records k = None" using k(3) by (simp add: map_of_eq_None_iff)
  define acc' where "acc' = (case reread host now r of None \<Rightarrow> acc | Some r' \<Rightarrow> put_record (cr_service r') r' acc)"
  have acc': "map_of acc' t = (if t = k then (case reread host now r of None \<Rightarrow> map_of acc k | Some r' \<Rightarrow> Some r') else map_of acc t)"
  proof (cases "reread host now r")
    case (Some r')
    then have "cr_service r' = k" using reread_service k by auto
    with Some k(4) show ?thesis by (simp add: acc'_def put_record_def store_simps)
  qed (simp add: acc'_def)
  have "map_of (reread_all host now (kr # records) acc) t = map_of (reread_all host now records acc') t"
    by (simp add: kr acc'_def)
  also have "\<dots> = (case Option.bind (map_of records t) (reread host now) of None \<Rightarrow> map_of acc' t | Some r \<Rightarrow> Some r)"
    using Cons.prems by (intro Cons.IH) auto
  finally show ?case using none acc' by (cases "t = k") (simp_all add: kr split: option.split)
qed simp

section \<open>Reading what was written\<close>

lemma envelope_back:
  assumes "crypto_ok cr" "iv \<noteq> []"
  shows "toEnvelope (json_clean (encryptStore cr iv records key)) =
    Some (iv, fst (encrypt cr key iv (json_clean (vault_json records))), snd (encrypt cr key iv (json_clean (vault_json records))))"
proof -
  obtain t c where tc: "encrypt cr key iv (json_clean (vault_json records)) = (t, c)" by fastforce
  then have "t \<noteq> []" "c \<noteq> []" using assms(1) unfolding crypto_ok_def by (metis fst_conv, metis snd_conv)
  with tc assms(2) show ?thesis by (simp add: encryptStore_def toEnvelope_def coalesce_def)
qed

definition key_at :: "'k vault_crypto \<Rightarrow> vault_state \<Rightarrow> 'k option" where
  "key_at cr st = (case key_file st of Some raw \<Rightarrow> keyOfText cr (trim raw) | None \<Rightarrow> None)"

lemma readVaultStore_key:
  assumes "crypto_ok cr" "readVaultStore cr host env dir st = (Inr (key, records), st1)"
  shows "key_at cr st1 = Some key \<and> vault_files st1 = vault_files st \<and> store_sound records"
  using assms normalizeVaultStore_sound
  by (auto simp: readVaultStore_def readOrCreateVaultKey_def key_at_def crypto_ok_def decryptStore_def Let_def
      split: option.splits if_splits sum.splits prod.splits vault_file.splits)

lemma readVaultStore_error: "readVaultStore cr host env dir st = (Inl e, st1) \<Longrightarrow> st1 = st"
  by (auto simp: readVaultStore_def readOrCreateVaultKey_def Let_def
      split: option.splits if_splits sum.splits prod.splits vault_file.splits)

lemma read_after_write:
  assumes "crypto_ok cr" "env_iv env \<noteq> []" "key_at cr st = Some key" "list_all (\<lambda>(k, r). credential_ok r) records"
  shows "readVaultStore cr host env2 dir (writeVaultStore cr env dir key records st) =
    (Inr (key, reread_all host (env_now env2) records []), writeVaultStore cr env dir key records st)"
proof -
  let ?st = "writeVaultStore cr env dir key records st"
  let ?p = "json_clean (vault_json records)"
  obtain t c where tc: "encrypt cr key (env_iv env) ?p = (t, c)" by fastforce
  have at: "map_of (vault_files ?st) (resolveWorkspaceVaultFile dir) =
      Some (JsonFile (json_clean (encryptStore cr (env_iv env) records key)))"
    by (simp add: writeVaultStore_def store_simps)
  have key: "readOrCreateVaultKey cr env2 False ?st = (Inr key, ?st)"
    using assms(3) by (simp add: readOrCreateVaultKey_def key_at_def writeVaultStore_def split: option.splits)
  have "decrypt cr key (env_iv env) t c = Some ?p"
    using assms(1) tc unfolding crypto_ok_def by (metis fst_conv snd_conv)
  then have "decryptStore cr host (env_now env2) (env_iv env, t, c) key = Some (reread_all host (env_now env2) records [])"
    using normalizeVaultStore_back [OF assms(4), of host "env_now env2"] by (simp add: decryptStore_def)
  moreover have "toEnvelope (json_clean (encryptStore cr (env_iv env) records key)) = Some (env_iv env, t, c)"
    using envelope_back [OF assms(1,2), of records key] tc by simp
  ultimately show ?thesis
    unfolding readVaultStore_def at using key by simp
qed

lemma newCredential_ok: "trim (cp_identifier params) \<noteq> [] \<Longrightarrow> credential_ok (newCredential host now service params records)"
  by (simp add: newCredential_def Let_def credential_ok_def)

lemma newCredential_fields [simp]:
  "cr_service (newCredential host now service params records) = service"
  "cr_identifier (newCredential host now service params records) = trim (cp_identifier params)"
  "cr_authMode (newCredential host now service params records) = (case cp_authMode params of Some m \<Rightarrow> m | None \<Rightarrow> Password)"
  "cr_secret (newCredential host now service params records) =
     (if cp_authMode params = Some PasswordlessMfaCode \<and> trim (cp_secret params) = [] then ''__PASSWORDLESS_MFA__'' else cp_secret params)"
  by (auto simp: newCredential_def Let_def split: option.splits) (metis auth_mode.exhaust)+


definition login :: "credential \<Rightarrow> string \<times> string \<times> auth_mode" where
  "login r = (cr_identifier r, cr_secret r, cr_authMode r)"

lemma reread_login: "reread host now r = Some r' \<Longrightarrow> login r' = login r"
  by (auto simp: reread_def login_def split: if_splits)

lemma reread_Some:
  assumes "stable host (cr_service r)" "cr_authMode r = Password \<longrightarrow> trim (cr_secret r) \<noteq> []"
  shows "\<exists>r'. reread host now r = Some r' \<and> login r' = login r"
  using assms by (auto simp: reread_def stable_def login_def)

text \<open>The answer of a lookup, from the record under the name, and the record in an answer.\<close>

definition found_or_blank :: "string \<Rightarrow> credential option \<Rightarrow> found_credential" where
  "found_or_blank s v =
     (case v of Some r \<Rightarrow> Credential r | None \<Rightarrow> if inherited_member s then BlankCredential else NoCredential)"

lemma find_record_alt: "find_record records s = found_or_blank s (map_of records s)"
  by (simp add: find_record_def found_or_blank_def)

fun credential_of :: "found_credential \<Rightarrow> credential option" where
  "credential_of (Credential r) = Some r"
| "credential_of _ = None"

lemma credential_of_found [simp]: "credential_of (found_or_blank s v) = v"
  by (simp add: found_or_blank_def split: option.split)

lemma found_Some [simp]: "found_or_blank s (Some r) = Credential r"
  by (simp add: found_or_blank_def)

text \<open>What the vault holds after a write, seen through a later read.\<close>

lemma get_after_write:
  assumes "crypto_ok cr" "env_iv env \<noteq> []" "key_at cr st = Some key" "omap_invar records"
    and "list_all (\<lambda>(k, r). k = cr_service r \<and> k \<noteq> ''__proto__'' \<and> stable host k \<and> credential_ok r) records"
    and "normalizeSetupService host input = Some t"
  shows "getCredential cr host env2 dir input (writeVaultStore cr env dir key records st) =
    (Inr (found_or_blank t (Option.bind (map_of records t) (reread host (env_now env2)))), writeVaultStore cr env dir key records st)"
proof -
  have "list_all (\<lambda>(k, r). credential_ok r) records" "list_all (\<lambda>(k, r). k = cr_service r \<and> k \<noteq> ''__proto__'' \<and> stable host k) records"
    using assms(5) by (auto simp: list_all_iff)
  then show ?thesis
    using read_after_write [OF assms(1-3), of records host env2 dir] assms(4,6)
    by (simp add: getCredential_def find_record_alt reread_all_get omap_invar_def split: option.split)
qed

lemma stable_update:
  assumes "store_sound records" "all_stable host records" "stable host s" "s \<noteq> ''__proto__''" "credential_ok r" "cr_service r = s"
  shows "list_all (\<lambda>(k, r). k = cr_service r \<and> k \<noteq> ''__proto__'' \<and> stable host k \<and> credential_ok r) (AList.update s r records)"
  using assms by (intro list_all_update) (auto simp: store_sound_def all_stable_def list_all_iff)

lemma login_kept:
  assumes "store_sound records" "all_stable host records"
  shows "map_option login (Option.bind (map_of records t) (reread host now)) = map_option login (map_of records t)"
proof (cases "map_of records t")
  case (Some r)
  then have "(t, r) \<in> set records" by (rule map_of_SomeD)
  then have "stable host (cr_service r)" "cr_authMode r = Password \<longrightarrow> trim (cr_secret r) \<noteq> []"
    using assms by (auto simp: store_sound_def all_stable_def list_all_iff)
  from reread_Some [OF this] Some show ?thesis by fastforce
qed simp

section \<open>Properties\<close>

lemma reread_fields:
  assumes "reread host now r = Some r'"
  shows "normalizeSetupService host (cr_service r) = Some (cr_service r')" "cr_websiteUrl r' = cr_websiteUrl r" "cr_mfaCode r' = cr_mfaCode r"
    "cr_mfaStrategy r' = cr_mfaStrategy r" "cr_mfaSourceService r' = Option.bind (cr_mfaSourceService r) (normalizeSetupService host)"
    "cr_createdAt r' = fix_stamp now (cr_createdAt r)" "cr_updatedAt r' = fix_stamp now (cr_updatedAt r)"
  using assms by (auto simp: reread_def split: if_splits)

lemma newCredential_website:
  assumes "store_sound records"
  shows "cr_websiteUrl (newCredential host now s params records) =
    orElse (nonempty_opt (trim (opt_str (cp_websiteUrl params)))) (Option.bind (map_of records s) cr_websiteUrl)"
proof -
  have "nonempty_opt (trim (opt_str (Option.bind (map_of records s) cr_websiteUrl))) = Option.bind (map_of records s) cr_websiteUrl"
  proof (cases "map_of records s")
    case (Some r)
    then have "clean_opt (cr_websiteUrl r)"
      using assms map_of_SomeD [OF Some] by (auto simp: store_sound_def list_all_iff credential_ok_def)
    then show ?thesis by (auto simp: Some clean_opt_def nonempty_opt_def opt_str_def split: option.splits)
  qed (simp add: nonempty_opt_def opt_str_def)
  then show ?thesis by (simp add: newCredential_def Let_def orElse_def) (simp add: nonempty_opt_def)
qed

lemma newCredential_mfa:
  fixes params :: credential_params
  defines "m \<equiv> (case cp_authMode params of Some m \<Rightarrow> m | None \<Rightarrow> Password)"
  shows "cr_mfaCode (newCredential host now s params records) = nonempty_opt (trim (opt_str (cp_mfaCode params)))"
    "cr_mfaStrategy (newCredential host now s params records) = None \<longleftrightarrow> m = Password"
    "m \<noteq> Password \<Longrightarrow> cp_mfaStrategy params = Some EmailOrUser \<Longrightarrow> cr_mfaStrategy (newCredential host now s params records) = Some EmailOrUser"
    "m = Password \<Longrightarrow> cr_mfaSourceService (newCredential host now s params records) = None"
    "m \<noteq> Password \<Longrightarrow> normalizeSetupService host (opt_str (cp_mfaSourceService params)) = Some src \<Longrightarrow>
     cr_mfaSourceService (newCredential host now s params records) = Some src \<and> cr_mfaStrategy (newCredential host now s params records) = Some EmailOrUser"
  by (simp_all add: newCredential_def Let_def m_def orElse_def)

lemma newCredential_times:
  "cr_createdAt (newCredential host now s params records) = (case map_of records s of Some r \<Rightarrow> cr_createdAt r | None \<Rightarrow> now)"
  "cr_updatedAt (newCredential host now s params records) = now"
  by (simp_all add: newCredential_def Let_def)


definition no_url :: "string \<Rightarrow> string option" where
  "no_url s = None"

definition demo_env :: "unit vault_env" where
  "demo_env = \<lparr>env_now = 5, env_key = (), env_iv = ''iv''\<rparr>"

definition empty_vault :: vault_state where
  "empty_vault = \<lparr>key_file = None, vault_files = []\<rparr>"

definition demo_params :: "string \<Rightarrow> string \<Rightarrow> credential_params" where
  "demo_params service secret = \<lparr>cp_service = service, cp_identifier = '' me@a.org '', cp_secret = secret,
     cp_authMode = None, cp_websiteUrl = None, cp_mfaStrategy = None, cp_mfaSourceService = None, cp_mfaCode = None\<rparr>"

lemma read_empty_vault:
  "readVaultStore cr host env dir empty_vault =
     (Inr (env_key env, []), empty_vault\<lparr>key_file := Some (textOfKey cr (env_key env) @ [CHR 0x0A])\<rparr>)"
  by (simp add: readVaultStore_def readOrCreateVaultKey_def empty_vault_def)

lemma set_empty_vault:
  assumes "normalizeSetupService host service = Some s" "secret \<noteq> []" "\<not> inherited_member s"
  shows "setCredential cr host env dir (demo_params service secret) empty_vault =
    (Inr (s, True), writeVaultStore cr env dir (env_key env)
       [(s, newCredential host (env_now env) s (demo_params service secret) [])]
       (empty_vault\<lparr>key_file := Some (textOfKey cr (env_key env) @ [CHR 0x0A])\<rparr>))"
proof -
  have "trim '' me@a.org '' \<noteq> []" by code_simp
  with assms show ?thesis
    unfolding setCredential_def read_empty_vault
    by (simp add: demo_params_def put_record_def has_record_def inherited_member_def)
qed

lemma key_of_new: "crypto_ok cr \<Longrightarrow> key_at cr (st\<lparr>key_file := Some (textOfKey cr k @ [CHR 0x0A])\<rparr>) = Some k"
  by (simp add: key_at_def crypto_ok_def)

lemma read_after_set_empty:
  assumes "crypto_ok cr" "env_iv env \<noteq> []" "normalizeSetupService host v = Some s" "w \<noteq> []" "\<not> inherited_member s"
  shows "readVaultStore cr host env2 dir (snd (setCredential cr host env dir (demo_params v w) empty_vault)) =
      (Inr (env_key env, reread_all host (env_now env2) [(s, newCredential host (env_now env) s (demo_params v w) [])] []),
       snd (setCredential cr host env dir (demo_params v w) empty_vault))"
proof -
  have "trim '' me@a.org '' \<noteq> []" by code_simp
  then have ok: "credential_ok (newCredential host (env_now env) s (demo_params v w) [])"
    by (intro newCredential_ok) (simp add: demo_params_def)
  show ?thesis
    unfolding set_empty_vault [OF assms(3-5)] snd_conv
    using ok by (intro read_after_write [OF assms(1,2)]) (simp_all add: key_of_new [OF assms(1)])
qed

lemma demo_stable:
  "normalizeSetupService no_url ''Example.com'' = Some ''example.com''" "stable no_url ''example.com''" "\<not> inherited_member ''example.com''"
  unfolding stable_def by code_simp+


text \<open>
  Deleting a stored credential removes exactly it: afterwards the service has no
  credential, and every other service returns the same login as before.
\<close>

theorem delete_then_get:
  assumes "crypto_ok cr" and "env_iv env \<noteq> []"
    and "readVaultStore cr host env dir st = (Inr (key, records), st1)" and "all_stable host records"
    and "normalizeSetupService host input = Some s" and "map_of records s \<noteq> None" and "\<not> inherited_member s"
  shows "\<exists>st2. deleteCredential cr host env dir input st = (Inr True, st2)
    \<and> getCredential cr host env2 dir input st2 = (Inr NoCredential, st2)
    \<and> (normalizeSetupService host other = Some t \<and> t \<noteq> s \<longrightarrow>
        (\<exists>v. getCredential cr host env2 dir other st2 = (Inr v, st2)
           \<and> map_option login (credential_of v) = map_option login (map_of records t)))"
proof -
  let ?recs = "AList.delete s records" and ?st2 = "writeVaultStore cr env dir key (AList.delete s records) st1"
  note rd = readVaultStore_key [OF assms(1,3)]
  have del: "deleteCredential cr host env dir input st = (Inr True, ?st2)"
    using assms(3,5,6) by (simp add: deleteCredential_def has_record_def)
  have inv: "omap_invar ?recs" using rd by (simp add: store_sound_def store_simps)
  have "set ?recs \<subseteq> set records" by (auto simp: AList.delete_eq)
  then have ok: "list_all (\<lambda>(k, r). k = cr_service r \<and> k \<noteq> ''__proto__'' \<and> stable host k \<and> credential_ok r) ?recs"
    using rd assms(4) unfolding store_sound_def all_stable_def list_all_iff by fast
  have get: "getCredential cr host env2 dir i ?st2 = (Inr (found_or_blank u (Option.bind (map_of ?recs u) (reread host (env_now env2)))), ?st2)"
    if "normalizeSetupService host i = Some u" for i u
    using rd by (intro get_after_write [OF assms(1,2) _ inv ok that]) simp
  have "getCredential cr host env2 dir input ?st2 = (Inr NoCredential, ?st2)"
    using get [OF assms(5)] assms(7) by (simp add: store_simps found_or_blank_def)
  moreover have "\<exists>v. getCredential cr host env2 dir other ?st2 = (Inr v, ?st2)
      \<and> map_option login (credential_of v) = map_option login (map_of records t)"
    if "normalizeSetupService host other = Some t" "t \<noteq> s"
    using get [OF that(1)] that(2) login_kept [of records host t "env_now env2"] rd assms(4) by (simp add: store_simps)
  ultimately show ?thesis using del by blast
qed

theorem delete_then_get_witness:
  "\<exists>st2. deleteCredential demo_crypto no_url demo_env ''/w'' ''Example.com''
       (snd (setCredential demo_crypto no_url demo_env ''/w'' (demo_params ''Example.com'' ''pw'') empty_vault)) = (Inr True, st2)
     \<and> getCredential demo_crypto no_url demo_env ''/w'' ''Example.com'' st2 = (Inr NoCredential, st2)"
proof -
  let ?r = "newCredential no_url 5 ''example.com'' (demo_params ''Example.com'' ''pw'') []"
  have iv: "env_iv demo_env \<noteq> []" "env_now demo_env = 5" by (simp_all add: demo_env_def)
  have "trim ''pw'' \<noteq> []" by code_simp
  then obtain r where r: "reread no_url 5 ?r = Some r"
    using reread_Some [of no_url ?r 5] demo_stable(2) by (auto simp: demo_params_def)
  then have sv: "cr_service r = ''example.com''" using reread_service [of no_url ?r 5 r] demo_stable(2) by simp
  have "reread_all no_url 5 [(''example.com'', ?r)] [] = [(''example.com'', r)]" using r sv by (simp add: put_record_def)
  moreover note read_after_set_empty [OF demo_crypto_ok iv(1) demo_stable(1), of "''pw''" demo_env "''/w''"]
  moreover have "all_stable no_url [(''example.com'', r)]" using demo_stable(2) by (simp add: all_stable_def)
  ultimately show ?thesis
    using delete_then_get [OF demo_crypto_ok iv(1) _ _ demo_stable(1) _ demo_stable(3)] demo_stable(3) unfolding iv(2) by fastforce
qed

text \<open>Whether the content of a vault file can be opened: there is a key, and the text is empty or an envelope that it decrypts.\<close>

fun vault_opens :: "'k vault_crypto \<Rightarrow> 'k option \<Rightarrow> vault_file \<Rightarrow> bool" where
  "vault_opens cr (Some key) EmptyFile = True"
| "vault_opens cr (Some key) (JsonFile v) =
     (case toEnvelope v of Some (iv, tag, ciphertext) \<Rightarrow> decrypt cr key iv tag ciphertext \<noteq> None | None \<Rightarrow> False)"
| "vault_opens cr _ _ = False"

lemma readVaultStore_opens:
  assumes "map_of (vault_files st) (resolveWorkspaceVaultFile dir) = Some f" "f \<noteq> Unreadable"
  shows "\<exists>r. readVaultStore cr host env dir st = (r, st) \<and> (isl r \<longleftrightarrow> \<not> vault_opens cr (key_at cr st) f)"
proof (cases "key_at cr st")
  case None
  then have k: "(case key_file st of None \<Rightarrow> None | Some raw \<Rightarrow> keyOfText cr (trim raw)) = None" by (simp add: key_at_def)
  show ?thesis using assms(2) by (cases f) (simp_all add: readVaultStore_def readOrCreateVaultKey_def assms(1) None k)
next
  case (Some key)
  then have k: "(case key_file st of None \<Rightarrow> None | Some raw \<Rightarrow> keyOfText cr (trim raw)) = Some key" by (simp add: key_at_def)
  show ?thesis using assms(2)
    by (cases f) (simp_all add: readVaultStore_def readOrCreateVaultKey_def assms(1) Some k decryptStore_def split: option.split prod.split)
qed

text \<open>
  C10. A vault file that can be read but not opened is never overwritten: when the file exists, its text can be read, and the key is
  missing or invalid, or the text is neither empty nor an envelope that the key decrypts, then setting, reading, deleting and listing
  leave the key file and all vault files as they were, and each of them reports an error, for a supported service and complete
  parameters; listing reports an error only then.
\<close>

theorem unreadable_vault_kept:
  assumes "map_of (vault_files st) (resolveWorkspaceVaultFile dir) = Some f" and "f \<noteq> Unreadable"
  shows "(isl (fst (listConfiguredServices cr host env dir st)) \<longleftrightarrow> \<not> vault_opens cr (key_at cr st) f)
    \<and> (\<not> vault_opens cr (key_at cr st) f \<longrightarrow>
         snd (setCredential cr host env dir params st) = st \<and> snd (deleteCredential cr host env dir service st) = st
         \<and> snd (getCredential cr host env dir service st) = st \<and> snd (listConfiguredServices cr host env dir st) = st
         \<and> isl (fst (setCredential cr host env dir params st))
         \<and> (normalizeSetupService host service \<noteq> None \<longrightarrow>
              isl (fst (deleteCredential cr host env dir service st)) \<and> isl (fst (getCredential cr host env dir service st))))"
proof -
  obtain r where r: "readVaultStore cr host env dir st = (r, st)" "isl r \<longleftrightarrow> \<not> vault_opens cr (key_at cr st) f"
    using readVaultStore_opens [OF assms] by blast
  show ?thesis
  proof (cases r)
    case (Inl e)
    then show ?thesis using r
      by (auto simp: setCredential_def deleteCredential_def getCredential_def listConfiguredServices_def split: option.split)
  next
    case (Inr kr)
    then show ?thesis using r by (cases kr) (simp add: listConfiguredServices_def)
  qed
qed

theorem unreadable_vault_kept_witness:
  "snd (setCredential demo_crypto no_url demo_env ''/w'' (demo_params ''a'' ''b'')
     (empty_vault\<lparr>vault_files := [(resolveWorkspaceVaultFile ''/w'', BadFile)]\<rparr>)) =
     empty_vault\<lparr>vault_files := [(resolveWorkspaceVaultFile ''/w'', BadFile)]\<rparr>"
proof -
  have "map_of (vault_files (empty_vault\<lparr>vault_files := [(resolveWorkspaceVaultFile ''/w'', BadFile)]\<rparr>)) (resolveWorkspaceVaultFile ''/w'') =
      Some BadFile" by simp
  from unreadable_vault_kept [OF this, of demo_crypto no_url demo_env "demo_params ''a'' ''b''"] show ?thesis by simp
qed

text \<open>
  A vault file that cannot be read is taken for a missing one: setting a credential replaces it, with a new key if there is none, by
  a store that holds the new record alone.
\<close>

theorem unreadable_file_overwritten:
  assumes "crypto_ok cr" and "env_iv env \<noteq> []"
    and "map_of (vault_files st) (resolveWorkspaceVaultFile dir) = Some Unreadable"
    and "normalizeSetupService host (cp_service params) = Some s" and "stable host s" and "\<not> inherited_member s"
    and "trim (cp_identifier params) \<noteq> []" and "trim (cp_secret params) \<noteq> []"
  shows "\<exists>st2. setCredential cr host env dir params st = (Inr (s, True), st2)
    \<and> fst (listConfiguredServices cr host env2 dir st2) = Inr [s]"
proof -
  obtain key st1 where rd: "readVaultStore cr host env dir st = (Inr (key, []), st1)"
    using assms(3) by (cases "key_at cr st") (simp_all add: readVaultStore_def readOrCreateVaultKey_def key_at_def)
  let ?r = "newCredential host (env_now env) s params []" and ?st2 = "writeVaultStore cr env dir key
    [(s, newCredential host (env_now env) s params [])] st1"
  have "cp_secret params \<noteq> []" using assms(8) by auto
  then have set: "setCredential cr host env dir params st = (Inr (s, True), ?st2)"
    using assms(4,6,7) by (simp add: setCredential_def rd put_record_def has_record_def inherited_member_def)
  have "readVaultStore cr host env2 dir ?st2 = (Inr (key, reread_all host (env_now env2) [(s, ?r)] []), ?st2)"
    using readVaultStore_key [OF assms(1) rd] newCredential_ok [OF assms(7)] by (intro read_after_write [OF assms(1,2)]) auto
  moreover obtain r where "reread host (env_now env2) ?r = Some r" "cr_service r = s"
    using reread_Some [of host ?r "env_now env2"] reread_service [of host ?r "env_now env2"] assms(5,8) by auto
  ultimately have "fst (listConfiguredServices cr host env2 dir ?st2) = Inr [s]"
    using assms(5,6) by (simp add: listConfiguredServices_def put_record_def inherited_member_def stable_def List.map_filter_simps)
  then show ?thesis using set by blast
qed

theorem unreadable_file_overwritten_witness:
  "\<exists>st2. setCredential demo_crypto no_url demo_env ''/w'' (demo_params ''Example.com'' ''pw'')
       (empty_vault\<lparr>vault_files := [(resolveWorkspaceVaultFile ''/w'', Unreadable)]\<rparr>) = (Inr (''example.com'', True), st2)
     \<and> fst (listConfiguredServices demo_crypto no_url demo_env ''/w'' st2) = Inr [''example.com'']"
proof (rule unreadable_file_overwritten [OF demo_crypto_ok])
  show "trim (cp_identifier (demo_params ''Example.com'' ''pw'')) \<noteq> []" "trim (cp_secret (demo_params ''Example.com'' ''pw'')) \<noteq> []" by code_simp+
qed (use demo_stable in \<open>simp_all add: demo_env_def demo_params_def\<close>)

text \<open>
  The normalised name of a service is not empty, has at most 80 characters, and consists
  of lower-case letters, digits, dots, underscores and dashes.
\<close>

theorem service_name_safe:
  "case normalizeSetupService host input of
     None \<Rightarrow> True
   | Some s \<Rightarrow> s \<noteq> [] \<and> length s \<le> 80 \<and> list_all service_char s"
  using normalizeSetupService_chars [of host input] by (simp split: option.split)

text \<open>
  Two accepted credentials are not found again. The name of a service is normalised once
  when it is stored and once more when the store is read, but normalising is not idempotent:
  \<open>www.twitter.com\<close> is stored as \<open>twitter.com\<close> and read back as \<open>x.com\<close>. And a password of blanks is
  accepted, but dropped by the next read.
\<close>

theorem accepted_credential_lost:
  assumes "crypto_ok cr" and "env_iv env \<noteq> []"
  shows "fst (setCredential cr host env dir (demo_params ''www.twitter.com'' ''pw'') empty_vault) = Inr (''twitter.com'', True)
    \<and> fst (getCredential cr host env2 dir ''www.twitter.com''
         (snd (setCredential cr host env dir (demo_params ''www.twitter.com'' ''pw'') empty_vault))) = Inr NoCredential
    \<and> fst (setCredential cr host env dir (demo_params ''email'' ''  '') empty_vault) = Inr (''email'', True)
    \<and> fst (getCredential cr host env2 dir ''email''
         (snd (setCredential cr host env dir (demo_params ''email'' ''  '') empty_vault))) = Inr NoCredential"
proof -
  have names: "normalizeSetupService host ''www.twitter.com'' = Some ''twitter.com''"
    "normalizeSetupService host ''twitter.com'' = Some ''x.com''" "normalizeSetupService host ''email'' = Some ''email''"
    by code_simp+
  have own: "\<not> inherited_member ''twitter.com''" "\<not> inherited_member ''email''" by code_simp+
  note rd = read_after_set_empty [OF assms]
  have blank: "trim ''  '' = []" by code_simp
  have tw: "map_of (reread_all host (env_now env2)
      [(''twitter.com'', newCredential host (env_now env) ''twitter.com'' (demo_params ''www.twitter.com'' ''pw'') [])] []) ''twitter.com'' = None"
    using names(2) by (simp add: reread_def put_record_def)
  have em: "reread host (env_now env2) (newCredential host (env_now env) ''email'' (demo_params ''email'' ''  '') []) = None"
    using blank by (simp add: reread_def demo_params_def)
  have "fst (getCredential cr host env2 dir ''www.twitter.com''
         (snd (setCredential cr host env dir (demo_params ''www.twitter.com'' ''pw'') empty_vault))) = Inr NoCredential"
    unfolding getCredential_def names(1) rd [OF names(1) _ own(1), of "''pw''", simplified] using tw own(1) by (simp add: find_record_def)
  moreover have "fst (getCredential cr host env2 dir ''email''
         (snd (setCredential cr host env dir (demo_params ''email'' ''  '') empty_vault))) = Inr NoCredential"
    unfolding getCredential_def names(3) rd [OF names(3) _ own(2), of "''  ''", simplified] using em own(2) by (simp add: find_record_def)
  ultimately show ?thesis
    using set_empty_vault [OF names(1) _ own(1), of "''pw''" cr env dir] set_empty_vault [OF names(3) _ own(2), of "''  ''" cr env dir] by simp
qed

theorem accepted_credential_lost_witness:
  "fst (getCredential demo_crypto no_url demo_env ''/w'' ''www.twitter.com''
     (snd (setCredential demo_crypto no_url demo_env ''/w'' (demo_params ''www.twitter.com'' ''pw'') empty_vault))) = Inr NoCredential"
proof -
  have "env_iv demo_env \<noteq> []" by (simp add: demo_env_def)
  from accepted_credential_lost [OF demo_crypto_ok this] show ?thesis by blast
qed

text \<open>
  The names of inherited members: with nothing stored, a deletion under such a name reports success and a lookup returns a record
  without fields; a login stored under \<open>__proto__\<close> is accepted as a change of an existing one and is not in the file that is written.
\<close>

theorem inherited_name_misreported:
  assumes "crypto_ok cr" and "env_iv env \<noteq> []" and "secret \<noteq> []" and "inherited_member s"
  shows "fst (deleteCredential cr host env dir s empty_vault) = Inr True
    \<and> fst (getCredential cr host env dir s empty_vault) = Inr BlankCredential
    \<and> fst (setCredential cr host env dir (demo_params s secret) empty_vault) = Inr (s, False)
    \<and> fst (listConfiguredServices cr host env2 dir (snd (setCredential cr host env dir (demo_params ''__proto__'' secret) empty_vault))) = Inr []"
proof -
  have names: "normalizeSetupService host ''constructor'' = Some ''constructor''" "normalizeSetupService host ''__proto__'' = Some ''__proto__''"
    by code_simp+
  then have s: "normalizeSetupService host s = Some s" using assms(4) by (auto simp: inherited_member_def)
  have i: "trim '' me@a.org '' \<noteq> []" by code_simp
  define st where "st = writeVaultStore cr env dir (env_key env) [] (empty_vault\<lparr>key_file := Some (textOfKey cr (env_key env) @ [CHR 0x0A])\<rparr>)"
  have set: "setCredential cr host env dir (demo_params ''__proto__'' secret) empty_vault = (Inr (''__proto__'', False), st)"
    using names(2) assms(3) i unfolding setCredential_def read_empty_vault st_def
    by (simp add: demo_params_def put_record_def has_record_def inherited_member_def)
  have "readVaultStore cr host env2 dir st = (Inr (env_key env, reread_all host (env_now env2) [] []), st)"
    unfolding st_def by (intro read_after_write [OF assms(1,2)]) (simp_all add: key_of_new [OF assms(1)])
  then have "fst (listConfiguredServices cr host env2 dir st) = Inr []" by (simp add: listConfiguredServices_def List.map_filter_simps)
  moreover have "fst (setCredential cr host env dir (demo_params s secret) empty_vault) = Inr (s, False)"
    using s assms(3,4) i unfolding setCredential_def read_empty_vault by (simp add: demo_params_def has_record_def)
  ultimately show ?thesis
    using s assms(4) unfolding deleteCredential_def getCredential_def read_empty_vault set snd_conv by (simp add: has_record_def find_record_def)
qed

theorem inherited_name_misreported_witness:
  "fst (deleteCredential demo_crypto no_url demo_env ''/w'' ''constructor'' empty_vault) = Inr True"
  using inherited_name_misreported [OF demo_crypto_ok, of demo_env "''pw''" "''constructor''"] by (simp add: demo_env_def inherited_member_def)

end
