(* ===== verification/Vault_Refinement.thy ===== *)
theory Vault_Refinement
  imports Credentials_Vault
begin

text \<open>
  What the credential vault promises its callers, as an abstract specification: a finite map
  from services to logins (identifier, secret and mode). The relation \<open>vault_holds\<close> connects a state of
  the files with the map it stores, and one lemma per operation of \<open>src/security/credentials-vault.ts\<close>
  shows that the operation acts on the files as the map operation acts on the map, with the exceptions for the names \<open>constructor\<close> and
  \<open>__proto__\<close> spelled out. The setup dialogue is verified against the map alone.
\<close>

section \<open>The vault as a map from services to logins\<close>

text \<open>
  The abstract vault: whichever clock, key and vector the next call draws, the store can be
  read, its names are normalised, and the logins in it are the map.
\<close>

type_synonym logins = "string \<rightharpoonup> string \<times> string \<times> auth_mode"

definition vault_holds ::
  "'k vault_crypto \<Rightarrow> (string \<Rightarrow> string option) \<Rightarrow> string \<Rightarrow> vault_state \<Rightarrow> logins \<Rightarrow> bool" where
  "vault_holds cr host dir st m \<longleftrightarrow> crypto_ok cr \<and>
     (\<forall>env. \<exists>key records st1. readVaultStore cr host env dir st = (Inr (key, records), st1)
        \<and> all_stable host records \<and> m = map_option login \<circ> map_of records)"

lemma vault_holdsE:
  assumes "vault_holds cr host dir st m"
  obtains key records st1 where "readVaultStore cr host env dir st = (Inr (key, records), st1)"
    "all_stable host records" "m = map_option login \<circ> map_of records" "key_at cr st1 = Some key" "store_sound records"
  using assms readVaultStore_key unfolding vault_holds_def by metis

lemma all_stable_update: "all_stable host acc \<Longrightarrow> stable host k \<Longrightarrow> all_stable host (put_record k r acc)"
  by (auto simp: all_stable_def put_record_def intro!: list_all_update)

lemma reread_all_stable:
  "all_stable host acc \<Longrightarrow> list_all (\<lambda>(k, r). k = cr_service r \<and> stable host k) records \<Longrightarrow>
   all_stable host (reread_all host now records acc)"
  by (induction host now records acc rule: reread_all.induct)
    (auto simp: reread_service all_stable_update split: option.split)

text \<open>Writing a sound store makes the vault hold its logins.\<close>

lemma holds_after_write:
  assumes "crypto_ok cr" "env_iv env \<noteq> []" "key_at cr st = Some key" "store_sound records" "all_stable host records"
  shows "vault_holds cr host dir (writeVaultStore cr env dir key records st) (map_option login \<circ> map_of records)"
  unfolding vault_holds_def
proof (intro conjI allI assms(1))
  fix env2 :: "'a vault_env"
  let ?again = "reread_all host (env_now env2) records []"
  have ok: "list_all (\<lambda>(k, r). credential_ok r) records" "list_all (\<lambda>(k, r). k = cr_service r \<and> k \<noteq> ''__proto__'' \<and> stable host k) records"
    "list_all (\<lambda>(k, r). k = cr_service r \<and> stable host k) records" "distinct (map fst records)"
    using assms(4,5) by (auto simp: store_sound_def all_stable_def list_all_iff omap_invar_def)
  have "map_of ?again t = Option.bind (map_of records t) (reread host (env_now env2))" for t
    using reread_all_get [OF ok(2,4)] by (simp split: option.split)
  then have "map_option login \<circ> map_of records = map_option login \<circ> map_of ?again"
    by (simp add: fun_eq_iff login_kept [OF assms(4,5)])
  moreover have "all_stable host ?again"
    by (rule reread_all_stable [OF _ ok(3)]) (simp add: all_stable_def)
  moreover have "readVaultStore cr host env2 dir (writeVaultStore cr env dir key records st) =
      (Inr (key, ?again), writeVaultStore cr env dir key records st)"
    by (rule read_after_write [OF assms(1-3) ok(1)])
  ultimately show "\<exists>key' records' st1.
      readVaultStore cr host env2 dir (writeVaultStore cr env dir key records st) = (Inr (key', records'), st1)
      \<and> all_stable host records' \<and> map_option login \<circ> map_of records = map_option login \<circ> map_of records'"
    by blast
qed

text \<open>The login \<open>setCredential\<close> stores, and the parameters it accepts and can read back.\<close>

definition params_login :: "credential_params \<Rightarrow> string \<times> string \<times> auth_mode" where
  "params_login params =
     (trim (cp_identifier params),
      (if cp_authMode params = Some PasswordlessMfaCode \<and> trim (cp_secret params) = [] then ''__PASSWORDLESS_MFA__''
       else cp_secret params),
      (case cp_authMode params of Some m \<Rightarrow> m | None \<Rightarrow> Password))"

definition params_ok :: "credential_params \<Rightarrow> bool" where
  "params_ok params \<longleftrightarrow>
     trim (cp_identifier params) \<noteq> [] \<and> (cp_authMode params = Some PasswordlessMfaCode \<or> trim (cp_secret params) \<noteq> [])"

lemma params_ok_secret: "params_ok params \<Longrightarrow> cp_authMode params \<noteq> Some PasswordlessMfaCode \<Longrightarrow> cp_secret params \<noteq> []"
  by (auto simp: params_ok_def)

lemma login_new: "login (newCredential host now s params records) = params_login params"
  by (simp add: login_def params_login_def)

text \<open>
  What setting does to the map: a login for \<open>__proto__\<close> is lost; whether the entry is new is reported, but never so for an inherited name.
\<close>

definition put_login :: "string \<Rightarrow> string \<times> string \<times> auth_mode \<Rightarrow> logins \<Rightarrow> logins" where
  "put_login s l m = (if s = ''__proto__'' then m else m(s \<mapsto> l))"

lemma set_refines:
  assumes "vault_holds cr host dir st m" "env_iv env \<noteq> []" "params_ok params"
    and "normalizeSetupService host (cp_service params) = Some s" "stable host s"
  shows "\<exists>st2. setCredential cr host env dir params st = (Inr (s, m s = None \<and> \<not> inherited_member s), st2)
    \<and> vault_holds cr host dir st2 (put_login s (params_login params) m)"
proof -
  from assms(1) obtain key records st1 where rd: "readVaultStore cr host env dir st = (Inr (key, records), st1)"
    "all_stable host records" "m = map_option login \<circ> map_of records" "key_at cr st1 = Some key" "store_sound records"
    by (rule vault_holdsE)
  let ?r = "newCredential host (env_now env) s params records"
  let ?st2 = "writeVaultStore cr env dir key (put_record s ?r records) st1"
  have new: "credential_ok ?r" "cr_authMode ?r = Password \<longrightarrow> trim (cr_secret ?r) \<noteq> []"
    using assms(3) newCredential_ok by (auto simp: params_ok_def split: option.splits)
  have "store_sound (put_record s ?r records)" "all_stable host (put_record s ?r records)"
    using store_sound_update [OF rd(5) new] all_stable_update [OF rd(2) assms(5)] by simp_all
  then have "vault_holds cr host dir ?st2 (map_option login \<circ> map_of (put_record s ?r records))"
    using holds_after_write [OF _ assms(2) rd(4)] assms(1) unfolding vault_holds_def by blast
  moreover have "map_option login \<circ> map_of (put_record s ?r records) = put_login s (params_login params) m"
    by (auto simp: rd(3) put_login_def put_record_def store_simps login_new)
  moreover have "setCredential cr host env dir params st = (Inr (s, m s = None \<and> \<not> inherited_member s), ?st2)"
    using assms(3,4) params_ok_secret [OF assms(3)] by (auto simp: setCredential_def has_record_def rd(1,3) params_ok_def)
  ultimately show ?thesis by auto
qed

text \<open>A read may create the key file, but only for a vault that is empty.\<close>

lemma read_keeps:
  assumes "crypto_ok cr" "readVaultStore cr host env dir st = (Inr (key, records), st1)"
  shows "st1 = st \<or> records = [] \<and> readVaultStore cr host env2 dir st1 = (Inr (key, []), st1)"
proof (cases "map_of (vault_files st) (resolveWorkspaceVaultFile dir) \<in> {None, Some Unreadable}")
  case True
  have "key_at cr st1 = Some key" "vault_files st1 = vault_files st"
    using readVaultStore_key [OF assms] by simp_all
  moreover have "records = []"
    using assms(2) True by (auto simp: readVaultStore_def Let_def split: sum.splits prod.splits)
  ultimately show ?thesis
    using True by (auto simp: readVaultStore_def readOrCreateVaultKey_def key_at_def split: option.splits)
next
  case False
  then have "st1 = st"
    using assms(2) by (auto simp: readVaultStore_def readOrCreateVaultKey_def Let_def
        split: option.splits vault_file.splits prod.splits sum.splits)
  then show ?thesis ..
qed

lemma holds_kept:
  assumes "vault_holds cr host dir st m" "readVaultStore cr host env dir st = (Inr (key, records), st1)"
  shows "vault_holds cr host dir st1 m"
proof -
  have cr: "crypto_ok cr" using assms(1) by (simp add: vault_holds_def)
  have m: "m = map_option login \<circ> map_of records" using assms unfolding vault_holds_def by (metis Inr_inject Pair_inject)
  show ?thesis
  proof (cases "st1 = st")
    case False
    then have "records = []" "readVaultStore cr host env2 dir st1 = (Inr (key, []), st1)" for env2
      using read_keeps [OF cr assms(2)] by blast+
    with cr m show ?thesis by (fastforce simp: vault_holds_def all_stable_def)
  qed (use assms in simp)
qed

lemma delete_refines:
  assumes "vault_holds cr host dir st m" "env_iv env \<noteq> []" "normalizeSetupService host input = Some s"
  shows "\<exists>st2. deleteCredential cr host env dir input st = (Inr (m s \<noteq> None \<or> inherited_member s), st2)
    \<and> vault_holds cr host dir st2 (m(s := None))"
proof -
  from assms(1) obtain key records st1 where rd: "readVaultStore cr host env dir st = (Inr (key, records), st1)"
    "all_stable host records" "m = map_option login \<circ> map_of records" "key_at cr st1 = Some key" "store_sound records"
    by (rule vault_holdsE)
  show ?thesis
  proof (cases "has_record records s")
    case False
    then have "m(s := None) = m" by (auto simp: rd(3) has_record_def)
    moreover have "deleteCredential cr host env dir input st = (Inr (m s \<noteq> None \<or> inherited_member s), st1)"
      using assms(3) False by (simp add: deleteCredential_def has_record_def rd(1,3))
    ultimately show ?thesis using holds_kept [OF assms(1) rd(1)] by simp
  next
    case True
    have "set (AList.delete s records) \<subseteq> set records" by (auto simp: AList.delete_eq)
    then have "store_sound (AList.delete s records)" "all_stable host (AList.delete s records)"
      using rd(2,5) unfolding store_sound_def all_stable_def list_all_iff by (auto simp: store_simps)
    then have "vault_holds cr host dir (writeVaultStore cr env dir key (AList.delete s records) st1)
        (map_option login \<circ> map_of (AList.delete s records))"
      using holds_after_write [OF _ assms(2) rd(4)] assms(1) unfolding vault_holds_def by blast
    moreover have "map_option login \<circ> map_of (AList.delete s records) = m(s := None)"
      by (auto simp: rd(3) store_simps)
    moreover have "deleteCredential cr host env dir input st =
        (Inr (m s \<noteq> None \<or> inherited_member s), writeVaultStore cr env dir key (AList.delete s records) st1)"
      using assms(3) True by (auto simp: deleteCredential_def has_record_def rd(1,3))
    ultimately show ?thesis by auto
  qed
qed

lemma get_refines:
  assumes "vault_holds cr host dir st m" "normalizeSetupService host input = Some s"
  shows "\<exists>v st2. getCredential cr host env dir input st = (Inr v, st2) \<and> map_option login (credential_of v) = m s
    \<and> (v = BlankCredential \<longleftrightarrow> m s = None \<and> inherited_member s) \<and> vault_holds cr host dir st2 m"
proof -
  from assms(1) obtain key records st1 where rd: "readVaultStore cr host env dir st = (Inr (key, records), st1)"
    "m = map_option login \<circ> map_of records" by (rule vault_holdsE)
  moreover have "found_or_blank s v = BlankCredential \<longleftrightarrow> v = None \<and> inherited_member s" for v
    by (auto simp: found_or_blank_def split: option.split)
  ultimately show ?thesis using holds_kept [OF assms(1) rd(1)] assms(2) by (auto simp: getCredential_def find_record_alt)
qed

lemma names_of_stable:
  "all_stable host records \<Longrightarrow> List.map_filter (normalizeSetupService host) (map fst records) = map fst records"
  by (induction records) (auto simp: all_stable_def stable_def List.map_filter_simps)

lemma list_refines:
  assumes "vault_holds cr host dir st m"
  shows "\<exists>names st2. listConfiguredServices cr host env dir st = (Inr names, st2) \<and> set names = dom m
    \<and> sorted names \<and> distinct names \<and> vault_holds cr host dir st2 m"
proof -
  from assms obtain key records st1 where rd: "readVaultStore cr host env dir st = (Inr (key, records), st1)"
    "all_stable host records" "m = map_option login \<circ> map_of records" "store_sound records" by (rule vault_holdsE)
  have "listConfiguredServices cr host env dir st = (Inr (sort (map fst records)), st1)"
    using rd(1) names_of_stable [OF rd(2)] by (simp add: listConfiguredServices_def)
  moreover have "set (sort (map fst records)) = dom m"
    by (simp add: rd(3) dom_map_option_comp dom_map_of_conv_image_fst)
  moreover have "distinct (sort (map fst records))"
    using rd(4) by (simp add: store_sound_def omap_invar_def)
  ultimately show ?thesis using holds_kept [OF assms rd(1)] sorted_sort by blast
qed

section \<open>Properties\<close>


lemma empty_vault_holds: "crypto_ok cr \<Longrightarrow> vault_holds cr host dir empty_vault Map.empty"
  by (fastforce simp: vault_holds_def read_empty_vault all_stable_def)


end
