(* ===== verification/Setup_Flow.thy ===== *)
theory Setup_Flow
  imports Vault_Refinement
begin

text \<open>
  The secure setup dialogue, \<open>src/security/setup-flow.ts\<close>: the commands \<open>/setup ...\<close> and the values a
  session types while a setup is active. The pending setups are an association list from
  sessions to records, as the module's \<open>Map\<close>; a reply is \<open>Inr (Some message)\<close> when the message was
  handled, \<open>Inr None\<close> when it was not, and \<open>Inl\<close> when an operation of the vault rejected. The handlers
  take the operations of the vault as a record and are run on those of the credential vault.
  Calls are atomic: two messages of one session that overlap while the vault is written are
  not modelled. The lemmas show that the vault implements a map from services to logins, that
  a dialogue stores what was typed and touches no other session or service, and that a typed
  secret is never part of a reply.
\<close>

section \<open>State and texts\<close>

datatype setup_step = StepIdentifier | StepAuthMode | StepSecret

record pending_setup =
  pd_service :: string
  pd_step :: setup_step
  pd_authMode :: "auth_mode option"
  pd_identifier :: "string option"

text \<open>What the dialogue calls of \<open>credentials-vault.ts\<close>.\<close>

record 's vault_api =
  va_normalize :: "string \<Rightarrow> string option"
  va_set :: "credential_params \<Rightarrow> 's \<Rightarrow> (string \<times> bool) result \<times> 's"
  va_delete :: "string \<Rightarrow> 's \<Rightarrow> bool result \<times> 's"
  va_list :: "'s \<Rightarrow> string list result \<times> 's"

record 's setup_state =
  pendingBySessionId :: "(string, pending_setup) omap"
  sf_vault :: 's

type_synonym reply = "string option result"

definition usageText :: string where
  "usageText = js_join [CHR 0x0A]
     [''Secure setup commands:'',
      ''- /setup <service-or-site>   (example: /setup example.com or /setup https://example.com/login)'',
      ''- /setup list'',
      ''- /setup clear <service-or-site>'',
      ''- /setup cancel'',
      ''- /setup mode password|password+mfa|mfa    (only during active setup flow)'']"

definition is_mailbox :: "string \<Rightarrow> bool" where
  "is_mailbox service \<longleftrightarrow> service = ''email'' \<or> starts_with service ''mail.''"

definition promptForIdentifier :: "string \<Rightarrow> string" where
  "promptForIdentifier service =
     ''Setup '' @ service @
       (if is_mailbox service then '': enter the email address for this mailbox account.''
        else '': enter the login identifier (email/username).'')"

definition promptForAuthMode :: "string \<Rightarrow> string" where
  "promptForAuthMode service = js_join [CHR 0x0A]
     [''Setup '' @ service @ '': choose auth mode.'',
      ''- Type: password'',
      ''- Type: password+mfa (password plus one-time code)'',
      ''- Type: mfa (passwordless MFA code)'',
      ''You can also use: /setup mode password  or  /setup mode password+mfa  or  /setup mode mfa'']"

definition promptForSecret :: "string \<Rightarrow> auth_mode \<Rightarrow> string" where
  "promptForSecret service authMode =
     (if authMode = PasswordlessMfaCode then
        js_join [CHR 0x0A]
          [''Setup '' @ service @ '': enter a default MFA code (optional).'',
           ''Type 'skip' to save passwordless mode without a stored code.'',
           ''You can provide fresh MFA codes later during login flows.'']
      else if is_mailbox service then
        ''Setup '' @ service @ '': enter the app password or mailbox secret. It is stored securely and never echoed back.''
      else ''Setup '' @ service @ '': enter your password or secret. It is stored securely and never echoed back.'')"

definition completionText :: "string \<Rightarrow> auth_mode \<Rightarrow> string" where
  "completionText service authMode =
     (if authMode = PasswordlessMfaCode
      then ''Saved secure credentials for '' @ service @ ''. Auth mode=passwordless MFA code.''
      else ''Saved secure credentials for '' @ service @ ''.'')"

definition normalizeAuthMode :: "string \<Rightarrow> auth_mode option" where
  "normalizeAuthMode input =
     (let v = to_lower (trim input) in
      if v \<in> set [''password'', ''pass'', ''pwd''] then Some Password
      else if v \<in> set [''password+mfa'', ''password_with_mfa'', ''password-and-mfa'', ''mfa_required'']
        then Some PasswordWithMfa
      else if v \<in> set [''mfa'', ''passwordless'', ''mfa-code'', ''passwordless-mfa'', ''passwordless_mfa_code'']
        then Some PasswordlessMfaCode
      else None)"

definition redactIdentifier :: "string \<Rightarrow> string" where
  "redactIdentifier identifier =
     (let trimmed = trim identifier in
      if trimmed = [] then ''(empty)''
      else case index_of (CHR ''@'') trimmed of
             Some k \<Rightarrow>
               if 1 < k then take 1 trimmed @ ''***'' @ drop k trimmed
               else if length trimmed \<le> 3 then take 1 trimmed @ ''**''
               else take 2 trimmed @ ''***'' @ take_last 1 trimmed
           | None \<Rightarrow>
               if length trimmed \<le> 3 then take 1 trimmed @ ''**''
               else take 2 trimmed @ ''***'' @ take_last 1 trimmed)"

definition saved_note :: "pending_setup \<Rightarrow> string" where
  "saved_note pending = [CHR 0x0A] @ ''Identifier saved: '' @ redactIdentifier (opt_str (pd_identifier pending))"

text \<open>\<open>/^\/setup\s+cancel\b/i\<close>.\<close>

definition is_cancel :: "string \<Rightarrow> bool" where
  "is_cancel s \<longleftrightarrow>
     to_lower (take 6 s) = ''/setup''
     \<and> (let rest = drop 6 s; after = dropWhile is_ws rest; tail = drop 6 after
        in rest \<noteq> after \<and> to_lower (take 6 after) = ''cancel''
           \<and> (tail = [] \<or> \<not> is_word_char (hd tail)))"

section \<open>Handlers\<close>

definition put_pending :: "string \<Rightarrow> pending_setup \<Rightarrow> 's setup_state \<Rightarrow> 's setup_state" where
  "put_pending sessionId pending st = st\<lparr>pendingBySessionId := AList.update sessionId pending (pendingBySessionId st)\<rparr>"

definition drop_pending :: "string \<Rightarrow> 's setup_state \<Rightarrow> 's setup_state" where
  "drop_pending sessionId st = st\<lparr>pendingBySessionId := AList.delete sessionId (pendingBySessionId st)\<rparr>"

definition pending_of :: "'s setup_state \<Rightarrow> string \<Rightarrow> pending_setup option" where
  "pending_of st sessionId = map_of (pendingBySessionId st) sessionId"

definition handled :: "string \<Rightarrow> reply" where
  "handled message = Inr (Some message)"

definition word_at :: "nat \<Rightarrow> string list \<Rightarrow> string" where
  "word_at k parts = (if k < length parts then parts ! k else [])"

definition setupList :: "'s vault_api \<Rightarrow> 's setup_state \<Rightarrow> reply \<times> 's setup_state" where
  "setupList api st =
     (case va_list api (sf_vault st) of
        (Inl e, v) \<Rightarrow> (Inl e, st\<lparr>sf_vault := v\<rparr>)
      | (Inr services, v) \<Rightarrow>
          (handled (if services = [] then ''No secure credentials stored yet.''
                    else js_join [CHR 0x0A] (''Configured secure services:'' # map (\<lambda>s. ''- '' @ s) services)),
           st\<lparr>sf_vault := v\<rparr>))"

definition setupClear :: "'s vault_api \<Rightarrow> string \<Rightarrow> string list \<Rightarrow> 's setup_state \<Rightarrow> reply \<times> 's setup_state" where
  "setupClear api sessionId parts st =
     (case va_normalize api (word_at 2 parts) of
        None \<Rightarrow> (handled ''Usage: /setup clear <service-or-site>'', st)
      | Some service \<Rightarrow>
          (case va_delete api service (sf_vault st) of
             (Inl e, v) \<Rightarrow> (Inl e, st\<lparr>sf_vault := v\<rparr>)
           | (Inr removed, v) \<Rightarrow>
               (handled (if removed then ''Removed secure credentials for '' @ service @ ''.''
                         else ''No stored credentials found for '' @ service @ ''.''),
                drop_pending sessionId (st\<lparr>sf_vault := v\<rparr>))))"

definition setupMode :: "string \<Rightarrow> string list \<Rightarrow> 's setup_state \<Rightarrow> reply \<times> 's setup_state" where
  "setupMode sessionId parts st =
     (case pending_of st sessionId of
        None \<Rightarrow> (handled ''No active setup flow. Start with /setup <service-or-site>.'', st)
      | Some pending \<Rightarrow>
          (case normalizeAuthMode (word_at 2 parts) of
             None \<Rightarrow> (handled ''Usage: /setup mode password|password+mfa|mfa'', st)
           | Some authMode \<Rightarrow>
               (handled (promptForSecret (pd_service pending) authMode @ saved_note pending),
                put_pending sessionId (pending\<lparr>pd_authMode := Some authMode, pd_step := StepSecret\<rparr>) st)))"

definition handleSlashSetupCommand ::
  "'s vault_api \<Rightarrow> string \<Rightarrow> string \<Rightarrow> 's setup_state \<Rightarrow> reply \<times> 's setup_state" where
  "handleSlashSetupCommand api sessionId message st =
     (let trimmed = trim message; parts = js_words trimmed; sub = to_lower (trim (word_at 1 parts)) in
      if \<not> starts_with trimmed ''/setup'' then (Inr None, st)
      else if length parts = 1 then (handled usageText, st)
      else if sub = ''list'' then setupList api st
      else if sub = ''cancel'' then
        (handled (if pending_of st sessionId \<noteq> None then ''Cancelled active setup flow.''
                  else ''No active setup flow for this session.''), drop_pending sessionId st)
      else if sub = ''clear'' then setupClear api sessionId parts st
      else if sub = ''mode'' then setupMode sessionId parts st
      else case va_normalize api sub of
             None \<Rightarrow> (handled (usageText @ [CHR 0x0A] @ ''Unsupported setup target: '' @ sub), st)
           | Some service \<Rightarrow>
               (handled (promptForIdentifier service @ [CHR 0x0A] @ ''Type /setup cancel to abort.''),
                put_pending sessionId
                  \<lparr>pd_service = service, pd_step = StepIdentifier, pd_authMode = None, pd_identifier = None\<rparr> st))"

definition secretParams :: "pending_setup \<Rightarrow> string \<Rightarrow> credential_params" where
  "secretParams pending raw =
     (let authMode = (case pd_authMode pending of Some m \<Rightarrow> m | None \<Rightarrow> Password);
          mfaCode = (if authMode = PasswordlessMfaCode \<and> to_lower (trim raw) \<noteq> ''skip'' then trim raw else []);
          secret = (if authMode = Password \<or> authMode = PasswordWithMfa then raw else [])
      in \<lparr>cp_service = pd_service pending, cp_identifier = trim (opt_str (pd_identifier pending)), cp_secret = secret,
          cp_authMode = Some authMode, cp_websiteUrl = None, cp_mfaStrategy = None, cp_mfaSourceService = None,
          cp_mfaCode = nonempty_opt mfaCode\<rparr>)"

definition saveSecret ::
  "'s vault_api \<Rightarrow> string \<Rightarrow> pending_setup \<Rightarrow> string \<Rightarrow> 's setup_state \<Rightarrow> reply \<times> 's setup_state" where
  "saveSecret api sessionId pending raw st =
     (if trim (opt_str (pd_identifier pending)) = []
      then (handled ''Setup flow reset due to missing identifier. Run /setup <service-or-site> again.'',
            drop_pending sessionId st)
      else case va_set api (secretParams pending raw) (sf_vault st) of
             (Inl e, v) \<Rightarrow> (handled (''Could not save secure credentials yet: '' @ e), st\<lparr>sf_vault := v\<rparr>)
           | (Inr _, v) \<Rightarrow>
               (handled (completionText (pd_service pending)
                           (case pd_authMode pending of Some m \<Rightarrow> m | None \<Rightarrow> Password)),
                drop_pending sessionId (st\<lparr>sf_vault := v\<rparr>)))"

definition handlePendingSetupInput ::
  "'s vault_api \<Rightarrow> string \<Rightarrow> string \<Rightarrow> 's setup_state \<Rightarrow> reply \<times> 's setup_state" where
  "handlePendingSetupInput api sessionId raw st =
     (case pending_of st sessionId of
        None \<Rightarrow> (Inr None, st)
      | Some pending \<Rightarrow>
          let v = trim raw in
          if v = [] then (handled ''Input cannot be empty. Type /setup cancel to abort.'', st)
          else if starts_with v ''/'' then
            (if is_cancel v then (handled ''Cancelled active setup flow.'', drop_pending sessionId st)
             else (handled ''Setup flow is waiting for a value. Type /setup cancel to abort before using other slash commands.'', st))
          else
            (case pd_step pending of
               StepIdentifier \<Rightarrow>
                 let nxt = pending\<lparr>pd_identifier := Some v, pd_step := StepAuthMode\<rparr> in
                 (handled (promptForAuthMode (pd_service pending) @ saved_note nxt), put_pending sessionId nxt st)
             | StepAuthMode \<Rightarrow>
                 (case normalizeAuthMode v of
                    None \<Rightarrow>
                      (handled ''Invalid auth mode. Type password, password+mfa, or mfa. (or /setup mode password|password+mfa|mfa)'', st)
                  | Some authMode \<Rightarrow>
                      (handled (promptForSecret (pd_service pending) authMode @ saved_note pending),
                       put_pending sessionId (pending\<lparr>pd_authMode := Some authMode, pd_step := StepSecret\<rparr>) st))
             | StepSecret \<Rightarrow> saveSecret api sessionId pending raw st))"

definition handleSecureSetupFlow ::
  "'s vault_api \<Rightarrow> string \<Rightarrow> string \<Rightarrow> 's setup_state \<Rightarrow> reply \<times> 's setup_state" where
  "handleSecureSetupFlow api sessionId message st =
     (case handleSlashSetupCommand api sessionId message st of
        (Inr None, st1) \<Rightarrow> handlePendingSetupInput api sessionId message st1
      | (r, st1) \<Rightarrow> (r, st1))"

record setup_view =
  sv_service :: string
  sv_step :: setup_step
  sv_authMode :: "auth_mode option"
  sv_hasIdentifier :: bool

definition getSetupFlowState :: "string \<Rightarrow> 's setup_state \<Rightarrow> setup_view option" where
  "getSetupFlowState sessionId st =
     map_option (\<lambda>p. \<lparr>sv_service = pd_service p, sv_step = pd_step p, sv_authMode = pd_authMode p,
                     sv_hasIdentifier = (trim (opt_str (pd_identifier p)) \<noteq> [])\<rparr>) (pending_of st sessionId)"

definition resetSetupFlowState :: "'s setup_state \<Rightarrow> 's setup_state" where
  "resetSetupFlowState st = st\<lparr>pendingBySessionId := []\<rparr>"

text \<open>The dialogue over the credential vault of one workspace.\<close>

definition workspace_api ::
  "'k vault_crypto \<Rightarrow> (string \<Rightarrow> string option) \<Rightarrow> 'k vault_env \<Rightarrow> string \<Rightarrow> vault_state vault_api" where
  "workspace_api cr host env dir =
     \<lparr>va_normalize = normalizeSetupService host, va_set = setCredential cr host env dir,
      va_delete = deleteCredential cr host env dir, va_list = listConfiguredServices cr host env dir\<rparr>"

section \<open>What the dialogue relies on\<close>

text \<open>
  The contract of a vault as the dialogue uses it: a map from services to logins behind the
  operations. The results are independent of the secret, so no error text can carry it.
\<close>

locale login_store =
  fixes holds :: "'s \<Rightarrow> logins \<Rightarrow> bool"
    and api :: "'s vault_api"
  assumes set_law: "holds v m \<Longrightarrow> params_ok params \<Longrightarrow> va_normalize api (cp_service params) = Some s \<Longrightarrow>
        va_normalize api s = Some s \<Longrightarrow>
        \<exists>v2. va_set api params v = (Inr (s, m s = None \<and> \<not> inherited_member s), v2) \<and> holds v2 (put_login s (params_login params) m)"
    and delete_law: "holds v m \<Longrightarrow> va_normalize api input = Some s \<Longrightarrow>
        \<exists>v2. va_delete api input v = (Inr (m s \<noteq> None \<or> inherited_member s), v2) \<and> holds v2 (m(s := None))"
    and secret_free: "secret \<noteq> [] \<Longrightarrow> secret' \<noteq> [] \<Longrightarrow>
        fst (va_set api (params\<lparr>cp_secret := secret\<rparr>) v) = fst (va_set api (params\<lparr>cp_secret := secret'\<rparr>) v)"

lemmas pending_defs = put_pending_def drop_pending_def pending_of_def

lemma pending_put [simp]: "pending_of (put_pending sid p st) sid' = (if sid' = sid then Some p else pending_of st sid')"
  by (simp add: pending_defs store_simps)

lemma pending_drop [simp]: "pending_of (drop_pending sid st) sid' = (if sid' = sid then None else pending_of st sid')"
  by (simp add: pending_defs store_simps)

lemma pending_vault [simp]: "pending_of (st\<lparr>sf_vault := v\<rparr>) = pending_of st"
  by (simp add: pending_of_def fun_eq_iff)

lemma vault_put [simp]: "sf_vault (put_pending sid p st) = sf_vault st" "sf_vault (drop_pending sid st) = sf_vault st"
  by (simp_all add: pending_defs)

text \<open>A value that is not a command, as the steps of the dialogue expect it.\<close>

definition plain_value :: "string \<Rightarrow> bool" where
  "plain_value s \<longleftrightarrow> trim s \<noteq> [] \<and> \<not> starts_with (trim s) ''/''"

lemma starts_with_setup: "starts_with s ''/setup'' \<Longrightarrow> starts_with s ''/''"
  unfolding starts_with_def by (auto simp: prefix_def)

lemma plain_goes_to_pending:
  "plain_value message \<Longrightarrow>
   handleSecureSetupFlow api sid message st = handlePendingSetupInput api sid message st"
  using starts_with_setup [of "trim message"]
  by (auto simp: handleSecureSetupFlow_def handleSlashSetupCommand_def plain_value_def Let_def)

lemma step_identifier:
  assumes "plain_value ident" "pending_of st sid = Some p" "pd_step p = StepIdentifier"
  shows "snd (handleSecureSetupFlow api sid ident st) =
    put_pending sid (p\<lparr>pd_identifier := Some (trim ident), pd_step := StepAuthMode\<rparr>) st"
  unfolding plain_goes_to_pending [OF assms(1)] handlePendingSetupInput_def
  using assms by (simp add: plain_value_def Let_def)

lemma step_mode:
  assumes "plain_value mode" "normalizeAuthMode mode = Some a" "pending_of st sid = Some p" "pd_step p = StepAuthMode"
  shows "snd (handleSecureSetupFlow api sid mode st) =
    put_pending sid (p\<lparr>pd_authMode := Some a, pd_step := StepSecret\<rparr>) st"
proof -
  have "normalizeAuthMode (trim mode) = Some a" using assms(2) by (simp add: normalizeAuthMode_def)
  then show ?thesis
    unfolding plain_goes_to_pending [OF assms(1)] handlePendingSetupInput_def
    using assms by (simp add: plain_value_def Let_def)
qed

lemma step_secret:
  assumes "plain_value secret" "pending_of st sid = Some p" "pd_step p = StepSecret"
  shows "handleSecureSetupFlow api sid secret st = saveSecret api sid p secret st"
  unfolding plain_goes_to_pending [OF assms(1)] handlePendingSetupInput_def
  using assms by (simp add: plain_value_def Let_def)

definition RESERVED :: "string list" where
  "RESERVED = [''list'', ''cancel'', ''clear'', ''mode'']"

lemma words_two:
  assumes "w \<noteq> []" "\<forall>c \<in> set w. \<not> is_ws c"
  shows "js_words (''/setup '' @ w) = [''/setup'', w]"
proof -
  have acc: "words_acc acc w = [rev acc @ w]" if "acc \<noteq> [] \<or> w \<noteq> []" "\<forall>c \<in> set w. \<not> is_ws c" for acc w
    using that by (induction w arbitrary: acc) auto
  have "js_words (''/setup '' @ w) = ''/setup'' # words_acc [] w"
    unfolding js_words_def by (simp add: is_ws_code code_of_def)
  then show ?thesis using acc [of "[]" w] assms by simp
qed

lemma trim_command:
  assumes "w \<noteq> []" "\<forall>c \<in> set w. \<not> is_ws c"
  shows "trim (''/setup '' @ w) = ''/setup '' @ w"
proof (rule trim_id)
  have "\<not> is_ws (CHR ''/'')" by code_simp
  then show "''/setup '' @ w = [] \<or> \<not> is_ws (hd (''/setup '' @ w)) \<and> \<not> is_ws (last (''/setup '' @ w))"
    using assms by simp
qed

lemma step_command:
  assumes "w \<noteq> []" "\<forall>c \<in> set w. \<not> is_ws c" "to_lower w \<notin> set RESERVED" "va_normalize api (to_lower w) = Some s"
  shows "snd (handleSecureSetupFlow api sid (''/setup '' @ w) st) =
    put_pending sid \<lparr>pd_service = s, pd_step = StepIdentifier, pd_authMode = None, pd_identifier = None\<rparr> st"
proof -
  have "starts_with (''/setup '' @ w) ''/setup''" by (simp add: starts_with_def)
  moreover have "word_at 1 [''/setup'', w] = w" by (simp add: word_at_def)
  moreover have "trim w = w" using assms(2) by (rule trim_nonblank)
  ultimately show ?thesis
    using assms(3,4)
    unfolding handleSecureSetupFlow_def handleSlashSetupCommand_def Let_def trim_command [OF assms(1,2)] words_two [OF assms(1,2)] RESERVED_def
    by (simp add: handled_def)
qed

text \<open>Several messages, each with its session, one after the other.\<close>

definition talk :: "'s vault_api \<Rightarrow> (string \<times> string) list \<Rightarrow> 's setup_state \<Rightarrow> 's setup_state" where
  "talk api msgs st = fold (\<lambda>(sid, message) st. snd (handleSecureSetupFlow api sid message st)) msgs st"

lemma secretParams_ok:
  assumes "plain_value secret" "trim (opt_str (pd_identifier p)) \<noteq> []"
  shows "params_ok (secretParams p secret)"
  using assms by (auto simp: params_ok_def secretParams_def plain_value_def Let_def split: option.split) (metis auth_mode.exhaust)+

lemma secretParams_login:
  "params_login (secretParams p secret) =
     (trim (opt_str (pd_identifier p)),
      (if pd_authMode p = Some PasswordlessMfaCode then ''__PASSWORDLESS_MFA__'' else secret),
      (case pd_authMode p of Some a \<Rightarrow> a | None \<Rightarrow> Password))"
  by (auto simp: params_login_def secretParams_def Let_def split: option.split) (metis auth_mode.exhaust)+

context login_store begin

lemma save_stores:
  assumes "holds (sf_vault st) m" "plain_value secret" "trim (opt_str (pd_identifier p)) \<noteq> []"
    and "va_normalize api (pd_service p) = Some (pd_service p)"
  shows "\<exists>v2. snd (saveSecret api sid p secret st) = drop_pending sid (st\<lparr>sf_vault := v2\<rparr>)
    \<and> holds v2 (put_login (pd_service p) (params_login (secretParams p secret)) m)"
proof -
  have "va_normalize api (cp_service (secretParams p secret)) = Some (pd_service p)"
    using assms(4) by (simp add: secretParams_def Let_def)
  from set_law [OF assms(1) secretParams_ok [OF assms(2,3)] this assms(4)] obtain v2 where
    "va_set api (secretParams p secret) (sf_vault st) = (Inr (pd_service p, m (pd_service p) = None \<and> \<not> inherited_member (pd_service p)), v2)"
    "holds v2 (put_login (pd_service p) (params_login (secretParams p secret)) m)" by blast
  then show ?thesis using assms(3) by (auto simp: saveSecret_def)
qed

lemma dialogue_stores:
  assumes "holds (sf_vault st) m" "w \<noteq> []" "\<forall>c \<in> set w. \<not> is_ws c" "to_lower w \<notin> set RESERVED"
    and "va_normalize api (to_lower w) = Some s" "va_normalize api s = Some s"
    and "plain_value ident" "plain_value mode" "normalizeAuthMode mode = Some a" "plain_value secret"
    and "st4 = talk api [(sid, ''/setup '' @ w), (sid, ident), (sid, mode), (sid, secret)] st"
  shows "pending_of st4 = (pending_of st)(sid := None)
    \<and> holds (sf_vault st4) (put_login s (trim ident, (if a = PasswordlessMfaCode then ''__PASSWORDLESS_MFA__'' else secret), a) m)"
proof -
  let ?p = "\<lparr>pd_service = s, pd_step = StepSecret, pd_authMode = Some a, pd_identifier = Some (trim ident)\<rparr>"
  define st1 where "st1 = snd (handleSecureSetupFlow api sid (''/setup '' @ w) st)"
  define st2 where "st2 = snd (handleSecureSetupFlow api sid ident st1)"
  define st3 where "st3 = snd (handleSecureSetupFlow api sid mode st2)"
  have st1: "st1 = put_pending sid \<lparr>pd_service = s, pd_step = StepIdentifier, pd_authMode = None, pd_identifier = None\<rparr> st"
    unfolding st1_def by (rule step_command [OF assms(2-5)])
  have st2: "st2 = put_pending sid
      \<lparr>pd_service = s, pd_step = StepAuthMode, pd_authMode = None, pd_identifier = Some (trim ident)\<rparr> st1"
    unfolding st2_def using step_identifier [OF assms(7), of st1 sid] by (simp add: st1)
  have st3: "st3 = put_pending sid ?p st2"
    unfolding st3_def using step_mode [OF assms(8,9), of st2 sid] by (simp add: st2)
  have "st4 = snd (handleSecureSetupFlow api sid secret st3)"
    unfolding assms(11) talk_def st3_def st2_def st1_def by simp
  then have "st4 = snd (saveSecret api sid ?p secret st3)"
    using step_secret [OF assms(10), of st3 sid ?p] by (simp add: st3)
  moreover obtain v2 where "snd (saveSecret api sid ?p secret st3) = drop_pending sid (st3\<lparr>sf_vault := v2\<rparr>)"
    "holds v2 (put_login s (params_login (secretParams ?p secret)) m)"
    using save_stores [of st3 m secret ?p sid] assms(1,6,7,10) by (auto simp: st1 st2 st3 opt_str_def plain_value_def)
  ultimately show ?thesis
    by (auto simp: st1 st2 st3 secretParams_login opt_str_def fun_eq_iff)
qed

lemma reply_secret_free:
  assumes "pending_of st sid = Some p" "pd_step p = StepSecret" "pd_authMode p \<noteq> Some PasswordlessMfaCode"
    and "plain_value secret" "plain_value secret'"
  shows "fst (handleSecureSetupFlow api sid secret st) = fst (handleSecureSetupFlow api sid secret' st)"
proof -
  have pw: "secretParams p x = (secretParams p [])\<lparr>cp_secret := x\<rparr>" for x
    using assms(3) by (auto simp: secretParams_def Let_def split: option.split) (metis auth_mode.exhaust)+
  have "secret \<noteq> []" "secret' \<noteq> []" using assms(4,5) by (auto simp: plain_value_def)
  then have "fst (va_set api (secretParams p secret) (sf_vault st)) = fst (va_set api (secretParams p secret') (sf_vault st))"
    unfolding pw [of secret] pw [of secret'] by (rule secret_free)
  then show ?thesis
    unfolding step_secret [OF assms(4,1,2)] step_secret [OF assms(5,1,2)] saveSecret_def
    by (auto split: prod.splits sum.splits)
qed

end

interpretation vault: login_store
  "\<lambda>v m. env_iv env \<noteq> [] \<and> vault_holds cr host dir v m" "workspace_api cr host env dir"
proof unfold_locales
  fix secret secret' :: string and params v
  assume "secret \<noteq> []" "secret' \<noteq> []"
  then show "fst (va_set (workspace_api cr host env dir) (params\<lparr>cp_secret := secret\<rparr>) v) =
      fst (va_set (workspace_api cr host env dir) (params\<lparr>cp_secret := secret'\<rparr>) v)"
    by (auto simp: workspace_api_def setCredential_def split: option.split prod.split sum.split)
qed (use set_refines delete_refines in \<open>auto simp: workspace_api_def stable_def\<close>)

section \<open>Reachable dialogues\<close>

definition pending_ok :: "'s vault_api \<Rightarrow> pending_setup \<Rightarrow> bool" where
  "pending_ok api p \<longleftrightarrow> Some (pd_service p) \<in> range (va_normalize api)
     \<and> (case pd_step p of
           StepIdentifier \<Rightarrow> pd_identifier p = None \<and> pd_authMode p = None
         | StepAuthMode \<Rightarrow> (\<exists>i. pd_identifier p = Some i \<and> plain_value i \<and> trim i = i) \<and> pd_authMode p = None
         | StepSecret \<Rightarrow> (pd_identifier p = None \<or> (\<exists>i. pd_identifier p = Some i \<and> plain_value i \<and> trim i = i))
             \<and> pd_authMode p \<noteq> None)"

inductive setup_reachable :: "'s vault_api \<Rightarrow> 's setup_state \<Rightarrow> bool" for api where
  start: "setup_reachable api \<lparr>pendingBySessionId = [], sf_vault = v\<rparr>"
| message: "setup_reachable api st \<Longrightarrow> setup_reachable api (snd (handleSecureSetupFlow api sid msg st))"
| reset: "setup_reachable api st \<Longrightarrow> setup_reachable api (resetSetupFlowState st)"

lemma slash_pending:
  "pending_of (snd (handleSlashSetupCommand api sid msg st)) sid' = Some p \<Longrightarrow>
   pending_of st sid' = Some p
   \<or> sid' = sid \<and> (\<exists>q a. pending_of st sid = Some q \<and> p = q\<lparr>pd_authMode := Some a, pd_step := StepSecret\<rparr>)
   \<or> sid' = sid \<and> (\<exists>i s. va_normalize api i = Some s
       \<and> p = \<lparr>pd_service = s, pd_step = StepIdentifier, pd_authMode = None, pd_identifier = None\<rparr>)"
  unfolding handleSlashSetupCommand_def setupList_def setupClear_def setupMode_def Let_def
  by (auto split: if_splits option.splits prod.splits sum.splits)

lemma input_pending:
  "pending_of (snd (handlePendingSetupInput api sid msg st)) sid' = Some p \<Longrightarrow>
   pending_of st sid' = Some p
   \<or> sid' = sid \<and> (\<exists>q. pending_of st sid = Some q \<and> plain_value msg
       \<and> (p = q\<lparr>pd_identifier := Some (trim msg), pd_step := StepAuthMode\<rparr> \<and> pd_step q = StepIdentifier
          \<or> (\<exists>a. p = q\<lparr>pd_authMode := Some a, pd_step := StepSecret\<rparr> \<and> pd_step q = StepAuthMode)))"
  unfolding handlePendingSetupInput_def saveSecret_def plain_value_def Let_def
  by (auto split: if_splits option.splits prod.splits sum.splits setup_step.splits)

lemma plain_trim [simp]: "plain_value (trim s) = plain_value s"
  by (simp add: plain_value_def)

lemma pending_ok_mode: "pending_ok api q \<Longrightarrow> pending_ok api (q\<lparr>pd_authMode := Some a, pd_step := StepSecret\<rparr>)"
  by (auto simp: pending_ok_def split: setup_step.splits)

lemma pending_ok_identifier:
  "pending_ok api q \<Longrightarrow> pd_step q = StepIdentifier \<Longrightarrow> plain_value msg \<Longrightarrow>
   pending_ok api (q\<lparr>pd_identifier := Some (trim msg), pd_step := StepAuthMode\<rparr>)"
  by (simp add: pending_ok_def)

lemma pending_ok_start:
  "va_normalize api i = Some s \<Longrightarrow>
   pending_ok api \<lparr>pd_service = s, pd_step = StepIdentifier, pd_authMode = None, pd_identifier = None\<rparr>"
  unfolding pending_ok_def by (simp add: image_iff) metis

lemma slash_pending_ok:
  assumes "\<And>sid p. pending_of st sid = Some p \<Longrightarrow> pending_ok api p"
    and "pending_of (snd (handleSlashSetupCommand api sid msg st)) sid' = Some p"
  shows "pending_ok api p"
  using slash_pending [OF assms(2)] assms(1) pending_ok_mode pending_ok_start by metis

lemma input_pending_ok:
  assumes "\<And>sid p. pending_of st sid = Some p \<Longrightarrow> pending_ok api p"
    and "pending_of (snd (handlePendingSetupInput api sid msg st)) sid' = Some p"
  shows "pending_ok api p"
  using input_pending [OF assms(2)]
proof (elim disjE conjE exE)
  fix q
  assume q: "pending_of st sid = Some q" "plain_value msg" "pd_step q = StepIdentifier"
    and p: "p = q\<lparr>pd_identifier := Some (trim msg), pd_step := StepAuthMode\<rparr>"
  show ?thesis unfolding p by (rule pending_ok_identifier [OF assms(1) [OF q(1)] q(3,2)])
next
  fix q a
  assume q: "pending_of st sid = Some q" and p: "p = q\<lparr>pd_authMode := Some a, pd_step := StepSecret\<rparr>"
  show ?thesis unfolding p by (rule pending_ok_mode [OF assms(1) [OF q]])
qed (rule assms(1))

lemma flow_pending_ok:
  assumes "\<And>sid p. pending_of st sid = Some p \<Longrightarrow> pending_ok api p"
    and "pending_of (snd (handleSecureSetupFlow api sid msg st)) sid' = Some p"
  shows "pending_ok api p"
proof (cases "handleSlashSetupCommand api sid msg st")
  case (Pair r st1)
  have st1: "pending_ok api q" if "pending_of st1 s = Some q" for s q
  proof (rule slash_pending_ok)
    show "pending_of (snd (handleSlashSetupCommand api sid msg st)) s = Some q" using that Pair by simp
  qed (rule assms(1))
  show ?thesis
  proof (cases "r = Inr None")
    case True
    then have "pending_of (snd (handlePendingSetupInput api sid msg st1)) sid' = Some p"
      using assms(2) Pair by (simp add: handleSecureSetupFlow_def)
    then show ?thesis by (rule input_pending_ok [rotated]) (rule st1)
  next
    case False
    then have "pending_of st1 sid' = Some p"
      using assms(2) Pair by (auto simp: handleSecureSetupFlow_def split: sum.splits option.splits)
    then show ?thesis by (rule st1)
  qed
qed

lemma flow_other_sessions:
  assumes "other \<noteq> sid"
  shows "pending_of (snd (handleSecureSetupFlow api sid msg st)) other = pending_of st other"
proof -
  have "pending_of (snd (handleSlashSetupCommand api sid msg s)) other = pending_of s other" for s
    using assms unfolding handleSlashSetupCommand_def setupList_def setupClear_def setupMode_def Let_def
    by (auto split: option.split prod.split sum.split)
  moreover have "pending_of (snd (handlePendingSetupInput api sid msg s)) other = pending_of s other" for s
    using assms unfolding handlePendingSetupInput_def saveSecret_def Let_def
    by (auto split: option.split prod.split sum.split setup_step.split)
  ultimately show ?thesis
    unfolding handleSecureSetupFlow_def by (auto split: prod.split sum.split option.split) (metis snd_conv)+
qed

section \<open>Properties\<close>

text \<open>
  C14. Whatever messages arrive, a pending setup is well formed: its service is a normalised
  name, it has neither identifier nor mode while the identifier is asked for, a non-blank
  trimmed identifier and no mode while the mode is asked for, and a mode while the secret is
  asked for, with the identifier missing only when the mode was set by command before it.
  A message of one session leaves the setups of all other sessions alone.
\<close>

theorem reachable_setup_ok:
  assumes "setup_reachable api st"
  shows "(case pending_of st sid of None \<Rightarrow> True | Some p \<Rightarrow> pending_ok api p)
    \<and> (sid \<noteq> sid' \<longrightarrow> pending_of (snd (handleSecureSetupFlow api sid' msg st)) sid = pending_of st sid)"
proof -
  have "pending_of st sid = Some p \<Longrightarrow> pending_ok api p" for sid p
    using assms
  proof (induction arbitrary: sid p rule: setup_reachable.induct)
    case (message st sid0 msg)
    show ?case by (rule flow_pending_ok [OF _ message.prems]) (rule message.IH)
  qed (simp_all add: pending_of_def resetSetupFlowState_def)
  then show ?thesis using flow_other_sessions [of sid sid' api msg st] by (auto split: option.split)
qed


text \<open>
  A secret is never part of a reply: while a session is asked for a password, any two
  values it may type instead of each other get the same answer, from a vault in any state.
\<close>

theorem secret_not_echoed:
  assumes "pending_of st sid = Some p" and "pd_step p = StepSecret" and "pd_authMode p \<noteq> Some PasswordlessMfaCode"
    and "plain_value secret" and "plain_value secret'"
  shows "fst (handleSecureSetupFlow (workspace_api cr host env dir) sid secret st) =
    fst (handleSecureSetupFlow (workspace_api cr host env dir) sid secret' st)"
  using assms by (rule vault.reply_secret_free)

text \<open>A dialogue over an empty vault.\<close>

definition demo_api :: "vault_state vault_api" where
  "demo_api = workspace_api demo_crypto no_url demo_env ''/w''"

definition demo_setup :: "vault_state setup_state" where
  "demo_setup = \<lparr>pendingBySessionId = [], sf_vault = empty_vault\<rparr>"

theorem reachable_setup_ok_witness:
  "case pending_of (snd (handleSecureSetupFlow demo_api ''s'' ''/setup mail'' demo_setup)) ''s'' of
     None \<Rightarrow> False | Some p \<Rightarrow> pending_ok demo_api p"
proof -
  have "setup_reachable demo_api (snd (handleSecureSetupFlow demo_api ''s'' ''/setup mail'' demo_setup))"
    unfolding demo_setup_def by (intro setup_reachable.intros)
  from reachable_setup_ok [OF this, of "''s''"]
  have "case pending_of (snd (handleSecureSetupFlow demo_api ''s'' ''/setup mail'' demo_setup)) ''s'' of
      None \<Rightarrow> True | Some p \<Rightarrow> pending_ok demo_api p" by blast
  moreover have "normalizeSetupService no_url (to_lower ''mail'') = Some ''email''" by code_simp
  then have "va_normalize demo_api (to_lower ''mail'') = Some ''email''" by (simp add: demo_api_def workspace_api_def)
  moreover have "list_all (\<lambda>c. \<not> is_ws c) ''mail''" "to_lower ''mail'' \<notin> set RESERVED" by code_simp+
  ultimately show ?thesis using step_command [of "''mail''" demo_api "''email''" "''s''" demo_setup] by (simp add: list_all_iff)
qed


theorem secret_not_echoed_witness:
  "fst (handleSecureSetupFlow demo_api ''s'' ''hunter2'' (put_pending ''s''
      \<lparr>pd_service = ''email'', pd_step = StepSecret, pd_authMode = Some Password, pd_identifier = Some ''me''\<rparr> demo_setup)) =
   fst (handleSecureSetupFlow demo_api ''s'' ''letmein'' (put_pending ''s''
      \<lparr>pd_service = ''email'', pd_step = StepSecret, pd_authMode = Some Password, pd_identifier = Some ''me''\<rparr> demo_setup))"
  unfolding demo_api_def
proof (rule secret_not_echoed [where p = "\<lparr>pd_service = ''email'', pd_step = StepSecret, pd_authMode = Some Password, pd_identifier = Some ''me''\<rparr>"])
  show "plain_value ''hunter2''" "plain_value ''letmein''" by code_simp+
qed simp_all

end
