(* ===== verification/Self_Protection.thy ===== *)
theory Self_Protection
  imports Posix_Path
begin

text \<open>
  The self-protection policy of the exec tool, \<open>src/agents/self-protection.ts\<close>: splitting a command
  into shell segments, tokenising, finding the command name, and blocking power control,
  destructive git commands, deletions and moves whose target covers a protected path, also
  inside \<open>sh -c\<close> scripts. Throwing is an \<open>Inl\<close> with the message. The process directory and the home
  directory are parameters, and so is the install root that \<open>infra/openclaw-root.ts\<close> detects from
  the file system. The checker recurses into inline scripts; a script is a token of the
  segment, so it is shorter, which is the termination argument. The lemmas show when a plain
  \<open>rm\<close> is blocked, that wrapping a script in a shell changes no verdict, and that a newline hides a
  command.
\<close>

section \<open>Paths and policies\<close>

record process_env =
  pcwd :: string
  homedir :: string

record protected_entry =
  pe_raw :: string
  pe_absolute :: string

record protection_policy =
  pol_enabled :: bool
  pol_installRoot :: string
  pol_protectedPaths :: "protected_entry list"

record token_path =
  tp_raw :: string
  tp_absolute :: string
  tp_wildcard :: bool

definition DEFAULT_SELF_PROTECTED_PATHS :: "string list" where
  "DEFAULT_SELF_PROTECTED_PATHS = [''.'', ''src/cli'', ''dist/cli'', ''cli'', ''src/bin'', ''dist/bin'', ''bin'']"

definition isPathInside :: "process_env \<Rightarrow> string \<Rightarrow> string \<Rightarrow> bool" where
  "isPathInside env root target =
     (let relative = path_relative (pcwd env) (path_resolve (pcwd env) root) (path_resolve (pcwd env) target)
      in relative = [] \<or> \<not> starts_with relative ''..'' \<and> \<not> is_absolute relative)"

definition expandHome :: "process_env \<Rightarrow> string \<Rightarrow> string" where
  "expandHome env raw =
     (let trimmed = trim raw in
      if trimmed = ''~'' then homedir env
      else if starts_with trimmed ''~/'' then path_join (homedir env) (drop 2 trimmed)
      else trimmed)"

definition resolvePathFromBase :: "process_env \<Rightarrow> string \<Rightarrow> string \<Rightarrow> string" where
  "resolvePathFromBase env raw baseDir =
     (let expanded = expandHome env raw in
      if is_absolute expanded then path_resolve (pcwd env) expanded
      else resolve_from (pcwd env) baseDir expanded)"

fun dedupeLoop :: "process_env \<Rightarrow> string list \<Rightarrow> protected_entry list \<Rightarrow> protected_entry list" where
  "dedupeLoop env seen [] = []"
| "dedupeLoop env seen (e # es) =
     (let key = path_resolve (pcwd env) (pe_absolute e) in
      if key \<in> set seen then dedupeLoop env seen es
      else \<lparr>pe_raw = pe_raw e, pe_absolute = key\<rparr> # dedupeLoop env (seen @ [key]) es)"

definition dedupeProtectedPaths :: "process_env \<Rightarrow> protected_entry list \<Rightarrow> protected_entry list" where
  "dedupeProtectedPaths env entries = dedupeLoop env [] entries"

definition containsWildcard :: "string \<Rightarrow> bool" where
  "containsWildcard raw \<longleftrightarrow> list_ex (\<lambda>c. c \<in> set ''*?[]{}'') raw"

section \<open>Splitting and tokenising\<close>

definition BACKSLASH :: char where "BACKSLASH = CHR 0x5C"
definition SQUOTE :: char where "SQUOTE = CHR 0x27"
definition DQUOTE :: char where "DQUOTE = CHR 0x22"

definition push_trimmed :: "string \<Rightarrow> string list" where
  "push_trimmed current = (if trim current \<noteq> [] then [trim current] else [])"

text \<open>
  The loop of \<open>splitShellSegments\<close>: the text read so far, the open quote, the escape flag. A
  doubled \<open>||\<close> or \<open>&&\<close> counts as one break.
\<close>

function segLoop :: "string \<Rightarrow> char option \<Rightarrow> bool \<Rightarrow> string \<Rightarrow> string list" where
  "segLoop current quote escaped [] = push_trimmed current"
| "segLoop current quote escaped (ch # rest) =
     (if escaped then segLoop (current @ [ch]) quote False rest
      else if ch = BACKSLASH \<and> quote \<noteq> Some SQUOTE then segLoop (current @ [ch]) quote True rest
      else if quote \<noteq> None then segLoop (current @ [ch]) (if quote = Some ch then None else quote) False rest
      else if ch = SQUOTE \<or> ch = DQUOTE then segLoop (current @ [ch]) (Some ch) False rest
      else if ch \<in> set '';|&'' then
        push_trimmed current
        @ segLoop [] None False
            (if (ch = CHR ''|'' \<or> ch = CHR ''&'') \<and> rest \<noteq> [] \<and> hd rest = ch then tl rest else rest)
      else segLoop (current @ [ch]) quote False rest)"
  by pat_completeness auto
termination
  by (relation "measure (\<lambda>(cur, q, e, s). length s)") auto

definition splitShellSegments :: "string \<Rightarrow> string list" where
  "splitShellSegments command = segLoop [] None False command"

definition flush :: "string \<Rightarrow> string list" where
  "flush current = (if current = [] then [] else [current])"

fun tokLoop :: "string \<Rightarrow> char option \<Rightarrow> bool \<Rightarrow> string \<Rightarrow> string list" where
  "tokLoop current quote escaped [] = flush current"
| "tokLoop current quote escaped (ch # rest) =
     (if escaped then tokLoop (current @ [ch]) quote False rest
      else if ch = BACKSLASH \<and> quote \<noteq> Some SQUOTE then tokLoop current quote True rest
      else if quote \<noteq> None then
        (if quote = Some ch then tokLoop current None False rest
         else tokLoop (current @ [ch]) quote False rest)
      else if ch = SQUOTE \<or> ch = DQUOTE then tokLoop current (Some ch) False rest
      else if is_ws ch then flush current @ tokLoop [] quote False rest
      else tokLoop (current @ [ch]) quote False rest)"

definition tokenizeShell :: "string \<Rightarrow> string list" where
  "tokenizeShell segment = tokLoop [] None False segment"

text \<open>\<open>/^[A-Za-z_][A-Za-z0-9_]*=.*/\<close>\<close>

definition isEnvAssignmentToken :: "string \<Rightarrow> bool" where
  "isEnvAssignmentToken token =
     (case token of
        [] \<Rightarrow> False
      | c # cs \<Rightarrow> (is_upper c \<or> is_lower c \<or> c = CHR ''_'')
                  \<and> (case dropWhile is_word_char cs of [] \<Rightarrow> False | d # _ \<Rightarrow> d = CHR ''=''))"

definition skip_from :: "(string \<Rightarrow> bool) \<Rightarrow> string list \<Rightarrow> nat \<Rightarrow> nat" where
  "skip_from P tokens idx = idx + length (takeWhile P (drop idx tokens))"

definition findCommandTokenIndex :: "string list \<Rightarrow> nat option" where
  "findCommandTokenIndex tokens =
     (let idx = skip_from isEnvAssignmentToken tokens 0 in
      if length tokens \<le> idx then None
      else
        let idx = (if tokens ! idx = ''env''
                   then skip_from (\<lambda>t. starts_with t ''-'' \<or> isEnvAssignmentToken t) tokens (Suc idx) else idx)
        in if length tokens \<le> idx then None
           else
             let idx = (if tokens ! idx = ''sudo''
                        then skip_from isEnvAssignmentToken tokens
                               (skip_from (\<lambda>t. starts_with t ''-'') tokens (Suc idx)) else idx)
             in if idx < length tokens then Some idx else None)"

definition resolveTokenPath :: "process_env \<Rightarrow> string \<Rightarrow> string \<Rightarrow> token_path option" where
  "resolveTokenPath env raw cwd =
     (let token = trim raw in
      if token = [] \<or> starts_with token ''-'' then None
      else if str_includes token ''$('' \<or> str_includes token ''${'' \<or> str_includes token [CHR 0x60] then None
      else Some \<lparr>tp_raw = token, tp_absolute = resolvePathFromBase env token cwd, tp_wildcard = containsWildcard token\<rparr>)"

section \<open>Verdicts\<close>

type_synonym verdict = "unit result"

definition formatProtectedPath :: "process_env \<Rightarrow> protected_entry \<Rightarrow> string \<Rightarrow> string" where
  "formatProtectedPath env e installRoot =
     (let relative = path_relative (pcwd env) installRoot (pe_absolute e) in
      if relative = [] \<or> relative = ''.'' then pe_absolute e
      else pe_absolute e @ '' ('' @ relative @ '')'')"

definition blockedDelete :: "process_env \<Rightarrow> string \<Rightarrow> token_path \<Rightarrow> protected_entry \<Rightarrow> string \<Rightarrow> string" where
  "blockedDelete env command target e installRoot =
     js_join '' '' [''Blocked destructive command by self-protection policy.'', ''Command: '' @ command,
       ''Target: '' @ tp_raw target, ''Protected path: '' @ formatProtectedPath env e installRoot]"

definition covers :: "process_env \<Rightarrow> token_path \<Rightarrow> protected_entry \<Rightarrow> bool" where
  "covers env target e \<longleftrightarrow>
     isPathInside env (tp_absolute target) (pe_absolute e)
     \<or> tp_wildcard target \<and> (isPathInside env (tp_absolute target) (pe_absolute e)
                              \<or> isPathInside env (pe_absolute e) (tp_absolute target))"

fun blockIfTargetCoversProtected ::
  "process_env \<Rightarrow> string \<Rightarrow> token_path list \<Rightarrow> protected_entry list \<Rightarrow> string \<Rightarrow> verdict" where
  "blockIfTargetCoversProtected env command [] es installRoot = Inr ()"
| "blockIfTargetCoversProtected env command (t # ts) es installRoot =
     (case find (covers env t) es of
        Some e \<Rightarrow> Inl (blockedDelete env command t e installRoot)
      | None \<Rightarrow> blockIfTargetCoversProtected env command ts es installRoot)"

text \<open>The arguments left after options; everything counts once \<open>--\<close> was seen.\<close>

fun positionals :: "bool \<Rightarrow> string list \<Rightarrow> string list" where
  "positionals passthrough [] = []"
| "positionals passthrough (t # ts) =
     (if \<not> passthrough \<and> t = ''--'' then positionals True ts
      else if \<not> passthrough \<and> starts_with t ''-'' then positionals passthrough ts
      else t # positionals passthrough ts)"

definition parseDeleteTargets :: "process_env \<Rightarrow> string list \<Rightarrow> nat \<Rightarrow> string \<Rightarrow> token_path list" where
  "parseDeleteTargets env tokens commandIndex cwd =
     (let out = List.map_filter (\<lambda>t. resolveTokenPath env t cwd) (positionals False (drop (Suc commandIndex) tokens)) in
      if out = [] then [\<lparr>tp_raw = ''.'', tp_absolute = path_resolve (pcwd env) cwd, tp_wildcard = False\<rparr>] else out)"

definition parseMoveSources :: "process_env \<Rightarrow> string list \<Rightarrow> nat \<Rightarrow> string \<Rightarrow> token_path list" where
  "parseMoveSources env tokens commandIndex cwd =
     (let positional = positionals False (drop (Suc commandIndex) tokens) in
      if length positional \<le> 1 then []
      else List.map_filter (\<lambda>t. resolveTokenPath env t cwd) (butlast positional))"

definition hasFlag :: "string list \<Rightarrow> string \<Rightarrow> string option \<Rightarrow> bool" where
  "hasFlag tokens longFlag shortFlag =
     list_ex (\<lambda>token.
       token = longFlag
       \<or> (case shortFlag of
            None \<Rightarrow> False
          | Some sf \<Rightarrow>
              token = sf
              \<or> starts_with sf ''-'' \<and> length sf = 2
                \<and> starts_with token ''-'' \<and> \<not> starts_with token ''--'' \<and> str_includes token (drop 1 sf))) tokens"

definition gitVerdict :: "process_env \<Rightarrow> string \<Rightarrow> string \<Rightarrow> protection_policy \<Rightarrow> verdict" where
  "gitVerdict env what cwd policy =
     (case find (\<lambda>e. isPathInside env (path_resolve (pcwd env) cwd) (pe_absolute e)) (pol_protectedPaths policy) of
        Some e \<Rightarrow> Inl (''Blocked destructive git '' @ what @ '' in protected directory: ''
                       @ formatProtectedPath env e (pol_installRoot policy))
      | None \<Rightarrow> Inr ())"

definition assertGitCommandAllowed ::
  "process_env \<Rightarrow> string list \<Rightarrow> nat \<Rightarrow> string \<Rightarrow> protection_policy \<Rightarrow> verdict" where
  "assertGitCommandAllowed env tokens commandIndex cwd policy =
     (let sub = (if Suc commandIndex < length tokens then to_lower (tokens ! Suc commandIndex) else []) in
      if sub = ''reset'' \<and> hasFlag tokens ''--hard'' None then gitVerdict env ''reset'' cwd policy
      else if sub = ''clean'' \<and> hasFlag tokens ''--force'' (Some ''-f'') then gitVerdict env ''clean'' cwd policy
      else Inr ())"

text \<open>\<open>/\bw\b/\<close> for a word that begins and ends with word characters.\<close>

fun has_word :: "string \<Rightarrow> char option \<Rightarrow> string \<Rightarrow> bool" where
  "has_word w prev [] = (w = [])"
| "has_word w prev (c # cs) =
     (prefix w (c # cs)
        \<and> (case prev of Some p \<Rightarrow> \<not> is_word_char p | None \<Rightarrow> True)
        \<and> (case drop (length w) (c # cs) of [] \<Rightarrow> True | d # _ \<Rightarrow> \<not> is_word_char d)
      \<or> has_word w (Some c) cs)"

definition POWER_MESSAGE :: string where
  "POWER_MESSAGE =
     ''Command blocked by safety policy. Power-control commands (shutdown/reboot/poweroff/halt) are not allowed via exec tool.''"

definition powerControl :: "string \<Rightarrow> string \<Rightarrow> string \<Rightarrow> bool" where
  "powerControl commandName nextToken joinedLower \<longleftrightarrow>
     commandName \<in> set [''shutdown'', ''reboot'', ''poweroff'', ''halt'']
     \<or> commandName \<in> set [''init'', ''telinit''] \<and> nextToken \<in> set [''0'', ''6'']
     \<or> commandName \<in> set [''systemctl'', ''loginctl'']
         \<and> nextToken \<in> set [''poweroff'', ''reboot'', ''halt'', ''suspend'', ''hibernate'', ''kexec'']
     \<or> commandName \<in> set [''cmd'', ''cmd.exe''] \<and> has_word ''shutdown'' None joinedLower
     \<or> commandName \<in> set [''powershell'', ''pwsh'']
         \<and> (has_word ''stop-computer'' None joinedLower \<or> has_word ''restart-computer'' None joinedLower
            \<or> has_word ''shutdown'' None joinedLower)"

text \<open>The scripts a shell is asked to run: the token behind each \<open>-c\<close> or \<open>-lc\<close>, unless blank.\<close>

fun inlineScripts :: "string list \<Rightarrow> string list" where
  "inlineScripts [] = []"
| "inlineScripts (t # ts) =
     (if t = ''-c'' \<or> t = ''-lc''
      then (case ts of [] \<Rightarrow> [] | s # _ \<Rightarrow> if trim s \<noteq> [] then s # inlineScripts ts else inlineScripts ts)
      else inlineScripts ts)"

fun first_error :: "('a \<Rightarrow> verdict) \<Rightarrow> 'a list \<Rightarrow> verdict" where
  "first_error f [] = Inr ()"
| "first_error f (x # xs) = (case f x of Inl e \<Rightarrow> Inl e | Inr _ \<Rightarrow> first_error f xs)"

lemma first_error_cong [fundef_cong]:
  "xs = ys \<Longrightarrow> (\<And>x. x \<in> set ys \<Longrightarrow> f x = g x) \<Longrightarrow> first_error f xs = first_error g ys"
proof (induction ys arbitrary: xs)
  case (Cons y ys)
  then have "f y = g y" "first_error f ys = first_error g ys" by auto
  then show ?case using Cons.prems(1) by (simp split: sum.split)
qed simp

definition DELETE_COMMANDS :: "string list" where
  "DELETE_COMMANDS = [''rm'', ''rmdir'', ''unlink'', ''shred'', ''wipefs'', ''mkfs'']"

text \<open>What follows the inline scripts in \<open>assertSegmentAllowed\<close>.\<close>

definition deletionVerdict ::
  "process_env \<Rightarrow> string \<Rightarrow> string list \<Rightarrow> nat \<Rightarrow> string \<Rightarrow> string \<Rightarrow> protection_policy \<Rightarrow> verdict" where
  "deletionVerdict env segment tokens commandIndex commandName cwd policy =
     (if commandName = ''git'' then assertGitCommandAllowed env tokens commandIndex cwd policy
      else if commandName = ''find'' \<and> list_ex (\<lambda>t. to_lower t = ''-delete'') tokens then
        let rootToken = (if Suc commandIndex < length tokens \<and> tokens ! Suc commandIndex \<noteq> []
                            \<and> \<not> starts_with (tokens ! Suc commandIndex) ''-''
                         then tokens ! Suc commandIndex else ''.'')
        in (case resolveTokenPath env rootToken cwd of
              Some r \<Rightarrow> blockIfTargetCoversProtected env segment [r] (pol_protectedPaths policy) (pol_installRoot policy)
            | None \<Rightarrow> Inr ())
      else if commandName = ''mv'' then
        blockIfTargetCoversProtected env segment (parseMoveSources env tokens commandIndex cwd)
          (pol_protectedPaths policy) (pol_installRoot policy)
      else if commandName \<notin> set DELETE_COMMANDS then Inr ()
      else blockIfTargetCoversProtected env segment (parseDeleteTargets env tokens commandIndex cwd)
             (pol_protectedPaths policy) (pol_installRoot policy))"

section \<open>The checker\<close>

lemma segLoop_length: "seg \<in> set (segLoop cur q e s) \<Longrightarrow> length seg \<le> length cur + length s"
proof (induction cur q e s rule: segLoop.induct)
  case (1 cur q e)
  then show ?case using length_trim_le [of cur] by (auto simp: push_trimmed_def split: if_splits)
next
  case (2 cur q e ch rest)
  let ?r = "if (ch = CHR ''|'' \<or> ch = CHR ''&'') \<and> rest \<noteq> [] \<and> hd rest = ch then tl rest else rest"
  have r: "length ?r \<le> length rest" by simp
  have push: "seg \<in> set (push_trimmed cur) \<Longrightarrow> length seg \<le> length cur"
    using length_trim_le [of cur] by (auto simp: push_trimmed_def split: if_splits)
  consider "e" | "\<not> e" "ch = BACKSLASH \<and> q \<noteq> Some SQUOTE" | "\<not> e" "\<not> (ch = BACKSLASH \<and> q \<noteq> Some SQUOTE)" "q \<noteq> None"
    | "\<not> e" "\<not> (ch = BACKSLASH \<and> q \<noteq> Some SQUOTE)" "q = None" "ch = SQUOTE \<or> ch = DQUOTE"
    | "\<not> e" "\<not> (ch = BACKSLASH \<and> q \<noteq> Some SQUOTE)" "q = None" "\<not> (ch = SQUOTE \<or> ch = DQUOTE)" "ch \<in> set '';|&''"
    | "\<not> e" "\<not> (ch = BACKSLASH \<and> q \<noteq> Some SQUOTE)" "q = None" "\<not> (ch = SQUOTE \<or> ch = DQUOTE)" "ch \<notin> set '';|&''"
    by blast
  then show ?case
  proof cases
    case 1
    with "2.prems" "2.IH"(1) show ?thesis by simp
  next
    case 2
    with "2.prems" "2.IH"(2) show ?thesis by simp
  next
    case 3
    with "2.prems" "2.IH"(3) show ?thesis by simp
  next
    case 4
    with "2.prems" "2.IH"(4) show ?thesis by simp
  next
    case 5
    then have "seg \<in> set (push_trimmed cur) \<or> seg \<in> set (segLoop [] None False ?r)"
      using "2.prems" by (simp only: segLoop.simps) (simp del: segLoop.simps set_simps)
    then show ?thesis using push "2.IH"(5) [OF 5(1,2)] 5(3-5) r by fastforce
  next
    case 6
    with "2.prems" "2.IH"(6) show ?thesis by simp
  qed
qed

lemma splitShellSegments_length: "seg \<in> set (splitShellSegments command) \<Longrightarrow> length seg \<le> length command"
  using segLoop_length [of seg "[]" None False command] by (simp add: splitShellSegments_def)

lemma tokLoop_length: "sum_list (map length (tokLoop cur q e s)) \<le> length cur + length s"
  by (induction cur q e s rule: tokLoop.induct) (auto simp: flush_def)

lemma sum_drop: "sum_list (map length (drop n ts)) \<le> sum_list (map length ts)"
proof (induction ts arbitrary: n)
  case (Cons t ts)
  then show ?case by (cases n) (auto intro: trans_le_add2)
qed simp

lemma inlineScripts_length: "s \<in> set (inlineScripts ts) \<Longrightarrow> length s + 2 \<le> sum_list (map length ts)"
proof (induction ts)
  case (Cons t ts)
  show ?case
  proof (cases "s \<in> set (inlineScripts ts)")
    case True
    with Cons.IH show ?thesis by simp
  next
    case False
    with Cons.prems have "t = ''-c'' \<or> t = ''-lc''" "\<exists>us. ts = s # us"
      by (auto split: if_splits list.splits)
    then show ?thesis by auto
  qed
qed simp

lemma inlineScripts_shorter:
  "s \<in> set (inlineScripts (drop n (tokenizeShell segment))) \<Longrightarrow> length s < length segment"
  using inlineScripts_length [of s "drop n (tokenizeShell segment)"] sum_drop [of n "tokenizeShell segment"]
    tokLoop_length [of "[]" None False segment]
  by (simp add: tokenizeShell_def)

definition tokenAt :: "string list \<Rightarrow> nat \<Rightarrow> string" where
  "tokenAt tokens i = (if i < length tokens then tokens ! i else [])"

function assertSegmentAllowed :: "process_env \<Rightarrow> string \<Rightarrow> string \<Rightarrow> protection_policy \<Rightarrow> verdict"
  and assertExecCommandAllowed :: "process_env \<Rightarrow> string \<Rightarrow> string \<Rightarrow> protection_policy \<Rightarrow> verdict" where
  "assertSegmentAllowed env segment cwd policy =
     (let tokens = tokenizeShell segment in
      case findCommandTokenIndex tokens of
        None \<Rightarrow> Inr ()
      | Some commandIndex \<Rightarrow>
          let commandName = to_lower (basename (tokenAt tokens commandIndex));
              nextToken = to_lower (tokenAt tokens (Suc commandIndex));
              joinedLower = to_lower (js_join '' '' (drop (Suc commandIndex) tokens))
          in if powerControl commandName nextToken joinedLower then Inl POWER_MESSAGE
             else
               (case (if commandName \<in> set [''bash'', ''sh'', ''zsh'']
                      then first_error (\<lambda>script. assertExecCommandAllowed env script cwd policy)
                             (inlineScripts (drop (Suc commandIndex) (tokenizeShell segment)))
                      else Inr ()) of
                  Inl e \<Rightarrow> Inl e
                | Inr _ \<Rightarrow> deletionVerdict env segment tokens commandIndex commandName cwd policy))"
| "assertExecCommandAllowed env command cwd policy =
     (if \<not> pol_enabled policy then Inr ()
      else first_error (\<lambda>segment. assertSegmentAllowed env segment cwd policy) (splitShellSegments command))"
  by pat_completeness auto
termination
  by (relation "measure (\<lambda>x. case x of Inl (env, segment, cwd, policy) \<Rightarrow> 2 * length segment
                                     | Inr (env, command, cwd, policy) \<Rightarrow> Suc (2 * length command))")
    (auto dest: inlineScripts_shorter splitShellSegments_length simp: less_Suc_eq_le)

declare assertSegmentAllowed.simps [simp del] assertExecCommandAllowed.simps [simp del]

definition resolveSelfProtectionPolicy ::
  "process_env \<Rightarrow> bool option \<Rightarrow> string option \<Rightarrow> string list option \<Rightarrow> string option \<Rightarrow> string \<Rightarrow> protection_policy" where
  "resolveSelfProtectionPolicy env cfgEnabled cfgInstallRoot cfgProtected detectedRoot workspaceDir =
     (let workspaceDir = path_resolve (pcwd env) workspaceDir;
          detectedInstallRoot = (case detectedRoot of Some r \<Rightarrow> r | None \<Rightarrow> workspaceDir);
          configuredRoot = (case cfgInstallRoot of Some r \<Rightarrow> trim r | None \<Rightarrow> []);
          installRoot = resolvePathFromBase env (if configuredRoot \<noteq> [] then configuredRoot else detectedInstallRoot) workspaceDir;
          configuredProtected = filter (\<lambda>p. p \<noteq> []) (map trim (case cfgProtected of Some ps \<Rightarrow> ps | None \<Rightarrow> []));
          protectedRaw = (if 0 < length configuredProtected then configuredProtected else DEFAULT_SELF_PROTECTED_PATHS)
      in \<lparr>pol_enabled = (cfgEnabled \<noteq> Some False), pol_installRoot = installRoot,
          pol_protectedPaths = dedupeProtectedPaths env
            (\<lparr>pe_raw = ''.'', pe_absolute = installRoot\<rparr>
             # map (\<lambda>raw. \<lparr>pe_raw = raw, pe_absolute = resolvePathFromBase env raw installRoot\<rparr>) protectedRaw)\<rparr>)"

section \<open>Plain words\<close>

definition plain_char :: "char \<Rightarrow> bool" where
  "plain_char c \<longleftrightarrow> is_alnum c \<or> c \<in> set ''/._-''"

definition plain_path :: "string \<Rightarrow> bool" where
  "plain_path p \<longleftrightarrow> p \<noteq> [] \<and> list_all plain_char p \<and> hd p \<noteq> CHR ''-''"

lemma plain_not_special:
  assumes "plain_char c"
  shows "c \<noteq> BACKSLASH" "c \<noteq> SQUOTE" "c \<noteq> DQUOTE" "c \<notin> set '';|&''" "\<not> is_ws c" "c \<notin> set ''*?[]{}$~''" "c \<noteq> CHR 0x60"
proof -
  have "\<not> plain_char BACKSLASH" "\<not> plain_char SQUOTE" "\<not> plain_char DQUOTE" "\<not> plain_char (CHR 0x60)"
    "list_all (\<lambda>c. \<not> plain_char c) '';|&''" "list_all (\<lambda>c. \<not> plain_char c) ''*?[]{}$~''"
    "list_all (\<lambda>c. \<not> plain_char c) [CHR 0x09, CHR 0x0A, CHR 0x0B, CHR 0x0C, CHR 0x0D, CHR 0x20, CHR 0xA0]" by code_simp+
  with assms show "c \<noteq> BACKSLASH" "c \<noteq> SQUOTE" "c \<noteq> DQUOTE" "c \<notin> set '';|&''" "\<not> is_ws c"
      "c \<notin> set ''*?[]{}$~''" "c \<noteq> CHR 0x60"
    unfolding list_all_iff is_ws_def by blast+
qed

lemma segLoop_plain:
  "list_all (\<lambda>c. plain_char c \<or> c = CHR '' '') s \<Longrightarrow> segLoop cur None False (s @ r) = segLoop (cur @ s) None False r"
proof (induction s arbitrary: cur)
  case (Cons c s)
  have "c \<noteq> BACKSLASH" "c \<noteq> SQUOTE" "c \<noteq> DQUOTE" "c \<notin> set '';|&''"
    using Cons.prems plain_not_special [of c] by (auto simp: BACKSLASH_def SQUOTE_def DQUOTE_def)
  with Cons show ?case by (simp del: set_simps)
qed simp

lemma segLoop_quoted:
  "list_all (\<lambda>c. c \<noteq> SQUOTE) s \<Longrightarrow> segLoop cur (Some SQUOTE) False (s @ r) = segLoop (cur @ s) (Some SQUOTE) False r"
  by (induction s arbitrary: cur) auto

lemma tokLoop_plain:
  "list_all plain_char s \<Longrightarrow> tokLoop cur None False (s @ r) = tokLoop (cur @ s) None False r"
proof (induction s arbitrary: cur)
  case (Cons c s)
  then show ?case using plain_not_special [of c] by simp
qed simp

lemma tokLoop_quoted:
  "list_all (\<lambda>c. c \<noteq> SQUOTE) s \<Longrightarrow> tokLoop cur (Some SQUOTE) False (s @ r) = tokLoop (cur @ s) (Some SQUOTE) False r"
  by (induction s arbitrary: cur) auto

lemma tokLoop_space: "tokLoop cur None False (CHR '' '' # r) = flush cur @ tokLoop [] None False r"
  by (simp add: BACKSLASH_def SQUOTE_def DQUOTE_def is_ws_def)

lemma trim_plain: "list_all plain_char p \<Longrightarrow> trim p = p"
  using plain_not_special(5) by (intro trim_nonblank) (auto simp: list_all_iff)

lemma resolveTokenPath_plain:
  assumes "plain_path p"
  shows "resolveTokenPath env p cwd = Some \<lparr>tp_raw = p, tp_absolute = resolve_from (pcwd env) cwd p, tp_wildcard = False\<rparr>"
proof -
  have p: "p \<noteq> []" "list_all plain_char p" "hd p \<noteq> CHR ''-''" "trim p = p"
    using assms trim_plain by (auto simp: plain_path_def)
  have notin: "c \<notin> set p" if "\<not> plain_char c" for c using p(2) that by (auto simp: list_all_iff)
  have special: "\<not> plain_char (CHR ''$'')" "\<not> plain_char (CHR 0x60)" "\<not> plain_char (CHR ''~'')" by code_simp+
  have inc: "\<not> str_includes p q" if "c \<in> set q" "\<not> plain_char c" for c q
    using notin [OF that(2)] that(1) by (auto simp: str_includes_iff)
  have "\<not> starts_with p ''-''" using p(1,3) by (cases p) (auto simp: starts_with_def)
  moreover have "\<not> str_includes p ''$(''" "\<not> str_includes p ''${''" "\<not> str_includes p [CHR 0x60]"
    using inc [of "CHR ''$''"] inc [of "CHR 0x60"] special by auto
  moreover have "\<not> starts_with p ''~/''" "p \<noteq> ''~''"
    using notin [OF special(3)] by (auto simp: starts_with_def prefix_def)
  moreover have "\<not> containsWildcard p"
    using p(2) plain_not_special(6) by (auto simp: containsWildcard_def list_ex_iff list_all_iff)
  moreover have "is_absolute p \<Longrightarrow> path_resolve (pcwd env) p = resolve_from (pcwd env) cwd p"
    by (simp add: path_resolve_def resolve_from_def)
  ultimately show ?thesis
    using p by (simp add: resolveTokenPath_def resolvePathFromBase_def expandHome_def Let_def)
qed

lemma blockIf_isl: "isl (blockIfTargetCoversProtected env seg [t] es root) \<longleftrightarrow> list_ex (covers env t) es"
proof (cases "find (covers env t) es")
  case None
  then have "\<not> list_ex (covers env t) es" by (auto simp: find_None_iff list_ex_iff)
  with None show ?thesis by simp
next
  case (Some e)
  then have "list_ex (covers env t) es" by (auto simp: find_Some_iff list_ex_iff dest: nth_mem)
  with Some show ?thesis by simp
qed

section \<open>Deleting\<close>

lemma rm_tokens: "plain_path p \<Longrightarrow> tokenizeShell (''rm -rf '' @ p) = [''rm'', ''-rf'', p]"
proof -
  assume p: "plain_path p"
  have lits: "list_all plain_char ''rm''" "list_all plain_char ''-rf''" by code_simp+
  have "tokenizeShell (''rm -rf '' @ p) = tokLoop [] None False (''rm'' @ CHR '' '' # ''-rf'' @ CHR '' '' # p @ [])"
    by (simp add: tokenizeShell_def)
  also have "\<dots> = [''rm'', ''-rf'', p]"
    using p by (simp only: tokLoop_plain [OF lits(1)] tokLoop_plain [OF lits(2)] tokLoop_plain plain_path_def tokLoop_space)
      (simp add: flush_def)
  finally show ?thesis .
qed

lemma rm_segments: "plain_path p \<Longrightarrow> splitShellSegments (''rm -rf '' @ p) = [''rm -rf '' @ p]"
proof -
  assume p: "plain_path p"
  have "list_all (\<lambda>c. plain_char c \<or> c = CHR '' '') ''rm -rf ''" by code_simp
  then have "list_all (\<lambda>c. plain_char c \<or> c = CHR '' '') (''rm -rf '' @ p)"
    using p by (auto simp: plain_path_def list_all_iff)
  from segLoop_plain [OF this, of "[]" "[]"] have "splitShellSegments (''rm -rf '' @ p) = push_trimmed (''rm -rf '' @ p)"
    by (simp add: splitShellSegments_def)
  moreover have "trim (''rm -rf '' @ p) = ''rm -rf '' @ p"
  proof (rule trim_id)
    have "\<not> is_ws (CHR ''r'')" by code_simp
    moreover have "\<not> is_ws (last p)" using p plain_not_special(5) by (auto simp: plain_path_def list_all_iff)
    ultimately show "''rm -rf '' @ p = [] \<or> \<not> is_ws (hd (''rm -rf '' @ p)) \<and> \<not> is_ws (last (''rm -rf '' @ p))"
      using p by (simp add: plain_path_def)
  qed
  ultimately show ?thesis by (simp add: push_trimmed_def)
qed

lemma rm_verdict:
  assumes "plain_path p" "pol_enabled policy"
  shows "isl (assertExecCommandAllowed env (''rm -rf '' @ p) cwd policy) \<longleftrightarrow>
    list_ex (\<lambda>e. isPathInside env (resolve_from (pcwd env) cwd p) (pe_absolute e)) (pol_protectedPaths policy)"
proof -
  let ?t = "\<lparr>tp_raw = p, tp_absolute = resolve_from (pcwd env) cwd p, tp_wildcard = False\<rparr>"
  have idx: "findCommandTokenIndex [''rm'', ''-rf'', p] = Some 0"
  proof -
    have "\<not> isEnvAssignmentToken ''rm''" by code_simp
    then show ?thesis by (simp add: findCommandTokenIndex_def skip_from_def)
  qed
  have name: "to_lower (basename ''rm'') = ''rm''" by code_simp
  have pos: "positionals False [''-rf'', p] = [p]"
    using assms(1) by (cases p) (auto simp: plain_path_def starts_with_def)
  have "parseDeleteTargets env [''rm'', ''-rf'', p] 0 cwd = [?t]"
    using pos resolveTokenPath_plain [OF assms(1), of env cwd] by (simp add: parseDeleteTargets_def List.map_filter_def)
  then have "deletionVerdict env (''rm -rf '' @ p) [''rm'', ''-rf'', p] 0 ''rm'' cwd policy =
      blockIfTargetCoversProtected env (''rm -rf '' @ p) [?t] (pol_protectedPaths policy) (pol_installRoot policy)"
    by (simp add: deletionVerdict_def DELETE_COMMANDS_def)
  moreover have "\<not> powerControl ''rm'' x y" for x y by (simp add: powerControl_def)
  ultimately have "assertSegmentAllowed env (''rm -rf '' @ p) cwd policy =
      blockIfTargetCoversProtected env (''rm -rf '' @ p) [?t] (pol_protectedPaths policy) (pol_installRoot policy)"
    unfolding assertSegmentAllowed.simps [of env "''rm -rf '' @ p"] rm_tokens [OF assms(1)] Let_def idx
    using name by (simp add: tokenAt_def)
  then have "isl (assertExecCommandAllowed env (''rm -rf '' @ p) cwd policy) \<longleftrightarrow>
      isl (blockIfTargetCoversProtected env (''rm -rf '' @ p) [?t] (pol_protectedPaths policy) (pol_installRoot policy))"
    unfolding assertExecCommandAllowed.simps rm_segments [OF assms(1)] using assms(2)
    by (simp del: blockIfTargetCoversProtected.simps split: sum.split)
  moreover have "covers env ?t = (\<lambda>e. isPathInside env (resolve_from (pcwd env) cwd p) (pe_absolute e))"
    by (auto simp: covers_def)
  ultimately show ?thesis using blockIf_isl by metis
qed

text \<open>The containment test on absolute paths, as the policy uses it.\<close>

lemma isPathInside_iff:
  assumes "is_absolute root" "is_absolute target"
  shows "isPathInside env root target \<longleftrightarrow>
    (\<exists>rest. parts_of target = parts_of root @ rest \<and> (rest = [] \<or> \<not> starts_with (hd rest) ''..''))"
proof -
  let ?r = "path_resolve (pcwd env) root" and ?t = "path_resolve (pcwd env) target"
  have abs: "is_absolute ?r" "is_absolute ?t" by (simp_all add: path_resolve_def)
  have "\<not> is_absolute (path_relative (pcwd env) ?r ?t)"
  proof -
    obtain up down where ud: "drop_common (parts_of ?r) (parts_of ?t) = (up, down)" by fastforce
    from drop_common_spec [OF ud] obtain zs where "parts_of ?t = zs @ down" by blast
    then have comp: "c \<in> set down \<Longrightarrow> component c" for c using parts_of_component [of c ?t] by simp
    have "\<not> is_absolute (js_join ''/'' ws)" if "\<forall>w \<in> set ws. w \<noteq> [] \<and> CHR ''/'' \<notin> set w" for ws
    proof (cases ws)
      case (Cons w vs)
      with that obtain c cs where "w = c # cs" "c \<noteq> CHR ''/''" by (cases w) auto
      with Cons show ?thesis by (cases vs) (auto simp: is_absolute_def starts_with_def)
    qed (simp add: is_absolute_def starts_with_def)
    moreover have "\<forall>w \<in> set (map (\<lambda>_. ''..'') up @ down). w \<noteq> [] \<and> CHR ''/'' \<notin> set w"
      using comp by (auto simp: component_def)
    moreover have "path_relative (pcwd env) ?r ?t = js_join ''/'' (map (\<lambda>_. ''..'') up @ down)"
      using abs ud by (simp add: path_relative_def)
    ultimately show ?thesis by simp
  qed
  then show ?thesis
    unfolding isPathInside_def Let_def using contains_test [OF abs, of "pcwd env"] assms by auto
qed

section \<open>Shell wrappers\<close>

definition shell_quoted :: "string \<Rightarrow> string" where
  "shell_quoted script = ''bash -c '' @ [SQUOTE] @ script @ [SQUOTE]"

lemma quoted_tokens:
  assumes "list_all (\<lambda>c. c \<noteq> SQUOTE) script" "script \<noteq> []"
  shows "tokenizeShell (shell_quoted script) = [''bash'', ''-c'', script]"
proof -
  have lits: "list_all plain_char ''bash''" "list_all plain_char ''-c''" by code_simp+
  have q: "SQUOTE \<noteq> BACKSLASH" by (simp add: SQUOTE_def BACKSLASH_def)
  have "tokenizeShell (shell_quoted script) =
      tokLoop [] None False (''bash'' @ CHR '' '' # ''-c'' @ CHR '' '' # SQUOTE # script @ [SQUOTE])"
    by (simp add: tokenizeShell_def shell_quoted_def)
  also have "\<dots> = [''bash'', ''-c''] @ tokLoop [] None False (SQUOTE # script @ [SQUOTE])"
    by (simp only: tokLoop_plain [OF lits(1)] tokLoop_plain [OF lits(2)] tokLoop_space) (simp add: flush_def)
  also have "tokLoop [] None False (SQUOTE # script @ [SQUOTE]) = tokLoop script (Some SQUOTE) False [SQUOTE]"
    using q tokLoop_quoted [OF assms(1), of "[]"] by simp
  also have "\<dots> = [script]" using q assms(2) by (simp add: flush_def)
  finally show ?thesis by simp
qed

lemma quoted_segments:
  assumes "list_all (\<lambda>c. c \<noteq> SQUOTE) script"
  shows "splitShellSegments (shell_quoted script) = [shell_quoted script]"
proof -
  have q: "SQUOTE \<noteq> BACKSLASH" "\<not> is_ws SQUOTE" "\<not> is_ws (CHR ''b'')"
    by (auto simp: SQUOTE_def BACKSLASH_def is_ws_def)
  have lit: "list_all (\<lambda>c. plain_char c \<or> c = CHR '' '') ''bash -c ''" by code_simp
  have "splitShellSegments (shell_quoted script) =
      segLoop ''bash -c '' None False (SQUOTE # script @ [SQUOTE])"
    using segLoop_plain [OF lit, of "[]" "SQUOTE # script @ [SQUOTE]"] by (simp add: splitShellSegments_def shell_quoted_def)
  also have "\<dots> = segLoop (''bash -c '' @ [SQUOTE]) (Some SQUOTE) False (script @ [SQUOTE])"
    using q by simp
  also have "\<dots> = segLoop ((''bash -c '' @ [SQUOTE]) @ script) (Some SQUOTE) False [SQUOTE]"
    by (rule segLoop_quoted [OF assms])
  also have "\<dots> = push_trimmed (shell_quoted script)" using q by (simp add: shell_quoted_def)
  also have "trim (shell_quoted script) = shell_quoted script"
    using q by (intro trim_id) (simp add: shell_quoted_def)
  then have "push_trimmed (shell_quoted script) = [shell_quoted script]"
    by (simp add: push_trimmed_def) (simp add: shell_quoted_def)
  finally show ?thesis .
qed

lemma bash_index: "findCommandTokenIndex [''bash'', ''-c'', script] = Some 0"
proof -
  have "\<not> isEnvAssignmentToken ''bash''" by code_simp
  then show ?thesis by (simp add: findCommandTokenIndex_def skip_from_def)
qed

section \<open>Properties\<close>

text \<open>
  C11. Wrapping a script in a shell neither hides nor invents a violation: for every script
  without a single quote that is not blank, \<open>bash -c '<script>'\<close> gets the very verdict of the script
  itself, message included.
\<close>

theorem shell_wrapping_transparent:
  assumes "list_all (\<lambda>c. c \<noteq> SQUOTE) script" and "trim script \<noteq> []"
  shows "assertExecCommandAllowed env (shell_quoted script) cwd policy = assertExecCommandAllowed env script cwd policy"
proof (cases "pol_enabled policy")
  case False
  then show ?thesis by (simp add: assertExecCommandAllowed.simps)
next
  case True
  have ne: "script \<noteq> []" using assms(2) by auto
  note tok = quoted_tokens [OF assms(1) ne]
  have name: "to_lower (basename ''bash'') = ''bash''" by code_simp
  have inl: "inlineScripts [''-c'', script] = [script]" using assms(2) by auto
  have "\<not> powerControl ''bash'' x y" for x y by (simp add: powerControl_def)
  moreover have "deletionVerdict env seg toks i ''bash'' cwd policy = Inr ()" for seg toks i
    by (simp add: deletionVerdict_def DELETE_COMMANDS_def)
  ultimately have "assertSegmentAllowed env (shell_quoted script) cwd policy = assertExecCommandAllowed env script cwd policy"
    unfolding assertSegmentAllowed.simps [of env "shell_quoted script"] tok Let_def bash_index
    using name inl by (simp add: tokenAt_def split: sum.split)
  then show ?thesis
    unfolding assertExecCommandAllowed.simps [of env "shell_quoted script"] quoted_segments [OF assms(1)]
    using True by (simp split: sum.split)
qed

definition demo_penv :: process_env where
  "demo_penv = \<lparr>pcwd = ''/home/u'', homedir = ''/home/u''\<rparr>"

definition demo_policy :: protection_policy where
  "demo_policy = resolveSelfProtectionPolicy demo_penv None (Some ''/opt/t560'') None None ''/home/u/w''"

theorem shell_wrapping_transparent_witness:
  "assertExecCommandAllowed demo_penv (shell_quoted ''cd /tmp && shutdown now'') ''/tmp'' demo_policy = Inl POWER_MESSAGE"
proof -
  have "list_all (\<lambda>c. c \<noteq> SQUOTE) ''cd /tmp && shutdown now''" "trim ''cd /tmp && shutdown now'' \<noteq> []" by code_simp+
  from shell_wrapping_transparent [OF this] show ?thesis by simp code_simp
qed

text \<open>
  A plain \<open>rm -rf p\<close> is blocked exactly when \<open>p\<close> covers a protected path: the components of \<open>p\<close>, taken
  from the working directory, are a prefix of those of a protected path, and the protected
  path does not go on with a name that starts with two dots.
\<close>

theorem rm_blocked_iff:
  assumes "plain_path p" and "pol_enabled policy" and "list_all (\<lambda>e. is_absolute (pe_absolute e)) (pol_protectedPaths policy)"
  shows "isl (assertExecCommandAllowed env (''rm -rf '' @ p) cwd policy) \<longleftrightarrow>
    (\<exists>e \<in> set (pol_protectedPaths policy). \<exists>rest.
       parts_of (pe_absolute e) = parts_of (resolve_from (pcwd env) cwd p) @ rest
       \<and> (rest = [] \<or> \<not> starts_with (hd rest) ''..''))"
  using assms(3) isPathInside_iff [OF resolve_from_absolute]
  unfolding rm_verdict [OF assms(1,2)] list_ex_iff list_all_iff by blast

theorem rm_blocked_iff_witness:
  "isl (assertExecCommandAllowed demo_penv (''rm -rf '' @ ''../t560/src'') ''/opt/x'' demo_policy) \<longleftrightarrow>
    (\<exists>e \<in> set (pol_protectedPaths demo_policy). \<exists>rest.
       parts_of (pe_absolute e) = parts_of (resolve_from (pcwd demo_penv) ''/opt/x'' ''../t560/src'') @ rest
       \<and> (rest = [] \<or> \<not> starts_with (hd rest) ''..''))"
proof (rule rm_blocked_iff)
  show "plain_path ''../t560/src''" "pol_enabled demo_policy"
    "list_all (\<lambda>e. is_absolute (pe_absolute e)) (pol_protectedPaths demo_policy)" by code_simp+
qed

text \<open>
  A line feed is not a command separator for the checker, although it is one for the
  shell: the deletion of the install root is blocked on its own, behind a semicolon, and not
  behind a line feed.
\<close>

theorem newline_hides_command:
  "isl (assertExecCommandAllowed demo_penv ''rm -rf /opt/t560'' ''/tmp'' demo_policy)
   \<and> isl (assertExecCommandAllowed demo_penv ''echo ok; rm -rf /opt/t560'' ''/tmp'' demo_policy)
   \<and> assertExecCommandAllowed demo_penv (''echo ok'' @ [CHR 0x0A] @ ''rm -rf /opt/t560'') ''/tmp'' demo_policy = Inr ()"
  by code_simp

end
