(* ===== verification/Exec_Tool.thy ===== *)
theory Exec_Tool
  imports Js_Value Self_Protection
begin

text \<open>
  The guards in front of the shell and the file tools: \<open>isSensitivePath\<close> and
  \<open>commandTouchesSensitivePath\<close> of \<open>src/security/credentials-vault.ts\<close>, and the \<open>exec\<close> tool of
  \<open>src/agents/bash-tools.exec.ts\<close>. \<open>child_process.exec\<close> is a parameter that maps a call to its error
  message, output and error output; a thrown or rejected error is an \<open>Inl\<close>. The lemmas show that
  no command that names the vault, its key or an environment file reaches the shell, that
  nothing reaches it that the self-protection policy refuses, and how far the path test goes.
\<close>

section \<open>Sensitive paths\<close>

definition isSensitivePath :: "string \<Rightarrow> string \<Rightarrow> string \<Rightarrow> bool" where
  "isSensitivePath cwd targetPath workspaceDir =
     (let resolved = path_resolve cwd targetPath;
          normalized = js_join ''/'' (split_on (CHR ''/'') resolved);
          workspaceRoot = path_resolve cwd workspaceDir;
          relative = path_relative cwd workspaceRoot resolved
      in if relative \<noteq> [] \<and> starts_with relative ''..'' then False
         else if str_includes normalized ''/.t560-secure/'' \<or> ends_with normalized ''/.t560-secure'' then True
         else
           let baseName = to_lower (basename resolved) in
           baseName = ''.env'' \<or> starts_with baseName ''.env.'' \<or> baseName = ''credentials.v1.enc'')"

text \<open>
  A regular expression without repetition is tried at every position, with the character in
  front of the position at hand for \<open>^\<close> and the negated class. Letters compare without case.
\<close>

fun scan :: "(char option \<Rightarrow> string \<Rightarrow> bool) \<Rightarrow> char option \<Rightarrow> string \<Rightarrow> bool" where
  "scan P prev [] = P prev []"
| "scan P prev (c # cs) = (P prev (c # cs) \<or> scan P (Some c) cs)"

definition prefix_ci :: "string \<Rightarrow> string \<Rightarrow> bool" where
  "prefix_ci lit s \<longleftrightarrow> length lit \<le> length s \<and> to_lower (take (length lit) s) = lit"

definition boundary_after :: "nat \<Rightarrow> string \<Rightarrow> bool" where
  "boundary_after n s \<longleftrightarrow> (case drop n s of [] \<Rightarrow> True | d # _ \<Rightarrow> \<not> is_word_char d)"

definition env_at :: "char option \<Rightarrow> string \<Rightarrow> bool" where
  "env_at prev s \<longleftrightarrow>
     (case prev of None \<Rightarrow> True | Some p \<Rightarrow> \<not> is_word_char p)
     \<and> prefix_ci ''.env'' s
     \<and> (case drop 4 s of
          [] \<Rightarrow> True
        | d # _ \<Rightarrow> is_ws d \<or> d \<in> set [CHR ''.'', CHR 0x22, CHR 0x27, CHR 0x60, CHR ''/''])"

definition name_at :: "string \<Rightarrow> char option \<Rightarrow> string \<Rightarrow> bool" where
  "name_at lit prev s \<longleftrightarrow> prefix_ci lit s \<and> boundary_after (length lit) s"

definition commandTouchesSensitivePath :: "string \<Rightarrow> bool" where
  "commandTouchesSensitivePath command \<longleftrightarrow>
     trim command \<noteq> []
     \<and> (scan env_at None command \<or> scan (name_at ''.t560-secure'') None command
        \<or> scan (name_at ''credentials.v1.enc'') None command \<or> scan (name_at ''vault.key'') None command)"

section \<open>The exec tool\<close>

record exec_defaults =
  ed_cwd :: "string option"
  ed_timeoutSec :: "jnum option"
  ed_allowBackground :: "bool option"
  ed_selfProtection :: "protection_policy option"

record exec_call =
  ec_command :: string
  ec_cwd :: string
  ec_timeoutMs :: rat
  ec_background :: bool

fun positive_num :: "jnum \<Rightarrow> rat option" where
  "positive_num (Fin q) = (if 0 < q then Some q else None)"
| "positive_num _ = None"

text \<open>Everything \<open>execute\<close> does before it starts the shell.\<close>

definition execPlan :: "process_env \<Rightarrow> exec_defaults \<Rightarrow> jsv \<Rightarrow> exec_call result" where
  "execPlan env defaults params =
     (let defaultCwd = (case ed_cwd defaults of Some c \<Rightarrow> c | None \<Rightarrow> pcwd env);
          timeoutSec = (case Option.bind (ed_timeoutSec defaults) positive_num of Some q \<Rightarrow> q | None \<Rightarrow> 180);
          allowBackground = (ed_allowBackground defaults \<noteq> Some False);
          command = trim (str_or_empty (jget params ''command''))
      in if command = [] then Inl ''Provide a command to run.''
         else
           let workdir = trim (to_str (coalesce (jget params ''workdir'') (JStr defaultCwd)));
               cwd = (if workdir \<noteq> [] then workdir else defaultCwd);
               timeout = (case jget params ''timeout'' of
                            JNum n \<Rightarrow> (case positive_num n of Some q \<Rightarrow> of_int \<lfloor>q\<rfloor> | None \<Rightarrow> timeoutSec)
                          | _ \<Rightarrow> timeoutSec);
               background = (jget params ''background'' = JBool True)
           in case (case ed_selfProtection defaults of
                      Some policy \<Rightarrow> assertExecCommandAllowed env command cwd policy
                    | None \<Rightarrow> Inr ()) of
                Inl e \<Rightarrow> Inl e
              | Inr _ \<Rightarrow>
                  if commandTouchesSensitivePath command
                  then Inl ''Command blocked: direct access to .env or vault credential paths is not allowed.''
                  else if background \<and> \<not> allowBackground then Inl ''Background execution is disabled.''
                  else Inr \<lparr>ec_command = command, ec_cwd = cwd, ec_timeoutMs = timeout * 1000, ec_background = background\<rparr>)"

definition toErrorMessage :: "string \<Rightarrow> string" where
  "toErrorMessage message = (if message \<noteq> [] then message else ''Error'')"

definition execResult :: "exec_call \<Rightarrow> string option \<times> string \<times> string \<Rightarrow> jsv result" where
  "execResult call outcome =
     (case outcome of (err, out, errout) \<Rightarrow>
        (case err of
           Some message \<Rightarrow>
             Inl (js_join [CHR 0x0A, CHR 0x0A]
               (filter (\<lambda>s. s \<noteq> [])
                 [toErrorMessage message,
                  (if trim errout \<noteq> [] then ''stderr:'' @ [CHR 0x0A] @ trim errout else []),
                  (if trim out \<noteq> [] then ''stdout:'' @ [CHR 0x0A] @ trim out else [])]))
         | None \<Rightarrow>
             Inr (JObj [(''status'', JStr ''completed''), (''command'', JStr (ec_command call)), (''cwd'', JStr (ec_cwd call)),
                        (''background'', JBool (ec_background call)), (''stdout'', JStr out), (''stderr'', JStr errout)])))"

definition execExecute ::
  "process_env \<Rightarrow> exec_defaults \<Rightarrow> (exec_call \<Rightarrow> string option \<times> string \<times> string) \<Rightarrow> jsv \<Rightarrow> jsv result" where
  "execExecute env defaults shell params =
     (case execPlan env defaults params of Inl e \<Rightarrow> Inl e | Inr call \<Rightarrow> execResult call (shell call))"

section \<open>Facts\<close>

lemma scan_append:
  "P (case rev u of [] \<Rightarrow> prev | c # _ \<Rightarrow> Some c) s \<Longrightarrow> scan P prev (u @ s)"
proof (induction u arbitrary: prev)
  case Nil
  then show ?case by (cases s) auto
next
  case (Cons c u)
  have "(case rev (c # u) of [] \<Rightarrow> prev | d # _ \<Rightarrow> Some d) = (case rev u of [] \<Rightarrow> Some c | d # _ \<Rightarrow> Some d)"
    by (cases "rev u") auto
  with Cons show ?case by simp
qed

lemma prefix_ci_append: "to_lower m = lit \<Longrightarrow> prefix_ci lit (m @ v)"
proof -
  assume m: "to_lower m = lit"
  then have "length lit = length m" by auto
  with m show ?thesis by (simp add: prefix_ci_def)
qed

lemma name_blocked:
  assumes "to_lower m = lit" "v = [] \<or> \<not> is_word_char (hd v)"
  shows "scan (name_at lit) None (u @ m @ v)"
proof (rule scan_append)
  have "drop (length lit) (m @ v) = v" using assms(1) by auto
  then show "name_at lit (case rev u of [] \<Rightarrow> None | c # _ \<Rightarrow> Some c) (m @ v)"
    using assms(2) prefix_ci_append [OF assms(1), of v]
    unfolding name_at_def boundary_after_def by (cases v) simp_all
qed

lemma env_blocked:
  assumes "to_lower m = ''.env''" "u = [] \<or> \<not> is_word_char (last u)"
    and "v = [] \<or> is_ws (hd v) \<or> hd v \<in> set [CHR ''.'', CHR 0x22, CHR 0x27, CHR 0x60, CHR ''/'']"
  shows "scan env_at None (u @ m @ v)"
proof (rule scan_append)
  have "length (to_lower m) = 4" unfolding assms(1) by simp
  then have dr: "drop 4 (m @ v) = v" by simp
  have "case (case rev u of [] \<Rightarrow> None | c # _ \<Rightarrow> Some c) of None \<Rightarrow> True | Some p \<Rightarrow> \<not> is_word_char p"
    using assms(2) by (cases u rule: rev_cases) auto
  then show "env_at (case rev u of [] \<Rightarrow> None | c # _ \<Rightarrow> Some c) (m @ v)"
    unfolding env_at_def dr using assms(3) prefix_ci_append [OF assms(1), of v] by (cases v) simp_all
qed

text \<open>A text that mentions a sensitive name, delimited as the shell would delimit it.\<close>

definition mentions_secret :: "string \<Rightarrow> string \<Rightarrow> string \<Rightarrow> bool" where
  "mentions_secret u m v \<longleftrightarrow>
     to_lower m \<in> set [''.t560-secure'', ''credentials.v1.enc'', ''vault.key''] \<and> (v = [] \<or> \<not> is_word_char (hd v))
     \<or> to_lower m = ''.env'' \<and> (u = [] \<or> \<not> is_word_char (last u))
       \<and> (v = [] \<or> is_ws (hd v) \<or> hd v \<in> set [CHR ''.'', CHR 0x22, CHR 0x27, CHR 0x60, CHR ''/''])"

lemma mentions_touches:
  assumes "mentions_secret u m v" "trim (u @ m @ v) \<noteq> []"
  shows "commandTouchesSensitivePath (u @ m @ v)"
  using assms name_blocked [of m _ v u] env_blocked [of m u v]
  unfolding commandTouchesSensitivePath_def mentions_secret_def by auto

text \<open>The guards of \<open>execute\<close>: a plan comes out only when none of them fired.\<close>

lemma guard_chain:
  assumes "(if a then Inl e1
            else case (sp :: unit result) of Inl e \<Rightarrow> Inl e | Inr _ \<Rightarrow> if t then Inl e2 else if b then Inl e3 else Inr c) = Inr call"
  shows "\<not> a \<and> sp = Inr () \<and> \<not> t \<and> \<not> b \<and> call = c"
  using assms by (cases a; cases sp; cases t; cases b) simp_all

section \<open>Properties\<close>

text \<open>
  No command that names the vault directory, the vault file, the vault key or an
  environment file, in any letter case and delimited as in a shell command, reaches the shell:
  the exec tool answers with an error whatever the shell would do.
\<close>

theorem exec_blocks_secret_names:
  assumes "mentions_secret u m v" and "trim (u @ m @ v) = u @ m @ v" and "u @ m @ v \<noteq> []"
    and "jget params ''command'' = JStr (u @ m @ v)"
  shows "isl (execExecute env defaults shell params)"
proof -
  have "commandTouchesSensitivePath (u @ m @ v)" using mentions_touches [OF assms(1)] assms(2,3) by simp
  moreover have "trim (str_or_empty (jget params ''command'')) = u @ m @ v" using assms(2,4) by simp
  ultimately have "isl (execPlan env defaults params)"
    using assms(3) unfolding execPlan_def Let_def by (simp split: sum.split)
  then show ?thesis by (cases "execPlan env defaults params") (simp_all add: execExecute_def)
qed

definition demo_exec :: exec_defaults where
  "demo_exec = \<lparr>ed_cwd = None, ed_timeoutSec = None, ed_allowBackground = None, ed_selfProtection = Some demo_policy\<rparr>"

theorem exec_blocks_secret_names_witness:
  "isl (execExecute demo_penv demo_exec (\<lambda>_. (None, ''top secret'', []))
     (JObj [(''command'', JStr (''cat ./'' @ ''.ENV'' @ ''.local''))]))"
proof (rule exec_blocks_secret_names)
  show "mentions_secret ''cat ./'' ''.ENV'' ''.local''" "trim (''cat ./'' @ ''.ENV'' @ ''.local'') = ''cat ./'' @ ''.ENV'' @ ''.local''"
    by code_simp+
qed simp_all

text \<open>
  Whatever the exec tool runs was admitted: when the shell is started, the command is not
  blank, the self-protection policy (if there is one) allowed this command in this directory,
  it does not touch a sensitive path, and it is not a background command where those are
  disabled.
\<close>

theorem exec_runs_only_admitted:
  "case execPlan env defaults params of
     Inl e \<Rightarrow> execExecute env defaults shell params = Inl e
   | Inr call \<Rightarrow>
       ec_command call = trim (str_or_empty (jget params ''command'')) \<and> ec_command call \<noteq> []
       \<and> (case ed_selfProtection defaults of
             Some policy \<Rightarrow> assertExecCommandAllowed env (ec_command call) (ec_cwd call) policy = Inr ()
           | None \<Rightarrow> True)
       \<and> \<not> commandTouchesSensitivePath (ec_command call)
       \<and> \<not> (ec_background call \<and> ed_allowBackground defaults = Some False)
       \<and> execExecute env defaults shell params = execResult call (shell call)"
proof (cases "execPlan env defaults params")
  case (Inl e)
  then show ?thesis by (simp add: execExecute_def)
next
  case (Inr call)
  have "ec_command call = trim (str_or_empty (jget params ''command'')) \<and> ec_command call \<noteq> []
       \<and> (case ed_selfProtection defaults of
             Some policy \<Rightarrow> assertExecCommandAllowed env (ec_command call) (ec_cwd call) policy = Inr ()
           | None \<Rightarrow> True)
       \<and> \<not> commandTouchesSensitivePath (ec_command call)
       \<and> \<not> (ec_background call \<and> ed_allowBackground defaults = Some False)"
    using guard_chain [OF Inr [unfolded execPlan_def Let_def]] by (cases "ed_selfProtection defaults") auto
  moreover have "execExecute env defaults shell params = execResult call (shell call)"
    using Inr by (simp add: execExecute_def)
  ultimately show ?thesis unfolding Inr sum.case by blast
qed

text \<open>
  The path test does not see into a directory of the workspace whose name begins with two
  dots: an environment file there counts as outside and is not sensitive, while the same file
  in an ordinary directory is.
\<close>

theorem dotdot_directory_not_sensitive:
  "isSensitivePath ''/w'' ''/w/sub/.env'' ''/w'' \<and> \<not> isSensitivePath ''/w'' ''/w/..sub/.env'' ''/w''"
  by code_simp

end
