(* ===== verification/Fs_Tools.thy ===== *)
theory Fs_Tools
  imports Exec_Tool
begin

text \<open>
  The file tools, \<open>src/agents/tools/fs-tools.ts\<close>: \<open>read\<close>, \<open>write\<close>, \<open>edit\<close>, \<open>ls\<close>, \<open>find\<close> and \<open>exists\<close>, with the
  confinement to the workspace, the refusal of sensitive paths and the editable regions of a
  file. The file system is a tree with symbolic links; a directory lists its entries in the order \<open>readdir\<close> returns
  them. The system calls follow links as Linux does, up to 40 of them, while the tools check the path as text. A failing system call is
  reported with a message the argument \<open>ioe\<close> gives for the path; file times and modes are not modelled. The lemmas
  show that, where no link lies on the way to the workspace or below it, no call of a confined tool changes a file outside the
  workspace or touches a sensitive one or reads outside, that a link is enough to lead a tool outside, that what lies outside the
  editable regions of a file survives every \<open>write\<close> and every single \<open>edit\<close>, links or not, and that a file that was written is read back.
\<close>

section \<open>A file system\<close>

datatype node = File string | Dir "(string \<times> node) list" | Link string | Other

fun lookup :: "node \<Rightarrow> string list \<Rightarrow> node option" where
  "lookup n [] = Some n"
| "lookup (Dir es) (c # cs) = (case map_of es c of Some m \<Rightarrow> lookup m cs | None \<Rightarrow> None)"
| "lookup _ (c # cs) = None"

text \<open>\<open>writeFile\<close>: the directory has to exist, and the target must not be one.\<close>

fun put_file :: "string list \<Rightarrow> string \<Rightarrow> node \<Rightarrow> node option" where
  "put_file [] t (File _) = Some (File t)"
| "put_file [] t _ = None"
| "put_file [c] t (Dir es) =
     (case map_of es c of
        None \<Rightarrow> Some (Dir (AList.update c (File t) es))
      | Some (File _) \<Rightarrow> Some (Dir (AList.update c (File t) es))
      | Some _ \<Rightarrow> None)"
| "put_file (c # cs) t (Dir es) =
     (case map_of es c of
        None \<Rightarrow> None
      | Some m \<Rightarrow> map_option (\<lambda>m'. Dir (AList.update c m' es)) (put_file cs t m))"
| "put_file (c # cs) t _ = None"

text \<open>A new empty directory; its parent has to exist.\<close>

fun put_dir :: "string list \<Rightarrow> node \<Rightarrow> node option" where
  "put_dir [c] (Dir es) = (case map_of es c of None \<Rightarrow> Some (Dir (AList.update c (Dir []) es)) | Some _ \<Rightarrow> None)"
| "put_dir (c # cs) (Dir es) =
     (case map_of es c of
        None \<Rightarrow> None
      | Some m \<Rightarrow> map_option (\<lambda>m'. Dir (AList.update c m' es)) (put_dir cs m))"
| "put_dir _ _ = None"

text \<open>
  Where a path leads. \<open>here\<close> is the directory reached so far, free of links; a link is replaced by the components of its target, from the
  root when that is absolute, and counts against the limit; the last component may be missing.
\<close>

datatype kind = AFile | ADir | ALink string | AnOther

fun kind_of :: "node \<Rightarrow> kind" where
  "kind_of (File _) = AFile"
| "kind_of (Dir _) = ADir"
| "kind_of (Link t) = ALink t"
| "kind_of Other = AnOther"

definition kind_at :: "node \<Rightarrow> string list \<Rightarrow> kind option" where
  "kind_at fs q = map_option kind_of (lookup fs q)"

definition link_start :: "string \<Rightarrow> string list \<Rightarrow> string list" where
  "link_start t here = (if is_absolute t then [] else here)"

function (sequential) walk :: "node \<Rightarrow> nat \<Rightarrow> string list \<Rightarrow> string list \<Rightarrow> (string list \<times> nat) option" where
  "walk fs k here [] = Some (here, k)"
| "walk fs k here (c # cs) =
     (if kind_at fs here \<noteq> Some ADir then None
      else if c = [] \<or> c = ''.'' then walk fs k here cs
      else if c = ''..'' then walk fs k (butlast here) cs
      else case kind_at fs (here @ [c]) of
             None \<Rightarrow> if cs = [] then Some (here @ [c], k) else None
           | Some (ALink t) \<Rightarrow>
               (case k of 0 \<Rightarrow> None
                | Suc j \<Rightarrow> walk fs j (link_start t here) (split_on (CHR ''/'') t @ cs))
           | Some _ \<Rightarrow> walk fs k (here @ [c]) cs)"
  by pat_completeness auto
termination
  by (relation "measures [\<lambda>(fs, k, here, cs). k, \<lambda>(fs, k, here, cs). length cs]") auto

definition MAX_LINKS :: nat where
  "MAX_LINKS = 40"

definition real_path :: "node \<Rightarrow> string list \<Rightarrow> string list option" where
  "real_path fs cs = map_option fst (walk fs MAX_LINKS [] cs)"

definition find_node :: "node \<Rightarrow> string list \<Rightarrow> node option" where
  "find_node fs cs = Option.bind (real_path fs cs) (lookup fs)"

definition node_at :: "node \<Rightarrow> string \<Rightarrow> node option" where
  "node_at fs path = find_node fs (parts_of path)"

text \<open>
  \<open>mkdir\<close> with \<open>recursive: true\<close>, from the top: a directory that is there, also behind a link, is taken as it is; anything else that is
  there, a link that leads nowhere included, is an error. Nothing can fail below a directory that was just created.
\<close>

definition mkdir_at :: "string list \<Rightarrow> node \<Rightarrow> node option" where
  "mkdir_at cs fs =
     (case find_node fs cs of
        Some (Dir _) \<Rightarrow> Some fs
      | Some _ \<Rightarrow> None
      | None \<Rightarrow> (case real_path fs (butlast cs) of Some d \<Rightarrow> put_dir (d @ [last cs]) fs | None \<Rightarrow> None))"

fun make_dirs :: "string list \<Rightarrow> string list \<Rightarrow> node \<Rightarrow> node option" where
  "make_dirs base [] fs = Some fs"
| "make_dirs base (c # cs) fs = Option.bind (mkdir_at (base @ [c]) fs) (make_dirs (base @ [c]) cs)"

definition readFile :: "(string \<Rightarrow> string) \<Rightarrow> node \<Rightarrow> string \<Rightarrow> string result" where
  "readFile ioe fs path = (case node_at fs path of Some (File t) \<Rightarrow> Inr t | _ \<Rightarrow> Inl (ioe path))"

definition readdir :: "(string \<Rightarrow> string) \<Rightarrow> node \<Rightarrow> string \<Rightarrow> (string \<times> node) list result" where
  "readdir ioe fs path = (case node_at fs path of Some (Dir es) \<Rightarrow> Inr es | _ \<Rightarrow> Inl (ioe path))"

definition writeFile :: "(string \<Rightarrow> string) \<Rightarrow> node \<Rightarrow> string \<Rightarrow> string \<Rightarrow> unit result \<times> node" where
  "writeFile ioe fs path t =
     (case Option.bind (real_path fs (parts_of path)) (\<lambda>q. put_file q t fs) of
        Some fs' \<Rightarrow> (Inr (), fs')
      | None \<Rightarrow> (Inl (ioe path), fs))"

section \<open>Substrings\<close>

fun find_sub :: "string \<Rightarrow> string \<Rightarrow> nat option" where
  "find_sub needle [] = (if needle = [] then Some 0 else None)"
| "find_sub needle (c # s) = (if prefix needle (c # s) then Some 0 else map_option Suc (find_sub needle s))"

text \<open>\<open>content.indexOf(needle, cursor)\<close> for a needle that is not empty.\<close>

definition index_from :: "string \<Rightarrow> string \<Rightarrow> nat \<Rightarrow> nat option" where
  "index_from content needle cursor = map_option (\<lambda>i. cursor + i) (find_sub needle (drop cursor content))"

lemma find_sub_Some: "find_sub needle s = Some i \<Longrightarrow> i + length needle \<le> length s \<and> prefix needle (drop i s)"
  by (induction s arbitrary: i) (auto split: if_splits dest: prefix_length_le)

lemma index_from_Some:
  "index_from content needle cursor = Some i \<Longrightarrow>
   cursor \<le> i \<and> (cursor \<le> length content \<longrightarrow> i + length needle \<le> length content) \<and> prefix needle (drop i content)"
  by (auto simp: index_from_def add.commute dest!: find_sub_Some)

section \<open>Editable regions\<close>

definition EDITABLE_START_MARKER :: string where
  "EDITABLE_START_MARKER = ''T560_EDITABLE_START''"

definition EDITABLE_END_MARKER :: string where
  "EDITABLE_END_MARKER = ''T560_EDITABLE_END''"

type_synonym range = "nat \<times> nat"

text \<open>One round of the loop: the next region and the cursor behind its end marker.\<close>

definition nextRange :: "string \<Rightarrow> nat \<Rightarrow> (range \<times> nat) option" where
  "nextRange content cursor =
     (case index_from content EDITABLE_START_MARKER cursor of
        None \<Rightarrow> None
      | Some startMarker \<Rightarrow>
          let editableStart = (case index_from content [CHR 0x0A] startMarker of
                                 Some startLineBreak \<Rightarrow> startLineBreak + 1 | None \<Rightarrow> length content)
          in (case index_from content EDITABLE_END_MARKER editableStart of
                None \<Rightarrow> None
              | Some endMarker \<Rightarrow> Some ((editableStart, endMarker), endMarker + length EDITABLE_END_MARKER)))"

lemma nextRange_Some:
  assumes "nextRange content cursor = Some ((s, e), c)"
  shows "cursor \<le> s" "s \<le> e" "c = e + length EDITABLE_END_MARKER" "e < c" "e \<le> length content"
proof -
  obtain m where m: "index_from content EDITABLE_START_MARKER cursor = Some m"
    using assms by (auto simp: nextRange_def split: option.splits)
  let ?s = "case index_from content [CHR 0x0A] m of Some b \<Rightarrow> b + 1 | None \<Rightarrow> length content"
  have e: "index_from content EDITABLE_END_MARKER ?s = Some e" "s = ?s" "c = e + length EDITABLE_END_MARKER"
    using assms m by (auto simp: nextRange_def Let_def split: option.splits)
  have "prefix EDITABLE_START_MARKER (drop m content)" "cursor \<le> m" using index_from_Some [OF m] by simp_all
  then have "m < length content" by (cases "m < length content") (auto simp: EDITABLE_START_MARKER_def)
  then have "m \<le> ?s" by (auto split: option.split dest!: index_from_Some)
  moreover have pre: "prefix EDITABLE_END_MARKER (drop e content)" "?s \<le> e" using index_from_Some [OF e(1)] by simp_all
  then have "e \<le> length content" by (cases "e < length content") (auto simp: EDITABLE_END_MARKER_def)
  ultimately show "cursor \<le> s" "s \<le> e" "c = e + length EDITABLE_END_MARKER" "e < c" "e \<le> length content"
    using e pre \<open>cursor \<le> m\<close> by (auto simp: EDITABLE_END_MARKER_def)
qed

function parseRangesFrom :: "string \<Rightarrow> nat \<Rightarrow> range list" where
  "parseRangesFrom content cursor =
     (if length content \<le> cursor then []
      else case nextRange content cursor of None \<Rightarrow> [] | Some (r, c) \<Rightarrow> r # parseRangesFrom content c)"
  by pat_completeness auto
termination
  by (relation "measure (\<lambda>(content, cursor). length content - cursor)")
    (auto, metis diff_less_mono2 dual_order.strict_trans1 le_less_trans nextRange_Some(1,2,4) not_le)

declare parseRangesFrom.simps [simp del]

definition parseEditableRanges :: "string \<Rightarrow> range list" where
  "parseEditableRanges content = parseRangesFrom content 0"

definition isWithinEditableRanges :: "range list \<Rightarrow> nat \<Rightarrow> nat \<Rightarrow> bool" where
  "isWithinEditableRanges ranges s e = list_ex (\<lambda>(rs, re). rs \<le> s \<and> e \<le> re) ranges"

text \<open>For an empty needle the loop would not end; the edit tool refuses one before.\<close>

function collectFrom :: "string \<Rightarrow> string \<Rightarrow> nat \<Rightarrow> range list" where
  "collectFrom content needle cursor =
     (if needle = [] then []
      else case index_from content needle cursor of
             None \<Rightarrow> []
           | Some idx \<Rightarrow> (idx, idx + length needle) # collectFrom content needle (idx + length needle))"
  by pat_completeness auto
termination
proof (relation "measure (\<lambda>(content, needle, cursor). length content - cursor)", goal_cases)
  case (2 content needle cursor idx)
  have "prefix needle (drop idx content)" "cursor \<le> idx" using index_from_Some [OF 2(2)] by simp_all
  then have "idx < length content" using 2(1) by (cases "idx < length content") auto
  with \<open>cursor \<le> idx\<close> 2(1) show ?case by (cases needle) auto
qed simp

declare collectFrom.simps [simp del]

definition collectMatchRanges :: "string \<Rightarrow> string \<Rightarrow> range list" where
  "collectMatchRanges content needle = collectFrom content needle 0"

fun project :: "nat \<Rightarrow> string \<Rightarrow> range list \<Rightarrow> string" where
  "project cursor content [] = drop cursor content"
| "project cursor content ((s, e) # rs) = drop cursor (take s content) @ project e content rs"

definition projectNonEditableContent :: "string \<Rightarrow> range list \<Rightarrow> string" where
  "projectNonEditableContent content ranges = (if ranges = [] then content else project 0 content ranges)"

definition EDIT_BLOCKED :: string where
  "EDIT_BLOCKED = ''Edit blocked: file has editable-region markers ('' @ EDITABLE_START_MARKER @ ''/'' @ EDITABLE_END_MARKER @
     '') and this change touches protected content.''"

definition assertEditWithinAllowedRanges :: "string \<Rightarrow> string \<Rightarrow> bool \<Rightarrow> unit result" where
  "assertEditWithinAllowedRanges content findText replaceAll =
     (let ranges = parseEditableRanges content; matches = collectMatchRanges content findText in
      if ranges = [] \<or> matches = [] then Inr ()
      else let targets = (if replaceAll then matches else [hd matches])
           in if list_all (\<lambda>(s, e). isWithinEditableRanges ranges s e) targets then Inr () else Inl EDIT_BLOCKED)"

definition assertWriteWithinAllowedRanges :: "string \<Rightarrow> string \<Rightarrow> unit result" where
  "assertWriteWithinAllowedRanges existingContent nextContent =
     (let beforeRanges = parseEditableRanges existingContent; afterRanges = parseEditableRanges nextContent in
      if beforeRanges = [] then Inr ()
      else if afterRanges = [] then
        Inl (''Write blocked: files with '' @ EDITABLE_START_MARKER @ ''/'' @ EDITABLE_END_MARKER @
             '' must preserve markers and only change text between them.'')
      else if projectNonEditableContent existingContent beforeRanges \<noteq> projectNonEditableContent nextContent afterRanges then
        Inl (''Write blocked: only content between '' @ EDITABLE_START_MARKER @ ''/'' @ EDITABLE_END_MARKER @ '' can change.'')
      else Inr ())"

section \<open>Paths\<close>

record fs_options =
  fo_cwd :: string
  fo_workspaceDir :: string
  fo_workspaceOnly :: bool

definition isInside :: "string \<Rightarrow> string \<Rightarrow> string \<Rightarrow> bool" where
  "isInside cwd base target =
     (let relative = path_relative cwd base target
      in relative = [] \<or> \<not> starts_with relative ''..'' \<and> \<not> is_absolute relative)"

definition resolveToolPath :: "fs_options \<Rightarrow> string \<Rightarrow> string result" where
  "resolveToolPath opt rawPath =
     (let input = trim rawPath; resolved = resolve_from (fo_cwd opt) (fo_workspaceDir opt) input in
      if input = [] then Inl ''Path is required.''
      else if fo_workspaceOnly opt \<and> \<not> isInside (fo_cwd opt) (fo_workspaceDir opt) resolved
        then Inl (''Path '' @ [CHR 0x27] @ input @ [CHR 0x27] @ '' is outside workspace root.'')
      else if isSensitivePath (fo_cwd opt) resolved (fo_workspaceDir opt)
        then Inl ''Access to sensitive credential files is blocked.''
      else Inr resolved)"

section \<open>Numbers and slices\<close>

fun less_num :: "jnum \<Rightarrow> nat \<Rightarrow> bool" where
  "less_num (Fin q) n = (q < of_nat n)"
| "less_num NegInf n = True"
| "less_num _ n = False"

fun times5 :: "jnum \<Rightarrow> jnum" where
  "times5 (Fin q) = Fin (q * 5)"
| "times5 n = n"

text \<open>\<open>xs.slice(0, n)\<close>: fractions are cut off, a negative end counts from the end, \<open>NaN\<close> is zero.\<close>

fun slice_to :: "jnum \<Rightarrow> 'a list \<Rightarrow> 'a list" where
  "slice_to (Fin q) xs = (if 0 \<le> q then take (nat \<lfloor>q\<rfloor>) xs
                          else if q \<le> - 1 then take (length xs - nat \<lfloor>- q\<rfloor>) xs else [])"
| "slice_to PosInf xs = xs"
| "slice_to _ xs = []"

definition byteLength :: "string \<Rightarrow> nat" where
  "byteLength t = length t + length (filter (\<lambda>c. 128 \<le> code_of c) t)"

section \<open>Walking a directory\<close>

text \<open>\<open>acc.length >= limit\<close>; a limit that is not a number never stops the walk.\<close>

fun limit_reached :: "jnum \<Rightarrow> nat \<Rightarrow> bool" where
  "limit_reached (Fin q) n = (q \<le> of_nat n)"
| "limit_reached NegInf n = True"
| "limit_reached _ n = False"

fun walkEntries :: "string \<Rightarrow> string \<Rightarrow> jnum \<Rightarrow> string \<Rightarrow> (string \<times> node) list \<Rightarrow> string list \<Rightarrow> string list" where
  "walkEntries cwd workspaceDir limit basePath [] acc = acc"
| "walkEntries cwd workspaceDir limit basePath ((name, entry) # rest) acc =
     (if limit_reached limit (length acc) then acc
      else
        let fullPath = path_join basePath name in
        if isSensitivePath cwd fullPath workspaceDir then walkEntries cwd workspaceDir limit basePath rest acc
        else case entry of
               Dir es \<Rightarrow> walkEntries cwd workspaceDir limit basePath rest (walkEntries cwd workspaceDir limit fullPath es acc)
             | File _ \<Rightarrow> walkEntries cwd workspaceDir limit basePath rest (acc @ [fullPath])
             | _ \<Rightarrow> walkEntries cwd workspaceDir limit basePath rest acc)"

definition walkFiles :: "(string \<Rightarrow> string) \<Rightarrow> string \<Rightarrow> string \<Rightarrow> node \<Rightarrow> string \<Rightarrow> jnum \<Rightarrow> string list result" where
  "walkFiles ioe cwd workspaceDir fs basePath limit =
     (if limit_reached limit 0 then Inr []
      else case readdir ioe fs basePath of
             Inl e \<Rightarrow> Inl e
           | Inr entries \<Rightarrow> Inr (walkEntries cwd workspaceDir limit basePath entries []))"

section \<open>The tools\<close>

definition readExecute :: "(string \<Rightarrow> string) \<Rightarrow> fs_options \<Rightarrow> jsv \<Rightarrow> node \<Rightarrow> jsv result" where
  "readExecute ioe opt params fs =
     (case resolveToolPath opt (str_or_empty (jget params ''path'')) of
        Inl e \<Rightarrow> Inl e
      | Inr targetPath \<Rightarrow>
          let maxBytes = to_num (coalesce (jget params ''maxBytes'') (JNum (Fin 250000))) in
          (case readFile ioe fs targetPath of
             Inl e \<Rightarrow> Inl e
           | Inr content \<Rightarrow>
               let long = less_num maxBytes (length content) in
               Inr (JObj [(''path'', JStr targetPath), (''truncated'', JBool long),
                          (''content'', JStr (if long then slice_to maxBytes content else content))])))"

definition writeExecute :: "(string \<Rightarrow> string) \<Rightarrow> fs_options \<Rightarrow> jsv \<Rightarrow> node \<Rightarrow> jsv result \<times> node" where
  "writeExecute ioe opt params fs =
     (case resolveToolPath opt (str_or_empty (jget params ''path'')) of
        Inl e \<Rightarrow> (Inl e, fs)
      | Inr targetPath \<Rightarrow>
          let content = str_or_empty (jget params ''content'');
              createDirs = (jget params ''createDirs'' \<noteq> JBool False)
          in case (case readFile ioe fs targetPath of
                     Inr existingContent \<Rightarrow> assertWriteWithinAllowedRanges existingContent content
                   | Inl _ \<Rightarrow> Inr ()) of
               Inl e \<Rightarrow> (Inl e, fs)
             | Inr _ \<Rightarrow>
                 (case (if createDirs then make_dirs [] (parts_of (path_dirname targetPath)) fs else Some fs) of
                    None \<Rightarrow> (Inl (ioe (path_dirname targetPath)), fs)
                  | Some fs1 \<Rightarrow>
                      (case writeFile ioe fs1 targetPath content of
                         (Inl e, fs2) \<Rightarrow> (Inl e, fs2)
                       | (Inr _, fs2) \<Rightarrow>
                           (Inr (JObj [(''path'', JStr targetPath), (''bytes'', JNum (Fin (of_nat (byteLength content))))]), fs2))))"

text \<open>\<open>content.split(findText).join(replaceText)\<close>, and \<open>content.replace(findText, replaceText)\<close> with its replacement patterns.\<close>

function split_sub :: "string \<Rightarrow> string \<Rightarrow> string list" where
  "split_sub needle s =
     (if needle = [] then [s]
      else case find_sub needle s of
             None \<Rightarrow> [s]
           | Some i \<Rightarrow> take i s # split_sub needle (drop (i + length needle) s))"
  by pat_completeness auto
termination
proof (relation "measure (\<lambda>(needle, s). length s)", goal_cases)
  case (2 needle s i)
  have "i + length needle \<le> length s" using find_sub_Some [OF 2(2)] by simp
  with 2(1) show ?case by (cases needle) auto
qed simp

declare split_sub.simps [simp del]

fun expandPatterns :: "string \<Rightarrow> string \<Rightarrow> string \<Rightarrow> string \<Rightarrow> string" where
  "expandPatterns before matched after (c # d # r) =
     (if c = CHR 0x24 then
        (if d = CHR 0x24 then CHR 0x24 # expandPatterns before matched after r
         else if d = CHR ''&'' then matched @ expandPatterns before matched after r
         else if d = CHR 0x60 then before @ expandPatterns before matched after r
         else if d = CHR 0x27 then after @ expandPatterns before matched after r
         else c # expandPatterns before matched after (d # r))
      else c # expandPatterns before matched after (d # r))"
| "expandPatterns before matched after r = r"

definition replaceFirst :: "string \<Rightarrow> string \<Rightarrow> string \<Rightarrow> string" where
  "replaceFirst content findText replaceText =
     (case index_from content findText 0 of
        None \<Rightarrow> content
      | Some i \<Rightarrow>
          let before = take i content; after = drop (i + length findText) content
          in before @ expandPatterns before findText after replaceText @ after)"

definition editExecute :: "(string \<Rightarrow> string) \<Rightarrow> fs_options \<Rightarrow> jsv \<Rightarrow> node \<Rightarrow> jsv result \<times> node" where
  "editExecute ioe opt params fs =
     (case resolveToolPath opt (str_or_empty (jget params ''path'')) of
        Inl e \<Rightarrow> (Inl e, fs)
      | Inr targetPath \<Rightarrow>
          let findText = str_or_empty (jget params ''find''); replaceText = str_or_empty (jget params ''replace'');
              replaceAll = truthy (jget params ''replaceAll'')
          in if findText = [] then (Inl ''find must not be empty.'', fs)
             else case readFile ioe fs targetPath of
                    Inl e \<Rightarrow> (Inl e, fs)
                  | Inr content \<Rightarrow>
                      if \<not> str_includes content findText then (Inl ''find text was not found in target file.'', fs)
                      else case assertEditWithinAllowedRanges content findText replaceAll of
                             Inl e \<Rightarrow> (Inl e, fs)
                           | Inr _ \<Rightarrow>
                               let nxt = (if replaceAll then js_join replaceText (split_sub findText content)
                                          else replaceFirst content findText replaceText)
                               in case writeFile ioe fs targetPath nxt of
                                    (Inl e, fs2) \<Rightarrow> (Inl e, fs2)
                                  | (Inr _, fs2) \<Rightarrow>
                                      (Inr (JObj [(''path'', JStr targetPath), (''replaceAll'', JBool replaceAll), (''changed'', JBool True)]), fs2))"

fun entry_type :: "node \<Rightarrow> string" where
  "entry_type (Dir _) = ''dir''"
| "entry_type (File _) = ''file''"
| "entry_type _ = ''other''"

definition lsExecute :: "(string \<Rightarrow> string) \<Rightarrow> fs_options \<Rightarrow> jsv \<Rightarrow> node \<Rightarrow> jsv result" where
  "lsExecute ioe opt params fs =
     (case resolveToolPath opt (to_str (coalesce (jget params ''path'') (JStr ''.''))) of
        Inl e \<Rightarrow> Inl e
      | Inr rootPath \<Rightarrow>
          (case readdir ioe fs rootPath of
             Inl e \<Rightarrow> Inl e
           | Inr entries \<Rightarrow>
               let includeHidden = truthy (jget params ''includeHidden'');
                   items = filter (\<lambda>(name, entry). \<not> isSensitivePath (fo_cwd opt) (path_join rootPath name) (fo_workspaceDir opt)
                              \<and> (includeHidden \<or> \<not> starts_with name ''.'')) entries
               in Inr (JObj [(''path'', JStr rootPath),
                    (''items'', JArr (map (\<lambda>(name, entry). JObj [(''name'', JStr name), (''type'', JStr (entry_type entry))]) items))])))"

definition findExecute :: "(string \<Rightarrow> string) \<Rightarrow> fs_options \<Rightarrow> jsv \<Rightarrow> node \<Rightarrow> jsv result" where
  "findExecute ioe opt params fs =
     (case resolveToolPath opt (to_str (coalesce (jget params ''path'') (JStr ''.''))) of
        Inl e \<Rightarrow> Inl e
      | Inr rootPath \<Rightarrow>
          (case node_at fs rootPath of
             None \<Rightarrow> Inl (ioe rootPath)
           | Some (Dir _) \<Rightarrow>
               let limit = to_num (coalesce (jget params ''limit'') (JNum (Fin 200)));
                   pattern = to_lower (str_or_empty (jget params ''pattern''))
               in (case walkFiles ioe (fo_cwd opt) (fo_workspaceDir opt) fs rootPath (times5 limit) of
                     Inl e \<Rightarrow> Inl e
                   | Inr scanned \<Rightarrow>
                       let matched = map (\<lambda>p. let r = path_relative (fo_cwd opt) (fo_workspaceDir opt) p in if r \<noteq> [] then r else p)
                             (slice_to limit (filter (\<lambda>p. pattern = [] \<or> str_includes (to_lower p) pattern) scanned))
                       in Inr (JObj [(''path'', JStr rootPath), (''count'', JNum (Fin (of_nat (length matched)))),
                                     (''files'', JArr (map JStr matched))]))
           | Some _ \<Rightarrow> Inl ''find path must be a directory.''))"

definition existsExecute :: "fs_options \<Rightarrow> jsv \<Rightarrow> node \<Rightarrow> jsv result" where
  "existsExecute opt params fs =
     (case resolveToolPath opt (str_or_empty (jget params ''path'')) of
        Inl e \<Rightarrow> Inl e
      | Inr targetPath \<Rightarrow> Inr (JObj [(''path'', JStr targetPath), (''exists'', JBool (node_at fs targetPath \<noteq> None))]))"

datatype fs_tool = FsRead | FsWrite | FsEdit | FsLs | FsFind | FsExists

text \<open>\<open>createFilesystemTools\<close> resolves the workspace directory once; a call of one of the tools.\<close>

fun fsExecute :: "(string \<Rightarrow> string) \<Rightarrow> fs_options \<Rightarrow> fs_tool \<Rightarrow> jsv \<Rightarrow> node \<Rightarrow> jsv result \<times> node" where
  "fsExecute ioe opt FsRead params fs = (readExecute ioe opt params fs, fs)"
| "fsExecute ioe opt FsWrite params fs = writeExecute ioe opt params fs"
| "fsExecute ioe opt FsEdit params fs = editExecute ioe opt params fs"
| "fsExecute ioe opt FsLs params fs = (lsExecute ioe opt params fs, fs)"
| "fsExecute ioe opt FsFind params fs = (findExecute ioe opt params fs, fs)"
| "fsExecute ioe opt FsExists params fs = (existsExecute opt params fs, fs)"

definition createFilesystemTools :: "string \<Rightarrow> string \<Rightarrow> bool \<Rightarrow> fs_options" where
  "createFilesystemTools cwd workspaceDir workspaceOnly =
     \<lparr>fo_cwd = cwd, fo_workspaceDir = path_resolve cwd workspaceDir, fo_workspaceOnly = workspaceOnly\<rparr>"

section \<open>Files after an operation\<close>

definition file_at :: "node \<Rightarrow> string list \<Rightarrow> string option" where
  "file_at fs q = (case lookup fs q of Some (File t) \<Rightarrow> Some t | _ \<Rightarrow> None)"

lemma file_at_simps [simp]:
  "file_at (File t) [] = Some t" "file_at (Dir es) [] = None" "file_at Other q = None" "file_at (Link l) q = None" "file_at (File t) (c # cs) = None"
  "file_at (Dir es) (c # cs) = (case map_of es c of Some m \<Rightarrow> file_at m cs | None \<Rightarrow> None)"
  by (auto simp: file_at_def split: option.split) (cases q; simp)+

lemma file_at_empty [simp]: "file_at (Dir []) q = None"
  by (cases q) simp_all

lemma put_file_Dir: "put_file cs t fs = Some fs' \<Longrightarrow> cs \<noteq> [] \<Longrightarrow> \<exists>es. fs = Dir es"
  by (cases fs; cases cs) auto

lemma file_after_put: "put_file cs t fs = Some fs' \<Longrightarrow> file_at fs' q = (if q = cs then Some t else file_at fs q)"
proof (induction cs arbitrary: fs fs' q)
  case Nil
  then show ?case by (cases fs; cases q) auto
next
  case (Cons c cs)
  then obtain es where fs: "fs = Dir es" using put_file_Dir by blast
  show ?case
  proof (cases cs)
    case Nil
    with Cons.prems show ?thesis
      by (cases q; cases "tl q") (auto simp: fs store_simps split: option.splits node.splits)
  next
    case (Cons d ds)
    with Cons.prems obtain m m' where m: "map_of es c = Some m" "put_file cs t m = Some m'" "fs' = Dir (AList.update c m' es)"
      by (auto simp: fs split: option.splits)
    show ?thesis using Cons.IH [OF m(2)] m Cons by (cases q) (auto simp: fs store_simps)
  qed
qed

lemma lookup_append: "lookup n (p @ q) = Option.bind (lookup n p) (\<lambda>m. lookup m q)"
proof (induction n p rule: lookup.induct)
  case (2 es c cs)
  then show ?case by (auto split: option.split)
qed auto

section \<open>Following links\<close>

lemma lookup_below_None: "lookup n p = None \<Longrightarrow> lookup n (p @ q) = None"
  by (simp add: lookup_append)

lemma kind_put_file:
  "put_file q t fs = Some fs' \<Longrightarrow> kind_at fs q \<in> {None, Some AFile} \<and> kind_at fs' r = (if r = q then Some AFile else kind_at fs r)"
proof (induction q t fs arbitrary: fs' r rule: put_file.induct)
  case (3 c t es)
  then show ?case by (cases r; cases "tl r") (auto simp: kind_at_def store_simps split: option.splits node.splits)
next
  case (4 c v va t es)
  then obtain m m' where m: "map_of es c = Some m" "put_file (v # va) t m = Some m'" "fs' = Dir (AList.update c m' es)"
    by (auto split: option.splits)
  show ?case using "4.IH" [OF m(1,2)] m by (cases r) (auto simp: kind_at_def store_simps)
next
  case (1 t u)
  then show ?case by (cases r) (auto simp: kind_at_def)
qed simp_all

lemma put_dir_at:
  "put_dir q fs = Some fs' \<Longrightarrow> lookup fs q = None \<and> lookup fs' q = Some (Dir []) \<and> file_at fs' r = file_at fs r
     \<and> kind_at fs' r = (if r = q then Some ADir else kind_at fs r)"
proof (induction q fs arbitrary: fs' r rule: put_dir.induct)
  case (1 c es)
  then show ?case
    by (cases r; cases "tl r") (auto simp: kind_at_def store_simps split: option.splits)
next
  case (2 c v va es)
  then obtain m m' where m: "map_of es c = Some m" "put_dir (v # va) m = Some m'" "fs' = Dir (AList.update c m' es)"
    by (auto split: option.splits)
  show ?case using "2.IH" [OF m(1,2)] m by (cases r) (auto simp: kind_at_def store_simps)
qed auto

lemma walk_cong: "(\<And>r. kind_at fs' r = kind_at fs r) \<Longrightarrow> walk fs' k here cs = walk fs k here cs"
proof (induction fs k here cs rule: walk.induct)
  case (2 fs k here c cs)
  then show ?case by (simp split: option.split kind.split nat.split)
qed simp

text \<open>A file or directory that is new does not change where paths lead.\<close>

lemma walk_mono:
  assumes "\<And>r. r \<noteq> q \<Longrightarrow> kind_at fs' r = kind_at fs r" "kind_at fs q = None" "kind_at fs' q \<in> {Some AFile, Some ADir}"
  shows "walk fs k here cs = Some x \<Longrightarrow> walk fs' k here cs = Some x"
  using assms
proof (induction fs k here cs rule: walk.induct)
  case (2 fs k here c cs)
  have d: "kind_at fs here = Some ADir" using "2.prems"(1) by (simp split: if_splits)
  then have d': "kind_at fs' here = Some ADir" using "2.prems"(2,3) by (cases "here = q") auto
  consider "c = [] \<or> c = ''.''" | "\<not> (c = [] \<or> c = ''.'')" "c = ''..''" | "\<not> (c = [] \<or> c = ''.'')" "c \<noteq> ''..''" by blast
  then show ?case
  proof cases
    case 1
    then show ?thesis using 2 d d' by (simp only: walk.simps if_True if_False not_False_eq_True simp_thms)
  next
    case 2
    then show ?thesis using "2.IH"(2) "2.prems" d d' by (simp only: walk.simps if_True if_False simp_thms)
  next
    case 3
    note n = 3
    show ?thesis
    proof (cases "here @ [c] = q")
      case True
      then have "cs = [] \<and> x = (here @ [c], k)" using "2.prems"(1,3) n d by (simp split: if_splits)
      moreover have "kind_at fs' (here @ [c]) \<in> {Some AFile, Some ADir}" using True "2.prems"(4) by simp
      ultimately show ?thesis using n d' by auto
    next
      case False
      then have same: "kind_at fs' (here @ [c]) = kind_at fs (here @ [c])" using "2.prems"(2) by blast
      show ?thesis
      proof (cases "kind_at fs (here @ [c])")
        case None
        then show ?thesis using "2.prems"(1) n d d' same by (simp split: if_splits)
      next
        case (Some kd)
        show ?thesis
        proof (cases kd)
          case (ALink t)
          then show ?thesis using "2.prems" "2.IH"(5) n d d' same Some by (cases k) simp_all
        qed (use "2.prems" "2.IH"(3,4,6) n d d' same Some in simp_all)
      qed
    qed
  qed
qed simp

lemma walk_append: "walk fs k here (xs @ ys) = Option.bind (walk fs k here xs) (\<lambda>(h, j). walk fs j h ys)"
proof (induction fs k here xs rule: walk.induct)
  case (2 fs k here c cs)
  then show ?case
    by (cases ys) (simp_all split: option.split kind.split nat.split)
qed simp

lemma walk_to_dir:
  assumes "walk fs k here cs = Some (d, j)" "lookup fs d = Some (Dir [])" "component c"
  shows "walk fs k here (cs @ [c]) = Some (d @ [c], j)" "lookup fs (d @ [c]) = None"
  using assms by (auto simp: walk_append kind_at_def component_def lookup_append)

lemma put_dir_walk:
  assumes "put_dir (d @ [c]) fs = Some fs'" "walk fs k [] cs = Some (d, j)" "component c"
  shows "walk fs' k [] (cs @ [c]) = Some (d @ [c], j)" "lookup fs' (d @ [c]) = Some (Dir [])" "lookup fs (d @ [c]) = None"
proof -
  note p = put_dir_at [OF assms(1)]
  show l: "lookup fs' (d @ [c]) = Some (Dir [])" "lookup fs (d @ [c]) = None" using p by simp_all
  have "walk fs' k [] cs = Some (d, j)"
    by (rule walk_mono [where q = "d @ [c]", OF _ _ _ assms(2)]) (use p in \<open>auto simp: kind_at_def\<close>)
  moreover obtain es where "lookup fs' d = Some (Dir es)" "map_of es c = Some (Dir [])"
    using l(1) by (auto simp: lookup_append elim!: lookup.elims split: option.splits Option.bind_splits)
  ultimately show "walk fs' k [] (cs @ [c]) = Some (d @ [c], j)"
    using assms(3) by (simp add: walk_append kind_at_def component_def lookup_append)
qed

lemma dirs_below_new:
  assumes "walk fs MAX_LINKS [] base = Some (d, k)" "lookup fs d = Some (Dir [])" "\<forall>c \<in> set cs. component c" "make_dirs base cs fs = Some fs1"
  shows "walk fs1 MAX_LINKS [] (base @ cs) = Some (d @ cs, k) \<and> lookup fs1 (d @ cs) = Some (Dir [])"
  using assms
proof (induction cs arbitrary: base d fs)
  case (Cons c cs)
  have c: "component c" using Cons.prems(3) by simp
  note w = walk_to_dir [OF Cons.prems(1,2) c]
  obtain fs' where fs': "mkdir_at (base @ [c]) fs = Some fs'" "make_dirs (base @ [c]) cs fs' = Some fs1"
    using Cons.prems(4) by (auto split: Option.bind_splits)
  then have "put_dir (d @ [c]) fs = Some fs'"
    using w Cons.prems(1) by (simp add: mkdir_at_def find_node_def real_path_def)
  from put_dir_walk [OF this Cons.prems(1) c] Cons.IH [of fs' "base @ [c]" "d @ [c]"] fs'(2) Cons.prems(3) show ?case by simp
qed simp

text \<open>When directories were made, the path leads to a place that did not exist.\<close>

lemma dirs_lead_to_new:
  assumes "make_dirs base cs fs = Some fs1" "\<forall>c \<in> set cs. component c" "fs1 \<noteq> fs"
  shows "\<exists>d k. walk fs1 MAX_LINKS [] (base @ cs) = Some (d, k) \<and> lookup fs1 d = Some (Dir []) \<and> lookup fs d = None"
  using assms
proof (induction cs arbitrary: base fs)
  case (Cons c cs)
  obtain fs' where fs': "mkdir_at (base @ [c]) fs = Some fs'" "make_dirs (base @ [c]) cs fs' = Some fs1"
    using Cons.prems(1) by (auto split: Option.bind_splits)
  show ?case
  proof (cases "fs' = fs")
    case True
    then show ?thesis using Cons.IH [of "base @ [c]" fs] fs'(2) Cons.prems(2,3) by simp
  next
    case False
    then obtain d k where d: "walk fs MAX_LINKS [] base = Some (d, k)" "put_dir (d @ [c]) fs = Some fs'"
      using fs'(1) by (auto simp: mkdir_at_def real_path_def split: option.splits node.splits)
    have c: "component c" "\<forall>c \<in> set cs. component c" using Cons.prems(2) by simp_all
    note p = put_dir_walk [OF d(2,1) c(1)]
    have "walk fs1 MAX_LINKS [] ((base @ [c]) @ cs) = Some ((d @ [c]) @ cs, k) \<and> lookup fs1 ((d @ [c]) @ cs) = Some (Dir [])"
      by (rule dirs_below_new [OF p(1,2) c(2) fs'(2)])
    moreover have "lookup fs ((d @ [c]) @ cs) = None" using p(3) by (rule lookup_below_None)
    ultimately show ?thesis by auto
  qed
qed simp

lemma mkdir_keeps:
  assumes "mkdir_at cs fs = Some fs'"
  shows "file_at fs' q = file_at fs q \<and> (kind_at fs' q = kind_at fs q \<or> kind_at fs' q = Some ADir)"
  using assms put_dir_at [of _ fs fs' q] by (fastforce simp: mkdir_at_def split: option.splits node.splits)

lemma make_dirs_keeps:
  "make_dirs base cs fs = Some fs' \<Longrightarrow> file_at fs' q = file_at fs q \<and> (kind_at fs' q = kind_at fs q \<or> kind_at fs' q = Some ADir)"
proof (induction base cs fs rule: make_dirs.induct)
  case (2 base c cs fs)
  then obtain fs1 where "mkdir_at (base @ [c]) fs = Some fs1" "make_dirs (base @ [c]) cs fs1 = Some fs'"
    by (auto split: Option.bind_splits)
  with 2 mkdir_keeps show ?case by metis
qed simp

text \<open>Where no link lies on the way to a directory or below it, the paths below it lead where they say.\<close>

fun link_free :: "node \<Rightarrow> bool" where
  "link_free (Dir es) = list_all (\<lambda>(name, n). link_free n) es"
| "link_free (Link _) = False"
| "link_free _ = True"

fun plain_below :: "node \<Rightarrow> string list \<Rightarrow> bool" where
  "plain_below n [] = link_free n"
| "plain_below (Dir es) (c # cs) = (case map_of es c of None \<Rightarrow> True | Some m \<Rightarrow> plain_below m cs)"
| "plain_below (Link _) (c # cs) = False"
| "plain_below _ (c # cs) = True"

lemma link_free_lookup: "link_free n \<Longrightarrow> lookup n q = Some m \<Longrightarrow> link_free m"
proof (induction n q rule: lookup.induct)
  case (2 es c cs)
  obtain e where e: "map_of es c = Some e" "lookup e cs = Some m" using "2.prems"(2) by (auto split: option.splits)
  moreover have "link_free e" using "2.prems"(1) map_of_SomeD [OF e(1)] by (auto simp: list_all_iff)
  ultimately show ?case using "2.IH" by blast
qed auto

lemma leaf_not_link: "kind_at (File s) r \<noteq> Some (ALink t)" "kind_at Other r \<noteq> Some (ALink t)"
  by (cases r; simp add: kind_at_def)+

lemma plain_not_link: "plain_below n ws \<Longrightarrow> prefix r ws \<or> prefix ws r \<Longrightarrow> kind_at n r \<noteq> Some (ALink t)"
proof (induction n ws arbitrary: r rule: plain_below.induct)
  case (1 n)
  then show ?case using link_free_lookup [of n r] by (auto simp: kind_at_def) (metis kind.distinct kind_of.elims link_free.simps(2))
next
  case (2 es c cs)
  show ?case
  proof (cases r)
    case (Cons d r')
    show ?thesis
    proof (cases "map_of es c")
      case None
      then show ?thesis using Cons 2(3) by (auto simp: kind_at_def)
    next
      case (Some m)
      then show ?thesis using "2.IH" [OF Some, of r'] Cons 2(2,3) by (auto simp: kind_at_def)
    qed
  qed (simp add: kind_at_def)
qed (simp_all add: leaf_not_link)

definition links_avoided :: "node \<Rightarrow> string list \<Rightarrow> bool" where
  "links_avoided fs cs \<longleftrightarrow> (\<forall>r t. prefix r cs \<longrightarrow> kind_at fs r \<noteq> Some (ALink t))"

lemma walk_plain:
  assumes "links_avoided fs (here @ cs)" "\<forall>c \<in> set cs. component c"
  shows "Option.bind (map_option fst (walk fs k here cs)) (lookup fs) = lookup fs (here @ cs)
    \<and> (\<forall>q j. walk fs k here cs = Some (q, j) \<longrightarrow> q = here @ cs)"
  using assms
proof (induction cs arbitrary: here)
  case (Cons c cs)
  have c: "\<not> (c = [] \<or> c = ''.'')" "c \<noteq> ''..''" using Cons.prems(2) by (simp_all add: component_def)
  have link: "kind_at fs (here @ [c]) \<noteq> Some (ALink t)" for t
    using Cons.prems(1) unfolding links_avoided_def by (metis append.assoc append_Cons append_Nil prefixI)
  show ?case
  proof (cases "kind_at fs here = Some ADir")
    case False
    then have "lookup fs (here @ c # cs) = None"
      by (cases "lookup fs here"; cases "the (lookup fs here)") (simp_all add: kind_at_def lookup_append)
    then show ?thesis using False by simp
  next
    case True
    show ?thesis
    proof (cases "kind_at fs (here @ [c])")
      case None
      then have "lookup fs (here @ [c]) = None" by (simp add: kind_at_def)
      then have "lookup fs ((here @ [c]) @ cs) = None" by (rule lookup_below_None)
      then show ?thesis using None True c by (cases cs) simp_all
    next
      case (Some kd)
      then have "walk fs k here (c # cs) = walk fs k (here @ [c]) cs"
        using True c link by (cases kd) simp_all
      then show ?thesis using Cons.IH [of "here @ [c]"] Cons.prems by simp
    qed
  qed
qed simp

lemma plain_avoids: "plain_below fs ws \<Longrightarrow> prefix ws cs \<Longrightarrow> links_avoided fs cs"
  unfolding links_avoided_def by (metis plain_not_link prefix_same_cases)

lemma avoided_kept:
  assumes "links_avoided fs cs" "\<forall>r. kind_at fs1 r = kind_at fs r \<or> kind_at fs1 r = Some ADir"
  shows "links_avoided fs1 cs"
  unfolding links_avoided_def
proof (intro allI impI)
  fix r t
  assume "prefix r cs"
  then have "kind_at fs r \<noteq> Some (ALink t)" using assms(1) by (simp add: links_avoided_def)
  moreover have "kind_at fs1 r = kind_at fs r \<or> kind_at fs1 r = Some ADir" using assms(2) by blast
  ultimately show "kind_at fs1 r \<noteq> Some (ALink t)" by auto
qed

lemma find_plain:
  assumes "plain_below fs ws" "prefix ws (parts_of p)"
  shows "node_at fs p = lookup fs (parts_of p)"
  using walk_plain [of fs "[]" "parts_of p" MAX_LINKS] plain_avoids [OF assms] parts_of_component
  by (simp add: node_at_def find_node_def real_path_def)

lemma real_plain:
  assumes "links_avoided fs (parts_of p)" "real_path fs (parts_of p) = Some q"
  shows "q = parts_of p"
  using walk_plain [of fs "[]" "parts_of p" MAX_LINKS] assms parts_of_component by (auto simp: real_path_def)

section \<open>The path guard\<close>

lemma abs_parts_resolve: "abs_path (parts_of (resolve_from cwd base p)) = resolve_from cwd base p"
  using parts_of_component by (auto simp: resolve_from_def)

lemma isInside_prefix:
  assumes "isInside cwd base target" "is_absolute base" "is_absolute target"
  shows "prefix (parts_of base) (parts_of target)"
proof -
  have "path_relative cwd base target = [] \<or> \<not> starts_with (path_relative cwd base target) ''..''"
    using assms(1) by (auto simp: isInside_def Let_def)
  then show ?thesis using contains_test [OF assms(2,3)] by (auto simp: prefix_def)
qed

lemma workspaceDir_absolute [simp]: "is_absolute (fo_workspaceDir (createFilesystemTools cwd ws only))"
  by (simp add: createFilesystemTools_def path_resolve_def)

lemma resolved_ok:
  assumes "resolveToolPath (createFilesystemTools cwd ws True) raw = Inr p"
  shows "prefix (parts_of (path_resolve cwd ws)) (parts_of p) \<and> abs_path (parts_of p) = p
    \<and> \<not> isSensitivePath cwd p (path_resolve cwd ws)"
proof -
  have "isInside cwd (path_resolve cwd ws) p" "\<not> isSensitivePath cwd p (path_resolve cwd ws)"
    "p = resolve_from cwd (path_resolve cwd ws) (trim raw)"
    using assms by (auto simp: resolveToolPath_def createFilesystemTools_def Let_def split: if_splits)
  then show ?thesis
    using isInside_prefix [of cwd "path_resolve cwd ws" p] abs_parts_resolve by (simp add: path_resolve_def)
qed

text \<open>What the two writing tools do to the files: at most the file that the target path leads to changes.\<close>

lemma readFile_file_at: "readFile ioe fs p = Inr t \<longleftrightarrow> (\<exists>q. real_path fs (parts_of p) = Some q \<and> file_at fs q = Some t)"
  by (cases "real_path fs (parts_of p)") (simp_all add: readFile_def file_at_def node_at_def find_node_def split: option.split node.split)

lemma writeFile_file_at:
  assumes "writeFile ioe fs p t = (Inr u, fs')"
  shows "\<exists>r. real_path fs (parts_of p) = Some r \<and> real_path fs' (parts_of p) = Some r
    \<and> (\<forall>q. file_at fs' q = (if q = r then Some t else file_at fs q))"
proof -
  obtain r where r: "real_path fs (parts_of p) = Some r" "put_file r t fs = Some fs'"
    using assms by (auto simp: writeFile_def split: option.splits Option.bind_splits)
  then obtain k where w: "walk fs MAX_LINKS [] (parts_of p) = Some (r, k)" by (auto simp: real_path_def)
  note kp = kind_put_file [OF r(2)]
  have "walk fs' MAX_LINKS [] (parts_of p) = Some (r, k)"
  proof (cases "kind_at fs r")
    case None
    show ?thesis by (rule walk_mono [OF _ None _ w]) (use kp in auto)
  next
    case (Some kd)
    then have "kind_at fs' q = kind_at fs q" for q using kp [of q] by auto
    from walk_cong [OF this] w show ?thesis by simp
  qed
  then show ?thesis using r file_after_put [OF r(2)] by (auto simp: real_path_def)
qed

lemma writeFile_error: "writeFile ioe fs p t = (Inl e, fs') \<Longrightarrow> fs' = fs"
  by (auto simp: writeFile_def split: option.splits Option.bind_splits)

lemma writeFile_changes:
  assumes "writeFile ioe fs p t = (res, fs')"
  shows "file_at fs' q = file_at fs q \<or> real_path fs (parts_of p) = Some q"
  using assms writeFile_file_at [of ioe fs p t _ fs'] writeFile_error [of ioe fs p t _ fs'] by (cases res) fastforce+

lemma write_changes:
  "file_at (snd (writeExecute ioe opt params fs)) q = file_at fs q
   \<or> (\<exists>p fs1. resolveToolPath opt (str_or_empty (jget params ''path'')) = Inr p \<and> real_path fs1 (parts_of p) = Some q
        \<and> (\<forall>r. kind_at fs1 r = kind_at fs r \<or> kind_at fs1 r = Some ADir))"
proof (cases "resolveToolPath opt (str_or_empty (jget params ''path''))")
  case (Inr p)
  let ?new = "str_or_empty (jget params ''content'')"
  let ?dirs = "if jget params ''createDirs'' \<noteq> JBool False then make_dirs [] (parts_of (path_dirname p)) fs else Some fs"
  show ?thesis
  proof (cases "snd (writeExecute ioe opt params fs) = fs")
    case False
    then obtain fs1 where fs1: "?dirs = Some fs1" "snd (writeExecute ioe opt params fs) = snd (writeFile ioe fs1 p ?new)"
      unfolding writeExecute_def Inr sum.case Let_def by (auto split: sum.splits option.splits prod.splits)
    have "file_at fs1 q = file_at fs q" "kind_at fs1 r = kind_at fs r \<or> kind_at fs1 r = Some ADir" for r
      using fs1(1) make_dirs_keeps by (auto split: if_splits)
    then show ?thesis using writeFile_changes [of ioe fs1 p ?new _ _ q] fs1(2) Inr by (metis prod.collapse)
  qed simp
qed (simp add: writeExecute_def)

lemma edit_changes:
  "file_at (snd (editExecute ioe opt params fs)) q = file_at fs q
   \<or> (\<exists>p. resolveToolPath opt (str_or_empty (jget params ''path'')) = Inr p \<and> real_path fs (parts_of p) = Some q)"
  unfolding editExecute_def Let_def
  using writeFile_changes by (fastforce split: sum.splits option.splits if_splits prod.splits)

lemma exec_changes:
  "file_at (snd (fsExecute ioe opt tool params fs)) q = file_at fs q
   \<or> (\<exists>raw p fs1. resolveToolPath opt raw = Inr p \<and> real_path fs1 (parts_of p) = Some q
        \<and> (\<forall>r. kind_at fs1 r = kind_at fs r \<or> kind_at fs1 r = Some ADir))"
  using write_changes [of ioe opt params fs q] edit_changes [of ioe opt params fs q] by (cases tool) auto

text \<open>What the four reading tools see: the node the resolved path leads to.\<close>

lemma node_in_workspace:
  assumes "lookup fs1 ws = lookup fs2 ws" "plain_below fs1 ws" "plain_below fs2 ws" "prefix ws (parts_of p)"
  shows "node_at fs1 p = node_at fs2 p"
  using assms find_plain [OF assms(2,4)] find_plain [OF assms(3,4)] by (auto simp: prefix_def lookup_append)

lemma walk_agree: "node_at fs1 p = node_at fs2 p \<Longrightarrow> walkFiles ioe cwd ws fs1 p limit = walkFiles ioe cwd ws fs2 p limit"
  by (simp add: walkFiles_def readdir_def)

lemma reads_agree:
  assumes "\<And>raw p. resolveToolPath opt raw = Inr p \<Longrightarrow> node_at fs1 p = node_at fs2 p"
  shows "list_all (\<lambda>tool. fst (fsExecute ioe opt tool params fs1) = fst (fsExecute ioe opt tool params fs2)) [FsRead, FsLs, FsFind, FsExists]"
proof -
  have "readExecute ioe opt params fs1 = readExecute ioe opt params fs2"
    using assms by (simp add: readExecute_def readFile_def split: sum.split)
  moreover have "lsExecute ioe opt params fs1 = lsExecute ioe opt params fs2"
    using assms by (simp add: lsExecute_def readdir_def split: sum.split)
  moreover have "findExecute ioe opt params fs1 = findExecute ioe opt params fs2"
  proof (cases "resolveToolPath opt (to_str (coalesce (jget params ''path'') (JStr ''.'')))")
    case (Inr p)
    note same = assms [OF this]
    show ?thesis unfolding findExecute_def Inr sum.case same walk_agree [OF same] ..
  qed (simp add: findExecute_def)
  moreover have "existsExecute opt params fs1 = existsExecute opt params fs2"
    using assms by (simp add: existsExecute_def split: sum.split)
  ultimately show ?thesis by simp
qed

section \<open>Regions and matches\<close>

text \<open>Ranges in increasing order that do not overlap, from a cursor on.\<close>

fun chain :: "nat \<Rightarrow> range list \<Rightarrow> bool" where
  "chain c [] = True"
| "chain c ((s, e) # rs) = (c \<le> s \<and> s \<le> e \<and> chain e rs)"

lemma chain_mono: "chain c rs \<Longrightarrow> d \<le> c \<Longrightarrow> chain d rs"
  by (cases rs) auto

lemma ranges_chain: "chain cursor (parseRangesFrom content cursor)"
proof (induction content cursor rule: parseRangesFrom.induct)
  case (1 content cursor)
  show ?case
  proof (cases "length content \<le> cursor \<or> nextRange content cursor = None")
    case True
    then show ?thesis by (auto simp: parseRangesFrom.simps [of content cursor])
  next
    case False
    then obtain s e c where n: "nextRange content cursor = Some ((s, e), c)" by auto
    have "chain c (parseRangesFrom content c)" using 1 [of "((s, e), c)" "(s, e)" c] n False by simp
    then have "chain e (parseRangesFrom content c)" using chain_mono nextRange_Some(4) [OF n] by force
    then show ?thesis
      using n False nextRange_Some(1,2) [OF n] by (simp add: parseRangesFrom.simps [of content cursor])
  qed
qed

lemma collect_Some:
  assumes "needle \<noteq> []" "index_from content needle cursor = Some i"
  shows "collectFrom content needle cursor = (i, i + length needle) # collectFrom content needle (i + length needle)"
  using assms by (simp add: collectFrom.simps [of content needle cursor])

lemma collect_None: "needle = [] \<or> index_from content needle cursor = None \<Longrightarrow> collectFrom content needle cursor = []"
  by (auto simp: collectFrom.simps [of content needle cursor])

lemma matches_ok: "chain cursor (collectFrom content needle cursor) \<and> list_all (\<lambda>(s, e). s < e) (collectFrom content needle cursor)"
proof (induction content needle cursor rule: collectFrom.induct)
  case (1 content needle cursor)
  show ?case
  proof (cases "needle = [] \<or> index_from content needle cursor = None")
    case True
    then show ?thesis by (simp add: collect_None)
  next
    case False
    then obtain i where i: "needle \<noteq> []" "index_from content needle cursor = Some i" by auto
    then have "cursor \<le> i" using index_from_Some by blast
    then show ?thesis using 1 [OF i] i(1) by (simp add: collect_Some [OF i])
  qed
qed

text \<open>Replacing ranges, and the form a text has when only the contents of ranges may differ.\<close>

fun replaceRanges :: "nat \<Rightarrow> string \<Rightarrow> range list \<Rightarrow> string \<Rightarrow> string" where
  "replaceRanges cursor content [] r = drop cursor content"
| "replaceRanges cursor content ((s, e) # ms) r = drop cursor (take s content) @ r @ replaceRanges e content ms r"

fun refill :: "nat \<Rightarrow> string \<Rightarrow> range list \<Rightarrow> string list \<Rightarrow> string" where
  "refill cursor content ((s, e) # rs) (n # ns) = drop cursor (take s content) @ n @ refill e content rs ns"
| "refill cursor content rs ns = drop cursor content"

lemma drop_take_split: "c \<le> s \<Longrightarrow> s \<le> d \<Longrightarrow> drop c (take d xs) = drop c (take s xs) @ drop s (take d xs)"
proof -
  assume le: "c \<le> s" "s \<le> d"
  then have "take s (take d xs) = take s xs" by (simp add: min_absorb1)
  then have "take d xs = take s xs @ drop s (take d xs)" using append_take_drop_id [of s "take d xs"] by simp
  then have "drop c (take d xs) = drop c (take s xs @ drop s (take d xs))" by simp
  also have "\<dots> = drop c (take s xs) @ drop s (take d xs)" using le by (cases "s \<le> length xs") simp_all
  finally show ?thesis .
qed

lemma drop_split: "s \<le> e \<Longrightarrow> drop s xs = drop s (take e xs) @ drop e xs"
  using drop_take_split [of s e "max e (length xs)" xs] by simp

lemma split_sub_Some:
  "needle \<noteq> [] \<Longrightarrow> find_sub needle s = Some i \<Longrightarrow> split_sub needle s = take i s # split_sub needle (drop (i + length needle) s)"
  by (simp add: split_sub.simps [of needle s])

lemma split_sub_nonempty [simp]: "split_sub needle s \<noteq> []"
  by (simp add: split_sub.simps [of needle s] split: option.split)

lemma split_join_replace:
  "needle \<noteq> [] \<Longrightarrow>
   js_join r (split_sub needle (drop cursor content)) = replaceRanges cursor content (collectFrom content needle cursor) r"
proof (induction content needle cursor rule: collectFrom.induct)
  case (1 content needle cursor)
  show ?case
  proof (cases "find_sub needle (drop cursor content)")
    case None
    then show ?thesis by (simp add: collect_None index_from_def split_sub.simps [of needle "drop cursor content"])
  next
    case (Some i)
    then have i: "index_from content needle cursor = Some (cursor + i)" by (simp add: index_from_def)
    have "drop (i + length needle) (drop cursor content) = drop (cursor + i + length needle) content"
      by (simp add: add.commute add.left_commute)
    moreover have "take i (drop cursor content) = drop cursor (take (cursor + i) content)" by (simp add: take_drop add.commute)
    ultimately show ?thesis
      using 1(1) [OF "1.prems" i "1.prems"] by (simp add: split_sub_Some [OF "1.prems" Some] collect_Some [OF "1.prems" i] js_join_Cons)
  qed
qed

text \<open>Replacing inside one range, up to the matches behind it.\<close>

lemma replace_in_range:
  assumes "chain s ms1" "list_all (\<lambda>(a, b). b \<le> e) ms1" "chain e ms2" "s \<le> e"
  shows "\<exists>n. replaceRanges s content (ms1 @ ms2) r = n @ replaceRanges e content ms2 r"
  using assms
proof (induction ms1 arbitrary: s)
  case Nil
  then show ?case
  proof (cases ms2)
    case (Cons m ms)
    then obtain a b where "m = (a, b)" "e \<le> a" using Nil.prems(3) by (cases m) auto
    then show ?thesis using Cons Nil.prems(4) by (auto simp: drop_take_split [of s e a])
  qed (use drop_split [OF Nil.prems(4)] in auto)
next
  case (Cons m ms1)
  obtain a b where m: "m = (a, b)" by (cases m)
  from Cons obtain n where "replaceRanges b content (ms1 @ ms2) r = n @ replaceRanges e content ms2 r"
    by (auto simp: m)
  then show ?case by (simp add: m)
qed

lemma chain_append_ends: "chain c ms \<Longrightarrow> (a, b) \<in> set ms \<Longrightarrow> c \<le> a \<and> a \<le> b"
proof (induction ms arbitrary: c)
  case (Cons m ms)
  then show ?case by (cases m) fastforce
qed simp

lemma chain_dropWhile:
  assumes "chain c ms" "\<forall>(a, b) \<in> set (dropWhile P ms). e \<le> a"
  shows "chain e (dropWhile P ms)"
  using assms
proof (induction ms arbitrary: c)
  case (Cons m ms)
  then show ?case by (cases m) auto
qed simp

lemma chain_takeWhile: "chain c ms \<Longrightarrow> chain c (takeWhile P ms)"
proof (induction ms arbitrary: c)
  case (Cons m ms)
  then show ?case by (cases m) auto
qed simp

lemma dropWhile_late:
  "chain c ms \<Longrightarrow> (a, b) \<in> set (dropWhile (\<lambda>(a, b). b \<le> e) ms) \<Longrightarrow> list_all (\<lambda>(s, e). s < e) ms \<Longrightarrow> e < b"
proof (induction ms arbitrary: c)
  case (Cons m ms)
  obtain s t where m: "m = (s, t)" by (cases m)
  show ?case
  proof (cases "t \<le> e")
    case True
    with Cons m show ?thesis by auto
  next
    case False
    with Cons.prems m have "(a, b) = (s, t) \<or> (a, b) \<in> set ms" "chain t ms" by auto
    with False chain_append_ends [of t ms a b] show ?thesis by auto
  qed
qed simp

lemma replace_from: "chain s ms \<Longrightarrow> c \<le> s \<Longrightarrow> replaceRanges c content ms r = drop c (take s content) @ replaceRanges s content ms r"
proof (cases ms)
  case (Cons m ms')
  assume "chain s ms" "c \<le> s"
  with Cons obtain a b where "m = (a, b)" "s \<le> a" by (cases m) auto
  with Cons \<open>c \<le> s\<close> show ?thesis by (simp add: drop_take_split [of c s a])
qed (use drop_split in auto)

lemma chain_first: "chain c ms \<Longrightarrow> \<forall>(a, b) \<in> set ms. s \<le> a \<Longrightarrow> chain s ms"
  by (cases ms) auto

text \<open>Matches that lie in regions change the text only inside the regions.\<close>

lemma replace_refill:
  assumes "chain c rs" "chain c ms" "list_all (\<lambda>(a, b). a < b) ms" "list_all (\<lambda>(a, b). isWithinEditableRanges rs a b) ms"
  shows "\<exists>ns. length ns = length rs \<and> replaceRanges c content ms r = refill c content rs ns"
  using assms
proof (induction rs arbitrary: c ms)
  case Nil
  then have "ms = []" by (cases ms) (auto simp: isWithinEditableRanges_def)
  then show ?case by simp
next
  case (Cons rg rs)
  obtain s e where rg: "rg = (s, e)" by (cases rg)
  let ?in = "takeWhile (\<lambda>(a, b). b \<le> e) ms" and ?out = "dropWhile (\<lambda>(a, b). b \<le> e) ms"
  have later: "chain e rs" "c \<le> s" "s \<le> e" using Cons.prems(1) by (simp_all add: rg)
  have within: "s \<le> a \<and> b \<le> e \<or> isWithinEditableRanges rs a b" if "(a, b) \<in> set ms" for a b
    using Cons.prems(4) that by (auto simp: list_all_iff isWithinEditableRanges_def rg)
  have out: "isWithinEditableRanges rs a b \<and> e \<le> a" if "(a, b) \<in> set ?out" for a b
  proof -
    have "e < b" using dropWhile_late [OF Cons.prems(2) that Cons.prems(3)] .
    moreover have "(a, b) \<in> set ms" using that by (rule set_dropWhileD)
    ultimately have w: "isWithinEditableRanges rs a b" using within by fastforce
    then obtain s' e' where "(s', e') \<in> set rs" "s' \<le> a" by (auto simp: isWithinEditableRanges_def list_ex_iff)
    with chain_append_ends [OF later(1)] w show ?thesis by fastforce
  qed
  have "s \<le> a" if "(a, b) \<in> set ?in" for a b
  proof -
    have ab: "b \<le> e" "(a, b) \<in> set ms" using that by (auto dest: set_takeWhileD)
    then have "a < b" using Cons.prems(3) by (auto simp: list_all_iff)
    then have "\<not> isWithinEditableRanges rs a b"
      using chain_append_ends [OF later(1)] ab(1) by (fastforce simp: isWithinEditableRanges_def list_ex_iff)
    with within [OF ab(2)] show ?thesis by blast
  qed
  then have inside: "chain s ?in" using chain_first [OF chain_takeWhile [OF Cons.prems(2)]] by blast
  have behind: "chain e ?out" using out by (intro chain_dropWhile [OF Cons.prems(2)]) auto
  have all: "chain s (?in @ ?out)"
    using chain_first [OF Cons.prems(2)] out \<open>s \<le> e\<close> \<open>\<And>b a. (a, b) \<in> set ?in \<Longrightarrow> s \<le> a\<close>
    by (metis (no_types, lifting) Un_iff case_prodI2 order_trans set_append takeWhile_dropWhile_id)
  obtain ns where ns: "length ns = length rs" "replaceRanges e content ?out r = refill e content rs ns"
    using Cons.IH [OF later(1) behind] Cons.prems(3) out by (fastforce simp: list_all_iff dest: set_dropWhileD)
  obtain n where "replaceRanges s content (?in @ ?out) r = n @ replaceRanges e content ?out r"
    using replace_in_range [OF inside _ behind later(3)] by (fastforce simp: list_all_iff dest: set_takeWhileD)
  then have "replaceRanges c content (?in @ ?out) r = refill c content (rg # rs) (n # ns)"
    using replace_from [OF all later(2), of content r] ns by (simp add: rg)
  then show ?case using ns(1) by (intro exI [of _ "n # ns"]) simp
qed

text \<open>The target ranges of an edit, and the text put into them.\<close>

lemma replaceFirst_ranges:
  assumes "findText \<noteq> []" "index_from content findText 0 = Some i"
  shows "\<exists>r. replaceFirst content findText t = replaceRanges 0 content [hd (collectMatchRanges content findText)] r"
  using assms by (auto simp: replaceFirst_def collectMatchRanges_def collect_Some Let_def)

lemma find_sub_None: "find_sub needle s = None \<Longrightarrow> \<not> str_includes s needle"
  by (induction s) (auto split: if_splits)

definition edit_targets :: "string \<Rightarrow> string \<Rightarrow> bool \<Rightarrow> range list" where
  "edit_targets content findText replaceAll =
     (let matches = collectMatchRanges content findText in if replaceAll then matches else [hd matches])"

lemma edit_text:
  assumes "findText \<noteq> []" "str_includes content findText"
  shows "\<exists>r. (if replaceAll then js_join replaceText (split_sub findText content) else replaceFirst content findText replaceText)
      = replaceRanges 0 content (edit_targets content findText replaceAll) r"
    and "collectMatchRanges content findText \<noteq> []"
proof -
  obtain i where i: "index_from content findText 0 = Some i"
    using assms(2) find_sub_None by (cases "find_sub findText content") (auto simp: index_from_def)
  then show "collectMatchRanges content findText \<noteq> []"
    using assms(1) by (simp add: collectMatchRanges_def collect_Some)
  show "\<exists>r. (if replaceAll then js_join replaceText (split_sub findText content) else replaceFirst content findText replaceText)
      = replaceRanges 0 content (edit_targets content findText replaceAll) r"
    using replaceFirst_ranges [OF assms(1) i, of replaceText] split_join_replace [OF assms(1), of replaceText 0 content]
    by (auto simp: edit_targets_def collectMatchRanges_def Let_def)
qed

lemma targets_ok:
  assumes "collectMatchRanges content findText \<noteq> []"
  shows "chain 0 (edit_targets content findText all) \<and> list_all (\<lambda>(a, b). a < b) (edit_targets content findText all)"
  using matches_ok [of 0 content findText] assms
  by (cases "collectMatchRanges content findText") (auto simp: edit_targets_def collectMatchRanges_def Let_def)

lemma allowed_edit:
  assumes "findText \<noteq> []" "str_includes content findText" "parseEditableRanges content \<noteq> []"
    and "assertEditWithinAllowedRanges content findText all = Inr ()"
  shows "\<exists>ns. length ns = length (parseEditableRanges content)
    \<and> (if all then js_join r (split_sub findText content) else replaceFirst content findText r)
        = refill 0 content (parseEditableRanges content) ns"
proof -
  note t = edit_text(1) [OF assms(1,2), of all r] edit_text(2) [OF assms(1,2)]
  have "list_all (\<lambda>(a, b). isWithinEditableRanges (parseEditableRanges content) a b) (edit_targets content findText all)"
    using assms(3,4) t(2) by (auto simp: assertEditWithinAllowedRanges_def edit_targets_def Let_def split: if_splits)
  moreover have "chain 0 (parseEditableRanges content)"
    unfolding parseEditableRanges_def by (rule ranges_chain)
  ultimately show ?thesis
    using replace_refill targets_ok [OF t(2)] t(1) by metis
qed

lemma edit_cases:
  "snd (editExecute ioe opt params fs) = fs
   \<or> (\<exists>p content findText r all. findText \<noteq> [] \<and> readFile ioe fs p = Inr content \<and> str_includes content findText
        \<and> assertEditWithinAllowedRanges content findText all = Inr ()
        \<and> writeFile ioe fs p (if all then js_join r (split_sub findText content) else replaceFirst content findText r)
            = (Inr (), snd (editExecute ioe opt params fs)))"
proof (cases "resolveToolPath opt (str_or_empty (jget params ''path''))")
  case (Inr p)
  let ?f = "str_or_empty (jget params ''find'')" and ?r = "str_or_empty (jget params ''replace'')"
    and ?all = "truthy (jget params ''replaceAll'')"
  show ?thesis
  proof (cases "?f \<noteq> [] \<and> (\<exists>content. readFile ioe fs p = Inr content \<and> str_includes content ?f
      \<and> assertEditWithinAllowedRanges content ?f ?all = Inr ())")
    case True
    then obtain content where ok: "?f \<noteq> []" "readFile ioe fs p = Inr content" "str_includes content ?f"
      "assertEditWithinAllowedRanges content ?f ?all = Inr ()" by blast
    let ?new = "if ?all then js_join ?r (split_sub ?f content) else replaceFirst content ?f ?r"
    obtain res fs2 where w: "writeFile ioe fs p ?new = (res, fs2)" by fastforce
    have "snd (editExecute ioe opt params fs) = fs2"
      using w ok unfolding editExecute_def Inr by (auto split: sum.split)
    then show ?thesis using ok w writeFile_error [of ioe fs p ?new _ fs2] by (cases res) fastforce+
  next
    case False
    then show ?thesis
      unfolding editExecute_def Inr by (auto simp: Let_def split: sum.split)
  qed
qed (simp add: editExecute_def)

lemma edit_result:
  assumes "file_at fs q = Some old" "parseEditableRanges old \<noteq> []"
  shows "\<exists>ns. length ns = length (parseEditableRanges old)
    \<and> file_at (snd (editExecute ioe opt params fs)) q = Some (refill 0 old (parseEditableRanges old) ns)"
proof -
  have same: "\<exists>ns. length ns = length (parseEditableRanges old) \<and> old = refill 0 old (parseEditableRanges old) ns"
    using replace_refill [OF ranges_chain [of 0 old], of "[]" old] unfolding parseEditableRanges_def by simp
  show ?thesis using edit_cases [of ioe opt params fs]
  proof (elim disjE exE conjE)
    fix p content findText r all
    assume a: "findText \<noteq> []" "readFile ioe fs p = Inr content" "str_includes content findText"
      "assertEditWithinAllowedRanges content findText all = Inr ()"
      "writeFile ioe fs p (if all then js_join r (split_sub findText content) else replaceFirst content findText r)
            = (Inr (), snd (editExecute ioe opt params fs))"
    obtain x where x: "real_path fs (parts_of p) = Some x"
      "\<And>q. file_at (snd (editExecute ioe opt params fs)) q =
        (if q = x then Some (if all then js_join r (split_sub findText content) else replaceFirst content findText r) else file_at fs q)"
      using writeFile_file_at [OF a(5)] by auto
    show ?thesis
    proof (cases "q = x")
      case True
      with a(2) assms(1) x(1) have "content = old" by (simp add: readFile_file_at)
      with True allowed_edit [OF a(1,3) _ a(4), of r] assms(2) x(2) [of q] show ?thesis by simp
    next
      case False
      with x(2) [of q] assms(1) same show ?thesis by simp
    qed
  qed (use same assms(1) in simp)
qed

text \<open>A file that \<open>write\<close> overwrites is the one whose text it has checked.\<close>

lemma dirs_then_write:
  assumes "(if b then make_dirs [] (parts_of (path_dirname p)) fs else Some fs) = Some fs1" "real_path fs1 (parts_of p) = Some q"
    and "file_at fs q = Some old"
  shows "real_path fs (parts_of p) = Some q"
proof (cases "fs1 = fs")
  case False
  let ?ps = "parts_of p"
  have d: "parts_of (path_dirname p) = butlast ?ps"
    using parts_of_component [of _ p] by (simp add: path_dirname_def in_set_butlastD)
  then have m: "make_dirs [] (butlast ?ps) fs = Some fs1" using assms(1) False by (simp split: if_splits)
  have cs: "\<forall>c \<in> set (butlast ?ps). component c" using parts_of_component [of _ p] by (simp add: in_set_butlastD)
  from dirs_lead_to_new [OF m cs False] obtain e k where e: "walk fs1 MAX_LINKS [] (butlast ?ps) = Some (e, k)"
    "lookup fs1 e = Some (Dir [])" "lookup fs e = None" by auto
  have "?ps \<noteq> []" using m False by auto
  then have "component (last ?ps)" "?ps = butlast ?ps @ [last ?ps]" using parts_of_component [of "last ?ps" p] by simp_all
  then have "q = e @ [last ?ps]"
    using walk_to_dir(1) [OF e(1,2)] assms(2) by (metis fst_conv option.inject option.map(2) real_path_def)
  then have "lookup fs q = None" using lookup_below_None [OF e(3)] by simp
  then show ?thesis using assms(3) by (simp add: file_at_def)
qed (use assms(2) in simp)

lemma write_result:
  "file_at (snd (writeExecute ioe opt params fs)) q = file_at fs q
   \<or> (\<exists>content. file_at (snd (writeExecute ioe opt params fs)) q = Some content
        \<and> (\<forall>old. file_at fs q = Some old \<longrightarrow> assertWriteWithinAllowedRanges old content = Inr ()))"
proof (cases "resolveToolPath opt (str_or_empty (jget params ''path''))")
  case (Inr p)
  let ?new = "str_or_empty (jget params ''content'')"
  let ?guard = "case readFile ioe fs p of Inr old \<Rightarrow> assertWriteWithinAllowedRanges old ?new | Inl _ \<Rightarrow> Inr ()"
  let ?dirs = "if jget params ''createDirs'' \<noteq> JBool False then make_dirs [] (parts_of (path_dirname p)) fs else Some fs"
  show ?thesis
  proof (cases "?guard = Inr () \<and> ?dirs \<noteq> None")
    case True
    then obtain fs1 where fs1: "?dirs = Some fs1" by auto
    obtain res fs2 where w: "writeFile ioe fs1 p ?new = (res, fs2)" by fastforce
    have f1: "file_at fs1 q = file_at fs q" using fs1 make_dirs_keeps by (auto split: if_splits)
    have s: "snd (writeExecute ioe opt params fs) = fs2"
      using w True unfolding writeExecute_def Inr sum.case Let_def fs1 by (auto split: sum.split)
    have g: "assertWriteWithinAllowedRanges old ?new = Inr ()" if "real_path fs1 (parts_of p) = Some q" "file_at fs q = Some old" for old
    proof -
      have "readFile ioe fs p = Inr old" using dirs_then_write [OF fs1 that] that(2) by (auto simp: readFile_file_at)
      then show ?thesis using True by simp
    qed
    show ?thesis
    proof (cases res)
      case (Inl e)
      then show ?thesis using writeFile_error [of ioe fs1 p ?new e fs2] w f1 s by simp
    next
      case (Inr u)
      then obtain r where "real_path fs1 (parts_of p) = Some r" "\<forall>q. file_at fs2 q = (if q = r then Some ?new else file_at fs1 q)"
        using writeFile_file_at [of ioe fs1 p ?new u fs2] w by blast
      then show ?thesis using f1 s g by (cases "q = r") auto
    qed
  next
    case False
    then have "snd (writeExecute ioe opt params fs) = fs"
      unfolding writeExecute_def Inr sum.case Let_def by (auto split: sum.split option.split)
    then show ?thesis by simp
  qed
qed (simp add: writeExecute_def)

section \<open>Properties\<close>

text \<open>
  C16. Where no symbolic link lies on the way to the workspace or below it, a call of a file tool that is confined to the workspace
  changes no file outside it and none that is sensitive: whatever the tool and its parameters, every file whose content
  differs afterwards lies below the workspace directory and passes the sensitivity test.
\<close>

theorem fs_tools_confined:
  assumes "plain_below fs (parts_of (path_resolve cwd ws))"
  shows "file_at (snd (fsExecute ioe (createFilesystemTools cwd ws True) tool params fs)) q = file_at fs q
   \<or> prefix (parts_of (path_resolve cwd ws)) q \<and> isSensitivePath cwd (abs_path q) (path_resolve cwd ws) = False"
  using exec_changes [of ioe "createFilesystemTools cwd ws True" tool params fs q]
proof (elim disjE exE conjE)
  fix raw p fs1
  assume p: "resolveToolPath (createFilesystemTools cwd ws True) raw = Inr p" and q: "real_path fs1 (parts_of p) = Some q"
    and k: "\<forall>r. kind_at fs1 r = kind_at fs r \<or> kind_at fs1 r = Some ADir"
  note ok = resolved_ok [OF p]
  have "links_avoided fs (parts_of p)" using plain_avoids [OF assms] ok by blast
  then have "links_avoided fs1 (parts_of p)" using k by (rule avoided_kept)
  then have "q = parts_of p" using real_plain q by blast
  then show ?thesis using ok by simp
qed blast

text \<open>
  C17. Where no symbolic link lies on the way to the workspace or below it, a confined tool reads nothing outside the workspace: the
  answers of \<open>read\<close>, \<open>ls\<close>, \<open>find\<close> and \<open>exists\<close> are the same for any two such file systems that agree on the workspace directory.
\<close>

theorem fs_tools_read_workspace_only:
  assumes "lookup fs1 (parts_of (path_resolve cwd ws)) = lookup fs2 (parts_of (path_resolve cwd ws))"
    and "plain_below fs1 (parts_of (path_resolve cwd ws))" and "plain_below fs2 (parts_of (path_resolve cwd ws))"
  shows "list_all (\<lambda>tool. fst (fsExecute ioe (createFilesystemTools cwd ws True) tool params fs1) =
      fst (fsExecute ioe (createFilesystemTools cwd ws True) tool params fs2)) [FsRead, FsLs, FsFind, FsExists]"
  using node_in_workspace [OF assms] resolved_ok by (intro reads_agree) blast

text \<open>
  C18. Text outside the editable regions of a file survives the tools: after any call a file
  with such regions is either the old text with the contents of its regions exchanged and
  everything else in place, or, by \<open>write\<close>, a text with regions whose protected part is the same.
\<close>

theorem protected_text_kept:
  assumes "file_at fs q = Some old" and "parseEditableRanges old \<noteq> []"
  shows "\<exists>new. file_at (snd (fsExecute ioe opt tool params fs)) q = Some new
    \<and> ((\<exists>ns. length ns = length (parseEditableRanges old) \<and> new = refill 0 old (parseEditableRanges old) ns)
       \<or> tool = FsWrite \<and> parseEditableRanges new \<noteq> []
         \<and> projectNonEditableContent new (parseEditableRanges new) = projectNonEditableContent old (parseEditableRanges old))"
proof -
  have same: "\<exists>ns. length ns = length (parseEditableRanges old) \<and> old = refill 0 old (parseEditableRanges old) ns"
    using replace_refill [OF ranges_chain [of 0 old], of "[]" old] unfolding parseEditableRanges_def by simp
  have "parseEditableRanges new \<noteq> [] \<and>
      projectNonEditableContent new (parseEditableRanges new) = projectNonEditableContent old (parseEditableRanges old)"
    if "assertWriteWithinAllowedRanges old new = Inr ()" for new
    using that assms(2) by (auto simp: assertWriteWithinAllowedRanges_def Let_def split: if_splits)
  then show ?thesis
    using same assms(1) edit_result [OF assms, of ioe opt params] write_result [of ioe opt params fs q]
    by (cases tool) auto
qed

definition demo_tree :: "string \<Rightarrow> string \<Rightarrow> node" where
  "demo_tree outside inside = Dir [(''etc'', Dir [(''passwd'', File outside)]), (''w'', Dir [(''a.txt'', File inside)])]"

definition demo_text :: string where
  "demo_text = ''head'' @ [CHR 0x0A] @ ''// T560_EDITABLE_START'' @ [CHR 0x0A] @ ''one'' @ [CHR 0x0A] @ ''// T560_EDITABLE_END''"

theorem fs_tools_confined_witness:
  "file_at (snd (fsExecute (\<lambda>_. ''ENOENT'') (createFilesystemTools ''/'' ''w'' True) FsWrite
       (JObj [(''path'', JStr ''d/b''), (''content'', JStr ''t'')]) (demo_tree ''root'' ''t''))) [''etc'', ''passwd''] = Some ''root''"
proof -
  have "plain_below (demo_tree ''root'' ''t'') (parts_of (path_resolve ''/'' ''w''))" by code_simp
  from fs_tools_confined [OF this, of "\<lambda>_. ''ENOENT''" FsWrite "JObj [(''path'', JStr ''d/b''), (''content'', JStr ''t'')]" "[''etc'', ''passwd'']"]
  have "file_at (snd (fsExecute (\<lambda>_. ''ENOENT'') (createFilesystemTools ''/'' ''w'' True) FsWrite
       (JObj [(''path'', JStr ''d/b''), (''content'', JStr ''t'')]) (demo_tree ''root'' ''t''))) [''etc'', ''passwd''] =
      file_at (demo_tree ''root'' ''t'') [''etc'', ''passwd''] \<or> prefix (parts_of (path_resolve ''/'' ''w'')) [''etc'', ''passwd'']" by blast
  moreover have "\<not> prefix (parts_of (path_resolve ''/'' ''w'')) [''etc'', ''passwd'']" by code_simp
  moreover have "file_at (demo_tree ''root'' ''t'') [''etc'', ''passwd''] = Some ''root''" by code_simp
  ultimately show ?thesis by simp
qed

text \<open>
  The guard checks the text of a path only: through a link inside the workspace, \<open>write\<close> changes and \<open>read\<close> returns a file outside it.
\<close>

definition demo_linked :: node where
  "demo_linked = Dir [(''etc'', Dir [(''passwd'', File ''root'')]), (''w'', Dir [(''l'', Link ''../etc'')])]"

theorem link_leads_outside:
  "file_at (snd (fsExecute (\<lambda>_. ''ENOENT'') (createFilesystemTools ''/'' ''w'' True) FsWrite
     (JObj [(''path'', JStr ''l/passwd''), (''content'', JStr ''me'')]) demo_linked)) [''etc'', ''passwd''] = Some ''me''
   \<and> fst (fsExecute (\<lambda>_. ''ENOENT'') (createFilesystemTools ''/'' ''w'' True) FsRead (JObj [(''path'', JStr ''l/passwd'')]) demo_linked) =
     Inr (JObj [(''path'', JStr ''/w/l/passwd''), (''truncated'', JBool False), (''content'', JStr ''root'')])"
  by code_simp

theorem fs_tools_read_workspace_only_witness:
  "fst (fsExecute (\<lambda>_. ''ENOENT'') (createFilesystemTools ''/'' ''w'' True) FsFind (JObj []) (demo_tree ''root'' ''t'')) =
   fst (fsExecute (\<lambda>_. ''ENOENT'') (createFilesystemTools ''/'' ''w'' True) FsFind (JObj []) (demo_tree ''other'' ''t''))"
proof -
  have "lookup (demo_tree ''root'' ''t'') (parts_of (path_resolve ''/'' ''w'')) = lookup (demo_tree ''other'' ''t'') (parts_of (path_resolve ''/'' ''w''))"
    "plain_below (demo_tree ''root'' ''t'') (parts_of (path_resolve ''/'' ''w''))"
    "plain_below (demo_tree ''other'' ''t'') (parts_of (path_resolve ''/'' ''w''))" by code_simp+
  from fs_tools_read_workspace_only [OF this, of "\<lambda>_. ''ENOENT''" "JObj []"] show ?thesis by simp
qed

theorem protected_text_kept_witness:
  "\<exists>new. file_at (snd (fsExecute (\<lambda>_. ''ENOENT'') (createFilesystemTools ''/'' ''w'' True) FsEdit
      (JObj [(''path'', JStr ''a.txt''), (''find'', JStr ''one''), (''replace'', JStr ''two'')]) (demo_tree [] demo_text))) [''w'', ''a.txt''] = Some new
    \<and> (\<exists>ns. length ns = 1 \<and> new = refill 0 demo_text (parseEditableRanges demo_text) ns)"
proof -
  have "file_at (demo_tree [] demo_text) [''w'', ''a.txt''] = Some demo_text" "length (parseEditableRanges demo_text) = 1" by code_simp+
  moreover from this have "parseEditableRanges demo_text \<noteq> []" by auto
  ultimately show ?thesis
    using protected_text_kept [of "demo_tree [] demo_text" "[''w'', ''a.txt'']" demo_text "\<lambda>_. ''ENOENT''" "createFilesystemTools ''/'' ''w'' True" FsEdit]
    by simp
qed

text \<open>
  A replacement text with a dollar sign is taken literally when all matches are replaced, but
  not when only the first is: \<open>$&\<close> then stands for the text found.
\<close>

theorem edit_dollar_patterns:
  "map (\<lambda>all. file_at (snd (fsExecute (\<lambda>_. ''ENOENT'') (createFilesystemTools ''/'' ''w'' True) FsEdit
       (JObj [(''path'', JStr ''a.txt''), (''find'', JStr ''x''), (''replace'', JStr ''$&$&''), (''replaceAll'', JBool all)])
       (demo_tree [] ''x''))) [''w'', ''a.txt'']) [True, False] = [Some ''$&$&'', Some ''xx'']"
  by code_simp

lemma write_success:
  assumes "writeExecute ioe opt params fs = (Inr res, fs')"
  shows "\<exists>p. resolveToolPath opt (str_or_empty (jget params ''path'')) = Inr p
    \<and> readFile ioe fs' p = Inr (str_or_empty (jget params ''content''))"
proof (cases "resolveToolPath opt (str_or_empty (jget params ''path''))")
  case (Inr p)
  then obtain fs1 u where "writeFile ioe fs1 p (str_or_empty (jget params ''content'')) = (Inr u, fs')"
    using assms unfolding writeExecute_def Inr sum.case Let_def by (auto split: sum.splits option.splits prod.splits)
  from writeFile_file_at [OF this] Inr show ?thesis by (auto simp: readFile_file_at)
qed (use assms in \<open>simp add: writeExecute_def\<close>)

text \<open>
  What \<open>write\<close> reports as written is what \<open>read\<close> returns for the same path, up to the size limit of
  a read.
\<close>

theorem write_then_read:
  assumes "writeExecute ioe opt params fs = (Inr res, fs')" and "length (str_or_empty (jget params ''content'')) \<le> 250000"
  shows "\<exists>p. readExecute ioe opt (JObj [(''path'', jget params ''path'')]) fs' =
    Inr (JObj [(''path'', JStr p), (''truncated'', JBool False), (''content'', JStr (str_or_empty (jget params ''content'')))])"
proof -
  let ?t = "str_or_empty (jget params ''content'')"
  obtain p where p: "resolveToolPath opt (str_or_empty (jget params ''path'')) = Inr p" "readFile ioe fs' p = Inr ?t"
    using write_success [OF assms(1)] by blast
  moreover have "(of_nat (length ?t) :: rat) \<le> of_nat 250000" using assms(2) by (simp only: of_nat_le_iff)
  then have "\<not> less_num (Fin 250000) (length ?t)" by simp
  ultimately show ?thesis by (simp add: readExecute_def coalesce_def Let_def)
qed

theorem write_then_read_witness:
  "\<exists>p. readExecute (\<lambda>_. ''ENOENT'') (createFilesystemTools ''/'' ''w'' True) (JObj [(''path'', JStr ''d/b.txt'')])
      (snd (writeExecute (\<lambda>_. ''ENOENT'') (createFilesystemTools ''/'' ''w'' True)
        (JObj [(''path'', JStr ''d/b.txt''), (''content'', JStr ''hello'')]) (demo_tree [] []))) =
    Inr (JObj [(''path'', JStr p), (''truncated'', JBool False), (''content'', JStr ''hello'')])"
proof -
  let ?ps = "JObj [(''path'', JStr ''d/b.txt''), (''content'', JStr ''hello'')]" and ?opt = "createFilesystemTools ''/'' ''w'' True"
  let ?w = "writeExecute (\<lambda>_. ''ENOENT'') ?opt ?ps (demo_tree [] [])"
  have "\<not> isl (fst ?w)" by code_simp
  then obtain res where "?w = (Inr res, snd ?w)" by (cases ?w; cases "fst ?w") auto
  from write_then_read [OF this] show ?thesis by simp
qed

end
