(* ===== verification/Tool_Policy.thy ===== *)
theory Tool_Policy
  imports Js_Value
begin

text \<open>
  The allow/deny policy that decides which tools a conversation may call:
  \<open>src/agents/tool-policy.ts\<close>, \<open>tool-policy-pipeline.ts\<close> and \<open>pi-tools.policy.ts\<close>. A policy
  names tools, name prefixes (\<open>web_*\<close>) and groups (\<open>group:fs\<close>); a pipeline of up to four
  policies (profile, global, provider, runtime) filters the tool list. The lemmas give the
  pipeline's meaning as one predicate, show that deny entries win, that no step adds a tool,
  and that normalisation and group expansion are stable.
\<close>

named_theorems policy_defs \<open>unfolding rules of the tool policy model\<close>

section \<open>Data\<close>

record tool_policy =
  allow :: "string list option"
  deny :: "string list option"

record agent_tool =
  tool_name :: string
  tool_description :: string
  owner_only :: bool

record pipeline_step =
  step_label :: string
  step_policy :: "tool_policy option"

record effective_policy =
  eff_profile :: "string option"
  eff_global :: "tool_policy option"
  eff_provider :: "tool_policy option"

definition TOOL_NAME_ALIASES :: "(string \<times> string) list" where
  "TOOL_NAME_ALIASES = [(''bash'', ''exec''), (''apply-patch'', ''apply_patch'')]"

definition MEMORY_TOOLS :: "string list" where
  "MEMORY_TOOLS =
     [''memory_search'', ''memory_get'', ''memory_save'', ''memory_delete'', ''memory_list'',
      ''memory_prune'', ''memory_feedback'', ''memory_stats'', ''memory_compact'']"

definition TOOL_GROUPS :: "(string \<times> string list) list" where
  "TOOL_GROUPS =
     [(''group:fs'', [''read'', ''write'', ''edit'', ''ls'', ''find'', ''exists'']),
      (''group:runtime'', [''exec'', ''process'']),
      (''group:email'', [''email'']),
      (''group:messaging'', [''message'', ''sessions_send'', ''email'']),
      (''group:web'', [''web_search'', ''web_fetch'']),
      (''group:memory'', MEMORY_TOOLS),
      (''group:ui'', [''browser'']),
      (''group:t560'',
         [''exec'', ''process'', ''browser'', ''email'', ''web_search'', ''web_fetch''] @ MEMORY_TOOLS)]"

definition TOOL_PROFILES :: "(string \<times> tool_policy) list" where
  "TOOL_PROFILES =
     [(''minimal'', \<lparr>allow = Some [''process''], deny = None\<rparr>),
      (''coding'', \<lparr>allow = Some [''group:runtime'', ''group:fs'', ''group:web'', ''group:memory'',
                                 ''group:ui'', ''group:email''], deny = None\<rparr>),
      (''messaging'', \<lparr>allow = Some [''group:messaging'', ''process''], deny = None\<rparr>),
      (''full'', \<lparr>allow = None, deny = None\<rparr>)]"

section \<open>Operations\<close>

definition normalizeToolName :: "string \<Rightarrow> string" where
  "normalizeToolName name =
     (let normalized = to_lower (trim name) in
      case map_of TOOL_NAME_ALIASES normalized of Some a \<Rightarrow> a | None \<Rightarrow> normalized)"

definition normalizeToolList :: "string list option \<Rightarrow> string list" where
  "normalizeToolList ls =
     (case ls of None \<Rightarrow> [] | Some xs \<Rightarrow> filter (\<lambda>s. s \<noteq> []) (map normalizeToolName xs))"

definition expandItem :: "string \<Rightarrow> string list" where
  "expandItem item = (case map_of TOOL_GROUPS item of Some members \<Rightarrow> members | None \<Rightarrow> [item])"

definition expandToolGroups :: "string list option \<Rightarrow> string list" where
  "expandToolGroups ls = dedup (concat (map expandItem (normalizeToolList ls)))"

definition resolveToolProfilePolicy :: "string option \<Rightarrow> tool_policy option" where
  "resolveToolProfilePolicy profile =
     (case profile of
        None \<Rightarrow> None
      | Some p \<Rightarrow> if p = [] then None else map_of TOOL_PROFILES (to_lower (trim p)))"

definition mergeAlsoAllowPolicy ::
  "tool_policy option \<Rightarrow> string list option \<Rightarrow> tool_policy option" where
  "mergeAlsoAllowPolicy policy alsoAllow =
     (if policy = None \<and> (alsoAllow = None \<or> alsoAllow = Some []) then policy
      else
        let base = (case policy of None \<Rightarrow> [] | Some p \<Rightarrow> (case allow p of None \<Rightarrow> [] | Some a \<Rightarrow> a));
            extra = (case alsoAllow of None \<Rightarrow> [] | Some a \<Rightarrow> a);
            merged = base @ extra
        in Some \<lparr>allow = (if merged \<noteq> [] then Some merged else None),
                 deny = (case policy of None \<Rightarrow> None | Some p \<Rightarrow> deny p)\<rparr>)"

definition matchToolPattern :: "string \<Rightarrow> string \<Rightarrow> bool" where
  "matchToolPattern name pat =
     (if pat = ''*'' then True
      else if ends_with pat ''*'' then starts_with name (drop_last 1 pat)
      else name = pat)"

definition isToolAllowedByPolicy :: "string \<Rightarrow> tool_policy option \<Rightarrow> bool" where
  "isToolAllowedByPolicy name policy =
     (case policy of
        None \<Rightarrow> True
      | Some p \<Rightarrow>
          let normalized = normalizeToolName name in
          if list_ex (matchToolPattern normalized) (expandToolGroups (deny p)) then False
          else
            let al = expandToolGroups (allow p) in
            if al = [] then True else list_ex (matchToolPattern normalized) al)"

definition applyOwnerOnlyToolPolicy :: "'a agent_tool_scheme list \<Rightarrow> bool \<Rightarrow> 'a agent_tool_scheme list" where
  "applyOwnerOnlyToolPolicy tools senderIsOwner =
     (if senderIsOwner then tools else filter (\<lambda>t. \<not> owner_only t) tools)"

definition filterToolsByPolicy :: "'a agent_tool_scheme list \<Rightarrow> tool_policy option \<Rightarrow> 'a agent_tool_scheme list" where
  "filterToolsByPolicy tools policy =
     (case policy of
        None \<Rightarrow> tools
      | Some p \<Rightarrow> filter (\<lambda>t. isToolAllowedByPolicy (tool_name t) (Some p)) tools)"

definition buildDefaultToolPolicyPipelineSteps ::
  "tool_policy option \<Rightarrow> tool_policy option \<Rightarrow> tool_policy option \<Rightarrow> tool_policy option \<Rightarrow>
   pipeline_step list" where
  "buildDefaultToolPolicyPipelineSteps profilePolicy globalPolicy providerPolicy runtimePolicy =
     [\<lparr>step_label = ''tools.profile'', step_policy = profilePolicy\<rparr>,
      \<lparr>step_label = ''tools.allow'', step_policy = globalPolicy\<rparr>,
      \<lparr>step_label = ''tools.byProvider.allow'', step_policy = providerPolicy\<rparr>,
      \<lparr>step_label = ''tools.runtime'', step_policy = runtimePolicy\<rparr>]"

fun applyToolPolicyPipeline :: "'a agent_tool_scheme list \<Rightarrow> pipeline_step list \<Rightarrow> 'a agent_tool_scheme list" where
  "applyToolPolicyPipeline filtered [] = filtered"
| "applyToolPolicyPipeline filtered (step # steps) =
     (case step_policy step of
        None \<Rightarrow> applyToolPolicyPipeline filtered steps
      | Some p \<Rightarrow> applyToolPolicyPipeline (filterToolsByPolicy filtered (Some p)) steps)"

fun findProvider :: "string \<Rightarrow> (string \<times> tool_policy) list \<Rightarrow> tool_policy option" where
  "findProvider wanted [] = None"
| "findProvider wanted ((key, policy) # rest) =
     (if to_lower (trim key) = wanted then Some policy else findProvider wanted rest)"

definition resolveByProviderPolicy ::
  "(string \<times> tool_policy) list option \<Rightarrow> string option \<Rightarrow> tool_policy option" where
  "resolveByProviderPolicy byProvider provider =
     (case (provider, byProvider) of
        (Some pr, Some table) \<Rightarrow>
          let normalizedProvider = to_lower (trim pr) in
          if normalizedProvider = [] then None else findProvider normalizedProvider table
      | _ \<Rightarrow> None)"

definition resolveEffectiveToolPolicy ::
  "string option \<Rightarrow> string list option \<Rightarrow> string list option \<Rightarrow> (string \<times> tool_policy) list option \<Rightarrow>
   string option \<Rightarrow> effective_policy" where
  "resolveEffectiveToolPolicy profile al dn byProvider provider =
     \<lparr>eff_profile = profile,
      eff_global = (if al \<noteq> None \<or> dn \<noteq> None then Some \<lparr>allow = al, deny = dn\<rparr> else None),
      eff_provider = resolveByProviderPolicy byProvider provider\<rparr>"

declare normalizeToolName_def [policy_defs] normalizeToolList_def [policy_defs]
  expandItem_def [policy_defs] expandToolGroups_def [policy_defs] matchToolPattern_def [policy_defs]
  isToolAllowedByPolicy_def [policy_defs] TOOL_NAME_ALIASES_def [policy_defs]
  TOOL_GROUPS_def [policy_defs] MEMORY_TOOLS_def [policy_defs]

section \<open>Normal forms\<close>

definition is_alias_or_group :: "string \<Rightarrow> bool" where
  "is_alias_or_group s \<longleftrightarrow> s \<in> fst ` set TOOL_NAME_ALIASES \<or> s \<in> fst ` set TOOL_GROUPS"

definition canonical_name :: "string \<Rightarrow> bool" where
  "canonical_name s \<longleftrightarrow> to_lower (trim s) = s \<and> map_of TOOL_NAME_ALIASES s = None"

lemma normalizeToolName_canonical: "canonical_name s \<Longrightarrow> normalizeToolName s = s"
  by (simp add: canonical_name_def normalizeToolName_def)

lemma canonical_aliases: "\<forall>a \<in> set (map snd TOOL_NAME_ALIASES). canonical_name a"
  by code_simp

lemma canonical_normalizeToolName: "canonical_name (normalizeToolName s)"
proof (cases "map_of TOOL_NAME_ALIASES (to_lower (trim s))")
  case None
  then show ?thesis
    by (simp add: normalizeToolName_def canonical_name_def trim_to_lower)
next
  case (Some a)
  then have "a \<in> set (map snd TOOL_NAME_ALIASES)"
    by (force dest: map_of_SomeD)
  with canonical_aliases Some show ?thesis
    by (auto simp: normalizeToolName_def)
qed

lemma normalizeToolName_idem: "normalizeToolName (normalizeToolName s) = normalizeToolName s"
  by (rule normalizeToolName_canonical) (rule canonical_normalizeToolName)

lemma group_members_canonical:
  "\<forall>g \<in> set (concat (map snd TOOL_GROUPS)).
     canonical_name g \<and> g \<noteq> [] \<and> map_of TOOL_GROUPS g = None"
  by code_simp

lemma expanded_entry:
  assumes "x \<in> set (expandToolGroups ls)"
  shows "canonical_name x \<and> x \<noteq> [] \<and> map_of TOOL_GROUPS x = None"
proof -
  from assms obtain i where i: "i \<in> set (normalizeToolList ls)" and x: "x \<in> set (expandItem i)"
    by (auto simp: expandToolGroups_def)
  from i have ci: "canonical_name i" "i \<noteq> []"
    by (auto simp: normalizeToolList_def canonical_normalizeToolName split: option.splits)
  show ?thesis
  proof (cases "map_of TOOL_GROUPS i")
    case None
    with ci x show ?thesis by (simp add: expandItem_def)
  next
    case (Some g)
    with x have "x \<in> set (concat (map snd TOOL_GROUPS))"
      by (force simp: expandItem_def dest: map_of_SomeD)
    with group_members_canonical show ?thesis by blast
  qed
qed

lemma normalizeToolList_fixed:
  assumes "\<forall>x \<in> set xs. canonical_name x \<and> x \<noteq> []"
  shows "normalizeToolList (Some xs) = xs"
  using assms
  by (induction xs) (auto simp: normalizeToolList_def normalizeToolName_canonical)

lemma concat_expand_fixed:
  assumes "\<forall>x \<in> set xs. map_of TOOL_GROUPS x = None"
  shows "concat (map expandItem xs) = xs"
  using assms by (induction xs) (auto simp: expandItem_def)

section \<open>The policy as a predicate\<close>

definition step_allows :: "pipeline_step \<Rightarrow> 'a agent_tool_scheme \<Rightarrow> bool" where
  "step_allows st t \<longleftrightarrow> isToolAllowedByPolicy (tool_name t) (step_policy st)"

lemma filterToolsByPolicy_eq:
  "filterToolsByPolicy tools p = filter (\<lambda>t. isToolAllowedByPolicy (tool_name t) p) tools"
  by (auto simp: filterToolsByPolicy_def isToolAllowedByPolicy_def split: option.splits)

lemma pipeline_eq_filter:
  "applyToolPolicyPipeline tools steps = filter (\<lambda>t. list_all (\<lambda>st. step_allows st t) steps) tools"
proof (induction steps arbitrary: tools)
  case Nil
  then show ?case by simp
next
  case (Cons st steps)
  show ?case
  proof (cases "step_policy st")
    case None
    with Cons.IH show ?thesis by (simp add: step_allows_def isToolAllowedByPolicy_def)
  next
    case (Some p)
    with Cons.IH show ?thesis
      by (simp add: filterToolsByPolicy_eq step_allows_def conj_commute)
  qed
qed

lemma denied_not_allowed:
  assumes "step_policy st = Some p"
    and "list_ex (matchToolPattern (normalizeToolName (tool_name t))) (expandToolGroups (deny p))"
  shows "\<not> step_allows st t"
  using assms by (simp add: step_allows_def isToolAllowedByPolicy_def)

lemma allowed_normalized:
  "isToolAllowedByPolicy (normalizeToolName n) p = isToolAllowedByPolicy n p"
  by (simp add: isToolAllowedByPolicy_def normalizeToolName_idem split: option.split)

section \<open>Properties\<close>

text \<open>
  The policy pipeline is a filter by the conjunction of its steps: a tool survives exactly
  when every step's policy allows its name, the survivors keep their order, and no step
  adds a tool.
\<close>

theorem pipeline_is_conjunction:
  "applyToolPolicyPipeline tools steps =
     filter (\<lambda>t. list_all (\<lambda>st. isToolAllowedByPolicy (tool_name t) (step_policy st)) steps) tools"
  unfolding pipeline_eq_filter step_allows_def ..

text \<open>
  Deny wins: a tool whose normalised name matches an expanded deny entry of any step of
  the pipeline is absent from the result, whatever the other steps allow.
\<close>

theorem pipeline_deny_wins:
  assumes "st \<in> set steps" and "step_policy st = Some p"
    and "list_ex (matchToolPattern (normalizeToolName (tool_name t))) (expandToolGroups (deny p))"
  shows "t \<notin> set (applyToolPolicyPipeline tools steps)"
  using denied_not_allowed [OF assms(2,3)] assms(1)
  by (auto simp: pipeline_eq_filter list_all_iff)

theorem pipeline_deny_wins_witness:
  "let t = \<lparr>tool_name = '' Bash '', tool_description = [], owner_only = False\<rparr>;
       st = \<lparr>step_label = ''tools.allow'',
             step_policy = Some \<lparr>allow = Some [''*''], deny = Some [''group:runtime'']\<rparr>\<rparr>
   in t \<notin> set (applyToolPolicyPipeline [t] [st])"
  unfolding Let_def
  by (rule pipeline_deny_wins [OF list.set_intros(1) pipeline_step.select_convs(2)]) code_simp

text \<open>
  Group expansion is stable: expanding an expanded list changes nothing, and the expansion
  has no duplicates, no empty names and no group or alias names left.
\<close>

theorem expandToolGroups_stable:
  "expandToolGroups (Some (expandToolGroups ls)) = expandToolGroups ls
   \<and> distinct (expandToolGroups ls)
   \<and> list_all (\<lambda>x. \<not> is_alias_or_group x \<and> x \<noteq> [] \<and> normalizeToolName x = x) (expandToolGroups ls)"
proof (intro conjI)
  have "concat (map expandItem (normalizeToolList (Some (expandToolGroups ls)))) = expandToolGroups ls"
    using expanded_entry [of _ ls] by (simp add: normalizeToolList_fixed concat_expand_fixed)
  then show "expandToolGroups (Some (expandToolGroups ls)) = expandToolGroups ls"
    by (simp add: expandToolGroups_def)
  show "distinct (expandToolGroups ls)"
    by (simp add: expandToolGroups_def)
  show "list_all (\<lambda>x. \<not> is_alias_or_group x \<and> x \<noteq> [] \<and> normalizeToolName x = x) (expandToolGroups ls)"
    using expanded_entry [of _ ls]
    by (auto simp: list_all_iff is_alias_or_group_def canonical_name_def normalizeToolName_canonical
        map_of_eq_None_iff)
qed

end
