(* ===== verification/Config_State.thy ===== *)
theory Config_State
  imports Tool_Policy Self_Protection
begin

text \<open>
  The configuration and the state directory, \<open>src/config/state.ts\<close>, and the start-up check,
  \<open>src/config/runtime-preflight.ts\<close>: what a configuration file means (every section is normalised
  on reading and again on writing), which provider and model a slot routes to, who may write
  to the Telegram bot, and what is missing before the program counts as onboarded. A field
  typed \<open>T | undefined\<close> is an option. The state directory is a map from absolute paths to files; the
  environment variables, the rest of the file system, the answer of the Telegram server and
  the state of Tailscale are arguments. Objects keep the order in which their keys were
  written. The lemmas show that a well-formed configuration survives writing and reading,
  what a resolved route and an onboarded state guarantee, and which senders are admitted.
\<close>

section \<open>Data\<close>

record model_presets =
  mp_default :: "string option"
  mp_planning :: "string option"
  mp_coding :: "string option"

datatype provider_auth = ApiKey | OAuth | TokenAuth

record provider_profile =
  pp_enabled :: "bool option"
  pp_provider :: string
  pp_authMode :: provider_auth
  pp_apiKey :: "string option"
  pp_oauthToken :: "string option"
  pp_token :: "string option"
  pp_baseUrl :: "string option"
  pp_api :: "string option"
  pp_headers :: "(string, string) omap option"
  pp_compat :: "jsv option"
  pp_models :: "string list option"

record routing_target =
  rt_provider :: "string option"
  rt_model :: "string option"

record routing_config =
  rc_default :: "routing_target option"
  rc_planning :: "routing_target option"
  rc_coding :: "routing_target option"

datatype dm_policy = DmPairing | DmAllowlist | DmOpen | DmDisabled

record telegram_config =
  tg_botToken :: "string option"
  tg_dmPolicy :: "dm_policy option"
  tg_allowFrom :: "string list option"
  tg_allowedChatIds :: "int list option"

record web_search_config =
  ws_enabled :: "bool option"
  ws_provider :: "string option"
  ws_apiKey :: "string option"
  ws_timeoutMs :: "int option"
  ws_maxResults :: "int option"
  ws_region :: "string option"
  ws_fetchTop :: "int option"
  ws_fetchMaxBytes :: "int option"

record web_fetch_config =
  wf_enabled :: "bool option"
  wf_timeoutMs :: "int option"
  wf_maxBytes :: "int option"

record web_tools_config =
  wt_search :: "web_search_config option"
  wt_fetch :: "web_fetch_config option"

record exec_config =
  xc_timeoutSec :: "jnum option"
  xc_allowBackground :: "bool option"

record protection_config =
  sp_enabled :: "bool option"
  sp_installRoot :: "string option"
  sp_protectedPaths :: "string list option"

record tools_config =
  tc_unrestricted :: "bool option"
  tc_profile :: "string option"
  tc_allow :: "string list option"
  tc_alsoAllow :: "string list option"
  tc_deny :: "string list option"
  tc_byProvider :: "(string, tool_policy) omap option"
  tc_runtime :: "tool_policy option"
  tc_fs :: "bool option option"
  tc_exec :: "exec_config option"
  tc_web :: "web_tools_config option"
  tc_selfProtection :: "protection_config option"

record skills_config =
  sk_allow :: "string list option"
  sk_dirs :: "string list option"
  sk_entries :: "(string, bool option) omap option"

record usage_config =
  uc_tokenBudget :: "int option"
  uc_costBudgetUsd :: "rat option"

record t560_config =
  cf_provider :: "string option"
  cf_models :: "model_presets option"
  cf_providers :: "(string, provider_profile) omap option"
  cf_routing :: "routing_config option"
  cf_channels :: "telegram_config option"
  cf_tools :: "tools_config option"
  cf_skills :: "skills_config option"
  cf_usage :: "usage_config option"
  cf_agents :: "int option"

definition empty_config :: t560_config where
  "empty_config = \<lparr>cf_provider = None, cf_models = None, cf_providers = None, cf_routing = None, cf_channels = None,
     cf_tools = None, cf_skills = None, cf_usage = None, cf_agents = None\<rparr>"

section \<open>Values and model references\<close>

definition hasRealValue :: "string option \<Rightarrow> bool" where
  "hasRealValue v =
     (case v of
        None \<Rightarrow> False
      | Some s \<Rightarrow>
          let normalized = to_lower (trim s) in
          normalized \<noteq> [] \<and> normalized \<notin> set [''set-me'', ''change-me'', ''todo''])"

definition hasRealModelRef :: "string option \<Rightarrow> bool" where
  "hasRealModelRef v =
     (if \<not> hasRealValue v then False
      else let trimmed = trim (case v of Some s \<Rightarrow> s | None \<Rightarrow> [])
           in CHR ''/'' \<in> set trimmed \<and> list_all (\<lambda>part. hasRealValue (Some part)) (split_on (CHR ''/'') trimmed))"

definition parseModelRef :: "string option \<Rightarrow> routing_target option" where
  "parseModelRef v =
     (if \<not> hasRealModelRef v then None
      else
        let parts = split_on (CHR ''/'') (case v of Some s \<Rightarrow> s | None \<Rightarrow> []);
            provider = hd parts; model = trim (js_join ''/'' (tl parts))
        in if \<not> hasRealValue (Some provider) \<or> \<not> hasRealValue (Some model) then None
           else Some \<lparr>rt_provider = Some (trim provider), rt_model = Some model\<rparr>)"

definition parseTelegramDmPolicy :: "jsv \<Rightarrow> dm_policy" where
  "parseTelegramDmPolicy v =
     (let normalized = to_lower (trim (to_str (coalesce v (JStr ''pairing'')))) in
      if normalized = ''allowlist'' then DmAllowlist
      else if normalized = ''open'' then DmOpen
      else if normalized = ''disabled'' then DmDisabled
      else DmPairing)"

section \<open>Paths\<close>

definition resolveStateDir :: "process_env \<Rightarrow> string option \<Rightarrow> string" where
  "resolveStateDir env T560_STATE_DIR =
     (let raw = trim (case T560_STATE_DIR of Some s \<Rightarrow> s | None \<Rightarrow> []) in
      if raw = [] then path_join (homedir env) ''.t560''
      else if raw = ''~'' then homedir env
      else if starts_with raw ''~/'' then path_join (homedir env) (drop 2 raw)
      else path_resolve (pcwd env) raw)"

definition resolveConfigPath :: "string \<Rightarrow> string" where
  "resolveConfigPath dir = path_join dir ''config.json''"

definition resolvePairingPath :: "string \<Rightarrow> string" where
  "resolvePairingPath dir = path_join dir ''pairing.json''"

definition resolveSoulPath :: "string \<Rightarrow> string" where
  "resolveSoulPath dir = path_join dir ''soul.md''"

definition resolveUsersPath :: "string \<Rightarrow> string" where
  "resolveUsersPath dir = path_join dir ''users.md''"

definition resolveLegacyUserPath :: "string \<Rightarrow> string" where
  "resolveLegacyUserPath dir = path_join dir ''user.md''"

definition resolveUserPath :: "string \<Rightarrow> string" where
  "resolveUserPath dir = resolveLegacyUserPath dir"

section \<open>Normalising a configuration file\<close>

fun string_field :: "jsv \<Rightarrow> string option" where
  "string_field (JStr s) = Some s"
| "string_field _ = None"

fun bool_field :: "jsv \<Rightarrow> bool option" where
  "bool_field (JBool b) = Some b"
| "bool_field _ = None"

text \<open>\<open>typeof v === "string" ? v.trim() || undefined : undefined\<close>.\<close>

fun trimmed_field :: "jsv \<Rightarrow> string option" where
  "trimmed_field (JStr s) = (if trim s \<noteq> [] then Some (trim s) else None)"
| "trimmed_field _ = None"

text \<open>\<open>typeof v === "number" && Number.isFinite(v) ? Math.max(lo, Math.floor(v)) : undefined\<close>.\<close>

fun floor_field :: "int \<Rightarrow> jsv \<Rightarrow> int option" where
  "floor_field lo (JNum (Fin q)) = Some (max lo \<lfloor>q\<rfloor>)"
| "floor_field lo _ = None"

fun number_field :: "jsv \<Rightarrow> jnum option" where
  "number_field (JNum n) = Some n"
| "number_field _ = None"

fun object_field :: "jsv \<Rightarrow> jsv option" where
  "object_field v = (if is_object v then Some v else None)"

definition some_list :: "'a list \<Rightarrow> 'a list option" where
  "some_list xs = (if xs \<noteq> [] then Some xs else None)"

definition trimmed_texts :: "jsv list \<Rightarrow> string list" where
  "trimmed_texts vs = filter (\<lambda>s. s \<noteq> []) (map (\<lambda>v. trim (to_str v)) vs)"

definition normalizeStringList :: "jsv \<Rightarrow> string list option" where
  "normalizeStringList raw = (if \<not> is_array raw then None else some_list (trimmed_texts (elems raw)))"

definition normalizeToolPolicy :: "jsv \<Rightarrow> tool_policy option" where
  "normalizeToolPolicy raw =
     (if \<not> is_object raw then None
      else
        let al = normalizeStringList (jget raw ''allow''); dn = normalizeStringList (jget raw ''deny'')
        in if al = None \<and> dn = None then None else Some \<lparr>allow = al, deny = dn\<rparr>)"

definition normalizeHeaders :: "jsv \<Rightarrow> (string, string) omap option" where
  "normalizeHeaders raw =
     (if \<not> is_object raw then None
      else some_list (filter (\<lambda>(k, s). trim k \<noteq> [] \<and> trim s \<noteq> []) (map (\<lambda>(k, v). (k, to_str v)) (obj_entries raw))))"

definition parseAuthMode :: "jsv \<Rightarrow> provider_auth" where
  "parseAuthMode v =
     (let raw = trim (to_str (coalesce v (JStr ''api_key'')))
      in if raw = ''oauth'' then OAuth else if raw = ''token'' then TokenAuth else ApiKey)"

definition modelList :: "jsv \<Rightarrow> string list option" where
  "modelList v = (if is_array v then Some (trimmed_texts (elems v)) else None)"

definition normalizeProfile :: "string \<Rightarrow> jsv \<Rightarrow> provider_profile option" where
  "normalizeProfile providerId obj =
     (if \<not> is_object obj then None
      else Some \<lparr>pp_enabled = Some (jget obj ''enabled'' \<noteq> JBool False),
             pp_provider = (case trimmed_field (jget obj ''provider'') of Some p \<Rightarrow> p | None \<Rightarrow> providerId),
             pp_authMode = parseAuthMode (jget obj ''authMode''),
             pp_apiKey = string_field (jget obj ''apiKey''),
             pp_oauthToken = string_field (jget obj ''oauthToken''),
             pp_token = string_field (jget obj ''token''),
             pp_baseUrl = trimmed_field (jget obj ''baseUrl''),
             pp_api = trimmed_field (jget obj ''api''),
             pp_headers = normalizeHeaders (jget obj ''headers''),
             pp_compat = object_field (jget obj ''compat''),
             pp_models = modelList (jget obj ''models'')\<rparr>)"

definition keep_entries :: "(string \<Rightarrow> jsv \<Rightarrow> 'a option) \<Rightarrow> jsv \<Rightarrow> (string, 'a) omap" where
  "keep_entries f raw = List.map_filter (\<lambda>(k, v). map_option (\<lambda>x. (k, x)) (f k v)) (obj_entries raw)"

definition normalizeProviders :: "jsv \<Rightarrow> (string, provider_profile) omap option" where
  "normalizeProviders raw = (if \<not> is_object raw then None else some_list (keep_entries normalizeProfile raw))"

definition parseSlot :: "jsv \<Rightarrow> routing_target option" where
  "parseSlot v =
     (if \<not> is_object v then None
      else
        let provider = trim (str_of (jget v ''provider'')); model = trim (str_of (jget v ''model''))
        in if \<not> hasRealValue (Some provider) \<or> \<not> hasRealValue (Some model) then None
           else Some \<lparr>rt_provider = Some provider, rt_model = Some model\<rparr>)"

definition normalizeRouting :: "jsv \<Rightarrow> routing_config option" where
  "normalizeRouting raw =
     (if \<not> is_object raw then None
      else
        let nxt = \<lparr>rc_default = parseSlot (jget raw ''default''), rc_planning = parseSlot (jget raw ''planning''),
                   rc_coding = parseSlot (jget raw ''coding'')\<rparr>
        in if rc_default nxt \<noteq> None \<or> rc_planning nxt \<noteq> None \<or> rc_coding nxt \<noteq> None then Some nxt else None)"

text \<open>A lower-case choice out of a list, \<open>undefined\<close> for anything else.\<close>

definition choice_field :: "string list \<Rightarrow> jsv \<Rightarrow> string option" where
  "choice_field options v = (let raw = to_lower (trim (str_or_empty v)) in if raw \<in> set options then Some raw else None)"

definition normalizeSearch :: "jsv \<Rightarrow> web_search_config option" where
  "normalizeSearch v =
     (if \<not> is_object v then None
      else Some \<lparr>ws_enabled = bool_field (jget v ''enabled''),
             ws_provider = choice_field [''duckduckgo'', ''brave''] (jget v ''provider''),
             ws_apiKey = trimmed_field (jget v ''apiKey''),
             ws_timeoutMs = floor_field 1000 (jget v ''timeoutMs''),
             ws_maxResults = floor_field 1 (jget v ''maxResults''),
             ws_region = trimmed_field (jget v ''region''),
             ws_fetchTop = floor_field 0 (jget v ''fetchTop''),
             ws_fetchMaxBytes = floor_field 10000 (jget v ''fetchMaxBytes'')\<rparr>)"

definition normalizeFetch :: "jsv \<Rightarrow> web_fetch_config option" where
  "normalizeFetch v =
     (if \<not> is_object v then None
      else Some \<lparr>wf_enabled = bool_field (jget v ''enabled''),
             wf_timeoutMs = floor_field 1000 (jget v ''timeoutMs''),
             wf_maxBytes = floor_field 10000 (jget v ''maxBytes'')\<rparr>)"

definition TOOL_PROFILE_IDS :: "string list" where
  "TOOL_PROFILE_IDS = [''minimal'', ''coding'', ''messaging'', ''full'']"

definition normalizeProtection :: "jsv \<Rightarrow> protection_config option" where
  "normalizeProtection v =
     (if \<not> is_object v then None
      else Some \<lparr>sp_enabled = bool_field (jget v ''enabled''), sp_installRoot = trimmed_field (jget v ''installRoot''),
             sp_protectedPaths = normalizeStringList (jget v ''protectedPaths'')\<rparr>)"

definition normalizeExec :: "jsv \<Rightarrow> exec_config option" where
  "normalizeExec v =
     (if \<not> is_object v then None
      else Some \<lparr>xc_timeoutSec = number_field (jget v ''timeoutSec''), xc_allowBackground = bool_field (jget v ''allowBackground'')\<rparr>)"

definition normalizeWeb :: "jsv \<Rightarrow> web_tools_config option" where
  "normalizeWeb v =
     (if \<not> is_object v then None
      else Some \<lparr>wt_search = normalizeSearch (jget v ''search''), wt_fetch = normalizeFetch (jget v ''fetch'')\<rparr>)"

definition normalizeByProvider :: "jsv \<Rightarrow> (string, tool_policy) omap option" where
  "normalizeByProvider v =
     (if \<not> is_object v then None else some_list (keep_entries (\<lambda>k. normalizeToolPolicy) v))"

definition normalizeFs :: "jsv \<Rightarrow> bool option option" where
  "normalizeFs v = (if is_object v then Some (bool_field (jget v ''workspaceOnly'')) else None)"

definition normalizeTools :: "jsv \<Rightarrow> tools_config option" where
  "normalizeTools obj =
     (if \<not> is_object obj then None
      else Some \<lparr>tc_unrestricted = bool_field (jget obj ''dangerouslyUnrestricted''),
             tc_profile = choice_field TOOL_PROFILE_IDS (jget obj ''profile''),
             tc_allow = normalizeStringList (jget obj ''allow''),
             tc_alsoAllow = normalizeStringList (jget obj ''alsoAllow''),
             tc_deny = normalizeStringList (jget obj ''deny''),
             tc_byProvider = normalizeByProvider (jget obj ''byProvider''),
             tc_runtime = normalizeToolPolicy (jget obj ''runtime''),
             tc_fs = normalizeFs (jget obj ''fs''),
             tc_exec = normalizeExec (jget obj ''exec''),
             tc_web = normalizeWeb (jget obj ''web''),
             tc_selfProtection = normalizeProtection (jget obj ''selfProtection'')\<rparr>)"

definition normalizeSkillEntries :: "jsv \<Rightarrow> (string, bool option) omap option" where
  "normalizeSkillEntries v =
     (if \<not> is_object v then None
      else some_list (keep_entries (\<lambda>k e. if is_object e then Some (bool_field (jget e ''enabled'')) else None) v))"

definition normalizeSkills :: "jsv \<Rightarrow> skills_config option" where
  "normalizeSkills obj =
     (if \<not> is_object obj then None
      else Some \<lparr>sk_allow = normalizeStringList (jget obj ''allow''), sk_dirs = normalizeStringList (jget obj ''dirs''),
             sk_entries = normalizeSkillEntries (jget obj ''entries'')\<rparr>)"

definition positive_number :: "jnum \<Rightarrow> rat option" where
  "positive_number n = (case n of Fin q \<Rightarrow> if 0 < q then Some q else None | _ \<Rightarrow> None)"

definition normalizeUsage :: "jsv \<Rightarrow> usage_config option" where
  "normalizeUsage obj =
     (if \<not> is_object obj \<or> is_array obj then None
      else
        let tokenBudget = map_option floor (positive_number (to_num (jget obj ''tokenBudget'')));
            costBudgetUsd = positive_number (to_num (jget obj ''costBudgetUsd''))
        in if (tokenBudget = None \<or> tokenBudget = Some 0) \<and> costBudgetUsd = None then None
           else Some \<lparr>uc_tokenBudget = tokenBudget, uc_costBudgetUsd = costBudgetUsd\<rparr>)"

definition normalizeAgents :: "jsv \<Rightarrow> int option" where
  "normalizeAgents obj =
     (if \<not> is_object obj \<or> \<not> is_object (jget obj ''defaults'') then None
      else
        case map_option floor (positive_number (to_num (jget (jget obj ''defaults'') ''bootstrapMaxChars''))) of
          Some n \<Rightarrow> if n \<noteq> 0 then Some n else None
        | None \<Rightarrow> None)"

text \<open>\<open>s.replace(/^(telegram|tg):/i, "").trim()\<close>.\<close>

definition strip_channel :: "string \<Rightarrow> string" where
  "strip_channel s =
     trim (if to_lower (take 9 s) = ''telegram:'' then drop 9 s
           else if to_lower (take 3 s) = ''tg:'' then drop 3 s else s)"

fun as_integer :: "jnum \<Rightarrow> int option" where
  "as_integer (Fin q) = (if of_int \<lfloor>q\<rfloor> = q then Some \<lfloor>q\<rfloor> else None)"
| "as_integer _ = None"

definition allowFromList :: "jsv \<Rightarrow> string list option" where
  "allowFromList v =
     (if is_array v then some_list (filter (\<lambda>s. s \<noteq> []) (map (\<lambda>v. strip_channel (to_str v)) (elems v))) else None)"

definition chatIdList :: "jsv \<Rightarrow> int list option" where
  "chatIdList v = (if is_array v then some_list (List.map_filter (\<lambda>v. as_integer (to_num v)) (elems v)) else None)"

definition normalizeChannels :: "jsv \<Rightarrow> telegram_config option" where
  "normalizeChannels raw =
     (let obj = jget raw ''telegram'' in
      if \<not> is_object raw \<or> \<not> is_object obj then None
      else Some
        \<lparr>tg_botToken = string_field (jget obj ''botToken''),
         tg_dmPolicy = Some (parseTelegramDmPolicy (jget obj ''dmPolicy'')),
         tg_allowFrom = allowFromList (jget obj ''allowFrom''),
         tg_allowedChatIds = chatIdList (jget obj ''allowedChatIds'')\<rparr>)"

definition normalizeModels :: "jsv \<Rightarrow> model_presets option" where
  "normalizeModels v =
     (if \<not> is_object v then None
      else Some \<lparr>mp_default = string_field (jget v ''default''), mp_planning = string_field (jget v ''planning''),
             mp_coding = string_field (jget v ''coding'')\<rparr>)"

definition normalizeConfig :: "jsv \<Rightarrow> t560_config" where
  "normalizeConfig obj =
     (if \<not> is_object obj then empty_config
      else \<lparr>cf_provider = string_field (jget obj ''provider''), cf_models = normalizeModels (jget obj ''models''),
            cf_providers = normalizeProviders (jget obj ''providers''), cf_routing = normalizeRouting (jget obj ''routing''),
            cf_channels = normalizeChannels (jget obj ''channels''), cf_tools = normalizeTools (jget obj ''tools''),
            cf_skills = normalizeSkills (jget obj ''skills''), cf_usage = normalizeUsage (jget obj ''usage''),
            cf_agents = normalizeAgents (jget obj ''agents'')\<rparr>)"

section \<open>The configuration as JSON\<close>

definition opt_json :: "('a \<Rightarrow> jsv) \<Rightarrow> 'a option \<Rightarrow> jsv" where
  "opt_json f v = (case v of Some x \<Rightarrow> f x | None \<Rightarrow> JUndef)"

definition strings_json :: "string list \<Rightarrow> jsv" where
  "strings_json xs = JArr (map JStr xs)"

definition int_json :: "int \<Rightarrow> jsv" where
  "int_json n = JNum (Fin (of_int n))"

definition models_json :: "model_presets \<Rightarrow> jsv" where
  "models_json m = JObj [(''default'', opt_json JStr (mp_default m)), (''planning'', opt_json JStr (mp_planning m)),
     (''coding'', opt_json JStr (mp_coding m))]"

fun provider_auth_text :: "provider_auth \<Rightarrow> string" where
  "provider_auth_text ApiKey = ''api_key''"
| "provider_auth_text OAuth = ''oauth''"
| "provider_auth_text TokenAuth = ''token''"

definition table_json :: "('a \<Rightarrow> jsv) \<Rightarrow> (string, 'a) omap \<Rightarrow> jsv" where
  "table_json f m = JObj (map (\<lambda>(k, x). (k, f x)) m)"

definition profile_json :: "provider_profile \<Rightarrow> jsv" where
  "profile_json p = JObj [(''enabled'', opt_json JBool (pp_enabled p)), (''provider'', JStr (pp_provider p)),
     (''authMode'', JStr (provider_auth_text (pp_authMode p))), (''apiKey'', opt_json JStr (pp_apiKey p)),
     (''oauthToken'', opt_json JStr (pp_oauthToken p)), (''token'', opt_json JStr (pp_token p)),
     (''baseUrl'', opt_json JStr (pp_baseUrl p)), (''api'', opt_json JStr (pp_api p)),
     (''headers'', opt_json (table_json JStr) (pp_headers p)),
     (''compat'', opt_json id (pp_compat p)), (''models'', opt_json strings_json (pp_models p))]"

definition target_json :: "routing_target \<Rightarrow> jsv" where
  "target_json r = JObj [(''provider'', opt_json JStr (rt_provider r)), (''model'', opt_json JStr (rt_model r))]"

definition routing_json :: "routing_config \<Rightarrow> jsv" where
  "routing_json r = JObj [(''default'', opt_json target_json (rc_default r)), (''planning'', opt_json target_json (rc_planning r)),
     (''coding'', opt_json target_json (rc_coding r))]"

fun dm_text :: "dm_policy \<Rightarrow> string" where
  "dm_text DmPairing = ''pairing''"
| "dm_text DmAllowlist = ''allowlist''"
| "dm_text DmOpen = ''open''"
| "dm_text DmDisabled = ''disabled''"

definition ints_json :: "int list \<Rightarrow> jsv" where
  "ints_json ns = JArr (map int_json ns)"

definition channels_json :: "telegram_config \<Rightarrow> jsv" where
  "channels_json t = JObj [(''telegram'', JObj [(''botToken'', opt_json JStr (tg_botToken t)),
     (''dmPolicy'', opt_json (\<lambda>p. JStr (dm_text p)) (tg_dmPolicy t)), (''allowFrom'', opt_json strings_json (tg_allowFrom t)),
     (''allowedChatIds'', opt_json ints_json (tg_allowedChatIds t))])]"

definition policy_json :: "tool_policy \<Rightarrow> jsv" where
  "policy_json p = JObj [(''allow'', opt_json strings_json (allow p)), (''deny'', opt_json strings_json (deny p))]"

definition search_json :: "web_search_config \<Rightarrow> jsv" where
  "search_json s = JObj [(''enabled'', opt_json JBool (ws_enabled s)), (''provider'', opt_json JStr (ws_provider s)),
     (''apiKey'', opt_json JStr (ws_apiKey s)), (''timeoutMs'', opt_json int_json (ws_timeoutMs s)),
     (''maxResults'', opt_json int_json (ws_maxResults s)), (''region'', opt_json JStr (ws_region s)),
     (''fetchTop'', opt_json int_json (ws_fetchTop s)), (''fetchMaxBytes'', opt_json int_json (ws_fetchMaxBytes s))]"

definition fetch_json :: "web_fetch_config \<Rightarrow> jsv" where
  "fetch_json f = JObj [(''enabled'', opt_json JBool (wf_enabled f)), (''timeoutMs'', opt_json int_json (wf_timeoutMs f)),
     (''maxBytes'', opt_json int_json (wf_maxBytes f))]"

definition web_json :: "web_tools_config \<Rightarrow> jsv" where
  "web_json w = JObj [(''search'', opt_json search_json (wt_search w)), (''fetch'', opt_json fetch_json (wt_fetch w))]"

definition exec_json :: "exec_config \<Rightarrow> jsv" where
  "exec_json x = JObj [(''timeoutSec'', opt_json JNum (xc_timeoutSec x)), (''allowBackground'', opt_json JBool (xc_allowBackground x))]"

definition protection_json :: "protection_config \<Rightarrow> jsv" where
  "protection_json s = JObj [(''enabled'', opt_json JBool (sp_enabled s)), (''installRoot'', opt_json JStr (sp_installRoot s)),
     (''protectedPaths'', opt_json strings_json (sp_protectedPaths s))]"

definition fs_json :: "bool option \<Rightarrow> jsv" where
  "fs_json workspaceOnly = JObj [(''workspaceOnly'', opt_json JBool workspaceOnly)]"

definition tools_json :: "tools_config \<Rightarrow> jsv" where
  "tools_json t = JObj [(''dangerouslyUnrestricted'', opt_json JBool (tc_unrestricted t)), (''profile'', opt_json JStr (tc_profile t)),
     (''allow'', opt_json strings_json (tc_allow t)), (''alsoAllow'', opt_json strings_json (tc_alsoAllow t)),
     (''deny'', opt_json strings_json (tc_deny t)), (''byProvider'', opt_json (table_json policy_json) (tc_byProvider t)),
     (''runtime'', opt_json policy_json (tc_runtime t)),
     (''fs'', opt_json fs_json (tc_fs t)),
     (''exec'', opt_json exec_json (tc_exec t)), (''web'', opt_json web_json (tc_web t)),
     (''selfProtection'', opt_json protection_json (tc_selfProtection t))]"

definition skills_json :: "skills_config \<Rightarrow> jsv" where
  "skills_json s = JObj [(''allow'', opt_json strings_json (sk_allow s)), (''dirs'', opt_json strings_json (sk_dirs s)),
     (''entries'', opt_json (table_json (\<lambda>e. JObj [(''enabled'', opt_json JBool e)])) (sk_entries s))]"

definition usage_json :: "usage_config \<Rightarrow> jsv" where
  "usage_json u = JObj [(''tokenBudget'', opt_json int_json (uc_tokenBudget u)),
     (''costBudgetUsd'', opt_json (\<lambda>q. JNum (Fin q)) (uc_costBudgetUsd u))]"

definition agents_json :: "int \<Rightarrow> jsv" where
  "agents_json n = JObj [(''defaults'', JObj [(''bootstrapMaxChars'', int_json n)])]"

definition config_json :: "t560_config \<Rightarrow> jsv" where
  "config_json c = JObj [(''provider'', opt_json JStr (cf_provider c)), (''models'', opt_json models_json (cf_models c)),
     (''providers'', opt_json (table_json profile_json) (cf_providers c)), (''routing'', opt_json routing_json (cf_routing c)),
     (''channels'', opt_json channels_json (cf_channels c)), (''tools'', opt_json tools_json (cf_tools c)),
     (''skills'', opt_json skills_json (cf_skills c)), (''usage'', opt_json usage_json (cf_usage c)),
     (''agents'', opt_json agents_json (cf_agents c))]"

section \<open>The state directory\<close>

text \<open>A text file is one \<open>JSON.parse\<close> refuses.\<close>

datatype state_file = TextFile string | JsonDoc jsv

type_synonym state_files = "(string, state_file) omap"

definition readJsonIfExists :: "string \<Rightarrow> state_files \<Rightarrow> jsv" where
  "readJsonIfExists path files = (case map_of files path of Some (JsonDoc v) \<Rightarrow> v | _ \<Rightarrow> JNull)"

definition DEFAULT_SOUL :: string where
  "DEFAULT_SOUL = js_join [CHR 0x0A] [''# T560 Soul'', [],
     ''Pretend you are an AI assistant named T560. You are friendly, concise, and helpful. '' @
     ''You always try your best to answer the user'' @ [CHR 0x27] @ ''s request.'']"

definition DEFAULT_USERS :: string where
  "DEFAULT_USERS = js_join [CHR 0x0A] [''# User Profile'', [],
     ''I am Nick, my favorite hobby is coding, and I need an assistant for everyday tasks.'']"

definition write_missing :: "string \<Rightarrow> string \<Rightarrow> state_files \<Rightarrow> state_files" where
  "write_missing path t files =
     (if map_of files path = None then AList.update path (TextFile (t @ [CHR 0x0A])) files else files)"

definition ensureStateDir :: "string \<Rightarrow> state_files \<Rightarrow> state_files" where
  "ensureStateDir dir files =
     write_missing (resolveUsersPath dir) DEFAULT_USERS (write_missing (resolveSoulPath dir) DEFAULT_SOUL files)"

definition readConfig :: "string \<Rightarrow> state_files \<Rightarrow> t560_config \<times> state_files" where
  "readConfig dir files =
     (let files1 = ensureStateDir dir files in
      (normalizeConfig (readJsonIfExists (resolveConfigPath dir) files1), files1))"

definition writeConfig :: "string \<Rightarrow> t560_config \<Rightarrow> state_files \<Rightarrow> state_files" where
  "writeConfig dir config files =
     AList.update (resolveConfigPath dir) (JsonDoc (json_clean (config_json (normalizeConfig (config_json config)))))
       (ensureStateDir dir files)"

section \<open>Routing, credentials and senders\<close>

definition hasProviderCredential :: "provider_profile option \<Rightarrow> bool" where
  "hasProviderCredential profile =
     (case profile of
        None \<Rightarrow> False
      | Some p \<Rightarrow> hasRealValue (pp_apiKey p) \<or> hasRealValue (pp_oauthToken p) \<or> hasRealValue (pp_token p))"

definition providerCanRunWithoutCredential :: "string \<Rightarrow> provider_profile option \<Rightarrow> bool" where
  "providerCanRunWithoutCredential providerId profile =
     (case profile of
        None \<Rightarrow> False
      | Some p \<Rightarrow>
          hasRealValue (map_option trim (pp_baseUrl p))
          \<and> (to_lower (trim (pp_provider p)) = ''openai'' \<or> to_lower (trim providerId) = ''local-openai''))"

definition resolveSelfProtectionInstallRoot :: "process_env \<Rightarrow> string option \<Rightarrow> string option" where
  "resolveSelfProtectionInstallRoot env raw =
     (if \<not> hasRealValue raw then None
      else
        let trimmed = trim (case raw of Some s \<Rightarrow> s | None \<Rightarrow> []) in
        if trimmed = ''~'' then Some (homedir env)
        else if starts_with trimmed ''~/'' then Some (path_resolve (pcwd env) (path_join (homedir env) (drop 2 trimmed)))
        else Some (path_resolve (pcwd env) trimmed))"

datatype slot = Default | Planning | Coding

fun preset_of :: "slot \<Rightarrow> model_presets \<Rightarrow> string option" where
  "preset_of Default m = mp_default m"
| "preset_of Planning m = mp_planning m"
| "preset_of Coding m = mp_coding m"

fun route_of :: "slot \<Rightarrow> routing_config \<Rightarrow> routing_target option" where
  "route_of Default r = rc_default r"
| "route_of Planning r = rc_planning r"
| "route_of Coding r = rc_coding r"

text \<open>\<open>t?.provider && t.model\<close>: both are there and not empty.\<close>

fun full_target :: "routing_target option \<Rightarrow> routing_target option" where
  "full_target (Some t) =
     (case (rt_provider t, rt_model t) of
        (Some p, Some m) \<Rightarrow> if p \<noteq> [] \<and> m \<noteq> [] then Some \<lparr>rt_provider = Some p, rt_model = Some m\<rparr> else None
      | _ \<Rightarrow> None)"
| "full_target None = None"

definition resolveRouteFromModelPreset :: "t560_config \<Rightarrow> slot \<Rightarrow> routing_target option" where
  "resolveRouteFromModelPreset config slot =
     (let modelPreset = Option.bind (cf_models config) (preset_of slot) in
      if \<not> hasRealValue modelPreset then None
      else case full_target (parseModelRef modelPreset) of
             Some direct \<Rightarrow> Some direct
           | None \<Rightarrow>
               let providerId = map_option trim (cf_provider config) in
               if \<not> hasRealValue providerId then None
               else Some \<lparr>rt_provider = providerId, rt_model = map_option trim modelPreset\<rparr>)"

definition resolveBootstrapMaxChars :: "string option \<Rightarrow> t560_config \<Rightarrow> int option" where
  "resolveBootstrapMaxChars T560_BOOTSTRAP_MAX_CHARS config =
     (let envRaw = trim (case T560_BOOTSTRAP_MAX_CHARS of Some s \<Rightarrow> s | None \<Rightarrow> [])
      in case (if envRaw \<noteq> [] then positive_number (str_to_num envRaw) else None) of
           Some q \<Rightarrow> Some \<lfloor>q\<rfloor>
         | None \<Rightarrow> (case cf_agents config of Some n \<Rightarrow> if 0 < n then Some n else None | None \<Rightarrow> None))"

definition resolveRoutingTarget :: "t560_config \<Rightarrow> slot \<Rightarrow> routing_target option" where
  "resolveRoutingTarget config slot =
     (case full_target (Option.bind (cf_routing config) (route_of slot)) of
        Some t \<Rightarrow> Some t
      | None \<Rightarrow>
          (case resolveRouteFromModelPreset config slot of
             Some t \<Rightarrow> Some t
           | None \<Rightarrow>
               if slot = Default then None
               else
                 (case full_target (Option.bind (cf_routing config) rc_default) of
                    Some t \<Rightarrow> Some t
                  | None \<Rightarrow> resolveRouteFromModelPreset config Default)))"

text \<open>\<open>a?.trim() || b?.trim()\<close>: the second when the first is missing or blank.\<close>

definition trimmed_or :: "string option \<Rightarrow> string option \<Rightarrow> string option" where
  "trimmed_or a b =
     (case a of
        Some s \<Rightarrow> if trim s \<noteq> [] then Some (trim s) else map_option trim b
      | None \<Rightarrow> map_option trim b)"

definition resolveTelegramBotToken :: "string option \<Rightarrow> string option \<Rightarrow> t560_config \<Rightarrow> string option" where
  "resolveTelegramBotToken T560_TELEGRAM_BOT_TOKEN TELEGRAM_BOT_TOKEN config =
     (let envToken = trimmed_or T560_TELEGRAM_BOT_TOKEN TELEGRAM_BOT_TOKEN;
          configToken = map_option trim (Option.bind (cf_channels config) tg_botToken)
      in if hasRealValue envToken then envToken
         else if hasRealValue configToken then configToken else None)"

definition isAllowedTelegramSender :: "t560_config \<Rightarrow> string \<Rightarrow> bool" where
  "isAllowedTelegramSender config sender =
     (let normalized = strip_channel sender;
          allowFrom = (case Option.bind (cf_channels config) tg_allowFrom of Some xs \<Rightarrow> xs | None \<Rightarrow> []);
          allowedChatIds = (case Option.bind (cf_channels config) tg_allowedChatIds of Some ns \<Rightarrow> ns | None \<Rightarrow> [])
      in if normalized = [] then False
         else if list_ex (\<lambda>entry. strip_channel entry = normalized) allowFrom then True
         else (case as_integer (str_to_num normalized) of Some n \<Rightarrow> n \<in> set allowedChatIds | None \<Rightarrow> False))"

section \<open>Onboarding\<close>

record onboarding_status =
  os_onboarded :: bool
  os_missing :: "string list"
  os_config :: t560_config
  os_configPath :: string

definition providersMissing :: "(string, provider_profile) omap \<Rightarrow> string list" where
  "providersMissing providers =
     (if providers = [] then [''providers'']
      else if list_ex (\<lambda>(k, p). hasProviderCredential (Some p)) providers then [] else [''providers.credentials''])"

definition slot_missing :: "t560_config \<Rightarrow> slot \<Rightarrow> string \<Rightarrow> string list" where
  "slot_missing config slot name = (if full_target (resolveRoutingTarget config slot) = None then [name] else [])"

definition routedProviders :: "t560_config \<Rightarrow> string list" where
  "routedProviders config =
     dedup (filter (\<lambda>s. s \<noteq> [])
       (map (\<lambda>slot. trim (case Option.bind (resolveRoutingTarget config slot) rt_provider of Some p \<Rightarrow> p | None \<Rightarrow> []))
         [Default, Planning, Coding]))"

definition routed_missing :: "(string, provider_profile) omap \<Rightarrow> string \<Rightarrow> string list" where
  "routed_missing providers providerId =
     (case map_of providers providerId of
        None \<Rightarrow> [''providers.'' @ providerId]
      | Some profile \<Rightarrow>
          if \<not> hasProviderCredential (Some profile) \<and> \<not> providerCanRunWithoutCredential providerId (Some profile)
          then [''providers.'' @ providerId @ ''.credentials''] else [])"

definition protectionMissing :: "process_env \<Rightarrow> (string \<Rightarrow> bool) \<Rightarrow> protection_config option \<Rightarrow> string list" where
  "protectionMissing env fileExists selfProtection =
     (if Option.bind selfProtection sp_enabled \<noteq> Some True then [''tools.selfProtection.enabled''] else []) @
     (case resolveSelfProtectionInstallRoot env (Option.bind selfProtection sp_installRoot) of
        None \<Rightarrow> [''tools.selfProtection.installRoot'']
      | Some installRoot \<Rightarrow> if fileExists installRoot then [] else [''tools.selfProtection.installRoot.exists'']) @
     (if filter (\<lambda>s. s \<noteq> []) (map trim (case Option.bind selfProtection sp_protectedPaths of Some ps \<Rightarrow> ps | None \<Rightarrow> [])) = []
      then [''tools.selfProtection.protectedPaths''] else [])"

definition file_missing :: "state_files \<Rightarrow> string \<Rightarrow> string \<Rightarrow> string list" where
  "file_missing files path name = (if map_of files path = None then [name] else [])"

definition readOnboardingStatus ::
  "process_env \<Rightarrow> (string \<Rightarrow> bool) \<Rightarrow> string \<Rightarrow> state_files \<Rightarrow> onboarding_status \<times> state_files" where
  "readOnboardingStatus env fileExists dir files =
     (let (config, files1) = readConfig dir (ensureStateDir dir files);
          providers = (case cf_providers config of Some ps \<Rightarrow> ps | None \<Rightarrow> []);
          missing =
            providersMissing providers @
            slot_missing config Default ''routing.default'' @
            slot_missing config Planning ''routing.planning'' @
            slot_missing config Coding ''routing.coding'' @
            concat (map (routed_missing providers) (routedProviders config)) @
            protectionMissing env fileExists (Option.bind (cf_tools config) tc_selfProtection) @
            file_missing files1 (resolveSoulPath dir) ''soul.md'' @
            file_missing files1 (resolveUsersPath dir) ''users.md'' @
            file_missing files1 (resolveLegacyUserPath dir) ''user.md''
      in (\<lparr>os_onboarded = (missing = []), os_missing = missing, os_config = config, os_configPath = resolveConfigPath dir\<rparr>,
          files1))"

section \<open>The start-up check\<close>

record preflight_result =
  pf_ok :: bool
  pf_errors :: "string list"
  pf_warnings :: "string list"

definition token_secret_char :: "char \<Rightarrow> bool" where
  "token_secret_char c \<longleftrightarrow> is_alnum c \<or> c = CHR ''_'' \<or> c = CHR ''-''"

text \<open>\<open>/^\d{6,}:[A-Za-z0-9_-]{20,}$/\<close> on the trimmed token.\<close>

definition looksLikeTelegramToken :: "string \<Rightarrow> bool" where
  "looksLikeTelegramToken token =
     (let t = trim token; digits = takeWhile is_digit t; rest = dropWhile is_digit t
      in 6 \<le> length digits \<and> rest \<noteq> [] \<and> hd rest = CHR '':''
         \<and> 20 \<le> length (tl rest) \<and> list_all token_secret_char (tl rest))"

text \<open>What the request for \<open>getMe\<close> ends in; the answer is JSON or not.\<close>

datatype http_outcome = Answer bool int "jsv option" | Aborted | Failed string

definition validateTelegramToken :: "http_outcome \<Rightarrow> string option" where
  "validateTelegramToken outcome =
     (case outcome of
        Answer good status body \<Rightarrow>
          if \<not> good then Some (''Telegram bot token check failed with HTTP '' @ int_to_string status @ ''.'')
          else (case body of
                  None \<Rightarrow> Some ''Telegram bot token check failed: invalid Telegram API response.''
                | Some parsed \<Rightarrow>
                    if \<not> is_object parsed then Some ''Telegram bot token check failed: invalid Telegram API payload.''
                    else if jget parsed ''ok'' \<noteq> JBool True
                      then Some (''Telegram bot token check failed: '' @
                        (case trimmed_field (jget parsed ''description'') of Some d \<Rightarrow> d | None \<Rightarrow> ''unknown Telegram API error'') @ ''.'')
                    else None)
      | Aborted \<Rightarrow> Some ''Telegram bot token check timed out.''
      | Failed message \<Rightarrow> Some (''Telegram bot token check failed: '' @ message))"

definition isNetworkIssue :: "string \<Rightarrow> bool" where
  "isNetworkIssue tokenError =
     (let normalized = to_lower tokenError in
      str_includes normalized ''fetch failed'' \<or> str_includes normalized ''timed out''
      \<or> str_includes normalized ''timeout'' \<or> str_includes normalized ''network'')"

text \<open>Errors and warnings about the Telegram bot.\<close>

definition telegramCheck ::
  "string option \<Rightarrow> string option \<Rightarrow> (string \<Rightarrow> http_outcome) \<Rightarrow> t560_config \<Rightarrow> string list \<times> string list" where
  "telegramCheck t560Token botToken getMe config =
     (let envToken = trimmed_or t560Token botToken;
          configToken = map_option trim (Option.bind (cf_channels config) tg_botToken);
          configured = (envToken \<noteq> None \<and> envToken \<noteq> Some [] \<or> configToken \<noteq> None \<and> configToken \<noteq> Some []
                        \<or> cf_channels config \<noteq> None)
      in if \<not> configured then ([], [])
         else case resolveTelegramBotToken t560Token botToken config of
                None \<Rightarrow> ([''Telegram is configured but bot token is missing.''], [])
              | Some token \<Rightarrow>
                  if token = [] then ([''Telegram is configured but bot token is missing.''], [])
                  else if \<not> looksLikeTelegramToken token
                    then ([''Telegram bot token format looks invalid. Expected format: <digits>:<secret>.''], [])
                  else (case validateTelegramToken (getMe token) of
                          None \<Rightarrow> ([], [])
                        | Some tokenError \<Rightarrow> if isNetworkIssue tokenError then ([], [tokenError]) else ([tokenError], [])))"

text \<open>\<open>tailscale\<close> is the address, or the error text when there is none; \<open>readable\<close> the error of reading a file.\<close>

definition runRuntimePreflight ::
  "process_env \<Rightarrow> (string \<Rightarrow> bool) \<Rightarrow> (string \<Rightarrow> string option) \<Rightarrow> string option result \<Rightarrow> string option \<Rightarrow> string option \<Rightarrow>
   (string \<Rightarrow> http_outcome) \<Rightarrow> string \<Rightarrow> state_files \<Rightarrow> preflight_result \<times> state_files" where
  "runRuntimePreflight env fileExists unreadable tailscale t560Token botToken getMe dir files =
     (let (status, files1) = readOnboardingStatus env fileExists dir files;
          check = (\<lambda>path label. case unreadable path of None \<Rightarrow> [] | Some m \<Rightarrow> [label @ '' is not readable: '' @ m]);
          (tgErrors, tgWarnings) = telegramCheck t560Token botToken getMe (os_config status);
          errors =
            (case tailscale of
               Inl e \<Rightarrow> [e]
             | Inr None \<Rightarrow> [''Tailscale is required but unavailable.'']
             | Inr (Some ip) \<Rightarrow> []) @
            (if os_onboarded status then []
             else [''Missing required onboarding fields: '' @ js_join '', '' (os_missing status)]) @
            check (resolveSoulPath dir) ''soul.md'' @
            check (resolveUserPath dir) ''user.md'' @
            check (resolveUsersPath dir) ''users.md'' @ tgErrors
      in (\<lparr>pf_ok = (errors = []), pf_errors = errors, pf_warnings = tgWarnings\<rparr>, files1))"

section \<open>Well-formed configurations\<close>

definition opt_ok :: "('a \<Rightarrow> bool) \<Rightarrow> 'a option \<Rightarrow> bool" where
  "opt_ok P v = (case v of None \<Rightarrow> True | Some x \<Rightarrow> P x)"

definition clean_str :: "string \<Rightarrow> bool" where
  "clean_str s \<longleftrightarrow> s \<noteq> [] \<and> trim s = s"

definition strings_ok :: "string list \<Rightarrow> bool" where
  "strings_ok xs \<longleftrightarrow> xs \<noteq> [] \<and> list_all clean_str xs"

definition table_ok :: "('a \<Rightarrow> bool) \<Rightarrow> (string, 'a) omap \<Rightarrow> bool" where
  "table_ok P m \<longleftrightarrow> m \<noteq> [] \<and> list_all (\<lambda>(k, x). P x) m"

definition policy_ok :: "tool_policy \<Rightarrow> bool" where
  "policy_ok p \<longleftrightarrow> opt_ok strings_ok (allow p) \<and> opt_ok strings_ok (deny p) \<and> (allow p \<noteq> None \<or> deny p \<noteq> None)"

definition profile_ok :: "provider_profile \<Rightarrow> bool" where
  "profile_ok p \<longleftrightarrow> pp_enabled p \<noteq> None \<and> clean_str (pp_provider p)
     \<and> opt_ok clean_str (pp_baseUrl p) \<and> opt_ok clean_str (pp_api p)
     \<and> opt_ok (\<lambda>hs. hs \<noteq> [] \<and> list_all (\<lambda>(k, s). trim k \<noteq> [] \<and> trim s \<noteq> []) hs) (pp_headers p)
     \<and> opt_ok (\<lambda>v. is_object v \<and> json_clean v = v) (pp_compat p)
     \<and> opt_ok (list_all clean_str) (pp_models p)"

definition target_ok :: "routing_target \<Rightarrow> bool" where
  "target_ok t \<longleftrightarrow> (case (rt_provider t, rt_model t) of
      (Some p, Some m) \<Rightarrow> trim p = p \<and> trim m = m \<and> hasRealValue (Some p) \<and> hasRealValue (Some m) | _ \<Rightarrow> False)"

definition routing_ok :: "routing_config \<Rightarrow> bool" where
  "routing_ok r \<longleftrightarrow> opt_ok target_ok (rc_default r) \<and> opt_ok target_ok (rc_planning r) \<and> opt_ok target_ok (rc_coding r)
     \<and> (rc_default r \<noteq> None \<or> rc_planning r \<noteq> None \<or> rc_coding r \<noteq> None)"

definition telegram_ok :: "telegram_config \<Rightarrow> bool" where
  "telegram_ok t \<longleftrightarrow> tg_dmPolicy t \<noteq> None
     \<and> opt_ok (\<lambda>xs. xs \<noteq> [] \<and> list_all (\<lambda>s. s \<noteq> [] \<and> strip_channel s = s) xs) (tg_allowFrom t)
     \<and> opt_ok (\<lambda>ns. ns \<noteq> []) (tg_allowedChatIds t)"

definition search_ok :: "web_search_config \<Rightarrow> bool" where
  "search_ok s \<longleftrightarrow> opt_ok (\<lambda>p. p \<in> set [''duckduckgo'', ''brave'']) (ws_provider s)
     \<and> opt_ok clean_str (ws_apiKey s) \<and> opt_ok (\<lambda>n. 1000 \<le> n) (ws_timeoutMs s) \<and> opt_ok (\<lambda>n. 1 \<le> n) (ws_maxResults s)
     \<and> opt_ok clean_str (ws_region s) \<and> opt_ok (\<lambda>n. 0 \<le> n) (ws_fetchTop s) \<and> opt_ok (\<lambda>n. 10000 \<le> n) (ws_fetchMaxBytes s)"

definition fetch_ok :: "web_fetch_config \<Rightarrow> bool" where
  "fetch_ok f \<longleftrightarrow> opt_ok (\<lambda>n. 1000 \<le> n) (wf_timeoutMs f) \<and> opt_ok (\<lambda>n. 10000 \<le> n) (wf_maxBytes f)"

definition tools_ok :: "tools_config \<Rightarrow> bool" where
  "tools_ok t \<longleftrightarrow> opt_ok (\<lambda>p. p \<in> set TOOL_PROFILE_IDS) (tc_profile t)
     \<and> opt_ok strings_ok (tc_allow t) \<and> opt_ok strings_ok (tc_alsoAllow t) \<and> opt_ok strings_ok (tc_deny t)
     \<and> opt_ok (table_ok policy_ok) (tc_byProvider t) \<and> opt_ok policy_ok (tc_runtime t)
     \<and> opt_ok (\<lambda>x. opt_ok is_finite (xc_timeoutSec x)) (tc_exec t)
     \<and> opt_ok (\<lambda>w. opt_ok search_ok (wt_search w) \<and> opt_ok fetch_ok (wt_fetch w)) (tc_web t)
     \<and> opt_ok (\<lambda>s. opt_ok clean_str (sp_installRoot s) \<and> opt_ok strings_ok (sp_protectedPaths s)) (tc_selfProtection t)"

definition skills_ok :: "skills_config \<Rightarrow> bool" where
  "skills_ok s \<longleftrightarrow> opt_ok strings_ok (sk_allow s) \<and> opt_ok strings_ok (sk_dirs s) \<and> opt_ok (table_ok (\<lambda>_. True)) (sk_entries s)"

definition usage_ok :: "usage_config \<Rightarrow> bool" where
  "usage_ok u \<longleftrightarrow> opt_ok (\<lambda>n. 0 < n) (uc_tokenBudget u) \<and> opt_ok (\<lambda>q. 0 < q) (uc_costBudgetUsd u)
     \<and> (uc_tokenBudget u \<noteq> None \<or> uc_costBudgetUsd u \<noteq> None)"

definition config_ok :: "t560_config \<Rightarrow> bool" where
  "config_ok c \<longleftrightarrow> opt_ok (table_ok profile_ok) (cf_providers c) \<and> opt_ok routing_ok (cf_routing c)
     \<and> opt_ok telegram_ok (cf_channels c) \<and> opt_ok tools_ok (cf_tools c) \<and> opt_ok skills_ok (cf_skills c)
     \<and> opt_ok usage_ok (cf_usage c) \<and> opt_ok (\<lambda>n. 0 < n) (cf_agents c)"

section \<open>Reading back\<close>

text \<open>A member of an object after it was written: gone when undefined.\<close>

definition written :: "jsv \<Rightarrow> jsv" where
  "written v = (if v = JUndef then JUndef else json_clean v)"

lemma map_of_written_None:
  "k \<notin> fst ` set fs \<Longrightarrow> map_of (map (\<lambda>(k, v). (k, json_clean v)) (filter (\<lambda>(k, v). v \<noteq> JUndef) fs)) k = None"
  by (induction fs) auto

lemma jget_clean:
  "distinct (map fst fs) \<Longrightarrow> jget (json_clean (JObj fs)) k = written (jget (JObj fs) k)"
proof (induction fs)
  case (Cons f fs)
  have "map_of fs k = None" if "k = fst f" using Cons.prems that by (simp add: map_of_eq_None_iff)
  moreover have "map_of (map (\<lambda>(k, v). (k, json_clean v)) (filter (\<lambda>(k, v). v \<noteq> JUndef) fs)) k = None" if "k = fst f"
    using Cons.prems that by (intro map_of_written_None) simp
  ultimately show ?case using Cons by (cases f) (auto simp: written_def split: if_splits)
qed (simp add: written_def)

lemma written_simps [simp]:
  "written JUndef = JUndef" "written (JStr s) = JStr s" "written (JBool b) = JBool b"
  "written (JObj fs) = json_clean (JObj fs)" "written (JArr xs) = JArr (map json_clean xs)"
  "written (JNum (Fin q)) = JNum (Fin q)"
  by (simp_all add: written_def)

lemma is_object_clean [simp]: "is_object (json_clean (JObj fs))" "\<not> is_array (json_clean (JObj fs))"
  by simp_all

lemma written_JObj:
  assumes "list_all (\<lambda>(k, v). v \<noteq> JUndef) fs"
  shows "written (JObj fs) = JObj (map (\<lambda>(k, v). (k, written v)) fs)"
proof -
  have "filter (\<lambda>(k, v). v \<noteq> JUndef) fs = fs" using assms by (auto simp: filter_id_conv list_all_iff)
  moreover have "map (\<lambda>(k, v). (k, json_clean v)) fs = map (\<lambda>(k, v). (k, written v)) fs"
    using assms by (auto simp: written_def list_all_iff)
  ultimately show ?thesis by simp
qed

text \<open>
  The two ways a configuration reaches \<open>normalizeConfig\<close>: as the object itself, when it is written, and
  through the file, when it is read. What reading back needs of either is stated once.
\<close>

locale json_carrier =
  fixes w :: "jsv \<Rightarrow> jsv"
  assumes scalars [simp]: "w JUndef = JUndef" "w (JStr s) = JStr s" "w (JBool b) = JBool b" "w (JNum (Fin q)) = JNum (Fin q)"
    and arrays [simp]: "w (JArr (map JStr xs)) = JArr (map JStr xs)" "w (JArr (map int_json ns)) = JArr (map int_json ns)"
    and member: "distinct (map fst fs) \<Longrightarrow> jget (w (JObj fs)) k = w (jget (JObj fs) k)"
    and object [simp]: "is_object (w (JObj fs))" "\<not> is_array (w (JObj fs))"
    and defined: "list_all (\<lambda>(k, v). v \<noteq> JUndef) fs \<Longrightarrow> w (JObj fs) = JObj (map (\<lambda>(k, v). (k, w v)) fs)"
    and clean: "json_clean v = v \<Longrightarrow> w v = v"
begin

lemma table: "(\<And>x. f x \<noteq> JUndef) \<Longrightarrow> w (table_json f m) = JObj (map (\<lambda>(k, x). (k, w (f x))) m)"
  unfolding table_json_def by (subst defined) (auto simp: list_all_iff)

lemma w_opt: "w (opt_json f v) = (case v of None \<Rightarrow> JUndef | Some x \<Rightarrow> w (f x))"
  by (simp add: opt_json_def split: option.split)

text \<open>The scalar fields.\<close>

lemma field_back [simp]:
  "string_field (w (opt_json JStr s)) = s"
  "bool_field (w (opt_json JBool b)) = b"
  "opt_ok clean_str s \<Longrightarrow> trimmed_field (w (opt_json JStr s)) = s"
  "opt_ok (\<lambda>n. lo \<le> n) n \<Longrightarrow> floor_field lo (w (opt_json int_json n)) = n"
  by (auto simp: w_opt opt_ok_def clean_str_def int_json_def split: option.splits)

lemma number_back [simp]: "opt_ok is_finite x \<Longrightarrow> number_field (w (opt_json JNum x)) = x"
  by (auto simp: opt_json_def opt_ok_def split: option.splits elim: is_finite.elims)

lemma texts_back: "list_all clean_str xs \<Longrightarrow> trimmed_texts (map JStr xs) = xs"
  by (induction xs) (auto simp: trimmed_texts_def clean_str_def)

lemma strings_back [simp]:
  "opt_ok strings_ok xs \<Longrightarrow> normalizeStringList (w (opt_json strings_json xs)) = xs"
  by (auto simp: w_opt opt_ok_def strings_ok_def strings_json_def normalizeStringList_def some_list_def comp_def
      texts_back split: option.splits)

text \<open>A section comes back when its contents do.\<close>

lemma section_back:
  assumes "rd JUndef = None" "\<And>x. P x \<Longrightarrow> rd (w (f x)) = Some x" "opt_ok P v"
  shows "rd (w (opt_json f v)) = v"
  using assms by (cases v) (auto simp: opt_ok_def opt_json_def)

lemma any_section_back:
  assumes "rd JUndef = None" "\<And>x. rd (w (f x)) = Some x"
  shows "rd (w (opt_json f v)) = v"
  using assms by (cases v) (auto simp: opt_json_def)

lemma policy_back:
  assumes "policy_ok p"
  shows "normalizeToolPolicy (w (policy_json p)) = Some p"
proof -
  have "opt_ok strings_ok (allow p)" "opt_ok strings_ok (deny p)" "allow p \<noteq> None \<or> deny p \<noteq> None"
    using assms by (auto simp: policy_ok_def)
  then show ?thesis by (simp add: policy_json_def normalizeToolPolicy_def member Let_def)
qed

lemma target_back:
  assumes "target_ok t"
  shows "parseSlot (w (target_json t)) = Some t"
proof -
  obtain p m where "rt_provider t = Some p" "rt_model t = Some m" "trim p = p" "trim m = m"
    "hasRealValue (Some p)" "hasRealValue (Some m)"
    using assms by (auto simp: target_ok_def split: option.splits)
  moreover from this have "t = \<lparr>rt_provider = Some p, rt_model = Some m\<rparr>" by simp
  ultimately show ?thesis by (simp add: target_json_def parseSlot_def member opt_json_def Let_def)
qed

lemma routing_back:
  assumes "routing_ok r"
  shows "normalizeRouting (w (routing_json r)) = Some r"
proof -
  have slot: "parseSlot (w (opt_json target_json t)) = t" if "opt_ok target_ok t" for t
    by (rule section_back [OF _ target_back that]) (simp add: parseSlot_def)
  show ?thesis
    using assms unfolding routing_ok_def
    by (simp add: routing_json_def normalizeRouting_def member slot Let_def)
qed

lemma models_back: "normalizeModels (w (models_json m)) = Some m"
  by (simp add: models_json_def normalizeModels_def member)

lemma choice_back:
  assumes "list_all (\<lambda>p. p \<noteq> [] \<and> to_lower (trim p) = p) options" "opt_ok (\<lambda>p. p \<in> set options) v"
  shows "choice_field options (w (opt_json JStr v)) = v"
  using assms by (cases v) (auto simp: choice_field_def opt_ok_def opt_json_def to_lower_def list_all_iff)

lemma provider_choice: "list_all (\<lambda>p. p \<noteq> [] \<and> to_lower (trim p) = p) [''duckduckgo'', ''brave'']"
  by code_simp

lemma profile_choice: "list_all (\<lambda>p. p \<noteq> [] \<and> to_lower (trim p) = p) TOOL_PROFILE_IDS"
  by code_simp

lemma search_back:
  assumes "search_ok s"
  shows "normalizeSearch (w (search_json s)) = Some s"
  using assms choice_back [OF provider_choice, of "ws_provider s"]
  by (simp add: search_ok_def search_json_def normalizeSearch_def member)

lemma fetch_back: "fetch_ok f \<Longrightarrow> normalizeFetch (w (fetch_json f)) = Some f"
  by (simp add: fetch_ok_def fetch_json_def normalizeFetch_def member)

lemma web_back:
  assumes "opt_ok search_ok (wt_search x)" "opt_ok fetch_ok (wt_fetch x)"
  shows "normalizeWeb (w (web_json x)) = Some x"
proof -
  have "normalizeSearch (w (opt_json search_json (wt_search x))) = wt_search x"
    by (rule section_back [OF _ search_back assms(1)]) (simp add: normalizeSearch_def)
  moreover have "normalizeFetch (w (opt_json fetch_json (wt_fetch x))) = wt_fetch x"
    by (rule section_back [OF _ fetch_back assms(2)]) (simp add: normalizeFetch_def)
  ultimately show ?thesis by (simp add: web_json_def normalizeWeb_def member)
qed

lemma exec_back: "opt_ok is_finite (xc_timeoutSec x) \<Longrightarrow> normalizeExec (w (exec_json x)) = Some x"
  by (simp add: exec_json_def normalizeExec_def member)

lemma protection_back:
  "opt_ok clean_str (sp_installRoot s) \<and> opt_ok strings_ok (sp_protectedPaths s) \<Longrightarrow>
   normalizeProtection (w (protection_json s)) = Some s"
  by (simp add: protection_json_def normalizeProtection_def member)

text \<open>Tables: each entry comes back under its key.\<close>

lemma entries_back:
  assumes "\<And>k x. P x \<Longrightarrow> rd k (g x) = Some x" "list_all (\<lambda>(k, x). P x) m"
  shows "keep_entries rd (JObj (map (\<lambda>(k, x). (k, g x)) m)) = m"
  using assms(2) by (induction m) (auto simp: keep_entries_def List.map_filter_simps assms(1))

lemma table_back:
  assumes "\<And>x. f x \<noteq> JUndef" "\<And>k x. P x \<Longrightarrow> rd k (w (f x)) = Some x" "table_ok P m"
  shows "some_list (keep_entries rd (w (table_json f m))) = Some m" "is_object (w (table_json f m))"
  using entries_back [of P rd "\<lambda>x. w (f x)" m] assms
  by (simp_all add: table table_ok_def some_list_def)

lemma byProvider_back: "table_ok policy_ok m \<Longrightarrow> normalizeByProvider (w (table_json policy_json m)) = Some m"
  using table_back [of policy_json policy_ok "\<lambda>k. normalizeToolPolicy" m] policy_back
  by (simp add: normalizeByProvider_def policy_json_def)

lemma tools_back:
  assumes "tools_ok t"
  shows "normalizeTools (w (tools_json t)) = Some t"
proof -
  have profile: "choice_field TOOL_PROFILE_IDS (w (opt_json JStr (tc_profile t))) = tc_profile t"
    by (rule choice_back [OF profile_choice]) (use assms in \<open>simp add: tools_ok_def\<close>)
  have prov: "normalizeByProvider (w (opt_json (table_json policy_json) (tc_byProvider t))) = tc_byProvider t"
    by (rule section_back [where P = "table_ok policy_ok"]) (use assms byProvider_back in \<open>simp_all add: tools_ok_def normalizeByProvider_def\<close>)
  have runtime: "normalizeToolPolicy (w (opt_json policy_json (tc_runtime t))) = tc_runtime t"
    by (rule section_back [where P = "policy_ok"]) (use assms policy_back in \<open>simp_all add: tools_ok_def normalizeToolPolicy_def\<close>)
  have exec: "normalizeExec (w (opt_json exec_json (tc_exec t))) = tc_exec t"
    by (rule section_back [where P = "\<lambda>x. opt_ok is_finite (xc_timeoutSec x)"]) (use assms exec_back in \<open>simp_all add: tools_ok_def normalizeExec_def\<close>)
  have web: "normalizeWeb (w (opt_json web_json (tc_web t))) = tc_web t"
    by (rule section_back [where P = "\<lambda>w. opt_ok search_ok (wt_search w) \<and> opt_ok fetch_ok (wt_fetch w)"]) (use assms web_back in \<open>simp_all add: tools_ok_def normalizeWeb_def\<close>)
  have prot: "normalizeProtection (w (opt_json protection_json (tc_selfProtection t))) = tc_selfProtection t"
    by (rule section_back [where P = "\<lambda>s. opt_ok clean_str (sp_installRoot s) \<and> opt_ok strings_ok (sp_protectedPaths s)"]) (use assms protection_back in \<open>simp_all add: tools_ok_def normalizeProtection_def\<close>)
  have fs: "normalizeFs (w (opt_json fs_json (tc_fs t))) = tc_fs t"
    by (rule any_section_back) (simp_all add: normalizeFs_def fs_json_def member)
  have strs: "opt_ok strings_ok (tc_allow t)" "opt_ok strings_ok (tc_alsoAllow t)" "opt_ok strings_ok (tc_deny t)"
    using assms by (simp_all add: tools_ok_def)
  note parts = profile prov runtime exec web prot fs strs
  show ?thesis
    unfolding tools_json_def normalizeTools_def by (simp add: member parts)
qed

lemma skills_back:
  assumes "skills_ok s"
  shows "normalizeSkills (w (skills_json s)) = Some s"
proof -
  let ?f = "\<lambda>e. JObj [(''enabled'', opt_json JBool e)]"
  have entries: "normalizeSkillEntries (w (table_json ?f m)) = Some m" if "table_ok (\<lambda>_. True) m" for m
    using table_back [of ?f "\<lambda>_. True" "\<lambda>k e. if is_object e then Some (bool_field (jget e ''enabled'')) else None" m] that
    by (simp add: normalizeSkillEntries_def member)
  have "normalizeSkillEntries (w (opt_json (table_json ?f) (sk_entries s))) = sk_entries s"
    by (rule section_back [where P = "table_ok (\<lambda>_. True)"])
      (use assms entries in \<open>simp_all add: skills_ok_def normalizeSkillEntries_def\<close>)
  then show ?thesis
    using assms by (simp add: skills_ok_def skills_json_def normalizeSkills_def member)
qed

lemma usage_back:
  assumes "usage_ok u"
  shows "normalizeUsage (w (usage_json u)) = Some u"
proof -
  have "map_option floor (positive_number (to_num (w (opt_json int_json (uc_tokenBudget u))))) = uc_tokenBudget u"
    "positive_number (to_num (w (opt_json (\<lambda>q. JNum (Fin q)) (uc_costBudgetUsd u)))) = uc_costBudgetUsd u"
    "uc_tokenBudget u \<noteq> Some 0"
    using assms by (auto simp: usage_ok_def opt_ok_def opt_json_def int_json_def positive_number_def split: option.splits)
  then show ?thesis
    using assms by (simp add: usage_ok_def usage_json_def normalizeUsage_def member Let_def)
qed

lemma agents_back: "0 < n \<Longrightarrow> normalizeAgents (w (agents_json n)) = Some n"
  by (simp add: agents_json_def normalizeAgents_def member int_json_def positive_number_def)

lemma dm_back: "parseTelegramDmPolicy (JStr (dm_text p)) = p"
proof (cases p)
  case DmPairing
  show ?thesis unfolding DmPairing by code_simp
next
  case DmAllowlist
  show ?thesis unfolding DmAllowlist by code_simp
next
  case DmOpen
  show ?thesis unfolding DmOpen by code_simp
next
  case DmDisabled
  show ?thesis unfolding DmDisabled by code_simp
qed

lemma senders_back:
  assumes "xs \<noteq> [] \<and> list_all (\<lambda>s. s \<noteq> [] \<and> strip_channel s = s) xs"
  shows "allowFromList (w (strings_json xs)) = Some xs"
proof -
  have "map strip_channel xs = xs" "filter (\<lambda>s. s \<noteq> []) xs = xs"
    using assms by (auto simp: list_all_iff map_idI filter_id_conv)
  with assms show ?thesis by (simp add: allowFromList_def strings_json_def some_list_def comp_def)
qed

lemma ids_back:
  assumes "ns \<noteq> []"
  shows "chatIdList (w (ints_json ns)) = Some ns"
proof -
  have "List.map_filter (\<lambda>v. as_integer (to_num v)) (map int_json ns) = ns"
    by (induction ns) (simp_all add: List.map_filter_simps int_json_def)
  with assms show ?thesis by (simp add: chatIdList_def ints_json_def some_list_def)
qed

lemma channels_back:
  assumes "telegram_ok t"
  shows "normalizeChannels (w (channels_json t)) = Some t"
proof -
  have "allowFromList (w (opt_json strings_json (tg_allowFrom t))) = tg_allowFrom t"
    by (rule section_back [where P = "\<lambda>xs. xs \<noteq> [] \<and> list_all (\<lambda>s. s \<noteq> [] \<and> strip_channel s = s) xs"])
      (use assms senders_back in \<open>simp_all add: telegram_ok_def allowFromList_def\<close>)
  moreover have "chatIdList (w (opt_json ints_json (tg_allowedChatIds t))) = tg_allowedChatIds t"
    by (rule section_back [where P = "\<lambda>ns. ns \<noteq> []"])
      (use assms ids_back in \<open>simp_all add: telegram_ok_def chatIdList_def\<close>)
  moreover obtain p where "tg_dmPolicy t = Some p" using assms by (auto simp: telegram_ok_def)
  ultimately show ?thesis
    unfolding channels_json_def normalizeChannels_def Let_def
    by (simp add: member opt_json_def [of "\<lambda>p. JStr (dm_text p)"] dm_back)
qed

lemma auth_mode_back: "parseAuthMode (JStr (provider_auth_text m)) = m"
proof (cases m)
  case ApiKey
  show ?thesis unfolding ApiKey by code_simp
next
  case OAuth
  show ?thesis unfolding OAuth by code_simp
next
  case TokenAuth
  show ?thesis unfolding TokenAuth by code_simp
qed

lemma headers_back:
  assumes "hs \<noteq> [] \<and> list_all (\<lambda>(k, s). trim k \<noteq> [] \<and> trim s \<noteq> []) hs"
  shows "normalizeHeaders (w (table_json JStr hs)) = Some hs"
proof -
  have "filter (\<lambda>(k, s). trim k \<noteq> [] \<and> trim s \<noteq> []) hs = hs"
    using assms by (auto simp: filter_id_conv list_all_iff)
  with assms show ?thesis
    by (simp add: normalizeHeaders_def table some_list_def comp_def case_prod_unfold)
qed

lemma profile_back:
  assumes "profile_ok p"
  shows "normalizeProfile k (w (profile_json p)) = Some p"
proof -
  obtain b where b: "pp_enabled p = Some b" using assms by (auto simp: profile_ok_def)
  have name: "trimmed_field (JStr (pp_provider p)) = Some (pp_provider p)"
    using assms by (simp add: profile_ok_def clean_str_def)
  have headers: "normalizeHeaders (w (opt_json (table_json JStr) (pp_headers p))) = pp_headers p"
    by (rule section_back [where P = "\<lambda>hs. hs \<noteq> [] \<and> list_all (\<lambda>(k, s). trim k \<noteq> [] \<and> trim s \<noteq> []) hs"])
      (use assms headers_back in \<open>simp_all add: profile_ok_def normalizeHeaders_def\<close>)
  have models: "modelList (w (opt_json strings_json (pp_models p))) = pp_models p"
    by (rule section_back [where P = "list_all clean_str"])
      (use assms in \<open>simp_all add: profile_ok_def modelList_def strings_json_def texts_back comp_def\<close>)
  have compat: "object_field (w (opt_json id (pp_compat p))) = pp_compat p"
    by (rule section_back [where P = "\<lambda>v. is_object v \<and> json_clean v = v"])
      (use assms in \<open>auto simp: profile_ok_def clean\<close>)
  have urls: "opt_ok clean_str (pp_baseUrl p)" "opt_ok clean_str (pp_api p)" using assms by (simp_all add: profile_ok_def)
  show ?thesis
    unfolding profile_json_def normalizeProfile_def
    by (simp add: member headers models compat name auth_mode_back b urls opt_json_def [of JBool]
        del: trimmed_field.simps object_field.simps)
qed

lemma providers_back: "table_ok profile_ok m \<Longrightarrow> normalizeProviders (w (table_json profile_json m)) = Some m"
  using table_back [of profile_json profile_ok normalizeProfile m] profile_back
  by (simp add: normalizeProviders_def profile_json_def)

lemma normalizeConfig_back:
  assumes "config_ok c"
  shows "normalizeConfig (w (config_json c)) = c"
proof -
  have "normalizeProviders (w (opt_json (table_json profile_json) (cf_providers c))) = cf_providers c"
    by (rule section_back [where P = "table_ok profile_ok"])
      (use assms providers_back in \<open>simp_all add: config_ok_def normalizeProviders_def\<close>)
  moreover have "normalizeRouting (w (opt_json routing_json (cf_routing c))) = cf_routing c"
    by (rule section_back [where P = routing_ok]) (use assms routing_back in \<open>simp_all add: config_ok_def normalizeRouting_def\<close>)
  moreover have "normalizeChannels (w (opt_json channels_json (cf_channels c))) = cf_channels c"
    by (rule section_back [where P = telegram_ok]) (use assms channels_back in \<open>simp_all add: config_ok_def normalizeChannels_def\<close>)
  moreover have "normalizeTools (w (opt_json tools_json (cf_tools c))) = cf_tools c"
    by (rule section_back [where P = tools_ok]) (use assms tools_back in \<open>simp_all add: config_ok_def normalizeTools_def\<close>)
  moreover have "normalizeSkills (w (opt_json skills_json (cf_skills c))) = cf_skills c"
    by (rule section_back [where P = skills_ok]) (use assms skills_back in \<open>simp_all add: config_ok_def normalizeSkills_def\<close>)
  moreover have "normalizeUsage (w (opt_json usage_json (cf_usage c))) = cf_usage c"
    by (rule section_back [where P = usage_ok]) (use assms usage_back in \<open>simp_all add: config_ok_def normalizeUsage_def\<close>)
  moreover have "normalizeAgents (w (opt_json agents_json (cf_agents c))) = cf_agents c"
    by (rule section_back [where P = "\<lambda>n. 0 < n"]) (use assms agents_back in \<open>simp_all add: config_ok_def normalizeAgents_def\<close>)
  moreover have "normalizeModels (w (opt_json models_json (cf_models c))) = cf_models c"
    by (rule any_section_back) (simp_all add: models_back, simp add: normalizeModels_def)
  ultimately show ?thesis
    unfolding normalizeConfig_def config_json_def by (simp add: member)
qed

end

interpretation through_file: json_carrier written
proof unfold_locales
  show "written (JArr (map int_json ns)) = JArr (map int_json ns)" for ns by (simp add: int_json_def)
  show "written v = v" if "json_clean v = v" for v using that by (cases v) (auto simp: written_def)
  show "written (JObj fs) = JObj (map (\<lambda>(k, v). (k, written v)) fs)" if "list_all (\<lambda>(k, v). v \<noteq> JUndef) fs" for fs
    using that by (rule written_JObj)
  show "jget (written (JObj fs)) k = written (jget (JObj fs) k)" if "distinct (map fst fs)" for fs k
    using jget_clean [OF that] by (simp only: written_simps)
qed simp_all

interpretation in_memory: json_carrier id
  by unfold_locales simp_all

section \<open>Files, routes and onboarding\<close>

lemma config_json_written [simp]: "written (config_json c) = json_clean (config_json c)"
proof -
  have "config_json c \<noteq> JUndef" by (simp add: config_json_def)
  then show ?thesis by (simp add: written_def)
qed

lemma ensureStateDir_keeps: "map_of files path \<noteq> None \<Longrightarrow> map_of (ensureStateDir dir files) path = map_of files path"
  by (auto simp: ensureStateDir_def write_missing_def store_simps)

lemma ensureStateDir_has:
  "map_of (ensureStateDir dir files) (resolveSoulPath dir) \<noteq> None"
  "map_of (ensureStateDir dir files) (resolveUsersPath dir) \<noteq> None"
  by (auto simp: ensureStateDir_def write_missing_def store_simps)

lemma ensureStateDir_again:
  "map_of files (resolveSoulPath dir) \<noteq> None \<Longrightarrow> map_of files (resolveUsersPath dir) \<noteq> None \<Longrightarrow> ensureStateDir dir files = files"
  by (auto simp: ensureStateDir_def write_missing_def)

lemma ensureStateDir_idem [simp]: "ensureStateDir dir (ensureStateDir dir files) = ensureStateDir dir files"
  by (simp add: ensureStateDir_again ensureStateDir_has)

lemma hasRealValue_trim [simp]: "hasRealValue (map_option trim v) = hasRealValue v"
  by (simp add: hasRealValue_def split: option.split)

lemma hasRealValue_trim_Some [simp]: "hasRealValue (Some (trim s)) = hasRealValue (Some s)"
  using hasRealValue_trim [of "Some s"] by simp

lemma hasRealValue_Some: "hasRealValue v \<Longrightarrow> \<exists>s. v = Some s \<and> trim s \<noteq> []"
  by (auto simp: hasRealValue_def Let_def split: option.splits)

lemma target_okE:
  assumes "target_ok t"
  obtains p m where "t = \<lparr>rt_provider = Some p, rt_model = Some m\<rparr>" "trim p = p" "p \<noteq> []" "trim m = m" "m \<noteq> []"
    "hasRealValue (Some p)" "hasRealValue (Some m)"
proof -
  obtain p m where "rt_provider t = Some p" "rt_model t = Some m" "trim p = p" "trim m = m"
    "hasRealValue (Some p)" "hasRealValue (Some m)"
    using assms by (auto simp: target_ok_def split: option.splits)
  moreover from this have "p \<noteq> []" "m \<noteq> []" using hasRealValue_Some by fastforce+
  ultimately show thesis by (intro that [of p m]) auto
qed

lemma full_target_ok: "target_ok t \<Longrightarrow> full_target (Some t) = Some t"
  by (elim target_okE) simp

lemma parseSlot_ok: "opt_ok target_ok (parseSlot v)"
  by (simp add: parseSlot_def opt_ok_def target_ok_def Let_def)

lemma parseModelRef_ok: "opt_ok target_ok (parseModelRef v)"
  by (simp add: parseModelRef_def opt_ok_def target_ok_def Let_def)

lemma opt_full: "opt_ok target_ok t \<Longrightarrow> full_target t = t"
  using full_target_ok by (cases t) (auto simp: opt_ok_def simp del: full_target.simps(1))

lemma preset_ok: "opt_ok target_ok (resolveRouteFromModelPreset config slot)"
proof -
  let ?preset = "Option.bind (cf_models config) (preset_of slot)"
  have "opt_ok target_ok (Some \<lparr>rt_provider = map_option trim v, rt_model = map_option trim u\<rparr>)"
    if real: "hasRealValue v" "hasRealValue u" for v u
  proof -
    obtain x y where "v = Some x" "u = Some y" using hasRealValue_Some real by blast
    with real show ?thesis by (simp add: opt_ok_def target_ok_def)
  qed
  then show ?thesis
    using parseModelRef_ok [of ?preset]
    by (auto simp: resolveRouteFromModelPreset_def Let_def opt_full opt_ok_def [of target_ok None] split: option.split)
qed

lemma normalizeRouting_ok: "opt_ok target_ok (Option.bind (normalizeRouting raw) (route_of slot))"
  using parseSlot_ok by (cases slot) (auto simp: normalizeRouting_def Let_def opt_ok_def [of target_ok None])

text \<open>A route of a configuration that was read names a real provider and a real model.\<close>

lemma route_ok: "opt_ok target_ok (resolveRoutingTarget (normalizeConfig raw) slot)"
proof -
  let ?c = "normalizeConfig raw"
  have r: "opt_ok target_ok (Option.bind (cf_routing ?c) (route_of s))" for s
    using normalizeRouting_ok by (simp add: normalizeConfig_def empty_config_def opt_ok_def)
  have d: "route_of Default = rc_default" by (rule ext) simp
  have "full_target (Option.bind (cf_routing ?c) rc_default) = Option.bind (cf_routing ?c) rc_default"
    using opt_full [OF r [of Default]] by (simp only: d)
  then show ?thesis
    unfolding resolveRoutingTarget_def opt_full [OF r]
    using r [of slot] r [of Default] preset_ok [of ?c slot] preset_ok [of ?c Default]
    by (simp only: d) (auto split: option.split)
qed

lemma routed_in:
  assumes "resolveRoutingTarget config slot = Some \<lparr>rt_provider = Some p, rt_model = m\<rparr>" "trim p = p" "p \<noteq> []"
  shows "p \<in> set (routedProviders config)"
  using assms by (cases slot) (simp_all add: routedProviders_def)

lemma routed_missing_Nil:
  "routed_missing providers p = [] \<Longrightarrow>
   \<exists>profile. map_of providers p = Some profile
     \<and> (hasProviderCredential (Some profile) \<or> providerCanRunWithoutCredential p (Some profile))"
  by (auto simp: routed_missing_def split: option.splits if_splits)

lemma protectionMissing_Nil:
  assumes "protectionMissing env fileExists selfProtection = []"
  shows "\<exists>sp root. selfProtection = Some sp \<and> sp_enabled sp = Some True
    \<and> resolveSelfProtectionInstallRoot env (sp_installRoot sp) = Some root \<and> fileExists root
    \<and> (\<exists>ps. sp_protectedPaths sp = Some ps \<and> list_ex (\<lambda>p. trim p \<noteq> []) ps)"
proof (cases selfProtection)
  case None
  then show ?thesis using assms by (simp add: protectionMissing_def)
next
  case (Some sp)
  then show ?thesis
    using assms by (cases "sp_protectedPaths sp")
      (auto simp: protectionMissing_def filter_empty_conv list_ex_iff split: option.splits if_splits)
qed

section \<open>Properties\<close>

text \<open>
  C15. A well-formed configuration survives the file: what is written is read back unchanged,
  section by section, whatever was in the state directory before, and reading it changes no
  file.
\<close>

theorem config_write_read:
  assumes "config_ok config"
  shows "readConfig dir (writeConfig dir config files) = (config, writeConfig dir config files)"
proof -
  let ?files = "writeConfig dir config files"
  have "normalizeConfig (config_json config) = config"
    using in_memory.normalizeConfig_back [OF assms] by simp
  then have at: "map_of ?files (resolveConfigPath dir) = Some (JsonDoc (json_clean (config_json config)))"
    by (simp add: writeConfig_def store_simps)
  have "ensureStateDir dir ?files = ?files"
    by (rule ensureStateDir_again) (use ensureStateDir_has [of dir files] in \<open>auto simp: writeConfig_def store_simps\<close>)
  moreover have "normalizeConfig (json_clean (config_json config)) = config"
    using through_file.normalizeConfig_back [OF assms] by simp
  ultimately show ?thesis using at by (simp add: readConfig_def readJsonIfExists_def)
qed

text \<open>The facts that onboarding stands for.\<close>

lemma onboarded_facts:
  assumes "readOnboardingStatus env fileExists dir files = (status, files1)" and "os_onboarded status"
  shows "(\<exists>p m profile. resolveRoutingTarget (os_config status) slot = Some \<lparr>rt_provider = Some p, rt_model = Some m\<rparr>
      \<and> hasRealValue (Some p) \<and> hasRealValue (Some m)
      \<and> Option.bind (cf_providers (os_config status)) (\<lambda>ps. map_of ps p) = Some profile
      \<and> (hasProviderCredential (Some profile) \<or> providerCanRunWithoutCredential p (Some profile)))
    \<and> (\<exists>ps. cf_providers (os_config status) = Some ps \<and> list_ex (\<lambda>(k, p). hasProviderCredential (Some p)) ps)
    \<and> (\<exists>sp root. Option.bind (cf_tools (os_config status)) tc_selfProtection = Some sp \<and> sp_enabled sp = Some True
        \<and> resolveSelfProtectionInstallRoot env (sp_installRoot sp) = Some root \<and> fileExists root
        \<and> (\<exists>ps. sp_protectedPaths sp = Some ps \<and> list_ex (\<lambda>p. trim p \<noteq> []) ps))
    \<and> list_all (\<lambda>path. map_of files1 path \<noteq> None) [resolveSoulPath dir, resolveUsersPath dir, resolveLegacyUserPath dir]"
proof -
  let ?c = "os_config status" and ?ps = "case cf_providers (os_config status) of Some ps \<Rightarrow> ps | None \<Rightarrow> []"
  obtain raw where c: "?c = normalizeConfig raw"
    using assms(1) by (auto simp: readOnboardingStatus_def readConfig_def Let_def)
  have missing: "os_missing status =
      providersMissing ?ps @ slot_missing ?c Default ''routing.default'' @ slot_missing ?c Planning ''routing.planning'' @
      slot_missing ?c Coding ''routing.coding'' @ concat (map (routed_missing ?ps) (routedProviders ?c)) @
      protectionMissing env fileExists (Option.bind (cf_tools ?c) tc_selfProtection) @
      file_missing files1 (resolveSoulPath dir) ''soul.md'' @ file_missing files1 (resolveUsersPath dir) ''users.md'' @
      file_missing files1 (resolveLegacyUserPath dir) ''user.md''"
    and "os_onboarded status = (os_missing status = [])"
    using assms(1) by (auto simp: readOnboardingStatus_def Let_def case_prod_unfold)
  with assms(2) have none: "providersMissing ?ps = []" "slot_missing ?c Default ''routing.default'' = []"
    "slot_missing ?c Planning ''routing.planning'' = []" "slot_missing ?c Coding ''routing.coding'' = []"
    "\<forall>p \<in> set (routedProviders ?c). routed_missing ?ps p = []"
    "protectionMissing env fileExists (Option.bind (cf_tools ?c) tc_selfProtection) = []"
    "file_missing files1 (resolveSoulPath dir) ''soul.md'' = []" "file_missing files1 (resolveUsersPath dir) ''users.md'' = []"
    "file_missing files1 (resolveLegacyUserPath dir) ''user.md'' = []"
    by simp_all
  have "full_target (resolveRoutingTarget ?c slot) \<noteq> None"
    using none(2-4) by (cases slot) (auto simp: slot_missing_def split: if_splits)
  moreover have ok: "opt_ok target_ok (resolveRoutingTarget ?c slot)" unfolding c by (rule route_ok)
  ultimately obtain t where t: "resolveRoutingTarget ?c slot = Some t" "target_ok t"
    by (cases "resolveRoutingTarget ?c slot") (auto simp: opt_ok_def)
  from t(2) obtain p m where pm: "t = \<lparr>rt_provider = Some p, rt_model = Some m\<rparr>" "trim p = p" "p \<noteq> []"
    "hasRealValue (Some p)" "hasRealValue (Some m)" by (rule target_okE)
  then have "p \<in> set (routedProviders ?c)" using routed_in [of ?c slot p] t(1) by simp
  then obtain profile where profile: "map_of ?ps p = Some profile"
    "hasProviderCredential (Some profile) \<or> providerCanRunWithoutCredential p (Some profile)"
    using none(5) routed_missing_Nil by blast
  moreover obtain ps where ps: "cf_providers ?c = Some ps" "list_ex (\<lambda>(k, p). hasProviderCredential (Some p)) ps"
    using none(1) by (cases "cf_providers ?c") (auto simp: providersMissing_def split: if_splits)
  moreover have "list_all (\<lambda>path. map_of files1 path \<noteq> None) [resolveSoulPath dir, resolveUsersPath dir, resolveLegacyUserPath dir]"
    using none(7-9) by (simp add: file_missing_def split: if_splits)
  ultimately show ?thesis
    using t(1) pm protectionMissing_Nil [OF none(6)] by simp
qed

text \<open>
  What onboarded guarantees: every slot routes to a provider and a model, the provider
  has a profile which has a credential or can run without one, some profile has a credential,
  the self-protection is enabled with an install root that exists and at least one protected
  path, and the three profile texts are there.
\<close>

theorem onboarded_sound:
  assumes "readOnboardingStatus env fileExists dir files = (status, files1)" and "os_onboarded status"
  shows "(\<exists>p m profile. resolveRoutingTarget (os_config status) slot = Some \<lparr>rt_provider = Some p, rt_model = Some m\<rparr>
      \<and> hasRealValue (Some p) \<and> hasRealValue (Some m)
      \<and> Option.bind (cf_providers (os_config status)) (\<lambda>ps. map_of ps p) = Some profile
      \<and> (hasProviderCredential (Some profile) \<or> providerCanRunWithoutCredential p (Some profile)))
    \<and> (\<exists>ps. cf_providers (os_config status) = Some ps \<and> list_ex (\<lambda>(k, p). hasProviderCredential (Some p)) ps)
    \<and> (\<exists>sp root. Option.bind (cf_tools (os_config status)) tc_selfProtection = Some sp \<and> sp_enabled sp = Some True
        \<and> resolveSelfProtectionInstallRoot env (sp_installRoot sp) = Some root \<and> fileExists root
        \<and> (\<exists>ps. sp_protectedPaths sp = Some ps \<and> list_ex (\<lambda>p. trim p \<noteq> []) ps))
    \<and> list_all (\<lambda>path. map_of files1 path \<noteq> None) [resolveSoulPath dir, resolveUsersPath dir, resolveLegacyUserPath dir]"
  using assms by (rule onboarded_facts)

text \<open>A configuration with one provider, and a state directory that holds it.\<close>

definition demo_profile :: "string option \<Rightarrow> string option \<Rightarrow> provider_profile" where
  "demo_profile key url = \<lparr>pp_enabled = Some True, pp_provider = ''openai'', pp_authMode = ApiKey, pp_apiKey = key, pp_oauthToken = None,
     pp_token = None, pp_baseUrl = url, pp_api = None, pp_headers = None, pp_compat = None, pp_models = Some [''m1'']\<rparr>"

definition demo_config :: "string \<Rightarrow> provider_profile \<Rightarrow> t560_config" where
  "demo_config name profile = empty_config\<lparr>cf_providers := Some [(name, profile)],
     cf_routing := Some \<lparr>rc_default = Some \<lparr>rt_provider = Some name, rt_model = Some ''m1''\<rparr>, rc_planning = None, rc_coding = None\<rparr>,
     cf_tools := Some \<lparr>tc_unrestricted = None, tc_profile = Some ''coding'', tc_allow = None, tc_alsoAllow = None, tc_deny = Some [''exec''],
       tc_byProvider = None, tc_runtime = None, tc_fs = None, tc_exec = None, tc_web = None,
       tc_selfProtection = Some \<lparr>sp_enabled = Some True, sp_installRoot = Some ''/opt/t560'', sp_protectedPaths = Some [''src'']\<rparr>\<rparr>\<rparr>"

definition demo_state :: "t560_config \<Rightarrow> state_files" where
  "demo_state config = writeConfig ''/s'' config [(''/s/user.md'', TextFile ''me'')]"

theorem config_write_read_witness:
  "readConfig ''/s'' (writeConfig ''/s'' (demo_config ''main'' (demo_profile (Some ''k'') None)) []) =
     (demo_config ''main'' (demo_profile (Some ''k'') None),
      writeConfig ''/s'' (demo_config ''main'' (demo_profile (Some ''k'') None)) [])"
proof (rule config_write_read)
  show "config_ok (demo_config ''main'' (demo_profile (Some ''k'') None))" by code_simp
qed

theorem onboarded_sound_witness:
  "\<exists>p m. resolveRoutingTarget (os_config (fst (readOnboardingStatus demo_penv (\<lambda>_. True) ''/s''
      (demo_state (demo_config ''main'' (demo_profile (Some ''k'') None)))))) Coding = Some \<lparr>rt_provider = Some p, rt_model = Some m\<rparr>"
proof -
  let ?r = "readOnboardingStatus demo_penv (\<lambda>_. True) ''/s'' (demo_state (demo_config ''main'' (demo_profile (Some ''k'') None)))"
  have "os_onboarded (fst ?r)" by code_simp
  moreover have "?r = (fst ?r, snd ?r)" by simp
  ultimately show ?thesis using onboarded_sound [of demo_penv "\<lambda>_. True" "''/s''" _ "fst ?r" "snd ?r" Coding] by blast
qed

text \<open>
  A provider that may run without a credential, a local server, does not make the program
  onboarded as the only provider: the check of the routed provider accepts it, the check of
  all providers asks for a credential.
\<close>

theorem local_provider_not_onboarded:
  "os_missing (fst (readOnboardingStatus demo_penv (\<lambda>_. True) ''/s''
     (demo_state (demo_config ''local-openai'' (demo_profile None (Some ''http://127.0.0.1:8080/v1'')))))) = [''providers.credentials'']
   \<and> providerCanRunWithoutCredential ''local-openai'' (Some (demo_profile None (Some ''http://127.0.0.1:8080/v1'')))"
  by code_simp

text \<open>Two settings that change when the file is read and written once more.\<close>

theorem normalisation_not_stable:
  "normalizeUsage (JObj [(''tokenBudget'', JNum (Fin (1 / 2))), (''costBudgetUsd'', JNum (Fin 1))]) =
     Some \<lparr>uc_tokenBudget = Some 0, uc_costBudgetUsd = Some 1\<rparr>
   \<and> normalizeUsage (usage_json \<lparr>uc_tokenBudget = Some 0, uc_costBudgetUsd = Some 1\<rparr>) =
     Some \<lparr>uc_tokenBudget = None, uc_costBudgetUsd = Some 1\<rparr>
   \<and> allowFromList (JArr [JStr '' tg:42'']) = Some [''tg:42''] \<and> allowFromList (JArr [JStr ''tg:42'']) = Some [''42'']"
  by code_simp

end
