(* ===== verification/Js_Regex.thy ===== *)
theory Js_Regex
  imports Js_Value
begin

text \<open>
  The regular expressions the sources use for \<open>test\<close>: literals, character classes, sequence,
  alternative, option, bounded and unbounded runs of one class, word boundaries and the two
  anchors. A position is the character before it and the text after it. Matching returns every
  position a match can end at, in no particular order, since \<open>test\<close> only asks whether there is one.
  Literals compare without case, as with the flag \<open>i\<close>; classes are predicates.
\<close>

type_synonym pos = "char option \<times> string"

datatype rx =
    Lit string
  | Cls "char \<Rightarrow> bool"
  | Run nat nat "char \<Rightarrow> bool"
  | Many nat "char \<Rightarrow> bool"
  | Bound
  | AtStart
  | AtEnd
  | Opt rx
  | Seq "rx list"
  | Alt "rx list"

definition is_dot :: "char \<Rightarrow> bool" where
  "is_dot c \<longleftrightarrow> c \<noteq> CHR 0x0A \<and> c \<noteq> CHR 0x0D"

fun lit_at :: "string \<Rightarrow> pos \<Rightarrow> pos list" where
  "lit_at [] x = [x]"
| "lit_at (w # ws) (prev, c # s) = (if lower_char c = lower_char w then lit_at ws (Some c, s) else [])"
| "lit_at (w # ws) (prev, []) = []"

text \<open>The ends of runs of at least \<open>lo\<close> and at most \<open>hi\<close> characters of a class.\<close>

fun run_at :: "nat \<Rightarrow> nat \<Rightarrow> (char \<Rightarrow> bool) \<Rightarrow> pos \<Rightarrow> pos list" where
  "run_at lo hi p (prev, []) = (if lo = 0 then [(prev, [])] else [])"
| "run_at lo hi p (prev, c # s) =
     (if lo = 0 then [(prev, c # s)] else []) @
     (if 0 < hi \<and> p c then run_at (lo - 1) (hi - 1) p (Some c, s) else [])"

definition word_here :: "char option \<Rightarrow> bool" where
  "word_here v = (case v of Some c \<Rightarrow> is_word_char c | None \<Rightarrow> False)"

fun at_bound :: "pos \<Rightarrow> bool" where
  "at_bound (prev, s) \<longleftrightarrow> word_here prev \<noteq> word_here (case s of [] \<Rightarrow> None | c # _ \<Rightarrow> Some c)"

fun rmatch :: "rx \<Rightarrow> pos \<Rightarrow> pos list" and rseq :: "rx list \<Rightarrow> pos \<Rightarrow> pos list" and ralt :: "rx list \<Rightarrow> pos \<Rightarrow> pos list" where
  "rmatch (Lit w) x = lit_at w x"
| "rmatch (Cls p) x = run_at 1 1 p x"
| "rmatch (Run lo hi p) x = run_at lo hi p x"
| "rmatch (Many lo p) x = run_at lo (length (snd x)) p x"
| "rmatch Bound x = (if at_bound x then [x] else [])"
| "rmatch AtStart x = (if fst x = None then [x] else [])"
| "rmatch AtEnd x = (if snd x = [] then [x] else [])"
| "rmatch (Opt r) x = rmatch r x @ [x]"
| "rmatch (Seq rs) x = rseq rs x"
| "rmatch (Alt rs) x = ralt rs x"
| "rseq [] x = [x]"
| "rseq (r # rs) x = concat (map (rseq rs) (rmatch r x))"
| "ralt [] x = []"
| "ralt (r # rs) x = rmatch r x @ ralt rs x"

fun rfind :: "rx \<Rightarrow> pos \<Rightarrow> bool" where
  "rfind r (prev, []) = (rmatch r (prev, []) \<noteq> [])"
| "rfind r (prev, c # s) = (rmatch r (prev, c # s) \<noteq> [] \<or> rfind r (Some c, s))"

definition rx_test :: "rx \<Rightarrow> string \<Rightarrow> bool" where
  "rx_test r s = rfind r (None, s)"

text \<open>Words and phrases between word boundaries.\<close>

definition rx_words :: "string list \<Rightarrow> rx" where
  "rx_words ws = Seq [Bound, Alt (map Lit ws), Bound]"

section \<open>Facts\<close>

definition prev_of :: "char option \<Rightarrow> string \<Rightarrow> char option" where
  "prev_of prev u = (if u = [] then prev else Some (last u))"

lemma split_Cons: "(\<exists>u v. c # s = u @ v \<and> P u v) \<longleftrightarrow> P [] (c # s) \<or> (\<exists>u v. s = u @ v \<and> P (c # u) v)"
  by (metis Cons_eq_append_conv append_Cons append_Nil)

lemma rfind_iff: "rfind r (prev, s) \<longleftrightarrow> (\<exists>u v. s = u @ v \<and> rmatch r (prev_of prev u, v) \<noteq> [])"
proof (induction s arbitrary: prev)
  case Nil
  then show ?case by (simp add: prev_of_def)
next
  case (Cons c s)
  have "(\<exists>u v. c # s = u @ v \<and> rmatch r (prev_of prev u, v) \<noteq> []) \<longleftrightarrow>
      rmatch r (prev, c # s) \<noteq> [] \<or> (\<exists>u v. s = u @ v \<and> rmatch r (prev_of prev (c # u), v) \<noteq> [])"
    by (subst split_Cons) (simp add: prev_of_def)
  moreover have "prev_of prev (c # u) = prev_of (Some c) u" for u by (simp add: prev_of_def)
  ultimately show ?case using Cons by simp
qed

lemma rx_test_iff: "rx_test r s \<longleftrightarrow> (\<exists>u v. s = u @ v \<and> rmatch r (prev_of None u, v) \<noteq> [])"
  by (simp add: rx_test_def rfind_iff)

lemma lit_at_same: "(prev_of prev w, v) \<in> set (lit_at w (prev, w @ v))"
  by (induction w arbitrary: prev) (auto simp: prev_of_def split: if_splits)

text \<open>A phrase between word boundaries is found where it stands.\<close>

lemma words_found:
  assumes "w \<in> set ws" "at_bound (prev_of None u, w @ v)" "at_bound (prev_of (prev_of None u) w, v)"
  shows "rx_test (rx_words ws) (u @ w @ v)"
proof -
  have "(prev_of (prev_of None u) w, v) \<in> set (ralt (map Lit ws) (prev_of None u, w @ v))"
    using assms(1) lit_at_same by (induction ws) auto
  then have "rmatch (rx_words ws) (prev_of None u, w @ v) \<noteq> []"
    using assms(2,3) unfolding rx_words_def by (auto simp del: at_bound.simps)
  then show ?thesis unfolding rx_test_iff by blast
qed

end
