(* ===== verification/Checkout_Workflow.thy ===== *)
theory Checkout_Workflow
  imports Js_Regex
begin

text \<open>
  The purchase guard, \<open>src/agents/checkout-workflow.ts\<close>: which browser actions look like a checkout,
  the confirmation a user gives for five minutes, and its cancellation. The map of sessions is
  an association list; the clock is an argument of every operation. The lemmas compare the
  state the guard keeps with the history of the conversation: a risky action goes through
  exactly when the last word of the user about the purchase was a confirmation less than five
  minutes ago.
\<close>

section \<open>State\<close>

record checkout_risk =
  ck_action :: string
  ck_reason :: string
  ck_targetHint :: "string option"

record pending_checkout =
  pc_risk :: checkout_risk
  pc_createdAt :: int

record checkout_state =
  co_pending :: "pending_checkout option"
  co_confirmedUntil :: int

type_synonym checkout_sessions = "(string, checkout_state) omap"

datatype guard_decision = Allowed bool checkout_state | Blocked string checkout_state

definition CHECKOUT_CONFIRM_TTL_MS :: int where
  "CHECKOUT_CONFIRM_TTL_MS = 300000"

definition CHECKOUT_KEYWORDS :: rx where
  "CHECKOUT_KEYWORDS = Seq [Bound, Alt (map Lit [''add to cart'', ''buy now'', ''checkout'', ''place order'', ''submit order'',
     ''confirm order'', ''purchase'', ''pay now'', ''payment''] @ [Seq [Lit ''one'', Run 0 1 (\<lambda>c. c = CHR ''-'' \<or> is_ws c), Lit ''click'']]), Bound]"

definition CHECKOUT_URL_HINT :: rx where
  "CHECKOUT_URL_HINT = Alt
     [Seq [Lit ''amazon.'', Many 1 (\<lambda>c. is_lower c \<or> is_upper c \<or> c = CHR ''.''), Lit ''/'', Alt [Lit ''gp/buy'', Lit ''checkout'', Lit ''cart'']],
      Lit ''/checkout'', Lit ''/cart'', Lit ''/buy-now'', Lit ''/place-order'', Lit ''/payment'']"

definition CHECKOUT_ACTIONS :: "string list" where
  "CHECKOUT_ACTIONS = [''click'', ''submit'', ''act'', ''press'']"

definition near_purchase :: "rx" where
  "near_purchase = Seq [Run 0 20 is_dot, rx_words [''order'', ''purchase'', ''checkout'', ''buy'', ''payment'']]"

definition CONFIRM_REGEX :: rx where
  "CONFIRM_REGEX = Alt
     [Seq [Seq [Bound, Alt [Lit ''confirm'', Seq [Lit ''approve'', Opt (Lit ''d'')], Lit ''yes''], Bound], near_purchase],
      Seq [Bound, Lit ''t560'', Many 1 is_ws, Lit ''confirm'', Many 1 is_ws, Lit ''purchase'', Bound]]"

definition CANCEL_REGEX :: rx where
  "CANCEL_REGEX = Seq [rx_words [''cancel'', ''abort'', ''stop''], near_purchase]"

section \<open>Operations\<close>

definition normalizeCheckoutTool :: "string \<Rightarrow> string" where
  "normalizeCheckoutTool name = replace_ws ''_'' (to_lower (trim name))"

definition getState :: "string \<Rightarrow> checkout_sessions \<Rightarrow> checkout_state \<times> checkout_sessions" where
  "getState sessionId m =
     (case map_of m sessionId of
        Some st \<Rightarrow> (st, m)
      | None \<Rightarrow> let fresh = \<lparr>co_pending = None, co_confirmedUntil = 0\<rparr> in (fresh, AList.update sessionId fresh m))"

definition compact :: "jsv \<Rightarrow> string" where
  "compact v = trim (replace_ws '' '' (str_or_empty v))"

definition hint_fields :: "string list" where
  "hint_fields = [''url'', ''targetUrl'', ''selector'', ''element'', ''linkText'', ''hrefContains'', ''currentUrl'', ''currentPageUrl'',
     ''tabUrl'', ''ref'', ''inputRef'']"

definition request_fields :: "string list" where
  "request_fields = [''kind'', ''selector'', ''element'', ''ref'', ''inputRef'', ''url'', ''targetUrl'', ''currentUrl'', ''currentPageUrl'', ''text'']"

definition collectCheckoutHints :: "jsv \<Rightarrow> string list" where
  "collectCheckoutHints args =
     (let push = (\<lambda>v. let t = compact v in if t \<noteq> [] then [to_lower t] else []);
          request = jget args ''request''
      in concat (map (\<lambda>k. push (jget args k)) hint_fields) @
         (if is_object request \<and> \<not> is_array request then concat (map (\<lambda>k. push (jget request k)) request_fields) else []))"

definition looks_risky :: "string \<Rightarrow> bool" where
  "looks_risky joined \<longleftrightarrow> rx_test CHECKOUT_KEYWORDS joined \<or> rx_test CHECKOUT_URL_HINT joined"

definition detectCheckoutRisk :: "string \<Rightarrow> jsv \<Rightarrow> checkout_risk option" where
  "detectCheckoutRisk toolName args =
     (if normalizeCheckoutTool toolName \<noteq> ''browser'' then None
      else if \<not> is_object args \<or> is_array args then None
      else
        let action = to_lower (compact (jget args ''action''));
            key = to_lower (compact (jget args ''key''));
            hints = collectCheckoutHints args; joined = js_join '' | '' hints;
            request = jget args ''request''; kind = to_lower (compact (jget request ''kind''));
            hint = (case hints of [] \<Rightarrow> None | h # _ \<Rightarrow> Some h)
        in if action \<notin> set CHECKOUT_ACTIONS then None
           else if action = ''press'' \<and> key \<noteq> ''enter'' \<and> key \<noteq> ''return'' then None
           else if joined = [] then None
           else if looks_risky joined
             then Some \<lparr>ck_action = action, ck_reason = ''purchase/checkout trigger detected'', ck_targetHint = hint\<rparr>
           else if action = ''act'' \<and> is_object request \<and> \<not> is_array request
             \<and> (kind = ''click'' \<or> kind = ''submit'') \<and> looks_risky joined
             then Some \<lparr>ck_action = ''act:'' @ kind, ck_reason = ''purchase/checkout trigger detected'', ck_targetHint = hint\<rparr>
           else None)"

definition buildBlockMessage :: "checkout_risk \<Rightarrow> string" where
  "buildBlockMessage risk =
     (let hint = (case ck_targetHint risk of Some h \<Rightarrow> if h \<noteq> [] then '' Target: '' @ h @ ''.'' else [] | None \<Rightarrow> []) in
      js_join [CHR 0x0A]
        [''Checkout protection blocked browser action '' @ [CHR 0x22] @ ck_action risk @ [CHR 0x22] @ '' ('' @ ck_reason risk @ '').'' @ hint,
         ''Reply with '' @ [CHR 0x22] @ ''confirm purchase'' @ [CHR 0x22] @ '' to authorize checkout actions for the next 5 minutes.''])"

text \<open>\<open>if (state.confirmedUntil <= now) state.confirmedUntil = 0\<close>.\<close>

definition expire :: "int \<Rightarrow> checkout_state \<Rightarrow> checkout_state" where
  "expire now st = (if co_confirmedUntil st \<le> now then st\<lparr>co_confirmedUntil := 0\<rparr> else st)"

definition userText :: "string \<Rightarrow> string" where
  "userText userMessage = to_lower (compact (JStr userMessage))"

definition beginCheckoutWorkflowTurn ::
  "int \<Rightarrow> string \<Rightarrow> string \<Rightarrow> checkout_sessions \<Rightarrow> (bool \<times> bool) \<times> checkout_sessions" where
  "beginCheckoutWorkflowTurn now sessionId userMessage m =
     (let (st0, m1) = getState sessionId m; st = expire now st0; msg = userText userMessage;
          put = (\<lambda>s. AList.update sessionId s m1)
      in if msg = [] then ((False, False), put st)
         else if rx_test CANCEL_REGEX msg
           then ((False, True), put (st\<lparr>co_pending := None, co_confirmedUntil := 0\<rparr>))
         else if rx_test CONFIRM_REGEX msg
           then ((True, False), put (st\<lparr>co_confirmedUntil := now + CHECKOUT_CONFIRM_TTL_MS, co_pending := None\<rparr>))
         else ((False, False), put st))"

definition enforceCheckoutWorkflow ::
  "int \<Rightarrow> string \<Rightarrow> string \<Rightarrow> jsv \<Rightarrow> checkout_sessions \<Rightarrow> guard_decision \<times> checkout_sessions" where
  "enforceCheckoutWorkflow now sessionId toolName toolArgs m =
     (let (st0, m1) = getState sessionId m; st = expire now st0; put = (\<lambda>s. AList.update sessionId s m1) in
      case detectCheckoutRisk toolName toolArgs of
        None \<Rightarrow> (Allowed False st, put st)
      | Some risk \<Rightarrow>
          if now < co_confirmedUntil st
          then let st1 = st\<lparr>co_pending := None\<rparr> in (Allowed True st1, put st1)
          else let st1 = st\<lparr>co_pending := Some \<lparr>pc_risk = risk, pc_createdAt = now\<rparr>\<rparr>
               in (Blocked (buildBlockMessage risk) st1, put st1))"

definition describeCheckoutWorkflowState :: "int \<Rightarrow> string \<Rightarrow> checkout_sessions \<Rightarrow> string option" where
  "describeCheckoutWorkflowState now sessionId m =
     (case map_of m sessionId of
        None \<Rightarrow> None
      | Some st \<Rightarrow>
          let remainingMs = max 0 (co_confirmedUntil st - now) in
          if 0 < remainingMs
          then Some (''checkout authorization active for '' @ int_to_string ((remainingMs + 999) div 1000) @ ''s'')
          else map_option (\<lambda>p. ''checkout authorization pending ('' @ ck_action (pc_risk p) @ '')'') (co_pending st))"

section \<open>The guard and the conversation\<close>

datatype checkout_event = UserTurn string string int | ToolCall string string jsv int

fun event_time :: "checkout_event \<Rightarrow> int" where
  "event_time (UserTurn sid msg t) = t"
| "event_time (ToolCall sid tool args t) = t"

fun checkout_step :: "checkout_event \<Rightarrow> checkout_sessions \<Rightarrow> checkout_sessions" where
  "checkout_step (UserTurn sid msg t) m = snd (beginCheckoutWorkflowTurn t sid msg m)"
| "checkout_step (ToolCall sid tool args t) m = snd (enforceCheckoutWorkflow t sid tool args m)"

definition checkout_run :: "checkout_event list \<Rightarrow> checkout_sessions" where
  "checkout_run h = fold checkout_step h []"

text \<open>The specification: the time of the confirmation that stands at the end of a conversation.\<close>

definition cancels :: "string \<Rightarrow> bool" where
  "cancels msg \<longleftrightarrow> userText msg \<noteq> [] \<and> rx_test CANCEL_REGEX (userText msg)"

definition confirms :: "string \<Rightarrow> bool" where
  "confirms msg \<longleftrightarrow> userText msg \<noteq> [] \<and> \<not> rx_test CANCEL_REGEX (userText msg) \<and> rx_test CONFIRM_REGEX (userText msg)"

fun say :: "string \<Rightarrow> checkout_event \<Rightarrow> int option \<Rightarrow> int option" where
  "say sid (UserTurn s msg t) a = (if s \<noteq> sid then a else if cancels msg then None else if confirms msg then Some t else a)"
| "say sid (ToolCall s tool args t) a = a"

definition standing :: "string \<Rightarrow> checkout_event list \<Rightarrow> int option" where
  "standing sid h = fold (say sid) h None"

definition authorised :: "int \<Rightarrow> int option \<Rightarrow> bool" where
  "authorised now a = (case a of Some t \<Rightarrow> now < t + CHECKOUT_CONFIRM_TTL_MS | None \<Rightarrow> False)"

definition until :: "checkout_sessions \<Rightarrow> string \<Rightarrow> int" where
  "until m sid = (case map_of m sid of Some st \<Rightarrow> co_confirmedUntil st | None \<Rightarrow> 0)"

lemma getState_pair:
  "\<exists>st m1. getState sid m = (st, m1) \<and> co_confirmedUntil st = until m sid
    \<and> (\<forall>s x. map_of (AList.update sid x m1) s = (if s = sid then Some x else map_of m s))"
  by (cases "map_of m sid") (auto simp: getState_def until_def Let_def store_simps)

lemma until_turn:
  "until (snd (beginCheckoutWorkflowTurn now sid msg m)) s =
     (if s \<noteq> sid then until m s
      else if cancels msg then 0
      else if confirms msg then now + CHECKOUT_CONFIRM_TTL_MS
      else if until m sid \<le> now then 0 else until m sid)"
proof -
  obtain st m1 where g: "getState sid m = (st, m1)" "co_confirmedUntil st = until m sid"
    "\<And>s x. map_of (AList.update sid x m1) s = (if s = sid then Some x else map_of m s)" using getState_pair [of sid m] by blast
  show ?thesis
    unfolding beginCheckoutWorkflowTurn_def g(1) cancels_def confirms_def
    by (simp add: until_def [of "AList.update _ _ _"] until_def [of m s] g(2,3) expire_def Let_def)
qed

lemma until_call:
  "until (snd (enforceCheckoutWorkflow now sid tool args m)) s =
     (if s \<noteq> sid then until m s else if until m sid \<le> now then 0 else until m sid)"
proof -
  obtain st m1 where g: "getState sid m = (st, m1)" "co_confirmedUntil st = until m sid"
    "\<And>s x. map_of (AList.update sid x m1) s = (if s = sid then Some x else map_of m s)" using getState_pair [of sid m] by blast
  show ?thesis
    unfolding enforceCheckoutWorkflow_def g(1)
    by (simp add: until_def [of "AList.update _ _ _"] until_def [of m s] g(2,3) expire_def Let_def split: option.split)
qed

lemma step_authorised:
  assumes "\<And>n. event_time e \<le> n \<Longrightarrow> n < until m sid \<longleftrightarrow> authorised n a" "0 \<le> event_time e" "event_time e \<le> now"
  shows "now < until (checkout_step e m) sid \<longleftrightarrow> authorised now (say sid e a)"
proof (cases e)
  case (UserTurn s msg t)
  have "\<not> authorised now None" by (simp add: authorised_def)
  then show ?thesis
    using assms(1) [of now] assms(2,3) unfolding UserTurn by (auto simp: until_turn authorised_def [of now "Some t"])
next
  case (ToolCall s tool args t)
  then show ?thesis using assms(1) [of now] assms(2,3) by (auto simp: until_call)
qed

lemma run_authorised:
  assumes "sorted (0 # map event_time h @ [now])"
  shows "now < until (checkout_run h) sid \<longleftrightarrow> authorised now (standing sid h)"
  using assms
proof (induction h arbitrary: now rule: rev_induct)
  case Nil
  then show ?case by (simp add: checkout_run_def standing_def until_def authorised_def)
next
  case (snoc e h)
  have t: "0 \<le> event_time e" "event_time e \<le> now" "sorted (0 # map event_time h @ [event_time e])"
    using snoc.prems by (auto simp: sorted_append)
  have "n < until (checkout_run h) sid \<longleftrightarrow> authorised n (standing sid h)" if "event_time e \<le> n" for n
    using t(3) that by (intro snoc.IH) (auto simp: sorted_append intro: order_trans)
  from step_authorised [OF this t(1,2)] show ?case by (simp add: checkout_run_def standing_def)
qed

section \<open>Properties\<close>

text \<open>
  C19. A risky browser action goes through exactly when the user authorised it: for every
  history of turns and tool calls of all sessions, with a clock that does not run backwards,
  the guard allows the action if and only if the last message of this session about the
  purchase was a confirmation, not followed by a cancellation, less than five minutes ago;
  otherwise it answers with the request to confirm.
\<close>

theorem checkout_guard_follows_user:
  assumes "sorted (0 # map event_time h @ [now])" and "detectCheckoutRisk tool args = Some risk"
  shows "case fst (enforceCheckoutWorkflow now sid tool args (checkout_run h)) of
      Allowed confirmed st \<Rightarrow> confirmed \<and> (\<exists>t. standing sid h = Some t \<and> now < t + CHECKOUT_CONFIRM_TTL_MS)
    | Blocked msg st \<Rightarrow> msg = buildBlockMessage risk \<and> (\<forall>t. standing sid h = Some t \<longrightarrow> t + CHECKOUT_CONFIRM_TTL_MS \<le> now)"
proof -
  obtain st m1 where g: "getState sid (checkout_run h) = (st, m1)" "co_confirmedUntil st = until (checkout_run h) sid"
    using getState_pair [of sid "checkout_run h"] by blast
  have now: "0 \<le> now" using assms(1) by (simp add: sorted_append)
  have "now < co_confirmedUntil (expire now st) \<longleftrightarrow> authorised now (standing sid h)"
    using run_authorised [OF assms(1), of sid] g(2) now by (auto simp: expire_def)
  then show ?thesis
    unfolding enforceCheckoutWorkflow_def g(1) assms(2)
    by (cases "standing sid h") (auto simp: authorised_def Let_def)
qed

definition demo_buy :: jsv where
  "demo_buy = JObj [(''action'', JStr ''click''), (''linkText'', JStr ''Buy Now'')]"

theorem checkout_guard_follows_user_witness:
  "case fst (enforceCheckoutWorkflow 400000 ''s'' ''browser'' demo_buy
      (checkout_run [UserTurn ''s'' ''Yes, place the order'' 1000, ToolCall ''s'' ''browser'' demo_buy 2000])) of
     Allowed confirmed st \<Rightarrow> False | Blocked msg st \<Rightarrow> True"
proof -
  let ?h = "[UserTurn ''s'' ''Yes, place the order'' 1000, ToolCall ''s'' ''browser'' demo_buy 2000]"
  have r: "detectCheckoutRisk ''browser'' demo_buy \<noteq> None" by code_simp
  then obtain risk where risk: "detectCheckoutRisk ''browser'' demo_buy = Some risk" by auto
  have "standing ''s'' ?h = Some 1000" by code_simp
  moreover have "sorted (0 # map event_time ?h @ [400000])" by simp
  ultimately show ?thesis
    using checkout_guard_follows_user [OF _ risk, of ?h 400000 "''s''"] by (simp add: CHECKOUT_CONFIRM_TTL_MS_def split: guard_decision.splits)
qed

text \<open>A refusal can count as a confirmation: the pattern does not look for a negation.\<close>

theorem refusal_confirms:
  "confirms ''Do not confirm the order yet'' \<and> confirms ''I never approved that purchase'' \<and> \<not> cancels ''Do not confirm the order yet''"
  by code_simp

text \<open>The second test for nested requests never decides: it repeats the condition of the first.\<close>

lemma risk_action: "detectCheckoutRisk tool args = Some risk \<Longrightarrow> ck_action risk \<in> set CHECKOUT_ACTIONS"
  by (auto simp: detectCheckoutRisk_def Let_def split: if_splits)

end
