(* ===== verification/Telegram_Relay.thy ===== *)
theory Telegram_Relay
  imports Js_Regex "HOL-Library.Sublist"
begin

text \<open>
  Agent events, \<open>src/agents/agent-events.ts\<close>, and their relay to a Telegram chat while a message is
  being answered, \<open>createTelegramProgressRelay\<close> of \<open>src/channels/telegram.ts\<close>. The relay is
  asynchronous: events arrive, timers fire, requests to Telegram complete and suspended calls
  resume in any order the event loop may choose. Its state is a record with the closure's
  variables, the pending timers, the jobs of \<open>sendChain\<close> and the suspended calls of \<open>flush\<close>; one
  macrotask or resumption is one step. The invariant holds for every interleaving: at most eight
  updates of at most three lines, the lines in the order the assistant produced them. Without
  new events every run ends. At rest, the next text is sent just when the handle of the timer is clear. Two runs show where lines are
  lost or arrive late.
\<close>

section \<open>Events\<close>

datatype tool_phase = PhaseStart | PhaseUpdate | PhaseEnd | PhaseError

record tool_data =
  td_phase :: tool_phase
  td_toolCallId :: string
  td_name :: string
  td_args :: jsv
  td_partialResult :: jsv
  td_result :: jsv
  td_error :: "string option"

text \<open>The data of a status event is not read by any modelled listener; its phase is kept.\<close>

datatype event_stream = ToolStream tool_data | AssistantStream string string | StatusStream string

record agent_event =
  ev_sessionId :: string
  ev_channel :: string
  ev_timestamp :: int
  ev_stream :: event_stream

text \<open>The emitter with its listeners in order; a listener is known by a number and has its session filter.\<close>

record emitter =
  em_listeners :: "(nat \<times> string option) list"
  em_next :: nat

definition accepts :: "string option \<Rightarrow> agent_event \<Rightarrow> bool" where
  "accepts sessionId event =
     (case sessionId of
        Some s \<Rightarrow> \<not> (s \<noteq> [] \<and> ev_sessionId event \<noteq> s)
      | None \<Rightarrow> True)"

definition emitAgentEvent :: "agent_event \<Rightarrow> emitter \<Rightarrow> nat list" where
  "emitAgentEvent event em = map fst (filter (\<lambda>(l, sessionId). accepts sessionId event) (em_listeners em))"

definition subscribeAgentEvents :: "string option \<Rightarrow> emitter \<Rightarrow> nat \<times> emitter" where
  "subscribeAgentEvents sessionId em =
     (em_next em, em\<lparr>em_listeners := em_listeners em @ [(em_next em, sessionId)], em_next := Suc (em_next em)\<rparr>)"

definition unsubscribe :: "nat \<Rightarrow> emitter \<Rightarrow> emitter" where
  "unsubscribe l em = em\<lparr>em_listeners := filter (\<lambda>(k, s). k \<noteq> l) (em_listeners em)\<rparr>"

section \<open>The relay\<close>

text \<open>Jobs of \<open>sendChain\<close>, and what is asked of Telegram. \<open>Update\<close> is a progress message with its lines.\<close>

datatype relay_job = UpdateJob string "string list" | NoticeJob string | PhotoJob string

datatype relay_send = SentUpdate string "string list" | SentNotice string | SentPhoto string string

datatype timer_kind = Scheduled | FollowUp

text \<open>The call of \<open>close\<close>: not made, waiting for its \<open>flush\<close>, waiting for the chain, returned.\<close>

datatype close_state = NotClosed | AwaitFlush nat | AwaitChain nat | CloseReturned

text \<open>
  The variables of the closure, then the event loop: unfinished jobs and how many were ever
  added, pending timers, the suspended calls of \<open>flush\<close>, the call of \<open>close\<close>. The last two fields are history:
  what Telegram accepted and the texts that were put into the queue.
\<close>

record relay =
  rl_queue :: "string list"
  rl_sentCount :: nat
  rl_lastText :: string
  rl_lastSentAt :: int
  rl_flushTimer :: "nat option"
  rl_closed :: bool
  rl_captcha :: "string list"
  rl_chain :: "relay_job list"
  rl_enqueued :: nat
  rl_timers :: "(nat \<times> timer_kind) list"
  rl_nextTimer :: nat
  rl_waiting :: "nat list"
  rl_close :: close_state
  rl_sent :: "relay_send list"
  rl_accepted :: "string list"

definition MAX_PROGRESS_MESSAGES :: nat where
  "MAX_PROGRESS_MESSAGES = 8"

definition BATCH_LINES :: nat where
  "BATCH_LINES = 3"

definition new_relay :: relay where
  "new_relay = \<lparr>rl_queue = [], rl_sentCount = 0, rl_lastText = [], rl_lastSentAt = 0, rl_flushTimer = None,
     rl_closed = False, rl_captcha = [], rl_chain = [], rl_enqueued = 0, rl_timers = [], rl_nextTimer = 0,
     rl_waiting = [], rl_close = NotClosed, rl_sent = [], rl_accepted = []\<rparr>"

text \<open>The number of jobs that are done; a call suspended on the chain waits for a number of jobs.\<close>

definition rl_done :: "relay \<Rightarrow> nat" where
  "rl_done st = rl_enqueued st - length (rl_chain st)"

definition enqueueSend :: "relay_job \<Rightarrow> relay \<Rightarrow> relay" where
  "enqueueSend job st = st\<lparr>rl_chain := rl_chain st @ [job], rl_enqueued := Suc (rl_enqueued st)\<rparr>"

definition setTimer :: "timer_kind \<Rightarrow> relay \<Rightarrow> relay" where
  "setTimer kind st =
     st\<lparr>rl_flushTimer := Some (rl_nextTimer st), rl_timers := rl_timers st @ [(rl_nextTimer st, kind)],
        rl_nextTimer := Suc (rl_nextTimer st)\<rparr>"

definition update_text :: "nat \<Rightarrow> string list \<Rightarrow> string" where
  "update_text n lines =
     (let heading = (if n = 1 then ''Working update:'' else ''Update:'');
          body = js_join [CHR 0x0A] (map (\<lambda>line. ''- '' @ line) lines)
      in heading @ [CHR 0x0A] @ body)"

text \<open>\<open>flush\<close> up to its \<open>await sendChain\<close>; the flag tells whether it got there.\<close>

definition flushRelay :: "relay \<Rightarrow> relay \<times> bool" where
  "flushRelay st =
     (if rl_queue st = [] \<or> MAX_PROGRESS_MESSAGES \<le> rl_sentCount st
      then (st\<lparr>rl_queue := []\<rparr>, False)
      else
        let lines = take BATCH_LINES (rl_queue st);
            st1 = st\<lparr>rl_queue := drop BATCH_LINES (rl_queue st), rl_sentCount := Suc (rl_sentCount st)\<rparr>
        in (enqueueSend (UpdateJob (update_text (rl_sentCount st1) lines) lines) st1, True))"

text \<open>A call of \<open>flush\<close> that nobody awaits.\<close>

definition startFlush :: "relay \<Rightarrow> relay" where
  "startFlush st =
     (case flushRelay st of
        (st1, True) \<Rightarrow> st1\<lparr>rl_waiting := rl_waiting st1 @ [rl_enqueued st1]\<rparr>
      | (st1, False) \<Rightarrow> st1)"

text \<open>What \<open>flush\<close> does after the chain settled.\<close>

definition finishFlush :: "relay \<Rightarrow> relay" where
  "finishFlush st =
     (if \<not> rl_closed st \<and> rl_queue st \<noteq> [] \<and> rl_sentCount st < MAX_PROGRESS_MESSAGES
      then setTimer FollowUp st else st)"

definition scheduleFlush :: "relay \<Rightarrow> relay" where
  "scheduleFlush st = (if rl_flushTimer st \<noteq> None \<or> rl_closed st then st else setTimer Scheduled st)"

definition asRecord :: "jsv \<Rightarrow> jsv option" where
  "asRecord v = (if is_object v \<and> \<not> is_array v then Some v else None)"

text \<open>\<open>JSON_parse\<close> is \<open>JSON.parse\<close>, \<open>None\<close> when it throws.\<close>

definition parseToolResultRecord :: "(string \<Rightarrow> jsv option) \<Rightarrow> jsv \<Rightarrow> jsv option" where
  "parseToolResultRecord JSON_parse result =
     (case asRecord result of
        Some direct \<Rightarrow> Some direct
      | None \<Rightarrow>
          (case result of
             JStr s \<Rightarrow> (case JSON_parse s of Some parsed \<Rightarrow> asRecord parsed | None \<Rightarrow> None)
           | _ \<Rightarrow> None))"

definition extractScreenshotPathFromToolResult :: "(string \<Rightarrow> jsv option) \<Rightarrow> jsv \<Rightarrow> string option" where
  "extractScreenshotPathFromToolResult JSON_parse result =
     (case parseToolResultRecord JSON_parse result of
        None \<Rightarrow> None
      | Some parsed \<Rightarrow>
          (let fromScreenshot =
                 (case asRecord (jget parsed ''screenshot'') of
                    Some screenshot \<Rightarrow> trim (str_or_empty (jget screenshot ''path''))
                  | None \<Rightarrow> []);
               fromRoot = trim (str_or_empty (jget parsed ''path''))
           in if fromScreenshot \<noteq> [] then Some fromScreenshot
              else if fromRoot \<noteq> [] then Some fromRoot else None))"

definition progressTextFromAgentEvent :: "agent_event \<Rightarrow> string option" where
  "progressTextFromAgentEvent event =
     (case ev_stream event of
        AssistantStream phase t \<Rightarrow> (if trim t = [] then None else Some (trim t))
      | _ \<Rightarrow> None)"

definition CHALLENGE_REGEX :: rx where
  "CHALLENGE_REGEX =
     Seq [Bound,
          Alt [Lit ''captcha'', Lit ''challenge'',
               Seq [Lit ''human'', Opt (Cls (\<lambda>c. c = CHR ''-'' \<or> c = CHR ''_'' \<or> is_ws c)), Lit ''verification'']],
          Bound]"

definition CAPTCHA_FAILED :: string where
  "CAPTCHA_FAILED = ''Captcha challenge detected, but screenshot capture failed. Solve it on the site and send me any code shown.''"

definition CAPTCHA_NO_PATH :: string where
  "CAPTCHA_NO_PATH = ''Captcha challenge detected, but no screenshot file path was returned. Solve it on the site and send me any code shown.''"

definition CAPTCHA_CAPTION :: string where
  "CAPTCHA_CAPTION = ''Captcha challenge detected. Solve it and send me any visible code.''"

definition captchaNotUploaded :: "string \<Rightarrow> string" where
  "captchaNotUploaded path =
     ''Captcha challenge detected. I could not upload the image from '' @ path @
     ''. Solve it on the site and send me any code shown.''"

definition onToolEvent :: "(string \<Rightarrow> jsv option) \<Rightarrow> tool_data \<Rightarrow> relay \<Rightarrow> relay" where
  "onToolEvent JSON_parse d st =
     (let toolName = to_lower (trim (td_name d)); phase = td_phase d; call = td_toolCallId d in
      if toolName = ''browser'' \<and> phase = PhaseStart then
        (let args = (case asRecord (td_args d) of Some a \<Rightarrow> a | None \<Rightarrow> JObj []);
             action = replace_chars (\<lambda>c. c = CHR ''-'') ''_'' (to_lower (trim (str_or_empty (jget args ''action''))));
             reason = to_lower (trim (str_or_empty (jget args ''reason'')))
         in if action = ''screenshot'' \<and> rx_test CHALLENGE_REGEX reason
            then st\<lparr>rl_captcha := set_add (rl_captcha st) call\<rparr> else st)
      else if toolName \<noteq> ''browser'' \<or> phase \<noteq> PhaseEnd \<and> phase \<noteq> PhaseError then st
      else if call \<notin> set (rl_captcha st) then st
      else
        (let st1 = st\<lparr>rl_captcha := filter (\<lambda>c. c \<noteq> call) (rl_captcha st)\<rparr> in
         if phase = PhaseError then enqueueSend (NoticeJob CAPTCHA_FAILED) st1
         else (case extractScreenshotPathFromToolResult JSON_parse (td_result d) of
                 None \<Rightarrow> enqueueSend (NoticeJob CAPTCHA_NO_PATH) st1
               | Some path \<Rightarrow> enqueueSend (PhotoJob path) st1)))"

definition onTextEvent :: "int \<Rightarrow> agent_event \<Rightarrow> relay \<Rightarrow> relay" where
  "onTextEvent now event st =
     (if MAX_PROGRESS_MESSAGES \<le> rl_sentCount st then st
      else case progressTextFromAgentEvent event of
             None \<Rightarrow> st
           | Some t \<Rightarrow>
               if t = rl_lastText st then st
               else if now - rl_lastSentAt st < 450 then st
               else scheduleFlush (st\<lparr>rl_lastText := t, rl_queue := rl_queue st @ [t],
                                      rl_accepted := rl_accepted st @ [t]\<rparr>))"

definition onEvent :: "(string \<Rightarrow> jsv option) \<Rightarrow> int \<Rightarrow> agent_event \<Rightarrow> relay \<Rightarrow> relay" where
  "onEvent JSON_parse now event st =
     (if rl_closed st then st
      else case ev_stream event of
             ToolStream d \<Rightarrow> onToolEvent JSON_parse d st
           | _ \<Rightarrow> onTextEvent now event st)"

text \<open>\<open>close\<close> up to its first \<open>await\<close>; clearing a timer that has already fired does nothing.\<close>

definition closeRelay :: "relay \<Rightarrow> relay" where
  "closeRelay st =
     (if rl_closed st then st
      else
        let st1 = st\<lparr>rl_closed := True,
                     rl_timers := filter (\<lambda>(t, k). Some t \<noteq> rl_flushTimer st) (rl_timers st),
                     rl_flushTimer := None\<rparr>;
            st2 = startFlush st1
        in st2\<lparr>rl_close := AwaitFlush (if snd (flushRelay st1) then rl_enqueued st2 else 0)\<rparr>)"

section \<open>The event loop\<close>

text \<open>
  What the event loop may do next: deliver an event, fire a timer, complete the first job of
  the chain, resume a suspended \<open>flush\<close>, call \<open>close\<close>, resume \<open>close\<close>. \<open>None\<close>: not possible now. A job
  succeeds or not; the photo job falls back to a message.
\<close>

datatype relay_input =
    Event int agent_event
  | Fire nat
  | JobDone int bool bool
  | Resume nat
  | Close
  | ResumeClose

definition fireTimer :: "nat \<Rightarrow> relay \<Rightarrow> relay option" where
  "fireTimer t st =
     (case map_of (rl_timers st) t of
        None \<Rightarrow> None
      | Some kind \<Rightarrow>
          (let st1 = st\<lparr>rl_timers := filter (\<lambda>(k, _). k \<noteq> t) (rl_timers st)\<rparr> in
           Some (startFlush (case kind of Scheduled \<Rightarrow> st1\<lparr>rl_flushTimer := None\<rparr> | FollowUp \<Rightarrow> st1))))"

definition job_sends :: "relay_job \<Rightarrow> bool \<Rightarrow> bool \<Rightarrow> relay_send list" where
  "job_sends job ok fallbackOk =
     (case job of
        UpdateJob t lines \<Rightarrow> (if ok then [SentUpdate t lines] else [])
      | NoticeJob t \<Rightarrow> (if ok then [SentNotice t] else [])
      | PhotoJob path \<Rightarrow> (if ok then [SentPhoto path CAPTCHA_CAPTION]
                          else if fallbackOk then [SentNotice (captchaNotUploaded path)] else []))"

definition finishJob :: "int \<Rightarrow> bool \<Rightarrow> bool \<Rightarrow> relay \<Rightarrow> relay option" where
  "finishJob now ok fallbackOk st =
     (case rl_chain st of
        [] \<Rightarrow> None
      | job # rest \<Rightarrow>
          Some (st\<lparr>rl_chain := rest, rl_sent := rl_sent st @ job_sends job ok fallbackOk,
                   rl_lastSentAt := (case job of UpdateJob _ _ \<Rightarrow> if ok then now else rl_lastSentAt st
                                     | _ \<Rightarrow> rl_lastSentAt st)\<rparr>))"

definition resumeFlush :: "nat \<Rightarrow> relay \<Rightarrow> relay option" where
  "resumeFlush n st =
     (if n \<in> set (rl_waiting st) \<and> n \<le> rl_done st
      then Some (finishFlush (st\<lparr>rl_waiting := remove1 n (rl_waiting st)\<rparr>)) else None)"

definition resumeClose :: "relay \<Rightarrow> relay option" where
  "resumeClose st =
     (case rl_close st of
        AwaitFlush n \<Rightarrow> (if n \<le> rl_done st then Some (st\<lparr>rl_close := AwaitChain (rl_enqueued st)\<rparr>) else None)
      | AwaitChain n \<Rightarrow> (if n \<le> rl_done st then Some (st\<lparr>rl_close := CloseReturned\<rparr>) else None)
      | _ \<Rightarrow> None)"

fun relay_apply :: "(string \<Rightarrow> jsv option) \<Rightarrow> relay_input \<Rightarrow> relay \<Rightarrow> relay option" where
  "relay_apply JSON_parse (Event now event) st = Some (onEvent JSON_parse now event st)"
| "relay_apply JSON_parse (Fire t) st = fireTimer t st"
| "relay_apply JSON_parse (JobDone now ok fallbackOk) st = finishJob now ok fallbackOk st"
| "relay_apply JSON_parse (Resume n) st = resumeFlush n st"
| "relay_apply JSON_parse Close st = Some (closeRelay st)"
| "relay_apply JSON_parse ResumeClose st = resumeClose st"

inductive relay_step :: "(string \<Rightarrow> jsv option) \<Rightarrow> relay_input \<Rightarrow> relay \<Rightarrow> relay \<Rightarrow> bool" for JSON_parse where
  step: "relay_apply JSON_parse i st = Some st1 \<Longrightarrow> relay_step JSON_parse i st st1"

inductive relay_reach :: "(string \<Rightarrow> jsv option) \<Rightarrow> relay_input list \<Rightarrow> relay \<Rightarrow> bool" for JSON_parse where
  start: "relay_reach JSON_parse [] new_relay"
| more: "relay_reach JSON_parse is st \<Longrightarrow> relay_step JSON_parse i st st1 \<Longrightarrow> relay_reach JSON_parse (is @ [i]) st1"

fun relay_run :: "(string \<Rightarrow> jsv option) \<Rightarrow> relay_input list \<Rightarrow> relay \<Rightarrow> relay option" where
  "relay_run JSON_parse [] st = Some st"
| "relay_run JSON_parse (i # is) st = Option.bind (relay_apply JSON_parse i st) (relay_run JSON_parse is)"

section \<open>Safety of every interleaving\<close>

fun job_lines :: "relay_job \<Rightarrow> string list list" where
  "job_lines (UpdateJob t lines) = [lines]"
| "job_lines _ = []"

fun send_lines :: "relay_send \<Rightarrow> string list list" where
  "send_lines (SentUpdate t lines) = [lines]"
| "send_lines _ = []"

text \<open>The batches of lines that were delivered, and those on their way.\<close>

definition delivered :: "relay \<Rightarrow> string list list" where
  "delivered st = concat (map send_lines (rl_sent st))"

definition underway :: "relay \<Rightarrow> string list list" where
  "underway st = concat (map job_lines (rl_chain st))"

definition batch_ok :: "string list \<Rightarrow> bool" where
  "batch_ok lines \<longleftrightarrow> 1 \<le> length lines \<and> length lines \<le> BATCH_LINES"

definition lines_ok :: "relay \<Rightarrow> bool" where
  "lines_ok st \<longleftrightarrow> list_all (\<lambda>t. t \<noteq> [] \<and> trim t = t) (rl_accepted st) \<and> distinct_adj (rl_accepted st)
     \<and> (rl_accepted st \<noteq> [] \<longrightarrow> last (rl_accepted st) = rl_lastText st)"

definition relay_ok :: "relay \<Rightarrow> bool" where
  "relay_ok st \<longleftrightarrow> rl_sentCount st \<le> MAX_PROGRESS_MESSAGES
     \<and> length (delivered st) + length (underway st) \<le> rl_sentCount st
     \<and> list_all batch_ok (delivered st) \<and> list_all batch_ok (underway st)
     \<and> subseq (concat (delivered st) @ concat (underway st) @ rl_queue st) (rl_accepted st)
     \<and> lines_ok st"

lemmas relay_ok_unfold = relay_ok_def delivered_def underway_def lines_ok_def

text \<open>The fields the invariant does not look at.\<close>

lemma relay_ok_frame [simp]:
  "relay_ok (st\<lparr>rl_captcha := c\<rparr>) \<longleftrightarrow> relay_ok st" "relay_ok (st\<lparr>rl_waiting := w\<rparr>) \<longleftrightarrow> relay_ok st"
  "relay_ok (st\<lparr>rl_close := s\<rparr>) \<longleftrightarrow> relay_ok st" "relay_ok (st\<lparr>rl_closed := b\<rparr>) \<longleftrightarrow> relay_ok st"
  "relay_ok (st\<lparr>rl_timers := ts\<rparr>) \<longleftrightarrow> relay_ok st" "relay_ok (st\<lparr>rl_flushTimer := f\<rparr>) \<longleftrightarrow> relay_ok st"
  "relay_ok (st\<lparr>rl_nextTimer := n\<rparr>) \<longleftrightarrow> relay_ok st" "relay_ok (st\<lparr>rl_enqueued := n\<rparr>) \<longleftrightarrow> relay_ok st"
  "relay_ok (st\<lparr>rl_lastSentAt := m\<rparr>) \<longleftrightarrow> relay_ok st"
  by (simp_all add: relay_ok_unfold)

lemma underway_enqueue: "underway (enqueueSend job st) = underway st @ job_lines job"
  by (simp add: underway_def enqueueSend_def)

lemma enqueueSend_sel [simp]:
  "rl_sentCount (enqueueSend job st) = rl_sentCount st" "rl_queue (enqueueSend job st) = rl_queue st"
  "rl_sent (enqueueSend job st) = rl_sent st" "rl_accepted (enqueueSend job st) = rl_accepted st"
  "rl_lastText (enqueueSend job st) = rl_lastText st"
  "rl_timers (enqueueSend job st) = rl_timers st" "rl_waiting (enqueueSend job st) = rl_waiting st"
  "rl_close (enqueueSend job st) = rl_close st" "rl_closed (enqueueSend job st) = rl_closed st"
  "rl_flushTimer (enqueueSend job st) = rl_flushTimer st" "rl_chain (enqueueSend job st) = rl_chain st @ [job]"
  "rl_captcha (enqueueSend job st) = rl_captcha st"
  by (simp_all add: enqueueSend_def)

lemma setTimer_sel [simp]:
  "rl_sentCount (setTimer k st) = rl_sentCount st" "rl_queue (setTimer k st) = rl_queue st"
  "rl_sent (setTimer k st) = rl_sent st" "rl_accepted (setTimer k st) = rl_accepted st"
  "rl_lastText (setTimer k st) = rl_lastText st" "rl_chain (setTimer k st) = rl_chain st"
  "rl_waiting (setTimer k st) = rl_waiting st" "rl_close (setTimer k st) = rl_close st"
  "length (rl_timers (setTimer k st)) = Suc (length (rl_timers st))"
  by (simp_all add: setTimer_def)

lemma relay_ok_setTimer [simp]: "relay_ok (setTimer k st) \<longleftrightarrow> relay_ok st"
  by (simp add: setTimer_def)

lemma relay_ok_scheduleFlush [simp]: "relay_ok st \<Longrightarrow> relay_ok (scheduleFlush st)"
  by (simp add: scheduleFlush_def)

lemma relay_ok_finishFlush [simp]: "relay_ok st \<Longrightarrow> relay_ok (finishFlush st)"
  by (simp add: finishFlush_def)

lemma relay_ok_enqueue: "relay_ok st \<Longrightarrow> job_lines job = [] \<Longrightarrow> relay_ok (enqueueSend job st)"
  by (simp add: enqueueSend_def relay_ok_unfold)

lemma relay_ok_drop_queue:
  assumes "relay_ok st" shows "relay_ok (st\<lparr>rl_queue := []\<rparr>)"
proof -
  have "subseq (concat (delivered st) @ concat (underway st)) (concat (delivered st) @ concat (underway st) @ rl_queue st)"
    by (metis append.assoc list_emb_append2 list_emb_prefix subseq_order.order_refl)
  then show ?thesis using assms subseq_order.order_trans
    by (fastforce simp: relay_ok_def delivered_def underway_def lines_ok_def)
qed

lemma relay_ok_flush:
  assumes "relay_ok st" shows "relay_ok (fst (flushRelay st))"
proof (cases "rl_queue st = [] \<or> MAX_PROGRESS_MESSAGES \<le> rl_sentCount st")
  case True
  then show ?thesis using relay_ok_drop_queue [OF assms] by (simp add: flushRelay_def)
next
  case False
  let ?st = "fst (flushRelay st)" and ?lines = "take BATCH_LINES (rl_queue st)"
  have "batch_ok ?lines" using False by (cases "rl_queue st") (auto simp: batch_ok_def BATCH_LINES_def)
  moreover have "underway ?st = underway st @ [?lines]" "delivered ?st = delivered st"
    "rl_queue ?st = drop BATCH_LINES (rl_queue st)" "rl_sentCount ?st = Suc (rl_sentCount st)"
    "rl_accepted ?st = rl_accepted st" "rl_lastText ?st = rl_lastText st"
    using False by (simp_all add: flushRelay_def Let_def underway_def delivered_def enqueueSend_def)
  ultimately show ?thesis using assms False by (simp add: relay_ok_def lines_ok_def)
qed

lemma startFlush_eq:
  "startFlush st = (if snd (flushRelay st) then (fst (flushRelay st))\<lparr>rl_waiting := rl_waiting (fst (flushRelay st)) @ [rl_enqueued (fst (flushRelay st))]\<rparr>
    else fst (flushRelay st))"
  by (simp add: startFlush_def split: prod.splits bool.splits)

lemma relay_ok_startFlush: "relay_ok st \<Longrightarrow> relay_ok (startFlush st)"
  unfolding startFlush_eq by (simp add: relay_ok_flush)

lemma relay_ok_onToolEvent: "relay_ok st \<Longrightarrow> relay_ok (onToolEvent JSON_parse d st)"
  unfolding onToolEvent_def Let_def by (simp add: relay_ok_enqueue split: option.split)

lemma relay_ok_accept:
  assumes "relay_ok st" "t \<noteq> rl_lastText st" "t \<noteq> []" "trim t = t"
  shows "relay_ok (st\<lparr>rl_lastText := t, rl_queue := rl_queue st @ [t], rl_accepted := rl_accepted st @ [t]\<rparr>)"
proof -
  have "distinct_adj (rl_accepted st @ [t])"
    using assms(1,2) by (auto simp: relay_ok_def lines_ok_def distinct_adj_append_iff)
  moreover have "subseq ((concat (delivered st) @ concat (underway st) @ rl_queue st) @ [t]) (rl_accepted st @ [t])"
    using assms(1) by (intro list_emb_append_mono) (simp_all add: relay_ok_def)
  ultimately show ?thesis using assms by (simp add: relay_ok_def delivered_def underway_def lines_ok_def)
qed

lemma relay_ok_onEvent:
  assumes "relay_ok st" shows "relay_ok (onEvent JSON_parse now event st)"
proof -
  have "relay_ok (onTextEvent now event st)"
    using assms relay_ok_accept [OF assms]
    by (auto simp: onTextEvent_def progressTextFromAgentEvent_def split: event_stream.splits if_splits)
  then show ?thesis using assms by (simp add: onEvent_def relay_ok_onToolEvent split: event_stream.splits)
qed

lemma relay_ok_finishJob:
  assumes "relay_ok st" "finishJob now ok fb st = Some st1" shows "relay_ok st1"
proof -
  obtain job rest where chain: "rl_chain st = job # rest" using assms(2) by (auto simp: finishJob_def split: list.splits)
  have "underway st = job_lines job @ underway st1" "rl_queue st1 = rl_queue st" "rl_sentCount st1 = rl_sentCount st"
    "rl_accepted st1 = rl_accepted st" "rl_lastText st1 = rl_lastText st"
    "delivered st1 = delivered st @ (if ok then job_lines job else [])"
    using assms(2) chain by (cases job; auto simp: finishJob_def underway_def delivered_def job_sends_def)+
  moreover have "subseq (concat (delivered st) @ concat (underway st1) @ rl_queue st)
      (concat (delivered st) @ concat (job_lines job) @ concat (underway st1) @ rl_queue st)"
    by (intro list_emb_append_mono list_emb_append2) simp_all
  ultimately show ?thesis using assms(1) subseq_order.order_trans
    by (cases ok) (fastforce simp: relay_ok_def lines_ok_def)+
qed

lemma relay_ok_fireTimer: "relay_ok st \<Longrightarrow> fireTimer t st = Some st1 \<Longrightarrow> relay_ok st1"
  by (auto simp: fireTimer_def Let_def intro!: relay_ok_startFlush split: option.splits timer_kind.split)

lemma relay_ok_closeRelay: "relay_ok st \<Longrightarrow> relay_ok (closeRelay st)"
  by (simp add: closeRelay_def Let_def relay_ok_startFlush)

lemma relay_ok_resume: "relay_ok st \<Longrightarrow> resumeFlush n st = Some st1 \<Longrightarrow> relay_ok st1"
  by (auto simp: resumeFlush_def split: if_splits)

lemma relay_ok_resumeClose: "relay_ok st \<Longrightarrow> resumeClose st = Some st1 \<Longrightarrow> relay_ok st1"
  by (auto simp: resumeClose_def split: if_splits close_state.splits)

lemma relay_ok_apply: "relay_ok st \<Longrightarrow> relay_apply JSON_parse i st = Some st1 \<Longrightarrow> relay_ok st1"
  by (cases i) (auto dest: relay_ok_fireTimer relay_ok_finishJob relay_ok_resume relay_ok_resumeClose
      simp: relay_ok_onEvent relay_ok_closeRelay)

lemma relay_ok_new: "relay_ok new_relay"
  by (simp add: relay_ok_def new_relay_def delivered_def underway_def lines_ok_def)

lemma relay_invariant [consumes 1, case_names start step]:
  assumes "relay_reach JSON_parse is st" and "P new_relay"
    and "\<And>i st st1. P st \<Longrightarrow> relay_apply JSON_parse i st = Some st1 \<Longrightarrow> P st1"
  shows "P st"
  using assms(1) by induction (auto simp: assms(2) elim!: relay_step.cases intro: assms(3))

lemma relay_reach_ok: "relay_reach JSON_parse is st \<Longrightarrow> relay_ok st"
  by (rule relay_invariant [where P = relay_ok]) (auto intro: relay_ok_new relay_ok_apply)


text \<open>
  C22. While a message is being answered, in whatever order events arrive, timers fire, requests
  complete and the relay is closed: at most eight progress messages are sent, each with one
  to three lines, and the lines delivered are nonblank and, in this order, among the texts the
  assistant produced, where a text equal to its predecessor was left out.
\<close>

theorem relay_bounded:
  assumes "relay_reach JSON_parse is st"
  shows "length (delivered st) \<le> 8
    \<and> (\<forall>lines \<in> set (delivered st). 1 \<le> length lines \<and> length lines \<le> 3)
    \<and> subseq (concat (delivered st)) (rl_accepted st) \<and> distinct_adj (rl_accepted st)
    \<and> list_all (\<lambda>t. t \<noteq> [] \<and> trim t = t) (rl_accepted st)"
proof -
  have ok: "relay_ok st" using assms by (rule relay_reach_ok)
  have "subseq (concat (delivered st)) (concat (delivered st) @ concat (underway st) @ rl_queue st)"
    by (metis list_emb_append2 append_Nil2 list_emb_Nil subseq_append')
  then show ?thesis using ok subseq_order.order_trans
    by (fastforce simp: relay_ok_def lines_ok_def batch_ok_def list_all_iff MAX_PROGRESS_MESSAGES_def BATCH_LINES_def)
qed

section \<open>The relay comes to rest\<close>

text \<open>What happens without new events and without a call of \<open>close\<close>.\<close>

fun is_internal :: "relay_input \<Rightarrow> bool" where
  "is_internal (Event now event) = False"
| "is_internal Close = False"
| "is_internal _ = True"

fun close_rank :: "close_state \<Rightarrow> nat" where
  "close_rank (AwaitFlush n) = 2"
| "close_rank (AwaitChain n) = 1"
| "close_rank _ = 0"

definition work :: "relay \<Rightarrow> nat" where
  "work st = 3 * (MAX_PROGRESS_MESSAGES - rl_sentCount st) + length (rl_timers st) + 2 * length (rl_waiting st)
     + length (rl_chain st) + close_rank (rl_close st)"

lemma work_startFlush: "work (startFlush st) \<le> work st"
  by (auto simp: startFlush_eq flushRelay_def Let_def enqueueSend_def work_def MAX_PROGRESS_MESSAGES_def)

lemma work_finishFlush: "work (finishFlush st) \<le> Suc (work st)"
  by (simp add: finishFlush_def work_def)

lemma work_fireTimer:
  assumes "fireTimer t st = Some st1" shows "work st1 < work st"
proof -
  let ?ts = "filter (\<lambda>(k, _). k \<noteq> t) (rl_timers st)"
  obtain kind where "map_of (rl_timers st) t = Some kind" using assms by (auto simp: fireTimer_def split: option.splits)
  then have "(t, kind) \<in> set (rl_timers st)" by (rule map_of_SomeD)
  then have "length ?ts < length (rl_timers st)" by (rule length_filter_less) simp
  then have less: "work (st\<lparr>rl_timers := ?ts\<rparr>) < work st" "work (st\<lparr>rl_timers := ?ts, rl_flushTimer := None\<rparr>) < work st"
    by (simp_all add: work_def)
  have "st1 = startFlush (st\<lparr>rl_timers := ?ts\<rparr>) \<or> st1 = startFlush (st\<lparr>rl_timers := ?ts, rl_flushTimer := None\<rparr>)"
    using assms by (auto simp: fireTimer_def Let_def split: option.splits timer_kind.splits)
  with less show ?thesis by (auto intro: le_less_trans [OF work_startFlush])
qed

lemma work_resume:
  assumes "resumeFlush n st = Some st1" shows "work st1 < work st"
proof -
  have n: "n \<in> set (rl_waiting st)" and st1: "st1 = finishFlush (st\<lparr>rl_waiting := remove1 n (rl_waiting st)\<rparr>)"
    using assms by (auto simp: resumeFlush_def split: if_splits)
  have "Suc (length (remove1 n (rl_waiting st))) = length (rl_waiting st)"
    using n length_pos_if_in_set [OF n] by (simp add: length_remove1)
  then have "Suc (work (st\<lparr>rl_waiting := remove1 n (rl_waiting st)\<rparr>)) < work st" by (simp add: work_def)
  then show ?thesis unfolding st1 using work_finishFlush le_less_trans by blast
qed

lemma work_internal:
  assumes "is_internal i" "relay_apply JSON_parse i st = Some st1" shows "work st1 < work st"
proof (cases i)
  case (JobDone now ok fb)
  then show ?thesis using assms(2) by (auto simp: finishJob_def work_def split: list.splits)
next
  case ResumeClose
  then show ?thesis using assms(2) by (auto simp: resumeClose_def work_def split: close_state.splits if_splits)
qed (use assms work_fireTimer work_resume in auto)

lemma run_work:
  "relay_run JSON_parse is st = Some st1 \<Longrightarrow> list_all is_internal is \<Longrightarrow> length is + work st1 \<le> work st"
proof (induction "is" arbitrary: st)
  case (Cons i "is")
  then obtain st2 where st2: "relay_apply JSON_parse i st = Some st2" "relay_run JSON_parse is st2 = Some st1"
    by (auto simp: bind_eq_Some_conv)
  with Cons.IH [OF st2(2)] Cons.prems(2) work_internal [OF _ st2(1)] show ?case by simp
qed simp

text \<open>A request is eventually completed and a due timer eventually fires, so the end of such a run is a state where nothing is left to do.\<close>

definition at_rest :: "relay \<Rightarrow> bool" where
  "at_rest st \<longleftrightarrow> rl_timers st = [] \<and> rl_chain st = [] \<and> rl_waiting st = [] \<and> (rl_close st = NotClosed \<or> rl_close st = CloseReturned)"


lemma at_rest_no_internal:
  assumes "at_rest st" "is_internal i" shows "relay_apply JSON_parse i st = None"
  using assms by (cases i) (auto simp: at_rest_def fireTimer_def finishJob_def resumeFlush_def resumeClose_def)

text \<open>The numbers of jobs that are waited for.\<close>

fun close_target :: "close_state \<Rightarrow> nat" where
  "close_target (AwaitFlush n) = n"
| "close_target (AwaitChain n) = n"
| "close_target _ = 0"

definition targets_ok :: "relay \<Rightarrow> bool" where
  "targets_ok st \<longleftrightarrow> length (rl_chain st) \<le> rl_enqueued st \<and> (\<forall>n \<in> set (rl_waiting st). n \<le> rl_enqueued st)
     \<and> close_target (rl_close st) \<le> rl_enqueued st"

lemma targets_ok_frame [simp]:
  "targets_ok (st\<lparr>rl_captcha := c\<rparr>) \<longleftrightarrow> targets_ok st" "targets_ok (st\<lparr>rl_queue := q\<rparr>) \<longleftrightarrow> targets_ok st"
  "targets_ok (st\<lparr>rl_sentCount := k\<rparr>) \<longleftrightarrow> targets_ok st" "targets_ok (st\<lparr>rl_closed := b\<rparr>) \<longleftrightarrow> targets_ok st"
  "targets_ok (st\<lparr>rl_timers := ts\<rparr>) \<longleftrightarrow> targets_ok st" "targets_ok (st\<lparr>rl_flushTimer := f\<rparr>) \<longleftrightarrow> targets_ok st"
  "targets_ok (st\<lparr>rl_nextTimer := n\<rparr>) \<longleftrightarrow> targets_ok st" "targets_ok (st\<lparr>rl_lastText := x\<rparr>) \<longleftrightarrow> targets_ok st"
  "targets_ok (st\<lparr>rl_accepted := xs\<rparr>) \<longleftrightarrow> targets_ok st"
  by (simp_all add: targets_ok_def)

lemma targets_ok_enqueue [simp]: "targets_ok st \<Longrightarrow> targets_ok (enqueueSend job st)"
  by (auto simp: targets_ok_def enqueueSend_def)

lemma targets_ok_timer [simp]: "targets_ok (setTimer k st) \<longleftrightarrow> targets_ok st"
  by (simp add: setTimer_def)

lemma targets_ok_startFlush: "targets_ok st \<Longrightarrow> targets_ok (startFlush st)"
  by (auto simp: startFlush_eq flushRelay_def Let_def) (auto simp: targets_ok_def enqueueSend_def)

lemma targets_ok_onEvent: "targets_ok st \<Longrightarrow> targets_ok (onEvent JSON_parse now event st)"
  unfolding onEvent_def onToolEvent_def onTextEvent_def scheduleFlush_def Let_def
  by (simp split: event_stream.split option.split)

lemma targets_ok_close: "targets_ok st \<Longrightarrow> targets_ok (closeRelay st)"
  using targets_ok_startFlush [of "st\<lparr>rl_closed := True, rl_timers := ts, rl_flushTimer := None\<rparr>" for ts]
  by (auto simp: closeRelay_def Let_def targets_ok_def)

lemma targets_ok_apply:
  assumes "targets_ok st" "relay_apply JSON_parse i st = Some st1" shows "targets_ok st1"
proof (cases i)
  case (Fire t)
  then show ?thesis using assms
    by (auto simp: fireTimer_def Let_def intro!: targets_ok_startFlush split: option.splits timer_kind.split)
next
  case (JobDone now ok fb)
  then show ?thesis using assms by (auto simp: finishJob_def targets_ok_def split: list.splits)
next
  case (Resume n)
  have "targets_ok (st\<lparr>rl_waiting := remove1 n (rl_waiting st)\<rparr>)"
    using assms(1) notin_set_remove1 by (fastforce simp: targets_ok_def)
  then show ?thesis using assms(2) Resume by (auto simp: resumeFlush_def finishFlush_def split: if_splits)
next
  case ResumeClose
  then show ?thesis using assms by (auto simp: resumeClose_def targets_ok_def split: close_state.splits if_splits)
qed (use assms targets_ok_onEvent targets_ok_close in auto)

lemma targets_ok_new: "targets_ok new_relay"
  by (simp add: targets_ok_def new_relay_def)

lemma relay_reach_targets: "relay_reach JSON_parse is st \<Longrightarrow> targets_ok st"
  by (rule relay_invariant [where P = targets_ok]) (auto intro: targets_ok_new targets_ok_apply)

lemma internal_enabled:
  assumes "targets_ok st" "\<not> at_rest st"
  obtains i st1 where "is_internal i" "relay_apply JSON_parse i st = Some st1"
proof -
  consider job js where "rl_chain st = job # js" | t k ts where "rl_timers st = (t, k) # ts"
    | n ns where "rl_chain st = []" "rl_waiting st = n # ns"
    | "rl_chain st = []" "close_rank (rl_close st) > 0"
    using assms(2) by (cases "rl_chain st"; cases "rl_timers st"; cases "rl_waiting st"; cases "rl_close st")
      (auto simp: at_rest_def)
  then show thesis
  proof cases
    case 1
    then show thesis using that [of "JobDone 0 True True"] by (simp add: finishJob_def)
  next
    case 2
    then show thesis using that [of "Fire t"] by (simp add: fireTimer_def Let_def)
  next
    case 3
    then show thesis using that [of "Resume n"] assms(1) by (simp add: resumeFlush_def rl_done_def targets_ok_def)
  next
    case 4
    then show thesis using that [of ResumeClose] assms(1)
      by (cases "rl_close st") (auto simp: resumeClose_def rl_done_def targets_ok_def)
  qed
qed

lemma rest_reachable:
  "targets_ok st \<Longrightarrow> \<exists>is st1. list_all is_internal is \<and> relay_run JSON_parse is st = Some st1 \<and> at_rest st1"
proof (induction "work st" arbitrary: st rule: less_induct)
  case less
  show ?case
  proof (cases "at_rest st")
    case True
    then show ?thesis by (intro exI [of _ "[]"]) simp
  next
    case False
    then obtain i st1 where i: "is_internal i" "relay_apply JSON_parse i st = Some st1"
      using internal_enabled [OF less.prems] by metis
    from less.hyps [OF work_internal [OF i] targets_ok_apply [OF less.prems i(2)]] obtain "is" st2 where
      "list_all is_internal is" "relay_run JSON_parse is st1 = Some st2" "at_rest st2" by blast
    with i show ?thesis by (intro exI [of _ "i # is"]) simp
  qed
qed

text \<open>
  C23. Without new events the relay comes to rest: from every reachable state each run of timers,
  requests and resumed calls has at most \<open>work\<close> steps, where a run can end only with no timer, no
  request and no suspended call left, and such an end can be reached.
\<close>

theorem relay_comes_to_rest:
  assumes "relay_reach JSON_parse is st"
  shows "(\<forall>run st1. list_all is_internal run \<and> relay_run JSON_parse run st = Some st1 \<longrightarrow>
       length run \<le> work st \<and> (at_rest st1 \<longleftrightarrow> (\<forall>i. is_internal i \<longrightarrow> relay_apply JSON_parse i st1 = None)))
    \<and> (\<exists>run st1. list_all is_internal run \<and> relay_run JSON_parse run st = Some st1 \<and> at_rest st1)"
proof -
  have ok: "targets_ok st" using assms by (rule relay_reach_targets)
  have run_ok: "targets_ok st1" if "relay_run JSON_parse run st2 = Some st1" "targets_ok st2" for run st1 st2
    using that by (induction run arbitrary: st2) (auto simp: bind_eq_Some_conv dest: targets_ok_apply)
  have "at_rest st1 \<longleftrightarrow> (\<forall>i. is_internal i \<longrightarrow> relay_apply JSON_parse i st1 = None)" if "targets_ok st1" for st1
    using internal_enabled [OF that] at_rest_no_internal by (metis option.distinct(1))
  with run_work rest_reachable [OF ok] run_ok [OF _ ok] show ?thesis by (metis add_leE)
qed


section \<open>Silence after a follow-up\<close>

text \<open>
  \<open>flush\<close> stores the handle of its follow-up timer in \<open>flushTimer\<close>, but nothing clears it when that timer
  fires. From then on \<open>scheduleFlush\<close> returns at once.
\<close>

definition silent :: "relay \<Rightarrow> bool" where
  "silent st \<longleftrightarrow> \<not> rl_closed st \<and> rl_flushTimer st \<noteq> None \<and> rl_timers st = [] \<and> rl_waiting st = [] \<and> underway st = []"

lemma silent_onEvent:
  assumes "silent st" shows "silent (onEvent JSON_parse now event st) \<and> delivered (onEvent JSON_parse now event st) = delivered st"
proof -
  have "silent (st\<lparr>rl_captcha := c\<rparr>)" "delivered (st\<lparr>rl_captcha := c\<rparr>) = delivered st"
    "silent (enqueueSend (NoticeJob x) (st\<lparr>rl_captcha := c\<rparr>))" "silent (enqueueSend (PhotoJob x) (st\<lparr>rl_captcha := c\<rparr>))"
    "delivered (enqueueSend job (st\<lparr>rl_captcha := c\<rparr>)) = delivered st" for c x job
    using assms by (simp_all add: silent_def underway_def delivered_def)
  then have "silent (onToolEvent JSON_parse d st) \<and> delivered (onToolEvent JSON_parse d st) = delivered st" for d
    using assms unfolding onToolEvent_def Let_def by (simp split: option.split)
  moreover have "silent (onTextEvent now event st) \<and> delivered (onTextEvent now event st) = delivered st"
    using assms by (auto simp: onTextEvent_def scheduleFlush_def silent_def underway_def delivered_def split: option.split)
  ultimately show ?thesis using assms by (simp add: onEvent_def split: event_stream.split)
qed

lemma silent_apply:
  assumes "silent st" "i \<noteq> Close" "relay_apply JSON_parse i st = Some st1"
  shows "silent st1 \<and> delivered st1 = delivered st"
proof (cases i)
  case (JobDone now ok fb)
  with assms(3) obtain job rest where chain: "rl_chain st = job # rest"
    by (auto simp: finishJob_def split: list.splits)
  with assms(1) have "job_lines job = []" by (simp add: silent_def underway_def)
  with assms JobDone chain show ?thesis
    by (cases job) (auto simp: finishJob_def silent_def underway_def delivered_def job_sends_def)
next
  case ResumeClose
  then show ?thesis using assms
    by (auto simp: resumeClose_def silent_def underway_def delivered_def split: close_state.splits if_splits)
qed (use assms silent_onEvent in \<open>auto simp: fireTimer_def resumeFlush_def silent_def\<close>)

lemma silent_run:
  "silent st \<Longrightarrow> Close \<notin> set is \<Longrightarrow> relay_run JSON_parse is st = Some st1 \<Longrightarrow> silent st1 \<and> delivered st1 = delivered st"
proof (induction "is" arbitrary: st)
  case (Cons i "is")
  from Cons.prems(3) obtain st2 where st2: "relay_apply JSON_parse i st = Some st2" "relay_run JSON_parse is st2 = Some st1"
    by (auto simp: bind_eq_Some_conv)
  with silent_apply [OF Cons.prems(1) _ st2(1)] Cons.IH [OF _ _ st2(2)] Cons.prems(2) show ?case by auto
qed simp

lemma run_reach: "relay_run JSON_parse is st = Some st1 \<Longrightarrow> relay_reach JSON_parse js st \<Longrightarrow> relay_reach JSON_parse (js @ is) st1"
proof (induction "is" arbitrary: st js)
  case (Cons i "is")
  from Cons.prems(1) obtain st2 where st2: "relay_apply JSON_parse i st = Some st2" "relay_run JSON_parse is st2 = Some st1"
    by (auto simp: bind_eq_Some_conv)
  from Cons.IH [OF st2(2) relay_reach.more [OF Cons.prems(2) relay_step.step [OF st2(1)]]] show ?case by simp
qed simp

definition say_event :: "string \<Rightarrow> agent_event" where
  "say_event t = \<lparr>ev_sessionId = ''telegram:7'', ev_channel = ''telegram'', ev_timestamp = 0,
     ev_stream = AssistantStream ''progress'' t\<rparr>"

definition demo_lost :: "relay_input list" where
  "demo_lost = map (\<lambda>c. Event 1000 (say_event [c])) ''abcd'' @
    [Fire 0, JobDone 2000 True True, Resume 1, Fire 1, JobDone 4000 True True, Resume 2]"

definition demo_silent :: relay where
  "demo_silent = the (relay_run (\<lambda>_. None) demo_lost new_relay)"

lemma demo_silent_run: "relay_run (\<lambda>_. None) demo_lost new_relay = Some demo_silent"
  by code_simp

lemma rest_silent: "at_rest st \<Longrightarrow> \<not> rl_closed st \<Longrightarrow> rl_flushTimer st \<noteq> None \<Longrightarrow> silent st"
  by (simp add: at_rest_def silent_def underway_def)

lemma next_text_sent:
  assumes "at_rest st" "\<not> rl_closed st" "rl_flushTimer st = None" "rl_sentCount st < MAX_PROGRESS_MESSAGES"
    and "progressTextFromAgentEvent event = Some t" "t \<noteq> rl_lastText st" "450 \<le> now - rl_lastSentAt st"
  shows "\<exists>st1. relay_run JSON_parse [Event now event, Fire (rl_nextTimer st), JobDone later True ok] st = Some st1
    \<and> delivered st1 = delivered st @ [take BATCH_LINES (rl_queue st @ [t])] \<and> rl_flushTimer st1 = None"
proof -
  define st0 where "st0 = st\<lparr>rl_lastText := t, rl_queue := rl_queue st @ [t], rl_accepted := rl_accepted st @ [t]\<rparr>"
  obtain phase said where "ev_stream event = AssistantStream phase said"
    using assms(5) by (auto simp: progressTextFromAgentEvent_def split: event_stream.splits)
  then have e: "relay_apply JSON_parse (Event now event) st = Some (setTimer Scheduled st0)"
    using assms by (simp add: onEvent_def onTextEvent_def scheduleFlush_def st0_def)
  define st1 where "st1 = (setTimer Scheduled st0)\<lparr>rl_timers := [], rl_flushTimer := None\<rparr>"
  have "relay_apply JSON_parse (Fire (rl_nextTimer st)) (setTimer Scheduled st0) = Some (startFlush st1)"
    using assms(1) by (simp add: fireTimer_def setTimer_def st0_def st1_def at_rest_def)
  moreover have "\<exists>st2. relay_apply JSON_parse (JobDone later True ok) (startFlush st1) = Some st2
      \<and> delivered st2 = delivered st @ [take BATCH_LINES (rl_queue st @ [t])] \<and> rl_flushTimer st2 = None"
    using assms(1,4)
    by (simp add: startFlush_def flushRelay_def enqueueSend_def Let_def st1_def st0_def setTimer_def finishJob_def at_rest_def
        job_sends_def delivered_def)
  ultimately show ?thesis by (simp only: e relay_run.simps Option.bind.simps) auto
qed

text \<open>
  C24. Whether a relay at rest sends the next text depends on the timer handle it has left. With no timer, request or suspended call, and
  not closed: when the handle is clear, a text that is new, not too early and within the number of messages is sent, together with
  the texts that wait before it, as soon as its timer fires and the request succeeds, and the handle is clear again. When the handle
  is set, which is how a follow-up timer leaves it, no text is sent, whatever events, timers and requests follow, until the relay is
  closed.
\<close>

theorem resting_relay_next_text:
  assumes "at_rest st" and "\<not> rl_closed st"
  shows "(rl_flushTimer st = None \<and> rl_sentCount st < MAX_PROGRESS_MESSAGES
      \<and> progressTextFromAgentEvent event = Some t \<and> t \<noteq> rl_lastText st \<and> 450 \<le> now - rl_lastSentAt st \<longrightarrow>
      (\<exists>st1. relay_run JSON_parse [Event now event, Fire (rl_nextTimer st), JobDone later True ok] st = Some st1
         \<and> delivered st1 = delivered st @ [take BATCH_LINES (rl_queue st @ [t])] \<and> rl_flushTimer st1 = None))
    \<and> (rl_flushTimer st \<noteq> None \<and> Close \<notin> set is \<and> relay_run JSON_parse is st = Some st1 \<longrightarrow> delivered st1 = delivered st)"
  using next_text_sent [OF assms] silent_run [OF rest_silent [OF assms]] by blast

definition demo_more :: "relay_input list" where
  "demo_more = map (\<lambda>c. Event 9000 (say_event [c])) ''efghi''"

text \<open>Four texts in quick succession leave a relay at rest with its handle set: the five texts that follow stay in the queue.\<close>

theorem resting_relay_next_text_witness:
  "relay_run (\<lambda>_. None) demo_lost new_relay = Some demo_silent
   \<and> map_option delivered (relay_run (\<lambda>_. None) demo_more demo_silent) = Some [[''a'', ''b'', ''c''], [''d'']]
   \<and> map_option rl_queue (relay_run (\<lambda>_. None) demo_more demo_silent) = Some [''e'', ''f'', ''g'', ''h'', ''i'']"
proof -
  have queue: "map_option rl_queue (relay_run (\<lambda>_. None) demo_more demo_silent) = Some [''e'', ''f'', ''g'', ''h'', ''i'']" by code_simp
  then obtain st1 where st1: "relay_run (\<lambda>_. None) demo_more demo_silent = Some st1" by auto
  have "Close \<notin> set demo_more" by (simp add: demo_more_def)
  moreover have "at_rest demo_silent" "\<not> rl_closed demo_silent" "rl_flushTimer demo_silent \<noteq> None"
    "delivered demo_silent = [[''a'', ''b'', ''c''], [''d'']]" by code_simp+
  ultimately have "delivered st1 = [[''a'', ''b'', ''c''], [''d'']]"
    using resting_relay_next_text [of demo_silent _ _ _ "\<lambda>_. None" _ _ demo_more st1] st1 by simp
  then show ?thesis using queue st1 demo_silent_run by simp
qed

text \<open>
  Closing sends three of these five texts and forgets the rest. And when a text arrives while
  the first message is under way, the follow-up timer overwrites the handle of the timer that
  was set for it: closing does not cancel the latter, and an update is sent after \<open>close\<close> has returned,
  that is, after the final reply.
\<close>

theorem close_loses_lines:
  "map_option delivered (relay_run (\<lambda>_. None) (demo_more @ [Close, JobDone 9500 True True, Resume 3, ResumeClose, ResumeClose]) demo_silent)
     = Some [[''a'', ''b'', ''c''], [''d''], [''e'', ''f'', ''g'']]"
  by code_simp

definition demo_late :: "relay_input list" where
  "demo_late = [Event 1000 (say_event ''a''), Fire 0] @ map (\<lambda>c. Event 1950 (say_event [c])) ''bcdef'' @
    [JobDone 2000 True True, Resume 1, Close, JobDone 2300 True True, Resume 2, ResumeClose, ResumeClose]"

theorem update_after_close:
  "map_option rl_close (relay_run (\<lambda>_. None) demo_late new_relay) = Some CloseReturned
   \<and> map_option delivered (relay_run (\<lambda>_. None) demo_late new_relay) = Some [[''a''], [''b'', ''c'', ''d'']]
   \<and> map_option delivered (relay_run (\<lambda>_. None) (demo_late @ [Fire 1, JobDone 2900 True True]) new_relay) =
       Some [[''a''], [''b'', ''c'', ''d''], [''e'', ''f'']]"
  by code_simp

theorem relay_bounded_witness:
  "length (delivered demo_silent) \<le> 8 \<and> subseq (concat (delivered demo_silent)) [''a'', ''b'', ''c'', ''d'']"
proof -
  have "relay_reach (\<lambda>_. None) ([] @ demo_lost) demo_silent" by (rule run_reach [OF demo_silent_run relay_reach.start])
  moreover have "rl_accepted demo_silent = [''a'', ''b'', ''c'', ''d'']" by code_simp
  ultimately show ?thesis using relay_bounded by metis
qed

definition demo_busy :: relay where
  "demo_busy = the (relay_run (\<lambda>_. None) (take 6 demo_lost) new_relay)"

theorem relay_comes_to_rest_witness:
  "\<exists>run st1. list_all is_internal run \<and> relay_run (\<lambda>_. None) run demo_busy = Some st1 \<and> at_rest st1 \<and> \<not> at_rest demo_busy"
proof -
  have "relay_run (\<lambda>_. None) (take 6 demo_lost) new_relay = Some demo_busy" "\<not> at_rest demo_busy" by code_simp+
  moreover from this(1) have "relay_reach (\<lambda>_. None) ([] @ take 6 demo_lost) demo_busy"
    by (rule run_reach [OF _ relay_reach.start])
  ultimately show ?thesis using relay_comes_to_rest by blast
qed

end
