(* ===== verification/Telegram_Bridge.thy ===== *)
theory Telegram_Bridge
  imports Config_State Pairing Session_Store
begin

text \<open>
  Messages from Telegram, \<open>src/channels/telegram.ts\<close> without the progress relay: long polling with an
  offset, the commands a chat may send, the admission of senders by the configuration and the
  pairing store, the message handed to the assistant and the reply. The state is the offset
  and what is on disk. What happens outside, the answers of Telegram, the assistant, the clock
  and random bytes, and what others do to the files in the meantime, such as the owner approving a code, is a record \<open>world\<close>,
  one for each update. An update is one step. The lemmas show which messages
  reach the assistant, that the bridge itself never changes who is admitted, that an approved code
  opens the chat, and that no update is handled twice or skipped.
\<close>

section \<open>Model\<close>

definition HEARTBEAT_MESSAGES :: "string list" where
  "HEARTBEAT_MESSAGES =
     [''heartbeat'', ''heart beat'', ''heart-beat'', ''/heartbeat'', ''ping'', ''/ping'',
      ''healthcheck'', ''health check'', ''health-check'', ''/health'']"

definition isHeartbeatCheckMessage :: "string \<Rightarrow> bool" where
  "isHeartbeatCheckMessage v \<longleftrightarrow> to_lower (trim v) \<in> set HEARTBEAT_MESSAGES"

record inbound_message =
  im_channel :: string
  im_message :: string
  im_sessionId :: string
  im_externalUserId :: string
  im_receivedAt :: int

record telegram_update =
  up_update_id :: int
  up_text :: "string option"
  up_from :: "int option"
  up_chat :: "int option"

text \<open>An error by its name and message, and what \<open>fetch\<close> ends in.\<close>

type_synonym js_error = "string \<times> string"

datatype fetch_outcome = FetchError js_error | HttpError int string | HttpJson jsv

text \<open>What is on disk: the state directory, the pairing store and the sessions.\<close>

record stores =
  s_files :: state_files
  s_pairing :: pairing_state
  s_disk :: disk

text \<open>\<open>w_meanwhile\<close> is what other programs and people did to the stores since the last update was handled.\<close>

record 'r world =
  w_env :: process_env
  w_meanwhile :: "stores \<Rightarrow> stores"
  w_fileExists :: "string \<Rightarrow> bool"
  w_now :: int
  w_bytes :: "nat \<Rightarrow> nat list"
  w_telegram :: "int \<Rightarrow> string \<Rightarrow> bool \<Rightarrow> fetch_outcome"
  w_handleMessage :: "inbound_message \<Rightarrow> stores \<Rightarrow> (js_error + 'r option) \<times> stores"
  w_format :: "'r \<Rightarrow> string"

datatype bridge_effect = SentMessage int string bool | AskedAssistant inbound_message

definition callTelegramApi :: "string \<Rightarrow> fetch_outcome \<Rightarrow> js_error + jsv" where
  "callTelegramApi name outcome =
     (case outcome of
        FetchError e \<Rightarrow> Inl e
      | HttpError status body \<Rightarrow>
          Inl (''Error'', ''Telegram API '' @ name @ '' failed: '' @ int_to_string status @ '' '' @ body)
      | HttpJson data \<Rightarrow>
          if nullish data then Inl (''TypeError'', ''Cannot read properties of '' @ to_str data)
          else if \<not> truthy (jget data ''ok'') then Inl (''Error'', ''Telegram API '' @ name @ '' returned ok=false'')
          else Inr (jget data ''result''))"

definition sendTelegramMessage :: "'r world \<Rightarrow> int \<Rightarrow> string \<Rightarrow> bool \<Rightarrow> bridge_effect list \<times> js_error option" where
  "sendTelegramMessage w chatId body html =
     (case callTelegramApi ''sendMessage'' (w_telegram w chatId body html) of
        Inl e \<Rightarrow> ([], Some e)
      | Inr _ \<Rightarrow> ([SentMessage chatId body html], None))"

definition dmPolicyOf :: "t560_config \<Rightarrow> dm_policy" where
  "dmPolicyOf config = (case Option.bind (cf_channels config) tg_dmPolicy of Some p \<Rightarrow> p | None \<Rightarrow> DmPairing)"

definition resolveDmPolicy :: "string \<Rightarrow> stores \<Rightarrow> dm_policy \<times> stores" where
  "resolveDmPolicy dir st =
     (let (config, files) = readConfig dir (s_files st) in (dmPolicyOf config, st\<lparr>s_files := files\<rparr>))"

text \<open>\<open>validateTelegramToken\<close> of this file: \<open>None\<close> for a valid token, else the message and whether to retry.\<close>

definition validateBridgeToken :: "fetch_outcome \<Rightarrow> (string \<times> bool) option" where
  "validateBridgeToken outcome =
     (case callTelegramApi ''getMe'' outcome of
        Inr _ \<Rightarrow> None
      | Inl (_, message) \<Rightarrow>
          (let unauthorized = str_includes message ''401'' \<or> str_includes message ''403'' \<or> str_includes message ''Unauthorized''
           in Some (message, \<not> unauthorized)))"

record acceptance =
  ac_allowed :: bool
  ac_dmPolicy :: dm_policy
  ac_pairingCode :: "string option"

definition shouldAcceptMessage :: "string \<Rightarrow> 'r world \<Rightarrow> int \<Rightarrow> int \<Rightarrow> stores \<Rightarrow> acceptance \<times> stores" where
  "shouldAcceptMessage dir w userId chatId st =
     (let (config, files) = readConfig dir (s_files st);
          st1 = st\<lparr>s_files := files\<rparr>;
          dmPolicy = dmPolicyOf config;
          verdict = (\<lambda>b. \<lparr>ac_allowed = b, ac_dmPolicy = dmPolicy, ac_pairingCode = None\<rparr>);
          user = int_to_string userId; chat = int_to_string chatId;
          listed = isAllowedTelegramSender config user \<or> isAllowedTelegramSender config chat
      in case dmPolicy of
           DmDisabled \<Rightarrow> (verdict False, st1)
         | DmOpen \<Rightarrow> (verdict True, st1)
         | DmAllowlist \<Rightarrow> (verdict listed, st1)
         | DmPairing \<Rightarrow>
             if listed then (verdict True, st1)
             else if isPairingApproved (w_now w) ''telegram'' user chat (s_pairing st1) then (verdict True, st1)
             else
               (let ((code, created), pairing) = requestPairingCode (w_bytes w) (w_now w) ''telegram'' user chat (s_pairing st1)
                in (\<lparr>ac_allowed = False, ac_dmPolicy = dmPolicy, ac_pairingCode = Some code\<rparr>,
                    st1\<lparr>s_pairing := pairing\<rparr>)))"

definition START_TEXT :: string where
  "START_TEXT = ''t560 connected. Send a message and I will reply. Use /status for mode + onboarding status.''"

definition statusText :: "onboarding_status \<Rightarrow> dm_policy \<Rightarrow> string" where
  "statusText status dmPolicy =
     (let missing = js_join '', '' (os_missing status) in
      ''t560 status: '' @ (if os_onboarded status then ''provider'' else ''foundation'') @
      ''. dmPolicy='' @ dm_text dmPolicy @ ''. Missing: '' @ (if missing = [] then ''none'' else missing) @ ''.'')"

definition refusalText :: "acceptance \<Rightarrow> string" where
  "refusalText auth =
     (case ac_dmPolicy auth of
        DmDisabled \<Rightarrow> ''Telegram DMs are disabled for this bot.''
      | DmAllowlist \<Rightarrow> ''This chat is not allowed. Ask the owner to allowlist your Telegram user/chat ID.''
      | _ \<Rightarrow>
          js_join [CHR 0x0A]
            [''Pairing required before I can respond in this chat.'',
             ''Your pairing code: '' @ (case ac_pairingCode auth of Some c \<Rightarrow> c | None \<Rightarrow> ''(unknown)''),
             ''Owner command:'',
             ''t560 pairing approve telegram '' @ (case ac_pairingCode auth of Some c \<Rightarrow> c | None \<Rightarrow> ''<code>'')])"

definition telegramSession :: "int \<Rightarrow> string" where
  "telegramSession chatId = ''telegram:'' @ int_to_string chatId"

text \<open>What was done, the error that was thrown, and the stores afterwards.\<close>

type_synonym handled = "bridge_effect list \<times> js_error option \<times> stores"

definition reply_with :: "'r world \<Rightarrow> int \<Rightarrow> string \<Rightarrow> stores \<Rightarrow> handled" where
  "reply_with w chatId body st = (let (effects, failure) = sendTelegramMessage w chatId body False in (effects, failure, st))"

definition askAssistant :: "'r world \<Rightarrow> int \<Rightarrow> int \<Rightarrow> string \<Rightarrow> stores \<Rightarrow> handled" where
  "askAssistant w fromId chatId body st =
     (let message = \<lparr>im_channel = ''telegram'', im_message = body, im_sessionId = telegramSession chatId,
                     im_externalUserId = int_to_string fromId, im_receivedAt = w_now w\<rparr>
      in case w_handleMessage w message st of
           (Inl e, st1) \<Rightarrow> ([AskedAssistant message], Some e, st1)
         | (Inr None, st1) \<Rightarrow> ([AskedAssistant message], None, st1)
         | (Inr (Some reply), st1) \<Rightarrow>
             (let (effects, failure) = sendTelegramMessage w chatId (w_format w reply) True
              in (AskedAssistant message # effects, failure, st1)))"

definition handleUpdate :: "string \<Rightarrow> 'r world \<Rightarrow> telegram_update \<Rightarrow> stores \<Rightarrow> handled" where
  "handleUpdate dir w up st =
     (let body = (case up_text up of Some t \<Rightarrow> trim t | None \<Rightarrow> []);
          from_chat = (case up_from up of Some f \<Rightarrow> Some f | None \<Rightarrow> up_chat up)
      in case (up_chat up, from_chat) of
           (Some chatId, Some fromId) \<Rightarrow>
             if body = [] then ([], None, st)
             else if isHeartbeatCheckMessage body then ([], None, st)
             else if body = ''/start'' then reply_with w chatId START_TEXT st
             else if body = ''/status'' then
               (let (status, files) = readOnboardingStatus (w_env w) (w_fileExists w) dir (s_files st);
                    (dmPolicy, st1) = resolveDmPolicy dir (st\<lparr>s_files := files\<rparr>)
                in reply_with w chatId (statusText status dmPolicy) st1)
             else if body = ''/new'' \<or> body = ''/reset'' then
               reply_with w chatId ''Started a fresh chat session for this conversation.''
                 (st\<lparr>s_disk := clearSessionMessages dir (telegramSession chatId) (s_disk st)\<rparr>)
             else
               (let (auth, st1) = shouldAcceptMessage dir w fromId chatId st in
                if \<not> ac_allowed auth then reply_with w chatId (refusalText auth) st1
                else askAssistant w fromId chatId body st1)
         | _ \<Rightarrow> ([], None, st))"

section \<open>Polling\<close>

record bridge =
  br_offset :: int
  br_stores :: stores

text \<open>A log entry: the update, the stores when it was handled, and what was done for it.\<close>

type_synonym log_entry = "telegram_update \<times> stores \<times> bridge_effect list"

text \<open>The loop over one batch; an error leaves it.\<close>

fun runUpdates ::
  "string \<Rightarrow> ('r world \<times> telegram_update) list \<Rightarrow> bridge \<Rightarrow> log_entry list \<times> js_error option \<times> bridge" where
  "runUpdates dir [] br = ([], None, br)"
| "runUpdates dir ((w, up) # rest) br =
     (let offset = max (br_offset br) (up_update_id up + 1);
          st0 = w_meanwhile w (br_stores br);
          (effects, failure, st) = handleUpdate dir w up st0;
          br1 = \<lparr>br_offset = offset, br_stores = st\<rparr>
      in case failure of
           Some e \<Rightarrow> ([(up, st0, effects)], Some e, br1)
         | None \<Rightarrow>
             (let (log, result, br2) = runUpdates dir rest br1 in ((up, st0, effects) # log, result, br2)))"

text \<open>
  One pass of the \<open>while\<close> loop: \<open>getUpdates\<close> answers for the offset, \<open>running\<close> is the flag when an error is
  caught. The result tells whether the loop goes on.
\<close>

definition pollRound ::
  "string \<Rightarrow> bool \<Rightarrow> (int \<Rightarrow> js_error + ('r world \<times> telegram_update) list) \<Rightarrow> bridge \<Rightarrow> log_entry list \<times> bool \<times> bridge" where
  "pollRound dir running getUpdates br =
     (let (log, failure, br1) =
        (case getUpdates (br_offset br) of
           Inl e \<Rightarrow> ([], Some e, br)
         | Inr updates \<Rightarrow> runUpdates dir updates br)
      in (log, (case failure of None \<Rightarrow> running | Some (name, message) \<Rightarrow> running \<and> name \<noteq> ''AbortError''), br1))"

fun pollLoop ::
  "string \<Rightarrow> (bool \<times> (int \<Rightarrow> js_error + ('r world \<times> telegram_update) list)) list \<Rightarrow> bridge \<Rightarrow> log_entry list \<times> bridge" where
  "pollLoop dir [] br = ([], br)"
| "pollLoop dir ((running, getUpdates) # rounds) br =
     (let (log, go_on, br1) = pollRound dir running getUpdates br in
      if go_on then (let (log2, br2) = pollLoop dir rounds br1 in (log @ log2, br2)) else (log, br1))"

definition startTelegramBridge ::
  "process_env \<Rightarrow> (string \<Rightarrow> bool) \<Rightarrow> string option \<Rightarrow> string option \<Rightarrow> string \<Rightarrow> stores \<Rightarrow> (string + bridge) \<times> stores" where
  "startTelegramBridge env fileExists T560_TELEGRAM_BOT_TOKEN TELEGRAM_BOT_TOKEN dir st =
     (let (status, files) = readOnboardingStatus env fileExists dir (s_files st);
          st1 = st\<lparr>s_files := files\<rparr>
      in case resolveTelegramBotToken T560_TELEGRAM_BOT_TOKEN TELEGRAM_BOT_TOKEN (os_config status) of
           Some (c # cs) \<Rightarrow> (Inr \<lparr>br_offset = 0, br_stores = st1\<rparr>, st1)
         | _ \<Rightarrow> (Inl ''Telegram disabled (missing token). Set T560_TELEGRAM_BOT_TOKEN or channels.telegram.botToken.'', st1))"

section \<open>Who reaches the assistant\<close>

definition config_at :: "string \<Rightarrow> stores \<Rightarrow> t560_config" where
  "config_at dir st = fst (readConfig dir (s_files st))"

definition listed :: "t560_config \<Rightarrow> int \<Rightarrow> int \<Rightarrow> bool" where
  "listed config userId chatId \<longleftrightarrow>
     isAllowedTelegramSender config (int_to_string userId) \<or> isAllowedTelegramSender config (int_to_string chatId)"

text \<open>The promise: what the policy says of a sender in a chat.\<close>

definition admits :: "t560_config \<Rightarrow> pairing_state \<Rightarrow> int \<Rightarrow> int \<Rightarrow> bool" where
  "admits config pairing userId chatId =
     (case dmPolicyOf config of
        DmOpen \<Rightarrow> True
      | DmDisabled \<Rightarrow> False
      | DmAllowlist \<Rightarrow> listed config userId chatId
      | DmPairing \<Rightarrow> listed config userId chatId
          \<or> isPairingApproved 0 ''telegram'' (int_to_string userId) (int_to_string chatId) pairing)"

definition is_command :: "string \<Rightarrow> bool" where
  "is_command body \<longleftrightarrow> isHeartbeatCheckMessage body \<or> body \<in> {''/start'', ''/status'', ''/new'', ''/reset''}"

definition sender_of :: "telegram_update \<Rightarrow> int option" where
  "sender_of up = (case up_from up of Some f \<Rightarrow> Some f | None \<Rightarrow> up_chat up)"

definition body_of :: "telegram_update \<Rightarrow> string" where
  "body_of up = (case up_text up of Some t \<Rightarrow> trim t | None \<Rightarrow> [])"

definition message_of :: "'r world \<Rightarrow> int \<Rightarrow> int \<Rightarrow> string \<Rightarrow> inbound_message" where
  "message_of w fromId chatId body =
     \<lparr>im_channel = ''telegram'', im_message = body, im_sessionId = telegramSession chatId,
      im_externalUserId = int_to_string fromId, im_receivedAt = w_now w\<rparr>"

text \<open>The message is the text of the update, under the session of the chat and the id of the sender.\<close>

definition from_sender :: "telegram_update \<Rightarrow> int \<Rightarrow> int \<Rightarrow> inbound_message \<Rightarrow> bool" where
  "from_sender up userId chatId m \<longleftrightarrow> up_chat up = Some chatId \<and> sender_of up = Some userId \<and> im_message m = body_of up
     \<and> im_sessionId m = telegramSession chatId \<and> im_externalUserId m = int_to_string userId"

lemma approved_any_now: "isPairingApproved now c u h p = isPairingApproved 0 c u h p"
  unfolding isPairingApproved_granted by simp

lemma readConfig_again [simp]: "readConfig dir (snd (readConfig dir files)) = readConfig dir files"
  by (simp add: readConfig_def Let_def)

lemma readOnboarding_files: "snd (readOnboardingStatus env fe dir files) = snd (readConfig dir files)"
  by (simp add: readOnboardingStatus_def readConfig_def Let_def)

lemma config_at_read [simp]: "config_at dir (st\<lparr>s_files := snd (readConfig dir (s_files st))\<rparr>) = config_at dir st"
  by (simp add: config_at_def)

text \<open>The decision and the stores after it: only the pairing store may have a new request.\<close>

lemma shouldAccept_allowed:
  "ac_allowed (fst (shouldAcceptMessage dir w u h st)) \<longleftrightarrow> admits (config_at dir st) (s_pairing st) u h"
  unfolding shouldAcceptMessage_def admits_def listed_def config_at_def approved_any_now [of "w_now w"] Let_def
  by (simp add: case_prod_unfold split: dm_policy.split)

lemma shouldAccept_stores:
  "\<exists>p. snd (shouldAcceptMessage dir w u h st) = st\<lparr>s_files := snd (readConfig dir (s_files st)), s_pairing := p\<rparr>
     \<and> (p = s_pairing st \<or> p = snd (requestPairingCode (w_bytes w) (w_now w) ''telegram'' (int_to_string u) (int_to_string h) (s_pairing st)))"
proof (rule exI [of _ "s_pairing (snd (shouldAcceptMessage dir w u h st))"])
  have same: "st\<lparr>s_files := f, s_pairing := s_pairing st\<rparr> = st\<lparr>s_files := f\<rparr>" for f by simp
  show "snd (shouldAcceptMessage dir w u h st) =
      st\<lparr>s_files := snd (readConfig dir (s_files st)), s_pairing := s_pairing (snd (shouldAcceptMessage dir w u h st))\<rparr>
     \<and> (s_pairing (snd (shouldAcceptMessage dir w u h st)) = s_pairing st \<or> s_pairing (snd (shouldAcceptMessage dir w u h st))
         = snd (requestPairingCode (w_bytes w) (w_now w) ''telegram'' (int_to_string u) (int_to_string h) (s_pairing st)))"
    unfolding shouldAcceptMessage_def Let_def by (simp add: case_prod_unfold same split: dm_policy.split)
qed

lemma asked_by_assistant: "AskedAssistant m \<in> set (fst (askAssistant w u h body st)) \<longleftrightarrow> m = message_of w u h body"
  by (auto simp: askAssistant_def message_of_def sendTelegramMessage_def Let_def split: prod.splits sum.splits option.splits)

lemma not_asked_reply [simp]: "AskedAssistant m \<notin> set (fst (reply_with w h body st))"
  by (auto simp: reply_with_def sendTelegramMessage_def split: prod.splits sum.splits)

lemma handleUpdate_asked:
  "AskedAssistant m \<in> set (fst (handleUpdate dir w up st)) \<longleftrightarrow>
     (\<exists>h u. up_chat up = Some h \<and> sender_of up = Some u \<and> body_of up \<noteq> [] \<and> \<not> is_command (body_of up)
        \<and> admits (config_at dir st) (s_pairing st) u h \<and> m = message_of w u h (body_of up))"
proof -
  have allowed: "ac_allowed (fst (shouldAcceptMessage dir w u h st)) = admits (config_at dir st) (s_pairing st) u h" for u h
    by (rule shouldAccept_allowed)
  show ?thesis
    unfolding handleUpdate_def Let_def sender_of_def [symmetric] body_of_def [symmetric] is_command_def
    by (simp add: asked_by_assistant allowed case_prod_unfold split: option.split)
qed


section \<open>Who changes admission\<close>

text \<open>Two stores that admit the same senders.\<close>

definition same_admission :: "string \<Rightarrow> stores \<Rightarrow> stores \<Rightarrow> bool" where
  "same_admission dir st st1 \<longleftrightarrow> config_at dir st1 = config_at dir st \<and> state_ok (s_pairing st1)
     \<and> (\<forall>ch x. granted (s_pairing st1) ch x \<longleftrightarrow> granted (s_pairing st) ch x)"

lemma same_admission_admits:
  "same_admission dir st st1 \<Longrightarrow> admits (config_at dir st1) (s_pairing st1) u h = admits (config_at dir st) (s_pairing st) u h"
  by (simp add: same_admission_def admits_def isPairingApproved_granted split: dm_policy.split)

lemma same_admission_refl: "state_ok (s_pairing st) \<Longrightarrow> same_admission dir st st"
  by (simp add: same_admission_def)

lemma same_admission_trans: "same_admission dir a b \<Longrightarrow> same_admission dir b c \<Longrightarrow> same_admission dir a c"
  by (simp add: same_admission_def)

lemma same_admission_ok: "same_admission dir st st1 \<Longrightarrow> state_ok (s_pairing st1)"
  by (simp add: same_admission_def)

text \<open>Codes are drawn from eight random bytes, and nobody else, the assistant included, changes configuration and approvals.\<close>

definition world_ok :: "string \<Rightarrow> 'r world \<Rightarrow> bool" where
  "world_ok dir w \<longleftrightarrow> (\<forall>j. length (w_bytes w j) = 8)
     \<and> (\<forall>st. state_ok (s_pairing st) \<longrightarrow> same_admission dir st (w_meanwhile w st))
     \<and> (\<forall>m st. state_ok (s_pairing st) \<longrightarrow> same_admission dir st (snd (w_handleMessage w m st)))"

lemma int_to_string_clean: "trim (int_to_string i) = int_to_string i" "int_to_string i \<noteq> []"
proof -
  have "\<not> is_ws c" if "c \<in> set (int_to_string i)" for c
    using that nat_to_string_digits [of c] by (auto simp: int_to_string_def is_digit_def is_ws_code code_of_def split: if_splits)
  then show "trim (int_to_string i) = int_to_string i" by (intro trim_nonblank) simp
  show "int_to_string i \<noteq> []" by (simp add: int_to_string_def)
qed

lemma shouldAccept_keeps:
  assumes "state_ok (s_pairing st)" "world_ok dir w"
  shows "same_admission dir st (snd (shouldAcceptMessage dir w u h st))"
proof -
  have eight: "length (w_bytes w j) = 8" for j using assms(2) by (simp add: world_ok_def)
  have nonblank: "trim ''telegram'' \<noteq> []" "trim (int_to_string i) \<noteq> []" for i
    by (code_simp, simp add: int_to_string_clean)
  obtain p where p: "snd (shouldAcceptMessage dir w u h st) = st\<lparr>s_files := snd (readConfig dir (s_files st)), s_pairing := p\<rparr>"
    "p = s_pairing st \<or> p = snd (requestPairingCode (w_bytes w) (w_now w) ''telegram'' (int_to_string u) (int_to_string h) (s_pairing st))"
    using shouldAccept_stores by blast
  have "config_at dir (st\<lparr>s_files := snd (readConfig dir (s_files st)), s_pairing := p\<rparr>) = config_at dir st"
    by (simp add: config_at_def)
  with p(2) assms(1) show ?thesis
    unfolding p(1) same_admission_def
    using request_keeps_grants [where bytes = "w_bytes w", OF assms(1) eight nonblank(1) nonblank(2) nonblank(2)] by auto
qed

lemma reply_with_stores [simp]: "snd (snd (reply_with w h body st)) = st"
  by (simp add: reply_with_def Let_def case_prod_unfold)

lemma askAssistant_stores: "snd (snd (askAssistant w u h body st)) = snd (w_handleMessage w (message_of w u h body) st)"
  by (simp add: askAssistant_def message_of_def Let_def case_prod_unfold split: prod.splits sum.splits option.splits)

lemma askAssistant_keeps:
  assumes "state_ok (s_pairing st)" "world_ok dir w"
  shows "same_admission dir st (snd (snd (askAssistant w u h body st)))"
  using assms unfolding askAssistant_stores world_ok_def by blast

lemma same_admission_disk: "state_ok (s_pairing st) \<Longrightarrow> same_admission dir st (st\<lparr>s_disk := d\<rparr>)"
  by (simp add: same_admission_def config_at_def)

lemma status_keeps:
  "state_ok (s_pairing st) \<Longrightarrow>
   same_admission dir st (snd (resolveDmPolicy dir (st\<lparr>s_files := snd (readOnboardingStatus env fe dir (s_files st))\<rparr>)))"
  by (simp add: same_admission_def config_at_def resolveDmPolicy_def readOnboarding_files Let_def case_prod_unfold)

lemma handleUpdate_keeps:
  assumes "state_ok (s_pairing st)" "world_ok dir w"
  shows "same_admission dir st (snd (snd (handleUpdate dir w up st)))"
proof -
  have asked: "same_admission dir st (snd (snd (askAssistant w u h body (snd (shouldAcceptMessage dir w u h st)))))" for u h body
    using askAssistant_keeps [OF same_admission_ok [OF shouldAccept_keeps [OF assms]] assms(2)]
      shouldAccept_keeps [OF assms] same_admission_trans by blast
  show ?thesis
    unfolding handleUpdate_def Let_def case_prod_unfold
    using asked shouldAccept_keeps [OF assms] same_admission_refl [OF assms(1)] same_admission_disk [OF assms(1)]
      status_keeps [OF assms(1)]
    by (simp split: option.split)
qed

text \<open>Every entry of the log is an update that was handled with the stores in it.\<close>

lemma runUpdates_Cons:
  assumes "runUpdates dir ((w, up) # rest) br = (entries, failure, br1)"
  obtains effects fail st where "handleUpdate dir w up (w_meanwhile w (br_stores br)) = (effects, fail, st)"
    and "fail = None \<longrightarrow> runUpdates dir rest \<lparr>br_offset = max (br_offset br) (up_update_id up + 1), br_stores = st\<rparr> = (tl entries, failure, br1)"
    and "fail \<noteq> None \<longrightarrow> tl entries = [] \<and> br1 = \<lparr>br_offset = max (br_offset br) (up_update_id up + 1), br_stores = st\<rparr>"
    and "entries = (up, w_meanwhile w (br_stores br), effects) # tl entries"
proof -
  obtain effects fail st where h: "handleUpdate dir w up (w_meanwhile w (br_stores br)) = (effects, fail, st)" by (metis prod_cases3)
  show thesis
    by (rule that [OF h]) (use assms h in \<open>auto simp: Let_def split: prod.splits option.splits\<close>)
qed

lemma runUpdates_entries:
  fixes ups :: "('r world \<times> telegram_update) list"
  shows "runUpdates dir ups br = (entries, failure, br1) \<Longrightarrow> (up, st, effects) \<in> set entries \<Longrightarrow>
    \<exists>w :: 'r world. effects = fst (handleUpdate dir w up st)"
proof (induction ups arbitrary: br entries failure br1)
  case (Cons wu rest)
  obtain w u where wu: "wu = (w, u)" by (cases wu)
  from Cons.prems(1) [unfolded wu] obtain effects' fail st' where
    h: "handleUpdate dir w u (w_meanwhile w (br_stores br)) = (effects', fail, st')"
    and r: "fail = None \<longrightarrow> runUpdates dir rest \<lparr>br_offset = max (br_offset br) (up_update_id u + 1), br_stores = st'\<rparr> = (tl entries, failure, br1)"
    and f: "fail \<noteq> None \<longrightarrow> tl entries = [] \<and> br1 = \<lparr>br_offset = max (br_offset br) (up_update_id u + 1), br_stores = st'\<rparr>"
    and e: "entries = (u, w_meanwhile w (br_stores br), effects') # tl entries"
    by (rule runUpdates_Cons)
  have "(up, st, effects) = (u, w_meanwhile w (br_stores br), effects') \<or> (up, st, effects) \<in> set (tl entries)"
    using Cons.prems(2) e by (metis set_ConsD)
  then show ?case
  proof
    assume "(up, st, effects) = (u, w_meanwhile w (br_stores br), effects')"
    then show ?thesis using h by (intro exI [of _ w]) simp
  next
    assume t: "(up, st, effects) \<in> set (tl entries)"
    then have "fail = None" using f by (cases fail) auto
    from Cons.IH [OF mp [OF r this] t] show ?thesis .
  qed
qed simp

text \<open>The worlds of all updates a polling function may return.\<close>

definition rounds_ok :: "string \<Rightarrow> (bool \<times> (int \<Rightarrow> js_error + ('r world \<times> telegram_update) list)) list \<Rightarrow> bool" where
  "rounds_ok dir rounds \<longleftrightarrow>
     (\<forall>(running, getUpdates) \<in> set rounds. \<forall>offset ups. getUpdates offset = Inr ups \<longrightarrow> (\<forall>(w, up) \<in> set ups. world_ok dir w))"

lemma runUpdates_keeps:
  assumes "state_ok (s_pairing (br_stores br))" "\<forall>(w, up) \<in> set ups. world_ok dir w" "runUpdates dir ups br = (entries, failure, br1)"
  shows "same_admission dir (br_stores br) (br_stores br1) \<and> (\<forall>(up, st, effects) \<in> set entries. same_admission dir (br_stores br) st)"
  using assms
proof (induction ups arbitrary: br entries failure br1)
  case Nil
  then show ?case by (simp add: same_admission_refl)
next
  case (Cons wu rest)
  obtain w u where wu: "wu = (w, u)" by (cases wu)
  from Cons.prems(3) [unfolded wu] obtain effects' fail st' where
    h: "handleUpdate dir w u (w_meanwhile w (br_stores br)) = (effects', fail, st')"
    and r: "fail = None \<longrightarrow> runUpdates dir rest \<lparr>br_offset = max (br_offset br) (up_update_id u + 1), br_stores = st'\<rparr> = (tl entries, failure, br1)"
    and f: "fail \<noteq> None \<longrightarrow> tl entries = [] \<and> br1 = \<lparr>br_offset = max (br_offset br) (up_update_id u + 1), br_stores = st'\<rparr>"
    and e: "entries = (u, w_meanwhile w (br_stores br), effects') # tl entries"
    by (rule runUpdates_Cons)
  have w: "world_ok dir w" using Cons.prems(2) wu by simp
  have k0: "same_admission dir (br_stores br) (w_meanwhile w (br_stores br))" using w Cons.prems(1) by (simp add: world_ok_def)
  have k1: "same_admission dir (br_stores br) st'"
    using handleUpdate_keeps [OF same_admission_ok [OF k0] w, of u] h same_admission_trans [OF k0] by simp
  have rest: "same_admission dir st' (br_stores br1) \<and> (\<forall>(up, st, effects) \<in> set (tl entries). same_admission dir st' st)"
  proof (cases fail)
    case None
    show ?thesis using Cons.IH [OF _ _ mp [OF r None]] same_admission_ok [OF k1] Cons.prems(2) by simp
  next
    case (Some x)
    then show ?thesis using f same_admission_refl [OF same_admission_ok [OF k1]] by simp
  qed
  show ?case
  proof (intro conjI)
    show "same_admission dir (br_stores br) (br_stores br1)" using same_admission_trans [OF k1] rest by blast
    show "\<forall>(up, st, effects) \<in> set entries. same_admission dir (br_stores br) st"
      using k0 rest same_admission_trans [OF k1] by (subst e) auto
  qed
qed

lemma pollRound_cases:
  obtains (failed) e where "getUpdates (br_offset br) = Inl e" "fst (pollRound dir running getUpdates br) = []"
      "snd (snd (pollRound dir running getUpdates br)) = br"
  | (batch) ups failure where "getUpdates (br_offset br) = Inr ups"
      "runUpdates dir ups br = (fst (pollRound dir running getUpdates br), failure, snd (snd (pollRound dir running getUpdates br)))"
proof (cases "getUpdates (br_offset br)")
  case (Inl e)
  then show thesis using that(1) [of e] by (simp add: pollRound_def)
next
  case (Inr ups)
  then show thesis using that(2) [of ups "fst (snd (runUpdates dir ups br))"] by (simp add: pollRound_def Let_def case_prod_unfold)
qed

lemma pollLoop_log:
  "set (fst (pollLoop dir ((running, getUpdates) # rounds) br)) \<subseteq>
     set (fst (pollRound dir running getUpdates br)) \<union> set (fst (pollLoop dir rounds (snd (snd (pollRound dir running getUpdates br)))))"
  by (auto simp: Let_def case_prod_unfold)

lemma pollLoop_entries:
  fixes rounds :: "(bool \<times> (int \<Rightarrow> js_error + ('r world \<times> telegram_update) list)) list"
  shows "(up, st, effects) \<in> set (fst (pollLoop dir rounds br)) \<Longrightarrow> \<exists>w :: 'r world. effects = fst (handleUpdate dir w up st)"
proof (induction rounds arbitrary: br)
  case (Cons r rounds)
  obtain running getUpdates where r: "r = (running, getUpdates)" by (cases r)
  consider "(up, st, effects) \<in> set (fst (pollRound dir running getUpdates br))"
    | "(up, st, effects) \<in> set (fst (pollLoop dir rounds (snd (snd (pollRound dir running getUpdates br)))))"
    using Cons.prems pollLoop_log unfolding r by blast
  then show ?case
  proof cases
    case 1
    show ?thesis by (cases rule: pollRound_cases [of getUpdates br dir running]) (use 1 runUpdates_entries in \<open>fastforce+\<close>)
  next
    case 2
    then show ?thesis by (rule Cons.IH)
  qed
qed simp

lemma pollLoop_keeps:
  assumes "state_ok (s_pairing (br_stores br))" "rounds_ok dir rounds" "(up, st, effects) \<in> set (fst (pollLoop dir rounds br))"
  shows "same_admission dir (br_stores br) st"
  using assms
proof (induction rounds arbitrary: br)
  case (Cons r rounds)
  obtain running getUpdates where r: "r = (running, getUpdates)" by (cases r)
  let ?p = "pollRound dir running getUpdates br"
  let ?br = "snd (snd ?p)"
  have worlds: "\<forall>(w, up) \<in> set ups. world_ok dir w" if "getUpdates (br_offset br) = Inr ups" for ups
    using Cons.prems(2) that unfolding rounds_ok_def r by fastforce
  have round: "same_admission dir (br_stores br) (br_stores ?br) \<and> (\<forall>(up, st, effects) \<in> set (fst ?p). same_admission dir (br_stores br) st)"
  proof (cases rule: pollRound_cases [of getUpdates br dir running])
    case failed
    then show ?thesis using same_admission_refl [OF Cons.prems(1)] by simp
  next
    case (batch ups failure)
    show ?thesis by (rule runUpdates_keeps [OF Cons.prems(1) worlds [OF batch(1)] batch(2)])
  qed
  consider "(up, st, effects) \<in> set (fst ?p)" | "(up, st, effects) \<in> set (fst (pollLoop dir rounds ?br))"
    using Cons.prems(3) pollLoop_log unfolding r by blast
  then show ?case
  proof cases
    case 1
    then show ?thesis using round by blast
  next
    case 2
    have "rounds_ok dir rounds" using Cons.prems(2) by (simp add: rounds_ok_def)
    from Cons.IH [OF same_admission_ok [OF conjunct1 [OF round]] this 2] show ?thesis
      using same_admission_trans [OF conjunct1 [OF round]] by blast
  qed
qed simp

text \<open>
  C20. However long the bridge polls, whatever is sent to it, and whatever the owner, other programs and the assistant do to the files in
  the meantime: for every update that is handled, the assistant is asked just when the update has a text that is no command and the
  configuration and the approvals in force at that moment admit its sender in its chat; the message then carries the text, the
  session of the chat and the id of the sender. And the bridge admits nobody by itself: when nobody else changes the configuration
  or the approvals, what admits a sender is what was in force at the start; codes that are asked for and failed requests do not count.
\<close>

theorem only_admitted_reach_assistant:
  fixes rounds :: "(bool \<times> (int \<Rightarrow> js_error + ('r world \<times> telegram_update) list)) list"
  assumes "(up, st, effects) \<in> set (fst (pollLoop dir rounds br))"
  shows "(AskedAssistant m \<in> set effects \<longrightarrow>
      (\<exists>u h. from_sender up u h m \<and> \<not> is_command (body_of up) \<and> admits (config_at dir st) (s_pairing st) u h))
    \<and> (up_chat up = Some h \<and> sender_of up = Some u \<and> body_of up \<noteq> [] \<and> \<not> is_command (body_of up)
        \<and> admits (config_at dir st) (s_pairing st) u h \<longrightarrow> (\<exists>m. AskedAssistant m \<in> set effects \<and> from_sender up u h m))
    \<and> (state_ok (s_pairing (br_stores br)) \<and> rounds_ok dir rounds \<longrightarrow>
        admits (config_at dir st) (s_pairing st) u h = admits (config_at dir (br_stores br)) (s_pairing (br_stores br)) u h)"
proof -
  obtain w :: "'r world" where e: "effects = fst (handleUpdate dir w up st)" using pollLoop_entries [OF assms] by blast
  show ?thesis
    unfolding e handleUpdate_asked using pollLoop_keeps [OF _ _ assms] same_admission_admits
    by (auto simp: from_sender_def message_of_def)
qed

section \<open>Every update once\<close>

text \<open>What Telegram documents of \<open>getUpdates\<close>: no update before the offset, in the order of their ids.\<close>

definition telegram_contract :: "(bool \<times> (int \<Rightarrow> js_error + ('r world \<times> telegram_update) list)) list \<Rightarrow> bool" where
  "telegram_contract rounds \<longleftrightarrow>
     (\<forall>(running, getUpdates) \<in> set rounds. \<forall>offset ups. getUpdates offset = Inr ups \<longrightarrow>
        sorted_wrt (<) (map (\<lambda>x. up_update_id (snd x)) ups) \<and> (\<forall>(w, up) \<in> set ups. offset \<le> up_update_id up))"

definition handled_ids :: "log_entry list \<Rightarrow> int list" where
  "handled_ids entries = map (\<lambda>x. up_update_id (fst x)) entries"

lemma runUpdates_ids:
  assumes "runUpdates dir ups br = (entries, failure, br1)" "sorted_wrt (<) (map (\<lambda>x. up_update_id (snd x)) ups)"
    "\<forall>(w, up) \<in> set ups. br_offset br \<le> up_update_id up"
  shows "map fst entries = take (length entries) (map snd ups) \<and> br_offset br \<le> br_offset br1
    \<and> (\<forall>i \<in> set (handled_ids entries). br_offset br \<le> i \<and> i < br_offset br1)
    \<and> (\<forall>(w, up) \<in> set (drop (length entries) ups). br_offset br1 \<le> up_update_id up)"
  using assms
proof (induction ups arbitrary: br entries)
  case (Cons wu rest)
  obtain w up where wu: "wu = (w, up)" by (cases wu)
  obtain effects fail st where h: "handleUpdate dir w up (w_meanwhile w (br_stores br)) = (effects, fail, st)" by (metis prod_cases3)
  let ?br = "\<lparr>br_offset = max (br_offset br) (up_update_id up + 1), br_stores = st\<rparr>"
  have off: "br_offset ?br = up_update_id up + 1" using Cons.prems(3) wu by simp
  have rest: "sorted_wrt (<) (map (\<lambda>x. up_update_id (snd x)) rest)" "\<forall>(w, u) \<in> set rest. up_update_id up + 1 \<le> up_update_id u"
    using Cons.prems(2) wu by auto
  show ?case
  proof (cases fail)
    case (Some e)
    with Cons.prems(1) wu h have "entries = [(up, w_meanwhile w (br_stores br), effects)]" "br1 = ?br" by simp_all
    with rest(2) off Cons.prems(3) wu show ?thesis by (simp add: handled_ids_def)
  next
    case None
    obtain log2 f2 br2 where r: "runUpdates dir rest ?br = (log2, f2, br2)" by (cases "runUpdates dir rest ?br")
    from Cons.prems(1) wu h None r have out: "entries = (up, w_meanwhile w (br_stores br), effects) # log2" "f2 = failure" "br1 = br2" by simp_all
    have "runUpdates dir rest ?br = (log2, failure, br1)" using r out by simp
    from Cons.IH [OF this rest(1)] rest(2) off have
      "map fst log2 = take (length log2) (map snd rest) \<and> up_update_id up + 1 \<le> br_offset br1
       \<and> (\<forall>i \<in> set (handled_ids log2). up_update_id up + 1 \<le> i \<and> i < br_offset br1)
       \<and> (\<forall>(w, up) \<in> set (drop (length log2) rest). br_offset br1 \<le> up_update_id up)" unfolding off by simp
    then show ?thesis using out(1) wu Cons.prems(3) by (auto simp: handled_ids_def)
  qed
qed (simp add: handled_ids_def)

lemma runUpdates_sorted:
  assumes "map fst entries = take (length entries) (map snd ups)" "sorted_wrt (<) (map (\<lambda>x. up_update_id (snd x)) ups)"
  shows "sorted_wrt (<) (handled_ids entries)"
proof -
  have "handled_ids entries = take (length entries) (map (\<lambda>x. up_update_id (snd x)) ups)"
    using arg_cong [OF assms(1), of "map up_update_id"] by (simp add: handled_ids_def take_map comp_def)
  then show ?thesis using assms(2) by (simp add: sorted_wrt_take)
qed

lemma pollLoop_ids:
  assumes "telegram_contract rounds"
  shows "sorted_wrt (<) (handled_ids (fst (pollLoop dir rounds br))) \<and> br_offset br \<le> br_offset (snd (pollLoop dir rounds br))
    \<and> (\<forall>i \<in> set (handled_ids (fst (pollLoop dir rounds br))). br_offset br \<le> i \<and> i < br_offset (snd (pollLoop dir rounds br)))"
  using assms
proof (induction rounds arbitrary: br)
  case (Cons r rounds)
  obtain running getUpdates where r: "r = (running, getUpdates)" by (cases r)
  let ?p = "pollRound dir running getUpdates br"
  let ?br = "snd (snd ?p)"
  have contract: "sorted_wrt (<) (map (\<lambda>x. up_update_id (snd x)) ups)" "\<forall>(w, up) \<in> set ups. br_offset br \<le> up_update_id up"
    if "getUpdates (br_offset br) = Inr ups" for ups
    using Cons.prems that unfolding telegram_contract_def r by fastforce+
  have round: "sorted_wrt (<) (handled_ids (fst ?p)) \<and> br_offset br \<le> br_offset ?br
    \<and> (\<forall>i \<in> set (handled_ids (fst ?p)). br_offset br \<le> i \<and> i < br_offset ?br)"
  proof (cases rule: pollRound_cases [of getUpdates br dir running])
    case failed
    then show ?thesis by (simp add: handled_ids_def)
  next
    case (batch ups failure)
    note ids = runUpdates_ids [OF batch(2) contract [OF batch(1)]]
    with runUpdates_sorted [OF conjunct1 [OF ids] contract(1) [OF batch(1)]] show ?thesis by simp
  qed
  have "telegram_contract rounds" using Cons.prems by (simp add: telegram_contract_def)
  note later = Cons.IH [OF this, of ?br]
  show ?case
  proof (cases "fst (snd ?p)")
    case True
    then have "pollLoop dir (r # rounds) br = (fst ?p @ fst (pollLoop dir rounds ?br), snd (pollLoop dir rounds ?br))"
      by (simp add: r Let_def case_prod_unfold)
    moreover have "handled_ids (fst ?p @ l) = handled_ids (fst ?p) @ handled_ids l" for l by (simp add: handled_ids_def)
    ultimately show ?thesis using round later by (auto simp: sorted_wrt_append) force+
  next
    case False
    then have "pollLoop dir (r # rounds) br = (fst ?p, ?br)" by (simp add: r Let_def case_prod_unfold)
    then show ?thesis using round by simp
  qed
qed (simp add: handled_ids_def)

text \<open>
  C21. Whatever fails, no update is handled twice: the ids of the handled updates increase
  strictly over all passes, start at the offset and stay below the offset that is asked for
  next. And none is skipped: what is handled of a batch is a prefix of it, and the updates
  after it are at or above the next offset, so Telegram returns them again.
\<close>

theorem updates_handled_once:
  assumes "telegram_contract rounds"
  shows "sorted_wrt (<) (handled_ids (fst (pollLoop dir rounds br)))
    \<and> (\<forall>i \<in> set (handled_ids (fst (pollLoop dir rounds br))). br_offset br \<le> i \<and> i < br_offset (snd (pollLoop dir rounds br)))
    \<and> (\<forall>(running, getUpdates) \<in> set rounds. \<forall>br1 ups entries failure br2.
         getUpdates (br_offset br1) = Inr ups \<and> runUpdates dir ups br1 = (entries, failure, br2) \<longrightarrow>
           map fst entries = take (length entries) (map snd ups)
           \<and> (\<forall>(w, up) \<in> set (drop (length entries) ups). br_offset br2 \<le> up_update_id up))"
proof -
  have "map fst entries = take (length entries) (map snd ups)
      \<and> (\<forall>(w, up) \<in> set (drop (length entries) ups). br_offset br2 \<le> up_update_id up)"
    if "(running, getUpdates) \<in> set rounds" "getUpdates (br_offset br1) = Inr ups"
      "runUpdates dir ups br1 = (entries, failure, br2)" for running getUpdates br1 ups entries failure br2
  proof -
    have "sorted_wrt (<) (map (\<lambda>x. up_update_id (snd x)) ups)" "\<forall>(w, up) \<in> set ups. br_offset br1 \<le> up_update_id up"
      using assms that(1,2) unfolding telegram_contract_def by fastforce+
    from runUpdates_ids [OF that(3) this] show ?thesis by blast
  qed
  with pollLoop_ids [OF assms, of dir br] show ?thesis by blast
qed

section \<open>From the first message to an answer\<close>

text \<open>A request of a stranger: the code that is shown, and the stores afterwards.\<close>

lemma stranger_gets_code:
  assumes "up_chat up = Some h" "sender_of up = Some u" "body_of up \<noteq> []" "\<not> is_command (body_of up)"
    and "dmPolicyOf (config_at dir st) = DmPairing" "\<not> admits (config_at dir st) (s_pairing st) u h"
    and "requestPairingCode (w_bytes w) (w_now w) ''telegram'' (int_to_string u) (int_to_string h) (s_pairing st) = ((code, created), p)"
    and "callTelegramApi ''sendMessage'' (w_telegram w h (refusalText \<lparr>ac_allowed = False, ac_dmPolicy = DmPairing, ac_pairingCode = Some code\<rparr>) False) = Inr v"
  shows "handleUpdate dir w up st =
    ([SentMessage h (refusalText \<lparr>ac_allowed = False, ac_dmPolicy = DmPairing, ac_pairingCode = Some code\<rparr>) False], None,
     st\<lparr>s_files := snd (readConfig dir (s_files st)), s_pairing := p\<rparr>)"
proof -
  have "\<not> listed (config_at dir st) u h"
    "\<not> isPairingApproved (w_now w) ''telegram'' (int_to_string u) (int_to_string h) (s_pairing st)"
    using assms(5,6) by (simp_all add: admits_def approved_any_now [of "w_now w"])
  then have "shouldAcceptMessage dir w u h st =
      (\<lparr>ac_allowed = False, ac_dmPolicy = DmPairing, ac_pairingCode = Some code\<rparr>,
       st\<lparr>s_files := snd (readConfig dir (s_files st)), s_pairing := p\<rparr>)"
    using assms(5,7) by (simp add: shouldAcceptMessage_def Let_def case_prod_unfold listed_def config_at_def)
  then show ?thesis
    using assms(1-4,8) unfolding handleUpdate_def Let_def sender_of_def [symmetric] body_of_def [symmetric] is_command_def
    by (simp add: reply_with_def sendTelegramMessage_def)
qed

text \<open>
  Pairing opens a chat. Under the pairing policy a stranger who writes gets a message with
  a code and nothing else happens. Once the owner approves this code, the next message of the
  same sender in the same chat is handed to the assistant.
\<close>

theorem pairing_opens_chat:
  assumes "dmPolicyOf (config_at dir st) = DmPairing" and "\<not> admits (config_at dir st) (s_pairing st) u h"
    and "state_ok (s_pairing st)" and "\<And>j. length (w_bytes w j) = 8"
    and "requestPairingCode (w_bytes w) (w_now w) ''telegram'' (int_to_string u) (int_to_string h) (s_pairing st) = ((code, True), p)"
    and "j < 64" and "generateCode (w_bytes w j) \<notin> set (map pp_code (pending_list (store_of (w_now w) (s_pairing st))))"
    and "up_chat up = Some h" and "sender_of up = Some u" and "body_of up \<noteq> []" and "\<not> is_command (body_of up)"
    and "callTelegramApi ''sendMessage''
      (w_telegram w h (refusalText \<lparr>ac_allowed = False, ac_dmPolicy = DmPairing, ac_pairingCode = Some code\<rparr>) False) = Inr v"
    and "up_chat up2 = Some h" and "sender_of up2 = Some u" and "body_of up2 \<noteq> []" and "\<not> is_command (body_of up2)"
  shows "\<exists>st1 entry p2. handleUpdate dir w up st =
      ([SentMessage h (refusalText \<lparr>ac_allowed = False, ac_dmPolicy = DmPairing, ac_pairingCode = Some code\<rparr>) False], None, st1)
    \<and> approvePairingCode now2 ''telegram'' code (s_pairing st1) = (Some entry, p2)
    \<and> AskedAssistant (message_of w2 u h (body_of up2)) \<in> set (fst (handleUpdate dir w2 up2 (st1\<lparr>s_pairing := p2\<rparr>)))"
proof -
  let ?st1 = "st\<lparr>s_files := snd (readConfig dir (s_files st)), s_pairing := p\<rparr>"
  have nonblank: "trim ''telegram'' \<noteq> []" "trim (int_to_string i) \<noteq> []" for i
    by (code_simp, simp add: int_to_string_clean)
  from approve_issued_code [OF assms(3,4) nonblank(1) nonblank(2) nonblank(2) assms(5-7), of now2 0] obtain entry p2 where
    approved: "approvePairingCode now2 ''telegram'' code p = (Some entry, p2)"
      "isPairingApproved 0 ''telegram'' (int_to_string u) (int_to_string h) p2" by blast
  have "config_at dir (?st1\<lparr>s_pairing := p2\<rparr>) = config_at dir st" by (simp add: config_at_def)
  then have "admits (config_at dir (?st1\<lparr>s_pairing := p2\<rparr>)) (s_pairing (?st1\<lparr>s_pairing := p2\<rparr>)) u h"
    using assms(1) approved(2) by (simp add: admits_def)
  then have "AskedAssistant (message_of w2 u h (body_of up2)) \<in> set (fst (handleUpdate dir w2 up2 (?st1\<lparr>s_pairing := p2\<rparr>)))"
    unfolding handleUpdate_asked using assms(13-16) by blast
  then show ?thesis
    using stranger_gets_code [OF assms(8-11,1,2,5,12)] approved(1)
    by (intro exI [of _ ?st1] exI [of _ entry] exI [of _ p2]) simp
qed

section \<open>Instances\<close>

definition demo_stores :: stores where
  "demo_stores = \<lparr>s_files = [], s_pairing = empty_state, s_disk = [(resolveSessionPath ''/s'' ''telegram:-7'', Json (JArr [JNum (Fin 1)]))]\<rparr>"

definition demo_world :: "string world" where
  "demo_world = \<lparr>w_env = \<lparr>pcwd = ''/'', homedir = ''/''\<rparr>, w_meanwhile = (\<lambda>st. st), w_fileExists = (\<lambda>_. False), w_now = 5, w_bytes = demo_bytes,
     w_telegram = (\<lambda>chat body html. HttpJson (JObj [(''ok'', JBool True), (''result'', JNull)])),
     w_handleMessage = (\<lambda>m st. (Inr (Some (''re: '' @ im_message m)), st)), w_format = (\<lambda>r. r)\<rparr>"

definition demo_update :: "int \<Rightarrow> string \<Rightarrow> telegram_update" where
  "demo_update i body = \<lparr>up_update_id = i, up_text = Some body, up_from = Some 42, up_chat = Some (- 7)\<rparr>"


theorem pairing_opens_chat_witness:
  "\<exists>st1 entry p2. handleUpdate ''/s'' demo_world (demo_update 1 ''hi'') demo_stores =
      ([SentMessage (- 7) (refusalText \<lparr>ac_allowed = False, ac_dmPolicy = DmPairing, ac_pairingCode = Some ''ABCDEFGH''\<rparr>) False], None, st1)
    \<and> approvePairingCode 6 ''telegram'' ''ABCDEFGH'' (s_pairing st1) = (Some entry, p2)
    \<and> AskedAssistant (message_of demo_world 42 (- 7) ''hello'')
        \<in> set (fst (handleUpdate ''/s'' demo_world (demo_update 2 ''hello'') (st1\<lparr>s_pairing := p2\<rparr>)))"
proof -
  let ?req = "requestPairingCode (w_bytes demo_world) (w_now demo_world) ''telegram'' (int_to_string 42) (int_to_string (- 7)) (s_pairing demo_stores)"
  have policy: "dmPolicyOf (config_at ''/s'' demo_stores) = DmPairing" by code_simp
  have stranger: "\<not> admits (config_at ''/s'' demo_stores) (s_pairing demo_stores) 42 (- 7)" by code_simp
  have ok: "state_ok (s_pairing demo_stores)" by (simp add: demo_stores_def empty_state_ok)
  have eight: "length (w_bytes demo_world j) = 8" for j by (simp add: demo_world_def demo_bytes_def)
  have "fst ?req = (''ABCDEFGH'', True)" by code_simp
  then have req: "?req = ((''ABCDEFGH'', True), snd ?req)" by (metis prod.collapse)
  have fresh: "generateCode (w_bytes demo_world 0) \<notin> set (map pp_code (pending_list (store_of (w_now demo_world) (s_pairing demo_stores))))"
    by code_simp
  have sent: "callTelegramApi ''sendMessage'' (w_telegram demo_world (- 7) body False) = Inr JNull" for body
    by (simp add: demo_world_def callTelegramApi_def)
  have up: "up_chat (demo_update i b) = Some (- 7)" "sender_of (demo_update i b) = Some 42" for i b
    by (simp_all add: demo_update_def sender_of_def)
  have body: "body_of (demo_update 1 ''hi'') \<noteq> []" "\<not> is_command (body_of (demo_update 1 ''hi''))"
    "body_of (demo_update 2 ''hello'') \<noteq> []" "\<not> is_command (body_of (demo_update 2 ''hello''))" by code_simp+
  have hello: "body_of (demo_update 2 ''hello'') = ''hello''" by code_simp
  show ?thesis
    using pairing_opens_chat [OF policy stranger ok eight req _ fresh up(1,2) body(1,2) sent up(1,2) body(3,4), of 6 demo_world]
    unfolding hello by simp
qed

text \<open>A configuration that lists the sender 42, and two passes: the first breaks off at a message that cannot be answered.\<close>

definition demo_listed :: stores where
  "demo_listed = demo_stores\<lparr>s_files := [(resolveConfigPath ''/s'',
     JsonDoc (JObj [(''channels'', JObj [(''telegram'', JObj [(''dmPolicy'', JStr ''allowlist''), (''allowFrom'', JArr [JStr ''42''])])])]))]\<rparr>"

definition broken_world :: "string world" where
  "broken_world = demo_world\<lparr>w_telegram := (\<lambda>chat body html. HttpError 502 ''Bad Gateway'')\<rparr>"

definition demo_answers :: "(string world \<times> telegram_update) list \<Rightarrow> int \<Rightarrow> js_error + (string world \<times> telegram_update) list" where
  "demo_answers ups offset = Inr (filter (\<lambda>(w, up). offset \<le> up_update_id up) ups)"

definition demo_rounds :: "(bool \<times> (int \<Rightarrow> js_error + (string world \<times> telegram_update) list)) list" where
  "demo_rounds =
     [(True, demo_answers [(broken_world, demo_update 1 ''a''), (demo_world, demo_update 2 ''b'')]),
      (True, demo_answers [(demo_world, demo_update 1 ''a''), (demo_world, demo_update 2 ''b''), (demo_world, demo_update 3 ''/reset'')])]"

lemma demo_world_ok: "world_ok dir demo_world" "world_ok dir broken_world"
  by (simp_all add: world_ok_def demo_world_def broken_world_def demo_bytes_def same_admission_refl)

theorem only_admitted_reach_assistant_witness:
  "\<exists>st u h. from_sender (demo_update 1 ''a'') u h (message_of demo_world 42 (- 7) ''a'')
     \<and> admits (config_at ''/s'' st) (s_pairing st) u h
     \<and> admits (config_at ''/s'' demo_listed) (s_pairing demo_listed) u h"
proof -
  let ?br = "\<lparr>br_offset = 0, br_stores = demo_listed\<rparr>"
  define x where "x = hd (fst (pollLoop ''/s'' demo_rounds ?br))"
  have x: "fst x = demo_update 1 ''a''" "AskedAssistant (message_of demo_world 42 (- 7) ''a'') \<in> set (snd (snd x))"
    "fst (pollLoop ''/s'' demo_rounds ?br) \<noteq> []" unfolding x_def by code_simp+
  then have e: "(demo_update 1 ''a'', fst (snd x), snd (snd x)) \<in> set (fst (pollLoop ''/s'' demo_rounds ?br))"
    unfolding x_def by (metis hd_in_set prod.collapse)
  have ok: "rounds_ok ''/s'' demo_rounds" "state_ok (s_pairing (br_stores ?br))"
    by (auto simp: rounds_ok_def demo_rounds_def demo_answers_def demo_world_ok demo_listed_def demo_stores_def empty_state_ok)
  note law = only_admitted_reach_assistant [OF e]
  from law x(2) obtain u h where a: "from_sender (demo_update 1 ''a'') u h (message_of demo_world 42 (- 7) ''a'')"
    "admits (config_at ''/s'' (fst (snd x))) (s_pairing (fst (snd x))) u h" by blast
  moreover from law ok have "admits (config_at ''/s'' (fst (snd x))) (s_pairing (fst (snd x))) u h =
      admits (config_at ''/s'' (br_stores ?br)) (s_pairing (br_stores ?br)) u h" by blast
  ultimately show ?thesis by auto
qed

theorem updates_handled_once_witness:
  "handled_ids (fst (pollLoop ''/s'' demo_rounds \<lparr>br_offset = 0, br_stores = demo_listed\<rparr>)) = [1, 2, 3]
   \<and> sorted_wrt (<) (handled_ids (fst (pollLoop ''/s'' demo_rounds \<lparr>br_offset = 0, br_stores = demo_listed\<rparr>)))"
proof
  show "handled_ids (fst (pollLoop ''/s'' demo_rounds \<lparr>br_offset = 0, br_stores = demo_listed\<rparr>)) = [1, 2, 3]" by code_simp
  have "telegram_contract demo_rounds"
    by (auto simp: telegram_contract_def demo_rounds_def demo_answers_def demo_update_def split: if_splits)
  then show "sorted_wrt (<) (handled_ids (fst (pollLoop ''/s'' demo_rounds \<lparr>br_offset = 0, br_stores = demo_listed\<rparr>)))"
    using updates_handled_once by blast
qed

text \<open>
  The commands come before the admission: a sender who is not admitted, here one whose messages
  are answered with a pairing code, can erase the session of the chat. The first pass above also
  shows that a message whose reply cannot be sent is not tried again.
\<close>

theorem reset_needs_no_admission:
  "\<not> admits (config_at ''/s'' demo_stores) (s_pairing demo_stores) 42 (- 7)
   \<and> s_disk demo_stores \<noteq> [] \<and> s_disk (snd (snd (handleUpdate ''/s'' demo_world (demo_update 1 ''/reset'') demo_stores))) = []"
  by code_simp

end
