(* ===== verification/Chat_Service.thy ===== *)
theory Chat_Service
  imports Setup_Flow Telegram_Bridge Telegram_Relay
begin

text \<open>
  The chat service, \<open>src/agent/chat-service.ts\<close>, and the gateway in front of it,
  \<open>src/gateway/runtime.ts\<close> and \<open>router.ts\<close>: what happens to one message. The secure setup dialogue sees it
  first; a message it handles goes no further. Then the message is routed to a slot by its
  wording and sent to the provider of that slot under a time limit, with at most one second
  attempt. The provider loop is an argument: from a request and its own state it settles after
  some milliseconds with a reply or an error, or never. The result lists the requests that were
  made. The lemmas show what is sent to a provider and to which one.
\<close>

section \<open>Routing by wording\<close>

record route_signal =
  rs_label :: string
  rs_pattern :: rx
  rs_weight :: nat
  rs_strong :: bool

record route_intent =
  ri_slot :: slot
  ri_planningScore :: nat
  ri_codingScore :: nat
  ri_planningSignals :: "string list"
  ri_codingSignals :: "string list"

definition signal :: "string \<Rightarrow> rx \<Rightarrow> nat \<Rightarrow> bool \<Rightarrow> route_signal" where
  "signal label pattern weight strong = \<lparr>rs_label = label, rs_pattern = pattern, rs_weight = weight, rs_strong = strong\<rparr>"

definition dash_ws :: "char \<Rightarrow> bool" where
  "dash_ws c \<longleftrightarrow> c = CHR ''-'' \<or> is_ws c"

text \<open>\<open>\b(a|b)\b.{0,n}\b(c|d)\b\<close>.\<close>

definition rx_near :: "string list \<Rightarrow> nat \<Rightarrow> string list \<Rightarrow> rx" where
  "rx_near first n second = Seq [rx_words first, Run 0 n is_dot, rx_words second]"

definition PLANNING_SIGNALS :: "route_signal list" where
  "PLANNING_SIGNALS =
     [signal ''architecture'' (rx_words [''architecture'', ''design doc'', ''technical design'', ''system design'', ''design proposal'']) 3 True,
      signal ''roadmap'' (rx_words [''roadmap'', ''migration plan'', ''rollout plan'', ''implementation plan'']) 3 True,
      signal ''planning'' (rx_near [''plan'', ''strategy''] 40
        [''feature'', ''project'', ''migration'', ''rollout'', ''approach'', ''implementation'', ''build'']) 2 False,
      signal ''options''
        (Seq [Bound,
              Alt [Lit ''compare'', Seq [Lit ''trade'', Opt (Cls dash_ws), Lit ''off'', Opt (Lit ''s'')], Lit ''pros and cons'',
                   Lit ''evaluate options'', Lit ''decision matrix''],
              Bound]) 2 False,
      signal ''step-plan''
        (Seq [Bound, Lit ''step'', Opt (Cls dash_ws), Lit ''by'', Opt (Cls dash_ws), Lit ''step plan'', Bound]) 2 False,
      signal ''task-list'' (rx_words [''list of tasks'', ''task list'', ''task breakdown'', ''todo list'', ''checklist'', ''milestone'', ''milestones'']) 3 True,
      signal ''plan-request'' (rx_near [''plan'', ''planning''] 40
        [''first'', ''before coding'', ''before implementation'', ''next step'', ''next steps'']) 3 True]"

definition CODING_SIGNALS :: "route_signal list" where
  "CODING_SIGNALS =
     [signal ''fenced-code'' (Lit ''```'') 3 True,
      signal ''repo-path'' (rx_words [''src/'', ''package.json'', ''tsconfig.json'', ''dockerfile'', ''makefile'', ''requirements.txt'', ''pom.xml'']) 3 True,
      signal ''code-file''
        (Seq [Bound, Many 1 is_word_char, Lit ''.'',
              Alt (map Lit [''ts'', ''tsx'', ''js'', ''jsx'', ''py'', ''go'', ''rs'', ''java'', ''c'', ''cpp'', ''cs'', ''rb'', ''php'', ''swift'', ''kt'']),
              Bound]) 3 True,
      signal ''coding-action'' (rx_near [''write'', ''implement'', ''refactor'', ''debug'', ''fix'', ''patch'', ''add'', ''update'', ''remove''] 70
        [''code'', ''function'', ''class'', ''module'', ''script'', ''test'', ''bug'', ''error'', ''compile'', ''build'']) 2 False,
      signal ''script-request'' (rx_near [''write'', ''create'', ''build''] 35 [''script'', ''program'', ''automation'']) 2 False,
      signal ''test-debug'' (rx_words [''unit test'', ''integration test'', ''test case'', ''failing test'', ''stack trace'',
        ''compile error'', ''type error'', ''eslint'', ''tsc'', ''pytest'']) 2 False,
      signal ''review'' (rx_words [''code review'', ''pr review'', ''pull request'']) 2 False]"

definition explicitPlanningRequest :: "string \<Rightarrow> bool" where
  "explicitPlanningRequest s \<longleftrightarrow>
     rx_test (rx_words [''list of tasks'', ''task list'', ''task breakdown'', ''todo list'', ''checklist'', ''roadmap'',
       ''implementation plan'', ''next step'', ''next steps'']) s
     \<and> rx_test (rx_words [''plan'', ''planning'', ''create'', ''draft'', ''build'', ''make'', ''come up with'', ''outline'']) s"

definition analyzeRouteIntent :: "string \<Rightarrow> route_intent" where
  "analyzeRouteIntent message =
     (let s = to_lower message in
      if trim s = [] then
        \<lparr>ri_slot = Default, ri_planningScore = 0, ri_codingScore = 0, ri_planningSignals = [], ri_codingSignals = []\<rparr>
      else
        let planning = filter (\<lambda>g. rx_test (rs_pattern g) s) PLANNING_SIGNALS;
            coding = filter (\<lambda>g. rx_test (rs_pattern g) s) CODING_SIGNALS;
            planningScore = sum_list (map rs_weight planning); codingScore = sum_list (map rs_weight coding);
            planningSignals = map rs_label planning; codingSignals = map rs_label coding;
            planningStrong = list_ex rs_strong planning; codingStrong = list_ex rs_strong coding;
            to_slot = (\<lambda>slot. \<lparr>ri_slot = slot, ri_planningScore = planningScore, ri_codingScore = codingScore,
                        ri_planningSignals = planningSignals, ri_codingSignals = codingSignals\<rparr>)
        in if explicitPlanningRequest s then
             \<lparr>ri_slot = Planning, ri_planningScore = max planningScore 3, ri_codingScore = codingScore,
              ri_planningSignals = (if planningSignals \<noteq> [] then planningSignals else [''task-list'']),
              ri_codingSignals = codingSignals\<rparr>
           else if codingStrong \<and> 3 \<le> codingScore \<and> planningScore \<le> codingScore then to_slot Coding
           else if 4 \<le> codingScore \<and> planningScore + 1 \<le> codingScore then to_slot Coding
           else if planningStrong \<and> 3 \<le> planningScore \<and> codingScore \<le> planningScore then to_slot Planning
           else if 3 \<le> planningScore \<and> codingScore \<le> planningScore then to_slot Planning
           else if 2 \<le> codingScore \<and> planningScore = 0 then to_slot Coding
           else to_slot Default)"

definition chooseRouteSlot :: "string \<Rightarrow> slot" where
  "chooseRouteSlot message = ri_slot (analyzeRouteIntent message)"

fun slot_text :: "slot \<Rightarrow> string" where
  "slot_text Default = ''default''"
| "slot_text Planning = ''planning''"
| "slot_text Coding = ''coding''"

section \<open>Errors, local routes and the fallback\<close>

definition foundationMessage :: "string \<Rightarrow> string \<Rightarrow> string list \<Rightarrow> string" where
  "foundationMessage input source missing =
     js_join '' ''
       [''Foundation mode ('' @ source @ '') is active.'',
        ''You said: '' @ [CHR 0x22] @ input @ [CHR 0x22],
        ''To unlock provider inference, complete onboarding fields: '' @ js_join '', '' missing @ ''.'']"

definition or_unknown :: "string option \<Rightarrow> string" where
  "or_unknown v = (case v of Some s \<Rightarrow> s | None \<Rightarrow> ''unknown'')"

definition formatProviderError :: "routing_target option \<Rightarrow> slot \<Rightarrow> string \<Rightarrow> string \<Rightarrow> string" where
  "formatProviderError route slot channel message =
     ''Provider error ('' @ channel @ '') route='' @ slot_text slot @ '' via '' @
     or_unknown (Option.bind route rt_provider) @ ''/'' @ or_unknown (Option.bind route rt_model) @ ''. '' @ message"

definition mentions :: "string list \<Rightarrow> string \<Rightarrow> bool" where
  "mentions phrases message = list_ex (str_includes (to_lower message)) phrases"

definition isLikelyTokenExhaustion :: "string \<Rightarrow> bool" where
  "isLikelyTokenExhaustion =
     mentions [''context length'', ''context window'', ''maximum context'', ''too many tokens'', ''token limit'']"

definition isNonRecoverableProviderError :: "string \<Rightarrow> bool" where
  "isNonRecoverableProviderError =
     mentions [''not configured'', ''credentials missing'', ''model '' @ [CHR 0x27], ''not supported by the provider runtime'',
       ''permission denied'', ''eacces'', ''eperm'', ''read-only file system'', ''enospc'', ''connection refused'', ''econnrefused'',
       ''enotfound'', ''network'', ''fetch failed'', ''timed out'', ''timeout'', ''aborted'']"

definition shouldAutoResumeAfterProviderError :: "string \<Rightarrow> bool" where
  "shouldAutoResumeAfterProviderError message =
     (if isNonRecoverableProviderError message then False
      else if isLikelyTokenExhaustion message then False
      else mentions [''empty response'', ''non-empty response'', ''did not return an assistant response'',
             ''assistant response was empty''] message)"

definition isConnectivityProviderError :: "string \<Rightarrow> bool" where
  "isConnectivityProviderError =
     mentions [''timed out'', ''timeout'', ''connection refused'', ''econnrefused'', ''enotfound'', ''network'', ''fetch failed'', ''aborted'']"

definition isTimeoutLikeError :: "string \<Rightarrow> bool" where
  "isTimeoutLikeError = mentions [''timed out'', ''timeout'']"

definition octet :: "string \<Rightarrow> bool" where
  "octet s \<longleftrightarrow> s \<noteq> [] \<and> length s \<le> 3 \<and> list_all is_digit s"

definition hostLooksLocal :: "string \<Rightarrow> bool" where
  "hostLooksLocal hostname =
     (let host = to_lower (trim hostname); parts = split_on (CHR ''.'') host in
      if host = [] then False
      else if host = ''localhost'' \<or> host = ''::1'' \<or> ends_with host ''.local'' then True
      else if starts_with host ''127.'' then True
      else if \<not> (length parts = 4 \<and> list_all octet parts) then False
      else
        let a = string_to_nat (parts ! 0); b = string_to_nat (parts ! 1) in
        a = 10 \<or> a = 192 \<and> b = 168 \<or> a = 172 \<and> 16 \<le> b \<and> b \<le> 31 \<or> a = 100 \<and> 64 \<le> b \<and> b \<le> 127)"

text \<open>\<open>hostname\<close> is \<open>new URL(u).hostname\<close>, \<open>None\<close> when the constructor throws.\<close>

definition isLikelyLocalRoute :: "(string \<Rightarrow> string option) \<Rightarrow> t560_config \<Rightarrow> routing_target \<Rightarrow> bool" where
  "isLikelyLocalRoute hostname config route =
     (let provider = opt_str (rt_provider route); providerId = to_lower (trim provider) in
      if providerId = [] then False
      else if providerId = ''local-openai'' \<or> str_includes providerId ''local'' then True
      else
        let profile = Option.bind (cf_providers config) (\<lambda>ps. map_of ps provider);
            baseUrl = trim (opt_str (Option.bind profile pp_baseUrl))
        in if baseUrl = [] then False
           else (case hostname baseUrl of Some h \<Rightarrow> hostLooksLocal h | None \<Rightarrow> False))"

definition routeKey :: "routing_target option \<Rightarrow> string" where
  "routeKey route =
     (let provider = trim (opt_str (Option.bind route rt_provider)); model = trim (opt_str (Option.bind route rt_model)) in
      if provider = [] \<or> model = [] then [] else to_lower provider @ ''::'' @ to_lower model)"

definition has_target :: "routing_target \<Rightarrow> bool" where
  "has_target r \<longleftrightarrow> opt_str (rt_provider r) \<noteq> [] \<and> opt_str (rt_model r) \<noteq> []"

definition providerId :: "routing_target \<Rightarrow> string" where
  "providerId r = to_lower (trim (opt_str (rt_provider r)))"

definition chooseFallbackRoute :: "t560_config \<Rightarrow> routing_target \<Rightarrow> routing_target option" where
  "chooseFallbackRoute config failedRoute =
     (let failedKey = routeKey (Some failedRoute);
          failedProvider = providerId failedRoute;
          candidates = filter has_target (List.map_filter (resolveRoutingTarget config) [Default, Planning, Coding]);
          byKey = fold (\<lambda>r m. AList.update (routeKey (Some r)) r m) candidates [];
          uniq = filter (\<lambda>r. routeKey (Some r) \<noteq> [] \<and> routeKey (Some r) \<noteq> failedKey) (map snd byKey)
      in case find (\<lambda>r. providerId r \<noteq> failedProvider) uniq of
           Some r \<Rightarrow> Some r
         | None \<Rightarrow> (case uniq of r # _ \<Rightarrow> Some r | [] \<Rightarrow> None))"

section \<open>Time limits\<close>

text \<open>\<open>process.env\<close>.\<close>

type_synonym variables = "string \<Rightarrow> string option"

definition positive_value :: "variables \<Rightarrow> string \<Rightarrow> rat option" where
  "positive_value env name =
     (case str_to_num (opt_str (env name)) of Fin q \<Rightarrow> if 0 < q then Some q else None | _ \<Rightarrow> None)"

text \<open>The shape the four resolvers share: seconds, else milliseconds, else a default, within limits.\<close>

definition envTimeoutMs :: "string \<Rightarrow> string \<Rightarrow> int \<Rightarrow> int \<Rightarrow> int \<Rightarrow> variables \<Rightarrow> int" where
  "envTimeoutMs secName msName least most def_ms env =
     (case positive_value env secName of
        Some rawSec \<Rightarrow> min most (max least \<lfloor>rawSec * 1000\<rfloor>)
      | None \<Rightarrow>
          (case positive_value env msName of
             Some rawMs \<Rightarrow> min most (max least \<lfloor>rawMs\<rfloor>)
           | None \<Rightarrow> def_ms))"

definition MINUTE :: int where "MINUTE = 60000"

definition MAX_CHAT_TIMEOUT_MS :: int where "MAX_CHAT_TIMEOUT_MS = 24 * 60 * MINUTE"

definition resolveChatTimeoutMs :: "variables \<Rightarrow> int" where
  "resolveChatTimeoutMs = envTimeoutMs ''T560_CHAT_TIMEOUT_SEC'' ''T560_CHAT_TIMEOUT_MS'' 5000 MAX_CHAT_TIMEOUT_MS (15 * MINUTE)"

definition resolveLocalChatTimeoutMs :: "variables \<Rightarrow> int" where
  "resolveLocalChatTimeoutMs =
     envTimeoutMs ''T560_CHAT_TIMEOUT_LOCAL_SEC'' ''T560_CHAT_TIMEOUT_LOCAL_MS'' MINUTE MAX_CHAT_TIMEOUT_MS (30 * MINUTE)"

definition LONG_RUNNING :: "rx list" where
  "LONG_RUNNING =
     [rx_words [''login''],
      Seq [Bound, Lit ''log'', Many 0 is_ws, Lit ''in'', Opt (Lit ''to''), Bound],
      Seq [Bound, Lit ''sign'', Many 0 is_ws, Lit ''in'', Opt (Lit ''to''), Bound],
      rx_words [''mfa''], rx_words [''2fa''],
      Seq [Bound, Lit ''one'', Opt (Cls dash_ws), Lit ''time code'', Bound],
      rx_words [''otp''], rx_words [''dashboard''], rx_words [''balance''], rx_words [''account''],
      rx_words [''portfolio''], rx_words [''website''], rx_words [''web app'']]"

definition messageLikelyLongRunning :: "string \<Rightarrow> bool" where
  "messageLikelyLongRunning message =
     (let s = to_lower message in if trim s = [] then False else list_ex (\<lambda>r. rx_test r s) LONG_RUNNING)"

definition resolveChatTimeoutForMessage ::
  "(string \<Rightarrow> string option) \<Rightarrow> variables \<Rightarrow> string \<Rightarrow> routing_target \<Rightarrow> t560_config \<Rightarrow> int" where
  "resolveChatTimeoutForMessage hostname env message route config =
     (if isLikelyLocalRoute hostname config route then
        let base = resolveLocalChatTimeoutMs env in
        if \<not> messageLikelyLongRunning message then base else min MAX_CHAT_TIMEOUT_MS (max base (60 * MINUTE))
      else
        let base = resolveChatTimeoutMs env in
        if \<not> messageLikelyLongRunning message then base else min MAX_CHAT_TIMEOUT_MS (max base (30 * MINUTE)))"

definition resolveGatewayMessageTimeoutMs :: "variables \<Rightarrow> int" where
  "resolveGatewayMessageTimeoutMs =
     envTimeoutMs ''T560_GATEWAY_MESSAGE_TIMEOUT_SEC'' ''T560_GATEWAY_MESSAGE_TIMEOUT_MS'' 5000 MAX_CHAT_TIMEOUT_MS (15 * MINUTE)"

definition resolveGatewayTimeoutForMessage :: "variables \<Rightarrow> string \<Rightarrow> int" where
  "resolveGatewayTimeoutForMessage env message =
     (let base = resolveGatewayMessageTimeoutMs env in
      if \<not> messageLikelyLongRunning message then base else min MAX_CHAT_TIMEOUT_MS (max base (45 * MINUTE)))"

definition parseExplicitBoolean :: "string \<Rightarrow> bool option" where
  "parseExplicitBoolean v =
     (let normalized = to_lower (trim v) in
      if normalized \<in> {''1'', ''true'', ''yes'', ''on''} then Some True
      else if normalized \<in> {''0'', ''false'', ''no'', ''off''} then Some False
      else None)"

definition allowFallbackFromLocal :: "variables \<Rightarrow> bool" where
  "allowFallbackFromLocal env = (parseExplicitBoolean (opt_str (env ''T560_ALLOW_FALLBACK_FROM_LOCAL'')) = Some True)"

definition allowCrossSlotFallback :: "variables \<Rightarrow> bool" where
  "allowCrossSlotFallback env = (parseExplicitBoolean (opt_str (env ''T560_ALLOW_CROSS_SLOT_FALLBACK'')) = Some True)"

section \<open>One message\<close>

datatype chat_mode = FoundationMode | ProviderMode

record chat_response =
  rp_message :: string
  rp_thinking :: "string option"
  rp_toolCalls :: "string list"
  rp_mode :: chat_mode
  rp_provider :: "string option"
  rp_model :: "string option"
  rp_onboardingRequired :: bool
  rp_missing :: "string list"

text \<open>What \<open>chatWithProvider\<close> is called with, and what becomes of the call.\<close>

record chat_request =
  rq_config :: t560_config
  rq_target :: routing_target
  rq_message :: string
  rq_sessionId :: string
  rq_externalUserId :: string
  rq_channel :: string

record provider_reply =
  py_message :: string
  py_thinking :: "string option"
  py_toolCalls :: "string list"
  py_provider :: string
  py_model :: string

datatype 'a settled = Resolved int 'a | Rejected int string | Pending

type_synonym 'p provider = "chat_request \<Rightarrow> 'p \<Rightarrow> provider_reply settled \<times> 'p"

text \<open>\<open>runWithTimeout\<close>: whatever settles before the limit wins the race.\<close>

definition runWithTimeout :: "'a settled \<Rightarrow> int \<Rightarrow> string \<Rightarrow> 'a result" where
  "runWithTimeout operation timeoutMs timeoutMessage =
     (case operation of
        Resolved t v \<Rightarrow> if t < timeoutMs then Inr v else Inl timeoutMessage
      | Rejected t e \<Rightarrow> if t < timeoutMs then Inl e else Inl timeoutMessage
      | Pending \<Rightarrow> Inl timeoutMessage)"

record ('v, 'p) chat_state =
  ct_files :: state_files
  ct_setup :: "'v setup_state"
  ct_provider :: 'p

record ('v, 'p) chat_env =
  ce_env :: process_env
  ce_fileExists :: "string \<Rightarrow> bool"
  ce_variables :: variables
  ce_dir :: string
  ce_hostname :: "string \<Rightarrow> string option"
  ce_vault :: "'v vault_api"
  ce_chatWithProvider :: "'p provider"
  ce_now :: int

text \<open>The response, the requests made to providers, the events emitted, and the state.\<close>

record ('v, 'p) chat_outcome =
  co_response :: chat_response
  co_requests :: "chat_request list"
  co_events :: "agent_event list"
  co_state :: "('v, 'p) chat_state"

definition plain_response :: "onboarding_status \<Rightarrow> string \<Rightarrow> chat_response" where
  "plain_response status message =
     \<lparr>rp_message = message, rp_thinking = None, rp_toolCalls = [],
      rp_mode = (if os_onboarded status then ProviderMode else FoundationMode), rp_provider = None, rp_model = None,
      rp_onboardingRequired = (\<not> os_onboarded status), rp_missing = (if os_onboarded status then [] else os_missing status)\<rparr>"

definition error_response :: "routing_target option \<Rightarrow> string \<Rightarrow> chat_response" where
  "error_response route message =
     \<lparr>rp_message = message, rp_thinking = None, rp_toolCalls = [], rp_mode = ProviderMode,
      rp_provider = Option.bind route rt_provider, rp_model = Option.bind route rt_model,
      rp_onboardingRequired = False, rp_missing = []\<rparr>"

definition reply_response :: "provider_reply \<Rightarrow> string \<Rightarrow> chat_response" where
  "reply_response reply message =
     \<lparr>rp_message = message, rp_thinking = py_thinking reply, rp_toolCalls = py_toolCalls reply, rp_mode = ProviderMode,
      rp_provider = Some (py_provider reply), rp_model = Some (py_model reply), rp_onboardingRequired = False, rp_missing = []\<rparr>"

definition request_for :: "t560_config \<Rightarrow> routing_target \<Rightarrow> string \<Rightarrow> inbound_message \<Rightarrow> chat_request" where
  "request_for config route message input =
     \<lparr>rq_config = config, rq_target = route, rq_message = message, rq_sessionId = im_sessionId input,
      rq_externalUserId = im_externalUserId input, rq_channel = im_channel input\<rparr>"

text \<open>
  One request under the limit for the message and route; \<open>Math.round\<close> of a positive number of seconds. The
  name of the request begins the message of the timeout.
\<close>

definition askProvider ::
  "('v, 'p) chat_env \<Rightarrow> t560_config \<Rightarrow> inbound_message \<Rightarrow> string \<Rightarrow> routing_target \<Rightarrow> string \<Rightarrow> 'p \<Rightarrow> provider_reply result \<times> 'p" where
  "askProvider env config input name route message p =
     (let chatTimeoutMs = resolveChatTimeoutForMessage (ce_hostname env) (ce_variables env) (im_message input) route config;
          (operation, p1) = ce_chatWithProvider env (request_for config route message input) p
      in (runWithTimeout operation chatTimeoutMs
            (name @ '' timed out after '' @ int_to_string ((chatTimeoutMs + 500) div 1000) @ ''s.''), p1))"

definition RESUME_MESSAGE :: string where
  "RESUME_MESSAGE = ''Continue from the current session state and finish the user'' @ [CHR 0x27] @
     ''s previous request. Do not ask them to restate it.''"

definition target_text :: "routing_target \<Rightarrow> string" where
  "target_text r = opt_str (rt_provider r) @ ''/'' @ opt_str (rt_model r)"

definition fallbackRoute :: "('v, 'p) chat_env \<Rightarrow> t560_config \<Rightarrow> routing_target \<Rightarrow> string \<Rightarrow> routing_target option" where
  "fallbackRoute env config route errorMessage =
     (let localRoute = isLikelyLocalRoute (ce_hostname env) config route;
          skipFallbackForLocalTimeout = (localRoute \<and> isTimeoutLikeError errorMessage
            \<and> trim (opt_str (ce_variables env ''T560_ALLOW_FALLBACK_ON_LOCAL_TIMEOUT'')) \<noteq> ''1'');
          skipFallbackForLocalRoute = (localRoute \<and> \<not> allowFallbackFromLocal (ce_variables env))
      in if isConnectivityProviderError errorMessage \<and> \<not> skipFallbackForLocalTimeout \<and> \<not> skipFallbackForLocalRoute
            \<and> allowCrossSlotFallback (ce_variables env)
         then chooseFallbackRoute config route else None)"

text \<open>The \<open>catch\<close> block: a second attempt elsewhere, a second attempt on the same route, or the error.\<close>

definition afterError ::
  "('v, 'p) chat_env \<Rightarrow> t560_config \<Rightarrow> inbound_message \<Rightarrow> slot \<Rightarrow> routing_target \<Rightarrow> string \<Rightarrow> 'p \<Rightarrow>
   chat_response \<times> chat_request list \<times> 'p" where
  "afterError env config input slot route errorMessage p =
     (case fallbackRoute env config route errorMessage of
        Some fallback \<Rightarrow>
          (let (result, p1) = askProvider env config input ''Fallback chat request'' fallback (im_message input) p
           in ((case result of
                  Inr reply \<Rightarrow>
                    reply_response reply (js_join [CHR 0x0A]
                      [''Primary route '' @ target_text route @ '' failed ('' @ errorMessage @ '').'',
                       ''Used fallback '' @ target_text fallback @ ''.'', [], py_message reply])
                | Inl fallbackMessage \<Rightarrow>
                    error_response (Some route) (formatProviderError (Some route) slot (im_channel input)
                      (''Primary route failed ('' @ errorMessage @ ''); fallback '' @ target_text fallback @
                       '' failed ('' @ fallbackMessage @ '').''))),
               [request_for config fallback (im_message input) input], p1))
      | None \<Rightarrow>
          if shouldAutoResumeAfterProviderError errorMessage then
            (let (result, p1) = askProvider env config input ''Auto-resume request'' route RESUME_MESSAGE p
             in ((case result of
                    Inr reply \<Rightarrow> reply_response reply (py_message reply)
                  | Inl resumeMessage \<Rightarrow>
                      error_response (Some route) (formatProviderError (Some route) slot (im_channel input)
                        (''Primary run failed ('' @ errorMessage @ ''); auto-resume failed ('' @ resumeMessage @ '').''))),
                 [request_for config route RESUME_MESSAGE input], p1))
          else (error_response (Some route) (formatProviderError (Some route) slot (im_channel input) errorMessage), [], p))"

definition routeMessage ::
  "('v, 'p) chat_env \<Rightarrow> t560_config \<Rightarrow> inbound_message \<Rightarrow> slot \<Rightarrow> routing_target option \<Rightarrow> 'p \<Rightarrow>
   chat_response \<times> chat_request list \<times> 'p" where
  "routeMessage env config input slot route p =
     (case route of
        Some target \<Rightarrow>
          if \<not> has_target target
          then (error_response route (formatProviderError route slot (im_channel input) ''Routing configuration is incomplete.''), [], p)
          else
            (let (result, p1) = askProvider env config input ''Chat request'' target (im_message input) p;
                 request = request_for config target (im_message input) input
             in case result of
                  Inr reply \<Rightarrow> (reply_response reply (py_message reply), [request], p1)
                | Inl errorMessage \<Rightarrow>
                    (let (response, more, p2) = afterError env config input slot target errorMessage p1
                     in (response, request # more, p2)))
      | None \<Rightarrow>
          (error_response route (formatProviderError route slot (im_channel input) ''Routing configuration is incomplete.''), [], p))"

definition processChatMessage ::
  "('v, 'p) chat_env \<Rightarrow> inbound_message \<Rightarrow> ('v, 'p) chat_state \<Rightarrow> ('v, 'p) chat_outcome" where
  "processChatMessage env input st =
     (let (status, files) = readOnboardingStatus (ce_env env) (ce_fileExists env) (ce_dir env) (ct_files st);
          (secureSetup, setup) = handleSecureSetupFlow (ce_vault env) (im_sessionId input) (im_message input) (ct_setup st);
          st1 = st\<lparr>ct_files := files, ct_setup := setup\<rparr>;
          answer = (\<lambda>response. \<lparr>co_response = response, co_requests = [], co_events = [], co_state = st1\<rparr>)
      in case secureSetup of
           Inl setupError \<Rightarrow> answer (plain_response status (''Secure setup error: '' @ setupError))
         | Inr (Some message) \<Rightarrow> answer (plain_response status message)
         | Inr None \<Rightarrow>
             if \<not> os_onboarded status
             then answer (plain_response status (foundationMessage (im_message input) (im_channel input) (os_missing status)))
             else
               (let slot = ri_slot (analyzeRouteIntent (im_message input));
                    config = os_config status;
                    route = (case resolveRoutingTarget config slot of Some r \<Rightarrow> Some r | None \<Rightarrow> resolveRoutingTarget config Default);
                    event = \<lparr>ev_sessionId = im_sessionId input, ev_channel = im_channel input, ev_timestamp = ce_now env,
                             ev_stream = StatusStream ''route''\<rparr>;
                    (response, requests, p) = routeMessage env config input slot route (ct_provider st1)
                in \<lparr>co_response = response, co_requests = requests, co_events = [event], co_state = st1\<lparr>ct_provider := p\<rparr>\<rparr>))"

text \<open>
  The gateway: the same race, where the answer of a late message is a response of its own and
  the operation goes on. \<open>elapsed\<close> is the time the chat service takes.
\<close>

definition gatewayTimeout :: "int \<Rightarrow> string \<Rightarrow> chat_response" where
  "gatewayTimeout timeoutMs channel =
     \<lparr>rp_message = ''Gateway timeout: request exceeded '' @ int_to_string ((timeoutMs + 500) div 1000) @ ''s on channel='' @ channel @ ''.'',
      rp_thinking = None, rp_toolCalls = [], rp_mode = ProviderMode, rp_provider = None, rp_model = None,
      rp_onboardingRequired = False, rp_missing = []\<rparr>"

definition handleMessage :: "('v, 'p) chat_env \<Rightarrow> int \<Rightarrow> inbound_message \<Rightarrow> ('v, 'p) chat_state \<Rightarrow> ('v, 'p) chat_outcome" where
  "handleMessage env elapsed input st =
     (let timeoutMs = resolveGatewayTimeoutForMessage (ce_variables env) (im_message input);
          outcome = processChatMessage env input st
      in if elapsed < timeoutMs then outcome
         else outcome\<lparr>co_response := gatewayTimeout timeoutMs (im_channel input)\<rparr>)"


section \<open>What is kept from the provider\<close>

lemma not_handled_iff:
  "fst (handleSecureSetupFlow api sid msg st) = Inr None \<longleftrightarrow>
     pending_of st sid = None \<and> \<not> starts_with (trim msg) ''/setup''"
proof (cases "starts_with (trim msg) ''/setup''")
  case True
  have "fst (handleSlashSetupCommand api sid msg st) \<noteq> Inr None"
    using True unfolding handleSlashSetupCommand_def setupList_def setupClear_def setupMode_def handled_def Let_def
    by (auto split: option.split prod.split sum.split)
  with True show ?thesis
    by (auto simp: handleSecureSetupFlow_def split: prod.splits sum.splits option.splits)
next
  case False
  then have flow: "handleSecureSetupFlow api sid msg st = handlePendingSetupInput api sid msg st"
    by (simp add: handleSecureSetupFlow_def handleSlashSetupCommand_def Let_def)
  have "fst (handlePendingSetupInput api sid msg st) = Inr None \<longleftrightarrow> pending_of st sid = None"
    unfolding handlePendingSetupInput_def saveSecret_def handled_def Let_def
    by (auto split: option.split prod.split sum.split setup_step.split)
  then show ?thesis unfolding flow using False by simp
qed

lemma process_handled:
  assumes "fst (handleSecureSetupFlow (ce_vault env) (im_sessionId input) (im_message input) (ct_setup st)) \<noteq> Inr None"
  shows "co_requests (processChatMessage env input st) = [] \<and> co_events (processChatMessage env input st) = []
    \<and> ct_provider (co_state (processChatMessage env input st)) = ct_provider st
    \<and> co_response (processChatMessage env input st) =
        plain_response (fst (readOnboardingStatus (ce_env env) (ce_fileExists env) (ce_dir env) (ct_files st)))
          (case fst (handleSecureSetupFlow (ce_vault env) (im_sessionId input) (im_message input) (ct_setup st)) of
             Inl e \<Rightarrow> ''Secure setup error: '' @ e | Inr m \<Rightarrow> the m)"
  using assms unfolding processChatMessage_def Let_def case_prod_unfold by (auto split: sum.split option.split)

text \<open>
  C25. A typed secret stays between the user and the vault. While a session is asked for a
  password, what is typed is sent to no provider, no event is emitted, the state of the provider
  loop is unchanged, and the response is the same for any other secret typed instead.
\<close>

theorem typed_secret_private:
  assumes "pending_of (ct_setup st) (im_sessionId input) = Some p" and "pd_step p = StepSecret"
    and "pd_authMode p \<noteq> Some PasswordlessMfaCode" and "plain_value secret" and "plain_value secret'"
    and "ce_vault env = workspace_api cr host venv dir"
  shows "co_requests (processChatMessage env (input\<lparr>im_message := secret\<rparr>) st) = []
    \<and> co_events (processChatMessage env (input\<lparr>im_message := secret\<rparr>) st) = []
    \<and> ct_provider (co_state (processChatMessage env (input\<lparr>im_message := secret\<rparr>) st)) = ct_provider st
    \<and> co_response (processChatMessage env (input\<lparr>im_message := secret\<rparr>) st) =
        co_response (processChatMessage env (input\<lparr>im_message := secret'\<rparr>) st)"
proof -
  have "fst (handleSecureSetupFlow (ce_vault env) (im_sessionId input) s (ct_setup st)) \<noteq> Inr None" for s
    unfolding not_handled_iff using assms(1) by simp
  moreover have "fst (handleSecureSetupFlow (ce_vault env) (im_sessionId input) secret (ct_setup st)) =
      fst (handleSecureSetupFlow (ce_vault env) (im_sessionId input) secret' (ct_setup st))"
    unfolding assms(6) using assms(1-5) by (rule vault.reply_secret_free)
  ultimately show ?thesis
    using process_handled [of env "input\<lparr>im_message := secret\<rparr>" st] process_handled [of env "input\<lparr>im_message := secret'\<rparr>" st]
    by simp
qed

section \<open>Requests\<close>

definition status_of :: "('v, 'p) chat_env \<Rightarrow> ('v, 'p) chat_state \<Rightarrow> onboarding_status" where
  "status_of env st = fst (readOnboardingStatus (ce_env env) (ce_fileExists env) (ce_dir env) (ct_files st))"

definition route_for :: "t560_config \<Rightarrow> string \<Rightarrow> routing_target option" where
  "route_for config message =
     (case resolveRoutingTarget config (chooseRouteSlot message) of Some r \<Rightarrow> Some r | None \<Rightarrow> resolveRoutingTarget config Default)"

lemma process_requests:
  "co_requests (processChatMessage env input st) =
     (if fst (handleSecureSetupFlow (ce_vault env) (im_sessionId input) (im_message input) (ct_setup st)) \<noteq> Inr None
         \<or> \<not> os_onboarded (status_of env st) then []
      else fst (snd (routeMessage env (os_config (status_of env st)) input (chooseRouteSlot (im_message input))
             (route_for (os_config (status_of env st)) (im_message input)) (ct_provider st))))"
  unfolding processChatMessage_def Let_def case_prod_unfold status_of_def route_for_def chooseRouteSlot_def
  by (auto split: sum.split option.split)

lemma afterError_requests:
  "fst (snd (afterError env config input slot route e p)) =
     (case fallbackRoute env config route e of
        Some fallback \<Rightarrow> [request_for config fallback (im_message input) input]
      | None \<Rightarrow> if shouldAutoResumeAfterProviderError e then [request_for config route RESUME_MESSAGE input] else [])"
  by (simp add: afterError_def Let_def case_prod_unfold split: option.split)

text \<open>The requests of a routed message: none, or the message itself and at most one more.\<close>

lemma routeMessage_requests:
  obtains (none) "fst (snd (routeMessage env config input slot route p)) = []" "\<forall>t. route = Some t \<longrightarrow> \<not> has_target t"
  | (one) t where "route = Some t" "has_target t"
      "fst (snd (routeMessage env config input slot route p)) = [request_for config t (im_message input) input]"
  | (two) t e where "route = Some t" "has_target t"
      "fst (snd (routeMessage env config input slot route p)) =
         request_for config t (im_message input) input # fst (snd (afterError env config input slot t e
           (snd (askProvider env config input ''Chat request'' t (im_message input) p))))"
proof (cases route)
  case None
  then show thesis using none by (simp add: routeMessage_def)
next
  case (Some t)
  show thesis
  proof (cases "has_target t")
    case False
    then show thesis using none Some by (simp add: routeMessage_def)
  next
    case True
    obtain r p1 where r: "askProvider env config input ''Chat request'' t (im_message input) p = (r, p1)"
      by (cases "askProvider env config input ''Chat request'' t (im_message input) p")
    show thesis
    proof (cases r)
      case (Inl e)
      then show thesis using two [OF Some True, of e] Some True r
        by (simp add: routeMessage_def Let_def case_prod_unfold)
    next
      case (Inr reply)
      then show thesis using one [OF Some True] Some True r by (simp add: routeMessage_def Let_def)
    qed
  qed
qed

text \<open>
  C26. What is sent where: a message leads to at most two requests, all under the session, user
  and channel of the message; the first carries the message as typed to the route of its
  slot. Unless the user opted in to fallbacks by a variable, every request goes to the same
  route; and from a local route nothing goes elsewhere unless a second variable allows it.
\<close>

theorem requests_follow_route:
  assumes "requests = co_requests (processChatMessage env input st)" and "rq \<in> set requests"
  shows "length requests \<le> 2
    \<and> rq_sessionId rq = im_sessionId input \<and> rq_externalUserId rq = im_externalUserId input \<and> rq_channel rq = im_channel input
    \<and> rq_message (hd requests) = im_message input
    \<and> route_for (os_config (status_of env st)) (im_message input) = Some (rq_target (hd requests))
    \<and> (\<not> allowCrossSlotFallback (ce_variables env)
       \<or> isLikelyLocalRoute (ce_hostname env) (os_config (status_of env st)) (rq_target (hd requests))
         \<and> \<not> allowFallbackFromLocal (ce_variables env)
       \<longrightarrow> rq_target rq = rq_target (hd requests))"
proof -
  let ?c = "os_config (status_of env st)" and ?slot = "chooseRouteSlot (im_message input)"
  have reqs: "requests = fst (snd (routeMessage env ?c input ?slot (route_for ?c (im_message input)) (ct_provider st)))"
    using assms unfolding process_requests by (auto split: if_splits)
  have off: "fallbackRoute env ?c t e = None"
    if "\<not> allowCrossSlotFallback (ce_variables env) \<or> isLikelyLocalRoute (ce_hostname env) ?c t \<and> \<not> allowFallbackFromLocal (ce_variables env)" for t e
    using that by (auto simp: fallbackRoute_def Let_def)
  show ?thesis
  proof (cases rule: routeMessage_requests [of env ?c input ?slot "route_for ?c (im_message input)" "ct_provider st"])
    case none
    then show ?thesis using assms(2) reqs by simp
  next
    case (one t)
    then show ?thesis using assms(2) reqs by (simp add: request_for_def)
  next
    case (two t e)
    then show ?thesis using assms(2) reqs off [of t e] unfolding afterError_requests
      by (auto simp: request_for_def split: option.splits if_splits)
  qed
qed


section \<open>The fallback route\<close>

definition configured :: "t560_config \<Rightarrow> routing_target \<Rightarrow> bool" where
  "configured config r \<longleftrightarrow> has_target r \<and> (\<exists>slot. resolveRoutingTarget config slot = Some r)"

definition candidates :: "t560_config \<Rightarrow> routing_target list" where
  "candidates config = filter has_target (List.map_filter (resolveRoutingTarget config) [Default, Planning, Coding])"

definition by_key :: "routing_target list \<Rightarrow> (string, routing_target) omap" where
  "by_key rs = fold (\<lambda>r m. AList.update (routeKey (Some r)) r m) rs []"

lemma map_filter_mem: "x \<in> set (List.map_filter f xs) \<longleftrightarrow> (\<exists>y \<in> set xs. f y = Some x)"
  by (induction xs) (auto split: option.split)

lemma set_candidates: "set (candidates config) = {r. configured config r}"
proof -
  have "slot \<in> set [Default, Planning, Coding]" for slot by (cases slot) simp_all
  then show ?thesis unfolding candidates_def configured_def set_filter map_filter_mem by blast
qed

lemma by_key_snoc: "by_key (rs @ [r]) = AList.update (routeKey (Some r)) r (by_key rs)"
  by (simp add: by_key_def)

lemma set_update_subset: "set (AList.update k v m) \<subseteq> insert (k, v) (set m)"
  by (induction m) auto

lemma by_key_keys: "fst ` set (by_key rs) = (\<lambda>r. routeKey (Some r)) ` set rs"
proof (induction rs rule: rev_induct)
  case (snoc r rs)
  have upd: "fst ` set (AList.update k v m) = insert k (fst ` set m)" for k and v :: routing_target and m
    by (simp add: dom_map_of_conv_image_fst [symmetric] update_conv')
  show ?case unfolding by_key_snoc upd snoc by simp
qed (simp add: by_key_def)

lemma by_key_entries: "(k, r) \<in> set (by_key rs) \<Longrightarrow> k = routeKey (Some r) \<and> r \<in> set rs"
proof (induction rs rule: rev_induct)
  case (snoc r' rs)
  from snoc.prems have "(k, r) = (routeKey (Some r'), r') \<or> (k, r) \<in> set (by_key rs)"
    unfolding by_key_snoc using set_update_subset by fastforce
  with snoc.IH show ?case by auto
qed (simp add: by_key_def)

definition alternatives :: "t560_config \<Rightarrow> routing_target \<Rightarrow> routing_target list" where
  "alternatives config failed =
     filter (\<lambda>r. routeKey (Some r) \<noteq> [] \<and> routeKey (Some r) \<noteq> routeKey (Some failed)) (map snd (by_key (candidates config)))"

lemma chooseFallbackRoute_alt:
  "chooseFallbackRoute config failed =
     (case find (\<lambda>r. providerId r \<noteq> providerId failed) (alternatives config failed) of
        Some r \<Rightarrow> Some r
      | None \<Rightarrow> (case alternatives config failed of r # _ \<Rightarrow> Some r | [] \<Rightarrow> None))"
  unfolding chooseFallbackRoute_def alternatives_def by_key_def candidates_def Let_def by (rule refl)

lemma alternatives_sound:
  "r \<in> set (alternatives config failed) \<Longrightarrow>
   configured config r \<and> routeKey (Some r) \<noteq> [] \<and> routeKey (Some r) \<noteq> routeKey (Some failed)"
  using by_key_entries [of _ r "candidates config"] unfolding alternatives_def set_candidates by auto

lemma alternatives_complete:
  assumes "configured config r" "routeKey (Some r) \<noteq> []" "routeKey (Some r) \<noteq> routeKey (Some failed)"
  obtains r' where "r' \<in> set (alternatives config failed)" "routeKey (Some r') = routeKey (Some r)"
proof -
  have "routeKey (Some r) \<in> fst ` set (by_key (candidates config))"
    using assms(1) unfolding by_key_keys set_candidates by blast
  then obtain r' where "(routeKey (Some r), r') \<in> set (by_key (candidates config))" by auto
  moreover from this have "routeKey (Some r') = routeKey (Some r)" using by_key_entries by metis
  ultimately show thesis using that [of r'] assms(2,3) unfolding alternatives_def by force
qed

definition colon_free :: "routing_target \<Rightarrow> bool" where
  "colon_free r \<longleftrightarrow> CHR '':'' \<notin> set (opt_str (rt_provider r))"

lemma lower_colon: "CHR '':'' \<notin> set s \<Longrightarrow> CHR '':'' \<notin> set (to_lower (trim s))"
proof
  assume none: "CHR '':'' \<notin> set s" and "CHR '':'' \<in> set (to_lower (trim s))"
  then obtain c where c: "c \<in> set s" "lower_char c = CHR '':''"
    using set_trim_subset [of s] by (auto simp: to_lower_def)
  have "code_of (lower_char c) = 58" using c(2) by (simp add: code_of_def)
  then have "code_of c = 58" using lower_char_code [of c] by (auto simp: Let_def split: if_splits)
  then have "c = CHR '':''" by (metis char_of_code_of c(2) lower_char_idem \<open>code_of (lower_char c) = 58\<close>)
  with none c(1) show False by simp
qed

lemma key_provider:
  assumes "colon_free r" "routeKey (Some r) \<noteq> []"
  shows "takeWhile (\<lambda>c. c \<noteq> CHR '':'') (routeKey (Some r)) = providerId r"
proof -
  have "routeKey (Some r) = providerId r @ ''::'' @ to_lower (trim (opt_str (rt_model r)))"
    using assms(2) by (auto simp: routeKey_def providerId_def Let_def split: if_splits)
  moreover have "\<forall>c \<in> set (providerId r). c \<noteq> CHR '':''"
    using lower_colon assms(1) unfolding colon_free_def providerId_def by blast
  ultimately show ?thesis by (simp add: takeWhile_append2)
qed

text \<open>
  The fallback of a failed route is a configured route other than the failed one. It is on
  the same provider only if every configured route is, and there is none only if no other
  route is configured (for provider names without a colon, which separates the parts of the
  key routes are compared by).
\<close>

theorem fallback_is_other_route:
  assumes "\<And>r. configured config r \<Longrightarrow> colon_free r \<and> routeKey (Some r) \<noteq> []"
  shows "case chooseFallbackRoute config failed of
      Some r \<Rightarrow> configured config r \<and> routeKey (Some r) \<noteq> routeKey (Some failed)
        \<and> (providerId r = providerId failed \<longrightarrow>
            (\<forall>r'. configured config r' \<and> routeKey (Some r') \<noteq> routeKey (Some failed) \<longrightarrow> providerId r' = providerId failed))
    | None \<Rightarrow> (\<forall>r'. configured config r' \<longrightarrow> routeKey (Some r') = routeKey (Some failed))"
proof -
  have same: "providerId r = providerId r'" if "routeKey (Some r) = routeKey (Some r')" "configured config r" "configured config r'" for r r'
    using key_provider [of r] key_provider [of r'] assms that by metis
  have all: "providerId r' = providerId failed"
    if "find (\<lambda>r. providerId r \<noteq> providerId failed) (alternatives config failed) = None"
      "configured config r'" "routeKey (Some r') \<noteq> routeKey (Some failed)" for r'
    using alternatives_complete [OF that(2) _ that(3)] assms that same alternatives_sound
    by (metis (mono_tags, lifting) find_None_iff)
  show ?thesis
  proof (cases "find (\<lambda>r. providerId r \<noteq> providerId failed) (alternatives config failed)")
    case (Some r)
    then have "r \<in> set (alternatives config failed)" "providerId r \<noteq> providerId failed"
      by (auto simp: find_Some_iff)
    with Some alternatives_sound show ?thesis unfolding chooseFallbackRoute_alt by fastforce
  next
    case None
    show ?thesis
    proof (cases "alternatives config failed")
      case Nil
      then have "routeKey (Some r') = routeKey (Some failed)" if "configured config r'" for r'
        using alternatives_complete [OF that] assms that by (metis list.set(1) empty_iff)
      with Nil None show ?thesis unfolding chooseFallbackRoute_alt by simp
    next
      case (Cons r rest)
      then have "configured config r \<and> routeKey (Some r) \<noteq> routeKey (Some failed)" using alternatives_sound [of r config failed] by simp
      with Cons None all [OF None] show ?thesis unfolding chooseFallbackRoute_alt by simp
    qed
  qed
qed


section \<open>Limits\<close>

lemma envTimeoutMs_bounds:
  assumes "least \<le> def_ms" "def_ms \<le> most"
  shows "least \<le> envTimeoutMs s m least most def_ms env \<and> envTimeoutMs s m least most def_ms env \<le> most"
  using assms by (auto simp: envTimeoutMs_def split: option.split)

lemmas limit_defs = MAX_CHAT_TIMEOUT_MS_def MINUTE_def

lemma chat_limit_bounds:
  "5000 \<le> resolveChatTimeoutForMessage hostname env message route config
   \<and> resolveChatTimeoutForMessage hostname env message route config \<le> MAX_CHAT_TIMEOUT_MS"
  using envTimeoutMs_bounds [of 5000 "15 * MINUTE" MAX_CHAT_TIMEOUT_MS "''T560_CHAT_TIMEOUT_SEC''" "''T560_CHAT_TIMEOUT_MS''" env]
    envTimeoutMs_bounds [of MINUTE "30 * MINUTE" MAX_CHAT_TIMEOUT_MS "''T560_CHAT_TIMEOUT_LOCAL_SEC''" "''T560_CHAT_TIMEOUT_LOCAL_MS''" env]
  by (auto simp: resolveChatTimeoutForMessage_def resolveChatTimeoutMs_def resolveLocalChatTimeoutMs_def limit_defs Let_def)

lemma gateway_limit_bounds:
  "5000 \<le> resolveGatewayTimeoutForMessage env message \<and> resolveGatewayTimeoutForMessage env message \<le> MAX_CHAT_TIMEOUT_MS"
  using envTimeoutMs_bounds [of 5000 "15 * MINUTE" MAX_CHAT_TIMEOUT_MS "''T560_GATEWAY_MESSAGE_TIMEOUT_SEC''" "''T560_GATEWAY_MESSAGE_TIMEOUT_MS''" env]
  by (auto simp: resolveGatewayTimeoutForMessage_def resolveGatewayMessageTimeoutMs_def limit_defs Let_def)

lemma seconds: "5000 \<le> x \<Longrightarrow> x \<le> 86400000 \<Longrightarrow> 5 \<le> (x + 500) div 1000 \<and> (x + 500) div 1000 \<le> 86400" for x :: int
  using zdiv_mono1 [of 5500 "x + 500" 1000] zdiv_mono1 [of "x + 500" 86400500 1000] by simp

text \<open>
  A provider that never answers does not hang a message: when no request settles within
  the longest limit, the response says that the request timed out, in seconds between five and
  a day, and it is an ordinary response of the provider mode with the route that was tried.
\<close>

theorem silent_provider_times_out:
  assumes "\<And>rq p. fst (ce_chatWithProvider env rq p) = Pending"
    and "os_onboarded (status_of env st)" and "route_for (os_config (status_of env st)) (im_message input) = Some t" and "has_target t"
    and "pending_of (ct_setup st) (im_sessionId input) = None" and "\<not> starts_with (trim (im_message input)) ''/setup''"
    and "\<not> allowCrossSlotFallback (ce_variables env)"
  shows "\<exists>secs. 5 \<le> secs \<and> secs \<le> 86400
    \<and> co_response (processChatMessage env input st) =
        error_response (Some t) (formatProviderError (Some t) (chooseRouteSlot (im_message input)) (im_channel input)
          (''Chat request timed out after '' @ int_to_string secs @ ''s.''))
    \<and> length (co_requests (processChatMessage env input st)) = 1"
proof -
  let ?c = "os_config (status_of env st)"
  let ?ms = "resolveChatTimeoutForMessage (ce_hostname env) (ce_variables env) (im_message input) t ?c"
  define e where "e = ''Chat request timed out after '' @ int_to_string ((?ms + 500) div 1000) @ ''s.''"
  have ask: "fst (askProvider env ?c input ''Chat request'' t (im_message input) p) = Inl e" for p
    using assms(1) [of "request_for ?c t (im_message input) input" p]
    by (simp add: askProvider_def Let_def case_prod_unfold runWithTimeout_def e_def)
  have "fallbackRoute env ?c t e = None" using assms(7) by (simp add: fallbackRoute_def Let_def)
  moreover have "isNonRecoverableProviderError e"
  proof -
    have low: "to_lower ''Chat request timed out after '' = ''chat request '' @ ''timed out'' @ '' after ''" by code_simp
    have "to_lower e = to_lower ''Chat request timed out after '' @ to_lower (int_to_string ((?ms + 500) div 1000) @ ''s.'')"
      by (simp add: to_lower_def e_def)
    then have "str_includes (to_lower e) ''timed out''" unfolding low str_includes_iff append.assoc by blast
    then show ?thesis by (simp add: isNonRecoverableProviderError_def mentions_def)
  qed
  then have "\<not> shouldAutoResumeAfterProviderError e" by (simp add: shouldAutoResumeAfterProviderError_def)
  ultimately have after: "afterError env ?c input slot t e p = (error_response (Some t) (formatProviderError (Some t) slot (im_channel input) e), [], p)" for slot p
    by (simp add: afterError_def)
  have routed: "fst (routeMessage env ?c input slot (Some t) p) = error_response (Some t) (formatProviderError (Some t) slot (im_channel input) e)"
    "length (fst (snd (routeMessage env ?c input slot (Some t) p))) = 1" for slot p
    using ask [of p] assms(4) by (auto simp: routeMessage_def Let_def case_prod_unfold after)
  have open_chat: "fst (handleSecureSetupFlow (ce_vault env) (im_sessionId input) (im_message input) (ct_setup st)) = Inr None"
    unfolding not_handled_iff using assms(5,6) by simp
  then have "co_response (processChatMessage env input st) =
      fst (routeMessage env ?c input (chooseRouteSlot (im_message input)) (Some t) (ct_provider st))"
    using assms(2,3) unfolding processChatMessage_def Let_def case_prod_unfold status_of_def route_for_def chooseRouteSlot_def by simp
  moreover have "co_requests (processChatMessage env input st) =
      fst (snd (routeMessage env ?c input (chooseRouteSlot (im_message input)) (Some t) (ct_provider st)))"
    unfolding process_requests using open_chat assms(2,3) by simp
  moreover have "5 \<le> (?ms + 500) div 1000 \<and> (?ms + 500) div 1000 \<le> 86400"
    using chat_limit_bounds [of "ce_hostname env" "ce_variables env" "im_message input" t ?c] seconds by (simp add: limit_defs)
  ultimately show ?thesis using routed unfolding e_def by metis
qed


section \<open>From onboarding to a request\<close>

text \<open>
  C27. Onboarding is enough: once the state counts as onboarded, every message that is not part
  of a setup leads to a request that carries the message as typed to a provider with a profile
  which has a credential or may run without one. The answer that the routing is incomplete
  does not occur.
\<close>

theorem onboarded_messages_reach_provider:
  assumes "os_onboarded (status_of env st)"
    and "pending_of (ct_setup st) (im_sessionId input) = None" and "\<not> starts_with (trim (im_message input)) ''/setup''"
  shows "\<exists>rq more p m profile. co_requests (processChatMessage env input st) = rq # more \<and> rq_message rq = im_message input
    \<and> rq_target rq = \<lparr>rt_provider = Some p, rt_model = Some m\<rparr> \<and> hasRealValue (Some p) \<and> hasRealValue (Some m)
    \<and> Option.bind (cf_providers (os_config (status_of env st))) (\<lambda>ps. map_of ps p) = Some profile
    \<and> (hasProviderCredential (Some profile) \<or> providerCanRunWithoutCredential p (Some profile))"
proof -
  let ?c = "os_config (status_of env st)" and ?slot = "chooseRouteSlot (im_message input)"
  have "readOnboardingStatus (ce_env env) (ce_fileExists env) (ce_dir env) (ct_files st) =
      (status_of env st, snd (readOnboardingStatus (ce_env env) (ce_fileExists env) (ce_dir env) (ct_files st)))"
    by (simp add: status_of_def)
  from onboarded_facts [OF this assms(1), of ?slot] obtain p m profile where route:
    "resolveRoutingTarget ?c ?slot = Some \<lparr>rt_provider = Some p, rt_model = Some m\<rparr>" "hasRealValue (Some p)" "hasRealValue (Some m)"
    "Option.bind (cf_providers ?c) (\<lambda>ps. map_of ps p) = Some profile"
    "hasProviderCredential (Some profile) \<or> providerCanRunWithoutCredential p (Some profile)" by blast
  let ?t = "\<lparr>rt_provider = Some p, rt_model = Some m\<rparr>"
  have for_msg: "route_for ?c (im_message input) = Some ?t" using route(1) by (simp add: route_for_def)
  have "p \<noteq> []" "m \<noteq> []" using hasRealValue_Some [OF route(2)] hasRealValue_Some [OF route(3)] by auto
  then have "has_target ?t" by (simp add: has_target_def opt_str_def)
  have open_chat: "fst (handleSecureSetupFlow (ce_vault env) (im_sessionId input) (im_message input) (ct_setup st)) = Inr None"
    unfolding not_handled_iff using assms(2,3) by simp
  then have reqs: "co_requests (processChatMessage env input st) =
      fst (snd (routeMessage env ?c input ?slot (route_for ?c (im_message input)) (ct_provider st)))"
    unfolding process_requests using assms(1) by simp
  have "\<exists>rq more. co_requests (processChatMessage env input st) = rq # more \<and> rq_message rq = im_message input \<and> rq_target rq = ?t"
    using \<open>has_target ?t\<close> for_msg unfolding reqs
    by (cases rule: routeMessage_requests [of env ?c input ?slot "route_for ?c (im_message input)" "ct_provider st"])
      (auto simp: request_for_def)
  with route(2-5) show ?thesis by blast
qed


section \<open>Instances\<close>

definition demo_provider :: "nat provider" where
  "demo_provider rq n = (Resolved 10 \<lparr>py_message = ''ok'', py_thinking = None, py_toolCalls = [], py_provider = ''main'', py_model = ''m''\<rparr>, Suc n)"

definition demo_chat_env :: "nat provider \<Rightarrow> (vault_state, nat) chat_env" where
  "demo_chat_env provider = \<lparr>ce_env = demo_penv, ce_fileExists = (\<lambda>_. True), ce_variables = (\<lambda>_. None), ce_dir = ''/s'',
     ce_hostname = no_url, ce_vault = demo_api, ce_chatWithProvider = provider, ce_now = 0\<rparr>"

definition demo_chat :: "(vault_state, nat) chat_state" where
  "demo_chat = \<lparr>ct_files = demo_state (demo_config ''main'' (demo_profile (Some ''k'') None)), ct_setup = demo_setup, ct_provider = 0\<rparr>"

definition demo_input :: "string \<Rightarrow> inbound_message" where
  "demo_input s = \<lparr>im_channel = ''telegram'', im_message = s, im_sessionId = ''telegram:7'', im_externalUserId = ''42'', im_receivedAt = 0\<rparr>"

definition demo_asked :: "(vault_state, nat) chat_state" where
  "demo_asked = demo_chat\<lparr>ct_setup := put_pending ''telegram:7''
     \<lparr>pd_service = ''email'', pd_step = StepSecret, pd_authMode = Some Password, pd_identifier = Some ''me''\<rparr> demo_setup\<rparr>"

lemma demo_onboarded: "os_onboarded (status_of (demo_chat_env provider) demo_chat)"
proof -
  have "os_onboarded (fst (readOnboardingStatus demo_penv (\<lambda>_. True) ''/s'' (demo_state (demo_config ''main'' (demo_profile (Some ''k'') None)))))"
    by code_simp
  then show ?thesis by (simp add: status_of_def demo_chat_env_def demo_chat_def)
qed

lemma demo_open:
  "pending_of (ct_setup demo_chat) (im_sessionId (demo_input s)) = None" "\<not> starts_with (trim (im_message (demo_input ''hi''))) ''/setup''"
  by (simp add: demo_chat_def demo_setup_def pending_of_def) code_simp

theorem typed_secret_private_witness:
  "co_requests (processChatMessage (demo_chat_env demo_provider) ((demo_input [])\<lparr>im_message := ''hunter2''\<rparr>) demo_asked) = []
   \<and> co_response (processChatMessage (demo_chat_env demo_provider) ((demo_input [])\<lparr>im_message := ''hunter2''\<rparr>) demo_asked) =
     co_response (processChatMessage (demo_chat_env demo_provider) ((demo_input [])\<lparr>im_message := ''letmein''\<rparr>) demo_asked)"
proof -
  let ?p = "\<lparr>pd_service = ''email'', pd_step = StepSecret, pd_authMode = Some Password, pd_identifier = Some ''me''\<rparr>"
  have "pending_of (ct_setup demo_asked) (im_sessionId (demo_input [])) = Some ?p" by (simp add: demo_asked_def demo_input_def)
  moreover have "plain_value ''hunter2''" "plain_value ''letmein''" by code_simp+
  moreover have "ce_vault (demo_chat_env demo_provider) = workspace_api demo_crypto no_url demo_env ''/w''"
    by (simp add: demo_chat_env_def demo_api_def)
  ultimately show ?thesis
    using typed_secret_private [of demo_asked "demo_input []" ?p "''hunter2''" "''letmein''" "demo_chat_env demo_provider"
        demo_crypto no_url demo_env "''/w''"] by simp
qed

theorem onboarded_messages_reach_provider_witness:
  "\<exists>rq more. co_requests (processChatMessage (demo_chat_env demo_provider) (demo_input ''hi'') demo_chat) = rq # more \<and> rq_message rq = ''hi''"
  using onboarded_messages_reach_provider [OF demo_onboarded [of demo_provider] demo_open(1) demo_open(2)]
  by (auto simp: demo_input_def)

theorem requests_follow_route_witness:
  "length (co_requests (processChatMessage (demo_chat_env demo_provider) (demo_input ''hi'') demo_chat)) \<le> 2
   \<and> co_requests (processChatMessage (demo_chat_env demo_provider) (demo_input ''hi'') demo_chat) \<noteq> []"
proof -
  let ?r = "co_requests (processChatMessage (demo_chat_env demo_provider) (demo_input ''hi'') demo_chat)"
  have "length ?r = 1" by code_simp
  then have "?r \<noteq> []" by auto
  then have "hd ?r \<in> set ?r" by simp
  from requests_follow_route [OF refl this] \<open>?r \<noteq> []\<close> show ?thesis by blast
qed

definition silent_provider :: "nat provider" where
  "silent_provider rq n = (Pending, Suc n)"

theorem silent_provider_times_out_witness:
  "length (co_requests (processChatMessage (demo_chat_env silent_provider) (demo_input ''hi'') demo_chat)) = 1"
proof -
  let ?env = "demo_chat_env silent_provider"
  have "fst (ce_chatWithProvider ?env rq p) = Pending" for rq p by (simp add: demo_chat_env_def silent_provider_def)
  moreover have "\<exists>t. route_for (os_config (status_of ?env demo_chat)) (im_message (demo_input ''hi'')) = Some t \<and> has_target t"
  proof -
    have "list_all has_target (case route_for (os_config (status_of ?env demo_chat)) (im_message (demo_input ''hi'')) of Some t \<Rightarrow> [t] | None \<Rightarrow> [])"
      "route_for (os_config (status_of ?env demo_chat)) (im_message (demo_input ''hi'')) \<noteq> None" by code_simp+
    then show ?thesis by auto
  qed
  moreover have "\<not> allowCrossSlotFallback (ce_variables ?env)" by code_simp
  ultimately show ?thesis
    using silent_provider_times_out [OF _ demo_onboarded _ _ demo_open(1) demo_open(2)] by blast
qed

definition demo_routes :: t560_config where
  "demo_routes = empty_config\<lparr>cf_routing := Some
     \<lparr>rc_default = Some \<lparr>rt_provider = Some ''main'', rt_model = Some ''a''\<rparr>, rc_planning = Some \<lparr>rt_provider = Some ''main'', rt_model = Some ''b''\<rparr>,
      rc_coding = Some \<lparr>rt_provider = Some ''other'', rt_model = Some ''c''\<rparr>\<rparr>\<rparr>"

theorem fallback_is_other_route_witness:
  "chooseFallbackRoute demo_routes \<lparr>rt_provider = Some ''main'', rt_model = Some ''A''\<rparr> = Some \<lparr>rt_provider = Some ''other'', rt_model = Some ''c''\<rparr>
   \<and> configured demo_routes \<lparr>rt_provider = Some ''other'', rt_model = Some ''c''\<rparr>"
proof -
  let ?f = "\<lparr>rt_provider = Some ''main'', rt_model = Some ''A''\<rparr>" and ?r = "\<lparr>rt_provider = Some ''other'', rt_model = Some ''c''\<rparr>"
  have all: "list_all (\<lambda>r. colon_free r \<and> routeKey (Some r) \<noteq> []) (candidates demo_routes)" by code_simp
  have ok: "colon_free r \<and> routeKey (Some r) \<noteq> []" if "configured demo_routes r" for r
    using all that set_candidates [of demo_routes] unfolding list_all_iff by blast
  have chosen: "chooseFallbackRoute demo_routes ?f = Some ?r" by code_simp
  from fallback_is_other_route [where config = demo_routes and failed = ?f, OF ok] chosen show ?thesis by simp
qed

text \<open>
  With the default settings the gateway gives up on a message after 15 minutes, 45 for one that
  looks long-running, while the chat service grants a local provider 30 and 60: its answer, or
  its own message about the timeout, comes too late and is dropped.
\<close>

theorem gateway_before_local_limit:
  "resolveGatewayTimeoutForMessage (\<lambda>_. None) ''hi'' <
     resolveChatTimeoutForMessage no_url (\<lambda>_. None) ''hi'' \<lparr>rt_provider = Some ''local-openai'', rt_model = Some ''m''\<rparr> empty_config
   \<and> resolveGatewayTimeoutForMessage (\<lambda>_. None) ''log in to my account'' <
     resolveChatTimeoutForMessage no_url (\<lambda>_. None) ''log in to my account'' \<lparr>rt_provider = Some ''local-openai'', rt_model = Some ''m''\<rparr> empty_config"
  by code_simp

end
