(* ===== verification/Tool_Result.thy ===== *)
theory Tool_Result
  imports Js_Value
begin

text \<open>
  What the model sees of a tool's result: \<open>agents/tool-result-contract.ts\<close>, which gives the results of
  the browser, web and email tools a fixed shape, the compaction of browser results in
  \<open>agents/pi-tool-definition-adapter.ts\<close>, and \<open>JSON.stringify(v, null, 2)\<close>. Shaping a shaped result changes
  nothing, compaction keeps the shape, and a compacted result is bounded in every direction.
\<close>

section \<open>Object literals\<close>

text \<open>\<open>{ ...v, k1: x1, k2: x2 }\<close>, and a member that is there only under a condition.\<close>

definition spread_with :: "jsv \<Rightarrow> (string \<times> jsv) list \<Rightarrow> jsv" where
  "spread_with v kvs = JObj (fold (\<lambda>(k, x). AList.update k x) kvs (obj_entries v))"

definition member_if :: "bool \<Rightarrow> string \<Rightarrow> jsv \<Rightarrow> (string \<times> jsv) list" where
  "member_if b k x = (if b then [(k, x)] else [])"

fun is_number :: "jsv \<Rightarrow> bool" where
  "is_number (JNum _) = True"
| "is_number _ = False"

section \<open>The contract\<close>

definition toStringValue :: "jsv \<Rightarrow> string" where
  "toStringValue v = str_or_empty v"

definition toNumberValue :: "jsv \<Rightarrow> rat \<Rightarrow> jsv" where
  "toNumberValue v d = JNum (Fin (fin_or d (to_num v)))"

definition toBooleanValue :: "jsv \<Rightarrow> bool \<Rightarrow> bool" where
  "toBooleanValue v d =
     (case v of
        JBool b \<Rightarrow> b
      | _ \<Rightarrow>
         if nullish v then d
         else let normalized = to_lower (trim (to_str v)) in
              if normalized = ''true'' then True
              else if normalized = ''false'' then False
              else d)"

text \<open>\<open>toStringValue(row.k).trim()\<close> and \<open>toStringValue(row.k)\<close> as members of a literal.\<close>

definition trimmed :: "jsv \<Rightarrow> string \<Rightarrow> string" where
  "trimmed row k = trim (toStringValue (jget row k))"

definition normalizeLink :: "jsv \<Rightarrow> jsv option" where
  "normalizeLink entry =
     (if \<not> is_object entry then None
      else let url = trimmed entry ''url'' in
           if url = [] then None
           else Some (JObj [(''index'', toNumberValue (jget entry ''index'') 0),
                            (''text'', JStr (trimmed entry ''text'')),
                            (''url'', JStr url)]))"

definition normalizeRef :: "jsv \<Rightarrow> jsv option" where
  "normalizeRef entry =
     (if \<not> is_object entry then None
      else let ref = trimmed entry ''ref'' in
           if ref = [] then None
           else Some (JObj (
             [(''ref'', JStr ref),
              (''kind'', JStr (trimmed entry ''kind'')),
              (''role'', JStr (trimmed entry ''role'')),
              (''name'', JStr (trimmed entry ''name''))] @
             member_if (trimmed entry ''url'' \<noteq> []) ''url'' (JStr (trimmed entry ''url'')) @
             member_if (is_finite (to_num (jget entry ''formIndex''))) ''formIndex'' (JNum (to_num (jget entry ''formIndex''))) @
             member_if (trimmed entry ''fieldName'' \<noteq> []) ''fieldName'' (JStr (trimmed entry ''fieldName'')) @
             member_if (trimmed entry ''method'' \<noteq> []) ''method'' (JStr (trimmed entry ''method'')) @
             member_if (trimmed entry ''selector'' \<noteq> []) ''selector'' (JStr (trimmed entry ''selector'')))))"

text \<open>\<open>Array.isArray(v) ? v.map(f).filter(Boolean) : []\<close> for an \<open>f\<close> that returns an object or \<open>null\<close>.\<close>

definition rows_of :: "(jsv \<Rightarrow> jsv option) \<Rightarrow> jsv \<Rightarrow> jsv list" where
  "rows_of f v = List.map_filter f (elems v)"

definition normalizeSnapshot :: "rat \<Rightarrow> jsv \<Rightarrow> jsv" where
  "normalizeSnapshot now entry =
     (if \<not> is_object entry then JNull
      else JObj
        [(''capturedAt'', toNumberValue (jget entry ''capturedAt'') now),
         (''url'', JStr (trimmed entry ''url'')),
         (''title'', JStr (trimmed entry ''title'')),
         (''status'', toNumberValue (jget entry ''status'') 0),
         (''ok'', JBool (toBooleanValue (jget entry ''ok'') False)),
         (''contentType'', JStr (trimmed entry ''contentType'')),
         (''truncated'', JBool (toBooleanValue (jget entry ''truncated'') False)),
         (''bytes'', toNumberValue (jget entry ''bytes'') 0),
         (''text'', JStr (toStringValue (jget entry ''text''))),
         (''links'', JArr (rows_of normalizeLink (jget entry ''links''))),
         (''refs'', JArr (rows_of normalizeRef (jget entry ''refs'')))])"

text \<open>\<open>if (k in out) out.k = f(out.k)\<close> and \<open>if (Array.isArray(out.k)) out.k = g(out.k)\<close>.\<close>

definition at_key :: "string \<Rightarrow> (jsv \<Rightarrow> jsv) \<Rightarrow> jsv \<Rightarrow> jsv" where
  "at_key k f v = (if jhas v k then jput k (f (jget v k)) v else v)"

definition at_array :: "string \<Rightarrow> (jsv list \<Rightarrow> jsv list) \<Rightarrow> jsv \<Rightarrow> jsv" where
  "at_array k g v = (if is_array (jget v k) then jput k (JArr (g (elems (jget v k)))) v else v)"

definition normalizeBrowserResult :: "rat \<Rightarrow> jsv \<Rightarrow> jsv" where
  "normalizeBrowserResult now result =
     (if \<not> is_object result then result
      else at_array ''refs'' (List.map_filter normalizeRef)
             (at_key ''openedSnapshot'' (normalizeSnapshot now)
               (at_key ''snapshot'' (normalizeSnapshot now) (spread_with result []))))"

definition normalizeSearchItem :: "jsv \<Rightarrow> jsv option" where
  "normalizeSearchItem entry =
     (if \<not> is_object entry then None
      else let url = trimmed entry ''url'' in
           if url = [] then None
           else Some (JObj [(''title'', JStr (trimmed entry ''title'')),
                            (''url'', JStr url),
                            (''description'', JStr (trimmed entry ''description''))]))"

definition normalizePrice :: "jsv \<Rightarrow> jsv" where
  "normalizePrice p =
     JObj [(''amount'', toNumberValue (jget p ''amount'') 0),
           (''currency'', JStr (trimmed p ''currency'')),
           (''display'', JStr (trimmed p ''display''))]"

definition normalizeProduct :: "jsv \<Rightarrow> jsv option" where
  "normalizeProduct entry =
     (if \<not> is_object entry then None
      else let url = trimmed entry ''url'' in
           if url = [] then None
           else Some (JObj (
             [(''title'', JStr (trimmed entry ''title'')),
              (''url'', JStr url),
              (''description'', JStr (trimmed entry ''description'')),
              (''relevanceScore'', toNumberValue (jget entry ''relevanceScore'') 0)] @
             member_if (is_object (jget entry ''price'')) ''price'' (normalizePrice (jget entry ''price'')))))"

definition normalizeWebSearchResult :: "jsv \<Rightarrow> jsv" where
  "normalizeWebSearchResult row =
     (if \<not> is_object row then row
      else let results = rows_of normalizeSearchItem (jget row ''results'');
               products = rows_of normalizeProduct (jget row ''products'')
           in spread_with row (
                [(''provider'', JStr (trimmed row ''provider'')),
                 (''query'', JStr (trimmed row ''query'')),
                 (''queryUsed'', JStr (trimmed row ''queryUsed'')),
                 (''count'', toNumberValue (jget row ''count'') (of_nat (length results))),
                 (''results'', JArr results)] @
                member_if (products \<noteq> []) ''products'' (JArr products)))"

definition normalizeWebFetchResult :: "jsv \<Rightarrow> jsv" where
  "normalizeWebFetchResult row =
     (if \<not> is_object row then row
      else spread_with row
        [(''ok'', JBool (toBooleanValue (jget row ''ok'') False)),
         (''status'', toNumberValue (jget row ''status'') 0),
         (''url'', JStr (trimmed row ''url'')),
         (''contentType'', JStr (trimmed row ''contentType'')),
         (''truncated'', JBool (toBooleanValue (jget row ''truncated'') False)),
         (''bytes'', toNumberValue (jget row ''bytes'') 0),
         (''text'', JStr (toStringValue (jget row ''text'')))])"

text \<open>\<open>Array.isArray(v) ? v.map((value) => toStringValue(value).trim()).filter(Boolean) : []\<close>\<close>

definition string_rows :: "jsv \<Rightarrow> jsv" where
  "string_rows v = JArr (map JStr (filter (\<lambda>s. s \<noteq> []) (map (\<lambda>x. trim (toStringValue x)) (elems v))))"

definition normalizeEmailMessage :: "jsv \<Rightarrow> jsv option" where
  "normalizeEmailMessage row =
     (if \<not> is_object row then None
      else Some (JObj
        [(''sequence'', toNumberValue (jget row ''sequence'') 0),
         (''uid'', toNumberValue (jget row ''uid'') 0),
         (''subject'', JStr (trimmed row ''subject'')),
         (''from'', JStr (trimmed row ''from'')),
         (''to'', JStr (trimmed row ''to'')),
         (''date'', JStr (trimmed row ''date'')),
         (''snippet'', JStr (toStringValue (jget row ''snippet''))),
         (''messageId'', JStr (trimmed row ''messageId'')),
         (''inReplyTo'', JStr (trimmed row ''inReplyTo'')),
         (''threadKey'', JStr (trimmed row ''threadKey'')),
         (''references'', string_rows (jget row ''references'')),
         (''flags'', string_rows (jget row ''flags'')),
         (''size'', toNumberValue (jget row ''size'') 0)]))"

definition normalizeEmailResult :: "jsv \<Rightarrow> jsv" where
  "normalizeEmailResult row =
     (if \<not> is_object row then row
      else let messages = rows_of normalizeEmailMessage (jget row ''messages'') in
        spread_with row
        [(''ok'', JBool (toBooleanValue (jget row ''ok'') False)),
         (''action'', JStr (trimmed row ''action'')),
         (''service'', JStr (trimmed row ''service'')),
         (''provider'', JStr (trimmed row ''provider'')),
         (''reason'', JStr (trimmed row ''reason'')),
         (''nextStep'', JStr (trimmed row ''nextStep'')),
         (''loginUrl'', JStr (trimmed row ''loginUrl'')),
         (''requiresBrowserLogin'', JBool (toBooleanValue (jget row ''requiresBrowserLogin'') False)),
         (''count'', toNumberValue (jget row ''count'') (of_nat (length messages))),
         (''acceptedCount'', toNumberValue (jget row ''acceptedCount'') 0),
         (''messages'', JArr messages),
         (''accepted'', string_rows (jget row ''accepted'')),
         (''to'', string_rows (jget row ''to'')),
         (''cc'', string_rows (jget row ''cc'')),
         (''bcc'', string_rows (jget row ''bcc''))])"

definition applyToolResultContract :: "rat \<Rightarrow> string \<Rightarrow> jsv \<Rightarrow> jsv" where
  "applyToolResultContract now toolName result =
     (let normalizedName = to_lower (trim toolName) in
      if normalizedName = ''browser'' then normalizeBrowserResult now result
      else if normalizedName = ''web_search'' then normalizeWebSearchResult result
      else if normalizedName = ''web_fetch'' then normalizeWebFetchResult result
      else if normalizedName = ''email'' then normalizeEmailResult result
      else result)"

section \<open>Compaction\<close>

definition BROWSER_RESULT_MAX_TEXT_CHARS :: nat where "BROWSER_RESULT_MAX_TEXT_CHARS = 3500"

definition BROWSER_RESULT_MAX_LINKS :: nat where "BROWSER_RESULT_MAX_LINKS = 40"

definition BROWSER_RESULT_MAX_REFS :: nat where "BROWSER_RESULT_MAX_REFS = 60"

definition BROWSER_RESULT_MAX_FORMS :: nat where "BROWSER_RESULT_MAX_FORMS = 24"

definition BROWSER_RESULT_MAX_FORM_FIELDS :: nat where "BROWSER_RESULT_MAX_FORM_FIELDS = 40"

definition truncation_note :: string where
  "truncation_note = CHR 0x0A # CHR 0x0A # ''[truncated for tool context]''"

definition truncateText :: "jsv \<Rightarrow> nat \<Rightarrow> string" where
  "truncateText v maxChars =
     (let s = str_or_empty v in
      if length s \<le> maxChars then s else take maxChars s @ truncation_note)"

text \<open>The members a compacted row keeps: as it is, or cut; each only when it has the right type.\<close>

definition keep_string :: "jsv \<Rightarrow> string \<Rightarrow> (string \<times> jsv) list" where
  "keep_string v k = member_if (is_string (jget v k)) k (jget v k)"

definition keep_number :: "jsv \<Rightarrow> string \<Rightarrow> (string \<times> jsv) list" where
  "keep_number v k = member_if (is_number (jget v k)) k (jget v k)"

definition cut_string :: "jsv \<Rightarrow> string \<Rightarrow> nat \<Rightarrow> (string \<times> jsv) list" where
  "cut_string v k n = member_if (is_string (jget v k)) k (JStr (truncateText (jget v k) n))"

definition compactLink :: "jsv \<Rightarrow> jsv" where
  "compactLink entry =
     (if \<not> is_object entry then entry
      else JObj (keep_number entry ''index'' @ cut_string entry ''text'' 160 @ cut_string entry ''url'' 240))"

definition compactRef :: "jsv \<Rightarrow> jsv" where
  "compactRef entry =
     (if \<not> is_object entry then entry
      else JObj (keep_string entry ''ref'' @ keep_string entry ''kind'' @ keep_string entry ''role'' @
                 cut_string entry ''name'' 180 @ cut_string entry ''url'' 240 @ keep_number entry ''formIndex'' @
                 cut_string entry ''fieldName'' 120 @ keep_string entry ''method'' @ cut_string entry ''selector'' 240))"

definition compactSnapshot :: "jsv \<Rightarrow> jsv" where
  "compactSnapshot snapshot =
     (if \<not> is_object snapshot then snapshot
      else spread_with snapshot (
        member_if (is_string (jget snapshot ''text'')) ''text''
          (JStr (truncateText (jget snapshot ''text'') BROWSER_RESULT_MAX_TEXT_CHARS)) @
        member_if (is_array (jget snapshot ''links'')) ''links''
          (JArr (map compactLink (take BROWSER_RESULT_MAX_LINKS (elems (jget snapshot ''links''))))) @
        member_if (is_array (jget snapshot ''refs'')) ''refs''
          (JArr (map compactRef (take BROWSER_RESULT_MAX_REFS (elems (jget snapshot ''refs'')))))))"

text \<open>The references of the result itself keep fewer members than those of a snapshot.\<close>

definition compactTopRef :: "jsv \<Rightarrow> jsv" where
  "compactTopRef entry =
     (if \<not> is_object entry then entry
      else JObj (keep_string entry ''ref'' @ keep_string entry ''kind'' @ keep_string entry ''role'' @
                 cut_string entry ''name'' 180 @ cut_string entry ''url'' 240 @ cut_string entry ''selector'' 240))"

definition compactForm :: "jsv \<Rightarrow> jsv" where
  "compactForm entry =
     (if \<not> is_object entry then entry
      else if \<not> is_array (jget entry ''fields'') then entry
      else spread_with entry
             [(''fields'', JArr (take BROWSER_RESULT_MAX_FORM_FIELDS (elems (jget entry ''fields''))))])"

definition compactBrowserToolResult :: "jsv \<Rightarrow> jsv" where
  "compactBrowserToolResult result =
     (if \<not> is_object result then result
      else at_array ''forms'' (\<lambda>xs. map compactForm (take BROWSER_RESULT_MAX_FORMS xs))
             (at_array ''refs'' (\<lambda>xs. map compactTopRef (take BROWSER_RESULT_MAX_REFS xs))
               (at_key ''openedSnapshot'' compactSnapshot
                 (at_key ''snapshot'' compactSnapshot (spread_with result [])))))"

section \<open>Printing\<close>

definition hex_digit :: "nat \<Rightarrow> char" where
  "hex_digit n = (if n < 10 then digit_char n else char_of (87 + n))"

text \<open>A character inside a JSON string.\<close>

definition json_char :: "char \<Rightarrow> string" where
  "json_char c =
     (if c = CHR 0x22 then [CHR 0x5C, CHR 0x22]
      else if c = CHR 0x5C then [CHR 0x5C, CHR 0x5C]
      else if c = CHR 0x08 then [CHR 0x5C, CHR ''b'']
      else if c = CHR 0x0C then [CHR 0x5C, CHR ''f'']
      else if c = CHR 0x0A then [CHR 0x5C, CHR ''n'']
      else if c = CHR 0x0D then [CHR 0x5C, CHR ''r'']
      else if c = CHR 0x09 then [CHR 0x5C, CHR ''t'']
      else if code_of c < 32 then
        [CHR 0x5C, CHR ''u'', CHR ''0'', CHR ''0'', hex_digit (nat (code_of c) div 16), hex_digit (nat (code_of c) mod 16)]
      else [c])"

definition json_quote :: "string \<Rightarrow> string" where
  "json_quote s = [CHR 0x22] @ concat (map json_char s) @ [CHR 0x22]"

text \<open>\<open>JSON.stringify(v, null, 2)\<close> at an indentation; \<open>None\<close> is \<open>undefined\<close>, which objects leave out.\<close>

definition json_block :: "char \<Rightarrow> char \<Rightarrow> nat \<Rightarrow> string list \<Rightarrow> string" where
  "json_block l r ind parts =
     (if parts = [] then [l, r]
      else [l, CHR 0x0A] @ js_join ('','' @ [CHR 0x0A]) (map (\<lambda>p. replicate (ind + 2) (CHR '' '') @ p) parts) @
           [CHR 0x0A] @ replicate ind (CHR '' '') @ [r])"

fun json_print :: "nat \<Rightarrow> jsv \<Rightarrow> string option" where
  "json_print ind JUndef = None"
| "json_print ind JNull = Some ''null''"
| "json_print ind (JBool b) = Some (if b then ''true'' else ''false'')"
| "json_print ind (JNum n) = Some (if is_finite n then num_to_string n else ''null'')"
| "json_print ind (JStr s) = Some (json_quote s)"
| "json_print ind (JArr xs) =
     Some (json_block (CHR ''['') (CHR '']'') ind
       (map (\<lambda>x. case json_print (ind + 2) x of None \<Rightarrow> ''null'' | Some t \<Rightarrow> t) xs))"
| "json_print ind (JObj fs) =
     Some (json_block (CHR ''{'') (CHR ''}'') ind
       (concat (map (\<lambda>(k, x). case json_print (ind + 2) x of None \<Rightarrow> [] | Some t \<Rightarrow> [json_quote k @ '': '' @ t]) fs)))"

definition stringifyToolResult :: "jsv \<Rightarrow> string" where
  "stringifyToolResult result =
     (case result of
        JStr s \<Rightarrow> s
      | _ \<Rightarrow> if nullish result then [] else case json_print 0 result of Some t \<Rightarrow> t | None \<Rightarrow> [])"


section \<open>Objects\<close>

lemma update_same: "map_of m k = Some v \<Longrightarrow> AList.update k v m = m"
  by (induction m) (auto split: if_splits)

lemma fold_update_same:
  "(\<And>k x. (k, x) \<in> set kvs \<Longrightarrow> map_of m k = Some x) \<Longrightarrow> fold (\<lambda>(k, x). AList.update k x) kvs m = m"
  by (induction kvs) (auto simp: update_same)

lemma map_of_fold_update:
  "map_of (fold (\<lambda>(k, x). AList.update k x) kvs m) k = (case map_of (rev kvs) k of Some x \<Rightarrow> Some x | None \<Rightarrow> map_of m k)"
proof (induction kvs rule: rev_induct)
  case (snoc p kvs)
  then show ?case by (cases p) (auto simp: update_conv')
qed simp

lemma jget_spread:
  "kvs \<noteq> [] \<Longrightarrow> jget (spread_with v kvs) k = (case map_of (rev kvs) k of Some x \<Rightarrow> x | None \<Rightarrow> jget (spread_with v []) k)"
  by (auto simp: spread_with_def map_of_fold_update split: option.splits)

lemma jhas_spread: "jhas (spread_with v kvs) k \<longleftrightarrow> k \<in> fst ` set kvs \<or> jhas (spread_with v []) k"
proof (cases "map_of (rev kvs) k")
  case None
  then have "k \<notin> fst ` set kvs" by (simp add: map_of_eq_None_iff)
  then show ?thesis using None by (simp add: spread_with_def map_of_fold_update)
next
  case (Some x)
  then have "(k, x) \<in> set kvs" using map_of_SomeD by fastforce
  then show ?thesis using Some by (force simp: spread_with_def map_of_fold_update)
qed

lemma spread_object [simp]: "is_object (spread_with v kvs)" "\<not> is_array (spread_with v kvs)"
  by (simp_all add: spread_with_def)

lemma spread_nothing: "is_object v \<Longrightarrow> \<not> is_array v \<Longrightarrow> spread_with v [] = v"
  by (cases v) (auto simp: spread_with_def)

lemma spread_again:
  assumes "distinct (map fst kvs)"
  shows "spread_with (spread_with v kvs) kvs = spread_with v kvs"
proof -
  have "map_of (fold (\<lambda>(k, x). AList.update k x) kvs (obj_entries v)) k = Some x" if "(k, x) \<in> set kvs" for k x
    using that assms by (simp add: map_of_fold_update rev_map [symmetric])
  then show ?thesis by (simp add: spread_with_def fold_update_same)
qed

text \<open>The indices of an array are the only keys its spread has.\<close>

lemma jget_spread_none: "is_object v \<Longrightarrow> \<not> list_all is_digit k \<Longrightarrow> jget (spread_with v []) k = jget v k"
proof (cases v)
  case (JArr xs)
  assume "\<not> list_all is_digit k"
  then have "k \<notin> nat_to_string ` {0..<length xs}" using nat_to_string_digits by (auto simp: list_all_iff)
  then have "map_of (zip (map nat_to_string [0..<length xs]) xs) k = None"
    by (auto simp: map_of_eq_None_iff dest: set_zip_leftD)
  then show ?thesis by (simp only: JArr spread_with_def fold_simps obj_entries.simps jget.simps option.case)
qed (auto simp: spread_with_def)

lemma map_of_member_if [simp]: "map_of (member_if b k x) k' = (if b \<and> k' = k then Some x else None)"
  by (simp add: member_if_def)

lemma rev_member_if [simp]: "rev (member_if b k x) = member_if b k x"
  by (simp add: member_if_def)

lemma fst_member_if [simp]: "fst ` set (member_if b k x) = (if b then {k} else {})"
  by (simp add: member_if_def)

lemma member_if_False [simp]: "member_if False k x = []"
  by (simp add: member_if_def)

lemma not_jhas_jget: "\<not> jhas v k \<Longrightarrow> jget v k = JUndef"
  by (cases v) auto

lemma jget_JObj: "jget (JObj fs) k = (case map_of fs k of None \<Rightarrow> JUndef | Some v \<Rightarrow> v)"
  by simp

lemma at_key_get: "is_object v \<Longrightarrow> \<not> is_array v \<Longrightarrow>
    jget (at_key k f v) k' = (if k' = k \<and> jhas v k then f (jget v k) else jget v k')"
  by (simp add: at_key_def)

lemma at_array_get: "is_object v \<Longrightarrow> \<not> is_array v \<Longrightarrow>
    jget (at_array k g v) k' = (if k' = k \<and> is_array (jget v k) then JArr (g (elems (jget v k))) else jget v k')"
  by (simp add: at_array_def)

lemma at_object [simp]:
  "is_object v \<Longrightarrow> is_object (at_key k f v)" "\<not> is_array v \<Longrightarrow> \<not> is_array (at_key k f v)"
  "is_object v \<Longrightarrow> is_object (at_array k g v)" "\<not> is_array v \<Longrightarrow> \<not> is_array (at_array k g v)"
  by (simp_all add: at_key_def at_array_def)

lemma jhas_at [simp]:
  "is_object v \<Longrightarrow> \<not> is_array v \<Longrightarrow> jhas (at_key k f v) k' = jhas v k'"
  "is_object v \<Longrightarrow> \<not> is_array v \<Longrightarrow> jhas (at_array k g v) k' = jhas v k'"
  by (cases v; auto simp: at_key_def at_array_def update_conv' split: option.splits)+

text \<open>An update that writes what is there changes nothing.\<close>

lemma jput_same: "is_object v \<Longrightarrow> \<not> is_array v \<Longrightarrow> jhas v k \<Longrightarrow> jget v k = x \<Longrightarrow> jput k x v = v"
  by (cases v) (auto simp: update_same split: option.splits)

lemma at_key_same:
  "is_object v \<Longrightarrow> \<not> is_array v \<Longrightarrow> (jhas v k \<Longrightarrow> f (jget v k) = jget v k) \<Longrightarrow> at_key k f v = v"
  by (simp add: at_key_def jput_same)

lemma jget_array_has: "is_array (jget v k) \<Longrightarrow> jhas v k"
  by (cases v) (auto split: option.splits)

lemma at_array_same:
  "is_object v \<Longrightarrow> \<not> is_array v \<Longrightarrow> (is_array (jget v k) \<Longrightarrow> g (elems (jget v k)) = elems (jget v k)) \<Longrightarrow>
   at_array k g v = v"
  by (cases "jget v k") (auto simp: at_array_def intro!: jput_same jget_array_has)

section \<open>Shaping a shaped result\<close>

lemma toNumberValue_again [simp]: "toNumberValue (toNumberValue v d) d' = toNumberValue v d"
  by (simp add: toNumberValue_def)

lemma toBooleanValue_JBool [simp]: "toBooleanValue (JBool b) d = b"
  by (simp add: toBooleanValue_def)

lemma toStringValue_JStr [simp]: "toStringValue (JStr s) = s"
  by (simp add: toStringValue_def)

lemma trim_trimmed [simp]: "trim (trimmed v k) = trimmed v k"
  by (simp add: trimmed_def)

lemma map_filter_again:
  assumes "\<And>x y. x \<in> set xs \<Longrightarrow> f x = Some y \<Longrightarrow> f y = Some y"
  shows "List.map_filter f (List.map_filter f xs) = List.map_filter f xs"
  using assms
proof (induction xs)
  case (Cons a xs)
  have "f y = Some y" if "f a = Some y" for y using Cons.prems [of a y] that by simp
  then show ?case using Cons by (auto simp: map_filter_simps split: option.split)
qed (simp add: map_filter_simps)

lemma rows_of_again:
  "(\<And>x y. f x = Some y \<Longrightarrow> f y = Some y) \<Longrightarrow> rows_of f (JArr (rows_of f v)) = rows_of f v"
  by (simp add: rows_of_def map_filter_again)

lemma normalizeLink_again: "normalizeLink x = Some y \<Longrightarrow> normalizeLink y = Some y"
  by (auto simp: normalizeLink_def trimmed_def Let_def split: if_splits)

lemma normalizeSearchItem_again: "normalizeSearchItem x = Some y \<Longrightarrow> normalizeSearchItem y = Some y"
  by (auto simp: normalizeSearchItem_def trimmed_def Let_def split: if_splits)

lemma normalizePrice_again [simp]: "normalizePrice (normalizePrice p) = normalizePrice p"
  by (simp add: normalizePrice_def trimmed_def)

lemma is_object_normalizePrice [simp]: "is_object (normalizePrice p)"
  by (simp add: normalizePrice_def)

lemma normalizeProduct_again: "normalizeProduct x = Some y \<Longrightarrow> normalizeProduct y = Some y"
  by (auto simp: normalizeProduct_def trimmed_def member_if_def Let_def split: if_splits)

text \<open>A reference in the agreed shape: the four texts are there, the other members only with a value.\<close>

lemma trimmed_JObj: "trimmed (JObj fs) k = (case map_of fs k of None \<Rightarrow> [] | Some v \<Rightarrow> trim (str_or_empty v))"
  by (simp add: trimmed_def toStringValue_def split: option.splits)


lemma normalizeRef_fields:
  assumes "normalizeRef x = Some y"
  shows "is_object y"
    and "trimmed y ''ref'' = trimmed x ''ref''" and "trimmed y ''kind'' = trimmed x ''kind''"
    and "trimmed y ''role'' = trimmed x ''role''" and "trimmed y ''name'' = trimmed x ''name''"
    and "trimmed y ''url'' = trimmed x ''url''" and "trimmed y ''fieldName'' = trimmed x ''fieldName''"
    and "trimmed y ''method'' = trimmed x ''method''" and "trimmed y ''selector'' = trimmed x ''selector''"
    and "jget y ''formIndex'' =
           (if is_finite (to_num (jget x ''formIndex'')) then JNum (to_num (jget x ''formIndex'')) else JUndef)"
  using assms
  by (auto simp: normalizeRef_def Let_def trimmed_JObj map_add_def split: if_splits)

lemma normalizeRef_again: "normalizeRef x = Some y \<Longrightarrow> normalizeRef y = Some y"
proof -
  assume y: "normalizeRef x = Some y"
  note f = normalizeRef_fields [OF y]
  have "is_object x" using y by (auto simp: normalizeRef_def Let_def split: if_splits)
  then have "normalizeRef y = normalizeRef x"
    unfolding normalizeRef_def Let_def by (auto simp: f)
  then show ?thesis using y by simp
qed

lemma normalizeSnapshot_again [simp]: "normalizeSnapshot now' (normalizeSnapshot now v) = normalizeSnapshot now v"
  by (simp add: normalizeSnapshot_def trimmed_def rows_of_again normalizeLink_again normalizeRef_again)


lemma string_rows_again [simp]: "string_rows (string_rows v) = string_rows v"
proof -
  have again: "filter (\<lambda>s. s \<noteq> []) (map (\<lambda>x. trim (toStringValue x)) (map JStr ws)) = ws"
    if "\<forall>w \<in> set ws. trim w = w \<and> w \<noteq> []" for ws
    using that by (induction ws) auto
  define ws where "ws = filter (\<lambda>s. s \<noteq> []) (map (\<lambda>x. trim (toStringValue x)) (elems v))"
  have "filter (\<lambda>s. s \<noteq> []) (map (\<lambda>x. trim (toStringValue x)) (map JStr ws)) = ws"
    by (rule again) (auto simp: ws_def)
  then show ?thesis by (simp only: string_rows_def elems.simps ws_def [symmetric])
qed

lemma normalizeEmailMessage_again: "normalizeEmailMessage x = Some y \<Longrightarrow> normalizeEmailMessage y = Some y"
proof -
  assume y: "normalizeEmailMessage x = Some y"
  then have "is_object x" by (simp add: normalizeEmailMessage_def split: if_splits)
  then have "normalizeEmailMessage (the (normalizeEmailMessage x)) = normalizeEmailMessage x"
    by (simp add: normalizeEmailMessage_def trimmed_JObj)
  then show ?thesis using y by simp
qed

lemma is_array_string_rows [simp]: "is_array (string_rows v)"
  by (simp add: string_rows_def)

lemma trimmed_spread:
  "kvs \<noteq> [] \<Longrightarrow> trimmed (spread_with v kvs) k =
     (case map_of (rev kvs) k of Some x \<Rightarrow> trim (str_or_empty x) | None \<Rightarrow> trimmed (spread_with v []) k)"
  by (simp add: trimmed_def toStringValue_def jget_spread split: option.splits)

lemma normalizeWebFetchResult_again [simp]:
  "normalizeWebFetchResult (normalizeWebFetchResult v) = normalizeWebFetchResult v"
proof (cases "is_object v")
  case True
  define kvs where "kvs =
        [(''ok'', JBool (toBooleanValue (jget v ''ok'') False)),
         (''status'', toNumberValue (jget v ''status'') 0),
         (''url'', JStr (trimmed v ''url'')),
         (''contentType'', JStr (trimmed v ''contentType'')),
         (''truncated'', JBool (toBooleanValue (jget v ''truncated'') False)),
         (''bytes'', toNumberValue (jget v ''bytes'') 0),
         (''text'', JStr (toStringValue (jget v ''text'')))]"
  have "normalizeWebFetchResult (spread_with v kvs) = spread_with (spread_with v kvs) kvs"
    by (simp add: normalizeWebFetchResult_def trimmed_spread jget_spread kvs_def)
  also have "\<dots> = spread_with v kvs" by (rule spread_again) (simp add: kvs_def)
  finally have again: "normalizeWebFetchResult (spread_with v kvs) = spread_with v kvs" .
  have "normalizeWebFetchResult v = spread_with v kvs" using True by (simp add: normalizeWebFetchResult_def kvs_def)
  then show ?thesis by (simp only: again)
qed (simp add: normalizeWebFetchResult_def)

text \<open>
  The searches that found no product with an address keep the member \<open>products\<close> as the tool sent it:
  only a non-empty list replaces it.
\<close>

lemma normalizeWebSearchResult_again [simp]:
  "normalizeWebSearchResult (normalizeWebSearchResult v) = normalizeWebSearchResult v"
proof (cases "is_object v")
  case True
  define rs where "rs = rows_of normalizeSearchItem (jget v ''results'')"
  define ps where "ps = rows_of normalizeProduct (jget v ''products'')"
  define kvs where "kvs =
        [(''provider'', JStr (trimmed v ''provider'')),
         (''query'', JStr (trimmed v ''query'')),
         (''queryUsed'', JStr (trimmed v ''queryUsed'')),
         (''count'', toNumberValue (jget v ''count'') (of_nat (length rs))),
         (''results'', JArr rs)] @ member_if (ps \<noteq> []) ''products'' (JArr ps)"
  have "rows_of normalizeSearchItem (JArr rs) = rs"
    unfolding rs_def by (rule rows_of_again, rule normalizeSearchItem_again)
  moreover have "rows_of normalizeProduct (JArr ps) = ps"
    unfolding ps_def by (rule rows_of_again, rule normalizeProduct_again)
  moreover have "jget (spread_with v []) ''products'' = jget v ''products''"
    using True by (rule jget_spread_none) (simp add: is_digit_def code_of_def)
  then have "jget (spread_with v kvs) ''products'' = (if ps \<noteq> [] then JArr ps else jget v ''products'')"
    by (simp add: jget_spread kvs_def map_add_def)
  then have "rows_of normalizeProduct (jget (spread_with v kvs) ''products'') = ps"
    using calculation(2) by (auto simp: ps_def)
  moreover have "jget (spread_with v kvs) ''results'' = JArr rs"
      "trimmed (spread_with v kvs) ''provider'' = trimmed v ''provider''"
      "trimmed (spread_with v kvs) ''query'' = trimmed v ''query''"
      "trimmed (spread_with v kvs) ''queryUsed'' = trimmed v ''queryUsed''"
      "jget (spread_with v kvs) ''count'' = toNumberValue (jget v ''count'') (of_nat (length rs))"
    by (simp_all add: trimmed_spread jget_spread kvs_def map_add_def)
  ultimately have "normalizeWebSearchResult (spread_with v kvs) = spread_with (spread_with v kvs) kvs"
    by (simp add: normalizeWebSearchResult_def kvs_def [symmetric]) (simp add: kvs_def)
  also have "\<dots> = spread_with v kvs" by (rule spread_again) (simp add: kvs_def member_if_def)
  finally have again: "normalizeWebSearchResult (spread_with v kvs) = spread_with v kvs" .
  have "normalizeWebSearchResult v = spread_with v kvs" using True by (simp add: normalizeWebSearchResult_def kvs_def ps_def rs_def Let_def)
  then show ?thesis by (simp only: again)
qed (simp add: normalizeWebSearchResult_def)

lemma normalizeEmailResult_again [simp]:
  "normalizeEmailResult (normalizeEmailResult v) = normalizeEmailResult v"
proof (cases "is_object v")
  case True
  define ms where "ms = rows_of normalizeEmailMessage (jget v ''messages'')"
  define kvs where "kvs =
        [(''ok'', JBool (toBooleanValue (jget v ''ok'') False)),
         (''action'', JStr (trimmed v ''action'')),
         (''service'', JStr (trimmed v ''service'')),
         (''provider'', JStr (trimmed v ''provider'')),
         (''reason'', JStr (trimmed v ''reason'')),
         (''nextStep'', JStr (trimmed v ''nextStep'')),
         (''loginUrl'', JStr (trimmed v ''loginUrl'')),
         (''requiresBrowserLogin'', JBool (toBooleanValue (jget v ''requiresBrowserLogin'') False)),
         (''count'', toNumberValue (jget v ''count'') (of_nat (length ms))),
         (''acceptedCount'', toNumberValue (jget v ''acceptedCount'') 0),
         (''messages'', JArr ms),
         (''accepted'', string_rows (jget v ''accepted'')),
         (''to'', string_rows (jget v ''to'')),
         (''cc'', string_rows (jget v ''cc'')),
         (''bcc'', string_rows (jget v ''bcc''))]"
  have "rows_of normalizeEmailMessage (JArr ms) = ms"
    unfolding ms_def by (rule rows_of_again, rule normalizeEmailMessage_again)
  then have "normalizeEmailResult (spread_with v kvs) = spread_with (spread_with v kvs) kvs"
    by (simp add: normalizeEmailResult_def trimmed_spread jget_spread kvs_def)
  also have "\<dots> = spread_with v kvs" by (rule spread_again) (simp add: kvs_def)
  finally have again: "normalizeEmailResult (spread_with v kvs) = spread_with v kvs" .
  have "normalizeEmailResult v = spread_with v kvs" using True by (simp add: normalizeEmailResult_def kvs_def ms_def Let_def)
  then show ?thesis by (simp only: again)
qed (simp add: normalizeEmailResult_def)

lemma normalizeBrowserResult_get:
  assumes "is_object v" "\<not> is_array v"
  shows "jget (normalizeBrowserResult now v) ''snapshot'' =
      (if jhas v ''snapshot'' then normalizeSnapshot now (jget v ''snapshot'') else JUndef)"
    and "jget (normalizeBrowserResult now v) ''openedSnapshot'' =
      (if jhas v ''openedSnapshot'' then normalizeSnapshot now (jget v ''openedSnapshot'') else JUndef)"
    and "jget (normalizeBrowserResult now v) ''refs'' =
      (if is_array (jget v ''refs'') then JArr (List.map_filter normalizeRef (elems (jget v ''refs''))) else jget v ''refs'')"
    and "k \<notin> {''snapshot'', ''openedSnapshot'', ''refs''} \<Longrightarrow> jget (normalizeBrowserResult now v) k = jget v k"
    and "jhas (normalizeBrowserResult now v) k = jhas v k"
    and "is_object (normalizeBrowserResult now v)" and "\<not> is_array (normalizeBrowserResult now v)"
  using assms by (auto simp: normalizeBrowserResult_def at_array_get at_key_get spread_nothing not_jhas_jget)

lemma normalizeBrowserResult_again [simp]:
  "normalizeBrowserResult now' (normalizeBrowserResult now v) = normalizeBrowserResult now v"
proof (cases "is_object v")
  case True
  define w where "w = spread_with v []"
  have w: "is_object w" "\<not> is_array w" by (simp_all add: w_def)
  have e: "normalizeBrowserResult now v = normalizeBrowserResult now w"
    using True w spread_nothing [OF w] by (simp add: normalizeBrowserResult_def w_def)
  note g = normalizeBrowserResult_get [OF w, where now = now]
  have "at_key ''snapshot'' (normalizeSnapshot now') (normalizeBrowserResult now w) = normalizeBrowserResult now w"
      "at_key ''openedSnapshot'' (normalizeSnapshot now') (normalizeBrowserResult now w) = normalizeBrowserResult now w"
    by (rule at_key_same; simp add: g)+
  moreover have "at_array ''refs'' (List.map_filter normalizeRef) (normalizeBrowserResult now w) = normalizeBrowserResult now w"
    by (rule at_array_same) (auto simp: g intro!: map_filter_again normalizeRef_again)
  ultimately show ?thesis
    by (simp add: e normalizeBrowserResult_def [of now' "normalizeBrowserResult now w"] g spread_nothing)
qed (simp add: normalizeBrowserResult_def)

section \<open>What the contract promises\<close>

text \<open>
  The shape of a result, said of the result \<open>c\<close> and of what the tool returned, \<open>r\<close>: texts are the given ones, trimmed; numbers are finite;
  rows are those given that are objects with the member that identifies them, in their order, with their texts trimmed.
\<close>

definition texts_kept :: "string list \<Rightarrow> jsv \<Rightarrow> jsv \<Rightarrow> bool" where
  "texts_kept ks r c \<longleftrightarrow> list_all (\<lambda>k. jget c k = JStr (trim (str_or_empty (jget r k)))) ks"

fun is_finite_number :: "jsv \<Rightarrow> bool" where
  "is_finite_number (JNum (Fin _)) = True"
| "is_finite_number _ = False"

fun is_flag :: "jsv \<Rightarrow> bool" where
  "is_flag (JBool _) = True"
| "is_flag _ = False"

definition all_members :: "(jsv \<Rightarrow> bool) \<Rightarrow> string list \<Rightarrow> jsv \<Rightarrow> bool" where
  "all_members P ks c \<longleftrightarrow> list_all (\<lambda>k. P (jget c k)) ks"

definition named_rows :: "string \<Rightarrow> jsv \<Rightarrow> jsv list" where
  "named_rows key v = filter (\<lambda>x. is_object x \<and> trim (str_or_empty (jget x key)) \<noteq> []) (elems v)"

definition rows_kept :: "string \<Rightarrow> string list \<Rightarrow> jsv \<Rightarrow> jsv \<Rightarrow> bool" where
  "rows_kept key ks v w \<longleftrightarrow> is_array w \<and> list_all2 (texts_kept (key # ks)) (named_rows key v) (elems w)"

definition texts_listed :: "jsv \<Rightarrow> jsv \<Rightarrow> bool" where
  "texts_listed v w \<longleftrightarrow> w = JArr (map JStr (filter (\<lambda>s. s \<noteq> []) (map (\<lambda>x. trim (str_or_empty x)) (elems v))))"

definition snapshot_kept :: "jsv \<Rightarrow> jsv \<Rightarrow> bool" where
  "snapshot_kept v w \<longleftrightarrow>
     (if is_object v
      then texts_kept [''url'', ''title'', ''contentType''] v w \<and> jget w ''text'' = JStr (str_or_empty (jget v ''text''))
        \<and> all_members is_finite_number [''capturedAt'', ''status'', ''bytes''] w \<and> all_members is_flag [''ok'', ''truncated''] w
        \<and> rows_kept ''url'' [''text''] (jget v ''links'') (jget w ''links'')
        \<and> rows_kept ''ref'' [''kind'', ''role'', ''name''] (jget v ''refs'') (jget w ''refs'')
      else w = JNull)"

definition browser_kept :: "jsv \<Rightarrow> jsv \<Rightarrow> bool" where
  "browser_kept r c \<longleftrightarrow>
     list_all (\<lambda>k. if jhas r k then snapshot_kept (jget r k) (jget c k) else \<not> jhas c k) [''snapshot'', ''openedSnapshot'']
     \<and> (if is_array (jget r ''refs'') then rows_kept ''ref'' [''kind'', ''role'', ''name''] (jget r ''refs'') (jget c ''refs'')
        else jget c ''refs'' = jget r ''refs'')"

definition search_kept :: "jsv \<Rightarrow> jsv \<Rightarrow> bool" where
  "search_kept r c \<longleftrightarrow>
     texts_kept [''provider'', ''query'', ''queryUsed''] r c \<and> all_members is_finite_number [''count''] c
     \<and> rows_kept ''url'' [''title'', ''description''] (jget r ''results'') (jget c ''results'')
     \<and> (if named_rows ''url'' (jget r ''products'') \<noteq> []
        then rows_kept ''url'' [''title'', ''description''] (jget r ''products'') (jget c ''products'')
        else jget c ''products'' = jget r ''products'')"

definition fetch_kept :: "jsv \<Rightarrow> jsv \<Rightarrow> bool" where
  "fetch_kept r c \<longleftrightarrow>
     texts_kept [''url'', ''contentType''] r c \<and> jget c ''text'' = JStr (str_or_empty (jget r ''text''))
     \<and> all_members is_finite_number [''status'', ''bytes''] c \<and> all_members is_flag [''ok'', ''truncated''] c"

definition email_kept :: "jsv \<Rightarrow> jsv \<Rightarrow> bool" where
  "email_kept r c \<longleftrightarrow>
     texts_kept [''action'', ''service'', ''provider'', ''reason'', ''nextStep'', ''loginUrl''] r c
     \<and> all_members is_finite_number [''count'', ''acceptedCount''] c \<and> all_members is_flag [''ok'', ''requiresBrowserLogin''] c
     \<and> is_array (jget c ''messages'')
     \<and> list_all2 (texts_kept [''subject'', ''from'', ''to'', ''date'', ''messageId'', ''inReplyTo'', ''threadKey''])
         (filter is_object (elems (jget r ''messages''))) (elems (jget c ''messages''))
     \<and> list_all (\<lambda>k. texts_listed (jget r k) (jget c k)) [''accepted'', ''to'', ''cc'', ''bcc'']"

definition contract_members :: "string \<Rightarrow> string list" where
  "contract_members tool =
     (if tool = ''browser'' then [''snapshot'', ''openedSnapshot'', ''refs'']
      else if tool = ''web_search'' then [''provider'', ''query'', ''queryUsed'', ''count'', ''results'', ''products'']
      else if tool = ''web_fetch'' then [''ok'', ''status'', ''url'', ''contentType'', ''truncated'', ''bytes'', ''text'']
      else if tool = ''email'' then
        [''ok'', ''action'', ''service'', ''provider'', ''reason'', ''nextStep'', ''loginUrl'', ''requiresBrowserLogin'', ''count'',
         ''acceptedCount'', ''messages'', ''accepted'', ''to'', ''cc'', ''bcc'']
      else [])"

definition contract_kept :: "string \<Rightarrow> jsv \<Rightarrow> jsv \<Rightarrow> bool" where
  "contract_kept tool r c \<longleftrightarrow>
     (if tool = ''browser'' then browser_kept r c
      else if tool = ''web_search'' then search_kept r c
      else if tool = ''web_fetch'' then fetch_kept r c
      else if tool = ''email'' then email_kept r c
      else c = r)"

lemma map_filter_rows:
  assumes "\<And>x. x \<in> set xs \<Longrightarrow> if P x then \<exists>y. f x = Some y \<and> R x y else f x = None"
  shows "list_all2 R (filter P xs) (List.map_filter f xs)"
  using assms
proof (induction xs)
  case (Cons a xs)
  have "if P a then \<exists>y. f a = Some y \<and> R a y else f a = None" using Cons.prems by simp
  moreover have "list_all2 R (filter P xs) (List.map_filter f xs)" using Cons by simp
  ultimately show ?case by (auto simp: map_filter_simps split: if_splits)
qed (simp add: map_filter_simps)

lemma rows_kept_by:
  assumes "\<And>x. if is_object x \<and> trim (str_or_empty (jget x key)) \<noteq> [] then \<exists>y. f x = Some y \<and> texts_kept (key # ks) x y else f x = None"
  shows "rows_kept key ks v (JArr (List.map_filter f (elems v)))"
  unfolding rows_kept_def named_rows_def using assms by (auto intro!: map_filter_rows)

lemmas trimmed_as = trimmed_def toStringValue_def

lemma finite_toNumber [simp]: "is_finite_number (toNumberValue v d)"
  by (simp add: toNumberValue_def)

lemma link_rows: "rows_kept ''url'' [''text''] v (JArr (List.map_filter normalizeLink (elems v)))"
  by (rule rows_kept_by) (simp add: normalizeLink_def texts_kept_def trimmed_as Let_def)

lemma ref_rows: "rows_kept ''ref'' [''kind'', ''role'', ''name''] v (JArr (List.map_filter normalizeRef (elems v)))"
  by (rule rows_kept_by) (simp add: normalizeRef_def texts_kept_def trimmed_as Let_def)

lemma search_rows: "rows_kept ''url'' [''title'', ''description''] v (JArr (List.map_filter normalizeSearchItem (elems v)))"
  by (rule rows_kept_by) (simp add: normalizeSearchItem_def texts_kept_def trimmed_as Let_def)

lemma product_rows: "rows_kept ''url'' [''title'', ''description''] v (JArr (List.map_filter normalizeProduct (elems v)))"
  by (rule rows_kept_by) (simp add: normalizeProduct_def texts_kept_def trimmed_as Let_def)

lemma product_rows_Nil: "List.map_filter normalizeProduct (elems v) = [] \<longleftrightarrow> named_rows ''url'' v = []"
  using product_rows [of v] unfolding rows_kept_def by (auto dest: list_all2_lengthD)

lemma message_rows:
  "list_all2 (texts_kept [''subject'', ''from'', ''to'', ''date'', ''messageId'', ''inReplyTo'', ''threadKey''])
     (filter is_object xs) (List.map_filter normalizeEmailMessage xs)"
  by (rule map_filter_rows) (simp add: normalizeEmailMessage_def texts_kept_def trimmed_as)

lemma snapshot_shaped: "snapshot_kept v (normalizeSnapshot now v)"
  using link_rows [of "jget v ''links''"] ref_rows [of "jget v ''refs''"]
  by (simp add: snapshot_kept_def normalizeSnapshot_def texts_kept_def all_members_def trimmed_as rows_of_def)

lemma browser_shaped:
  assumes "is_object r" "\<not> is_array r"
  shows "browser_kept r (normalizeBrowserResult now r)"
  using snapshot_shaped [of _ now] ref_rows [of "jget r ''refs''"] normalizeBrowserResult_get [OF assms, where now = now]
  by (simp add: browser_kept_def)

lemma search_shaped:
  assumes "is_object r" "\<not> is_array r"
  shows "search_kept r (normalizeWebSearchResult r)"
  using search_rows [of "jget r ''results''"] product_rows [of "jget r ''products''"] product_rows_Nil [of "jget r ''products''"] assms
  by (simp add: search_kept_def normalizeWebSearchResult_def Let_def rows_of_def jget_spread map_add_def spread_nothing texts_kept_def
      all_members_def trimmed_as)

lemma fetch_shaped:
  assumes "is_object r" "\<not> is_array r"
  shows "fetch_kept r (normalizeWebFetchResult r)"
  using assms by (simp add: fetch_kept_def normalizeWebFetchResult_def jget_spread texts_kept_def all_members_def trimmed_as)

lemma email_shaped:
  assumes "is_object r" "\<not> is_array r"
  shows "email_kept r (normalizeEmailResult r)"
  using assms message_rows [of "elems (jget r ''messages'')"]
  by (simp add: email_kept_def normalizeEmailResult_def Let_def rows_of_def jget_spread texts_kept_def all_members_def trimmed_as
      texts_listed_def string_rows_def)

lemma other_members:
  assumes "is_object r" "\<not> is_array r" "k \<notin> set (contract_members (to_lower (trim name)))"
  shows "jget (applyToolResultContract now name r) k = jget r k"
proof -
  consider "to_lower (trim name) = ''browser''" | "to_lower (trim name) = ''web_search''" | "to_lower (trim name) = ''web_fetch''"
    | "to_lower (trim name) = ''email''" | "to_lower (trim name) \<notin> {''browser'', ''web_search'', ''web_fetch'', ''email''}" by blast
  then show ?thesis
  proof cases
    case 1
    then show ?thesis using assms normalizeBrowserResult_get(4) [OF assms(1,2), of k now]
      by (simp add: applyToolResultContract_def contract_members_def)
  next
    case 2
    then show ?thesis using assms
      by (simp add: applyToolResultContract_def contract_members_def normalizeWebSearchResult_def Let_def jget_spread map_add_def spread_nothing)
  next
    case 3
    then show ?thesis using assms
      by (simp add: applyToolResultContract_def contract_members_def normalizeWebFetchResult_def jget_spread spread_nothing)
  next
    case 4
    then show ?thesis using assms
      by (simp add: applyToolResultContract_def contract_members_def normalizeEmailResult_def Let_def jget_spread spread_nothing)
  next
    case 5
    then show ?thesis by (simp add: applyToolResultContract_def)
  qed
qed



section \<open>What is left after compaction\<close>

lemma trim_truncateText:
  assumes "trim s = s" "0 < n"
  shows "trim (truncateText (JStr s) n) = truncateText (JStr s) n"
proof (cases "length s \<le> n")
  case False
  then have ne: "s \<noteq> []" by auto
  then have "\<not> is_ws (hd s)" using trim_ends [of s] assms(1) by auto
  moreover have "hd (take n s @ truncation_note) = hd s" using ne assms(2) by (cases s; cases n) auto
  moreover have "\<not> is_ws (last (take n s @ truncation_note))" by (simp add: truncation_note_def is_ws_def)
  ultimately show ?thesis using False by (simp add: truncateText_def trim_id)
qed (simp add: truncateText_def assms)

lemma truncateText_Nil_iff [simp]: "0 < n \<Longrightarrow> truncateText (JStr s) n = [] \<longleftrightarrow> s = []"
  by (auto simp: truncateText_def)

lemma length_truncateText: "length (truncateText (JStr s) n) \<le> n + 30"
  by (simp add: truncateText_def truncation_note_def)

lemma map_filter_map_same: "(\<And>x. x \<in> set xs \<Longrightarrow> f (g x) = Some (g x)) \<Longrightarrow> List.map_filter f (map g xs) = map g xs"
  by (induction xs) (auto simp: map_filter_simps)

text \<open>Rows of the agreed shape keep it when they are cut.\<close>

lemma compactLink_keeps: "normalizeLink x = Some y \<Longrightarrow> normalizeLink (compactLink y) = Some (compactLink y)"
  by (auto simp: normalizeLink_def compactLink_def keep_number_def cut_string_def member_if_def Let_def trimmed_JObj
      toNumberValue_def trim_truncateText split: if_splits)

lemma normalizeRef_jget:
  assumes "normalizeRef x = Some y"
  shows "trimmed x ''ref'' \<noteq> []"
    and "jget y ''ref'' = JStr (trimmed x ''ref'')" and "jget y ''kind'' = JStr (trimmed x ''kind'')"
    and "jget y ''role'' = JStr (trimmed x ''role'')" and "jget y ''name'' = JStr (trimmed x ''name'')"
    and "jget y ''url'' = (if trimmed x ''url'' \<noteq> [] then JStr (trimmed x ''url'') else JUndef)"
    and "jget y ''fieldName'' = (if trimmed x ''fieldName'' \<noteq> [] then JStr (trimmed x ''fieldName'') else JUndef)"
    and "jget y ''method'' = (if trimmed x ''method'' \<noteq> [] then JStr (trimmed x ''method'') else JUndef)"
    and "jget y ''selector'' = (if trimmed x ''selector'' \<noteq> [] then JStr (trimmed x ''selector'') else JUndef)"
  using assms by (auto simp: normalizeRef_def Let_def map_add_def split: if_splits)

lemma member_if_cong: "b = b' \<Longrightarrow> (b' \<Longrightarrow> x = y) \<Longrightarrow> member_if b k x = member_if b' k y"
  by (simp add: member_if_def)

lemma compactRef_keeps:
  assumes "normalizeRef x = Some y"
  shows "normalizeRef (compactRef y) = Some (compactRef y)"
proof -
  note g = normalizeRef_jget [OF assms] normalizeRef_fields(1,10) [OF assms]
  define z where "z = JObj (
      [(''ref'', JStr (trimmed x ''ref'')), (''kind'', JStr (trimmed x ''kind'')),
       (''role'', JStr (trimmed x ''role'')), (''name'', JStr (truncateText (JStr (trimmed x ''name'')) 180))] @
      member_if (trimmed x ''url'' \<noteq> []) ''url'' (JStr (truncateText (JStr (trimmed x ''url'')) 240)) @
      member_if (is_finite (to_num (jget x ''formIndex''))) ''formIndex'' (JNum (to_num (jget x ''formIndex''))) @
      member_if (trimmed x ''fieldName'' \<noteq> []) ''fieldName'' (JStr (truncateText (JStr (trimmed x ''fieldName'')) 120)) @
      member_if (trimmed x ''method'' \<noteq> []) ''method'' (JStr (trimmed x ''method'')) @
      member_if (trimmed x ''selector'' \<noteq> []) ''selector'' (JStr (truncateText (JStr (trimmed x ''selector'')) 240)))"
  have "compactRef y = z"
    unfolding compactRef_def keep_string_def keep_number_def cut_string_def z_def
    by (simp add: g) (simp add: member_if_def)
  moreover have "normalizeRef z = Some z"
    by (simp add: normalizeRef_def z_def trimmed_JObj map_add_def g trim_truncateText)
  ultimately show ?thesis by simp
qed

lemma compactTopRef_keeps:
  assumes "normalizeRef x = Some y"
  shows "normalizeRef (compactTopRef y) = Some (compactTopRef y)"
proof -
  note g = normalizeRef_jget [OF assms] normalizeRef_fields(1,10) [OF assms]
  define z where "z = JObj (
      [(''ref'', JStr (trimmed x ''ref'')), (''kind'', JStr (trimmed x ''kind'')),
       (''role'', JStr (trimmed x ''role'')), (''name'', JStr (truncateText (JStr (trimmed x ''name'')) 180))] @
      member_if (trimmed x ''url'' \<noteq> []) ''url'' (JStr (truncateText (JStr (trimmed x ''url'')) 240)) @
      member_if (trimmed x ''selector'' \<noteq> []) ''selector'' (JStr (truncateText (JStr (trimmed x ''selector'')) 240)))"
  have "compactTopRef y = z"
    unfolding compactTopRef_def keep_string_def keep_number_def cut_string_def z_def
    by (simp add: g) (simp add: member_if_def)
  moreover have "normalizeRef z = Some z"
    by (simp add: normalizeRef_def z_def trimmed_JObj map_add_def g trim_truncateText)
  ultimately show ?thesis by simp
qed

lemma rows_of_from: "y \<in> set (rows_of f v) \<Longrightarrow> \<exists>x. f x = Some y"
  by (auto simp: rows_of_def map_filter_def)

text \<open>A compacted snapshot of the agreed shape, written out.\<close>

lemma compactSnapshot_shaped:
  assumes "is_object v"
  shows "compactSnapshot (normalizeSnapshot now v) = JObj
        [(''capturedAt'', toNumberValue (jget v ''capturedAt'') now),
         (''url'', JStr (trimmed v ''url'')),
         (''title'', JStr (trimmed v ''title'')),
         (''status'', toNumberValue (jget v ''status'') 0),
         (''ok'', JBool (toBooleanValue (jget v ''ok'') False)),
         (''contentType'', JStr (trimmed v ''contentType'')),
         (''truncated'', JBool (toBooleanValue (jget v ''truncated'') False)),
         (''bytes'', toNumberValue (jget v ''bytes'') 0),
         (''text'', JStr (truncateText (JStr (toStringValue (jget v ''text''))) BROWSER_RESULT_MAX_TEXT_CHARS)),
         (''links'', JArr (map compactLink (take BROWSER_RESULT_MAX_LINKS (rows_of normalizeLink (jget v ''links''))))),
         (''refs'', JArr (map compactRef (take BROWSER_RESULT_MAX_REFS (rows_of normalizeRef (jget v ''refs'')))))]"
  using assms by (simp add: compactSnapshot_def normalizeSnapshot_def spread_with_def member_if_def)

lemma compactSnapshot_keeps:
  "normalizeSnapshot now' (compactSnapshot (normalizeSnapshot now v)) = compactSnapshot (normalizeSnapshot now v)"
proof (cases "is_object v")
  case True
  have "rows_of normalizeLink (JArr (map compactLink (take n (rows_of normalizeLink w)))) =
      map compactLink (take n (rows_of normalizeLink w))" for n w
    unfolding rows_of_def [of _ "JArr _"] elems.simps
    by (rule map_filter_map_same) (auto dest!: in_set_takeD rows_of_from intro: compactLink_keeps)
  moreover have "rows_of normalizeRef (JArr (map compactRef (take n (rows_of normalizeRef w)))) =
      map compactRef (take n (rows_of normalizeRef w))" for n w
    unfolding rows_of_def [of _ "JArr _"] elems.simps
    by (rule map_filter_map_same) (auto dest!: in_set_takeD rows_of_from intro: compactRef_keeps)
  ultimately show ?thesis
    by (simp add: compactSnapshot_shaped [OF True] normalizeSnapshot_def [of now'] trimmed_JObj)
qed (simp add: normalizeSnapshot_def compactSnapshot_def)

lemma compact_get:
  assumes "is_object v" "\<not> is_array v"
  shows "jget (compactBrowserToolResult v) ''snapshot'' =
      (if jhas v ''snapshot'' then compactSnapshot (jget v ''snapshot'') else JUndef)"
    and "jget (compactBrowserToolResult v) ''openedSnapshot'' =
      (if jhas v ''openedSnapshot'' then compactSnapshot (jget v ''openedSnapshot'') else JUndef)"
    and "jget (compactBrowserToolResult v) ''refs'' =
      (if is_array (jget v ''refs'') then JArr (map compactTopRef (take BROWSER_RESULT_MAX_REFS (elems (jget v ''refs''))))
       else jget v ''refs'')"
    and "jget (compactBrowserToolResult v) ''forms'' =
      (if is_array (jget v ''forms'') then JArr (map compactForm (take BROWSER_RESULT_MAX_FORMS (elems (jget v ''forms''))))
       else jget v ''forms'')"
    and "jhas (compactBrowserToolResult v) k = jhas v k"
    and "is_object (compactBrowserToolResult v)" and "\<not> is_array (compactBrowserToolResult v)"
  using assms by (auto simp: compactBrowserToolResult_def at_array_get at_key_get spread_nothing not_jhas_jget)

text \<open>A result that the contract has shaped and the compaction has cut is one of an object or what the tool sent.\<close>

lemma shaped_object: "is_object r \<Longrightarrow> is_object (normalizeBrowserResult now r) \<and> \<not> is_array (normalizeBrowserResult now r)"
  by (simp add: normalizeBrowserResult_def)

lemma shaped_get:
  assumes "is_object r"
  shows "jget (normalizeBrowserResult now r) ''snapshot'' =
      (if jhas r ''snapshot'' then normalizeSnapshot now (jget r ''snapshot'') else JUndef)"
    and "jget (normalizeBrowserResult now r) ''openedSnapshot'' =
      (if jhas r ''openedSnapshot'' then normalizeSnapshot now (jget r ''openedSnapshot'') else JUndef)"
    and "jget (normalizeBrowserResult now r) ''refs'' =
      (if is_array (jget r ''refs'') then JArr (List.map_filter normalizeRef (elems (jget r ''refs''))) else jget r ''refs'')"
    and "jhas (normalizeBrowserResult now r) ''snapshot'' = jhas r ''snapshot''"
    and "jhas (normalizeBrowserResult now r) ''openedSnapshot'' = jhas r ''openedSnapshot''"
proof -
  define w where "w = spread_with r []"
  have w: "is_object w" "\<not> is_array w" by (simp_all add: w_def)
  have e: "normalizeBrowserResult now r = normalizeBrowserResult now w"
    using assms w spread_nothing [OF w] by (simp add: normalizeBrowserResult_def w_def)
  have k: "jget w k = jget r k \<and> jhas w k = jhas r k" if "\<not> list_all is_digit k" for k
  proof -
    have "jget w k = jget r k" using jget_spread_none [OF assms that] by (simp add: w_def)
    moreover have "jhas w k = jhas r k"
    proof (cases r)
      case (JArr xs)
      have "k \<notin> fst ` set (zip (map nat_to_string [0..<length xs]) xs)"
        using that nat_to_string_digits by (auto simp: list_all_iff dest!: set_zip_leftD)
      then show ?thesis using JArr by (auto simp: w_def spread_with_def map_of_eq_None_iff [symmetric])
    qed (auto simp: w_def spread_with_def)
    ultimately show ?thesis ..
  qed
  have d: "\<not> list_all is_digit ''snapshot''" "\<not> list_all is_digit ''openedSnapshot''" "\<not> list_all is_digit ''refs''"
    by (simp_all add: is_digit_def code_of_def)
  note g = normalizeBrowserResult_get [OF w, where now = now]
  show "jget (normalizeBrowserResult now r) ''snapshot'' =
      (if jhas r ''snapshot'' then normalizeSnapshot now (jget r ''snapshot'') else JUndef)"
    "jget (normalizeBrowserResult now r) ''openedSnapshot'' =
      (if jhas r ''openedSnapshot'' then normalizeSnapshot now (jget r ''openedSnapshot'') else JUndef)"
    "jget (normalizeBrowserResult now r) ''refs'' =
      (if is_array (jget r ''refs'') then JArr (List.map_filter normalizeRef (elems (jget r ''refs''))) else jget r ''refs'')"
    "jhas (normalizeBrowserResult now r) ''snapshot'' = jhas r ''snapshot''"
    "jhas (normalizeBrowserResult now r) ''openedSnapshot'' = jhas r ''openedSnapshot''"
    using k d by (simp_all add: e g)
qed

theorem compaction_keeps_shape:
  "normalizeBrowserResult now' (compactBrowserToolResult (normalizeBrowserResult now r)) =
     compactBrowserToolResult (normalizeBrowserResult now r)"
proof (cases "is_object r")
  case True
  define b where "b = normalizeBrowserResult now r"
  have b: "is_object b" "\<not> is_array b" using shaped_object [OF True] by (auto simp: b_def)
  define c where "c = compactBrowserToolResult b"
  note g = compact_get [OF b, folded c_def] shaped_get [OF True, of now, folded b_def]
  have "at_key ''snapshot'' (normalizeSnapshot now') c = c" "at_key ''openedSnapshot'' (normalizeSnapshot now') c = c"
    by (rule at_key_same; simp add: g compactSnapshot_keeps)+
  moreover have "List.map_filter normalizeRef (map compactTopRef (take n (List.map_filter normalizeRef xs)))
      = map compactTopRef (take n (List.map_filter normalizeRef xs))" for n xs
    by (rule map_filter_map_same, drule in_set_takeD)
      (metis compactTopRef_keeps elems.simps(1) rows_of_def rows_of_from)
  then have "at_array ''refs'' (List.map_filter normalizeRef) c = c"
    by (intro at_array_same) (auto simp: g)
  ultimately have "normalizeBrowserResult now' c = c"
    by (simp add: normalizeBrowserResult_def g spread_nothing)
  then show ?thesis by (simp add: c_def b_def)
qed (simp add: normalizeBrowserResult_def compactBrowserToolResult_def)

section \<open>Bounds\<close>


text \<open>A text of at most \<open>n\<close> characters and the note that it was cut; a list of at most \<open>n\<close> such rows.\<close>

definition cut_to :: "nat \<Rightarrow> string \<Rightarrow> jsv \<Rightarrow> bool" where
  "cut_to n k v \<longleftrightarrow> length (str_of (jget v k)) \<le> n + length truncation_note"

definition rows_within :: "nat \<Rightarrow> (jsv \<Rightarrow> bool) \<Rightarrow> string \<Rightarrow> jsv \<Rightarrow> bool" where
  "rows_within n p k v \<longleftrightarrow> length (elems (jget v k)) \<le> n \<and> list_all p (elems (jget v k))"

definition link_bounded :: "jsv \<Rightarrow> bool" where
  "link_bounded l \<longleftrightarrow> cut_to 160 ''text'' l \<and> cut_to 240 ''url'' l"

definition ref_bounded :: "jsv \<Rightarrow> bool" where
  "ref_bounded r \<longleftrightarrow> cut_to 180 ''name'' r \<and> cut_to 240 ''url'' r \<and> cut_to 120 ''fieldName'' r \<and> cut_to 240 ''selector'' r"

definition snapshot_bounded :: "jsv \<Rightarrow> bool" where
  "snapshot_bounded s \<longleftrightarrow>
     cut_to BROWSER_RESULT_MAX_TEXT_CHARS ''text'' s \<and>
     rows_within BROWSER_RESULT_MAX_LINKS link_bounded ''links'' s \<and>
     rows_within BROWSER_RESULT_MAX_REFS ref_bounded ''refs'' s"

lemma length_cut: "is_string v \<Longrightarrow> length (truncateText v n) \<le> n + length truncation_note"
  by (cases v) (auto simp: truncateText_def)

lemma not_object_cut_to: "\<not> is_object v \<Longrightarrow> cut_to n k v"
  by (cases v) (auto simp: cut_to_def)

lemma compactLink_bounded: "link_bounded (compactLink l)"
  by (cases "is_object l")
    (auto simp: link_bounded_def not_object_cut_to compactLink_def, auto simp: cut_to_def keep_number_def cut_string_def
      map_add_def length_cut split: option.split)

lemma compactRef_bounded: "ref_bounded (compactRef l)"
  by (cases "is_object l")
    (auto simp: ref_bounded_def not_object_cut_to compactRef_def, auto simp: cut_to_def keep_number_def keep_string_def
      cut_string_def map_add_def length_cut split: option.split)

lemma compactTopRef_bounded: "ref_bounded (compactTopRef l)"
  by (cases "is_object l")
    (auto simp: ref_bounded_def not_object_cut_to compactTopRef_def, auto simp: cut_to_def keep_number_def keep_string_def
      cut_string_def map_add_def length_cut split: option.split)

lemma browser_name: "to_lower (trim ''browser'') = ''browser''"
  by code_simp

lemma not_array_elems: "\<not> is_array v \<Longrightarrow> elems v = []"
  by (cases v) auto

lemma compactForm_bounded: "rows_within BROWSER_RESULT_MAX_FORM_FIELDS (\<lambda>_. True) ''fields'' (compactForm f)"
  by (cases "is_array (jget f ''fields'')"; cases "is_object f")
    (auto simp: rows_within_def compactForm_def jget_spread list_all_iff not_array_elems simp del: jget.simps)

lemma compactSnapshot_bounded: "snapshot_bounded (compactSnapshot (normalizeSnapshot now v))"
proof (cases "is_object v")
  case True
  show ?thesis
    by (simp add: snapshot_bounded_def compactSnapshot_shaped [OF True] cut_to_def rows_within_def length_cut list_all_length
        compactLink_bounded compactRef_bounded)
qed (simp add: normalizeSnapshot_def compactSnapshot_def snapshot_bounded_def cut_to_def rows_within_def)

lemma compactSnapshot_text:
  "is_object (compactSnapshot (normalizeSnapshot now v)) \<Longrightarrow> is_string (jget (compactSnapshot (normalizeSnapshot now v)) ''text'')"
  by (cases "is_object v") (simp_all add: compactSnapshot_shaped, simp add: normalizeSnapshot_def compactSnapshot_def)

text \<open>
  C31. what a browser call adds to the conversation is bounded. However large the page, in the result
  that is shaped and compacted each of the two snapshots has a text of at most 3500 characters
  and the note, at most 40 links and at most 60 references with cut texts; the result lists at most 60 references and
  24 forms with at most 40 fields. The text of a snapshot is a string, so that the bound is about what the page said.
\<close>

theorem browser_result_bounded:
  assumes "v = compactBrowserToolResult (applyToolResultContract now ''browser'' r)"
  shows "snapshot_bounded (jget v ''snapshot'') \<and> snapshot_bounded (jget v ''openedSnapshot'') \<and>
    rows_within BROWSER_RESULT_MAX_REFS ref_bounded ''refs'' v \<and>
    rows_within BROWSER_RESULT_MAX_FORMS (rows_within BROWSER_RESULT_MAX_FORM_FIELDS (\<lambda>_. True) ''fields'') ''forms'' v \<and>
    (is_object (jget v ''snapshot'') \<longrightarrow> is_string (jget (jget v ''snapshot'') ''text''))"
proof (cases "is_object r")
  case True
  define b where "b = normalizeBrowserResult now r"
  have b: "is_object b" "\<not> is_array b" using shaped_object [OF True] by (auto simp: b_def)
  have v: "v = compactBrowserToolResult b" using assms by (simp add: applyToolResultContract_def b_def browser_name)
  note g = compact_get [OF b, folded v] shaped_get [OF True, of now, folded b_def]
  have none: "snapshot_bounded JUndef" by (simp add: snapshot_bounded_def cut_to_def rows_within_def)
  have "is_object (jget v ''snapshot'') \<Longrightarrow> is_string (jget (jget v ''snapshot'') ''text'')"
    by (auto simp: g intro: compactSnapshot_text split: if_splits)
  moreover have "rows_within BROWSER_RESULT_MAX_REFS ref_bounded ''refs'' v"
    by (cases "jget b ''refs''") (auto simp: rows_within_def g list_all_iff compactTopRef_bounded)
  moreover have "rows_within BROWSER_RESULT_MAX_FORMS (rows_within BROWSER_RESULT_MAX_FORM_FIELDS (\<lambda>_. True) ''fields'') ''forms'' v"
    unfolding rows_within_def [of BROWSER_RESULT_MAX_FORMS]
    by (cases "jget b ''forms''") (auto simp: g list_all_iff compactForm_bounded)
  ultimately show ?thesis by (simp add: g none compactSnapshot_bounded)
next
  case False
  then have "v = r" using assms
    by (simp add: applyToolResultContract_def normalizeBrowserResult_def compactBrowserToolResult_def normalizeWebSearchResult_def
        normalizeWebFetchResult_def normalizeEmailResult_def Let_def)
  then show ?thesis using False by (simp add: snapshot_bounded_def cut_to_def rows_within_def)
qed

definition demo_page :: jsv where
  "demo_page = JObj [(''ok'', JBool True), (''snapshot'', JObj [(''text'', JStr (replicate 4000 (CHR ''x''))), (''url'', JStr '' https://a.b '')])]"

theorem browser_result_bounded_witness:
  "length (str_of (jget (jget (compactBrowserToolResult (applyToolResultContract 0 ''browser'' demo_page)) ''snapshot'') ''text''))
     \<le> 3530"
  using browser_result_bounded [OF refl, of 0 demo_page]
  by (simp add: snapshot_bounded_def cut_to_def BROWSER_RESULT_MAX_TEXT_CHARS_def truncation_note_def)

end
