(* ===== verification/Tool_Execution.thy ===== *)
theory Tool_Execution
  imports Tool_Result Tool_Policy Posix_Path Telegram_Relay
begin

text \<open>
  From a tool call of the model to its result: \<open>agents/pi-tool-definition-adapter.ts\<close> (arguments, the tool
  that is run, the hooks), \<open>agents/tool-execution-events.ts\<close> and \<open>agents/tool-progress.ts\<close> (what listeners
  hear), and the time limit that \<open>provider/run.ts\<close> puts around every call. A tool is a function on the
  state of the world; its run has the partial results with their times, the time at which its promise
  settles, if it does, and the outcome. Every call gets a result, a call is reported as one start,
  its updates and one end, and nothing is reported of it afterwards.
\<close>

section \<open>Arguments\<close>

definition jdel :: "string \<Rightarrow> jsv \<Rightarrow> jsv" where
  "jdel k v = (case v of JObj fs \<Rightarrow> JObj (AList.delete k fs) | _ \<Rightarrow> v)"

text \<open>\<open>if (old in record && !(new in record)) { record.new = record.old; delete record.old; }\<close>\<close>

definition renameKey :: "string \<Rightarrow> string \<Rightarrow> jsv \<Rightarrow> jsv" where
  "renameKey old new r = (if jhas r old \<and> \<not> jhas r new then jdel old (jput new (jget r old) r) else r)"

text \<open>\<open>record.k1 ?? record.k2 ?? ...\<close>\<close>

definition firstOf :: "jsv \<Rightarrow> string list \<Rightarrow> jsv" where
  "firstOf r ks = foldl (\<lambda>v k. coalesce v (jget r k)) JUndef ks"

text \<open>\<open>if (typeof fallback === "string") record.k = fallback\<close>\<close>

definition putString :: "string \<Rightarrow> jsv \<Rightarrow> jsv \<Rightarrow> jsv" where
  "putString k v r = (if is_string v then jput k v r else r)"

definition normalizeExecArgs :: "jsv \<Rightarrow> jsv" where
  "normalizeExecArgs r =
     (let r1 = (if jget r ''command'' = JUndef
                then putString ''command'' (firstOf r [''cmd'', ''bash'', ''shell'', ''script'', ''run'', ''input'']) r else r)
      in if jget r1 ''workdir'' = JUndef \<and> jget r1 ''cwd'' = JUndef
         then putString ''workdir'' (firstOf r1 [''dir'', ''directory'', ''path'']) r1 else r1)"

definition normalizeProcessArgs :: "jsv \<Rightarrow> jsv" where
  "normalizeProcessArgs r =
     (if jget r ''action'' = JUndef then putString ''action'' (firstOf r [''op'', ''operation'', ''command'']) r else r)"

definition normalizeBrowserArgs :: "jsv \<Rightarrow> jsv" where
  "normalizeBrowserArgs r =
     (let actionRaw = to_lower (trim (str_or_empty (jget r ''action''))) in
      if actionRaw = ''go'' then jput ''action'' (JStr ''navigate'') r
      else if actionRaw = ''goto'' \<or> actionRaw = ''visit'' then jput ''action'' (JStr ''open'') r
      else r)"

definition normalizeToolArgs :: "string \<Rightarrow> jsv \<Rightarrow> jsv" where
  "normalizeToolArgs toolName args =
     (let normalizedName = normalizeToolName toolName in
      case args of
        JStr s \<Rightarrow>
          if normalizedName = ''exec'' then JObj [(''command'', args)]
          else if normalizedName = ''process'' then JObj [(''action'', args)]
          else JObj [(''input'', args)]
      | _ \<Rightarrow>
          if \<not> is_object args then JObj []
          else
            let r = renameKey ''new_string'' ''newText''
                      (renameKey ''old_string'' ''oldText''
                        (renameKey ''file_path'' ''path'' (spread_with args [])));
                r1 = (if normalizedName = ''exec'' then normalizeExecArgs r else r);
                r2 = (if normalizedName = ''process'' then normalizeProcessArgs r1 else r1)
            in if normalizedName = ''browser'' then normalizeBrowserArgs r2 else r2)"

section \<open>Running a tool\<close>

text \<open>What can be thrown, and the message the sources make of it.\<close>

datatype thrown = ThrownError string | ThrownValue jsv

fun errorMessage :: "thrown \<Rightarrow> string" where
  "errorMessage (ThrownError m) = m"
| "errorMessage (ThrownValue v) = to_str v"

record tool_run =
  run_partials :: "(nat \<times> jsv) list"
  run_settles :: "nat option"
  run_outcome :: "thrown + jsv"

record 'w agent_tool_impl = agent_tool +
  tool_parameters :: jsv
  tool_execute :: "string \<Rightarrow> jsv \<Rightarrow> 'w \<Rightarrow> tool_run \<times> 'w"

record tool_call =
  tc_id :: string
  tc_name :: string
  tc_arguments :: jsv

record tool_definition =
  def_name :: string
  def_description :: string
  def_parameters :: jsv

record call_result =
  cr_isError :: bool
  cr_content :: string

text \<open>The calls of \<open>eventHooks\<close>.\<close>

datatype hook_event =
    HookStart string string jsv
  | HookUpdate string string jsv
  | HookEnd string string jsv bool "string option"

text \<open>A call: the hooks with the time they are called at, and when and with what the promise resolves.\<close>

record call_trace =
  ct_hooks :: "(nat \<times> hook_event) list"
  ct_result :: "(nat \<times> call_result) option"

definition toToolDefinitions :: "'w agent_tool_impl list \<Rightarrow> tool_definition list" where
  "toToolDefinitions tools =
     map (\<lambda>t. \<lparr>def_name = normalizeToolName (if tool_name t \<noteq> [] then tool_name t else ''tool''),
               def_description = tool_description t, def_parameters = tool_parameters t\<rparr>) tools"

definition findTool :: "'w agent_tool_impl list \<Rightarrow> string \<Rightarrow> 'w agent_tool_impl option" where
  "findTool tools name =
     (case List.find (\<lambda>t. normalizeToolName (tool_name t) = normalizeToolName name) tools of
        Some t \<Rightarrow> Some t
      | None \<Rightarrow> List.find (\<lambda>t. tool_name t = name) tools)"

definition shapeResult :: "rat \<Rightarrow> string \<Rightarrow> jsv \<Rightarrow> jsv" where
  "shapeResult now name rawResult =
     (let contractShaped = applyToolResultContract now name rawResult in
      if name = ''browser'' then compactBrowserToolResult contractShaped else contractShaped)"

definition executeToolCall :: "rat \<Rightarrow> 'w agent_tool_impl list \<Rightarrow> tool_call \<Rightarrow> 'w \<Rightarrow> call_trace \<times> 'w" where
  "executeToolCall now tools call w =
     (let normalizedCallName = normalizeToolName (tc_name call) in
      case findTool tools (tc_name call) of
        None \<Rightarrow>
          (\<lparr>ct_hooks = [], ct_result = Some (0, \<lparr>cr_isError = True, cr_content = ''Tool not found: '' @ tc_name call\<rparr>)\<rparr>, w)
      | Some tool \<Rightarrow>
          let normalizedArgs = normalizeToolArgs (tool_name tool) (tc_arguments call);
              (r, w') = tool_execute tool (tc_id call) normalizedArgs w;
              start = (0, HookStart (tc_id call) normalizedCallName normalizedArgs);
              updates = map (\<lambda>(t, p). (t, HookUpdate (tc_id call) normalizedCallName p)) (run_partials r)
          in (case run_settles r of
                None \<Rightarrow> (\<lparr>ct_hooks = start # updates, ct_result = None\<rparr>, w')
              | Some t \<Rightarrow>
                  let before = filter (\<lambda>(u, _). u \<le> t) updates; after = filter (\<lambda>(u, _). t < u) updates in
                  case run_outcome r of
                    Inr rawResult \<Rightarrow>
                      let result = shapeResult now normalizedCallName rawResult in
                      (\<lparr>ct_hooks = start # before @ [(t, HookEnd (tc_id call) normalizedCallName result False None)] @ after,
                        ct_result = Some (t, \<lparr>cr_isError = False, cr_content = stringifyToolResult result\<rparr>)\<rparr>, w')
                  | Inl e \<Rightarrow>
                      let message = errorMessage e in
                      (\<lparr>ct_hooks = start # before @
                           [(t, HookEnd (tc_id call) normalizedCallName (JStr message) True (Some message))] @ after,
                        ct_result = Some (t, \<lparr>cr_isError = True, cr_content = message\<rparr>)\<rparr>, w')))"

section \<open>What the user is told\<close>

function split_ops :: "string \<Rightarrow> string \<Rightarrow> string list" where
  "split_ops cur s =
     (case s of
        [] \<Rightarrow> [rev cur]
      | c # r \<Rightarrow>
          if starts_with s ''&&'' \<or> starts_with s ''||'' then rev cur # split_ops [] (drop 2 s)
          else if c = CHR '';'' \<or> c = CHR ''|'' then rev cur # split_ops [] r
          else split_ops (c # cur) r)"
  by pat_completeness auto
termination by (relation "measure (\<lambda>(cur, s). length s)") auto

definition splitCommand :: "string \<Rightarrow> string" where
  "splitCommand command =
     (let segments = filter (\<lambda>s. s \<noteq> []) (map trim (split_ops [] command)) in
      if segments \<noteq> [] then last segments else trim command)"

definition commandPreview :: "string \<Rightarrow> nat \<Rightarrow> string" where
  "commandPreview command maxLength =
     (let compact = trim (replace_ws '' '' command) in
      if compact = [] then []
      else if length compact \<le> maxLength then compact
      else take (maxLength - 3) compact @ ''...'')"

text \<open>The matches of \<open>/(?:~\/|\/)[^\s"'<>|;]+/g\<close>.\<close>

definition path_char :: "char \<Rightarrow> bool" where
  "path_char c \<longleftrightarrow> \<not> is_ws c \<and> c \<notin> {CHR 0x22, CHR 0x27, CHR ''<'', CHR ''>'', CHR ''|'', CHR '';''}"

function extractPaths :: "string \<Rightarrow> string list" where
  "extractPaths s =
     (case s of
        [] \<Rightarrow> []
      | c # r \<Rightarrow>
          let k = (if starts_with s ''~/'' then 2 else if starts_with s ''/'' then 1 else 0);
              run = takeWhile path_char (drop k s)
          in if 0 < k \<and> run \<noteq> [] then take (k + length run) s # extractPaths (drop (k + length run) s)
             else extractPaths r)"
  by pat_completeness auto
termination by (relation "measure length") auto

declare split_ops.simps [simp del] extractPaths.simps [simp del]

definition normalizePath :: "string \<Rightarrow> string \<Rightarrow> string" where
  "normalizePath homedir raw =
     (if starts_with raw ''~/'' then path_join homedir (drop 2 raw)
      else if raw = ''~'' then homedir else raw)"

definition locationPhrase :: "string \<Rightarrow> string \<Rightarrow> string list \<Rightarrow> string" where
  "locationPhrase homedir cwd paths =
     (let normalized = map (normalizePath homedir) paths; lower = map to_lower normalized in
      if list_ex (\<lambda>p. str_includes p ''/desktop/'' \<or> ends_with p ''/desktop'') lower then '' in the Desktop''
      else if list_ex (\<lambda>p. str_includes p ''/downloads/'' \<or> ends_with p ''/downloads'') lower then '' in Downloads''
      else if list_ex (\<lambda>p. str_includes p ''/documents/'' \<or> ends_with p ''/documents'') lower then '' in Documents''
      else if list_ex (\<lambda>p. starts_with p (to_lower homedir @ ''/'')) lower then '' in the home directory''
      else if list_ex (\<lambda>p. starts_with p cwd) normalized then '' in the project directory''
      else [])"

text \<open>\<open>/^(w1|w2|...)\b/\<close>\<close>

definition first_word :: "string list \<Rightarrow> string \<Rightarrow> bool" where
  "first_word ws s = rx_test (Seq [AtStart, Alt (map Lit ws), Bound]) s"

definition describeExecCommand :: "string \<Rightarrow> string \<Rightarrow> string \<Rightarrow> string" where
  "describeExecCommand homedir cwd command =
     (let segment = splitCommand command; lower = to_lower segment;
          location = locationPhrase homedir cwd (extractPaths command); preview = commandPreview segment 72
      in if first_word [''ls''] lower then ''Listing files'' @ location @ ''.''
         else if first_word [''pwd''] lower then ''Checking current directory.''
         else if first_word [''rm''] lower then ''Deleting a path'' @ location @ ''.''
         else if first_word [''mkdir''] lower then ''Creating a folder'' @ location @ ''.''
         else if first_word [''touch''] lower then ''Creating a file'' @ location @ ''.''
         else if first_word [''echo'', ''printf''] lower \<and> CHR ''>'' \<in> set segment then ''Writing file content'' @ location @ ''.''
         else if first_word [''cat''] lower then ''Reading a file'' @ location @ ''.''
         else if first_word [''stat''] lower then ''Inspecting file metadata'' @ location @ ''.''
         else if first_word [''test''] lower then
           (if rx_test (Alt [Seq [Lit ''!'', Many 0 is_ws, Lit ''-f''], Seq [Lit ''!'', Many 0 is_ws, Lit ''-d'']]) lower
            then ''Verifying removal'' @ location @ ''.'' else ''Checking file status'' @ location @ ''.'')
         else if first_word [''rg'', ''grep''] lower then ''Searching text'' @ location @ ''.''
         else if first_word [''find''] lower then ''Scanning directories'' @ location @ ''.''
         else if first_word [''cp''] lower then ''Copying files'' @ location @ ''.''
         else if first_word [''mv''] lower then ''Moving files'' @ location @ ''.''
         else if first_word [''npm'', ''pnpm'', ''yarn''] lower then
           (if str_includes lower '' install'' then ''Installing dependencies.'' else ''Running a package manager task.'')
         else if first_word [''git''] lower then ''Running a git command.''
         else if first_word [''curl'', ''wget''] lower then ''Downloading data.''
         else if preview \<noteq> [] then ''Running `'' @ preview @ ''`'' @ location @ ''.''
         else ''Running a shell command'' @ location @ ''.'')"

text \<open>\<open>typeof args.k === "string" ? args.k.trim() : ""\<close>\<close>

definition textArg :: "jsv \<Rightarrow> string \<Rightarrow> string" where
  "textArg args k = (if is_string (jget args k) then trim (str_of (jget args k)) else [])"

definition browserProgress :: "jsv \<Rightarrow> string" where
  "browserProgress args =
     (let action = to_lower (trim (to_str (coalesce (jget args ''action'') (JStr ''open''))));
          url = textArg args ''url''; query = textArg args ''query''
      in if action = ''launch'' then ''Launching the external browser'' @ (if url \<noteq> [] then '' at '' @ url else []) @ ''.''
         else if action = ''open'' \<or> action = ''navigate'' then ''Opening browser tab'' @ (if url \<noteq> [] then '' at '' @ url else []) @ ''.''
         else if action = ''search'' then
           ''Searching in browser'' @ (if query \<noteq> [] then '' for '' @ [CHR 0x22] @ query @ [CHR 0x22] else []) @ ''.''
         else if action = ''snapshot'' then ''Capturing current page snapshot.''
         else if action = ''products'' then ''Extracting product candidates from the current page.''
         else if action \<in> {''click'', ''fill'', ''submit'', ''act''} then ''Performing browser action: '' @ action @ ''.''
         else ''Running browser action: '' @ (if action \<noteq> [] then action else ''open'') @ ''.'')"

definition processProgress :: "jsv \<Rightarrow> string" where
  "processProgress args =
     (let actionRaw = (if is_string (jget args ''action'') then to_lower (str_of (jget args ''action'')) else []);
          action = (if actionRaw = ''wait'' then ''poll'' else if actionRaw = ''tail'' then ''log''
                    else if actionRaw = ''stop'' then ''kill'' else actionRaw)
      in if action = ''status'' then ''Checking background task status.''
         else if action = ''poll'' \<or> action = ''log'' then ''Checking background task output.''
         else if action = ''kill'' then ''Stopping a background task.''
         else ''Managing a background task.'')"

definition progressMessageForToolStart :: "string \<Rightarrow> string \<Rightarrow> string \<Rightarrow> jsv \<Rightarrow> string option" where
  "progressMessageForToolStart homedir cwd toolName args =
     (let tool = to_lower toolName in
      if tool = ''browser'' then Some (browserProgress args)
      else if tool = ''web_search'' then
        (let query = textArg args ''query'' in
         Some (''Searching the web'' @ (if query \<noteq> [] then '' for '' @ [CHR 0x22] @ query @ [CHR 0x22] else []) @ ''.''))
      else if tool = ''web_fetch'' then
        (let url = textArg args ''url'' in Some (''Fetching web page'' @ (if url \<noteq> [] then '' '' @ url else []) @ ''.''))
      else if tool = ''read'' then Some ''Reading file contents.''
      else if tool = ''write'' then Some ''Writing file changes.''
      else if tool = ''edit'' then Some ''Applying targeted file edits.''
      else if tool = ''ls'' then Some ''Listing directory contents.''
      else if tool = ''find'' then Some ''Searching for files.''
      else if tool = ''exists'' then Some ''Checking whether a path exists.''
      else if tool = ''exec'' then
        (let command = textArg args ''command'' in
         Some (if command \<noteq> [] then describeExecCommand homedir cwd command else ''Running a shell command.''))
      else if tool = ''process'' then Some (processProgress args)
      else None)"

section \<open>Events\<close>

text \<open>Where the events of a run belong, and the settings they depend on.\<close>

record event_scope =
  es_sessionId :: string
  es_channel :: string
  es_timestamp :: int
  es_synthProgress :: bool
  es_homedir :: string
  es_cwd :: string

definition eventOf :: "event_scope \<Rightarrow> event_stream \<Rightarrow> agent_event" where
  "eventOf sc s = \<lparr>ev_sessionId = es_sessionId sc, ev_channel = es_channel sc, ev_timestamp = es_timestamp sc, ev_stream = s\<rparr>"

definition toolEvent :: "event_scope \<Rightarrow> tool_phase \<Rightarrow> string \<Rightarrow> string \<Rightarrow> jsv \<Rightarrow> jsv \<Rightarrow> jsv \<Rightarrow> string option \<Rightarrow> agent_event" where
  "toolEvent sc phase tid name args partial result err =
     eventOf sc (ToolStream \<lparr>td_phase = phase, td_toolCallId = tid, td_name = name, td_args = args,
       td_partialResult = partial, td_result = result, td_error = err\<rparr>)"

definition handleToolExecutionStart :: "event_scope \<Rightarrow> string \<Rightarrow> string \<Rightarrow> jsv \<Rightarrow> agent_event list" where
  "handleToolExecutionStart sc toolCallId toolName args =
     toolEvent sc PhaseStart toolCallId toolName args JUndef JUndef None #
     (case progressMessageForToolStart (es_homedir sc) (es_cwd sc) toolName args of
        Some progress \<Rightarrow>
          if es_synthProgress sc \<and> progress \<noteq> [] then [eventOf sc (AssistantStream ''progress'' progress)] else []
      | None \<Rightarrow> [])"

definition handleToolExecutionUpdate :: "event_scope \<Rightarrow> string \<Rightarrow> string \<Rightarrow> jsv \<Rightarrow> agent_event list" where
  "handleToolExecutionUpdate sc toolCallId toolName partialResult =
     [toolEvent sc PhaseUpdate toolCallId toolName JUndef partialResult JUndef None]"

text \<open>The phase is an error when the error text is truthy, that is, when it is there and not empty.\<close>

definition handleToolExecutionEnd :: "event_scope \<Rightarrow> string \<Rightarrow> string \<Rightarrow> jsv \<Rightarrow> string option \<Rightarrow> agent_event list" where
  "handleToolExecutionEnd sc toolCallId toolName result err =
     [toolEvent sc (if err \<noteq> None \<and> err \<noteq> Some [] then PhaseError else PhaseEnd) toolCallId toolName JUndef JUndef result err]"

section \<open>The time limit\<close>

text \<open>The hooks of \<open>runSyntheticToolCall\<close> and of the round loop: what has timed out is not reported any more.\<close>

fun forwardHook :: "event_scope \<Rightarrow> string list \<Rightarrow> hook_event \<Rightarrow> agent_event list" where
  "forwardHook sc timedOut (HookStart tid name args) = handleToolExecutionStart sc tid name args"
| "forwardHook sc timedOut (HookUpdate tid name p) =
     (if tid \<in> set timedOut then [] else handleToolExecutionUpdate sc tid name p)"
| "forwardHook sc timedOut (HookEnd tid name result isErr err) =
     (if tid \<in> set timedOut then []
      else handleToolExecutionEnd sc tid name result
             (if isErr then Some (case err of Some m \<Rightarrow> m | None \<Rightarrow> ''tool execution failed'') else None))"

definition round_div :: "nat \<Rightarrow> nat \<Rightarrow> nat" where
  "round_div a b = (a + b div 2) div b"

definition timeoutMessage :: "string \<Rightarrow> nat \<Rightarrow> string" where
  "timeoutMessage toolName limit =
     ''Tool '' @ [CHR 0x27] @ toolName @ [CHR 0x27] @ '' timed out after '' @ nat_to_string (round_div limit 1000) @ ''s.''"

text \<open>The race of an operation, that settles at a time or never, against the timer: the time at which it is decided, and the value, if it came first.\<close>

definition runWithHardTimeout :: "nat \<Rightarrow> (nat \<times> 'a) option \<Rightarrow> nat \<times> 'a option" where
  "runWithHardTimeout limit operation =
     (case operation of
        Some (t, v) \<Rightarrow> if t < limit then (t, Some v) else (limit, None)
      | None \<Rightarrow> (limit, None))"

text \<open>A call under the limit. The calls of the hooks after the limit come when the id is already in \<open>timedOutToolCallIds\<close>.\<close>

definition toolTimesOut :: "event_scope \<Rightarrow> nat \<Rightarrow> string list \<Rightarrow> tool_call \<Rightarrow> call_trace \<Rightarrow> agent_event list \<times> call_result \<times> string list" where
  "toolTimesOut sc limit timedOut call tr =
     (let toolError = timeoutMessage (tc_name call) limit; timedOut' = set_add timedOut (tc_id call) in
      (concat (map (\<lambda>(u, h). forwardHook sc timedOut h) (filter (\<lambda>(u, _). u < limit) (ct_hooks tr))) @
       handleToolExecutionEnd sc (tc_id call) (tc_name call) (JStr toolError) (Some toolError) @
       concat (map (\<lambda>(u, h). forwardHook sc timedOut' h) (filter (\<lambda>(u, _). limit \<le> u) (ct_hooks tr))),
       \<lparr>cr_isError = True, cr_content = toolError\<rparr>, timedOut'))"

definition runToolCall ::
  "event_scope \<Rightarrow> nat \<Rightarrow> string list \<Rightarrow> tool_call \<Rightarrow> call_trace \<Rightarrow> agent_event list \<times> call_result \<times> string list" where
  "runToolCall sc limit timedOut call tr =
     (case snd (runWithHardTimeout limit (ct_result tr)) of
        Some r \<Rightarrow> (concat (map (\<lambda>(_, h). forwardHook sc timedOut h) (ct_hooks tr)), r, timedOut)
      | None \<Rightarrow> toolTimesOut sc limit timedOut call tr)"

definition DEFAULT_TOOL_TIMEOUT_MS :: nat where "DEFAULT_TOOL_TIMEOUT_MS = 180000"

definition MIN_TOOL_TIMEOUT_MS :: nat where "MIN_TOOL_TIMEOUT_MS = 5000"

definition MAX_TOOL_TIMEOUT_MS :: nat where "MAX_TOOL_TIMEOUT_MS = 1800000"

text \<open>\<open>Math.min(max, Math.max(min, Math.floor(raw)))\<close> for a finite, positive setting.\<close>

definition clampSetting :: "nat \<Rightarrow> nat \<Rightarrow> rat \<Rightarrow> nat" where
  "clampSetting lo hi q = min hi (max lo (nat \<lfloor>q\<rfloor>))"

definition positiveSetting :: "string \<Rightarrow> rat option" where
  "positiveSetting raw = (case str_to_num raw of Fin q \<Rightarrow> if 0 < q then Some q else None | _ \<Rightarrow> None)"

definition resolveToolExecutionTimeoutMs :: "(string \<Rightarrow> string) \<Rightarrow> nat" where
  "resolveToolExecutionTimeoutMs env =
     (case positiveSetting (env ''T560_TOOL_TIMEOUT_SEC'') of
        Some q \<Rightarrow> clampSetting MIN_TOOL_TIMEOUT_MS MAX_TOOL_TIMEOUT_MS (q * 1000)
      | None \<Rightarrow>
         (case positiveSetting (env ''T560_TOOL_TIMEOUT_MS'') of
            Some q \<Rightarrow> clampSetting MIN_TOOL_TIMEOUT_MS MAX_TOOL_TIMEOUT_MS q
          | None \<Rightarrow> DEFAULT_TOOL_TIMEOUT_MS))"


section \<open>Which tool runs\<close>

lemma find_Some: "List.find P xs = Some x \<Longrightarrow> x \<in> set xs \<and> P x"
  by (auto simp: find_Some_iff)

lemma findTool_Some:
  assumes "findTool tools name = Some t"
  shows "t \<in> set tools \<and> normalizeToolName (tool_name t) = normalizeToolName name"
proof (cases "List.find (\<lambda>t. normalizeToolName (tool_name t) = normalizeToolName name) tools")
  case None
  then have "List.find (\<lambda>t. tool_name t = name) tools = Some t" using assms by (simp add: findTool_def)
  then show ?thesis using find_Some by fastforce
next
  case (Some u)
  then show ?thesis using assms find_Some [OF Some] by (simp add: findTool_def)
qed

text \<open>A call acts on the world through a tool of the list whose name is the call's up to aliases, or not at all.\<close>

lemma executeToolCall_world:
  "snd (executeToolCall now tools call w) = w \<or>
   (\<exists>t \<in> set tools. normalizeToolName (tool_name t) = normalizeToolName (tc_name call) \<and>
      snd (executeToolCall now tools call w) =
        snd (tool_execute t (tc_id call) (normalizeToolArgs (tool_name t) (tc_arguments call)) w))"
proof (cases "findTool tools (tc_name call)")
  case (Some t)
  have "snd (executeToolCall now tools call w) =
      snd (tool_execute t (tc_id call) (normalizeToolArgs (tool_name t) (tc_arguments call)) w)"
    using Some by (auto simp: executeToolCall_def Let_def split: prod.split option.split sum.split)
  then show ?thesis using findTool_Some [OF Some] by blast
qed (simp add: executeToolCall_def)

text \<open>Every tool that is offered to the model can be called under the name it is offered with.\<close>

lemma offered_tool_found:
  assumes "list_all (\<lambda>t. tool_name t \<noteq> []) tools" "d \<in> set (toToolDefinitions tools)"
  shows "\<exists>t. findTool tools (def_name d) = Some t \<and> normalizeToolName (tool_name t) = def_name d"
proof -
  obtain u where u: "u \<in> set tools" "def_name d = normalizeToolName (tool_name u)"
    using assms by (auto simp: toToolDefinitions_def list_all_iff)
  then have "List.find (\<lambda>t. normalizeToolName (tool_name t) = normalizeToolName (def_name d)) tools \<noteq> None"
    by (auto simp: find_None_iff normalizeToolName_idem)
  then obtain t where "findTool tools (def_name d) = Some t" by (auto simp: findTool_def)
  then show ?thesis using findTool_Some [of tools "def_name d" t] u by (simp add: normalizeToolName_idem)
qed

section \<open>What is reported of a call\<close>

definition tool_phases :: "agent_event list \<Rightarrow> (string \<times> tool_phase) list" where
  "tool_phases evs =
     concat (map (\<lambda>e. case ev_stream e of ToolStream d \<Rightarrow> [(td_toolCallId d, td_phase d)] | _ \<Rightarrow> []) evs)"

lemma tool_phases_simps [simp]:
  "tool_phases [] = []"
  "tool_phases (evs @ evs') = tool_phases evs @ tool_phases evs'"
  "tool_phases (handleToolExecutionStart sc i n a) = [(i, PhaseStart)]"
  "tool_phases (handleToolExecutionUpdate sc i n p) = [(i, PhaseUpdate)]"
  "tool_phases (handleToolExecutionEnd sc i n r err) =
     [(i, if err \<noteq> None \<and> err \<noteq> Some [] then PhaseError else PhaseEnd)]"
  by (auto simp: tool_phases_def handleToolExecutionStart_def handleToolExecutionUpdate_def handleToolExecutionEnd_def
      toolEvent_def eventOf_def split: option.split)

definition forwarded :: "event_scope \<Rightarrow> string list \<Rightarrow> (nat \<times> hook_event) list \<Rightarrow> agent_event list" where
  "forwarded sc timedOut hs = concat (map (\<lambda>(_, h). forwardHook sc timedOut h) hs)"

lemma forwarded_simps [simp]:
  "forwarded sc to [] = []"
  "forwarded sc to ((t, h) # hs) = forwardHook sc to h @ forwarded sc to hs"
  "forwarded sc to (hs @ hs') = forwarded sc to hs @ forwarded sc to hs'"
  by (simp_all add: forwarded_def)

definition update_hooks :: "string \<Rightarrow> string \<Rightarrow> (nat \<times> jsv) list \<Rightarrow> (nat \<times> hook_event) list" where
  "update_hooks tid name ps = map (\<lambda>(t, p). (t, HookUpdate tid name p)) ps"

lemma filter_update_hooks:
  "filter (\<lambda>(u, _). P u) (update_hooks tid name ps) = update_hooks tid name (filter (\<lambda>(u, _). P u) ps)"
  by (induction ps) (auto simp: update_hooks_def)

lemma phases_updates:
  "tool_phases (forwarded sc to (update_hooks tid name ps)) =
     (if tid \<in> set to then [] else replicate (length ps) (tid, PhaseUpdate))"
  by (induction ps) (auto simp: update_hooks_def)


definition settles_before :: "nat \<Rightarrow> tool_run \<Rightarrow> bool" where
  "settles_before limit r = (case run_settles r of Some s \<Rightarrow> s < limit | None \<Rightarrow> False)"

text \<open>A tool that sends no partial results after it has settled.\<close>

definition quiet_after :: "tool_run \<Rightarrow> bool" where
  "quiet_after r = (case run_settles r of Some s \<Rightarrow> list_all (\<lambda>(u, _). u \<le> s) (run_partials r) | None \<Rightarrow> True)"

definition run_result :: "rat \<Rightarrow> string \<Rightarrow> tool_run \<Rightarrow> call_result" where
  "run_result now name r =
     (case run_outcome r of
        Inr v \<Rightarrow> \<lparr>cr_isError = False, cr_content = stringifyToolResult (shapeResult now name v)\<rparr>
      | Inl e \<Rightarrow> \<lparr>cr_isError = True, cr_content = errorMessage e\<rparr>)"

lemma execute_trace:
  assumes "findTool tools (tc_name call) = Some t"
    and "run = fst (tool_execute t (tc_id call) (normalizeToolArgs (tool_name t) (tc_arguments call)) w)"
  obtains a e where "ct_hooks (fst (executeToolCall now tools call w)) =
       (0, HookStart (tc_id call) (normalizeToolName (tc_name call)) a) #
       (case run_settles run of
          None \<Rightarrow> update_hooks (tc_id call) (normalizeToolName (tc_name call)) (run_partials run)
        | Some s \<Rightarrow>
            update_hooks (tc_id call) (normalizeToolName (tc_name call)) (filter (\<lambda>(u, _). u \<le> s) (run_partials run)) @
            [(s, HookEnd (tc_id call) (normalizeToolName (tc_name call)) e
                (cr_isError (run_result now (normalizeToolName (tc_name call)) run))
                (if cr_isError (run_result now (normalizeToolName (tc_name call)) run)
                 then Some (cr_content (run_result now (normalizeToolName (tc_name call)) run)) else None))] @
            update_hooks (tc_id call) (normalizeToolName (tc_name call)) (filter (\<lambda>(u, _). s < u) (run_partials run)))"
    and "ct_result (fst (executeToolCall now tools call w)) =
       map_option (\<lambda>s. (s, run_result now (normalizeToolName (tc_name call)) run)) (run_settles run)"
proof -
  define a where "a = normalizeToolArgs (tool_name t) (tc_arguments call)"
  define e where "e = (case run_outcome run of Inr v \<Rightarrow> shapeResult now (normalizeToolName (tc_name call)) v | Inl x \<Rightarrow> JStr (errorMessage x))"
  obtain w' where w: "tool_execute t (tc_id call) a w = (run, w')"
    using assms(2) unfolding a_def by (metis prod.collapse)
  note d = executeToolCall_def assms(1) a_def [symmetric] w Let_def run_result_def e_def update_hooks_def [symmetric] filter_update_hooks
  show thesis
    by (rule that [of a e]; cases "run_settles run"; cases "run_outcome run") (simp_all add: d)
qed

text \<open>What the listeners hear of a call that has a tool.\<close>

definition call_phases :: "string \<Rightarrow> bool \<Rightarrow> bool \<Rightarrow> tool_phase \<Rightarrow> nat \<Rightarrow> nat \<Rightarrow> (string \<times> tool_phase) list" where
  "call_phases tid stale inTime final n m =
     (tid, PhaseStart) #
     (if stale then (if inTime then [] else [(tid, PhaseError)])
      else replicate n (tid, PhaseUpdate) @ [(tid, final)] @ replicate m (tid, PhaseUpdate))"

lemma call_reported:
  assumes "findTool tools (tc_name call) = Some t" "0 < limit"
    and "run = fst (tool_execute t (tc_id call) (normalizeToolArgs (tool_name t) (tc_arguments call)) w)"
    and "runToolCall sc limit timedOut call (fst (executeToolCall now tools call w)) = (evs, res, timedOut')"
  shows "\<exists>n m. tool_phases evs = call_phases (tc_id call) (tc_id call \<in> set timedOut) (settles_before limit run)
            (if cr_isError res \<and> cr_content res \<noteq> [] then PhaseError else PhaseEnd) n m \<and> (quiet_after run \<longrightarrow> m = 0)"
    and "if settles_before limit run
         then res = run_result now (normalizeToolName (tc_name call)) run \<and> timedOut' = timedOut
           \<and> Some (fst (runWithHardTimeout limit (ct_result (fst (executeToolCall now tools call w))))) = run_settles run
         else res = \<lparr>cr_isError = True, cr_content = timeoutMessage (tc_name call) limit\<rparr> \<and> timedOut' = set_add timedOut (tc_id call)
           \<and> fst (runWithHardTimeout limit (ct_result (fst (executeToolCall now tools call w)))) = limit"
proof -
  define nm where "nm = normalizeToolName (tc_name call)"
  define rr where "rr = run_result now nm run"
  obtain a e where h: "ct_hooks (fst (executeToolCall now tools call w)) =
       (0, HookStart (tc_id call) nm a) #
       (case run_settles run of None \<Rightarrow> update_hooks (tc_id call) nm (run_partials run)
        | Some s \<Rightarrow> update_hooks (tc_id call) nm (filter (\<lambda>(u, _). u \<le> s) (run_partials run)) @
            [(s, HookEnd (tc_id call) nm e (cr_isError rr) (if cr_isError rr then Some (cr_content rr) else None))] @
            update_hooks (tc_id call) nm (filter (\<lambda>(u, _). s < u) (run_partials run)))"
    and r: "ct_result (fst (executeToolCall now tools call w)) = map_option (\<lambda>s. (s, rr)) (run_settles run)"
    by (rule execute_trace [OF assms(1,3), of now, folded nm_def, folded rr_def]) blast
  show "if settles_before limit run
         then res = run_result now (normalizeToolName (tc_name call)) run \<and> timedOut' = timedOut
           \<and> Some (fst (runWithHardTimeout limit (ct_result (fst (executeToolCall now tools call w))))) = run_settles run
         else res = \<lparr>cr_isError = True, cr_content = timeoutMessage (tc_name call) limit\<rparr> \<and> timedOut' = set_add timedOut (tc_id call)
           \<and> fst (runWithHardTimeout limit (ct_result (fst (executeToolCall now tools call w)))) = limit"
    using assms(4) by (cases "run_settles run")
      (auto simp: runToolCall_def runWithHardTimeout_def toolTimesOut_def r settles_before_def rr_def nm_def Let_def split: if_splits)
  then have res: "settles_before limit run \<Longrightarrow> res = rr"
    "\<not> settles_before limit run \<Longrightarrow> cr_isError res \<and> cr_content res \<noteq> []"
    by (auto simp: rr_def nm_def timeoutMessage_def)
  show "\<exists>n m. tool_phases evs = call_phases (tc_id call) (tc_id call \<in> set timedOut) (settles_before limit run)
            (if cr_isError res \<and> cr_content res \<noteq> [] then PhaseError else PhaseEnd) n m \<and> (quiet_after run \<longrightarrow> m = 0)"
  proof (cases "settles_before limit run")
    case True
    then obtain s where s: "run_settles run = Some s" "s < limit" by (auto simp: settles_before_def split: option.splits)
    let ?before = "filter (\<lambda>(u, _). u \<le> s) (run_partials run)" and ?after = "filter (\<lambda>(u, _). s < u) (run_partials run)"
    have "?after = []" if "quiet_after run"
      using that s by (auto simp: quiet_after_def filter_empty_conv list_all_iff)
    moreover have "evs = forwarded sc timedOut (ct_hooks (fst (executeToolCall now tools call w)))"
      using assms(4) s by (auto simp: runToolCall_def runWithHardTimeout_def r forwarded_def)
    ultimately show ?thesis using s True res(1)
      by (intro exI [of _ "length ?before"] exI [of _ "length ?after"]) (auto simp: h phases_updates call_phases_def)
  next
    case False
    define hs where "hs = ct_hooks (fst (executeToolCall now tools call w))"
    have "evs = forwarded sc timedOut (filter (\<lambda>(u, _). u < limit) hs) @
        handleToolExecutionEnd sc (tc_id call) (tc_name call) (JStr (timeoutMessage (tc_name call) limit)) (Some (timeoutMessage (tc_name call) limit)) @
        forwarded sc (set_add timedOut (tc_id call)) (filter (\<lambda>(u, _). limit \<le> u) hs)"
      using assms(4) False
      by (auto simp: runToolCall_def runWithHardTimeout_def r settles_before_def toolTimesOut_def Let_def forwarded_def hs_def
          split: option.splits if_splits)
    moreover have "tool_phases (forwarded sc (set_add timedOut (tc_id call)) (filter (\<lambda>(u, _). limit \<le> u) hs)) = []"
      using assms(2) by (auto simp: hs_def h filter_update_hooks phases_updates split: option.split)
    moreover have "\<exists>n. tool_phases (forwarded sc timedOut (filter (\<lambda>(u, _). u < limit) hs)) =
        (tc_id call, PhaseStart) # (if tc_id call \<in> set timedOut then [] else replicate n (tc_id call, PhaseUpdate))"
      using False assms(2)
      by (auto simp: hs_def h filter_update_hooks phases_updates settles_before_def replicate_add [symmetric] split: option.splits)
    moreover have "timeoutMessage (tc_name call) limit \<noteq> []" by (simp add: timeoutMessage_def)
    ultimately show ?thesis using False res(2) by (fastforce simp: call_phases_def)
  qed
qed

text \<open>
  C30. Every tool call is answered within the limit: the race against the timer is decided at the limit at the latest, whatever the tool
  does, even when its promise never settles. The answer is an error when there is no such tool, the tool's own result when it settles
  within the limit, and the time-out message otherwise. Of a call without a tool the listeners hear nothing. Of a call with a tool,
  whose id did not time out before in this run, they hear one start, its updates and one end, and after that only what the tool still
  sends by itself once it has settled (nothing, when it sends nothing); the end is an error just when the result is an error with a
  message that is not empty. When the id has timed out before, they hear the start, and the end only of another time-out.
\<close>

theorem tool_call_reported:
  assumes "0 < limit" and "runToolCall sc limit timedOut call (fst (executeToolCall now tools call w)) = (evs, res, timedOut')"
  shows "fst (runWithHardTimeout limit (ct_result (fst (executeToolCall now tools call w)))) \<le> limit
    \<and> (case findTool tools (tc_name call) of
         None \<Rightarrow> res = \<lparr>cr_isError = True, cr_content = ''Tool not found: '' @ tc_name call\<rparr> \<and> evs = [] \<and> timedOut' = timedOut
       | Some t \<Rightarrow>
           let run = fst (tool_execute t (tc_id call) (normalizeToolArgs (tool_name t) (tc_arguments call)) w) in
           (if settles_before limit run then res = run_result now (normalizeToolName (tc_name call)) run \<and> timedOut' = timedOut
            else res = \<lparr>cr_isError = True, cr_content = timeoutMessage (tc_name call) limit\<rparr> \<and> timedOut' = set_add timedOut (tc_id call))
           \<and> (\<exists>n m. tool_phases evs = call_phases (tc_id call) (tc_id call \<in> set timedOut) (settles_before limit run)
                (if cr_isError res \<and> cr_content res \<noteq> [] then PhaseError else PhaseEnd) n m \<and> (quiet_after run \<longrightarrow> m = 0)))"
proof (cases "findTool tools (tc_name call)")
  case None
  then show ?thesis using assms by (simp add: executeToolCall_def runToolCall_def runWithHardTimeout_def)
next
  case (Some t)
  have "fst (runWithHardTimeout limit x) \<le> limit" for x :: "(nat \<times> call_result) option"
    by (simp add: runWithHardTimeout_def split: option.split prod.split)
  then show ?thesis using call_reported [OF Some assms(1) refl assms(2)] Some by (auto simp: Let_def)
qed

text \<open>A tool that sends one partial result and then never settles.\<close>

definition stuck_tool :: "unit agent_tool_impl" where
  "stuck_tool = \<lparr>tool_name = ''Bash'', tool_description = [], owner_only = False, tool_parameters = JObj [],
     tool_execute = (\<lambda>_ _ w. (\<lparr>run_partials = [(10, JStr ''...''), (9000, JStr ''late'')], run_settles = None, run_outcome = Inr JNull\<rparr>, w))\<rparr>"

definition demo_scope :: event_scope where
  "demo_scope = \<lparr>es_sessionId = ''s'', es_channel = ''telegram'', es_timestamp = 0, es_synthProgress = True, es_homedir = ''/home/u'', es_cwd = ''/w''\<rparr>"

definition demo_tool_call :: tool_call where
  "demo_tool_call = \<lparr>tc_id = ''c1'', tc_name = ''exec'', tc_arguments = JStr ''ls''\<rparr>"

theorem tool_call_reported_witness:
  "\<exists>evs res to n. runToolCall demo_scope 5000 [] demo_tool_call (fst (executeToolCall 0 [stuck_tool] demo_tool_call ())) = (evs, res, to) \<and>
     cr_isError res \<and> tool_phases evs = (''c1'', PhaseStart) # replicate n (''c1'', PhaseUpdate) @ [(''c1'', PhaseError)]"
proof -
  obtain evs res to where e: "runToolCall demo_scope 5000 [] demo_tool_call (fst (executeToolCall 0 [stuck_tool] demo_tool_call ())) = (evs, res, to)"
    by (metis prod_cases3)
  have f: "findTool [stuck_tool] (tc_name demo_tool_call) = Some stuck_tool" "tc_id demo_tool_call = ''c1''"
    by (simp_all add: findTool_def stuck_tool_def demo_tool_call_def normalizeToolName_def TOOL_NAME_ALIASES_def) code_simp
  define run where "run = fst (tool_execute stuck_tool (tc_id demo_tool_call) (normalizeToolArgs (tool_name stuck_tool) (tc_arguments demo_tool_call)) ())"
  have r: "run_settles run = None" by (simp add: run_def stuck_tool_def)
  have "settles_before 5000 run = False" "quiet_after run" by (simp_all add: settles_before_def quiet_after_def r)
  then show ?thesis
    using tool_call_reported [OF _ e] e f unfolding run_def by (auto simp: timeoutMessage_def call_phases_def Let_def)
qed

text \<open>
  Two ways in which the listeners are misled. A tool that throws an error without a message
  is reported like one that succeeded; and when a provider reuses the id of a call that
  timed out earlier in the run, the end of the new call is not reported at all.
\<close>

theorem empty_error_reported_as_end:
  assumes "run_outcome run = Inl (ThrownError [])" "settles_before limit run" "quiet_after run" "0 < limit"
    and "findTool tools (tc_name call) = Some t" "tc_id call \<notin> set timedOut"
    and "run = fst (tool_execute t (tc_id call) (normalizeToolArgs (tool_name t) (tc_arguments call)) w)"
    and "runToolCall sc limit timedOut call (fst (executeToolCall now tools call w)) = (evs, res, timedOut')"
  shows "cr_isError res \<and> snd (last (tool_phases evs)) = PhaseEnd"
  using call_reported [OF assms(5,4,7,8)] assms(1-3,6) by (auto simp: run_result_def call_phases_def)

theorem reused_id_not_reported:
  assumes "tc_id call \<in> set timedOut" "settles_before limit run" "findTool tools (tc_name call) = Some t" "0 < limit"
    and "run = fst (tool_execute t (tc_id call) (normalizeToolArgs (tool_name t) (tc_arguments call)) w)"
    and "runToolCall sc limit timedOut call (fst (executeToolCall now tools call w)) = (evs, res, timedOut')"
  shows "tool_phases evs = [(tc_id call, PhaseStart)]"
  using call_reported(1) [OF assms(3-6)] assms(1,2) by (auto simp: call_phases_def)

end
