(* ===== verification/Coding_Tools.thy ===== *)
theory Coding_Tools
  imports Tool_Execution Exec_Tool Config_State
begin

text \<open>
  The list of tools of a conversation: \<open>agents/pi-tools.ts\<close> and \<open>agents/t560-tools.ts\<close>, with the exec tool of
  \<open>agents/bash-tools.exec.ts\<close> as a tool of that list. The constructors of the other tools are arguments (\<open>tool_kit\<close>).
  Two end-to-end properties follow calls from the model to the world: a tool that a policy of the
  configuration excludes is never run, whatever name it is called by; and a command reaches the shell
  only after the guards have passed it, in whatever form its arguments came.
\<close>

section \<open>The exec tool\<close>

text \<open>
  The shell is asked to run a plan and answers with the time the command takes, if it ends, and what
  \<open>child_process.exec\<close> reports.
\<close>

type_synonym 'w shell = "exec_call \<Rightarrow> 'w \<Rightarrow> (nat option \<times> string option \<times> string \<times> string) \<times> 'w"

definition thrown_result :: "jsv result \<Rightarrow> thrown + jsv" where
  "thrown_result r = (case r of Inl e \<Rightarrow> Inl (ThrownError e) | Inr v \<Rightarrow> Inr v)"

definition string_schema :: "string \<Rightarrow> jsv" where
  "string_schema d = JObj [(''type'', JStr ''string''), (''description'', JStr d)]"

definition createExecTool :: "process_env \<Rightarrow> 'w shell \<Rightarrow> exec_defaults \<Rightarrow> 'w agent_tool_impl" where
  "createExecTool env shell defaults =
     \<lparr>tool_name = ''exec'', tool_description = ''Execute a shell command.'', owner_only = False,
      tool_parameters = JObj
        [(''type'', JStr ''object''),
         (''properties'', JObj
           [(''command'', string_schema ''Shell command to run.''),
            (''workdir'', string_schema ''Working directory.''),
            (''timeout'', JObj [(''type'', JStr ''number''), (''description'', JStr ''Timeout in seconds.'')]),
            (''background'', JObj [(''type'', JStr ''boolean''), (''description'', JStr ''Run in background (best effort).'')])]),
         (''required'', JArr [JStr ''command''])],
      tool_execute = (\<lambda>_ params w.
        case execPlan env defaults params of
          Inl e \<Rightarrow> (\<lparr>run_partials = [], run_settles = Some 0, run_outcome = Inl (ThrownError e)\<rparr>, w)
        | Inr call \<Rightarrow>
            (case shell call w of ((t, outcome), w') \<Rightarrow>
              (\<lparr>run_partials = [], run_settles = t, run_outcome = thrown_result (execResult call outcome)\<rparr>, w')))\<rparr>"

section \<open>The list\<close>

record 'w tool_kit =
  kit_exec :: "exec_defaults \<Rightarrow> 'w agent_tool_impl"
  kit_process :: "string \<Rightarrow> 'w agent_tool_impl"
  kit_filesystem :: "string \<Rightarrow> bool \<Rightarrow> 'w agent_tool_impl list"
  kit_browser :: "'w agent_tool_impl"
  kit_email :: "string \<Rightarrow> 'w agent_tool_impl"
  kit_webSearch :: "t560_config option \<Rightarrow> 'w agent_tool_impl option"
  kit_webFetch :: "t560_config option \<Rightarrow> 'w agent_tool_impl option"
  kit_memory :: "string \<Rightarrow> string \<Rightarrow> 'w agent_tool_impl"

record coding_options =
  co_workspaceDir :: "string option"
  co_config :: "t560_config option"
  co_modelProvider :: "string option"
  co_senderIsOwner :: "bool option"

definition list_option :: "'a option \<Rightarrow> 'a list" where
  "list_option v = (case v of Some x \<Rightarrow> [x] | None \<Rightarrow> [])"

definition createT560Tools :: "'w tool_kit \<Rightarrow> t560_config option \<Rightarrow> string \<Rightarrow> 'w agent_tool_impl list" where
  "createT560Tools kit config workspaceDir =
     (let memory = (\<lambda>name. kit_memory kit name workspaceDir) in
      [kit_browser kit, kit_email kit workspaceDir] @
      list_option (kit_webSearch kit config) @
      list_option (kit_webFetch kit config) @
      map memory [''memory_search'', ''memory_get'', ''memory_save'', ''memory_delete'', ''memory_list'',
        ''memory_prune'', ''memory_feedback'', ''memory_stats'', ''memory_compact''])"

definition toolsOf :: "coding_options \<Rightarrow> tools_config option" where
  "toolsOf options = Option.bind (co_config options) cf_tools"

definition resolveRuntimePolicy :: "t560_config option \<Rightarrow> tool_policy option" where
  "resolveRuntimePolicy config =
     (case Option.bind (Option.bind config cf_tools) tc_runtime of
        None \<Rightarrow> None
      | Some runtime \<Rightarrow> Some \<lparr>allow = allow runtime, deny = deny runtime\<rparr>)"

definition dangerouslyUnrestricted :: "coding_options \<Rightarrow> bool" where
  "dangerouslyUnrestricted options \<longleftrightarrow> Option.bind (toolsOf options) tc_unrestricted = Some True"

definition workspaceDirOf :: "process_env \<Rightarrow> coding_options \<Rightarrow> string" where
  "workspaceDirOf env options =
     path_resolve (pcwd env) (case co_workspaceDir options of Some d \<Rightarrow> d | None \<Rightarrow> pcwd env)"

definition selfProtectionOf :: "process_env \<Rightarrow> string option \<Rightarrow> coding_options \<Rightarrow> protection_policy" where
  "selfProtectionOf env detectedRoot options =
     (let sp = Option.bind (toolsOf options) tc_selfProtection in
      resolveSelfProtectionPolicy env (Option.bind sp sp_enabled) (Option.bind sp sp_installRoot)
        (Option.bind sp sp_protectedPaths) detectedRoot (workspaceDirOf env options))"

definition execDefaultsOf :: "process_env \<Rightarrow> string option \<Rightarrow> coding_options \<Rightarrow> exec_defaults" where
  "execDefaultsOf env detectedRoot options =
     (let execConfig = Option.bind (toolsOf options) tc_exec;
          timeoutSec = (case Option.bind execConfig xc_timeoutSec of
                          Some n \<Rightarrow> n
                        | None \<Rightarrow> Fin (if dangerouslyUnrestricted options then 3600 else 180));
          allowBackground = (dangerouslyUnrestricted options \<or> Option.bind execConfig xc_allowBackground \<noteq> Some False)
      in \<lparr>ed_cwd = Some (workspaceDirOf env options), ed_timeoutSec = Some timeoutSec,
          ed_allowBackground = Some allowBackground, ed_selfProtection = Some (selfProtectionOf env detectedRoot options)\<rparr>)"

definition baseTools :: "process_env \<Rightarrow> string option \<Rightarrow> 'w tool_kit \<Rightarrow> coding_options \<Rightarrow> 'w agent_tool_impl list" where
  "baseTools env detectedRoot kit options =
     (let workspaceOnly = (Option.bind (toolsOf options) tc_fs \<noteq> Some (Some False)) in
      [kit_exec kit (execDefaultsOf env detectedRoot options), kit_process kit ''session:local''] @
      kit_filesystem kit (workspaceDirOf env options) workspaceOnly @
      createT560Tools kit (co_config options) (workspaceDirOf env options))"

definition policySteps :: "coding_options \<Rightarrow> pipeline_step list" where
  "policySteps options =
     (let tools = toolsOf options;
          effective = resolveEffectiveToolPolicy (Option.bind tools tc_profile) (Option.bind tools tc_allow)
            (Option.bind tools tc_deny) (Option.bind tools tc_byProvider) (co_modelProvider options);
          profilePolicy = mergeAlsoAllowPolicy (resolveToolProfilePolicy (eff_profile effective)) (Option.bind tools tc_alsoAllow)
      in buildDefaultToolPolicyPipelineSteps profilePolicy (eff_global effective) (eff_provider effective)
           (resolveRuntimePolicy (co_config options)))"

definition createT560CodingTools ::
  "process_env \<Rightarrow> string option \<Rightarrow> 'w tool_kit \<Rightarrow> coding_options \<Rightarrow> 'w agent_tool_impl list" where
  "createT560CodingTools env detectedRoot kit options =
     (let senderIsOwner = (co_senderIsOwner options \<noteq> Some False); base = baseTools env detectedRoot kit options in
      if dangerouslyUnrestricted options then applyOwnerOnlyToolPolicy base senderIsOwner
      else applyOwnerOnlyToolPolicy (applyToolPolicyPipeline base (policySteps options)) senderIsOwner)"

section \<open>Who decides what runs\<close>

lemma coding_tools_base: "t \<in> set (createT560CodingTools env dr kit options) \<Longrightarrow> t \<in> set (baseTools env dr kit options)"
  by (auto simp: createT560CodingTools_def applyOwnerOnlyToolPolicy_def pipeline_eq_filter Let_def split: if_splits)

lemma coding_tools_allowed:
  assumes "t \<in> set (createT560CodingTools env dr kit options)" "\<not> dangerouslyUnrestricted options" "st \<in> set (policySteps options)"
  shows "isToolAllowedByPolicy (tool_name t) (step_policy st)"
  using assms by (auto simp: createT560CodingTools_def applyOwnerOnlyToolPolicy_def pipeline_eq_filter Let_def step_allows_def
      list_all_iff split: if_splits)

text \<open>The global and the runtime policy of the configuration are steps of the pipeline.\<close>

lemma global_step:
  assumes "toolsOf options = Some tools" "tc_allow tools \<noteq> None \<or> tc_deny tools \<noteq> None"
  shows "\<exists>st \<in> set (policySteps options). step_policy st = Some \<lparr>allow = tc_allow tools, deny = tc_deny tools\<rparr>"
  using assms by (auto simp: policySteps_def buildDefaultToolPolicyPipelineSteps_def resolveEffectiveToolPolicy_def Let_def)

text \<open>
  C28. A tool that the configuration denies is never run. When the tools are not unrestricted and the list \<open>deny\<close> of the
  configuration matches the name of a call up to aliases, case and groups, the call leaves the world as it was and
  is answered with an error, however the profile, the provider's policy and \<open>alsoAllow\<close> are set.
\<close>

theorem denied_tool_never_runs:
  assumes "\<not> dangerouslyUnrestricted options" "toolsOf options = Some tools"
    and "list_ex (matchToolPattern (normalizeToolName (tc_name call))) (expandToolGroups (tc_deny tools))"
  shows "executeToolCall now (createT560CodingTools env dr kit options) call w =
    (\<lparr>ct_hooks = [], ct_result = Some (0, \<lparr>cr_isError = True, cr_content = ''Tool not found: '' @ tc_name call\<rparr>)\<rparr>, w)"
proof -
  have "tc_deny tools \<noteq> None" using assms(3) by (cases "tc_deny tools") (auto simp: expandToolGroups_def normalizeToolList_def)
  then obtain st where st: "st \<in> set (policySteps options)" "step_policy st = Some \<lparr>allow = tc_allow tools, deny = tc_deny tools\<rparr>"
    using global_step [OF assms(2)] by blast
  have "findTool (createT560CodingTools env dr kit options) (tc_name call) = None"
  proof (rule ccontr)
    assume "findTool (createT560CodingTools env dr kit options) (tc_name call) \<noteq> None"
    then obtain t where t: "t \<in> set (createT560CodingTools env dr kit options)" "normalizeToolName (tool_name t) = normalizeToolName (tc_name call)"
      using findTool_Some by blast
    have "isToolAllowedByPolicy (tool_name t) (step_policy st)" by (rule coding_tools_allowed [OF t(1) assms(1) st(1)])
    then show False using assms(3) t(2) by (simp add: st(2) isToolAllowedByPolicy_def)
  qed
  then show ?thesis by (simp add: executeToolCall_def)
qed


definition inert_tool :: "string \<Rightarrow> 'w agent_tool_impl" where
  "inert_tool name = \<lparr>tool_name = name, tool_description = [], owner_only = False, tool_parameters = JObj [],
     tool_execute = (\<lambda>_ _ w. (\<lparr>run_partials = [], run_settles = Some 0, run_outcome = Inr JNull\<rparr>, w))\<rparr>"

definition demo_penv_tools :: process_env where
  "demo_penv_tools = \<lparr>pcwd = ''/home/u/w'', homedir = ''/home/u''\<rparr>"

text \<open>A shell that answers at once and keeps the list of the commands it cmds.\<close>

definition demo_shell :: "exec_call list shell" where
  "demo_shell c w = ((Some 5, None, ''ok'', []), w @ [c])"

definition demo_kit :: "exec_call list tool_kit" where
  "demo_kit = \<lparr>kit_exec = createExecTool demo_penv_tools demo_shell, kit_process = (\<lambda>_. inert_tool ''process''),
     kit_filesystem = (\<lambda>_ _. [inert_tool ''read'']), kit_browser = inert_tool ''browser'', kit_email = (\<lambda>_. inert_tool ''email''),
     kit_webSearch = (\<lambda>_. None), kit_webFetch = (\<lambda>_. Some (inert_tool ''web_fetch'')), kit_memory = (\<lambda>name _. inert_tool name)\<rparr>"

definition demo_tools_config :: tools_config where
  "demo_tools_config = \<lparr>tc_unrestricted = None, tc_profile = Some ''coding'', tc_allow = None, tc_alsoAllow = Some [''exec''],
     tc_deny = Some [''group:runtime''], tc_byProvider = None, tc_runtime = None, tc_fs = None, tc_exec = None, tc_web = None,
     tc_selfProtection = None\<rparr>"

definition demo_coding_options :: "tools_config \<Rightarrow> coding_options" where
  "demo_coding_options tools = \<lparr>co_workspaceDir = None, co_config = Some (empty_config\<lparr>cf_tools := Some tools\<rparr>),
     co_modelProvider = Some ''openai'', co_senderIsOwner = Some True\<rparr>"

theorem denied_tool_never_runs_witness:
  "snd (executeToolCall 0 (createT560CodingTools demo_penv_tools None demo_kit (demo_coding_options demo_tools_config))
     \<lparr>tc_id = ''c'', tc_name = '' BASH '', tc_arguments = JStr ''ls''\<rparr> []) = []"
proof -
  have "\<not> dangerouslyUnrestricted (demo_coding_options demo_tools_config)" "toolsOf (demo_coding_options demo_tools_config) = Some demo_tools_config"
    by (simp_all add: dangerouslyUnrestricted_def toolsOf_def demo_coding_options_def demo_tools_config_def)
  moreover have "list_ex (matchToolPattern (normalizeToolName '' BASH '')) (expandToolGroups (tc_deny demo_tools_config))"
    by code_simp
  ultimately show ?thesis
    using denied_tool_never_runs [of "demo_coding_options demo_tools_config" demo_tools_config "\<lparr>tc_id = ''c'', tc_name = '' BASH '', tc_arguments = JStr ''ls''\<rparr>"
        0 demo_penv_tools None demo_kit "[]"]
    by simp
qed

section \<open>What reaches the shell\<close>

definition guarded :: "process_env \<Rightarrow> protection_policy \<Rightarrow> exec_call \<Rightarrow> bool" where
  "guarded env policy c \<longleftrightarrow>
     assertExecCommandAllowed env (ec_command c) (ec_cwd c) policy = Inr () \<and> \<not> commandTouchesSensitivePath (ec_command c)"

text \<open>A tool that has nothing to do with the shell.\<close>

definition no_shell :: "('w \<Rightarrow> exec_call list) \<Rightarrow> 'w agent_tool_impl \<Rightarrow> bool" where
  "no_shell cmds t \<longleftrightarrow> (\<forall>i a w. cmds (snd (tool_execute t i a w)) = cmds w)"

lemma exec_tool_guarded:
  assumes "\<And>c w. cmds (snd (shell c w)) = cmds w @ [c]" "ed_selfProtection defaults = Some policy"
  shows "\<exists>cs. cmds (snd (tool_execute (createExecTool env shell defaults) i a w)) = cmds w @ cs \<and> length cs \<le> 1 \<and>
    list_all (guarded env policy) cs"
proof (cases "execPlan env defaults a")
  case (Inl e)
  then show ?thesis by (simp add: createExecTool_def)
next
  case (Inr c)
  have "guarded env policy c"
    using exec_runs_only_admitted [of env defaults "\<lambda>_. (None, [], [])" a] assms(2) unfolding Inr guarded_def by auto
  moreover have "cmds (snd (tool_execute (createExecTool env shell defaults) i a w)) = cmds w @ [c]"
    using assms(1) [of c w] Inr by (auto simp: createExecTool_def split: prod.split)
  ultimately show ?thesis by (intro exI [of _ "[c]"]) simp
qed

text \<open>
  C29. A command reaches the shell only through the guards. Whatever the model calls and in whatever form it writes the arguments
  (a bare string, \<open>cmd\<close>, \<open>script\<close>, an alias of the name), a call makes the shell run at most one command, and that command has passed
  the self-protection resolved from the configuration and the test for secret files, also when the tools are unrestricted. The other tools
  are assumed not to use the shell.
\<close>

theorem shell_sees_guarded_commands:
  assumes "kit_exec kit = createExecTool env shell" "\<And>c w. cmds (snd (shell c w)) = cmds w @ [c]"
    and "list_all (no_shell cmds) (tl (baseTools env dr kit options))"
  shows "\<exists>cs. cmds (snd (executeToolCall now (createT560CodingTools env dr kit options) call w)) = cmds w @ cs \<and> length cs \<le> 1 \<and>
    list_all (guarded env (selfProtectionOf env dr options)) cs"
proof -
  let ?exec = "createExecTool env shell (execDefaultsOf env dr options)"
  have base: "baseTools env dr kit options = ?exec # tl (baseTools env dr kit options)"
    by (simp add: baseTools_def Let_def assms(1))
  have sp: "ed_selfProtection (execDefaultsOf env dr options) = Some (selfProtectionOf env dr options)"
    by (simp add: execDefaultsOf_def Let_def)
  have each: "\<exists>cs. cmds (snd (tool_execute t i a w)) = cmds w @ cs \<and> length cs \<le> 1 \<and>
      list_all (guarded env (selfProtectionOf env dr options)) cs"
    if "t \<in> set (createT560CodingTools env dr kit options)" for t i a w
  proof (cases "t = ?exec")
    case True
    then show ?thesis using exec_tool_guarded [of cmds shell, OF assms(2) sp] by simp
  next
    case False
    then have "t \<in> set (tl (baseTools env dr kit options))" using coding_tools_base [OF that] base by (metis set_ConsD)
    then show ?thesis using assms(3) by (auto simp: list_all_iff no_shell_def)
  qed
  show ?thesis
    using executeToolCall_world [of now "createT560CodingTools env dr kit options" call w] each by fastforce
qed

theorem shell_sees_guarded_commands_witness:
  "let cs = snd (executeToolCall 0 (createT560CodingTools demo_penv_tools (Some ''/opt/t560'') demo_kit
        (demo_coding_options (demo_tools_config\<lparr>tc_deny := None\<rparr>)))
        \<lparr>tc_id = ''c'', tc_name = ''bash'', tc_arguments = JObj [(''script'', JStr ''rm -rf build'')]\<rparr> []) in length cs \<le> 1 \<and>
     list_all (guarded demo_penv_tools (selfProtectionOf demo_penv_tools (Some ''/opt/t560'')
        (demo_coding_options (demo_tools_config\<lparr>tc_deny := None\<rparr>)))) cs"
proof -
  have "kit_exec demo_kit = createExecTool demo_penv_tools demo_shell" by (simp add: demo_kit_def)
  moreover have "(\<lambda>w. w) (snd (demo_shell c w)) = (\<lambda>w. w) w @ [c]" for c w by (simp add: demo_shell_def)
  moreover have "list_all (no_shell (\<lambda>w. w)) (tl (baseTools demo_penv_tools (Some ''/opt/t560'') demo_kit
      (demo_coding_options (demo_tools_config\<lparr>tc_deny := None\<rparr>))))"
    by (simp add: baseTools_def createT560Tools_def demo_kit_def Let_def no_shell_def inert_tool_def list_option_def)
  ultimately have "\<exists>cs. snd (executeToolCall 0 (createT560CodingTools demo_penv_tools (Some ''/opt/t560'') demo_kit
        (demo_coding_options (demo_tools_config\<lparr>tc_deny := None\<rparr>)))
        \<lparr>tc_id = ''c'', tc_name = ''bash'', tc_arguments = JObj [(''script'', JStr ''rm -rf build'')]\<rparr> []) = [] @ cs \<and> length cs \<le> 1 \<and>
     list_all (guarded demo_penv_tools (selfProtectionOf demo_penv_tools (Some ''/opt/t560'')
        (demo_coding_options (demo_tools_config\<lparr>tc_deny := None\<rparr>)))) cs"
    by (rule shell_sees_guarded_commands)
  then show ?thesis by auto
qed

text \<open>
  The adapter treats \<open>cwd\<close> as a name of the working directory and then fills in none, while the tool reads
  \<open>workdir\<close> only: a command sent with \<open>cwd\<close> runs in the workspace.
\<close>

theorem cwd_argument_ignored:
  "execPlan env defaults (normalizeToolArgs ''exec'' (JObj [(''command'', JStr c), (''cwd'', JStr d)])) =
   execPlan env defaults (JObj [(''command'', JStr c)])"
proof -
  have "normalizeToolName ''exec'' = ''exec''" by code_simp
  then have "normalizeToolArgs ''exec'' (JObj [(''command'', JStr c), (''cwd'', JStr d)]) = JObj [(''command'', JStr c), (''cwd'', JStr d)]"
    by (simp add: normalizeToolArgs_def normalizeExecArgs_def renameKey_def spread_with_def Let_def)
  then show ?thesis by (simp add: execPlan_def Let_def)
qed

end
