(* ===== verification/Run_Helpers.thy ===== *)
theory Run_Helpers
  imports Tool_Execution Checkout_Workflow Chat_Service
begin

text \<open>
  The functions of \<open>provider/run.ts\<close> that the provider loop consults: what a user's message asks for, what a
  tool call does to the state of the world and whether it verifies it, one-time codes and the sessions that wait for one, the page
  a purchase would be made on, the text of an answer, and the limits. A page address is parsed by an
  argument (\<open>new URL(s).toString()\<close>), and so is JSON text.
\<close>

section \<open>What a message asks for\<close>

definition dash_or_ws :: "char \<Rightarrow> bool" where
  "dash_or_ws c \<longleftrightarrow> c = CHR ''-'' \<or> is_ws c"

text \<open>\<open>/\bw\b/\<close> for a fixed phrase, and \<open>/\ba\s*b\b/\<close>.\<close>

definition rx_gap :: "nat \<Rightarrow> string \<Rightarrow> string \<Rightarrow> rx" where
  "rx_gap n a b = Seq [Bound, Lit a, Many n is_ws, Lit b, Bound]"

definition rx_some :: "rx list \<Rightarrow> string \<Rightarrow> bool" where
  "rx_some rs s = list_ex (\<lambda>r. rx_test r s) rs"

definition hasLikelyLogoutIntent :: "string \<Rightarrow> bool" where
  "hasLikelyLogoutIntent message =
     (let s = to_lower message in
      if trim s = [] then False
      else rx_some [rx_words [''logout''], rx_gap 0 ''log'' ''out'', rx_gap 0 ''log'' ''iut'', rx_gap 0 ''log'' ''uot'',
             rx_gap 0 ''log'' ''ot'', rx_gap 0 ''sign'' ''out'', rx_words [''signout''], rx_gap 0 ''sign'' ''off''] s)"

definition hasLikelyLoginIntent :: "string \<Rightarrow> bool" where
  "hasLikelyLoginIntent message =
     (let s = to_lower message in
      if trim s = [] then False
      else rx_some [rx_words [''login''],
             Seq [Bound, Lit ''log'', Many 0 is_ws, Lit ''in'', Opt (Lit ''to''), Bound],
             Seq [Bound, Lit ''log'', Many 1 is_ws, Lit ''me'', Many 1 is_ws, Lit ''in'', Bound],
             Seq [Bound, Lit ''sign'', Many 0 is_ws, Lit ''in'', Opt (Lit ''to''), Bound],
             Seq [Bound, Lit ''sign'', Many 1 is_ws, Lit ''me'', Many 1 is_ws, Lit ''in'', Bound],
             Seq [Bound, Lit ''auth'', Opt (Alt [Lit ''enticate'', Lit ''entication'']), Bound],
             rx_words [''verification''],
             Seq [Bound, Lit ''one'', Run 0 1 dash_or_ws, Lit ''time code'', Bound],
             rx_words [''otp''], rx_words [''2fa''], rx_words [''mfa'']] s)"

definition looksLikeLoginIntent :: "string \<Rightarrow> bool" where
  "looksLikeLoginIntent message = hasLikelyLoginIntent message"

definition looksLikeAccountDashboardIntent :: "string \<Rightarrow> bool" where
  "looksLikeAccountDashboardIntent message =
     (let s = to_lower message in
      if trim s = [] then False
      else rx_some [rx_words [''dashboard''], rx_words [''balance''], rx_words [''account''], rx_words [''portfolio''],
             rx_words [''statement'']] s)"

text \<open>\<open>hasSite\<close> tells whether an address or a domain is found in the message.\<close>

definition looksLikeSiteVisitIntent :: "(string \<Rightarrow> bool) \<Rightarrow> string \<Rightarrow> bool" where
  "looksLikeSiteVisitIntent hasSite message =
     (let s = to_lower message in
      if trim s = [] then False
      else if \<not> hasSite message then False
      else rx_test (rx_words [''go to'', ''goto'', ''open'', ''visit'', ''navigate'', ''check'', ''load'', ''access'']) s
           \<or> hasLikelyLoginIntent s \<or> looksLikeAccountDashboardIntent s)"

definition messageLikelyAsksToContinueWithoutCode :: "string \<Rightarrow> bool" where
  "messageLikelyAsksToContinueWithoutCode message =
     (let s = to_lower message in
      if trim s = [] then False
      else rx_test (rx_words [''continue'', ''proceed'', ''go ahead'', ''keep going'', ''next step'', ''do it'', ''finish'']) s
           \<or> looksLikeLoginIntent s \<or> looksLikeAccountDashboardIntent s)"

definition looksLikeMfaRecoveryIntent :: "string \<Rightarrow> bool" where
  "looksLikeMfaRecoveryIntent message =
     (let s = to_lower message in
      if trim s = [] then False
      else if rx_some [Seq [Bound, Alt [Lit ''what'', Lit ''which''], Many 1 is_ws, Lit ''email'', Bound],
             Seq [Bound, Alt [Lit ''email'', Lit ''address''], Bound, Run 0 40 (\<lambda>_. True), Bound,
               Alt (map Lit [''enter'', ''entered'', ''use'', ''used'', ''fill'', ''filled'', ''typed'', ''typing'']), Bound]] s then True
      else if \<not> rx_test (Seq [Bound, Alt (Seq [Lit ''one'', Run 0 1 dash_or_ws, Lit ''time code''] #
             map Lit [''otp'', ''verification code'', ''auth code'', ''2fa code'', ''mfa code'', ''code'']), Bound]) s then False
      else rx_some [Seq [Bound, Alt (Seq [Lit ''didn'', Run 0 1 (\<lambda>c. c = CHR 0x27), Lit ''t get''] #
               map Lit [''not getting'', ''not receiving'', ''never got'', ''no code'', ''code not'', ''missing'']), Bound],
             rx_words [''resend'', ''send again'', ''retry'', ''try again'']] s)"

definition email_word :: rx where
  "email_word = Seq [Bound, Lit ''e'', Opt (Lit ''-''), Lit ''mail'', Opt (Lit ''s''), Bound]"

definition email_intent :: "string \<Rightarrow> bool" where
  "email_intent s = rx_some [email_word, rx_words [''inbox''], rx_words [''mailbox''], rx_words [''unread''], rx_words [''imap''],
     rx_words [''smtp'']] s"

definition reply_intent :: "string \<Rightarrow> bool" where
  "reply_intent s \<longleftrightarrow> rx_some [rx_words [''reply''], rx_words [''respond'']] s \<and>
     rx_some [email_word, rx_words [''inbox''], rx_words [''mailbox'']] s"

definition messageLikelyNeedsEmailTool :: "string \<Rightarrow> bool" where
  "messageLikelyNeedsEmailTool message =
     (let s = to_lower message in
      if trim s = [] then False
      else email_intent s \<or>
           rx_test (Seq [Bound, Lit ''send '', Opt (Lit ''an ''), Lit ''e'', Opt (Lit ''-''), Lit ''mail'', Opt (Lit ''s''), Bound]) s \<or>
           rx_test (Seq [Bound, Lit ''check '', Opt (Alt [Lit ''my'', Lit ''the'']), Many 0 is_ws, Lit ''inbox'', Bound]) s \<or>
           reply_intent s)"

text \<open>
  The fourth pattern is \<open>/\bterminal|shell|...|git\b/\<close>: the alternatives are not grouped, so only the first and the last have a
  word boundary.
\<close>

definition requestLikelyNeedsTools :: "string \<Rightarrow> bool" where
  "requestLikelyNeedsTools message =
     (let s = to_lower message in
      rx_some
        [rx_words [''create'', ''make'', ''write'', ''edit'', ''delete'', ''remove'', ''rename'', ''move'', ''copy''],
         rx_words [''file'', ''folder'', ''directory'', ''desktop'', ''documents'', ''downloads''],
         rx_words [''run'', ''execute'', ''install'', ''uninstall'', ''start'', ''stop'', ''restart''],
         Alt (Seq [Bound, Lit ''terminal''] #
           map Lit [''shell'', ''command'', ''bash'', ''cd'', ''ls'', ''pwd'', ''cat'', ''npm'', ''pnpm'', ''yarn''] @ [Seq [Lit ''git'', Bound]]),
         rx_words [''search'', ''look up'', ''lookup'', ''latest'', ''current'', ''today'', ''news'', ''web'', ''internet'', ''url'',
           ''website'', ''source''],
         rx_words [''open'', ''click'', ''navigate'', ''browse'', ''tab'', ''page'', ''site'', ''scrape'', ''crawl'', ''visit'', ''access''],
         rx_gap 1 ''go'' ''to'', rx_words [''goto'']] s
      \<or> hasLikelyLoginIntent s
      \<or> rx_test (rx_words [''logout'', ''log out'', ''sign out'', ''signout'', ''authenticator'', ''passcode'']) s
      \<or> email_intent s \<or> reply_intent s \<or> hasLikelyLogoutIntent s
      \<or> rx_test (Seq [Bound, Lit ''enter '', Opt (Lit ''that ''), Lit ''code'', Bound]) s)"

definition requestLikelyNeedsCompletionVerification :: "string \<Rightarrow> bool" where
  "requestLikelyNeedsCompletionVerification message =
     (let s = to_lower message in
      if trim s = [] then False
      else rx_some
        [rx_words [''create'', ''make'', ''write'', ''edit'', ''update'', ''change'', ''fix'', ''rename'', ''move'', ''copy''],
         rx_words [''delete'', ''remove'', ''wipe'', ''clear'', ''purge'', ''destroy''],
         rx_words [''send'', ''submit'', ''post'', ''publish''],
         rx_words [''install'', ''uninstall'', ''upgrade'', ''downgrade'', ''configure'', ''setup''],
         rx_words [''login'', ''log in'', ''logout'', ''log out'', ''sign in'', ''sign out'', ''authenticate'', ''mfa'', ''otp''],
         rx_words [''buy'', ''purchase'', ''checkout'', ''order'', ''pay'']] s)"

text \<open>\<open>/^\d{4,10}$/\<close>, or six to ten letters and digits with a digit among them; white space is removed first.\<close>

definition extractLikelyOneTimeCode :: "string \<Rightarrow> string option" where
  "extractLikelyOneTimeCode message =
     (let code = replace_ws [] (trim message); n = length code in
      if code = [] then None
      else if 4 \<le> n \<and> n \<le> 10 \<and> list_all is_digit code then Some code
      else if 6 \<le> n \<and> n \<le> 10 \<and> list_all is_alnum code \<and> list_ex is_digit code then Some code
      else None)"

section \<open>What a tool call does\<close>

definition toToolArgsRecord :: "jsv \<Rightarrow> jsv" where
  "toToolArgsRecord args = (if \<not> is_object args \<or> is_array args then JObj [] else args)"

definition looksLikeStateMutationCommand :: "string \<Rightarrow> bool" where
  "looksLikeStateMutationCommand command =
     (let s = to_lower command in
      if trim s = [] then False
      else rx_some
        [rx_words [''rm'', ''rmdir'', ''mv'', ''cp'', ''mkdir'', ''touch'', ''chmod'', ''chown'', ''ln''],
         rx_words [''sed'', ''awk'', ''perl''],
         Seq [Bound, Alt (map Lit [''npm'', ''pnpm'', ''yarn'']), Many 1 is_ws,
           Alt (map Lit [''install'', ''remove'', ''add'', ''uninstall'', ''update'', ''upgrade'', ''run'']), Bound],
         Seq [Bound, Lit ''git'', Many 1 is_ws,
           Alt (map Lit [''add'', ''commit'', ''push'', ''checkout'', ''switch'', ''merge'', ''rebase'', ''reset'']), Bound],
         rx_words [''docker'', ''kubectl'', ''systemctl''],
         Lit ''>''] s)"

text \<open>
  The second pattern is \<open>/\[\s*![^]]*-e/\<close>; in JavaScript \<open>[^]\<close> is any character, so the pattern asks for one character and
  closing brackets between \<open>!\<close> and \<open>-e\<close>.
\<close>

definition looksLikeStateVerificationCommand :: "string \<Rightarrow> bool" where
  "looksLikeStateVerificationCommand command =
     (let s = to_lower command in
      if trim s = [] then False
      else rx_some
        [rx_words [''test'', ''stat'', ''ls'', ''find'', ''rg'', ''grep'', ''cat'', ''head'', ''tail'', ''wc'', ''du'', ''md5sum'', ''sha256sum''],
         Seq [Lit ''['', Many 0 is_ws, Lit ''!'', Cls (\<lambda>_. True), Many 0 (\<lambda>c. c = CHR '']''), Lit ''-e''],
         Seq [Lit ''['', Many 0 is_ws, Lit ''-e'']] s)"

definition action_of :: "jsv \<Rightarrow> string" where
  "action_of args = to_lower (trim (str_or_empty (jget args ''action'')))"

definition command_of :: "jsv \<Rightarrow> string" where
  "command_of args = str_or_empty (coalesce (jget args ''command'') (jget args ''cmd''))"

definition toolCallMutatesState :: "string \<Rightarrow> jsv \<Rightarrow> bool" where
  "toolCallMutatesState toolName args =
     (let tool = to_lower (trim toolName) in
      if tool = [] then False
      else if tool = ''write'' \<or> tool = ''edit'' then True
      else if tool \<in> set [''memory_save'', ''memory_delete'', ''memory_prune'', ''memory_feedback'', ''memory_compact''] then True
      else if tool = ''email'' then action_of args = ''send''
      else if tool = ''browser'' then action_of args \<in> set [''submit'', ''login'', ''mfa'', ''upload'', ''dialog'', ''challenge'']
      else if tool = ''exec'' then looksLikeStateMutationCommand (command_of args)
      else False)"

definition toolCallVerifiesState :: "string \<Rightarrow> jsv \<Rightarrow> bool" where
  "toolCallVerifiesState toolName args =
     (let tool = to_lower (trim toolName) in
      if tool = [] then False
      else if tool \<in> set [''read'', ''ls'', ''find'', ''exists'', ''web_search'', ''web_fetch'', ''memory_search'', ''memory_get'',
                ''memory_save'', ''memory_delete'', ''memory_prune'', ''memory_feedback'', ''memory_compact'', ''memory_list'', ''memory_stats'']
        then True
      else if tool = ''email'' then action_of args \<in> set [''status'', ''list_unread'', ''read_unread'', ''read_recent'', ''send'']
      else if tool = ''browser'' then action_of args \<in> set [''snapshot'', ''wait'', ''wait_for_request'', ''downloads'', ''console'', ''pdf'']
      else if tool = ''exec'' then looksLikeStateVerificationCommand (command_of args)
      else False)"

section \<open>Results of the browser\<close>

text \<open>\<open>parseJson\<close> is \<open>JSON.parse\<close>, \<open>None\<close> when it throws.\<close>

definition parseJsonRecord :: "(string \<Rightarrow> jsv option) \<Rightarrow> string \<Rightarrow> jsv option" where
  "parseJsonRecord parseJson s =
     (case parseJson s of Some v \<Rightarrow> if is_object v \<and> \<not> is_array v then Some v else None | None \<Rightarrow> None)"

text \<open>A missing record has no properties, as with \<open>?.\<close>.\<close>

definition getNestedRecord :: "jsv \<Rightarrow> string \<Rightarrow> jsv option" where
  "getNestedRecord source k =
     (let v = jget source k in if is_object v \<and> \<not> is_array v then Some v else None)"

definition nested :: "jsv \<Rightarrow> string \<Rightarrow> string \<Rightarrow> jsv" where
  "nested source k f = (case getNestedRecord source k of Some r \<Rightarrow> jget r f | None \<Rightarrow> JUndef)"

record pending_mfa =
  mf_service :: "string option"
  mf_mfaSourceService :: "string option"
  mf_tabId :: "string option"
  mf_since :: int

type_synonym mfa_sessions = "(string, pending_mfa) omap"

definition MFA_PENDING_SESSION_MAX :: nat where "MFA_PENDING_SESSION_MAX = 1024"

definition requires_mfa :: "jsv \<Rightarrow> bool" where
  "requires_mfa parsed \<longleftrightarrow> jget parsed ''requiresMfa'' = JBool True \<or> nested parsed ''mfa'' ''required'' = JBool True
     \<or> nested parsed ''mfa'' ''requiresMfa'' = JBool True"

definition mfa_submitted :: "jsv \<Rightarrow> bool" where
  "mfa_submitted parsed \<longleftrightarrow> jget parsed ''mfaSubmitted'' = JBool True \<or> nested parsed ''mfa'' ''submitted'' = JBool True
     \<or> nested parsed ''mfa'' ''handled'' = JBool True"

definition some_text :: "jsv \<Rightarrow> string option" where
  "some_text v = (let s = trim (str_or_empty v) in if s \<noteq> [] then Some s else None)"

text \<open>The entry is set, and the oldest one goes when there are too many.\<close>

definition rememberMfa :: "string \<Rightarrow> pending_mfa \<Rightarrow> mfa_sessions \<Rightarrow> mfa_sessions" where
  "rememberMfa sessionId entry m =
     (let m1 = AList.update sessionId entry m in
      if MFA_PENDING_SESSION_MAX < length m1 \<and> fst (hd m1) \<noteq> [] then tl m1 else m1)"

definition updatePendingMfaStateFromBrowserTool ::
  "(string \<Rightarrow> jsv option) \<Rightarrow> int \<Rightarrow> string \<Rightarrow> jsv \<Rightarrow> call_result \<Rightarrow> mfa_sessions \<Rightarrow> mfa_sessions" where
  "updatePendingMfaStateFromBrowserTool parseJson now sessionId toolArgs outcome m =
     (let action = action_of toolArgs in
      if action = ''mfa'' \<and> \<not> cr_isError outcome then AList.delete sessionId m
      else if cr_isError outcome then m
      else case parseJsonRecord parseJson (cr_content outcome) of
        None \<Rightarrow> m
      | Some parsed \<Rightarrow>
          if mfa_submitted parsed then AList.delete sessionId m
          else if \<not> requires_mfa parsed then (if action = ''login'' then AList.delete sessionId m else m)
          else
            rememberMfa sessionId
              \<lparr>mf_service = some_text (jget parsed ''service''),
               mf_mfaSourceService = some_text (coalesce (jget parsed ''mfaSourceService'') (nested parsed ''mfa'' ''sourceService'')),
               mf_tabId = some_text (coalesce (jget parsed ''activeTabId'') (nested parsed ''tab'' ''id'')), mf_since = now\<rparr> m)"

record mfa_state =
  ms_requiresMfa :: bool
  ms_sourceService :: "string option"
  ms_credentialAvailable :: bool

definition parseBrowserMfaState :: "(string \<Rightarrow> jsv option) \<Rightarrow> string \<Rightarrow> mfa_state" where
  "parseBrowserMfaState parseJson outcomeContent =
     (case parseJsonRecord parseJson outcomeContent of
        None \<Rightarrow> \<lparr>ms_requiresMfa = False, ms_sourceService = None, ms_credentialAvailable = False\<rparr>
      | Some parsed \<Rightarrow>
          \<lparr>ms_requiresMfa = requires_mfa parsed,
           ms_sourceService = some_text (coalesce (jget parsed ''mfaSourceService'') (nested parsed ''mfa'' ''sourceService'')),
           ms_credentialAvailable = (jget parsed ''mfaSourceCredentialAvailable'' = JBool True
             \<or> nested parsed ''mfa'' ''sourceCredentialAvailable'' = JBool True)\<rparr>)"

record login_state =
  lg_submitted :: bool
  lg_requiresMfa :: bool
  lg_mfaExpected :: bool
  lg_identifier :: "string option"

definition parseBrowserLoginState :: "(string \<Rightarrow> jsv option) \<Rightarrow> string \<Rightarrow> login_state option" where
  "parseBrowserLoginState parseJson outcomeContent =
     (case parseJsonRecord parseJson outcomeContent of
        None \<Rightarrow> None
      | Some parsed \<Rightarrow>
          if \<not> (list_ex (jhas parsed) [''submitted'', ''requiresMfa'', ''mfaExpected'', ''identifier''] \<or> getNestedRecord parsed ''mfa'' \<noteq> None)
          then None
          else Some
            \<lparr>lg_submitted = (jget parsed ''submitted'' = JBool True), lg_requiresMfa = requires_mfa parsed,
             lg_mfaExpected = (jget parsed ''mfaExpected'' = JBool True \<or> nested parsed ''mfa'' ''expected'' = JBool True),
             lg_identifier = some_text (coalesce (coalesce (jget parsed ''identifierFull'') (jget parsed ''identifier'')) (jget parsed ''identifierMasked''))\<rparr>)"

definition normalizeBrowserActionName :: "jsv \<Rightarrow> string" where
  "normalizeBrowserActionName v =
     (let raw = to_lower (trim (str_or_empty v)) in
      if raw \<in> set [''wait-for-request'', ''waitforrequest'', ''wait-for-network''] then ''wait_for_request''
      else if raw \<in> set [''captcha'', ''human-check'', ''human_check'', ''human-verification''] then ''challenge''
      else raw)"

definition parseBrowserChallengeState :: "(string \<Rightarrow> jsv option) \<Rightarrow> string \<Rightarrow> bool \<times> string option" where
  "parseBrowserChallengeState parseJson outcomeContent =
     (case parseJsonRecord parseJson outcomeContent of
        None \<Rightarrow> (False, None)
      | Some parsed \<Rightarrow>
          (jget parsed ''humanVerificationRequired'' = JBool True \<or> jget parsed ''challengeDetected'' = JBool True
             \<or> nested parsed ''challenge'' ''detected'' = JBool True,
           some_text (coalesce (jget parsed ''activeTabId'') (nested parsed ''tab'' ''id''))))"

definition outcomeLooksLikeHumanVerificationError :: "string \<Rightarrow> bool" where
  "outcomeLooksLikeHumanVerificationError outcomeContent =
     rx_test (rx_words [''captcha'', ''recaptcha'', ''hcaptcha'', ''turnstile'', ''human verification'', ''verify you are human'',
       ''security check'', ''cloudflare'']) (to_lower outcomeContent)"

definition extractUrlFromBrowserOutcomeContent :: "(string \<Rightarrow> jsv option) \<Rightarrow> (string \<Rightarrow> string option) \<Rightarrow> string \<Rightarrow> string option" where
  "extractUrlFromBrowserOutcomeContent parseJson parseUrl outcomeContent =
     (case parseJsonRecord parseJson outcomeContent of
        None \<Rightarrow> None
      | Some parsed \<Rightarrow>
          let candidates = filter (\<lambda>s. s \<noteq> []) (map (\<lambda>v. trim (str_or_empty v))
                [jget parsed ''url'', nested parsed ''snapshot'' ''url'', nested parsed ''tab'' ''url'', nested parsed ''openedSnapshot'' ''url''])
          in List.find (\<lambda>u. u \<noteq> []) (List.map_filter parseUrl candidates))"

text \<open>\<open>hostname\<close> is \<open>new URL(u).hostname\<close>, \<open>None\<close> when the constructor throws.\<close>

definition without_www :: "string \<Rightarrow> string" where
  "without_www host = (if starts_with host ''www.'' then drop 4 host else host)"

definition extractHostFromBrowserOutcomeContent :: "(string \<Rightarrow> jsv option) \<Rightarrow> (string \<Rightarrow> string option) \<Rightarrow> string \<Rightarrow> string option" where
  "extractHostFromBrowserOutcomeContent parseJson hostname outcomeContent =
     (case parseJsonRecord parseJson outcomeContent of
        None \<Rightarrow> None
      | Some parsed \<Rightarrow>
          let candidates = filter (\<lambda>s. s \<noteq> []) (map (\<lambda>v. trim (str_or_empty v))
                [jget parsed ''url'', nested parsed ''snapshot'' ''url'', nested parsed ''tab'' ''url'', nested parsed ''openedSnapshot'' ''url''])
          in map_option without_www (List.find (\<lambda>h. h \<noteq> []) (map (\<lambda>h. to_lower (trim h)) (List.map_filter hostname candidates))))"

definition buildServiceCandidatesFromHost :: "(string \<Rightarrow> string option) \<Rightarrow> string \<Rightarrow> string list" where
  "buildServiceCandidatesFromHost hostname host =
     (let normalizedHost = without_www (to_lower (trim host)) in
      if normalizedHost = [] then []
      else dedup (List.map_filter (normalizeSetupService hostname)
             (normalizedHost # filter (\<lambda>l. l \<noteq> []) [hd (split_on (CHR ''.'') normalizedHost)])))"

record tool_outcome =
  to_toolName :: string
  to_isError :: bool
  to_content :: string

text \<open>
  The credentials are asked one service after the other. \<open>getCredential\<close> throws when the vault cannot be opened (\<open>Inl\<close>), and nothing
  here catches it; else the answer is whether there is one.
\<close>

fun firstCredential :: "(string \<Rightarrow> string + bool) \<Rightarrow> string list \<Rightarrow> string + string option" where
  "firstCredential credentialOf [] = Inr None"
| "firstCredential credentialOf (service # services) =
     (case credentialOf service of
        Inl e \<Rightarrow> Inl e
      | Inr found \<Rightarrow> if found then Inr (Some service) else firstCredential credentialOf services)"

definition resolveSavedServiceFromBrowserOutcomes ::
  "(string \<Rightarrow> jsv option) \<Rightarrow> (string \<Rightarrow> string option) \<Rightarrow> (string \<Rightarrow> string + bool) \<Rightarrow> tool_outcome list \<Rightarrow> string + string option" where
  "resolveSavedServiceFromBrowserOutcomes parseJson hostname credentialOf toolOutcomes =
     (let successful = rev (filter (\<lambda>e. \<not> to_isError e \<and> to_lower (trim (to_toolName e)) = ''browser'') toolOutcomes) in
      firstCredential credentialOf (concat (map (\<lambda>e.
        case extractHostFromBrowserOutcomeContent parseJson hostname (to_content e) of
          Some host \<Rightarrow> buildServiceCandidatesFromHost hostname host
        | None \<Rightarrow> []) successful)))"

lemma firstCredential_error: "firstCredential g ss = Inl e \<Longrightarrow> \<exists>s \<in> set ss. g s = Inl e"
  by (induction ss) (auto split: sum.splits if_split_asm)

lemma resolveSaved_error: "resolveSavedServiceFromBrowserOutcomes parseJson hostname g outs = Inl e \<Longrightarrow> \<exists>s. g s = Inl e"
  using firstCredential_error by (fastforce simp: resolveSavedServiceFromBrowserOutcomes_def Let_def)

definition latestBrowserUrlFromToolOutcomes ::
  "(string \<Rightarrow> jsv option) \<Rightarrow> (string \<Rightarrow> string option) \<Rightarrow> tool_outcome list \<Rightarrow> string option" where
  "latestBrowserUrlFromToolOutcomes parseJson parseUrl toolOutcomes =
     (let successful = rev (filter (\<lambda>e. \<not> to_isError e \<and> to_lower (trim (to_toolName e)) = ''browser'') toolOutcomes) in
      List.find (\<lambda>u. u \<noteq> []) (List.map_filter (\<lambda>e. extractUrlFromBrowserOutcomeContent parseJson parseUrl (to_content e)) successful))"

definition enrichCheckoutArgsWithPageContext ::
  "(string \<Rightarrow> jsv option) \<Rightarrow> (string \<Rightarrow> string option) \<Rightarrow> string \<Rightarrow> jsv \<Rightarrow> tool_outcome list \<Rightarrow> jsv" where
  "enrichCheckoutArgsWithPageContext parseJson parseUrl toolName toolArgs toolOutcomes =
     (if to_lower (trim toolName) \<noteq> ''browser'' then toolArgs
      else if \<not> is_object toolArgs \<or> is_array toolArgs then toolArgs
      else if action_of toolArgs \<notin> set [''click'', ''submit'', ''act'', ''press''] then toolArgs
      else if list_ex (\<lambda>k. trim (str_or_empty (jget toolArgs k)) \<noteq> []) [''currentUrl'', ''currentPageUrl'', ''url'', ''targetUrl'']
        then toolArgs
      else case latestBrowserUrlFromToolOutcomes parseJson parseUrl toolOutcomes of
             None \<Rightarrow> toolArgs
           | Some latestUrl \<Rightarrow> jput ''currentPageUrl'' (JStr latestUrl) toolArgs)"

section \<open>Texts of answers\<close>

definition think_open :: string where "think_open = ''<think>''"

definition think_close :: string where "think_close = ''</think>''"

text \<open>The position of the first occurrence of a lower-case literal, without regard to case.\<close>

fun find_ci :: "string \<Rightarrow> string \<Rightarrow> nat option" where
  "find_ci lit [] = (if lit = [] then Some 0 else None)"
| "find_ci lit (c # s) =
     (if starts_with (to_lower (c # s)) lit then Some 0 else map_option Suc (find_ci lit s))"

text \<open>\<open>/<think>([\s\S]*?)<\/think>/gi\<close>: what remains, and the trimmed contents of the matches.\<close>

function strip_think :: "string \<Rightarrow> string \<times> string list" where
  "strip_think s =
     (case s of
        [] \<Rightarrow> ([], [])
      | c # r \<Rightarrow>
          (case (if starts_with (to_lower s) think_open then find_ci think_close (drop (length think_open) s) else None) of
             Some i \<Rightarrow>
               (let inner = take i (drop (length think_open) s);
                    (t, ps) = strip_think (drop (length think_open + i + length think_close) s)
                in (t, trim inner # ps))
           | None \<Rightarrow> (let (t, ps) = strip_think r in (c # t, ps))))"
  by pat_completeness auto
termination by (relation "measure length") (auto simp: think_open_def)

declare strip_think.simps [simp del]

definition stripInlineThinking :: "string \<Rightarrow> string \<times> string option" where
  "stripInlineThinking raw =
     (let (stripped, thinkParts) = strip_think raw in
      (trim stripped, if thinkParts \<noteq> [] then Some (trim (js_join [CHR 0x0A] thinkParts)) else None))"

record flattened =
  fl_text :: string
  fl_thinking :: "string option"

definition block_parts :: "jsv \<Rightarrow> string list \<times> string list" where
  "block_parts block =
     (if jget block ''type'' = JStr ''text'' then
        (let (t, thinking) = stripInlineThinking (str_of (jget block ''text'')) in
         (if t \<noteq> [] then [t] else [], case thinking of Some th \<Rightarrow> if th \<noteq> [] then [th] else [] | None \<Rightarrow> []))
      else if jget block ''type'' = JStr ''thinking'' then ([], [str_of (jget block ''thinking'')])
      else ([], []))"

definition flattenAssistantMessage :: "jsv \<Rightarrow> flattened" where
  "flattenAssistantMessage message =
     (let parts = map block_parts (elems (jget message ''content''));
          textParts = concat (map fst parts); thinkingParts = concat (map snd parts)
      in \<lparr>fl_text = trim (js_join [CHR 0x0A, CHR 0x0A] (filter (\<lambda>s. s \<noteq> []) textParts)),
          fl_thinking = (if thinkingParts \<noteq> [] then Some (trim (js_join [CHR 0x0A] thinkingParts)) else None)\<rparr>)"

definition model_note :: string where
  "model_note = CHR 0x0A # CHR 0x0A # ''[truncated for model context]''"

definition clampTextForModelContext :: "string \<Rightarrow> nat \<Rightarrow> string" where
  "clampTextForModelContext s maxChars = (if length s \<le> maxChars then s else take (maxChars - 42) s @ model_note)"

definition TOOL_ERROR_PREVIEW_MAX_CHARS :: nat where "TOOL_ERROR_PREVIEW_MAX_CHARS = 240"

definition summarizeToolContent :: "string \<Rightarrow> string" where
  "summarizeToolContent s =
     (let first = (case List.find (\<lambda>l. l \<noteq> []) (map trim (split_on (CHR 0x0A) s)) of
                     Some l \<Rightarrow> l
                   | None \<Rightarrow> if trim s \<noteq> [] then trim s else ''(empty error)'')
      in if TOOL_ERROR_PREVIEW_MAX_CHARS < length first then take TOOL_ERROR_PREVIEW_MAX_CHARS first @ ''...'' else first)"

definition oneLineError :: "string \<Rightarrow> nat \<Rightarrow> string" where
  "oneLineError v maxChars =
     (let line = trim (replace_ws '' '' v) in
      if line = [] then ''unknown provider error''
      else if length line \<le> maxChars then line
      else trim (take (maxChars - 3) line) @ ''...'')"

definition formatProviderRuntimeFailure :: "string \<Rightarrow> string \<Rightarrow> string \<Rightarrow> string \<Rightarrow> string list \<Rightarrow> string" where
  "formatProviderRuntimeFailure provider model endpoint rawError availableModels =
     (let errorText = oneLineError rawError 320;
          endpointHint = (if endpoint \<noteq> [] then '' endpoint='' @ endpoint else []);
          availableModelsHint = (if availableModels \<noteq> [] then '' Available local models: '' @ js_join '', '' (take 8 availableModels) @ ''.'' else []);
          lower = to_lower errorText;
          head = ''Provider request failed ('' @ provider @ ''/'' @ model @ ''). ''
      in if str_includes lower ''405'' then
           head @ ''Received HTTP 405.'' @ endpointHint @ '' Check the base URL: use an API root like .../v1, not .../v1/chat.''
         else if str_includes lower ''openai api key is required'' then
           head @ ''The OpenAI-compatible client requires a non-empty API key value for this request path.'' @ endpointHint
         else if str_includes lower ''no instance found for model'' \<or> str_includes lower ''model'' \<and> str_includes lower ''not found'' then
           head @ ''Model id is not available on the local server.'' @ endpointHint @ availableModelsHint @
           '' Use an exact model id from GET /v1/models.''
         else head @ errorText @ endpointHint)"

section \<open>Instructions\<close>

definition hasTool :: "string list \<Rightarrow> string \<Rightarrow> bool" where
  "hasTool toolNames wanted = list_ex (\<lambda>n. to_lower (trim n) = to_lower (trim wanted)) toolNames"

definition outcome_of :: "bool \<Rightarrow> string \<Rightarrow> tool_outcome \<Rightarrow> bool" where
  "outcome_of err name e \<longleftrightarrow> to_isError e = err \<and> to_lower (trim (to_toolName e)) = name"

definition shouldAttemptWebRecovery :: "(string \<Rightarrow> bool) \<Rightarrow> string list \<Rightarrow> string \<Rightarrow> tool_outcome list \<Rightarrow> bool \<Rightarrow> bool" where
  "shouldAttemptWebRecovery hasSite toolNames userMessage toolOutcomes mfaPending =
     (if mfaPending then False
      else if hasLikelyLoginIntent userMessage \<or> looksLikeSiteVisitIntent hasSite userMessage \<or> looksLikeAccountDashboardIntent userMessage
        then False
      else
        let hasWebSearch = hasTool toolNames ''web_search''; hasWebFetch = hasTool toolNames ''web_fetch'' in
        if \<not> hasWebSearch \<and> \<not> hasWebFetch then False
        else if \<not> rx_test (rx_words [''search'', ''look up'', ''lookup'', ''latest'', ''current'', ''today'', ''news'', ''web'', ''internet'',
                  ''url'', ''website'', ''source'']) userMessage then False
        else if \<not> list_ex (outcome_of True ''browser'') toolOutcomes then False
        else \<not> (hasWebSearch \<and> list_ex (outcome_of False ''web_search'') toolOutcomes) \<and>
             \<not> (hasWebFetch \<and> list_ex (outcome_of False ''web_fetch'') toolOutcomes))"

definition buildWebRecoveryInstruction :: "string list \<Rightarrow> string" where
  "buildWebRecoveryInstruction toolNames =
     (if hasTool toolNames ''web_search'' then
        ''System recovery instruction: Browser interaction failed. For this factual lookup, retry using web_search (and web_fetch as needed), then answer from successful tool outputs only.''
      else if hasTool toolNames ''web_fetch'' then
        ''System recovery instruction: Browser interaction failed. For this factual lookup, use browser action=search/open to locate a relevant URL, then ground the answer with web_fetch output only.''
      else ''System recovery instruction: Browser interaction failed. Retry with a simpler browser path and answer only from successful tool outputs.'')"

definition buildLogoutToolForceInstruction :: string where
  "buildLogoutToolForceInstruction = js_join '' ''
     [''System instruction: this is a logout request for the current website session.'',
      ''Use browser tools now.'',
      ''Steps: 1) capture snapshot of the current tab, 2) locate sign out/log out/logout control, 3) click it, 4) verify logged-out state in the resulting page.'',
      ''Then provide a concise completion message with verified outcome.'']"

definition buildCompletionVerificationInstruction :: string where
  "buildCompletionVerificationInstruction = js_join '' ''
     [''System instruction: do not finalize yet.'',
      ''A state-changing step needs direct post-action verification before any completion claim.'',
      ''Run verification now (for filesystem use explicit existence/list checks; for web/app use snapshot/readback/status evidence), then summarize only verified results.'']"

definition quoted :: "string \<Rightarrow> string" where
  "quoted s = [CHR 0x22] @ s @ [CHR 0x22]"

definition buildAutoMfaFromEmailInstruction :: "string \<Rightarrow> pending_mfa option \<Rightarrow> string" where
  "buildAutoMfaFromEmailInstruction sourceService pending =
     (let tabPart = (case Option.bind pending mf_tabId of Some t \<Rightarrow> '', tabId='' @ quoted t | None \<Rightarrow> []);
          servicePart = (case Option.bind pending mf_service of Some v \<Rightarrow> '', service='' @ quoted v | None \<Rightarrow> [])
      in trim (replace_ws '' '' (js_join '' ''
        [''System instruction: login reached MFA challenge and mailbox access is configured.'',
         ''Use email tool now with action='' @ quoted ''list_unread'' @ '' and service='' @ quoted sourceService @ '' to fetch the latest one-time code.'',
         ''Extract the code, then immediately call browser tool action='' @ quoted ''mfa'' @ '' with that code'',
         tabPart @ servicePart @ ''.'',
         ''If no usable code is found in email, ask the user for the one-time code in one short line and stop.''])))"

definition buildMfaContinuationInstruction :: "string \<Rightarrow> string \<Rightarrow> pending_mfa \<Rightarrow> string" where
  "buildMfaContinuationInstruction userMessage mfaCode pending =
     (let actionLine = trim (js_join '' ''
        [''System instruction: An earlier browser login is waiting for an MFA code.'',
         ''Use browser tool immediately with action='' @ quoted ''mfa'' @ '', code='' @ quoted mfaCode,
         (case mf_tabId pending of Some t \<Rightarrow> '', tabId='' @ quoted t | None \<Rightarrow> []) @ ''.'',
         (case mf_service pending of Some v \<Rightarrow> ''Use service='' @ quoted v @ '' if needed.'' | None \<Rightarrow> []),
         (case mf_mfaSourceService pending of
            Some v \<Rightarrow> ''Prefer MFA inbox source service='' @ quoted v @ '' when a retrieval step is needed.'' | None \<Rightarrow> []),
         ''Do not ask the user to repeat this same code.''])
      in actionLine @ [CHR 0x0A] @ ''Original user message: '' @ userMessage)"

section \<open>Limits\<close>

definition isLikelyLocalProviderEndpoint :: "(string \<Rightarrow> string option) \<Rightarrow> string \<Rightarrow> string \<Rightarrow> bool" where
  "isLikelyLocalProviderEndpoint hostname routeProviderId baseUrl =
     (let providerId = to_lower (trim routeProviderId) in
      if providerId = ''local-openai'' \<or> str_includes providerId ''local'' then True
      else if trim baseUrl = [] then False
      else case hostname (trim baseUrl) of Some h \<Rightarrow> hostLooksLocal h | None \<Rightarrow> False)"

definition DEFAULT_PROVIDER_TIMEOUT_MS :: nat where "DEFAULT_PROVIDER_TIMEOUT_MS = 600000"

definition MIN_PROVIDER_TIMEOUT_MS :: nat where "MIN_PROVIDER_TIMEOUT_MS = 5000"

definition MAX_PROVIDER_TIMEOUT_MS :: nat where "MAX_PROVIDER_TIMEOUT_MS = 86400000"

definition DEFAULT_LOCAL_PROVIDER_TIMEOUT_MS :: nat where "DEFAULT_LOCAL_PROVIDER_TIMEOUT_MS = 1800000"

definition MIN_LOCAL_PROVIDER_TIMEOUT_MS :: nat where "MIN_LOCAL_PROVIDER_TIMEOUT_MS = 60000"

definition resolveProviderTimeoutMs :: "(string \<Rightarrow> string) \<Rightarrow> bool \<Rightarrow> nat" where
  "resolveProviderTimeoutMs env localRoute =
     (case positiveSetting (env ''T560_PROVIDER_TIMEOUT_SEC'') of
        Some q \<Rightarrow> clampSetting MIN_PROVIDER_TIMEOUT_MS MAX_PROVIDER_TIMEOUT_MS (q * 1000)
      | None \<Rightarrow>
     (case positiveSetting (env ''T560_PROVIDER_TIMEOUT_MS'') of
        Some q \<Rightarrow> clampSetting MIN_PROVIDER_TIMEOUT_MS MAX_PROVIDER_TIMEOUT_MS q
      | None \<Rightarrow>
         if localRoute then
           (case positiveSetting (env ''T560_PROVIDER_TIMEOUT_LOCAL_SEC'') of
              Some q \<Rightarrow> clampSetting MIN_LOCAL_PROVIDER_TIMEOUT_MS MAX_PROVIDER_TIMEOUT_MS (q * 1000)
            | None \<Rightarrow>
           (case positiveSetting (env ''T560_PROVIDER_TIMEOUT_LOCAL_MS'') of
              Some q \<Rightarrow> clampSetting MIN_LOCAL_PROVIDER_TIMEOUT_MS MAX_PROVIDER_TIMEOUT_MS q
            | None \<Rightarrow> DEFAULT_LOCAL_PROVIDER_TIMEOUT_MS))
         else DEFAULT_PROVIDER_TIMEOUT_MS))"

definition parseBooleanSetting :: "string \<Rightarrow> bool option" where
  "parseBooleanSetting v =
     (let normalized = to_lower (trim v) in
      if normalized \<in> set [''1'', ''true'', ''yes'', ''on''] then Some True
      else if normalized \<in> set [''0'', ''false'', ''no'', ''off''] then Some False
      else None)"

definition isCompactModeEnabled :: "(string \<Rightarrow> string) \<Rightarrow> bool \<Rightarrow> bool" where
  "isCompactModeEnabled env localRoute =
     (case parseBooleanSetting (env ''T560_SMALL_MODEL_MODE'') of Some b \<Rightarrow> b | None \<Rightarrow> localRoute)"

definition resolveCompactHistoryMessages :: "(string \<Rightarrow> string) \<Rightarrow> nat" where
  "resolveCompactHistoryMessages env =
     (case positiveSetting (env ''T560_SMALL_MODEL_HISTORY_MESSAGES'') of Some q \<Rightarrow> clampSetting 2 20 q | None \<Rightarrow> 10)"

definition above200 :: "string \<Rightarrow> nat option" where
  "above200 raw = (case str_to_num raw of Fin q \<Rightarrow> if 200 < q then Some (nat \<lfloor>q\<rfloor>) else None | _ \<Rightarrow> None)"

definition resolveToolResultContextMaxChars :: "(string \<Rightarrow> string) \<Rightarrow> bool \<Rightarrow> nat" where
  "resolveToolResultContextMaxChars env compactMode =
     (case above200 (env ''T560_TOOL_RESULT_CONTEXT_MAX_CHARS'') of
        Some n \<Rightarrow> n
      | None \<Rightarrow>
         (case (if compactMode then above200 (env ''T560_TOOL_RESULT_CONTEXT_COMPACT_MAX_CHARS'') else None) of
            Some n \<Rightarrow> n
          | None \<Rightarrow> if compactMode then 2500 else 12000))"

definition selectToolsForCompactMode :: "(string \<Rightarrow> bool) \<Rightarrow> 'a agent_tool_scheme list \<Rightarrow> string \<Rightarrow> bool \<Rightarrow> 'a agent_tool_scheme list" where
  "selectToolsForCompactMode hasSite tools message pendingMfa =
     (let needsEmail = (messageLikelyNeedsEmailTool message \<or> pendingMfa);
          needsWeb = (looksLikeLoginIntent message \<or> looksLikeSiteVisitIntent hasSite message \<or> looksLikeAccountDashboardIntent message \<or>
            rx_test (rx_words [''search'', ''look up'', ''lookup'', ''latest'', ''current'', ''today'', ''news'', ''web'', ''internet'', ''url'',
              ''website'', ''source'', ''open'', ''visit'', ''navigate'']) message \<or> pendingMfa);
          needsMemory = rx_test (rx_words [''memory'', ''remember'', ''recall'', ''forget'', ''preference'', ''store this'', ''save this'',
              ''past conversation'']) message
      in filter (\<lambda>tool.
           let normalized = to_lower (trim (tool_name tool)) in
           if \<not> needsMemory \<and> starts_with normalized ''memory_'' then False
           else if \<not> needsWeb \<and> normalized \<in> set [''browser'', ''web_search'', ''web_fetch''] then False
           else if \<not> needsEmail \<and> normalized = ''email'' then False
           else True) tools)"

section \<open>Facts\<close>

lemma length_clampText: "31 \<le> maxChars \<Longrightarrow> length (clampTextForModelContext s maxChars) \<le> maxChars"
proof -
  assume "31 \<le> maxChars"
  moreover have "length model_note = 31" by (simp add: model_note_def)
  ultimately show ?thesis by (auto simp: clampTextForModelContext_def)
qed

lemma context_limit_ge: "200 \<le> resolveToolResultContextMaxChars env compactMode"
proof -
  have "above200 raw = Some n \<Longrightarrow> 200 \<le> n" for raw n
    by (auto simp: above200_def le_nat_iff le_floor_iff split: jnum.splits if_splits)
  then show ?thesis by (auto simp: resolveToolResultContextMaxChars_def split: option.split if_splits)
qed

lemma length_update_le: "length (AList.update k v m) \<le> Suc (length m)"
  by (induction m) auto

text \<open>At most 1024 sessions wait for a code.\<close>

lemma pending_mfa_bounded:
  assumes "length m \<le> MFA_PENDING_SESSION_MAX" "[] \<notin> fst ` set m" "sessionId \<noteq> []"
  shows "length (updatePendingMfaStateFromBrowserTool parseJson now sessionId args outcome m) \<le> MFA_PENDING_SESSION_MAX"
proof -
  have d: "length (AList.delete k m) \<le> MFA_PENDING_SESSION_MAX" for k
    using assms(1) AList.length_delete_le [of k m] by simp
  have "fst (hd (AList.update sessionId e m)) \<noteq> []" for e
    using assms(2,3) by (cases m) (auto simp: image_iff)
  moreover have "length (AList.update sessionId e m) \<le> Suc MFA_PENDING_SESSION_MAX" for e
    using assms(1) length_update_le [of sessionId e m] by simp
  ultimately have "length (rememberMfa sessionId e m) \<le> MFA_PENDING_SESSION_MAX" for e
    by (simp add: rememberMfa_def Let_def le_diff_conv)
  then show ?thesis using d assms(1) unfolding updatePendingMfaStateFromBrowserTool_def Let_def
    by (auto split: option.split)
qed

text \<open>
  Three places where the reading of texts goes wrong. Any message that contains the letters \<open>ls\<close>, \<open>cd\<close> or \<open>cat\<close> counts as one that needs
  tools; a short sentence with a number in it counts as a one-time code; and a shell command sent under the alias \<open>bash\<close>, or in a
  member that only the adapter knows, does not count as a change of state.
\<close>

theorem else_forces_tools: "requestLikelyNeedsTools ''anything else?''"
  by code_simp

theorem sentence_taken_for_code: "extractLikelyOneTimeCode ''call 911 now'' = Some ''call911now''"
  by code_simp

theorem alias_escapes_verification:
  "normalizeToolName ''bash'' = ''exec'' \<and>
   toolCallMutatesState ''exec'' (JObj [(''command'', JStr ''rm -rf build'')]) \<and>
   \<not> toolCallMutatesState ''bash'' (JObj [(''command'', JStr ''rm -rf build'')]) \<and>
   \<not> toolCallMutatesState ''exec'' (JObj [(''script'', JStr ''rm -rf build'')])"
  by code_simp

end
