(* ===== verification/Agent_Loop.thy ===== *)
theory Agent_Loop
  imports Run_Helpers Session_Store
begin

text \<open>
  The provider loop, \<open>chatWithProvider\<close> of \<open>provider/run.ts\<close>: the automatic login, the rounds of requests and tool calls with the
  purchase guard, the follow-up instructions, the final request and the message the user gets. The state is a
  record of the variables of the function together with the sessions of the module (one-time codes, purchases), the world and
  a history of requests, events and executed calls. The provider, the tools and the texts are arguments.
  A run makes a bounded number of requests; a purchase is never executed without the user's standing confirmation;
  what the model says is not shown while a change is unverified.
\<close>

section \<open>State\<close>

record loop_request =
  rq_tools :: "tool_definition list"
  rq_messages :: "jsv list"

text \<open>
  The last four fields are history, which no step reads: the requests, the events, the calls of the model that were executed, with the
  arguments the guard saw, its state and the time, and every tool call that was run, with its name, arguments and whether it failed.
\<close>

record executed_call =
  xq_call :: tool_call
  xq_guardArgs :: jsv
  xq_sessions :: checkout_sessions
  xq_time :: int

record 'w loop_state =
  ls_world :: 'w
  ls_messages :: "jsv list"
  ls_allToolCalls :: "string list"
  ls_outcomes :: "tool_outcome list"
  ls_needed :: bool
  ls_satisfied :: bool
  ls_verifyPromptSent :: bool
  ls_login :: "login_state option"
  ls_identityRetries :: nat
  ls_recoveryPromptSent :: bool
  ls_finalizationPromptSent :: bool
  ls_emptyPromptSent :: bool
  ls_forceWait :: bool
  ls_lastAssistant :: "jsv option"
  ls_blocked :: "string option"
  ls_guardrail :: "string option"
  ls_streak :: nat
  ls_timedOut :: "string list"
  ls_challengeKeys :: "string list"
  ls_synthetic :: nat
  ls_progressCount :: nat
  ls_mfa :: mfa_sessions
  ls_checkout :: checkout_sessions
  ls_requests :: "loop_request list"
  ls_events :: "agent_event list"
  ls_executed :: "executed_call list"
  ls_runs :: "(string \<times> jsv \<times> bool) list"

record 'w loop_env =
  e_tools :: "'w agent_tool_impl list"
  e_toolDefinitions :: "tool_definition list"
  e_normalizeParameters :: "tool_definition list \<Rightarrow> tool_definition list"
  e_systemPrompt :: string
  e_sessionId :: string
  e_channel :: string
  e_message :: string
  e_provider :: string
  e_model :: string
  e_endpoint :: string
  e_discoveredModels :: "string list"
  e_compactMode :: bool
  e_forceToolUse :: bool
  e_smallTalk :: bool
  e_emailAlways :: bool
  e_pendingMfa :: bool
  e_autoAuthIntent :: bool
  e_savedService :: "string option"
  e_lookupService :: "'w \<Rightarrow> string option"
  e_historyLimit :: nat
  e_toolLimit :: nat
  e_providerLimit :: nat
  e_contextMax :: nat
  e_synthProgress :: bool
  e_homedir :: string
  e_cwd :: string
  e_complete :: "tool_definition list \<Rightarrow> jsv list \<Rightarrow> 'w \<Rightarrow> (nat option \<times> (string + jsv)) \<times> 'w"
  e_clock :: "'w \<Rightarrow> int"
  e_parseJson :: "string \<Rightarrow> jsv option"
  e_parseUrl :: "string \<Rightarrow> string option"
  e_hostname :: "string \<Rightarrow> string option"
  e_hasSite :: "string \<Rightarrow> bool"
  e_targetUrl :: "string option"
  e_serviceUrl :: "string \<Rightarrow> string option"
  e_credential :: "string \<Rightarrow> 'w \<Rightarrow> string + bool"
  e_emailCode :: "string \<Rightarrow> string option"
  e_identityQuestion :: bool
  e_grounded :: "string \<Rightarrow> bool"
  e_groundingInstruction :: string
  e_stripLeak :: "string \<Rightarrow> string"
  e_asksIdentifier :: "string \<Rightarrow> bool"
  e_refusedOtp :: "string \<Rightarrow> bool"
  e_reminder :: "string \<Rightarrow> string option"
  e_argsProgress :: "string \<Rightarrow> jsv \<Rightarrow> string option"
  e_outcomeProgress :: "string \<Rightarrow> call_result \<Rightarrow> string option"
  e_assistantProgress :: "string \<Rightarrow> string option"
  e_progressLine :: "string \<Rightarrow> string option"
  e_fallbackMessage :: "tool_outcome list \<Rightarrow> tool_outcome list \<Rightarrow> string"

definition MAX_TOOL_ROUNDS :: nat where "MAX_TOOL_ROUNDS = 20"

definition COMPACT_MODE_MAX_TOOL_ROUNDS :: nat where "COMPACT_MODE_MAX_TOOL_ROUNDS = 8"

definition LIVE_PROGRESS_LINES_PER_ROUND :: nat where "LIVE_PROGRESS_LINES_PER_ROUND = 8"

definition maxToolRounds :: "'w loop_env \<Rightarrow> nat" where
  "maxToolRounds env = (if e_compactMode env then COMPACT_MODE_MAX_TOOL_ROUNDS else MAX_TOOL_ROUNDS)"

section \<open>Messages and events\<close>

definition now_of :: "'w loop_env \<Rightarrow> 'w loop_state \<Rightarrow> int" where
  "now_of env st = e_clock env (ls_world st)"

definition pushMessage :: "jsv \<Rightarrow> 'w loop_state \<Rightarrow> 'w loop_state" where
  "pushMessage m st = st\<lparr>ls_messages := ls_messages st @ [m]\<rparr>"

definition userMessage :: "int \<Rightarrow> string \<Rightarrow> jsv" where
  "userMessage now s = JObj [(''role'', JStr ''user''), (''content'', JStr s), (''timestamp'', JNum (Fin (of_int now)))]"

definition pushInstruction :: "'w loop_env \<Rightarrow> string \<Rightarrow> 'w loop_state \<Rightarrow> 'w loop_state" where
  "pushInstruction env s st = pushMessage (userMessage (now_of env st) s) st"

definition toolResultMessage :: "int \<Rightarrow> tool_call \<Rightarrow> string \<Rightarrow> bool \<Rightarrow> jsv" where
  "toolResultMessage now call s isErr =
     JObj [(''role'', JStr ''toolResult''), (''toolCallId'', JStr (tc_id call)), (''toolName'', JStr (tc_name call)),
           (''content'', JArr [JObj [(''type'', JStr ''text''), (''text'', JStr s)]]), (''isError'', JBool isErr),
           (''timestamp'', JNum (Fin (of_int now)))]"

definition scope_of :: "'w loop_env \<Rightarrow> 'w loop_state \<Rightarrow> event_scope" where
  "scope_of env st = \<lparr>es_sessionId = e_sessionId env, es_channel = e_channel env, es_timestamp = now_of env st,
     es_synthProgress = e_synthProgress env, es_homedir = e_homedir env, es_cwd = e_cwd env\<rparr>"

definition emit :: "agent_event list \<Rightarrow> 'w loop_state \<Rightarrow> 'w loop_state" where
  "emit evs st = st\<lparr>ls_events := ls_events st @ evs\<rparr>"

definition emitAssistantProgress :: "'w loop_env \<Rightarrow> string \<Rightarrow> string \<Rightarrow> 'w loop_state \<Rightarrow> 'w loop_state" where
  "emitAssistantProgress env phase s st =
     (if trim s = [] then st else emit [eventOf (scope_of env st) (AssistantStream phase (trim s))] st)"

definition emitRoundProgress :: "'w loop_env \<Rightarrow> string \<Rightarrow> string \<Rightarrow> 'w loop_state \<Rightarrow> 'w loop_state" where
  "emitRoundProgress env phase s st =
     (if LIVE_PROGRESS_LINES_PER_ROUND \<le> ls_progressCount st then st
      else case e_progressLine env s of
             None \<Rightarrow> st
           | Some l \<Rightarrow> (emitAssistantProgress env phase l st)\<lparr>ls_progressCount := Suc (ls_progressCount st)\<rparr>)"

definition emitIf :: "('w loop_state \<Rightarrow> string \<Rightarrow> 'w loop_state) \<Rightarrow> string option \<Rightarrow> 'w loop_state \<Rightarrow> 'w loop_state" where
  "emitIf f v st = (case v of Some s \<Rightarrow> if s \<noteq> [] then f st s else st | None \<Rightarrow> st)"

section \<open>Requests\<close>

definition promptHasIdentity :: "string \<Rightarrow> string option" where
  "promptHasIdentity prompt =
     (if \<not> str_includes (to_lower prompt) ''<assistant_soul>'' then Some ''Provider system prompt missing injected assistant soul block.''
      else if \<not> str_includes (to_lower prompt) ''<user_profile>'' then Some ''Provider system prompt missing injected user profile block.''
      else None)"

definition providerTimeoutMessage :: "'w loop_env \<Rightarrow> string" where
  "providerTimeoutMessage env =
     ''Provider request timed out after '' @ nat_to_string (round_div (e_providerLimit env) 1000) @ ''s.'' @
     (if e_endpoint env \<noteq> [] then '' endpoint='' @ e_endpoint env else [])"

definition requestAssistant :: "'w loop_env \<Rightarrow> tool_definition list \<Rightarrow> 'w loop_state \<Rightarrow> (string + jsv) \<times> 'w loop_state" where
  "requestAssistant env tools st =
     (case promptHasIdentity (e_systemPrompt env) of
        Some e \<Rightarrow> (Inl e, st)
      | None \<Rightarrow>
         (case e_complete env tools (ls_messages st) (ls_world st) of ((t, answer), w) \<Rightarrow>
            let st' = st\<lparr>ls_world := w, ls_requests := ls_requests st @ [\<lparr>rq_tools = tools, rq_messages = ls_messages st\<rparr>]\<rparr> in
            if (case t of Some n \<Rightarrow> n < e_providerLimit env | None \<Rightarrow> False) then (answer, st')
            else (Inl (providerTimeoutMessage env), st')))"

section \<open>Tools\<close>

definition signalVerification :: "string \<Rightarrow> jsv \<Rightarrow> bool \<Rightarrow> bool \<times> bool \<times> bool \<Rightarrow> bool \<times> bool \<times> bool" where
  "signalVerification toolName args isErr flags =
     (case flags of (needed, satisfied, promptSent) \<Rightarrow>
        if isErr then flags
        else if to_lower (trim toolName) = [] then flags
        else
          let (n1, s1, p1) = (if toolCallMutatesState (to_lower (trim toolName)) args then (True, False, False) else flags)
          in (n1, if n1 \<and> toolCallVerifiesState (to_lower (trim toolName)) args then True else s1, p1))"

definition registerCompletionVerificationSignal :: "string \<Rightarrow> jsv \<Rightarrow> bool \<Rightarrow> 'w loop_state \<Rightarrow> 'w loop_state" where
  "registerCompletionVerificationSignal toolName args isErr st =
     (case signalVerification toolName args isErr (ls_needed st, ls_satisfied st, ls_verifyPromptSent st) of (n, s, p) \<Rightarrow>
        st\<lparr>ls_needed := n, ls_satisfied := s, ls_verifyPromptSent := p\<rparr>)"

text \<open>A call under the time limit; its events, its outcome and its effect on the world.\<close>

definition runTool :: "'w loop_env \<Rightarrow> tool_call \<Rightarrow> 'w loop_state \<Rightarrow> call_result \<times> 'w loop_state" where
  "runTool env call st =
     (case executeToolCall (of_int (now_of env st)) (e_tools env) call (ls_world st) of (tr, w) \<Rightarrow>
        (case runToolCall (scope_of env st) (e_toolLimit env) (ls_timedOut st) call tr of (evs, outcome, timedOut) \<Rightarrow>
           (outcome, (emit evs st)\<lparr>ls_world := w, ls_timedOut := timedOut,
              ls_runs := ls_runs st @ [(tc_name call, tc_arguments call, cr_isError outcome)]\<rparr>)))"

definition pushOutcome :: "string \<Rightarrow> call_result \<Rightarrow> 'w loop_state \<Rightarrow> 'w loop_state" where
  "pushOutcome name outcome st =
     st\<lparr>ls_outcomes := ls_outcomes st @ [\<lparr>to_toolName = name, to_isError = cr_isError outcome, to_content = cr_content outcome\<rparr>]\<rparr>"

definition updateMfa :: "'w loop_env \<Rightarrow> jsv \<Rightarrow> call_result \<Rightarrow> 'w loop_state \<Rightarrow> 'w loop_state" where
  "updateMfa env args outcome st =
     st\<lparr>ls_mfa := updatePendingMfaStateFromBrowserTool (e_parseJson env) (now_of env st) (e_sessionId env) args outcome (ls_mfa st)\<rparr>"

definition noteLogin :: "'w loop_env \<Rightarrow> call_result \<Rightarrow> 'w loop_state \<Rightarrow> 'w loop_state" where
  "noteLogin env outcome st =
     (case parseBrowserLoginState (e_parseJson env) (cr_content outcome) of
        Some l \<Rightarrow> st\<lparr>ls_login := Some l\<rparr>
      | None \<Rightarrow> st)"

text \<open>Whether a result shows a challenge for a human, and the key of its tab.\<close>

definition challengeTab :: "'w loop_env \<Rightarrow> jsv \<Rightarrow> call_result \<Rightarrow> string option" where
  "challengeTab env toolArgs outcome =
     (let args = (if is_object toolArgs then toolArgs else JObj []);
          action = normalizeBrowserActionName (jget args ''action'');
          (detected, tab) = parseBrowserChallengeState (e_parseJson env) (cr_content outcome);
          looksLikeChallengeError = (cr_isError outcome \<and> action \<in> set [''login'', ''challenge'', ''open'', ''click'', ''act''] \<and>
            outcomeLooksLikeHumanVerificationError (cr_content outcome))
      in if \<not> detected \<and> \<not> looksLikeChallengeError then None
         else Some (trim (to_str (coalesce (jget args ''tabId'') (JStr (case tab of Some t \<Rightarrow> t | None \<Rightarrow> []))))))"

definition tabKey :: "string \<Rightarrow> string" where
  "tabKey tabIdRaw = (if tabIdRaw \<noteq> [] then ''tab:'' @ tabIdRaw else ''tab:active'')"

definition screenshotArgs :: "string \<Rightarrow> jsv" where
  "screenshotArgs tabIdRaw = JObj ([(''action'', JStr ''screenshot'')] @ member_if (tabIdRaw \<noteq> []) ''tabId'' (JStr tabIdRaw) @
     [(''engine'', JStr ''live''), (''allowEngineFallback'', JBool True), (''reason'', JStr ''captcha_challenge'')])"

text \<open>
  \<open>runSyntheticToolCall\<close> and \<open>maybeCaptureCaptchaScreenshotForTelegram\<close> call each other: a challenge makes a screenshot, whose result may show
  a challenge. The number bounds the nesting; two levels are enough, since a screenshot names its tab.
\<close>

definition syntheticCall :: "'w loop_env \<Rightarrow> string \<Rightarrow> jsv \<Rightarrow> 'w loop_state \<Rightarrow> tool_call" where
  "syntheticCall env toolName args st =
     \<lparr>tc_id = ''auto-'' @ int_to_string (now_of env st) @ ''-'' @ nat_to_string (ls_synthetic st), tc_name = toolName, tc_arguments = args\<rparr>"

definition beginSynthetic :: "'w loop_env \<Rightarrow> string \<Rightarrow> jsv \<Rightarrow> 'w loop_state \<Rightarrow> call_result \<times> 'w loop_state" where
  "beginSynthetic env toolName args st =
     (let call = syntheticCall env toolName args st;
          name = to_lower (trim toolName);
          st1 = emitIf (\<lambda>s l. emitAssistantProgress env ''pretool'' l s) (e_argsProgress env name args) (st\<lparr>ls_synthetic := Suc (ls_synthetic st)\<rparr>);
          (outcome, st2) = runTool env call st1;
          st3 = registerCompletionVerificationSignal toolName args (cr_isError outcome)
                  (pushOutcome toolName outcome (st2\<lparr>ls_allToolCalls := ls_allToolCalls st2 @ [toolName]\<rparr>));
          st4 = emitIf (\<lambda>s l. emitAssistantProgress env ''progress'' l s) (e_outcomeProgress env name outcome) st3
      in (outcome, if name = ''browser'' then updateMfa env args outcome st4 else st4))"

definition endSynthetic :: "'w loop_env \<Rightarrow> string \<Rightarrow> jsv \<Rightarrow> call_result \<Rightarrow> 'w loop_state \<Rightarrow> 'w loop_state" where
  "endSynthetic env toolName args outcome st =
     (if to_lower (trim toolName) = ''browser'' \<and> \<not> cr_isError outcome \<and> action_of args = ''login'' then noteLogin env outcome st else st)"

fun captureScreenshot :: "nat \<Rightarrow> 'w loop_env \<Rightarrow> jsv \<Rightarrow> call_result \<Rightarrow> 'w loop_state \<Rightarrow> 'w loop_state" where
  "captureScreenshot 0 env toolArgs outcome st = st"
| "captureScreenshot (Suc depth) env toolArgs outcome st =
     (if e_channel env \<noteq> ''telegram'' then st
      else case challengeTab env toolArgs outcome of
        None \<Rightarrow> st
      | Some tabIdRaw \<Rightarrow>
          if tabKey tabIdRaw \<in> set (ls_challengeKeys st) then st
          else
            let args = screenshotArgs tabIdRaw;
                (shot, st1) = beginSynthetic env ''browser'' args (st\<lparr>ls_challengeKeys := ls_challengeKeys st @ [tabKey tabIdRaw]\<rparr>)
            in endSynthetic env ''browser'' args shot (captureScreenshot depth env args shot st1))"

definition CAPTURE_DEPTH :: nat where "CAPTURE_DEPTH = 2"

definition runSyntheticToolCall :: "'w loop_env \<Rightarrow> string \<Rightarrow> jsv \<Rightarrow> 'w loop_state \<Rightarrow> call_result \<times> 'w loop_state" where
  "runSyntheticToolCall env toolName args st =
     (let (outcome, st1) = beginSynthetic env toolName args st;
          st2 = (if to_lower (trim toolName) = ''browser'' then captureScreenshot CAPTURE_DEPTH env args outcome st1 else st1)
      in (outcome, endSynthetic env toolName args outcome st2))"

section \<open>The automatic login\<close>

definition openArgs :: "string \<Rightarrow> jsv" where
  "openArgs url = JObj [(''action'', JStr ''open''), (''url'', JStr url), (''engine'', JStr ''live''), (''allowEngineFallback'', JBool True)]"

definition loginArgs :: "string \<Rightarrow> jsv" where
  "loginArgs service = JObj [(''action'', JStr ''login''), (''service'', JStr service), (''engine'', JStr ''live''), (''allowEngineFallback'', JBool True)]"

definition emailArgs :: "string \<Rightarrow> string \<Rightarrow> jsv" where
  "emailArgs action service = JObj [(''action'', JStr action), (''service'', JStr service), (''limit'', JNum (Fin 8)), (''includeBody'', JBool True),
     (''markSeen'', JBool False)]"

definition mfaArgs :: "string \<Rightarrow> pending_mfa option \<Rightarrow> jsv" where
  "mfaArgs code pending = JObj ([(''action'', JStr ''mfa''), (''code'', JStr code)] @
     (case Option.bind pending mf_tabId of Some t \<Rightarrow> [(''tabId'', JStr t)] | None \<Rightarrow> []) @
     (case Option.bind pending mf_service of Some v \<Rightarrow> [(''service'', JStr v)] | None \<Rightarrow> []) @
     [(''engine'', JStr ''live''), (''allowEngineFallback'', JBool True)])"

text \<open>The mailbox is read until a code is found.\<close>

fun readCode :: "'w loop_env \<Rightarrow> string \<Rightarrow> string list \<Rightarrow> 'w loop_state \<Rightarrow> string option \<times> 'w loop_state" where
  "readCode env service [] st = (None, st)"
| "readCode env service (action # actions) st =
     (let (outcome, st1) = runSyntheticToolCall env ''email'' (emailArgs action service) st in
      if cr_isError outcome then readCode env service actions st1
      else case e_emailCode env (cr_content outcome) of
             Some c \<Rightarrow> if c \<noteq> [] then (Some c, st1) else readCode env service actions st1
           | None \<Rightarrow> readCode env service actions st1)"

definition toolNames :: "'w loop_env \<Rightarrow> string list" where
  "toolNames env = map tool_name (e_tools env)"

definition autoMfa :: "'w loop_env \<Rightarrow> call_result \<Rightarrow> 'w loop_state \<Rightarrow> 'w loop_state" where
  "autoMfa env outcome st =
     (let mfaState = parseBrowserMfaState (e_parseJson env) (cr_content outcome) in
      if \<not> ms_requiresMfa mfaState then st
      else
        let pendingAfterLogin = map_of (ls_mfa st) (e_sessionId env);
            (resolvedCode, st1) =
              (case ms_sourceService mfaState of
                 Some service \<Rightarrow>
                   if ms_credentialAvailable mfaState \<and> hasTool (toolNames env) ''email''
                   then readCode env service [''list_unread'', ''read_recent''] st else (None, st)
               | None \<Rightarrow> (None, st));
            st2 = (case resolvedCode of
                     Some code \<Rightarrow> snd (runSyntheticToolCall env ''browser'' (mfaArgs code pendingAfterLogin) st1)
                   | None \<Rightarrow> st1)
        in if map_of (ls_mfa st2) (e_sessionId env) \<noteq> None then st2\<lparr>ls_forceWait := True\<rparr> else st2)"

definition autoLogin :: "'w loop_env \<Rightarrow> 'w loop_state \<Rightarrow> bool \<times> 'w loop_state" where
  "autoLogin env st =
     (case e_savedService env of
        Some service \<Rightarrow>
          if \<not> e_pendingMfa env \<and> service \<noteq> [] \<and> e_autoAuthIntent env then
            let targetUrl = (case e_targetUrl env of Some u \<Rightarrow> if u \<noteq> [] then Some u else e_serviceUrl env service | None \<Rightarrow> e_serviceUrl env service);
                st1 = (case targetUrl of
                         Some url \<Rightarrow> if url \<noteq> [] then snd (runSyntheticToolCall env ''browser'' (openArgs url) st) else st
                       | None \<Rightarrow> st);
                (outcome, st2) = runSyntheticToolCall env ''browser'' (loginArgs service) st1
            in if cr_isError outcome then (False, st2) else (True, autoMfa env outcome (noteLogin env outcome st2))
          else (False, st)
      | None \<Rightarrow> (False, st))"

definition NOT_SUBMITTED_NOTE :: string where
  "NOT_SUBMITTED_NOTE = js_join '' ''
     [''System instruction: vault login filled the identifier but code request is not confirmed as submitted yet.'',
      ''Continue in browser on current tab and trigger the non-social email/code submit action.'',
      ''Do not ask for credentials; ask only for one-time code after submission is confirmed.'']"

definition AUTO_LOGIN_NOTE :: string where
  "AUTO_LOGIN_NOTE = js_join '' ''
     [''System instruction: Automatic vault-backed browser login steps have already run in runtime for this request.'',
      ''Continue from the current browser tab/session and do not ask the user for credentials.'',
      ''If MFA is encountered, request only the one-time code or use configured mailbox retrieval.'']"

definition afterAutoLogin :: "'w loop_env \<Rightarrow> bool \<Rightarrow> 'w loop_state \<Rightarrow> 'w loop_state" where
  "afterAutoLogin env succeeded st =
     (let st1 = (case ls_login st of
                   Some l \<Rightarrow> if succeeded \<and> \<not> lg_submitted l \<and> lg_mfaExpected l then pushInstruction env NOT_SUBMITTED_NOTE st else st
                 | None \<Rightarrow> st)
      in if succeeded \<and> \<not> ls_forceWait st1 then pushInstruction env AUTO_LOGIN_NOTE st1 else st1)"

section \<open>A round\<close>

definition callsOf :: "jsv \<Rightarrow> tool_call list" where
  "callsOf assistant =
     map (\<lambda>b. \<lparr>tc_id = str_of (jget b ''id''), tc_name = str_of (jget b ''name''), tc_arguments = jget b ''arguments''\<rparr>)
       (filter (\<lambda>b. jget b ''type'' = JStr ''toolCall'') (elems (jget assistant ''content'')))"

definition roundPhase :: "nat \<Rightarrow> string" where
  "roundPhase rnd = (if rnd = 0 then ''pretool'' else ''progress'')"

text \<open>The guard decides; a blocked call is reported, an allowed one is run.\<close>

definition guardedRun :: "'w loop_env \<Rightarrow> tool_call \<Rightarrow> 'w loop_state \<Rightarrow> call_result \<times> 'w loop_state" where
  "guardedRun env call st =
     (let guardArgs = enrichCheckoutArgsWithPageContext (e_parseJson env) (e_parseUrl env) (tc_name call) (tc_arguments call) (ls_outcomes st);
          now = now_of env st;
          (decision, sessions) = enforceCheckoutWorkflow now (e_sessionId env) (tc_name call) guardArgs (ls_checkout st)
      in case decision of
           Blocked message _ \<Rightarrow>
             (\<lparr>cr_isError = True, cr_content = message\<rparr>,
              emit (handleToolExecutionStart (scope_of env st) (tc_id call) (tc_name call) (if is_object (tc_arguments call) then tc_arguments call else JObj []) @
                    handleToolExecutionEnd (scope_of env st) (tc_id call) (tc_name call) (JStr message) (Some message))
                (st\<lparr>ls_checkout := sessions, ls_blocked := Some message\<rparr>))
         | Allowed _ _ \<Rightarrow>
             runTool env call
               (st\<lparr>ls_executed := ls_executed st @ [\<lparr>xq_call = call, xq_guardArgs = guardArgs, xq_sessions = ls_checkout st, xq_time = now\<rparr>],
                   ls_checkout := sessions\<rparr>))"

text \<open>What follows a browser call; the flag tells whether the calls of the round end here, which a login that needs a code does.\<close>

definition afterBrowser :: "'w loop_env \<Rightarrow> tool_call \<Rightarrow> call_result \<Rightarrow> 'w loop_state \<Rightarrow> 'w loop_state \<times> bool" where
  "afterBrowser env call outcome st =
     (let st1 = captureScreenshot CAPTURE_DEPTH env (tc_arguments call) outcome (updateMfa env (tc_arguments call) outcome st) in
      if \<not> cr_isError outcome \<and> action_of (tc_arguments call) = ''login'' then
        let st2 = noteLogin env outcome st1; mfaState = parseBrowserMfaState (e_parseJson env) (cr_content outcome) in
        if \<not> ms_requiresMfa mfaState then (st2, False)
        else
          (case ms_sourceService mfaState of
             Some service \<Rightarrow>
               if ms_credentialAvailable mfaState \<and> hasTool (toolNames env) ''email''
               then (pushInstruction env (buildAutoMfaFromEmailInstruction service (map_of (ls_mfa st2) (e_sessionId env))) st2, True)
               else (st2\<lparr>ls_forceWait := True\<rparr>, True)
           | None \<Rightarrow> (st2\<lparr>ls_forceWait := True\<rparr>, True))
      else (st1, False))"

definition reminderText :: "string \<Rightarrow> string \<Rightarrow> string" where
  "reminderText name reminder = js_join [CHR 0x0A]
     [''System instruction: tool '' @ quoted name @ '' was just used.'', ''Continue by following this tool-specific guidance:'', reminder]"

definition GUARDRAIL_MESSAGE :: string where
  "GUARDRAIL_MESSAGE = ''I stopped after repeated tool failures to protect the local runtime. Tell me one narrower next step and I will continue.''"

definition finishCall :: "'w loop_env \<Rightarrow> tool_call \<Rightarrow> call_result \<Rightarrow> 'w loop_state \<Rightarrow> 'w loop_state \<times> bool" where
  "finishCall env call outcome st =
     (let name = to_lower (trim (tc_name call));
          st1 = pushMessage (toolResultMessage (now_of env st) call (clampTextForModelContext (cr_content outcome) (e_contextMax env)) (cr_isError outcome)) st;
          st2 = emitIf (\<lambda>s r. pushInstruction env (reminderText name r) s) (e_reminder env name) st1;
          st3 = (if e_compactMode env then st2\<lparr>ls_streak := (if cr_isError outcome then Suc (ls_streak st2) else 0)\<rparr> else st2)
      in if e_compactMode env \<and> 3 \<le> ls_streak st3 then (st3\<lparr>ls_guardrail := Some GUARDRAIL_MESSAGE\<rparr>, True)
         else (st3, ls_blocked st3 \<noteq> None))"

definition runModelCall :: "'w loop_env \<Rightarrow> nat \<Rightarrow> tool_call \<Rightarrow> 'w loop_state \<Rightarrow> 'w loop_state \<times> bool" where
  "runModelCall env rnd call st =
     (let name = to_lower (trim (tc_name call));
          st1 = emitIf (\<lambda>s l. emitRoundProgress env (roundPhase rnd) l s) (e_argsProgress env name (tc_arguments call)) st;
          (outcome, st2) = guardedRun env call (st1\<lparr>ls_allToolCalls := ls_allToolCalls st1 @ [tc_name call]\<rparr>);
          st3 = registerCompletionVerificationSignal (tc_name call) (toToolArgsRecord (tc_arguments call)) (cr_isError outcome)
                  (pushOutcome (tc_name call) outcome st2);
          st4 = emitIf (\<lambda>s l. emitRoundProgress env ''progress'' l s) (e_outcomeProgress env name outcome) st3;
          (st5, ended) = (if name = ''browser'' then afterBrowser env call outcome st4 else (st4, False))
      in if ended then (st5, True) else finishCall env call outcome st5)"

fun runModelCalls :: "'w loop_env \<Rightarrow> nat \<Rightarrow> tool_call list \<Rightarrow> 'w loop_state \<Rightarrow> 'w loop_state" where
  "runModelCalls env rnd [] st = st"
| "runModelCalls env rnd (call # calls) st =
     (let (st', stop) = runModelCall env rnd call st in if stop then st' else runModelCalls env rnd calls st')"

section \<open>An answer without tool calls\<close>

definition siteIntent :: "'w loop_env \<Rightarrow> bool" where
  "siteIntent env \<longleftrightarrow> looksLikeLoginIntent (e_message env) \<or> looksLikeAccountDashboardIntent (e_message env) \<or>
     looksLikeSiteVisitIntent (e_hasSite env) (e_message env)"

definition seenService :: "'w loop_env \<Rightarrow> 'w loop_state \<Rightarrow> string + string option" where
  "seenService env st =
     resolveSavedServiceFromBrowserOutcomes (e_parseJson env) (e_hostname env) (\<lambda>s. e_credential env s (ls_world st)) (ls_outcomes st)"

text \<open>The service of the message, else the one of the pages that were seen; \<open>None\<close> when there is none or its name is empty.\<close>

definition savedServiceNow :: "'w loop_env \<Rightarrow> bool \<Rightarrow> 'w loop_state \<Rightarrow> string + string option" where
  "savedServiceNow env seen st =
     (case e_savedService env of
        Some s \<Rightarrow> if s \<noteq> [] then Inr (Some s) else if seen then seenService env st else Inr None
      | None \<Rightarrow> if seen then seenService env st else Inr None)"

definition credentialsNote :: "string \<Rightarrow> string" where
  "credentialsNote service = js_join '' ''
     [''System instruction: secure credentials already exist for the current site.'',
      ''Do not ask the user for email, username, or password.'',
      ''Immediately call browser action='' @ quoted ''login'' @ '' with service='' @ quoted service @ '' on the current tab and fill identifier from vault.'',
      ''If MFA is required, ask only for the one-time code.'']"

definition FINAL_ANSWER_NOTE :: string where
  "FINAL_ANSWER_NOTE = ''System instruction: provide the final user-facing answer now using only verified tool results already produced in this session. Do not call tools. Include the best direct URL when available.''"

definition emptyNote :: "'w loop_env \<Rightarrow> string" where
  "emptyNote env =
     (if e_forceToolUse env \<and> hasLikelyLogoutIntent (e_message env) then buildLogoutToolForceInstruction
      else if e_forceToolUse env then
        ''System instruction: your previous response was empty. Execute the required tools now, then provide a complete user-facing answer.''
      else ''System instruction: your previous response was empty. Provide a complete, non-empty user-facing answer now.'')"

definition forceNote :: "'w loop_env \<Rightarrow> string" where
  "forceNote env =
     (if hasLikelyLogoutIntent (e_message env) then buildLogoutToolForceInstruction
      else ''System instruction: this request requires real tool execution. Use tools now and only report verified outcomes from tool results.'')"

text \<open>\<open>Some\<close>: an instruction was added and the next round starts; \<open>None\<close>: the answer stands.\<close>

definition askFurther :: "'w loop_env \<Rightarrow> nat \<Rightarrow> string \<Rightarrow> 'w loop_state \<Rightarrow> 'w loop_state option" where
  "askFurther env rnd answer st =
     (if \<not> ls_satisfied st \<and> \<not> ls_verifyPromptSent st then
        Some (pushInstruction env buildCompletionVerificationInstruction (st\<lparr>ls_verifyPromptSent := True\<rparr>))
      else if answer = [] \<and> \<not> ls_emptyPromptSent st then
        Some (pushInstruction env (emptyNote env) (st\<lparr>ls_emptyPromptSent := True\<rparr>))
      else if answer = [] \<and> \<not> ls_finalizationPromptSent st \<and> ls_allToolCalls st \<noteq> [] then
        Some (pushInstruction env FINAL_ANSWER_NOTE (st\<lparr>ls_finalizationPromptSent := True\<rparr>))
      else if rnd = 0 \<and> e_forceToolUse env then Some (pushInstruction env (forceNote env) st)
      else if \<not> ls_recoveryPromptSent st \<and>
          shouldAttemptWebRecovery (e_hasSite env) (toolNames env) (e_message env) (ls_outcomes st) (map_of (ls_mfa st) (e_sessionId env) \<noteq> None) then
        Some (pushInstruction env (buildWebRecoveryInstruction (toolNames env)) (st\<lparr>ls_recoveryPromptSent := True\<rparr>))
      else None)"

text \<open>\<open>Inl\<close>: the look for a saved login threw.\<close>

definition askAgain :: "'w loop_env \<Rightarrow> nat \<Rightarrow> string \<Rightarrow> 'w loop_state \<Rightarrow> string + 'w loop_state option" where
  "askAgain env rnd answer st =
     (if e_identityQuestion env \<and> ls_identityRetries st < 2 \<and> \<not> e_grounded env answer then
        Inr (Some (pushInstruction env (e_groundingInstruction env) (st\<lparr>ls_identityRetries := Suc (ls_identityRetries st)\<rparr>)))
      else
        case (if siteIntent env \<and> e_asksIdentifier env answer then savedServiceNow env (ls_allToolCalls st \<noteq> []) st else Inr None) of
          Inl e \<Rightarrow> Inl e
        | Inr (Some service) \<Rightarrow>
            if service \<noteq> [] then Inr (Some (pushInstruction env (credentialsNote service) st)) else Inr (askFurther env rnd answer st)
        | Inr None \<Rightarrow> Inr (askFurther env rnd answer st))"

section \<open>The rounds\<close>

datatype 'w round_result = Continue "'w loop_state" | Stop "'w loop_state" | Failed string "'w loop_state"

definition playRound :: "'w loop_env \<Rightarrow> nat \<Rightarrow> 'w loop_state \<Rightarrow> 'w round_result" where
  "playRound env rnd st =
     (case requestAssistant env (if ls_finalizationPromptSent st then [] else e_toolDefinitions env) (st\<lparr>ls_progressCount := 0\<rparr>) of
        (Inl e, st1) \<Rightarrow> Failed e st1
      | (Inr assistant, st1) \<Rightarrow>
          let st2 = (pushMessage assistant st1)\<lparr>ls_lastAssistant := Some assistant\<rparr>;
              calls = callsOf assistant; answer = fl_text (flattenAssistantMessage assistant);
              st3 = (if calls \<noteq> [] \<and> answer \<noteq> []
                     then emitIf (\<lambda>s l. emitRoundProgress env (roundPhase rnd) l s) (e_assistantProgress env answer) st2 else st2)
          in if calls = [] then
               (case askAgain env rnd answer st3 of
                  Inl e \<Rightarrow> Failed e st3
                | Inr (Some st4) \<Rightarrow> Continue st4
                | Inr None \<Rightarrow> Stop st3)
             else
               let st4 = runModelCalls env rnd calls st3 in
               if ls_forceWait st4 \<or> ls_blocked st4 \<noteq> None \<or> ls_guardrail st4 \<noteq> None then Stop st4 else Continue st4)"

fun roundLoop :: "nat \<Rightarrow> 'w loop_env \<Rightarrow> nat \<Rightarrow> 'w loop_state \<Rightarrow> string option \<times> 'w loop_state" where
  "roundLoop 0 env rnd st = (None, st)"
| "roundLoop (Suc left) env rnd st =
     (if ls_forceWait st then (None, st)
      else case playRound env rnd st of
             Continue st' \<Rightarrow> roundLoop left env (Suc rnd) st'
           | Stop st' \<Rightarrow> (None, st')
           | Failed e st' \<Rightarrow> (Some e, st'))"

section \<open>The end of a run\<close>

text \<open>The login is sent again; \<open>Inl\<close>: the look for a saved login threw.\<close>

definition loginAgain :: "'w loop_env \<Rightarrow> string \<Rightarrow> 'w loop_state \<Rightarrow> 'w loop_state" where
  "loginAgain env service st =
     (let (outcome, st1) = runSyntheticToolCall env ''browser'' (loginArgs service) st in
      if cr_isError outcome then st1
      else
        let st2 = noteLogin env outcome st1 in
        if ms_requiresMfa (parseBrowserMfaState (e_parseJson env) (cr_content outcome)) \<and> map_of (ls_mfa st2) (e_sessionId env) \<noteq> None
        then st2\<lparr>ls_forceWait := True\<rparr> else st2)"

definition retryLogin :: "'w loop_env \<Rightarrow> bool \<Rightarrow> 'w loop_state \<Rightarrow> string + 'w loop_state" where
  "retryLogin env succeeded st =
     (case ls_login st of
        None \<Rightarrow> Inr st
      | Some l \<Rightarrow>
          if ls_forceWait st \<or> \<not> succeeded \<or> \<not> lg_mfaExpected l \<or> lg_submitted l then Inr st
          else
            (case savedServiceNow env True st of
               Inl e \<Rightarrow> Inl e
             | Inr None \<Rightarrow> Inr st
             | Inr (Some service) \<Rightarrow> Inr (if service = [] then st else loginAgain env service st)))"

definition emptyAssistant :: "int \<Rightarrow> jsv" where
  "emptyAssistant now = JObj [(''role'', JStr ''assistant''), (''content'', JArr [JObj [(''type'', JStr ''text''), (''text'', JStr [])]]),
     (''timestamp'', JNum (Fin (of_int now)))]"

text \<open>The last request, made without tools, when there were calls but no text; its failure is ignored.\<close>

definition finalRequest :: "'w loop_env \<Rightarrow> jsv \<Rightarrow> 'w loop_state \<Rightarrow> jsv \<times> 'w loop_state" where
  "finalRequest env lastAssistant st =
     (if \<not> ls_forceWait st \<and> ls_allToolCalls st \<noteq> [] \<and> fl_text (flattenAssistantMessage lastAssistant) = [] then
        (case requestAssistant env [] (pushInstruction env FINAL_ANSWER_NOTE st) of
           (Inr a, st1) \<Rightarrow> (a, pushMessage a st1)
         | (Inl _, st1) \<Rightarrow> (lastAssistant, st1))
      else (lastAssistant, st))"

definition waitMessage :: "login_state option \<Rightarrow> string" where
  "waitMessage latest =
     (case latest of
        Some l \<Rightarrow>
          (case lg_identifier l of
             Some i \<Rightarrow>
               if lg_submitted l
               then ''I filled the saved sign-in email ('' @ i @ '') and sent the one-time code request. Send me the code and I will enter it immediately.''
               else ''I filled the saved sign-in email ('' @ i @ '') and reached the one-time code step. Send me the code and I will enter it immediately.''
           | None \<Rightarrow>
               if lg_submitted l
               then ''I used your saved vault credentials and sent the one-time code request. Send me the code and I will enter it immediately.''
               else ''I reached the one-time code step with saved credentials. Send me the code and I will enter it immediately.'')
      | None \<Rightarrow> ''I reached the one-time code step with saved credentials. Send me the code and I will enter it immediately.'')"

definition refusedMessage :: "login_state \<Rightarrow> string" where
  "refusedMessage l =
     (case (lg_submitted l, lg_identifier l) of
        (True, Some i) \<Rightarrow> ''I filled '' @ i @ '' and sent the one-time code request. Send me the code and I will enter it immediately.''
      | (True, None) \<Rightarrow> ''I sent the one-time code request. Send me the code and I will enter it immediately.''
      | (False, Some i) \<Rightarrow> ''I filled '' @ i @ '', but the send-code click is not confirmed yet. Tell me to retry and I will trigger it again.''
      | (False, None) \<Rightarrow> ''The send-code click is not confirmed yet. Tell me to retry and I will trigger it again.'')"

definition NO_STEPS_MESSAGE :: string where
  "NO_STEPS_MESSAGE = js_join [CHR 0x0A]
     [''I could not complete this action because no verification steps were completed.'',
      ''I will only claim completion after direct verification confirms results.'']"

definition UNVERIFIED_MESSAGE :: string where
  "UNVERIFIED_MESSAGE = js_join [CHR 0x0A]
     [''I cannot claim this task is complete yet.'',
      ''A state-changing step ran, but a direct post-action verification step has not completed successfully.'',
      ''Tell me to continue and I will run verification before finalizing.'']"

definition EMPTY_MESSAGE :: string where
  "EMPTY_MESSAGE = ''I could not generate a non-empty response for this request. Please retry and I will continue from the current session state.''"

definition failed_of :: "'w loop_state \<Rightarrow> tool_outcome list" where
  "failed_of st = filter to_isError (ls_outcomes st)"

definition successful_of :: "'w loop_state \<Rightarrow> tool_outcome list" where
  "successful_of st = filter (\<lambda>e. \<not> to_isError e) (ls_outcomes st)"

definition successSummary :: "'w loop_state \<Rightarrow> string list" where
  "successSummary st =
     (if successful_of st \<noteq> [] then [''Verified steps completed: '' @ nat_to_string (length (successful_of st))] else [])"

definition failureReport :: "'w loop_state \<Rightarrow> string" where
  "failureReport st =
     js_join [CHR 0x0A] (filter (\<lambda>s. s \<noteq> [])
       [''I completed this request with verification failures, so you should not trust any unstated success claims.'',
        (case successSummary st of s # _ \<Rightarrow> s | [] \<Rightarrow> ''No successful verification steps were confirmed.''),
        ''Errors:'',
        js_join [CHR 0x0A] (map (\<lambda>e. ''- '' @ summarizeToolContent (to_content e)) (take 4 (failed_of st)))])"

definition stopped_in_error :: "jsv \<Rightarrow> bool" where
  "stopped_in_error a \<longleftrightarrow> to_lower (trim (str_or_empty (jget a ''stopReason''))) \<in> set [''error'', ''aborted'']"

text \<open>The text of the model with what replaces it when it is missing or refuses to pass on a code.\<close>

definition draftMessage :: "'w loop_env \<Rightarrow> jsv \<Rightarrow> 'w loop_state \<Rightarrow> string" where
  "draftMessage env lastAssistant st =
     (let answer = fl_text (flattenAssistantMessage lastAssistant);
          m1 = (if e_identityQuestion env then e_stripLeak env answer else answer);
          m2 = (if ls_forceWait st then waitMessage (ls_login st) else m1);
          m3 = (case ls_login st of
                  Some l \<Rightarrow> if \<not> ls_forceWait st \<and> lg_mfaExpected l \<and> e_refusedOtp env m2 \<and> siteIntent env then refusedMessage l else m2
                | None \<Rightarrow> m2);
          m4 = (if \<not> ls_forceWait st \<and> answer = [] \<and> ls_allToolCalls st \<noteq> []
                then e_fallbackMessage env (successful_of st) (failed_of st) else m3);
          m5 = (if e_forceToolUse env \<and> ls_allToolCalls st = [] \<and> (stopped_in_error lastAssistant \<or> trim m4 = []) then NO_STEPS_MESSAGE else m4);
          errorText = trim (str_or_empty (jget lastAssistant ''errorMessage''));
          m6 = (if trim m5 = [] \<and> stopped_in_error lastAssistant \<and> errorText \<noteq> []
                then formatProviderRuntimeFailure (e_provider env) (e_model env) (e_endpoint env) errorText (e_discoveredModels env) else m5)
      in if trim m6 = []
         then (if ls_allToolCalls st \<noteq> []
               then js_join [CHR 0x0A] (''I completed verification but did not receive a final textual summary from the model.'' # successSummary st)
               else EMPTY_MESSAGE)
         else m6)"

definition composeMessage :: "'w loop_env \<Rightarrow> jsv \<Rightarrow> 'w loop_state \<Rightarrow> string" where
  "composeMessage env lastAssistant st =
     (let m1 = draftMessage env lastAssistant st;
          m2 = (if \<not> ls_forceWait st \<and> ls_needed st \<and> \<not> ls_satisfied st then UNVERIFIED_MESSAGE else m1);
          m3 = (if failed_of st \<noteq> [] \<and> successful_of st = [] then failureReport st else m2);
          m4 = (case ls_blocked st of
                  Some b \<Rightarrow>
                    js_join [CHR 0x0A] ([b] @
                      (case describeCheckoutWorkflowState (now_of env st) (e_sessionId env) (ls_checkout st) of
                         Some d \<Rightarrow> if d \<noteq> [] then [''Workflow state: '' @ d] else [] | None \<Rightarrow> []) @
                      [''If you want me to continue with checkout, send: confirm purchase''])
                | None \<Rightarrow> m3)
      in case ls_guardrail st of Some g \<Rightarrow> g | None \<Rightarrow> m4)"

record reply_outcome =
  oc_message :: string
  oc_thinking :: "string option"

definition finishRun :: "'w loop_env \<Rightarrow> bool \<Rightarrow> 'w loop_state \<Rightarrow> (string + reply_outcome) \<times> 'w loop_state" where
  "finishRun env succeeded st =
     (case retryLogin env succeeded st of
        Inl e \<Rightarrow> (Inl e, st)
      | Inr st1 \<Rightarrow>
          (case (ls_lastAssistant st1, ls_forceWait st1) of
             (None, False) \<Rightarrow> (Inl ''Provider did not return an assistant response.'', st1)
           | (a, _) \<Rightarrow>
               let (assistant, st2) = finalRequest env (case a of Some x \<Rightarrow> x | None \<Rightarrow> emptyAssistant (now_of env st1)) st1 in
               (Inr \<lparr>oc_message = composeMessage env assistant st2, oc_thinking = fl_thinking (flattenAssistantMessage assistant)\<rparr>, st2)))"

section \<open>A run\<close>

definition runLoop :: "'w loop_env \<Rightarrow> 'w loop_state \<Rightarrow> (string + reply_outcome) \<times> 'w loop_state" where
  "runLoop env st =
     (let (succeeded, st1) = autoLogin env st;
          st2 = afterAutoLogin env succeeded st1;
          st3 = st2\<lparr>ls_checkout := snd (beginCheckoutWorkflowTurn (now_of env st2) (e_sessionId env) (e_message env) (ls_checkout st2))\<rparr>
      in case roundLoop (maxToolRounds env) env 0 st3 of
           (Some e, st4) \<Rightarrow> (Inl e, st4)
         | (None, st4) \<Rightarrow> finishRun env succeeded st4)"

definition initialState :: "'w loop_env \<Rightarrow> jsv list \<Rightarrow> mfa_sessions \<Rightarrow> checkout_sessions \<Rightarrow> 'w \<Rightarrow> 'w loop_state" where
  "initialState env messages mfa checkout w =
     (let needed = requestLikelyNeedsCompletionVerification (e_message env) in
      \<lparr>ls_world = w, ls_messages = messages, ls_allToolCalls = [], ls_outcomes = [], ls_needed = needed, ls_satisfied = (\<not> needed),
       ls_verifyPromptSent = False, ls_login = None, ls_identityRetries = 0, ls_recoveryPromptSent = False, ls_finalizationPromptSent = False,
       ls_emptyPromptSent = False, ls_forceWait = False, ls_lastAssistant = None, ls_blocked = None, ls_guardrail = None, ls_streak = 0,
       ls_timedOut = [], ls_challengeKeys = [], ls_synthetic = 0, ls_progressCount = 0, ls_mfa = mfa, ls_checkout = checkout, ls_requests = [],
       ls_events = [], ls_executed = [], ls_runs = []\<rparr>)"

text \<open>The source writes typographic apostrophes, which are outside the modelled characters.\<close>

definition PAUSED_MESSAGE :: string where
  "PAUSED_MESSAGE = ''I'' @ [CHR 0x27] @ ''m paused at MFA. Send the one-time code (4-10 digits) and I'' @ [CHR 0x27] @ ''ll enter it immediately.''"

definition toolsForTurn :: "'w loop_env \<Rightarrow> bool \<Rightarrow> 'w agent_tool_impl list" where
  "toolsForTurn env pendingMfa =
     (let message = e_message env;
          emailToolAllowed = (e_emailAlways env \<or> messageLikelyNeedsEmailTool message \<or> looksLikeLoginIntent message
            \<or> looksLikeAccountDashboardIntent message \<or> pendingMfa);
          base = (if e_smallTalk env then [] else filter (\<lambda>t. emailToolAllowed \<or> to_lower (tool_name t) \<noteq> ''email'') (e_tools env))
      in if e_compactMode env \<and> \<not> e_smallTalk env then selectToolsForCompactMode (e_hasSite env) base message pendingMfa else base)"

text \<open>
  \<open>chatWithProvider\<close> from the loading of the session on: what the session waits for, the tools of the turn, the run, and the transcript that is saved.
  \<open>e_tools\<close> holds the tools of the configuration, and the fields that depend on the message are filled in here.
\<close>

record 'w provider_state =
  ch_world :: 'w
  ch_disk :: disk
  ch_mfa :: mfa_sessions
  ch_checkout :: checkout_sessions

definition turnEnv :: "'w loop_env \<Rightarrow> pending_mfa option \<Rightarrow> pending_mfa option \<Rightarrow> string option \<Rightarrow> bool \<Rightarrow> 'w \<Rightarrow> 'w loop_env" where
  "turnEnv env before pending code recovery w =
     (let message = e_message env;
          tools = toolsForTurn env (pending \<noteq> None);
          autoAuth = (looksLikeLoginIntent message \<or> looksLikeAccountDashboardIntent message \<or> looksLikeSiteVisitIntent (e_hasSite env) message \<or> recovery);
          hint = Option.bind before mf_service;
          saved = (if pending = None \<and> autoAuth then
                     (case hint of
                        Some h \<Rightarrow> if recovery \<and> h \<noteq> [] then Some (case normalizeSetupService (e_hostname env) h of Some n \<Rightarrow> n | None \<Rightarrow> h) else e_lookupService env w
                      | None \<Rightarrow> e_lookupService env w)
                   else None)
      in env\<lparr>e_tools := tools, e_toolDefinitions := e_normalizeParameters env (toToolDefinitions tools), e_pendingMfa := (pending \<noteq> None),
             e_autoAuthIntent := autoAuth, e_savedService := saved,
             e_forceToolUse := (\<not> e_smallTalk env \<and> (requestLikelyNeedsTools message \<or> pending \<noteq> None \<and> code \<noteq> None))\<rparr>)"

definition chatWithProvider :: "'w loop_env \<Rightarrow> string \<Rightarrow> 'w provider_state \<Rightarrow> (string + reply_outcome) \<times> 'w provider_state" where
  "chatWithProvider env stateDir ch =
     (let sid = e_sessionId env; message = e_message env;
          before = map_of (ch_mfa ch) sid;
          code = extractLikelyOneTimeCode message;
          signIn = looksLikeLoginIntent message; site = looksLikeSiteVisitIntent (e_hasSite env) message;
          recovery = (before \<noteq> None \<and> code = None \<and> looksLikeMfaRecoveryIntent message);
          dropped = (before \<noteq> None \<and> code = None \<and> (signIn \<or> site \<or> recovery));
          mfa = (if dropped then AList.delete sid (ch_mfa ch) else ch_mfa ch);
          pending = (if dropped then None else before)
      in if pending \<noteq> None \<and> code = None \<and> messageLikelyAsksToContinueWithoutCode message \<and> \<not> signIn \<and> \<not> site
         then (Inr \<lparr>oc_message = PAUSED_MESSAGE, oc_thinking = None\<rparr>, ch\<lparr>ch_mfa := mfa\<rparr>)
         else
           let env' = turnEnv env before pending code recovery (ch_world ch);
               effective = (case (pending, code) of (Some p, Some c) \<Rightarrow> buildMfaContinuationInstruction message c p | _ \<Rightarrow> message);
               history = loadSessionMessages stateDir sid (ch_disk ch);
               recent = (if e_compactMode env then take_last (e_historyLimit env) history else history);
               (result, st) = runLoop env' (initialState env' (recent @ [userMessage (e_clock env (ch_world ch)) effective]) mfa (ch_checkout ch) (ch_world ch))
           in (result,
               \<lparr>ch_world = ls_world st,
                ch_disk = (case result of Inr _ \<Rightarrow> saveSessionMessages stateDir sid (ls_messages st) (ch_disk ch) | Inl _ \<Rightarrow> ch_disk ch),
                ch_mfa = ls_mfa st, ch_checkout = ls_checkout st\<rparr>))"

section \<open>What the steps leave alone\<close>

definition core :: "'w loop_state \<Rightarrow> loop_request list \<times> executed_call list \<times> checkout_sessions \<times> jsv option" where
  "core st = (ls_requests st, ls_executed st, ls_checkout st, ls_lastAssistant st)"

text \<open>
  The flags follow the calls that were run, as they were written: a successful change opens the question, a successful check closes it. The
  guardrail has one text.
\<close>

definition change_signal :: "string \<times> jsv \<times> bool \<Rightarrow> bool" where
  "change_signal g = (case g of (n, a, e) \<Rightarrow> \<not> e \<and> to_lower (trim n) \<noteq> [] \<and> toolCallMutatesState (to_lower (trim n)) (toToolArgsRecord a))"

definition check_signal :: "string \<times> jsv \<times> bool \<Rightarrow> bool" where
  "check_signal g = (case g of (n, a, e) \<Rightarrow> \<not> e \<and> to_lower (trim n) \<noteq> [] \<and> toolCallVerifiesState (to_lower (trim n)) (toToolArgsRecord a))"

definition open_claim :: "bool \<Rightarrow> (string \<times> jsv \<times> bool) list \<Rightarrow> bool" where
  "open_claim asked gs = fold (\<lambda>g u. if check_signal g then False else if change_signal g then True else u) gs asked"

definition flags_follow :: "bool \<Rightarrow> 'w loop_state \<Rightarrow> bool" where
  "flags_follow asked st \<longleftrightarrow>
     ls_satisfied st = (\<not> open_claim asked (ls_runs st)) \<and> (open_claim asked (ls_runs st) \<longrightarrow> ls_needed st) \<and>
     ls_guardrail st \<in> {None, Some GUARDRAIL_MESSAGE}"

definition marks :: "'w loop_state \<Rightarrow> bool \<times> bool \<times> (string \<times> jsv \<times> bool) list \<times> string option" where
  "marks st = (ls_needed st, ls_satisfied st, ls_runs st, ls_guardrail st)"

definition marks_run :: "string \<times> jsv \<times> bool \<Rightarrow> 'w loop_state \<Rightarrow> bool \<times> bool \<times> (string \<times> jsv \<times> bool) list \<times> string option" where
  "marks_run g st = (ls_needed st, ls_satisfied st, ls_runs st @ [g], ls_guardrail st)"

lemma marks_run_cong: "marks st' = marks st \<Longrightarrow> marks_run g st' = marks_run g st"
  by (simp add: marks_def marks_run_def)

lemma flags_follow_cong: "marks st = marks st' \<Longrightarrow> flags_follow asked st = flags_follow asked st'"
  by (simp add: marks_def flags_follow_def)

named_theorems frame

lemma simple_frames [frame]:
  "core (pushMessage m st) = core st" "marks (pushMessage m st) = marks st"
  "core (pushInstruction env t st) = core st" "marks (pushInstruction env t st) = marks st"
  "core (emit evs st) = core st" "marks (emit evs st) = marks st"
  "core (emitAssistantProgress env p t st) = core st" "marks (emitAssistantProgress env p t st) = marks st"
  "core (emitRoundProgress env p t st) = core st" "marks (emitRoundProgress env p t st) = marks st"
  "core (pushOutcome n o1 st) = core st" "marks (pushOutcome n o1 st) = marks st"
  "core (updateMfa env a o1 st) = core st" "marks (updateMfa env a o1 st) = marks st"
  "core (noteLogin env o1 st) = core st" "marks (noteLogin env o1 st) = marks st"
  "core (endSynthetic env n a o1 st) = core st" "marks (endSynthetic env n a o1 st) = marks st"
  "core (registerCompletionVerificationSignal n a e st) = core st"
  by (auto simp: core_def marks_def pushMessage_def pushInstruction_def emit_def emitAssistantProgress_def emitRoundProgress_def
      pushOutcome_def updateMfa_def noteLogin_def endSynthetic_def registerCompletionVerificationSignal_def split: option.split prod.split)

lemma update_frames [frame]:
  "core (st\<lparr>ls_synthetic := n\<rparr>) = core st" "marks (st\<lparr>ls_synthetic := n\<rparr>) = marks st"
  "core (st\<lparr>ls_allToolCalls := cs\<rparr>) = core st" "marks (st\<lparr>ls_allToolCalls := cs\<rparr>) = marks st"
  "core (st\<lparr>ls_challengeKeys := ks\<rparr>) = core st" "marks (st\<lparr>ls_challengeKeys := ks\<rparr>) = marks st"
  "core (st\<lparr>ls_forceWait := b\<rparr>) = core st" "marks (st\<lparr>ls_forceWait := b\<rparr>) = marks st"
  "core (st\<lparr>ls_guardrail := g\<rparr>) = core st"
  "core (st\<lparr>ls_streak := k\<rparr>) = core st" "marks (st\<lparr>ls_streak := k\<rparr>) = marks st"
  "core (st\<lparr>ls_progressCount := k\<rparr>) = core st" "marks (st\<lparr>ls_progressCount := k\<rparr>) = marks st"
  "core (st\<lparr>ls_verifyPromptSent := b\<rparr>) = core st" "marks (st\<lparr>ls_verifyPromptSent := b\<rparr>) = marks st"
  "core (st\<lparr>ls_emptyPromptSent := b\<rparr>) = core st" "marks (st\<lparr>ls_emptyPromptSent := b\<rparr>) = marks st"
  "core (st\<lparr>ls_finalizationPromptSent := b\<rparr>) = core st" "marks (st\<lparr>ls_finalizationPromptSent := b\<rparr>) = marks st"
  "core (st\<lparr>ls_recoveryPromptSent := b\<rparr>) = core st" "marks (st\<lparr>ls_recoveryPromptSent := b\<rparr>) = marks st"
  "core (st\<lparr>ls_identityRetries := k\<rparr>) = core st" "marks (st\<lparr>ls_identityRetries := k\<rparr>) = marks st"
  by (simp_all add: core_def marks_def)

lemma emitIf_frame [frame]:
  "(\<And>s l. core (f s l) = core s) \<Longrightarrow> core (emitIf f v st) = core st"
  "(\<And>s l. marks (f s l) = marks s) \<Longrightarrow> marks (emitIf f v st) = marks st"
  by (auto simp: emitIf_def split: option.split)

lemma runTool_core [frame]: "core (snd (runTool env call st)) = core st"
  by (auto simp: runTool_def core_def emit_def split: prod.split)

lemma runTool_marks: "runTool env call st = (o1, st') \<Longrightarrow> marks st' = marks_run (tc_name call, tc_arguments call, cr_isError o1) st"
  by (auto simp: runTool_def marks_def marks_run_def emit_def split: prod.splits)

lemma signal_error [simp]: "registerCompletionVerificationSignal n a True st = st"
  by (simp add: registerCompletionVerificationSignal_def signalVerification_def)

lemma signal_follows:
  assumes "flags_follow asked st0" "marks st = marks_run (n, a, e) st0"
  shows "flags_follow asked (registerCompletionVerificationSignal n (toToolArgsRecord a) e st)"
proof -
  define g where "g = (n, a, e)"
  define st' where "st' = registerCompletionVerificationSignal n (toToolArgsRecord a) e st"
  have m: "ls_needed st = ls_needed st0" "ls_satisfied st = ls_satisfied st0" "ls_runs st = ls_runs st0 @ [g]" "ls_guardrail st = ls_guardrail st0"
    using assms(2) by (simp_all add: marks_def marks_run_def g_def)
  have "ls_runs st' = ls_runs st" by (simp add: st'_def registerCompletionVerificationSignal_def split: prod.split)
  then have u: "open_claim asked (ls_runs st') =
      (if check_signal g then False else if change_signal g then True else open_claim asked (ls_runs st0))"
    by (simp add: open_claim_def m)
  have "ls_needed st' = (ls_needed st0 \<or> change_signal g)"
      "ls_satisfied st' = (if check_signal g \<and> ls_needed st' then True else if change_signal g then False else ls_satisfied st0)"
    by (auto simp: st'_def g_def m registerCompletionVerificationSignal_def signalVerification_def check_signal_def change_signal_def
        Let_def split: prod.split)
  moreover have "ls_guardrail st' = ls_guardrail st0" by (simp add: st'_def m registerCompletionVerificationSignal_def split: prod.split)
  ultimately show ?thesis using assms(1) u unfolding st'_def [symmetric] flags_follow_def by auto
qed

text \<open>A step that makes no request, executes no call of the model and keeps the purchases, while the flags follow the calls.\<close>

definition quiet :: "'w loop_state \<Rightarrow> 'w loop_state \<Rightarrow> bool" where
  "quiet st st' \<longleftrightarrow> core st' = core st \<and> (\<forall>asked. flags_follow asked st \<longrightarrow> flags_follow asked st')"

lemma quiet_refl [simp]: "quiet st st"
  by (simp add: quiet_def)

lemma quiet_trans [trans]: "quiet st st' \<Longrightarrow> quiet st' st'' \<Longrightarrow> quiet st st''"
  by (simp add: quiet_def)

lemma quietI: "core st' = core st \<Longrightarrow> marks st' = marks st \<Longrightarrow> quiet st st'"
  using flags_follow_cong by (fastforce simp: quiet_def)

text \<open>A call that was run and the signal that follows it.\<close>

lemma quiet_signal:
  assumes "core st' = core st" "marks st' = marks_run (n, a, e) st"
  shows "quiet st (registerCompletionVerificationSignal n (toToolArgsRecord a) e st')"
  using signal_follows [OF _ assms(2)] assms(1) by (simp add: quiet_def frame)

lemma synthetic_args [simp]:
  "toToolArgsRecord (screenshotArgs t) = screenshotArgs t" "toToolArgsRecord (openArgs u) = openArgs u" "toToolArgsRecord (loginArgs s) = loginArgs s"
  "toToolArgsRecord (emailArgs act s) = emailArgs act s" "toToolArgsRecord (mfaArgs c p) = mfaArgs c p"
  by (simp_all add: toToolArgsRecord_def screenshotArgs_def openArgs_def loginArgs_def emailArgs_def mfaArgs_def)

lemma quiet_beginSynthetic:
  assumes "toToolArgsRecord a = a"
  shows "quiet st (snd (beginSynthetic env n a st))"
proof -
  define st1 where "st1 = emitIf (\<lambda>s l. emitAssistantProgress env ''pretool'' l s) (e_argsProgress env (to_lower (trim n)) a) (st\<lparr>ls_synthetic := Suc (ls_synthetic st)\<rparr>)"
  obtain o1 st2 where r: "runTool env (syntheticCall env n a st) st1 = (o1, st2)" by (metis prod.collapse)
  define st3 where "st3 = pushOutcome n o1 (st2\<lparr>ls_allToolCalls := ls_allToolCalls st2 @ [n]\<rparr>)"
  define st4 where "st4 = registerCompletionVerificationSignal n a (cr_isError o1) st3"
  define st5 where "st5 = emitIf (\<lambda>s l. emitAssistantProgress env ''progress'' l s) (e_outcomeProgress env (to_lower (trim n)) o1) st4"
  have "quiet st st1" by (rule quietI) (simp_all add: st1_def frame)
  also have "quiet st1 st4"
  proof -
    have "core st3 = core st1" using runTool_core [of env "syntheticCall env n a st" st1] by (simp add: r st3_def frame)
    moreover have "marks st3 = marks_run (n, a, cr_isError o1) st1" using runTool_marks [OF r] by (simp add: st3_def frame syntheticCall_def)
    ultimately show ?thesis unfolding st4_def using quiet_signal [of st3 st1 n a] assms by simp
  qed
  also have "quiet st4 st5" by (rule quietI) (simp_all add: st5_def frame)
  also have "quiet st5 (if to_lower (trim n) = ''browser'' then updateMfa env a o1 st5 else st5)" by (rule quietI) (simp_all add: frame)
  finally show ?thesis
    by (simp add: beginSynthetic_def Let_def st1_def [symmetric] r st3_def st4_def st5_def split: if_split_asm)
qed

lemma quiet_endSynthetic: "quiet st (endSynthetic env n a o1 st)"
  by (rule quietI) (simp_all add: frame)

lemma quiet_capture: "quiet st (captureScreenshot d env a o1 st)"
proof (induction d arbitrary: a o1 st)
  case (Suc d)
  have "quiet st (endSynthetic env ''browser'' args shot (captureScreenshot d env args shot st1))"
    if "beginSynthetic env ''browser'' args (st\<lparr>ls_challengeKeys := ks\<rparr>) = (shot, st1)" "args = screenshotArgs t" for args shot st1 ks t
  proof -
    have "quiet st (st\<lparr>ls_challengeKeys := ks\<rparr>)" by (rule quietI) (simp_all add: frame)
    also have "quiet (st\<lparr>ls_challengeKeys := ks\<rparr>) st1" using quiet_beginSynthetic [of args "st\<lparr>ls_challengeKeys := ks\<rparr>" env "''browser''"] that by simp
    also have "quiet st1 (captureScreenshot d env args shot st1)" by (rule Suc.IH)
    also have "quiet (captureScreenshot d env args shot st1) (endSynthetic env ''browser'' args shot (captureScreenshot d env args shot st1))"
      by (rule quiet_endSynthetic)
    finally show ?thesis .
  qed
  then show ?case by (simp add: Let_def split: option.split prod.split)
qed simp

lemma quiet_synthetic:
  assumes "toToolArgsRecord a = a"
  shows "quiet st (snd (runSyntheticToolCall env n a st))"
proof -
  obtain o1 st1 where b: "beginSynthetic env n a st = (o1, st1)" by (metis prod.collapse)
  have "quiet st st1" using quiet_beginSynthetic [OF assms, of st env n] by (simp add: b)
  also have "quiet st1 (if to_lower (trim n) = ''browser'' then captureScreenshot CAPTURE_DEPTH env a o1 st1 else st1)"
    by (simp add: quiet_capture)
  finally show ?thesis using quiet_endSynthetic quiet_trans by (fastforce simp: runSyntheticToolCall_def b Let_def)
qed

lemma quiet_synthetic_pair: "runSyntheticToolCall env n a st = (o1, st1) \<Longrightarrow> toToolArgsRecord a = a \<Longrightarrow> quiet st st1"
  using quiet_synthetic [of a st env n] by simp

lemma quiet_readCode: "quiet st (snd (readCode env s acts st))"
proof (induction acts arbitrary: st)
  case (Cons act acts)
  obtain o1 st1 where r: "runSyntheticToolCall env ''email'' (emailArgs act s) st = (o1, st1)" by (metis prod.collapse)
  then have "quiet st st1" by (rule quiet_synthetic_pair) simp
  then show ?case using quiet_trans [OF _ Cons.IH [of st1]] by (auto simp: r Let_def split: option.split)
qed simp

lemma quiet_wait: "quiet st (st\<lparr>ls_forceWait := b\<rparr>)"
  by (rule quietI) (simp_all add: frame)

lemma quiet_autoMfa: "quiet st (autoMfa env o1 st)"
proof -
  define ms where "ms = parseBrowserMfaState (e_parseJson env) (cr_content o1)"
  define rc where "rc = (case ms_sourceService ms of
      Some service \<Rightarrow> if ms_credentialAvailable ms \<and> hasTool (toolNames env) ''email''
        then readCode env service [''list_unread'', ''read_recent''] st else (None, st)
    | None \<Rightarrow> (None, st))"
  obtain c st1 where rc': "rc = (c, st1)" by (metis prod.collapse)
  have "quiet st (snd rc)" by (auto simp: rc_def quiet_readCode simp del: readCode.simps split: option.split)
  then have q1: "quiet st st1" by (simp add: rc')
  define st2 where "st2 = (case c of
      Some code \<Rightarrow> snd (runSyntheticToolCall env ''browser'' (mfaArgs code (map_of (ls_mfa st) (e_sessionId env))) st1) | None \<Rightarrow> st1)"
  have "quiet st1 st2" by (auto simp: st2_def quiet_synthetic split: option.split)
  with q1 have q2: "quiet st st2" by (rule quiet_trans)
  have "autoMfa env o1 st = (if \<not> ms_requiresMfa ms then st
      else if map_of (ls_mfa st2) (e_sessionId env) \<noteq> None then st2\<lparr>ls_forceWait := True\<rparr> else st2)"
    unfolding autoMfa_def Let_def ms_def [symmetric] rc_def [symmetric] rc' st2_def by simp
  then show ?thesis using q2 quiet_trans [OF q2 quiet_wait] by simp
qed

lemma quiet_noteLogin: "quiet st (noteLogin env o1 st)"
  by (rule quietI) (simp_all add: frame)

lemma quiet_autoLogin: "quiet st (snd (autoLogin env st))"
proof -
  have "quiet st (snd (let (outcome, st2) = runSyntheticToolCall env ''browser'' a st1
      in if cr_isError outcome then (False, st2) else (True, autoMfa env outcome (noteLogin env outcome st2))))"
    if q: "quiet st st1" "toToolArgsRecord a = a" for a st1
  proof -
    obtain o1 st2 where r: "runSyntheticToolCall env ''browser'' a st1 = (o1, st2)" by (metis prod.collapse)
    have "quiet st st2" using quiet_trans [OF q(1) quiet_synthetic_pair [OF r q(2)]] .
    then show ?thesis using quiet_trans [OF quiet_noteLogin quiet_autoMfa] quiet_trans by (fastforce simp: r)
  qed
  then show ?thesis by (auto simp: autoLogin_def Let_def quiet_synthetic split: option.split)
qed

lemma quiet_afterAutoLogin: "quiet st (afterAutoLogin env b st)"
  by (rule quietI) (auto simp: afterAutoLogin_def Let_def frame split: option.split)

lemma quiet_afterBrowser: "quiet st (fst (afterBrowser env call o1 st))"
proof -
  define st1 where "st1 = captureScreenshot CAPTURE_DEPTH env (tc_arguments call) o1 (updateMfa env (tc_arguments call) o1 st)"
  have "quiet st (updateMfa env (tc_arguments call) o1 st)" by (rule quietI) (simp_all add: frame)
  then have q: "quiet st st1" unfolding st1_def using quiet_capture by (rule quiet_trans)
  have i: "quiet (noteLogin env o1 st1) (pushInstruction env t (noteLogin env o1 st1))" for t by (rule quietI) (simp_all add: frame)
  have "quiet st (noteLogin env o1 st1)" using q quiet_noteLogin by (rule quiet_trans)
  then show ?thesis using q quiet_trans [OF _ quiet_wait] quiet_trans [OF _ i]
    by (auto simp: afterBrowser_def Let_def st1_def [symmetric] split: option.split)
qed

lemma quiet_guardrail: "quiet st (st\<lparr>ls_guardrail := Some GUARDRAIL_MESSAGE\<rparr>)"
  by (simp add: quiet_def frame flags_follow_def)

lemma quiet_finishCall: "quiet st (fst (finishCall env call o1 st))"
proof -
  define st3 where "st3 = fst (finishCall env call o1 st)\<lparr>ls_guardrail := ls_guardrail st\<rparr>"
  have "quiet st st3"
    by (rule quietI) (auto simp: st3_def finishCall_def Let_def core_def marks_def emitIf_def pushInstruction_def pushMessage_def split: option.split)
  moreover have "fst (finishCall env call o1 st) \<in> {st3, st3\<lparr>ls_guardrail := Some GUARDRAIL_MESSAGE\<rparr>}"
    by (auto simp: st3_def finishCall_def Let_def emitIf_def pushInstruction_def pushMessage_def split: option.split)
  ultimately show ?thesis using quiet_trans [OF _ quiet_guardrail] by auto
qed

lemma quiet_askAgain: "askAgain env rnd t st = Inr (Some st') \<Longrightarrow> quiet st st'"
proof -
  have f: "case askFurther env rnd t st of Some st' \<Rightarrow> core st' = core st \<and> marks st' = marks st | None \<Rightarrow> True"
    by (simp add: askFurther_def frame)
  assume "askAgain env rnd t st = Inr (Some st')"
  then have "core st' = core st \<and> marks st' = marks st"
    using f by (auto simp: askAgain_def frame split: if_split_asm sum.splits option.splits)
  then show ?thesis by (simp add: quietI)
qed

lemma quiet_loginAgain: "quiet st (loginAgain env service st)"
proof -
  obtain o1 st1 where r: "runSyntheticToolCall env ''browser'' (loginArgs service) st = (o1, st1)" by (metis prod.collapse)
  have q: "quiet st st1" by (rule quiet_synthetic_pair [OF r]) simp
  then have "quiet st (noteLogin env o1 st1)" using quiet_noteLogin by (rule quiet_trans)
  then show ?thesis using q quiet_trans [OF _ quiet_wait] by (auto simp: loginAgain_def r Let_def)
qed

lemma quiet_retryLogin: "retryLogin env b st = Inr st' \<Longrightarrow> quiet st st'"
  using quiet_loginAgain [of st env] by (auto simp: retryLogin_def split: option.splits sum.splits if_split_asm)

section \<open>The guarded calls\<close>

text \<open>The executed calls were allowed, in a state whose confirmation is the one of the turn or none.\<close>

definition allowed_call :: "string \<Rightarrow> executed_call \<Rightarrow> bool" where
  "allowed_call sid x = (case fst (enforceCheckoutWorkflow (xq_time x) sid (tc_name (xq_call x)) (xq_guardArgs x) (xq_sessions x)) of
      Allowed _ _ \<Rightarrow> True | Blocked _ _ \<Rightarrow> False)"

definition calls_ok :: "'w loop_env \<Rightarrow> int \<Rightarrow> 'w loop_state \<Rightarrow> bool" where
  "calls_ok env u st \<longleftrightarrow> until (ls_checkout st) (e_sessionId env) \<in> {u, 0} \<and>
     list_all (\<lambda>x. allowed_call (e_sessionId env) x \<and> until (xq_sessions x) (e_sessionId env) \<in> {u, 0}
       \<and> xq_time x \<in> range (e_clock env)) (ls_executed st)"

lemma calls_ok_cong: "core st' = core st \<Longrightarrow> calls_ok env u st' = calls_ok env u st"
  by (simp add: core_def calls_ok_def)

lemma guardedRun_calls:
  assumes "calls_ok env u st"
  shows "calls_ok env u (snd (guardedRun env call st))"
proof -
  define ga where "ga = enrichCheckoutArgsWithPageContext (e_parseJson env) (e_parseUrl env) (tc_name call) (tc_arguments call) (ls_outcomes st)"
  obtain d s where e: "enforceCheckoutWorkflow (now_of env st) (e_sessionId env) (tc_name call) ga (ls_checkout st) = (d, s)" by (metis prod.collapse)
  have n: "now_of env st \<in> range (e_clock env)" by (simp add: now_of_def)
  have "until s (e_sessionId env) \<in> {u, 0}"
    using until_call [of "now_of env st" "e_sessionId env" "tc_name call" ga "ls_checkout st" "e_sessionId env"] assms
    by (auto simp: e calls_ok_def)
  then show ?thesis
    using assms runTool_core [of env call] calls_ok_cong [OF runTool_core [of env call]]
    by (auto simp: guardedRun_def ga_def [symmetric] Let_def e calls_ok_def allowed_call_def emit_def n split: guard_decision.split)
qed

lemma guardedRun_frames: "ls_requests (snd (guardedRun env call st)) = ls_requests st" "ls_lastAssistant (snd (guardedRun env call st)) = ls_lastAssistant st"
  using runTool_core [of env call]
  by (auto simp: guardedRun_def Let_def core_def emit_def split: guard_decision.split prod.split)

text \<open>A call is run, or blocked and then an error.\<close>

lemma guardedRun_marks:
  assumes "guardedRun env call st = (o1, st')"
  shows "marks st' = marks st \<and> cr_isError o1 \<or> marks st' = marks_run (tc_name call, tc_arguments call, cr_isError o1) st"
proof -
  have "marks st' = marks_run (tc_name call, tc_arguments call, cr_isError o1) st"
    if "runTool env call (st\<lparr>ls_executed := x, ls_checkout := c\<rparr>) = (o1, st')" for x c
    using runTool_marks [OF that] by (simp add: marks_run_def)
  then show ?thesis using assms
    by (auto simp: guardedRun_def Let_def marks_def emit_def split: guard_decision.splits prod.splits)
qed

text \<open>A step of the rounds: how many requests it may add, and what it keeps.\<close>

definition steps :: "'w loop_env \<Rightarrow> nat \<Rightarrow> 'w loop_state \<Rightarrow> 'w loop_state \<Rightarrow> bool" where
  "steps env k st st' \<longleftrightarrow> length (ls_requests st') \<le> length (ls_requests st) + k \<and>
     (\<forall>u. calls_ok env u st \<longrightarrow> calls_ok env u st') \<and>
     (\<forall>asked. flags_follow asked st \<longrightarrow> flags_follow asked st') \<and>
     (ls_lastAssistant st \<noteq> None \<longrightarrow> ls_lastAssistant st' \<noteq> None)"

lemma quiet_steps: "quiet st st' \<Longrightarrow> steps env 0 st st'"
  using calls_ok_cong [of st' st] by (auto simp: quiet_def steps_def core_def)

lemma steps_trans: "steps env j st st' \<Longrightarrow> steps env k st' st'' \<Longrightarrow> steps env (j + k) st st''"
  by (auto simp: steps_def)

lemma steps_mono: "steps env j st st' \<Longrightarrow> j \<le> k \<Longrightarrow> steps env k st st'"
  by (auto simp: steps_def)

lemma steps_guarded:
  assumes "guardedRun env call st = (o1, st')"
  shows "steps env 0 st (registerCompletionVerificationSignal (tc_name call) (toToolArgsRecord (tc_arguments call)) (cr_isError o1)
    (pushOutcome (tc_name call) o1 st'))" (is "steps env 0 st ?st")
proof -
  have c: "core ?st = core st'" by (simp add: frame)
  have m: "marks (pushOutcome (tc_name call) o1 st') = marks st'" by (simp add: frame)
  have "flags_follow asked ?st" if f: "flags_follow asked st" for asked
    using guardedRun_marks [OF assms] signal_follows [OF f] flags_follow_cong [of "pushOutcome (tc_name call) o1 st'" st] f m by auto
  moreover have "calls_ok env u ?st" if "calls_ok env u st" for u
    using calls_ok_cong [OF c] guardedRun_calls [OF that, of call] assms by simp
  ultimately show ?thesis using c guardedRun_frames [of env call st] unfolding steps_def assms by (auto simp: core_def)
qed

lemma steps_request: "steps env 1 st (snd (requestAssistant env ts st))"
  by (auto simp: steps_def requestAssistant_def calls_ok_def flags_follow_def Let_def split: option.split prod.split)

lemma steps_quiet: "steps env k st st' \<Longrightarrow> quiet st' st'' \<Longrightarrow> steps env k st st''"
  using steps_trans [of env k st st' 0 st''] quiet_steps by fastforce

lemma steps_runModelCall: "steps env 0 st (fst (runModelCall env rnd call st))"
proof -
  define n where "n = to_lower (trim (tc_name call))"
  define st1 where "st1 = emitIf (\<lambda>s l. emitRoundProgress env (roundPhase rnd) l s) (e_argsProgress env n (tc_arguments call)) st"
  define st1' where "st1' = st1\<lparr>ls_allToolCalls := ls_allToolCalls st1 @ [tc_name call]\<rparr>"
  obtain o1 st2 where g: "guardedRun env call st1' = (o1, st2)" by (metis prod.collapse)
  define st3 where "st3 = registerCompletionVerificationSignal (tc_name call) (toToolArgsRecord (tc_arguments call)) (cr_isError o1) (pushOutcome (tc_name call) o1 st2)"
  define st4 where "st4 = emitIf (\<lambda>s l. emitRoundProgress env ''progress'' l s) (e_outcomeProgress env n o1) st3"
  obtain st5 ended where b: "(if n = ''browser'' then afterBrowser env call o1 st4 else (st4, False)) = (st5, ended)" by (metis prod.collapse)
  have "quiet st st1'" by (rule quietI) (simp_all add: st1_def st1'_def frame)
  then have "steps env 0 st st1'" by (rule quiet_steps)
  then have "steps env 0 st st3" using steps_trans [of env 0 st st1' 0 st3] steps_guarded [OF g] by (simp add: st3_def)
  moreover have "quiet st3 st4" by (rule quietI) (simp_all add: st4_def frame)
  moreover have "quiet st4 st5" using quiet_afterBrowser [of st4 env call o1] b by (auto split: if_splits)
  ultimately have q: "steps env 0 st st5" by (meson quiet_trans steps_quiet)
  have "runModelCall env rnd call st = (if ended then (st5, True) else finishCall env call o1 st5)"
    unfolding runModelCall_def Let_def n_def [symmetric] st1_def [symmetric] st1'_def [symmetric] g prod.case st3_def [symmetric] st4_def [symmetric] b ..
  then show ?thesis using q steps_quiet [OF q quiet_finishCall] by simp
qed

lemma steps_runModelCalls: "steps env 0 st (runModelCalls env rnd calls st)"
proof (induction calls arbitrary: st)
  case (Cons call calls)
  obtain st' stop where r: "runModelCall env rnd call st = (st', stop)" by (metis prod.collapse)
  have s: "steps env 0 st st'" using steps_runModelCall [of env st rnd call] by (simp add: r)
  show ?case using s steps_trans [OF s Cons.IH] by (simp add: r)
qed (simp add: quiet_steps)

fun result_state :: "'w round_result \<Rightarrow> 'w loop_state" where
  "result_state (Continue st) = st"
| "result_state (Stop st) = st"
| "result_state (Failed e st) = st"

lemma steps_playRound: "steps env 1 st (result_state (playRound env rnd st))"
proof -
  define st0 where "st0 = st\<lparr>ls_progressCount := 0\<rparr>"
  obtain a st1 where r: "requestAssistant env (if ls_finalizationPromptSent st then [] else e_toolDefinitions env) st0 = (a, st1)" by (metis prod.collapse)
  have "quiet st st0" unfolding st0_def by (rule quietI) (simp_all add: frame)
  then have "steps env 0 st st0" by (rule quiet_steps)
  then have s1: "steps env 1 st st1"
    using steps_trans [of env 0 st st0 1 st1] steps_request [of env st0 "if ls_finalizationPromptSent st then [] else e_toolDefinitions env"] by (simp add: r)
  show ?thesis
  proof (cases a)
    case (Inl e)
    then show ?thesis using s1 by (simp add: playRound_def st0_def [symmetric] r)
  next
    case (Inr m)
    define t where "t = fl_text (flattenAssistantMessage m)"
    define st2 where "st2 = (pushMessage m st1)\<lparr>ls_lastAssistant := Some m\<rparr>"
    define st3 where "st3 = (if callsOf m \<noteq> [] \<and> t \<noteq> [] then emitIf (\<lambda>s l. emitRoundProgress env (roundPhase rnd) l s) (e_assistantProgress env t) st2 else st2)"
    have "quiet st1 (pushMessage m st1)" by (rule quietI) (simp_all add: frame)
    with s1 have "steps env 1 st (pushMessage m st1)" by (rule steps_quiet)
    then have "steps env 1 st st2" unfolding st2_def by (auto simp: steps_def calls_ok_def flags_follow_def)
    moreover have "quiet st2 st3" by (rule quietI) (simp_all add: st3_def frame)
    ultimately have s3: "steps env 1 st st3" by (rule steps_quiet)
    have "steps env 1 st (runModelCalls env rnd (callsOf m) st3)" using steps_trans [OF s3 steps_runModelCalls] by simp
    moreover have "steps env 1 st st4" if "askAgain env rnd t st3 = Inr (Some st4)" for st4 using steps_quiet [OF s3 quiet_askAgain [OF that]] .
    moreover have "playRound env rnd st =
       (if callsOf m = [] then (case askAgain env rnd t st3 of Inl e \<Rightarrow> Failed e st3 | Inr (Some st4) \<Rightarrow> Continue st4 | Inr None \<Rightarrow> Stop st3)
        else if ls_forceWait (runModelCalls env rnd (callsOf m) st3) \<or> ls_blocked (runModelCalls env rnd (callsOf m) st3) \<noteq> None
            \<or> ls_guardrail (runModelCalls env rnd (callsOf m) st3) \<noteq> None
        then Stop (runModelCalls env rnd (callsOf m) st3) else Continue (runModelCalls env rnd (callsOf m) st3))"
      unfolding playRound_def st0_def [symmetric] r Inr prod.case sum.case Let_def t_def [symmetric] st2_def [symmetric] st3_def [symmetric] ..
    ultimately show ?thesis using s3 by (auto split: option.split sum.split)
  qed
qed

lemma steps_refl [simp]: "steps env k st st"
  by (simp add: steps_def)

lemma steps_roundLoop: "steps env k st (snd (roundLoop k env rnd st))"
proof (induction k arbitrary: rnd st)
  case (Suc k)
  have p: "steps env 1 st (result_state (playRound env rnd st))" by (rule steps_playRound)
  show ?case
  proof (cases "playRound env rnd st")
    case (Continue st')
    then show ?thesis using steps_trans [OF p Suc.IH] by simp
  qed (use p steps_mono [OF p] in simp_all)
qed simp

lemma steps_finalRequest: "finalRequest env a st = (a', st') \<Longrightarrow> steps env 1 st st'"
proof -
  assume f: "finalRequest env a st = (a', st')"
  obtain r st1 where r: "requestAssistant env [] (pushInstruction env FINAL_ANSWER_NOTE st) = (r, st1)" by (metis prod.collapse)
  have "quiet st (pushInstruction env FINAL_ANSWER_NOTE st)" by (rule quietI) (simp_all add: frame)
  then have i: "steps env 0 st (pushInstruction env FINAL_ANSWER_NOTE st)" by (rule quiet_steps)
  have s: "steps env 1 st st1" using steps_trans [OF i steps_request] r by (metis add_0 snd_conv)
  have "quiet st1 (pushMessage m st1)" for m by (rule quietI) (simp_all add: frame)
  then show ?thesis using f s steps_quiet [OF s] by (auto simp: finalRequest_def r split: if_splits sum.splits)
qed

lemma steps_finishRun: "steps env 1 st (snd (finishRun env b st))"
proof (cases "retryLogin env b st")
  case (Inr st1)
  have q: "steps env 0 st st1" by (rule quiet_steps) (rule quiet_retryLogin [OF Inr])
  have "steps env 1 st st2" if "finalRequest env a st1 = (a', st2)" for a a' st2
    using steps_trans [OF q steps_finalRequest [OF that]] by simp
  then show ?thesis using steps_mono [OF q, of 1]
    by (fastforce simp: finishRun_def Inr Let_def split: option.split bool.split prod.split)
qed (simp add: finishRun_def)

lemma capture_seen:
  assumes "\<And>t. challengeTab env a o1 = Some t \<Longrightarrow> tabKey t \<in> set (ls_challengeKeys st)"
  shows "captureScreenshot d env a o1 st = st"
  using assms by (cases d) (auto split: option.split)

lemma keys_frames:
  "ls_challengeKeys (emitAssistantProgress env p t st) = ls_challengeKeys st"
  "ls_challengeKeys (pushOutcome n o1 st) = ls_challengeKeys st"
  "ls_challengeKeys (updateMfa env a o1 st) = ls_challengeKeys st"
  "ls_challengeKeys (registerCompletionVerificationSignal n a e st) = ls_challengeKeys st"
  "ls_challengeKeys (snd (runTool env call st)) = ls_challengeKeys st"
  "(\<And>s l. ls_challengeKeys (f s l) = ls_challengeKeys s) \<Longrightarrow> ls_challengeKeys (emitIf f v st) = ls_challengeKeys st"
  by (auto simp: emitAssistantProgress_def emit_def pushOutcome_def updateMfa_def registerCompletionVerificationSignal_def runTool_def
      emitIf_def split: option.split prod.split)

lemma keys_synthetic: "beginSynthetic env n a st = (o1, st1) \<Longrightarrow> ls_challengeKeys st1 = ls_challengeKeys st"
proof -
  assume b: "beginSynthetic env n a st = (o1, st1)"
  define st' where "st' = emitIf (\<lambda>s l. emitAssistantProgress env ''pretool'' l s) (e_argsProgress env (to_lower (trim n)) a) (st\<lparr>ls_synthetic := Suc (ls_synthetic st)\<rparr>)"
  obtain o2 st2 where r: "runTool env (syntheticCall env n a st) st' = (o2, st2)" by (metis prod.collapse)
  have "ls_challengeKeys st' = ls_challengeKeys st" by (simp add: st'_def keys_frames)
  then have "ls_challengeKeys st2 = ls_challengeKeys st" using keys_frames(5) [of env "syntheticCall env n a st" st'] by (simp add: r)
  then show ?thesis using b by (auto simp: beginSynthetic_def Let_def st'_def [symmetric] r keys_frames)
qed

lemma challengeTab_named: "t \<noteq> [] \<Longrightarrow> trim t = t \<Longrightarrow> challengeTab env (screenshotArgs t) o1 \<in> {None, Some t}"
  by (auto simp: challengeTab_def screenshotArgs_def member_if_def coalesce_def Let_def split: prod.split)

lemma challengeTab_trim: "challengeTab env a o1 = Some t \<Longrightarrow> trim t = t"
  by (auto simp: challengeTab_def Let_def split: prod.splits if_splits)

text \<open>Two levels are enough: the screenshot of a named tab ends the nesting, and the one of the active tab has one more below it.\<close>

lemma capture_named:
  assumes "t \<noteq> []" "trim t = t" "tabKey t \<in> set (ls_challengeKeys st)"
  shows "captureScreenshot d env (screenshotArgs t) shot st = st"
  using assms challengeTab_named [of t env shot] by (intro capture_seen) auto

lemma capture_enough: "2 \<le> d \<Longrightarrow> captureScreenshot d env a o1 st = captureScreenshot CAPTURE_DEPTH env a o1 st"
proof -
  assume "2 \<le> d"
  then obtain d' where d: "d = Suc (Suc d')" by (metis add_2_eq_Suc le_Suc_ex)
  have inner: "captureScreenshot (Suc d') env (screenshotArgs t) shot st1 = captureScreenshot (Suc 0) env (screenshotArgs t) shot st1"
    if key: "tabKey t \<in> set (ls_challengeKeys st1)" and tr: "trim t = t" for t shot st1
  proof (cases "t = []")
    case False
    then show ?thesis using capture_named [OF False tr key] by simp
  next
    case True
    show ?thesis
    proof (cases "challengeTab env (screenshotArgs t) shot")
      case (Some t2)
      obtain shot2 st2 where b: "beginSynthetic env ''browser'' (screenshotArgs t2) (st1\<lparr>ls_challengeKeys := ls_challengeKeys st1 @ [tabKey t2]\<rparr>) = (shot2, st2)"
        by (metis prod.collapse)
      have "tabKey t2 \<in> set (ls_challengeKeys st2)" using keys_synthetic [OF b] by simp
      moreover have "t2 \<noteq> []" if "tabKey t2 \<notin> set (ls_challengeKeys st1)" using that key True by auto
      ultimately have "captureScreenshot k env (screenshotArgs t2) shot2 st2 = st2" if "tabKey t2 \<notin> set (ls_challengeKeys st1)" for k
        using that capture_named challengeTab_trim [OF Some] by blast
      then show ?thesis by (simp add: Some b)
    qed simp
  qed
  have "captureScreenshot (Suc d') env (screenshotArgs t) shot st1 = captureScreenshot (Suc 0) env (screenshotArgs t) shot st1"
    if "challengeTab env a o1 = Some t"
      "beginSynthetic env ''browser'' (screenshotArgs t) (st\<lparr>ls_challengeKeys := ls_challengeKeys st @ [tabKey t]\<rparr>) = (shot, st1)" for t shot st1
    using inner [of t st1 shot] keys_synthetic [OF that(2)] challengeTab_trim [OF that(1)] by simp
  then show ?thesis
    unfolding d CAPTURE_DEPTH_def numeral_2_eq_2 captureScreenshot.simps(2) [of "Suc d'"] captureScreenshot.simps(2) [of "Suc 0"]
    by (auto simp: Let_def simp del: captureScreenshot.simps split: option.split prod.split)
qed

section \<open>Properties\<close>

definition turnState :: "'w loop_env \<Rightarrow> 'w loop_state \<Rightarrow> 'w loop_state" where
  "turnState env st = (let (succeeded, st1) = autoLogin env st in afterAutoLogin env succeeded st1)"

lemma quiet_turnState: "quiet st (turnState env st)"
  using quiet_trans [OF quiet_autoLogin quiet_afterAutoLogin] by (simp add: turnState_def case_prod_beta)

lemma core_initial: "core (initialState env messages mfa checkout w) = ([], [], checkout, None)"
  by (simp add: core_def initialState_def Let_def)

lemma core_turnState: "core (turnState env (initialState env messages mfa checkout w)) = ([], [], checkout, None)"
  using quiet_turnState [of "initialState env messages mfa checkout w" env] by (simp add: quiet_def core_initial)

text \<open>A run is the automatic login, the start of the user's turn, the rounds and the end.\<close>

definition startTurn :: "'w loop_env \<Rightarrow> 'w loop_state \<Rightarrow> 'w loop_state" where
  "startTurn env st = (let st2 = turnState env st in
     st2\<lparr>ls_checkout := snd (beginCheckoutWorkflowTurn (now_of env st2) (e_sessionId env) (e_message env) (ls_checkout st2))\<rparr>)"

lemma runLoop_steps:
  assumes "runLoop env st = (res, st')"
  shows "steps env (maxToolRounds env + 1) (startTurn env st) st'"
proof -
  obtain b st1 where a: "autoLogin env st = (b, st1)" by (metis prod.collapse)
  have t: "startTurn env st = (afterAutoLogin env b st1)\<lparr>ls_checkout := snd (beginCheckoutWorkflowTurn (now_of env (afterAutoLogin env b st1))
      (e_sessionId env) (e_message env) (ls_checkout (afterAutoLogin env b st1)))\<rparr>"
    by (simp add: startTurn_def turnState_def a Let_def)
  obtain e st4 where r: "roundLoop (maxToolRounds env) env 0 (startTurn env st) = (e, st4)" by (metis prod.collapse)
  have s: "steps env (maxToolRounds env) (startTurn env st) st4" using steps_roundLoop [of env "maxToolRounds env" "startTurn env st" 0] by (simp add: r)
  have "runLoop env st = (case e of Some x \<Rightarrow> (Inl x, st4) | None \<Rightarrow> finishRun env b st4)"
    using r unfolding runLoop_def a Let_def prod.case t by (simp split: option.split)
  then have "st' = st4 \<or> st' = snd (finishRun env b st4)" using assms by (cases e) (auto simp: prod_eq_iff)
  then show ?thesis using s steps_trans [OF s steps_finishRun] steps_mono [OF s] by auto
qed

text \<open>
  C35. A run makes a bounded number of requests: at most twenty rounds, eight for small models, and one
  final request, whatever the provider answers and however often tools, instructions and logins intervene.
\<close>

theorem requests_bounded:
  "length (ls_requests (snd (runLoop env (initialState env messages mfa checkout w)))) \<le> (if e_compactMode env then 9 else 21)"
proof -
  let ?st0 = "initialState env messages mfa checkout w"
  have "ls_requests (startTurn env ?st0) = []"
    using core_turnState [of env messages mfa checkout w] by (simp add: startTurn_def Let_def core_def)
  then show ?thesis using runLoop_steps [of env ?st0, OF prod.collapse [symmetric]]
    by (auto simp: steps_def maxToolRounds_def MAX_TOOL_ROUNDS_def COMPACT_MODE_MAX_TOOL_ROUNDS_def)
qed

text \<open>
  C33. A purchase needs the user's word. When a run executes a call of the model that the guard classes as a purchase, the
  user's message of this turn did not cancel, and either it confirmed the purchase less than five minutes before, or a confirmation of an
  earlier turn was still standing when the call was made. This holds for every provider, every tool result and every order of
  calls; the clock is assumed not to be negative.
\<close>

theorem purchase_needs_confirmation:
  assumes "runLoop env (initialState env messages mfa checkout w) = (res, st)" "\<And>v. 0 \<le> e_clock env v"
    and "x \<in> set (ls_executed st)" "detectCheckoutRisk (tc_name (xq_call x)) (xq_guardArgs x) \<noteq> None"
  shows "\<not> cancels (e_message env) \<and>
    (confirms (e_message env) \<and> xq_time x < now_of env (turnState env (initialState env messages mfa checkout w)) + CHECKOUT_CONFIRM_TTL_MS
     \<or> \<not> confirms (e_message env) \<and> xq_time x < until checkout (e_sessionId env))"
proof -
  let ?st0 = "initialState env messages mfa checkout w"
  let ?sid = "e_sessionId env"
  define u where "u = until (ls_checkout (startTurn env ?st0)) ?sid"
  have c: "ls_checkout (turnState env ?st0) = checkout" "ls_executed (turnState env ?st0) = []"
    using core_turnState [of env messages mfa checkout w] by (simp_all add: core_def)
  then have "calls_ok env u (startTurn env ?st0)" by (simp add: calls_ok_def u_def startTurn_def Let_def)
  then have "calls_ok env u st" using runLoop_steps [OF assms(1)] by (simp add: steps_def)
  then have ok: "allowed_call ?sid x" "until (xq_sessions x) ?sid \<in> {u, 0}" and t: "0 \<le> xq_time x"
    using assms(2,3) by (auto simp: calls_ok_def list_all_iff)
  have "xq_time x < until (xq_sessions x) ?sid"
  proof -
    obtain s0 m1 where g: "getState ?sid (xq_sessions x) = (s0, m1)" "co_confirmedUntil s0 = until (xq_sessions x) ?sid"
      using getState_pair [of ?sid "xq_sessions x"] by blast
    show ?thesis using ok(1) assms(4) t
      by (auto simp: allowed_call_def enforceCheckoutWorkflow_def g Let_def expire_def split: option.splits if_splits)
  qed
  then have "xq_time x < u" using ok(2) t by auto
  moreover have "u = (if cancels (e_message env) then 0
      else if confirms (e_message env) then now_of env (turnState env ?st0) + CHECKOUT_CONFIRM_TTL_MS
      else if until checkout ?sid \<le> now_of env (turnState env ?st0) then 0 else until checkout ?sid)"
    by (simp add: u_def startTurn_def Let_def until_turn c)
  ultimately show ?thesis using t by (auto split: if_splits)
qed

lemma flags_initial: "flags_follow (requestLikelyNeedsCompletionVerification (e_message env)) (initialState env messages mfa checkout w)"
  by (simp add: flags_follow_def initialState_def open_claim_def Let_def)

lemma runLoop_flags:
  assumes "runLoop env (initialState env messages mfa checkout w) = (res, st)"
  shows "flags_follow (requestLikelyNeedsCompletionVerification (e_message env)) st"
proof -
  let ?asked = "requestLikelyNeedsCompletionVerification (e_message env)"
  have "flags_follow ?asked (turnState env (initialState env messages mfa checkout w))"
    using quiet_turnState [of "initialState env messages mfa checkout w" env] flags_initial [of env messages mfa checkout w] by (simp add: quiet_def)
  then have "flags_follow ?asked (startTurn env (initialState env messages mfa checkout w))"
    by (simp add: startTurn_def Let_def flags_follow_def)
  then show ?thesis using runLoop_steps [OF assms] by (simp add: steps_def)
qed

text \<open>
  The question is open when a successful change has no successful check at or after it, or one was expected from the start and none came.
  Here a call is what was run: the tool that its name finds, with the arguments that this tool is given.
\<close>

definition change_made :: "string \<times> jsv \<times> bool \<Rightarrow> bool" where
  "change_made g = (case g of (n, a, e) \<Rightarrow> \<not> e \<and> toolCallMutatesState (normalizeToolName n) (normalizeToolArgs n a))"

definition check_made :: "string \<times> jsv \<times> bool \<Rightarrow> bool" where
  "check_made g = (case g of (n, a, e) \<Rightarrow> \<not> e \<and> toolCallVerifiesState (normalizeToolName n) (normalizeToolArgs n a))"

definition open_history :: "bool \<Rightarrow> (string \<times> jsv \<times> bool) list \<Rightarrow> bool" where
  "open_history asked gs \<longleftrightarrow>
     (\<exists>pre g post. gs = pre @ g # post \<and> change_made g \<and> list_all (\<lambda>h. \<not> check_made h) (g # post)) \<or>
     asked \<and> list_all (\<lambda>h. \<not> check_made h) gs"

text \<open>The call reads as it was written the way it was run: no alias of a tool or an argument hides a change or a check.\<close>

definition plainly_written :: "string \<times> jsv \<times> bool \<Rightarrow> bool" where
  "plainly_written g = (case g of (n, a, e) \<Rightarrow> e \<or>
     toolCallMutatesState n (toToolArgsRecord a) = toolCallMutatesState (normalizeToolName n) (normalizeToolArgs n a) \<and>
     toolCallVerifiesState n (toToolArgsRecord a) = toolCallVerifiesState (normalizeToolName n) (normalizeToolArgs n a))"

lemma classed_trimmed:
  "toolCallMutatesState (to_lower (trim n)) a = toolCallMutatesState n a" "toolCallVerifiesState (to_lower (trim n)) a = toolCallVerifiesState n a"
  by (simp_all add: toolCallMutatesState_def toolCallVerifiesState_def Let_def trim_to_lower)

lemma classed_named: "toolCallMutatesState n a \<Longrightarrow> to_lower (trim n) \<noteq> []" "toolCallVerifiesState n a \<Longrightarrow> to_lower (trim n) \<noteq> []"
  by (auto simp: toolCallMutatesState_def toolCallVerifiesState_def Let_def)

lemma plain_signals:
  assumes "plainly_written g"
  shows "change_signal g = change_made g" "check_signal g = check_made g"
proof -
  obtain n a e where g: "g = (n, a, e)" by (cases g)
  show "change_signal g = change_made g" "check_signal g = check_made g"
    using assms classed_named [of n "toToolArgsRecord a"]
    unfolding g plainly_written_def change_signal_def check_signal_def change_made_def check_made_def prod.case classed_trimmed by blast+
qed

lemma open_history_snoc:
  "open_history asked (gs @ [g]) \<longleftrightarrow> \<not> check_made g \<and> (change_made g \<or> open_history asked gs)"
proof -
  have "(\<exists>pre h post. gs @ [g] = pre @ h # post \<and> change_made h \<and> list_all (\<lambda>h. \<not> check_made h) (h # post)) \<longleftrightarrow>
      \<not> check_made g \<and> (change_made g \<or> (\<exists>pre h post. gs = pre @ h # post \<and> change_made h \<and> list_all (\<lambda>h. \<not> check_made h) (h # post)))"
    (is "?L \<longleftrightarrow> ?R")
  proof
    assume ?L
    then obtain pre h post where d: "gs @ [g] = pre @ h # post" "change_made h" "list_all (\<lambda>h. \<not> check_made h) (h # post)" by blast
    show ?R
    proof (cases post rule: rev_cases)
      case (snoc ys y)
      then have "gs = pre @ h # ys" "y = g" using d(1) by auto
      then show ?thesis using d(2,3) snoc by (intro conjI disjI2 exI [of _ pre] exI [of _ h] exI [of _ ys]) auto
    qed (use d in auto)
  next
    assume ?R
    then show ?L
    proof (elim conjE disjE exE)
      fix pre h post
      assume "\<not> check_made g" "gs = pre @ h # post" "change_made h" "list_all (\<lambda>h. \<not> check_made h) (h # post)"
      then show ?L by (intro exI [of _ pre] exI [of _ h] exI [of _ "post @ [g]"]) simp
    next
      assume "\<not> check_made g" "change_made g"
      then show ?L by (intro exI [of _ gs] exI [of _ g] exI [of _ "[]"]) simp
    qed
  qed
  moreover have "list_all (\<lambda>h. \<not> check_made h) (gs @ [g]) \<longleftrightarrow> list_all (\<lambda>h. \<not> check_made h) gs \<and> \<not> check_made g" by simp
  ultimately show ?thesis unfolding open_history_def by argo
qed

lemma open_claim_iff: "list_all plainly_written gs \<Longrightarrow> open_claim asked gs = open_history asked gs"
proof (induction gs rule: rev_induct)
  case (snoc g gs)
  have "open_claim asked (gs @ [g]) = (if check_signal g then False else if change_signal g then True else open_claim asked gs)"
    by (simp add: open_claim_def)
  then show ?case using snoc plain_signals [of g] by (simp add: open_history_snoc)
qed (simp add: open_claim_def open_history_def)

lemma finishRun_message:
  assumes "finishRun env b st = (Inr out, st')"
  shows "\<exists>a. oc_message out = composeMessage env a st'"
  using assms by (auto simp: finishRun_def Let_def split: sum.splits option.splits bool.splits prod.splits)

lemma runLoop_message:
  assumes "runLoop env st0 = (Inr out, st)"
  shows "\<exists>a. oc_message out = composeMessage env a st"
proof -
  have "\<exists>b st4. finishRun env b st4 = (Inr out, st)"
    using assms by (auto simp: runLoop_def Let_def split: prod.splits option.splits)
  then show ?thesis using finishRun_message by blast
qed

text \<open>
  C34. A change that nothing has verified is not claimed as done. When a tool call that changes state succeeded and no call that verifies
  state succeeded at or after it, or the request asks for a change and nothing was verified at all, the answer of a run does not depend
  on what the model said: any other last message of the model would have given the same answer. The calls are the ones that were run, by
  the model and by the loop itself. Runs that wait for a one-time code are excepted, and runs with a call whose name or arguments were
  written with an alias that hides a change or a check from the loop (\<open>alias_escapes_verification\<close>).
\<close>

theorem unverified_change_not_claimed:
  assumes "runLoop env (initialState env messages mfa checkout w) = (Inr out, st)" "\<not> ls_forceWait st"
    and "list_all plainly_written (ls_runs st)"
    and "open_history (requestLikelyNeedsCompletionVerification (e_message env)) (ls_runs st)"
  shows "composeMessage env anything st = oc_message out"
proof -
  have "\<not> ls_satisfied st" "ls_needed st"
    using runLoop_flags [OF assms(1)] assms(4) by (auto simp: flags_follow_def open_claim_iff [OF assms(3)])
  then have "composeMessage env a st = composeMessage env anything st" for a
    using assms(2) by (simp add: composeMessage_def)
  then show ?thesis using runLoop_message [OF assms(1)] by metis
qed

section \<open>Every run is answered\<close>

definition provider_answers :: "'w loop_env \<Rightarrow> bool" where
  "provider_answers env \<longleftrightarrow> promptHasIdentity (e_systemPrompt env) = None \<and>
     (\<forall>ts ms w. case fst (e_complete env ts ms w) of (Some n, Inr a) \<Rightarrow> n < e_providerLimit env | _ \<Rightarrow> False)"

lemma request_ok: "provider_answers env \<Longrightarrow> \<exists>a st1. requestAssistant env ts st = (Inr a, st1)"
proof -
  assume a: "provider_answers env"
  obtain t r w where e: "e_complete env ts (ls_messages st) (ls_world st) = ((t, r), w)" by (metis prod.collapse)
  have "case (t, r) of (Some n, Inr a) \<Rightarrow> n < e_providerLimit env | _ \<Rightarrow> False"
    using a [unfolded provider_answers_def] by (metis e fst_conv)
  then obtain n m where "t = Some n" "r = Inr m" "n < e_providerLimit env" by (auto split: option.splits sum.splits)
  then show ?thesis using a by (simp add: requestAssistant_def provider_answers_def e Let_def)
qed

definition lookup_error :: "'w loop_env \<Rightarrow> string \<Rightarrow> bool" where
  "lookup_error env e \<longleftrightarrow> (\<exists>service w. e_credential env service w = Inl e)"

lemma savedServiceNow_error: "savedServiceNow env seen st = Inl e \<Longrightarrow> lookup_error env e"
  using resolveSaved_error [of "e_parseJson env" "e_hostname env" "\<lambda>s. e_credential env s (ls_world st)" "ls_outcomes st" e]
  by (auto simp: savedServiceNow_def seenService_def lookup_error_def split: option.splits if_split_asm)

lemma askAgain_error: "askAgain env rnd t st = Inl e \<Longrightarrow> lookup_error env e"
  using savedServiceNow_error [of env _ st e] by (auto simp: askAgain_def split: if_split_asm sum.splits option.splits)

lemma retryLogin_error: "retryLogin env b st = Inl e \<Longrightarrow> lookup_error env e"
  using savedServiceNow_error [of env True st e] by (auto simp: retryLogin_def split: option.splits if_split_asm sum.splits)

lemma playRound_ok:
  assumes "provider_answers env"
  shows "(playRound env rnd st = Failed e st' \<longrightarrow> lookup_error env e) \<and> ls_lastAssistant (result_state (playRound env rnd st)) \<noteq> None"
proof -
  obtain m st1 where r: "requestAssistant env (if ls_finalizationPromptSent st then [] else e_toolDefinitions env) (st\<lparr>ls_progressCount := 0\<rparr>) = (Inr m, st1)"
    using request_ok [OF assms] by metis
  define t where "t = fl_text (flattenAssistantMessage m)"
  define st2 where "st2 = (pushMessage m st1)\<lparr>ls_lastAssistant := Some m\<rparr>"
  define st3 where "st3 = (if callsOf m \<noteq> [] \<and> t \<noteq> [] then emitIf (\<lambda>s l. emitRoundProgress env (roundPhase rnd) l s) (e_assistantProgress env t) st2 else st2)"
  have "core st3 = core st2" by (simp add: st3_def frame)
  then have l3: "ls_lastAssistant st3 = Some m" by (simp add: core_def st2_def)
  then have "ls_lastAssistant (runModelCalls env rnd (callsOf m) st3) \<noteq> None"
    using steps_runModelCalls [of env st3 rnd "callsOf m"] by (simp add: steps_def)
  moreover have "ls_lastAssistant st4 \<noteq> None" if "askAgain env rnd t st3 = Inr (Some st4)" for st4
    using quiet_askAgain [OF that] l3 by (simp add: quiet_def core_def)
  moreover have "playRound env rnd st =
       (if callsOf m = [] then (case askAgain env rnd t st3 of Inl e \<Rightarrow> Failed e st3 | Inr (Some st4) \<Rightarrow> Continue st4 | Inr None \<Rightarrow> Stop st3)
        else if ls_forceWait (runModelCalls env rnd (callsOf m) st3) \<or> ls_blocked (runModelCalls env rnd (callsOf m) st3) \<noteq> None
            \<or> ls_guardrail (runModelCalls env rnd (callsOf m) st3) \<noteq> None
        then Stop (runModelCalls env rnd (callsOf m) st3) else Continue (runModelCalls env rnd (callsOf m) st3))"
    unfolding playRound_def r prod.case sum.case Let_def t_def [symmetric] st2_def [symmetric] st3_def [symmetric] ..
  ultimately show ?thesis using l3 askAgain_error [of env rnd t st3] by (auto split: option.split sum.split)
qed

lemma roundLoop_ok:
  assumes "provider_answers env"
  shows "(\<forall>e. fst (roundLoop k env rnd st) = Some e \<longrightarrow> lookup_error env e) \<and>
    (0 < k \<and> \<not> ls_forceWait st \<longrightarrow> ls_lastAssistant (snd (roundLoop k env rnd st)) \<noteq> None) \<and> (ls_forceWait st \<longrightarrow> snd (roundLoop k env rnd st) = st)"
proof (induction k arbitrary: rnd st)
  case (Suc k)
  show ?case
  proof (cases "playRound env rnd st")
    case (Continue st')
    then have "ls_lastAssistant st' \<noteq> None" using playRound_ok [OF assms, of rnd st] by simp
    then have "ls_lastAssistant (snd (roundLoop k env (Suc rnd) st')) \<noteq> None"
      using steps_roundLoop [of env k st' "Suc rnd"] by (simp add: steps_def)
    then show ?thesis using Continue Suc.IH [of "Suc rnd" st'] by simp
  next
    case (Stop st')
    then show ?thesis using playRound_ok [OF assms, of rnd st] by simp
  next
    case (Failed e st')
    then show ?thesis using playRound_ok [OF assms, of rnd st e st'] by simp
  qed
qed simp

lemma nonblank_join: "\<not> is_ws c \<Longrightarrow> trim (js_join sep ((c # s) # ws)) \<noteq> []"
  by (cases ws) (auto simp: trim_eq_Nil_iff)

lemma nonblank_append: "trim t \<noteq> [] \<Longrightarrow> trim (s @ t) \<noteq> []" "trim s \<noteq> [] \<Longrightarrow> trim (s @ t) \<noteq> []"
  by (auto simp: trim_eq_Nil_iff)

lemma nonblank_default: "trim a \<noteq> [] \<Longrightarrow> trim (if trim m = [] then a else m) \<noteq> []"
  by simp

lemma nonblank_if: "trim a \<noteq> [] \<Longrightarrow> trim b \<noteq> [] \<Longrightarrow> trim (if c then a else b) \<noteq> []"
  by simp

lemma nonblank_Cons: "\<not> is_ws c \<Longrightarrow> trim (c # s) \<noteq> []"
  by (simp add: trim_eq_Nil_iff)

lemma is_ws_I [simp]: "\<not> is_ws (CHR ''I'')"
  by (simp add: is_ws_def)

lemma draft_nonblank: "trim (draftMessage env a st) \<noteq> []"
  unfolding draftMessage_def Let_def EMPTY_MESSAGE_def
  by (rule nonblank_default, rule nonblank_if, rule nonblank_join, simp, rule nonblank_Cons, simp)

lemma failure_nonblank: "trim (failureReport st) \<noteq> []"
  unfolding failureReport_def
  by (subst filter.simps, subst if_P, simp, rule nonblank_join, simp)

lemma nonblank_last: "trim t \<noteq> [] \<Longrightarrow> trim (js_join sep (ws @ [t])) \<noteq> []"
  by (induction sep "ws @ [t]" arbitrary: ws rule: js_join.induct) (auto simp: trim_eq_Nil_iff Cons_eq_append_conv)

lemma compose_nonblank:
  assumes "ls_guardrail st \<in> {None, Some GUARDRAIL_MESSAGE}"
  shows "trim (composeMessage env a st) \<noteq> []"
proof (cases "ls_guardrail st")
  case (Some g)
  have "trim GUARDRAIL_MESSAGE \<noteq> []" unfolding GUARDRAIL_MESSAGE_def by (rule nonblank_Cons) simp
  then show ?thesis using Some assms by (simp add: composeMessage_def Let_def)
next
  case None
  have u: "trim UNVERIFIED_MESSAGE \<noteq> []" unfolding UNVERIFIED_MESSAGE_def by (rule nonblank_join) simp
  show ?thesis
  proof (cases "ls_blocked st")
    case (Some b)
    have "trim ''If you want me to continue with checkout, send: confirm purchase'' \<noteq> []" by (rule nonblank_Cons) simp
    then show ?thesis unfolding composeMessage_def Let_def None Some option.case append_assoc [symmetric] by (rule nonblank_last)
  next
    case n: None
    show ?thesis unfolding composeMessage_def Let_def None n option.case
      by (rule nonblank_if, rule failure_nonblank, rule nonblank_if, rule u, rule draft_nonblank)
  qed
qed

lemma finishRun_answers:
  assumes "ls_lastAssistant st \<noteq> None \<or> ls_forceWait st"
  shows "(\<exists>out st'. finishRun env b st = (Inr out, st')) \<or> (\<exists>e st'. finishRun env b st = (Inl e, st') \<and> lookup_error env e)"
proof (cases "retryLogin env b st")
  case (Inl e)
  then show ?thesis using retryLogin_error [OF Inl] by (simp add: finishRun_def)
next
  case (Inr st1)
  have "ls_lastAssistant st1 = ls_lastAssistant st" using quiet_retryLogin [OF Inr] by (simp add: quiet_def core_def)
  moreover have "ls_forceWait st \<Longrightarrow> st1 = st" using Inr by (auto simp: retryLogin_def split: option.splits)
  ultimately have "ls_lastAssistant st1 \<noteq> None \<or> ls_forceWait st1" using assms by auto
  then show ?thesis by (cases "ls_lastAssistant st1"; cases "ls_forceWait st1") (simp_all add: finishRun_def Inr Let_def case_prod_beta)
qed

text \<open>
  C36. Every run is answered. When the system prompt has the identity blocks and the provider answers each request in time, with whatever
  message, the run ends with a reply that is not blank: an empty answer, failed or unverified calls, a blocked purchase, a pending
  one-time code and the stop after repeated failures all have a text. The one way to no reply is a look into the credentials vault that
  throws, which the loop does not catch: the run then fails with that error.
\<close>

theorem reply_always_given:
  assumes "provider_answers env"
  shows "(\<exists>out st. runLoop env (initialState env messages mfa checkout w) = (Inr out, st) \<and> trim (oc_message out) \<noteq> [])
    \<or> (\<exists>e st. runLoop env (initialState env messages mfa checkout w) = (Inl e, st) \<and> (\<exists>service v. e_credential env service v = Inl e))"
proof -
  let ?st0 = "initialState env messages mfa checkout w"
  obtain b st1 where a: "autoLogin env ?st0 = (b, st1)" by (metis prod.collapse)
  define st3 where "st3 = startTurn env ?st0"
  obtain e st4 where r: "roundLoop (maxToolRounds env) env 0 st3 = (e, st4)" by (metis prod.collapse)
  have k: "0 < maxToolRounds env" by (simp add: maxToolRounds_def MAX_TOOL_ROUNDS_def COMPACT_MODE_MAX_TOOL_ROUNDS_def)
  have e: "e = Some x \<Longrightarrow> lookup_error env x" for x using roundLoop_ok [OF assms, of "maxToolRounds env" 0 st3] by (simp add: r)
  have l: "ls_lastAssistant st4 \<noteq> None \<or> ls_forceWait st4"
    using roundLoop_ok [OF assms, of "maxToolRounds env" 0 st3] k by (auto simp: r)
  have t: "st3 = (afterAutoLogin env b st1)\<lparr>ls_checkout := snd (beginCheckoutWorkflowTurn (now_of env (afterAutoLogin env b st1))
      (e_sessionId env) (e_message env) (ls_checkout (afterAutoLogin env b st1)))\<rparr>"
    by (simp add: st3_def startTurn_def turnState_def a Let_def)
  have run: "runLoop env ?st0 = (case e of Some x \<Rightarrow> (Inl x, st4) | None \<Rightarrow> finishRun env b st4)"
    using r unfolding runLoop_def a Let_def prod.case t by (simp split: option.split)
  have "trim (oc_message out) \<noteq> []" if run: "runLoop env ?st0 = (Inr out, st)" for out st
  proof -
    have "ls_guardrail st \<in> {None, Some GUARDRAIL_MESSAGE}" using runLoop_flags [OF run] unfolding flags_follow_def by blast
    then show ?thesis using runLoop_message [OF run] compose_nonblank by metis
  qed
  then show ?thesis using run e finishRun_answers [OF l, of env b] unfolding lookup_error_def [symmetric] by (cases e) auto
qed

section \<open>A session\<close>

text \<open>A provider that orders first and answers then, and a browser that does what it is told; the world counts the requests.\<close>

definition demo_order_call :: jsv where
  "demo_order_call = JObj [(''role'', JStr ''assistant''), (''content'', JArr [JObj [(''type'', JStr ''toolCall''), (''id'', JStr ''c1''),
     (''name'', JStr ''browser''), (''arguments'', JObj [(''action'', JStr ''submit''), (''selector'', JStr ''place order'')])]])]"

definition demo_order_answer :: jsv where
  "demo_order_answer = JObj [(''role'', JStr ''assistant''), (''content'', JArr [JObj [(''type'', JStr ''text''), (''text'', JStr ''Ordered.'')]])]"

definition demo_browser :: "nat agent_tool_impl" where
  "demo_browser = \<lparr>tool_name = ''browser'', tool_description = [], owner_only = False, tool_parameters = JObj [],
     tool_execute = (\<lambda>_ _ w. (\<lparr>run_partials = [], run_settles = Some 1, run_outcome = Inr (JObj [(''ok'', JBool True)])\<rparr>, w))\<rparr>"

definition demo_loop_env :: "nat loop_env" where
  "demo_loop_env = \<lparr>e_tools = [demo_browser], e_toolDefinitions = toToolDefinitions [demo_browser], e_normalizeParameters = (\<lambda>t. t),
     e_systemPrompt = ''<assistant_soul></assistant_soul><user_profile></user_profile>'', e_sessionId = ''s'', e_channel = ''webchat'',
     e_message = ''confirm purchase'', e_provider = ''p'', e_model = ''m'', e_endpoint = [], e_discoveredModels = [], e_compactMode = False,
     e_forceToolUse = False, e_smallTalk = False, e_emailAlways = False, e_pendingMfa = False, e_autoAuthIntent = False, e_savedService = None,
     e_lookupService = (\<lambda>_. None), e_historyLimit = 6, e_toolLimit = 1000, e_providerLimit = 1000, e_contextMax = 1000, e_synthProgress = False,
     e_homedir = ''/home/u'', e_cwd = ''/home/u'', e_complete = (\<lambda>_ _ w. ((Some 1, Inr (if w = 0 then demo_order_call else demo_order_answer)), Suc w)),
     e_clock = int, e_parseJson = (\<lambda>_. None), e_parseUrl = (\<lambda>_. None), e_hostname = (\<lambda>_. None), e_hasSite = (\<lambda>_. False), e_targetUrl = None,
     e_serviceUrl = (\<lambda>_. None), e_credential = (\<lambda>_ _. Inr False), e_emailCode = (\<lambda>_. None), e_identityQuestion = False, e_grounded = (\<lambda>_. True),
     e_groundingInstruction = [], e_stripLeak = (\<lambda>t. t), e_asksIdentifier = (\<lambda>_. False), e_refusedOtp = (\<lambda>_. False), e_reminder = (\<lambda>_. None),
     e_argsProgress = (\<lambda>_ _. None), e_outcomeProgress = (\<lambda>_ _. None), e_assistantProgress = (\<lambda>_. None), e_progressLine = (\<lambda>_. None),
     e_fallbackMessage = (\<lambda>_ _. [])\<rparr>"

definition demo_loop_run :: "(string + reply_outcome) \<times> nat loop_state" where
  "demo_loop_run = runLoop demo_loop_env (initialState demo_loop_env [] [] [] 0)"

lemma demo_loop_facts:
  "case demo_loop_run of (r, st) \<Rightarrow>
     r = Inr \<lparr>oc_message = UNVERIFIED_MESSAGE, oc_thinking = None\<rparr> \<and> \<not> ls_forceWait st \<and>
     map (\<lambda>x. (tc_id (xq_call x), detectCheckoutRisk (tc_name (xq_call x)) (xq_guardArgs x) \<noteq> None)) (ls_executed st) = [(''c1'', True)] \<and>
     open_claim (requestLikelyNeedsCompletionVerification (e_message demo_loop_env)) (ls_runs st) \<and> list_all plainly_written (ls_runs st)"
  by code_simp

lemma demo_loop_answers: "provider_answers demo_loop_env"
proof -
  have "promptHasIdentity (e_systemPrompt demo_loop_env) = None" by code_simp
  then show ?thesis by (simp add: provider_answers_def demo_loop_env_def)
qed

theorem purchase_needs_confirmation_witness:
  "let x = hd (ls_executed (snd demo_loop_run)) in tc_id (xq_call x) = ''c1'' \<and> \<not> cancels ''confirm purchase'' \<and>
    (confirms ''confirm purchase'' \<and> xq_time x < now_of demo_loop_env (turnState demo_loop_env (initialState demo_loop_env [] [] [] 0)) + CHECKOUT_CONFIRM_TTL_MS
     \<or> \<not> confirms ''confirm purchase'' \<and> xq_time x < until [] ''s'')"
proof -
  define x where "x = hd (ls_executed (snd demo_loop_run))"
  have "x \<in> set (ls_executed (snd demo_loop_run))" "tc_id (xq_call x) = ''c1''" "detectCheckoutRisk (tc_name (xq_call x)) (xq_guardArgs x) \<noteq> None"
    using demo_loop_facts by (auto simp: x_def case_prod_beta map_eq_Cons_conv)
  moreover have "runLoop demo_loop_env (initialState demo_loop_env [] [] [] 0) = (fst demo_loop_run, snd demo_loop_run)" by (simp add: demo_loop_run_def)
  moreover have "0 \<le> e_clock demo_loop_env v" "e_message demo_loop_env = ''confirm purchase''" "e_sessionId demo_loop_env = ''s''" for v by (simp_all add: demo_loop_env_def)
  ultimately show ?thesis
    using purchase_needs_confirmation [of demo_loop_env "[]" "[]" "[]" 0 "fst demo_loop_run" "snd demo_loop_run" x] unfolding Let_def x_def by simp
qed

theorem unverified_change_not_claimed_witness:
  "composeMessage demo_loop_env demo_order_answer (snd demo_loop_run) = UNVERIFIED_MESSAGE"
proof -
  let ?st = "snd demo_loop_run"
  have run: "runLoop demo_loop_env (initialState demo_loop_env [] [] [] 0) = (Inr \<lparr>oc_message = UNVERIFIED_MESSAGE, oc_thinking = None\<rparr>, ?st)"
    using demo_loop_facts by (simp add: case_prod_beta demo_loop_run_def [symmetric] prod_eq_iff)
  have f: "\<not> ls_forceWait ?st" "list_all plainly_written (ls_runs ?st)"
    "open_claim (requestLikelyNeedsCompletionVerification (e_message demo_loop_env)) (ls_runs ?st)"
    using demo_loop_facts by (simp_all add: case_prod_beta)
  from unverified_change_not_claimed [OF run f(1,2) f(3) [unfolded open_claim_iff [OF f(2)]], of demo_order_answer] show ?thesis by simp
qed

theorem reply_always_given_witness:
  "\<exists>out st. runLoop demo_loop_env (initialState demo_loop_env [demo_order_answer] [] [] 0) = (Inr out, st) \<and> trim (oc_message out) \<noteq> []"
  using reply_always_given [OF demo_loop_answers, of "[demo_order_answer]" "[]" "[]" 0] by (simp add: demo_loop_env_def)

text \<open>
  Finding: when the vault cannot be opened, a run whose model answered is rejected. The provider asks which email to use after it has opened
  a page; the loop looks for a login of that page, and the error of the vault ends the run without a reply.
\<close>

definition demo_open_call :: jsv where
  "demo_open_call = JObj [(''role'', JStr ''assistant''), (''content'', JArr [JObj [(''type'', JStr ''toolCall''), (''id'', JStr ''c1''),
     (''name'', JStr ''browser''), (''arguments'', JObj [(''action'', JStr ''open''), (''url'', JStr ''https://shop.example'')])]])]"

definition demo_broken_vault :: "nat loop_env" where
  "demo_broken_vault = demo_loop_env\<lparr>e_message := ''log in to shop.example'', e_asksIdentifier := (\<lambda>_. True),
     e_complete := (\<lambda>_ _ w. ((Some 1, Inr (if w = 0 then demo_open_call else demo_order_answer)), Suc w)),
     e_parseJson := (\<lambda>_. Some (JObj [(''url'', JStr ''https://shop.example'')])), e_hostname := (\<lambda>_. Some ''shop.example''),
     e_credential := (\<lambda>_ _. Inl ''Vault cannot be decrypted'')\<rparr>"

theorem unreadable_vault_rejects_run:
  "fst (runLoop demo_broken_vault (initialState demo_broken_vault [] [] [] 0)) = Inl ''Vault cannot be decrypted''"
  by code_simp

end
