(* ===== verification/Memory_Text.thy ===== *)
theory Memory_Text
  imports Fs_Tools Js_Regex "HOL-Library.Word"
begin

text \<open>
  The text functions of \<open>agents/tools/memory-tools.ts\<close>: normalisation of tags, sources, namespaces and trust tiers, tokens and
  their similarity, previews, contradictions between memories, and the test for secrets. Hashes are 32-bit words, as \<open>Math.imul\<close> makes
  them; similarities are rationals.
\<close>

unbundle bit_operations_syntax

section \<open>Normalisation\<close>

definition isRecord :: "jsv \<Rightarrow> bool" where
  "isRecord v \<longleftrightarrow> is_object v \<and> \<not> is_array v"

definition clampInt :: "jsv \<Rightarrow> int \<Rightarrow> int \<Rightarrow> int \<Rightarrow> int" where
  "clampInt v lo hi fallback = (case to_num v of Fin q \<Rightarrow> max lo (min hi \<lfloor>q\<rfloor>) | _ \<Rightarrow> fallback)"

definition clampNumber :: "jsv \<Rightarrow> rat \<Rightarrow> rat \<Rightarrow> rat \<Rightarrow> rat" where
  "clampNumber v lo hi fallback = (case to_num v of Fin q \<Rightarrow> max lo (min hi q) | _ \<Rightarrow> fallback)"

definition normText :: "jsv \<Rightarrow> string" where
  "normText v = to_lower (trim (str_or_empty v))"

definition normalizeTags :: "jsv \<Rightarrow> string list" where
  "normalizeTags v = (if \<not> is_array v then [] else take 20 (dedup (filter (\<lambda>t. t \<noteq> []) (map normText (elems v)))))"

definition name_char :: "char \<Rightarrow> bool" where
  "name_char c \<longleftrightarrow> is_lower c \<or> is_digit c \<or> c \<in> set ''._/-''"

definition shortName :: "nat \<Rightarrow> nat \<Rightarrow> string \<Rightarrow> bool" where
  "shortName lo hi s \<longleftrightarrow> lo \<le> length s \<and> length s \<le> hi \<and> list_all name_char s"

definition normalizeSource :: "jsv \<Rightarrow> string \<Rightarrow> string" where
  "normalizeSource v fallback = (if shortName 2 32 (normText v) then normText v else fallback)"

definition normalizeNamespace :: "jsv \<Rightarrow> string \<Rightarrow> string" where
  "normalizeNamespace v fallback = (if shortName 1 64 (normText v) then normText v else fallback)"

datatype trust_tier = Unverified | Observed | Verified | SystemTier

fun tier_name :: "trust_tier \<Rightarrow> string" where
  "tier_name Unverified = ''unverified''"
| "tier_name Observed = ''observed''"
| "tier_name Verified = ''verified''"
| "tier_name SystemTier = ''system''"

definition TRUST_TIERS :: "trust_tier list" where
  "TRUST_TIERS = [Unverified, Observed, Verified, SystemTier]"

definition normalizeTrustTier :: "jsv \<Rightarrow> trust_tier \<Rightarrow> trust_tier" where
  "normalizeTrustTier v fallback = (case List.find (\<lambda>t. tier_name t = normText v) TRUST_TIERS of Some t \<Rightarrow> t | None \<Rightarrow> fallback)"

fun trustTierRank :: "trust_tier \<Rightarrow> nat" where
  "trustTierRank Unverified = 0"
| "trustTierRank Observed = 1"
| "trustTierRank Verified = 2"
| "trustTierRank SystemTier = 3"

datatype eviction_policy = StaleLowSignal | LowSignalFirst | Oldest

fun policy_name :: "eviction_policy \<Rightarrow> string" where
  "policy_name StaleLowSignal = ''stale_low_signal''"
| "policy_name LowSignalFirst = ''low_signal_first''"
| "policy_name Oldest = ''oldest''"

definition normalizeEvictionPolicy :: "jsv \<Rightarrow> eviction_policy \<Rightarrow> eviction_policy" where
  "normalizeEvictionPolicy v fallback =
     (case List.find (\<lambda>p. policy_name p = normText v) [StaleLowSignal, LowSignalFirst, Oldest] of Some p \<Rightarrow> p | None \<Rightarrow> fallback)"

section \<open>Quotas\<close>

record namespace_quota =
  nq_maxEntries :: int
  nq_maxBytes :: int
  nq_policy :: eviction_policy

record quota_config =
  qc_defaults :: namespace_quota
  qc_perNamespace :: "(string, namespace_quota) omap"

definition DEFAULT_NAMESPACE :: string where "DEFAULT_NAMESPACE = ''global''"

definition parseNamespaceQuotaValue :: "jsv \<Rightarrow> namespace_quota \<Rightarrow> namespace_quota" where
  "parseNamespaceQuotaValue raw d =
     (let row = (if isRecord raw then raw else JObj []) in
      \<lparr>nq_maxEntries = clampInt (jget row ''maxEntries'') 1 100000 (nq_maxEntries d),
       nq_maxBytes = clampInt (jget row ''maxBytes'') 8000 200000000 (nq_maxBytes d),
       nq_policy = normalizeEvictionPolicy (jget row ''evictionPolicy'') (nq_policy d)\<rparr>)"

definition defaultQuota :: "(string \<Rightarrow> jsv) \<Rightarrow> namespace_quota" where
  "defaultQuota env =
     \<lparr>nq_maxEntries = clampInt (env ''T560_MEMORY_MAX_ENTRIES'') 1 100000 2000,
      nq_maxBytes = clampInt (env ''T560_MEMORY_MAX_BYTES'') 8000 200000000 4000000,
      nq_policy = normalizeEvictionPolicy (env ''T560_MEMORY_EVICTION_POLICY'') StaleLowSignal\<rparr>"

text \<open>\<open>parse\<close> is \<open>JSON.parse\<close>, \<open>None\<close> when it throws.\<close>

definition resolveNamespaceQuotaConfigFromEnv :: "(string \<Rightarrow> jsv option) \<Rightarrow> (string \<Rightarrow> jsv) \<Rightarrow> quota_config" where
  "resolveNamespaceQuotaConfigFromEnv parse env =
     (let d = defaultQuota env; raw = trim (str_or_empty (env ''T560_MEMORY_NAMESPACE_LIMITS'')) in
      \<lparr>qc_defaults = d,
       qc_perNamespace =
         (case (if raw = [] then None else parse raw) of
            Some v \<Rightarrow>
              if isRecord v
              then foldl (\<lambda>m (k, x). let ns = normalizeNamespace (JStr k) [] in
                     if ns = [] then m else AList.update ns (parseNamespaceQuotaValue x d) m) [] (obj_entries v)
              else []
          | None \<Rightarrow> [])\<rparr>)"

text \<open>
  \<open>config.perNamespace[namespace] ?? config.defaults\<close> on a plain object. The inherited members that are valid names of a namespace are
  \<open>constructor\<close>, a function, and \<open>__proto__\<close>, the prototype: neither has limits (\<open>None\<close>). A quota configured for
  \<open>__proto__\<close> becomes the prototype of the table and is read back as such, like an entry of its own.
\<close>

definition resolveNamespaceQuota :: "quota_config \<Rightarrow> string \<Rightarrow> namespace_quota option" where
  "resolveNamespaceQuota cfg ns =
     (case map_of (qc_perNamespace cfg) ns of
        Some q \<Rightarrow> Some q
      | None \<Rightarrow> if inherited_member ns then None else Some (qc_defaults cfg))"

section \<open>Tokens\<close>

definition token_aliases :: "(string \<times> string) list" where
  "token_aliases =
     [(''automate'', ''automation''), (''automating'', ''automation''), (''automation'', ''automation''), (''deploy'', ''deployment''),
      (''deploying'', ''deployment''), (''deployment'', ''deployment''), (''auth'', ''authentication''), (''authenticate'', ''authentication''),
      (''authentication'', ''authentication''), (''prefs'', ''preference''), (''prefer'', ''preference''), (''preferred'', ''preference''),
      (''like'', ''preference''), (''likes'', ''preference''), (''pipeline'', ''workflow''), (''pipelines'', ''workflow'')]"

text \<open>The table is a plain object too: for \<open>constructor\<close> the result is a function (\<open>None\<close>), whose \<open>length\<close> is one.\<close>

definition canonicalizeToken :: "string \<Rightarrow> string option" where
  "canonicalizeToken token =
     (let raw = to_lower (trim token) in
      if raw = [] then Some []
      else if raw = ''constructor'' then None
      else case map_of token_aliases raw of
             Some a \<Rightarrow> Some a
           | None \<Rightarrow>
               if ends_with raw ''ing'' \<and> 5 < length raw then Some (drop_last 3 raw)
               else if ends_with raw ''ed'' \<and> 4 < length raw then Some (drop_last 2 raw)
               else if ends_with raw ''s'' \<and> 3 < length raw then Some (drop_last 1 raw)
               else Some raw)"

definition word_or_ws :: "char \<Rightarrow> bool" where
  "word_or_ws c \<longleftrightarrow> is_lower c \<or> is_digit c \<or> is_ws c"

definition tokens_longer :: "nat \<Rightarrow> string \<Rightarrow> string list" where
  "tokens_longer n s =
     concat (map (\<lambda>w. case canonicalizeToken w of Some t \<Rightarrow> if n < length t then [t] else [] | None \<Rightarrow> [])
       (js_words (replace_chars (\<lambda>c. \<not> word_or_ws c) '' '' (to_lower s))))"

definition tokenizeQuery :: "string \<Rightarrow> string list" where
  "tokenizeQuery query = take 24 (dedup (tokens_longer 1 query))"

definition tokenizeForSimilarity :: "string \<Rightarrow> string list" where
  "tokenizeForSimilarity value = dedup (take 80 (tokens_longer 2 value))"

definition countMatchedTokens :: "string \<Rightarrow> string list \<Rightarrow> nat" where
  "countMatchedTokens haystack tokens = length (filter (str_includes (to_lower haystack)) tokens)"

definition computeScore :: "string \<Rightarrow> string \<Rightarrow> string list \<Rightarrow> nat" where
  "computeScore haystack query tokens =
     (if query \<noteq> [] \<and> str_includes (to_lower haystack) query then 70 else 0) + 8 * countMatchedTokens haystack tokens"

definition normalizeTitleKey :: "string \<Rightarrow> string" where
  "normalizeTitleKey v = trim (replace_ws '' '' (replace_chars (\<lambda>c. \<not> (is_lower c \<or> is_digit c)) '' '' (to_lower v)))"

section \<open>Similarity\<close>

definition VECTOR_DIM :: nat where "VECTOR_DIM = 128"

definition tokenHash :: "string \<Rightarrow> 32 word" where
  "tokenHash token = foldl (\<lambda>h c. (h XOR word_of_int (code_of c)) * 16777619) 2166136261 token"

definition tokenBucket :: "string \<Rightarrow> nat" where
  "tokenBucket token = nat \<bar>sint (tokenHash token)\<bar> mod VECTOR_DIM"

definition embedTokens :: "string list \<Rightarrow> (nat, nat) omap" where
  "embedTokens tokens =
     foldl (\<lambda>vec t. if t = [] then vec
        else AList.update (tokenBucket t) ((case map_of vec (tokenBucket t) of Some n \<Rightarrow> n | None \<Rightarrow> 0) + 1) vec) [] tokens"

definition squares :: "(nat, nat) omap \<Rightarrow> nat" where
  "squares v = sum_list (map (\<lambda>(_, n). n * n) v)"

definition dotProduct :: "(nat, nat) omap \<Rightarrow> (nat, nat) omap \<Rightarrow> nat" where
  "dotProduct a b = sum_list (map (\<lambda>(k, n). n * (case map_of b k of Some m \<Rightarrow> m | None \<Rightarrow> 0)) a)"

text \<open>
  \<open>Math.round(cosineSimilarity(a, b) * 30)\<close>: the cosine is \<open>dot / sqrt n\<close>, so the result is the number of the half steps below thirty
  times it, which are compared after squaring.
\<close>

definition similarityPoints :: "(nat, nat) omap \<Rightarrow> (nat, nat) omap \<Rightarrow> nat" where
  "similarityPoints a b =
     (let n = squares a * squares b in
      if a = [] \<or> b = [] \<or> n = 0 then 0
      else length (filter (\<lambda>k. (2 * k - 1) * (2 * k - 1) * n \<le> 60 * dotProduct a b * (60 * dotProduct a b)) [1..<31]))"

definition jaccardSimilarity :: "string list \<Rightarrow> string list \<Rightarrow> rat" where
  "jaccardSimilarity l r =
     (let i = length (filter (\<lambda>t. t \<in> set r) l); u = length l + length r - i in
      if l = [] \<or> r = [] \<or> u = 0 then 0 else of_nat i / of_nat u)"

section \<open>Texts\<close>

definition clipText :: "string \<Rightarrow> nat \<Rightarrow> string \<times> bool" where
  "clipText s maxChars =
     (if length s \<le> maxChars then (s, False) else (take maxChars s @ [CHR 0x0A, CHR 0x0A] @ ''[truncated]'', True))"

definition one_line :: "string \<Rightarrow> string" where
  "one_line s = trim (replace_ws '' '' s)"

definition compactPreview :: "string \<Rightarrow> nat \<Rightarrow> string" where
  "compactPreview s maxChars =
     (let c = one_line s in
      if length c \<le> maxChars then c
      else
        let cut = last_index_of (CHR '' '') (take maxChars c);
            stop = (case cut of Some i \<Rightarrow> if maxChars * 3 div 5 \<le> i then i else maxChars - 1 | None \<Rightarrow> maxChars - 1)
        in trim (take stop c) @ ''...'')"

definition buildPreviewAroundQuery :: "string \<Rightarrow> string \<Rightarrow> string" where
  "buildPreviewAroundQuery content query =
     (let c = one_line content in
      if c = [] then []
      else if query = [] then compactPreview c 280
      else case find_sub query (to_lower c) of
             None \<Rightarrow> compactPreview c 280
           | Some idx \<Rightarrow>
               let start = idx - 90; stop = min (length c) (idx + max 140 (length query + 90)) in
               (if 0 < start then ''...'' else []) @ drop start (take stop c) @ (if stop < length c then ''...'' else []))"

definition mergeMemoryTags :: "string list \<Rightarrow> string list \<Rightarrow> string list" where
  "mergeMemoryTags old new = normalizeTags (JArr (map JStr (old @ new)))"

text \<open>\<open>today\<close> is the time of the call as \<open>toISOString\<close> writes it.\<close>

definition mergeMemoryContent :: "string \<Rightarrow> string \<Rightarrow> string \<Rightarrow> string" where
  "mergeMemoryContent today existing incoming =
     (let oldText = trim existing; newText = trim incoming in
      if oldText = [] then newText
      else if newText = [] then oldText
      else if oldText = newText then oldText
      else if str_includes newText oldText then newText
      else if str_includes oldText newText then oldText
      else oldText @ [CHR 0x0A, CHR 0x0A] @ ''Update ('' @ take 10 today @ ''): '' @ newText)"

fun unix_breaks :: "string \<Rightarrow> string" where
  "unix_breaks [] = []"
| "unix_breaks [c] = [c]"
| "unix_breaks (c # d # s) = (if c = CHR 0x0D \<and> d = CHR 0x0A then d # unix_breaks s else c # unix_breaks (d # s))"

definition normalizeLineBreaks :: "string \<Rightarrow> string list" where
  "normalizeLineBreaks s = split_on (CHR 0x0A) (unix_breaks s)"

section \<open>Contradictions\<close>

definition normalizeComparablePhrase :: "string \<Rightarrow> string" where
  "normalizeComparablePhrase v = one_line (replace_chars (\<lambda>c. \<not> (is_word_char c \<or> is_ws c \<or> c = CHR ''-'')) '' '' (to_lower v))"

text \<open>What a greedy class of 2 to 120 characters captures behind the leftmost match of an expression.\<close>

definition capture_here :: "rx \<Rightarrow> (char \<Rightarrow> bool) \<Rightarrow> pos \<Rightarrow> string option" where
  "capture_here r p x =
     (case filter (\<lambda>y. 2 \<le> length (takeWhile p (snd y))) (rmatch r x) of
        [] \<Rightarrow> None
      | y # _ \<Rightarrow> Some (take 120 (takeWhile p (snd y))))"

fun rx_capture :: "rx \<Rightarrow> (char \<Rightarrow> bool) \<Rightarrow> pos \<Rightarrow> string option" where
  "rx_capture r p (prev, []) = capture_here r p (prev, [])"
| "rx_capture r p (prev, c # s) =
     (case capture_here r p (prev, c # s) of Some t \<Rightarrow> Some t | None \<Rightarrow> rx_capture r p (Some c, s))"

definition verb :: "string \<Rightarrow> string list \<Rightarrow> rx" where
  "verb stem ends = Seq [Lit stem, Opt (Alt (map Lit ends))]"

definition preference_patterns :: "rx list" where
  "preference_patterns =
     [Seq [Bound, Alt [verb ''prefer'' [''s'', ''red''], verb ''like'' [''s'', ''d''], verb ''love'' [''s'', ''d''], verb ''use'' [''s'', ''d'']],
        Many 1 is_ws],
      Seq [Bound, Alt [Seq [Lit ''switched'', Many 1 is_ws, Lit ''to''], Seq [Lit ''moved'', Many 1 is_ws, Lit ''to'']], Many 1 is_ws]]"

definition target_char :: "char \<Rightarrow> bool" where
  "target_char c \<longleftrightarrow> c \<noteq> CHR ''.'' \<and> c \<noteq> CHR '';'' \<and> c \<noteq> CHR 0x0A"

fun first_capture :: "rx list \<Rightarrow> string \<Rightarrow> string option" where
  "first_capture [] s = None"
| "first_capture (r # rs) s = (case rx_capture r target_char (None, s) of Some t \<Rightarrow> Some t | None \<Rightarrow> first_capture rs s)"

definition extractPreferenceTarget :: "string \<Rightarrow> string" where
  "extractPreferenceTarget content =
     (let source = normalizeComparablePhrase content in
      if source = [] then []
      else case first_capture preference_patterns source of Some t \<Rightarrow> normalizeComparablePhrase t | None \<Rightarrow> [])"

definition hasNegativePreferenceSignal :: "string \<Rightarrow> bool" where
  "hasNegativePreferenceSignal content =
     rx_test (Seq [Bound, Alt [verb ''dislike'' [''s'', ''d''], verb ''hate'' [''s'', ''d''], verb ''avoid'' [''s'', ''ed''], Lit ''no longer'',
        Lit ''stopped using'', Lit ''switched from''], Bound]) (normalizeComparablePhrase content)"

definition quote_text :: "string \<Rightarrow> string" where
  "quote_text s = [CHR 0x22] @ s @ [CHR 0x22]"

definition targetConflict :: "string \<Rightarrow> string \<Rightarrow> string option option" where
  "targetConflict oldTarget newTarget =
     (if oldTarget \<noteq> [] \<and> newTarget \<noteq> [] \<and> oldTarget \<noteq> newTarget then
        if str_includes oldTarget newTarget \<or> str_includes newTarget oldTarget then Some None
        else if jaccardSimilarity (tokenizeForSimilarity oldTarget) (tokenizeForSimilarity newTarget) < 3 / 4
        then Some (Some (''Preference target changed from '' @ quote_text oldTarget @ '' to '' @ quote_text newTarget @ ''.''))
        else None
      else None)"

definition detectConflictReason :: "string \<Rightarrow> string \<Rightarrow> string option" where
  "detectConflictReason existingContent incomingContent =
     (let old = normalizeComparablePhrase existingContent; new = normalizeComparablePhrase incomingContent in
      if old = [] \<or> new = [] then None
      else if old = new \<or> str_includes old new \<or> str_includes new old then None
      else case targetConflict (extractPreferenceTarget old) (extractPreferenceTarget new) of
             Some verdict \<Rightarrow> verdict
           | None \<Rightarrow>
               if hasNegativePreferenceSignal old \<noteq> hasNegativePreferenceSignal new
               then Some ''Preference polarity appears to have changed (positive vs negative).''
               else if jaccardSimilarity (tokenizeForSimilarity old) (tokenizeForSimilarity new) \<le> 1 / 4
               then Some ''New memory content diverges strongly from the existing entry.''
               else None)"

section \<open>Secrets\<close>

text \<open>Literals with case, the classes of the expressions.\<close>

definition rx_exact :: "string \<Rightarrow> rx" where
  "rx_exact s = Seq (map (\<lambda>c. Cls (\<lambda>x. x = c)) s)"

definition key_char :: "char \<Rightarrow> bool" where
  "key_char c \<longleftrightarrow> is_word_char c \<or> c = CHR ''-''"

definition id_char :: "char \<Rightarrow> bool" where
  "id_char c \<longleftrightarrow> is_upper c \<or> is_digit c"

definition secret_patterns :: "rx list" where
  "secret_patterns =
     [Seq [rx_exact ''-----BEGIN '', Many 0 (\<lambda>c. is_upper c \<or> c = CHR '' ''), rx_exact ''PRIVATE KEY-----''],
      Seq [Bound, Alt [rx_exact ''sk'', rx_exact ''pk''], rx_exact ''_'', Many 16 is_alnum, Bound],
      Seq [Bound, rx_exact ''gh'', Cls (\<lambda>c. c \<in> set ''pousr''), rx_exact ''_'', Many 20 is_alnum, Bound],
      Seq [Bound, rx_exact ''AKIA'', Run 16 16 id_char, Bound],
      Seq [Bound, rx_exact ''ASIA'', Run 16 16 id_char, Bound],
      Seq [Bound, rx_exact ''xox'', Cls (\<lambda>c. c \<in> set ''baprs''), rx_exact ''-'', Many 10 (\<lambda>c. is_alnum c \<or> c = CHR ''-''), Bound],
      Seq [Bound, rx_exact ''AIza'', Many 30 key_char, Bound],
      Seq [Bound, rx_exact ''eyJ'', Many 10 key_char, rx_exact ''.'', Many 10 key_char, rx_exact ''.'', Many 10 key_char, Bound]]"

definition long_text :: rx where
  "long_text = Seq [Bound, Many 32 (\<lambda>c. is_alnum c \<or> c \<in> set ''+/_=-''), Bound]"

definition secret_word :: rx where
  "secret_word = Seq [Bound, Alt [Lit ''secret'', Lit ''token'', Lit ''password'',
     Seq [Lit ''api'', Opt (Cls (\<lambda>c. c \<in> set ''-_ '')), Lit ''key''], Lit ''passcode''], Bound]"

definition containsLikelySecret :: "string \<Rightarrow> bool" where
  "containsLikelySecret s \<longleftrightarrow>
     trim s \<noteq> [] \<and> (list_ex (\<lambda>r. rx_test r s) secret_patterns \<or> rx_test long_text s \<and> rx_test secret_word s)"

end
