(* ===== verification/Memory_Store.thy ===== *)
theory Memory_Store
  imports Memory_Text Tool_Result
begin

text \<open>
  The store of \<open>agents/tools/memory-tools.ts\<close>: a file of JSON lines that is only appended to, where the last line about an id decides.
  Loading, finding, the quota of a namespace, and appending. The store implements a map from ids to entries, which is what the tools
  rely on (locale \<open>entry_log\<close>).
\<close>

section \<open>Entries\<close>

record store_entry =
  en_id :: string
  en_title :: string
  en_content :: string
  en_tags :: "string list"
  en_createdAt :: string
  en_updatedAt :: string
  en_lastAccessedAt :: string
  en_reinforceCount :: int
  en_importance :: int
  en_confidence :: rat
  en_source :: string
  en_namespace :: string
  en_trustTier :: trust_tier

definition jint :: "int \<Rightarrow> jsv" where
  "jint n = JNum (Fin (of_int n))"

definition entryJson :: "store_entry \<Rightarrow> jsv" where
  "entryJson e = JObj
     [(''id'', JStr (en_id e)), (''title'', JStr (en_title e)), (''content'', JStr (en_content e)), (''tags'', JArr (map JStr (en_tags e))),
      (''createdAt'', JStr (en_createdAt e)), (''updatedAt'', JStr (en_updatedAt e)), (''lastAccessedAt'', JStr (en_lastAccessedAt e)),
      (''reinforceCount'', jint (en_reinforceCount e)), (''importance'', jint (en_importance e)), (''confidence'', JNum (Fin (en_confidence e))),
      (''source'', JStr (en_source e)), (''namespace'', JStr (en_namespace e)), (''trustTier'', JStr (tier_name (en_trustTier e)))]"

definition or_text :: "string \<Rightarrow> string \<Rightarrow> string" where
  "or_text a b = (if a \<noteq> [] then a else b)"

definition parseStoreEntry :: "jsv \<Rightarrow> store_entry option" where
  "parseStoreEntry raw =
     (if \<not> isRecord raw then None
      else
        let field = (\<lambda>k. trim (str_or_empty (jget raw k)));
            createdAt = field ''createdAt'';
            updatedAt = trim (to_str (coalesce (jget raw ''updatedAt'') (JStr createdAt)));
            lastAccessedAt = trim (to_str (coalesce (jget raw ''lastAccessedAt'') (JStr updatedAt)))
        in if field ''id'' = [] \<or> field ''title'' = [] \<or> field ''content'' = [] \<or> createdAt = [] then None
           else Some
             \<lparr>en_id = field ''id'', en_title = field ''title'', en_content = field ''content'', en_tags = normalizeTags (jget raw ''tags''),
              en_createdAt = createdAt, en_updatedAt = or_text updatedAt createdAt,
              en_lastAccessedAt = or_text lastAccessedAt (or_text updatedAt createdAt),
              en_reinforceCount = clampInt (jget raw ''reinforceCount'') 0 10000 0,
              en_importance = clampInt (jget raw ''importance'') 1 5 3,
              en_confidence = clampNumber (jget raw ''confidence'') (1 / 20) 1 (4 / 5),
              en_source = normalizeSource (jget raw ''source'') ''user'',
              en_namespace = normalizeNamespace (jget raw ''namespace'') DEFAULT_NAMESPACE,
              en_trustTier = normalizeTrustTier (jget raw ''trustTier'') Verified\<rparr>)"

record delete_marker =
  dm_id :: string
  dm_deletedAt :: string
  dm_reason :: "string option"

definition markerJson :: "delete_marker \<Rightarrow> jsv" where
  "markerJson m = JObj ([(''type'', JStr ''delete''), (''id'', JStr (dm_id m)), (''deletedAt'', JStr (dm_deletedAt m))] @
     (case dm_reason m of Some r \<Rightarrow> [(''reason'', JStr r)] | None \<Rightarrow> []))"

definition parseStoreDeleteMarker :: "jsv \<Rightarrow> delete_marker option" where
  "parseStoreDeleteMarker raw =
     (if \<not> isRecord raw then None
      else if normText (jget raw ''type'') \<noteq> ''delete'' then None
      else
        let field = (\<lambda>k. trim (str_or_empty (jget raw k))) in
        if field ''id'' = [] \<or> field ''deletedAt'' = [] then None
        else Some \<lparr>dm_id = field ''id'', dm_deletedAt = field ''deletedAt'',
                   dm_reason = (if field ''reason'' \<noteq> [] then Some (field ''reason'') else None)\<rparr>)"

section \<open>The file\<close>

text \<open>
  A line that is JSON, with its text and its value, or another one. A file is its lines, each ended by a newline, as every write
  of the program leaves it.
\<close>

datatype mem_line = JsonLine string jsv | OtherLine string

fun line_text :: "mem_line \<Rightarrow> string" where
  "line_text (JsonLine s _) = s"
| "line_text (OtherLine s) = s"

type_synonym mem_file = "mem_line list"

fun json_flat :: "jsv \<Rightarrow> string option" where
  "json_flat JUndef = None"
| "json_flat JNull = Some ''null''"
| "json_flat (JBool b) = Some (if b then ''true'' else ''false'')"
| "json_flat (JNum n) = Some (if is_finite n then num_to_string n else ''null'')"
| "json_flat (JStr s) = Some (json_quote s)"
| "json_flat (JArr xs) = Some (''['' @ js_join '','' (map (\<lambda>x. case json_flat x of None \<Rightarrow> ''null'' | Some t \<Rightarrow> t) xs) @ '']'')"
| "json_flat (JObj fs) =
     Some (''{'' @ js_join '','' (concat (map (\<lambda>(k, x). case json_flat x of None \<Rightarrow> [] | Some t \<Rightarrow> [json_quote k @ '':'' @ t]) fs)) @ ''}'')"

text \<open>\<open>JSON.stringify(v)\<close> as a line; \<open>JSON.parse\<close> of it is \<^const>\<open>json_clean\<close>.\<close>

definition jsonLine :: "jsv \<Rightarrow> mem_line" where
  "jsonLine v = JsonLine ((case json_flat v of Some t \<Rightarrow> t | None \<Rightarrow> [])) (json_clean v)"

datatype mem_record = Entry store_entry | Removal string | Ignored

definition readLine :: "mem_line \<Rightarrow> mem_record" where
  "readLine l =
     (case l of
        OtherLine _ \<Rightarrow> Ignored
      | JsonLine _ v \<Rightarrow>
          (case parseStoreDeleteMarker v of
             Some m \<Rightarrow> Removal (dm_id m)
           | None \<Rightarrow> (case parseStoreEntry v of Some e \<Rightarrow> Entry e | None \<Rightarrow> Ignored)))"

fun enough :: "nat option \<Rightarrow> store_entry list \<Rightarrow> bool" where
  "enough None found = False"
| "enough (Some m) found = (m \<le> length found)"

text \<open>The lines from the last to the first, the entries found so far (their ids are \<open>seenIds\<close>) and the deleted ids.\<close>

fun scanLines :: "nat option \<Rightarrow> mem_line list \<Rightarrow> store_entry list \<Rightarrow> string list \<Rightarrow> store_entry list" where
  "scanLines m [] found deleted = found"
| "scanLines m (l # ls) found deleted =
     (case readLine l of
        Removal i \<Rightarrow> scanLines m ls found (i # deleted)
      | Entry e \<Rightarrow>
          if en_id e \<in> set deleted \<or> en_id e \<in> en_id ` set found then scanLines m ls found deleted
          else if enough m (found @ [e]) then found @ [e] else scanLines m ls (found @ [e]) deleted
      | Ignored \<Rightarrow> if enough m found then found else scanLines m ls found deleted)"

definition loadStoreEntries :: "nat option \<Rightarrow> mem_file option \<Rightarrow> store_entry list" where
  "loadStoreEntries m mfile = (case mfile of None \<Rightarrow> [] | Some ls \<Rightarrow> rev (scanLines m (rev ls) [] []))"

definition MAX_STORE_SCAN :: nat where "MAX_STORE_SCAN = 2000"

record memory_scope =
  sc_namespace :: string
  sc_minTrustTier :: trust_tier

definition entryMatchesScope :: "store_entry \<Rightarrow> memory_scope \<Rightarrow> bool" where
  "entryMatchesScope e scope \<longleftrightarrow>
     en_namespace e = sc_namespace scope \<and> trustTierRank (sc_minTrustTier scope) \<le> trustTierRank (en_trustTier e)"

fun findInLines :: "string \<Rightarrow> mem_line list \<Rightarrow> store_entry option" where
  "findInLines targetId [] = None"
| "findInLines targetId (OtherLine _ # ls) = findInLines targetId ls"
| "findInLines targetId (JsonLine s v # ls) =
     (if (case parseStoreDeleteMarker v of Some m \<Rightarrow> dm_id m = targetId | None \<Rightarrow> False) then None
      else case parseStoreEntry v of
             Some e \<Rightarrow> if en_id e = targetId then Some e else findInLines targetId ls
           | None \<Rightarrow> findInLines targetId ls)"

definition findStoreEntryById :: "mem_file option \<Rightarrow> string \<Rightarrow> memory_scope \<Rightarrow> store_entry option" where
  "findStoreEntryById mfile targetId scope =
     (case mfile of
        None \<Rightarrow> None
      | Some ls \<Rightarrow>
          (case findInLines targetId (rev ls) of
             Some e \<Rightarrow> if entryMatchesScope e scope then Some e else None
           | None \<Rightarrow> None))"

section \<open>Dates and quotas\<close>

text \<open>The clock, \<open>toISOString\<close> of it, \<open>Date.parse\<close> (\<open>None\<close> for \<open>NaN\<close>), a new id, the order of paths in
  the locale of the host, and the message when a path cannot be read as a file.\<close>

record mem_env =
  me_now :: int
  me_nowIso :: string
  me_parseDate :: "string \<Rightarrow> int option"
  me_uuid :: string
  me_sortPaths :: "string list \<Rightarrow> string list"
  me_ioError :: "string \<Rightarrow> string"

definition parseIsoMillis :: "mem_env \<Rightarrow> string \<Rightarrow> int" where
  "parseIsoMillis env s = (case me_parseDate env (trim s) of Some t \<Rightarrow> t | None \<Rightarrow> 0)"

text \<open>
  The newest entry of a title. The comparison is by \<open>Date.parse\<close>, and \<open>NaN\<close> where a date does not parse counts as equal; the order that
  \<open>sort\<close> gives such a list is left to the implementation, and insertion from the right is one of them.
\<close>

definition newer_first :: "mem_env \<Rightarrow> store_entry \<Rightarrow> store_entry \<Rightarrow> bool" where
  "newer_first env a b = (case (me_parseDate env (en_updatedAt a), me_parseDate env (en_updatedAt b)) of
     (Some x, Some y) \<Rightarrow> y \<le> x | _ \<Rightarrow> True)"

fun insert_sorted :: "('a \<Rightarrow> 'a \<Rightarrow> bool) \<Rightarrow> 'a \<Rightarrow> 'a list \<Rightarrow> 'a list" where
  "insert_sorted le x [] = [x]"
| "insert_sorted le x (y # ys) = (if le x y then x # y # ys else y # insert_sorted le x ys)"

definition insertion_sort :: "('a \<Rightarrow> 'a \<Rightarrow> bool) \<Rightarrow> 'a list \<Rightarrow> 'a list" where
  "insertion_sort le xs = foldr (insert_sorted le) xs []"

definition findStoreEntryByTitle :: "mem_env \<Rightarrow> mem_file option \<Rightarrow> string \<Rightarrow> memory_scope \<Rightarrow> store_entry option" where
  "findStoreEntryByTitle env mfile title scope =
     (let titleKey = normalizeTitleKey title in
      if titleKey = [] then None
      else case insertion_sort (newer_first env)
                  (filter (\<lambda>e. entryMatchesScope e scope) (filter (\<lambda>e. normalizeTitleKey (en_title e) = titleKey) (loadStoreEntries None mfile))) of
             [] \<Rightarrow> None
           | e # _ \<Rightarrow> Some e)"

definition estimateEntryBytes :: "store_entry \<Rightarrow> nat" where
  "estimateEntryBytes e = byteLength ((case json_flat (entryJson e) of Some t \<Rightarrow> t | None \<Rightarrow> [])) + 1"

definition days_since :: "int \<Rightarrow> int \<Rightarrow> int" where
  "days_since now t = max 0 ((now - t) div 86400000)"

definition computeEntrySignalScore :: "mem_env \<Rightarrow> store_entry \<Rightarrow> rat" where
  "computeEntrySignalScore env e =
     (let updatedMs = parseIsoMillis env (or_text (en_updatedAt e) (en_createdAt e));
          lastAccessMs = parseIsoMillis env (or_text (en_lastAccessedAt e) (or_text (en_updatedAt e) (en_createdAt e)));
          ageDays = (if 0 < updatedMs then days_since (me_now env) updatedMs else 0);
          accessAgeDays = (if 0 < lastAccessMs then days_since (me_now env) lastAccessMs else ageDays)
      in of_int (en_importance e * 24) + en_confidence e * 40 + of_int (en_reinforceCount e * 4) + of_nat (trustTierRank (en_trustTier e) * 10)
         - of_int ageDays * (2 / 5) - of_int accessAgeDays * (3 / 5))"

definition updatedMillis :: "mem_env \<Rightarrow> store_entry \<Rightarrow> int" where
  "updatedMillis env e = parseIsoMillis env (or_text (en_updatedAt e) (en_createdAt e))"

definition lowSignalScore :: "store_entry \<Rightarrow> rat" where
  "lowSignalScore e = of_int (en_importance e * 20) + en_confidence e * 30 + of_int (en_reinforceCount e * 5)
     + of_nat (trustTierRank (en_trustTier e) * 6)"

text \<open>A stable sort by the score of a list sorted by the date is the sort by both.\<close>

definition pickEvictionCandidate :: "mem_env \<Rightarrow> eviction_policy \<Rightarrow> store_entry list \<Rightarrow> store_entry option" where
  "pickEvictionCandidate env policy entries =
     (case (case policy of
              Oldest \<Rightarrow> sort_key (updatedMillis env) entries
            | LowSignalFirst \<Rightarrow> sort_key lowSignalScore (sort_key (updatedMillis env) entries)
            | StaleLowSignal \<Rightarrow> sort_key (computeEntrySignalScore env) (sort_key (updatedMillis env) entries)) of
        [] \<Rightarrow> None
      | e # _ \<Rightarrow> Some e)"

fun remove_id :: "string \<Rightarrow> store_entry list \<Rightarrow> store_entry list" where
  "remove_id i [] = []"
| "remove_id i (e # es) = (if en_id e = i then es else e # remove_id i es)"

definition total_bytes :: "store_entry list \<Rightarrow> int" where
  "total_bytes es = int (sum_list (map estimateEntryBytes es))"

lemma remove_id_length: "i \<in> en_id ` set es \<Longrightarrow> length (remove_id i es) < length es"
  by (induction es) auto

text \<open>The loop: what stays and what is evicted, in this order. The bytes are kept as the sum over what stays.\<close>

function evictLoop :: "mem_env \<Rightarrow> namespace_quota \<Rightarrow> string \<Rightarrow> store_entry list \<Rightarrow> store_entry list \<Rightarrow> store_entry list \<times> store_entry list" where
  "evictLoop env quota protected active evicted =
     (if nq_maxEntries quota < int (length active) \<or> nq_maxBytes quota < total_bytes active then
        case pickEvictionCandidate env (nq_policy quota) (filter (\<lambda>e. en_id e \<noteq> protected) active) of
          None \<Rightarrow> (active, evicted)
        | Some victim \<Rightarrow>
            if en_id victim \<in> en_id ` set active
            then evictLoop env quota protected (remove_id (en_id victim) active) (evicted @ [victim])
            else (active, evicted)
      else (active, evicted))"
  by pat_completeness auto

termination
  by (relation "measure (\<lambda>(_, _, _, active, _). length active)") (auto simp: remove_id_length)

declare evictLoop.simps [simp del]

definition appendLines :: "mem_line list \<Rightarrow> mem_file option \<Rightarrow> mem_file option" where
  "appendLines ls mfile = Some ((case mfile of Some old \<Rightarrow> old | None \<Rightarrow> []) @ ls)"

definition appendStoreEntry :: "store_entry \<Rightarrow> mem_file option \<Rightarrow> mem_file option" where
  "appendStoreEntry e = appendLines [jsonLine (entryJson e)]"

definition appendStoreDeleteMarkers :: "delete_marker list \<Rightarrow> mem_file option \<Rightarrow> mem_file option" where
  "appendStoreDeleteMarkers ms mfile = (if ms = [] then mfile else appendLines (map (\<lambda>m. jsonLine (markerJson m)) ms) mfile)"

definition enforceNamespaceQuota ::
  "mem_env \<Rightarrow> quota_config \<Rightarrow> string \<Rightarrow> string \<Rightarrow> mem_file option \<Rightarrow> (string list \<times> namespace_quota option) \<times> mem_file option" where
  "enforceNamespaceQuota env cfg namespace protected mfile =
     (case resolveNamespaceQuota cfg namespace of
        None \<Rightarrow> (([], None), mfile)
      | Some quota \<Rightarrow>
          let scoped = filter (\<lambda>e. en_namespace e = namespace) (loadStoreEntries None mfile);
              evicted = snd (evictLoop env quota protected scoped [])
          in ((map en_id evicted, Some quota),
              appendStoreDeleteMarkers
                (map (\<lambda>e. \<lparr>dm_id = en_id e, dm_deletedAt = me_nowIso env,
                   dm_reason = Some (''Namespace quota eviction ('' @ policy_name (nq_policy quota) @ '')'')\<rparr>) evicted) mfile))"

section \<open>Well-formed entries\<close>

definition clean_name :: "string \<Rightarrow> bool" where
  "clean_name s \<longleftrightarrow> s \<noteq> [] \<and> trim s = s"

definition tags_ok :: "string list \<Rightarrow> bool" where
  "tags_ok ts \<longleftrightarrow> length ts \<le> 20 \<and> distinct ts \<and> list_all (\<lambda>t. t \<noteq> [] \<and> to_lower (trim t) = t) ts"

definition entry_ok :: "store_entry \<Rightarrow> bool" where
  "entry_ok e \<longleftrightarrow> clean_name (en_id e) \<and> clean_name (en_title e) \<and> clean_name (en_content e) \<and> clean_name (en_createdAt e)
     \<and> clean_name (en_updatedAt e) \<and> clean_name (en_lastAccessedAt e) \<and> tags_ok (en_tags e)
     \<and> 0 \<le> en_reinforceCount e \<and> en_reinforceCount e \<le> 10000 \<and> 1 \<le> en_importance e \<and> en_importance e \<le> 5
     \<and> 1 / 20 \<le> en_confidence e \<and> en_confidence e \<le> 1
     \<and> shortName 2 32 (en_source e) \<and> shortName 1 64 (en_namespace e)"

lemma shortName_norm:
  assumes "shortName lo hi s"
  shows "to_lower (trim s) = s"
proof -
  have c: "\<not> is_ws c \<and> lower_char c = c" if "c \<in> set s" for c
  proof -
    have "name_char c" using assms that by (auto simp: shortName_def list_all_iff)
    then show ?thesis
      by (auto simp: name_char_def is_lower_def is_digit_def is_ws_code lower_char_def is_upper_def code_of_def)
  qed
  have "trim s = s" using c by (intro trim_nonblank) blast
  then show ?thesis using c by (simp add: to_lower_def map_idI)
qed

lemma normText_JStr [simp]: "normText (JStr s) = to_lower (trim s)"
  by (simp add: normText_def str_or_empty_def)

lemma normText_fixed: "to_lower (trim (normText v)) = normText v"
  by (simp add: normText_def trim_to_lower)

lemma normalizeTags_ok: "tags_ok (normalizeTags v)"
  using normText_fixed
  by (auto simp: tags_ok_def normalizeTags_def list_all_iff distinct_take dest!: in_set_takeD)

lemma normalizeTags_fixed: "tags_ok ts \<Longrightarrow> normalizeTags (JArr (map JStr ts)) = ts"
proof -
  assume t: "tags_ok ts"
  then have "map normText (map JStr ts) = ts" by (auto simp: tags_ok_def list_all_iff intro!: map_idI)
  moreover have "filter (\<lambda>t. t \<noteq> []) ts = ts" using t by (auto simp: tags_ok_def list_all_iff filter_id_conv)
  ultimately show ?thesis using t unfolding normalizeTags_def by (simp add: tags_ok_def dedup_id)
qed

lemma normalizeSource_ok: "shortName 2 32 d \<Longrightarrow> shortName 2 32 (normalizeSource v d)"
  by (simp add: normalizeSource_def)

lemma normalizeNamespace_ok: "shortName 1 64 d \<Longrightarrow> shortName 1 64 (normalizeNamespace v d)"
  by (simp add: normalizeNamespace_def)

lemma default_names: "shortName 2 32 ''user''" "shortName 1 64 DEFAULT_NAMESPACE"
  by (simp_all add: shortName_def DEFAULT_NAMESPACE_def name_char_def is_lower_def code_of_def)

lemma clampInt_bounds: "lo \<le> hi \<Longrightarrow> lo \<le> d \<Longrightarrow> d \<le> hi \<Longrightarrow> lo \<le> clampInt v lo hi d \<and> clampInt v lo hi d \<le> hi"
  by (simp add: clampInt_def split: jnum.split)

lemma clampNumber_bounds: "lo \<le> hi \<Longrightarrow> lo \<le> d \<Longrightarrow> d \<le> hi \<Longrightarrow> lo \<le> clampNumber v lo hi d \<and> clampNumber v lo hi d \<le> hi"
  by (simp add: clampNumber_def split: jnum.split)

lemma clampInt_jint: "lo \<le> n \<Longrightarrow> n \<le> hi \<Longrightarrow> clampInt (jint n) lo hi d = n"
  by (simp add: clampInt_def jint_def)

lemma tier_back: "normalizeTrustTier (JStr (tier_name t)) d = t"
  by (cases t) (simp_all add: normalizeTrustTier_def TRUST_TIERS_def trim_def to_lower_def is_ws_def lower_char_def is_upper_def code_of_def)

lemma clean_or_text: "clean_name (or_text (trim a) b)" if "clean_name b"
  using that by (simp add: clean_name_def or_text_def)

lemma parseStoreEntry_ok:
  assumes "parseStoreEntry v = Some e"
  shows "entry_ok e"
proof -
  define fld where "fld k = trim (str_or_empty (jget v k))" for k
  define upd where "upd = trim (to_str (coalesce (jget v ''updatedAt'') (JStr (fld ''createdAt''))))"
  define acc where "acc = trim (to_str (coalesce (jget v ''lastAccessedAt'') (JStr upd)))"
  note p = assms [unfolded parseStoreEntry_def Let_def, folded fld_def, folded upd_def, folded acc_def]
  have f: "clean_name (fld ''id'')" "clean_name (fld ''title'')" "clean_name (fld ''content'')" "clean_name (fld ''createdAt'')"
    using p by (simp_all add: clean_name_def split: if_split_asm) (simp_all add: fld_def)
  have e: "e = \<lparr>en_id = fld ''id'', en_title = fld ''title'', en_content = fld ''content'', en_tags = normalizeTags (jget v ''tags''),
      en_createdAt = fld ''createdAt'', en_updatedAt = or_text upd (fld ''createdAt''),
      en_lastAccessedAt = or_text acc (or_text upd (fld ''createdAt'')), en_reinforceCount = clampInt (jget v ''reinforceCount'') 0 10000 0,
      en_importance = clampInt (jget v ''importance'') 1 5 3, en_confidence = clampNumber (jget v ''confidence'') (1 / 20) 1 (4 / 5),
      en_source = normalizeSource (jget v ''source'') ''user'', en_namespace = normalizeNamespace (jget v ''namespace'') DEFAULT_NAMESPACE,
      en_trustTier = normalizeTrustTier (jget v ''trustTier'') Verified\<rparr>"
    using p by (simp split: if_split_asm)
  have "clean_name (or_text upd (fld ''createdAt''))" "clean_name (or_text acc (or_text upd (fld ''createdAt'')))"
    unfolding acc_def upd_def by (intro clean_or_text f)+
  then show ?thesis unfolding entry_ok_def e
    using f normalizeTags_ok [of "jget v ''tags''"] normalizeSource_ok [OF default_names(1)] normalizeNamespace_ok [OF default_names(2)]
      clampInt_bounds [of 0 10000 0] clampInt_bounds [of 1 5 3] clampNumber_bounds [of "1 / 20" 1 "4 / 5"] by simp
qed

lemma entryJson_clean [simp]: "json_clean (entryJson e) = entryJson e"
  by (simp add: entryJson_def jint_def comp_def)

lemma entry_fields:
  "jget (entryJson e) ''id'' = JStr (en_id e)" "jget (entryJson e) ''title'' = JStr (en_title e)" "jget (entryJson e) ''content'' = JStr (en_content e)"
  "jget (entryJson e) ''tags'' = JArr (map JStr (en_tags e))" "jget (entryJson e) ''createdAt'' = JStr (en_createdAt e)"
  "jget (entryJson e) ''updatedAt'' = JStr (en_updatedAt e)" "jget (entryJson e) ''lastAccessedAt'' = JStr (en_lastAccessedAt e)"
  "jget (entryJson e) ''reinforceCount'' = jint (en_reinforceCount e)" "jget (entryJson e) ''importance'' = jint (en_importance e)"
  "jget (entryJson e) ''confidence'' = JNum (Fin (en_confidence e))" "jget (entryJson e) ''source'' = JStr (en_source e)"
  "jget (entryJson e) ''namespace'' = JStr (en_namespace e)" "jget (entryJson e) ''trustTier'' = JStr (tier_name (en_trustTier e))"
  "jget (entryJson e) ''type'' = JUndef" "isRecord (entryJson e)"
  by (simp_all add: entryJson_def isRecord_def)

lemma parse_entryJson:
  assumes "entry_ok e"
  shows "parseStoreEntry (entryJson e) = Some e"
proof -
  have "normalizeSource (JStr (en_source e)) ''user'' = en_source e" "normalizeNamespace (JStr (en_namespace e)) DEFAULT_NAMESPACE = en_namespace e"
    using assms shortName_norm [of 2 32 "en_source e"] shortName_norm [of 1 64 "en_namespace e"]
    by (simp_all add: normalizeSource_def normalizeNamespace_def entry_ok_def)
  moreover have "clampNumber (JNum (Fin (en_confidence e))) (1 / 20) 1 (4 / 5) = en_confidence e"
    using assms by (simp add: clampNumber_def entry_ok_def)
  moreover have "clampInt (jint (en_reinforceCount e)) 0 10000 0 = en_reinforceCount e" "clampInt (jint (en_importance e)) 1 5 3 = en_importance e"
    using assms by (simp_all add: clampInt_jint entry_ok_def)
  ultimately show ?thesis using assms normalizeTags_fixed [of "en_tags e"]
    by (simp add: parseStoreEntry_def entry_fields tier_back str_or_empty_def coalesce_def or_text_def entry_ok_def clean_name_def Let_def)
qed

lemma readLine_entry: "entry_ok e \<Longrightarrow> readLine (jsonLine (entryJson e)) = Entry e"
  by (simp add: readLine_def jsonLine_def parse_entryJson parseStoreDeleteMarker_def entry_fields normText_def str_or_empty_def to_lower_def)

lemma readLine_marker:
  assumes "clean_name (dm_id m)" "clean_name (dm_deletedAt m)"
  shows "readLine (jsonLine (markerJson m)) = Removal (dm_id m)"
proof -
  define v where "v = json_clean (markerJson m)"
  have d: "normText (JStr ''delete'') = ''delete''" by code_simp
  have "isRecord v" "jget v ''type'' = JStr ''delete''" "jget v ''id'' = JStr (dm_id m)" "jget v ''deletedAt'' = JStr (dm_deletedAt m)"
    by (cases "dm_reason m"; simp add: v_def markerJson_def isRecord_def)+
  then have "map_option dm_id (parseStoreDeleteMarker v) = Some (dm_id m)"
    using assms d by (simp add: parseStoreDeleteMarker_def clean_name_def Let_def)
  then show ?thesis unfolding v_def by (auto simp: readLine_def jsonLine_def)
qed

section \<open>The map of a store\<close>

definition applyRecord :: "(string \<rightharpoonup> store_entry) \<Rightarrow> mem_line \<Rightarrow> (string \<rightharpoonup> store_entry)" where
  "applyRecord m l = (case readLine l of Entry e \<Rightarrow> m(en_id e \<mapsto> e) | Removal i \<Rightarrow> m(i := None) | Ignored \<Rightarrow> m)"

definition contents :: "mem_file option \<Rightarrow> (string \<rightharpoonup> store_entry)" where
  "contents mfile = foldl applyRecord Map.empty (case mfile of Some ls \<Rightarrow> ls | None \<Rightarrow> [])"

definition lookup_entry :: "store_entry list \<Rightarrow> string \<Rightarrow> store_entry option" where
  "lookup_entry es = map_of (map (\<lambda>e. (en_id e, e)) es)"

text \<open>The same map, computed from the last line.\<close>

fun contents_rev :: "mem_line list \<Rightarrow> (string \<rightharpoonup> store_entry)" where
  "contents_rev [] = Map.empty"
| "contents_rev (l # ls) = applyRecord (contents_rev ls) l"

lemma contents_from_last: "contents (Some ls) = contents_rev (rev ls)"
  by (induction ls rule: rev_induct) (simp_all add: contents_def)

lemma lookup_snoc: "en_id e \<notin> en_id ` set es \<Longrightarrow> lookup_entry (es @ [e]) i = (if i = en_id e then Some e else lookup_entry es i)"
  by (induction es) (auto simp: lookup_entry_def)

lemma lookup_None: "lookup_entry es i = None \<longleftrightarrow> i \<notin> en_id ` set es"
  by (induction es) (auto simp: lookup_entry_def)

lemma lookup_Some: "distinct (map en_id es) \<Longrightarrow> lookup_entry es i = Some e \<longleftrightarrow> e \<in> set es \<and> en_id e = i"
proof (induction es)
  case (Cons x es)
  then show ?case using lookup_None [of es i] by (auto simp: lookup_entry_def) (metis image_eqI)
qed (simp add: lookup_entry_def)

lemma scan_contents:
  "lookup_entry (scanLines None ls found deleted) i =
     (if i \<in> en_id ` set found then lookup_entry found i else if i \<in> set deleted then None else contents_rev ls i)"
proof (induction ls arbitrary: found deleted)
  case Nil
  then show ?case by (simp add: lookup_None)
next
  case (Cons l ls)
  show ?case
  proof (cases "readLine l")
    case (Entry e)
    then show ?thesis using Cons [of found deleted] Cons [of "found @ [e]" deleted] lookup_snoc [of e found i]
      by (auto simp: applyRecord_def)
  qed (use Cons in \<open>auto simp: applyRecord_def\<close>)
qed

lemma scan_distinct: "distinct (map en_id found) \<Longrightarrow> distinct (map en_id (scanLines m ls found deleted))"
proof (induction ls arbitrary: found deleted)
  case (Cons l ls)
  then show ?case
  proof (cases "readLine l")
    case (Entry e)
    then show ?thesis using Cons by auto
  qed (use Cons in auto)
qed simp

lemma lookup_rev: "distinct (map en_id es) \<Longrightarrow> lookup_entry (rev es) = lookup_entry es"
proof
  fix i
  assume d: "distinct (map en_id es)"
  then have "lookup_entry (rev es) i = Some e \<longleftrightarrow> lookup_entry es i = Some e" for e
    using lookup_Some [OF d, of i e] lookup_Some [of "rev es" i e] by (simp add: rev_map [symmetric])
  then show "lookup_entry (rev es) i = lookup_entry es i" by (metis option.exhaust)
qed

lemma load_distinct: "distinct (map en_id (loadStoreEntries m mfile))"
  using scan_distinct [of "[]"] by (auto simp: loadStoreEntries_def rev_map [symmetric] split: option.split)

lemma load_contents: "lookup_entry (loadStoreEntries None mfile) = contents mfile"
proof (cases mfile)
  case None
  then show ?thesis by (simp add: loadStoreEntries_def contents_def lookup_entry_def)
next
  case (Some ls)
  have "lookup_entry (scanLines None (rev ls) [] []) = contents_rev (rev ls)" by (rule ext) (simp add: scan_contents)
  moreover have "lookup_entry (rev (scanLines None (rev ls) [] [])) = lookup_entry (scanLines None (rev ls) [] [])"
    by (rule lookup_rev, rule scan_distinct) simp
  ultimately show ?thesis by (simp add: Some loadStoreEntries_def contents_from_last)
qed

lemma in_load_iff: "e \<in> set (loadStoreEntries None mfile) \<longleftrightarrow> contents mfile (en_id e) = Some e"
proof -
  have "lookup_entry (loadStoreEntries None mfile) (en_id e) = Some e \<longleftrightarrow> e \<in> set (loadStoreEntries None mfile)"
    using lookup_Some [OF load_distinct] by blast
  then show ?thesis by (simp add: load_contents)
qed

lemma contents_id: "contents mfile i = Some e \<Longrightarrow> en_id e = i"
  unfolding load_contents [symmetric] lookup_entry_def by (auto dest!: map_of_SomeD)

lemma scan_ok: "list_all entry_ok found \<Longrightarrow> list_all entry_ok (scanLines m ls found deleted)"
proof (induction ls arbitrary: found deleted)
  case (Cons l ls)
  show ?case
  proof (cases "readLine l")
    case (Entry e)
    then have "entry_ok e" by (auto simp: readLine_def parseStoreEntry_ok split: mem_line.splits option.splits)
    then show ?thesis using Entry Cons by auto
  qed (use Cons in auto)
qed simp

lemma load_ok: "e \<in> set (loadStoreEntries m mfile) \<Longrightarrow> entry_ok e"
  using scan_ok [of "[]"] by (auto simp: loadStoreEntries_def list_all_iff split: option.splits)

lemma contents_ok: "contents mfile i = Some e \<Longrightarrow> entry_ok e"
  using in_load_iff [of e mfile] contents_id [of mfile i e] load_ok by metis

lemma same_id: "parseStoreDeleteMarker v = Some m \<Longrightarrow> parseStoreEntry v = Some e \<Longrightarrow> en_id e = dm_id m"
proof -
  assume "parseStoreDeleteMarker v = Some m" "parseStoreEntry v = Some e"
  then have "dm_id m = trim (str_or_empty (jget v ''id''))" "en_id e = trim (str_or_empty (jget v ''id''))"
    unfolding parseStoreDeleteMarker_def parseStoreEntry_def Let_def
    by (metis (no_types, lifting) delete_marker.select_convs(1) option.distinct(1) option.inject, metis (no_types, lifting) store_entry.select_convs(1) option.distinct(1) option.inject)
  then show ?thesis by simp
qed

lemma find_contents: "findInLines i ls = contents_rev ls i"
proof (induction ls)
  case (Cons l ls)
  show ?case
  proof (cases l)
    case (JsonLine s v)
    show ?thesis
    proof (cases "parseStoreDeleteMarker v")
      case (Some m)
      then show ?thesis using same_id [OF Some] Cons by (auto simp: JsonLine applyRecord_def readLine_def split: option.split)
    qed (use Cons in \<open>auto simp: JsonLine applyRecord_def readLine_def split: option.split\<close>)
  qed (use Cons in \<open>simp add: applyRecord_def readLine_def\<close>)
qed simp

lemma findById_contents:
  "findStoreEntryById mfile i scope = (case contents mfile i of Some e \<Rightarrow> if entryMatchesScope e scope then Some e else None | None \<Rightarrow> None)"
  by (cases mfile) (simp_all add: findStoreEntryById_def find_contents contents_from_last, simp add: contents_def)

lemma contents_append: "contents (appendLines ls mfile) = foldl applyRecord (contents mfile) ls"
  by (cases mfile) (simp_all add: appendLines_def contents_def)

lemma contents_appendEntry: "entry_ok e \<Longrightarrow> contents (appendStoreEntry e mfile) = (contents mfile)(en_id e \<mapsto> e)"
  by (simp add: appendStoreEntry_def contents_append applyRecord_def readLine_entry)

definition marker_ok :: "delete_marker \<Rightarrow> bool" where
  "marker_ok m \<longleftrightarrow> clean_name (dm_id m) \<and> clean_name (dm_deletedAt m)"

lemma contents_appendMarkers:
  "list_all marker_ok ms \<Longrightarrow> contents (appendStoreDeleteMarkers ms mfile) = contents mfile |` (- dm_id ` set ms)"
proof -
  have "list_all marker_ok ms \<Longrightarrow> foldl applyRecord m (map (\<lambda>m. jsonLine (markerJson m)) ms) = m |` (- dm_id ` set ms)" for m
  proof (induction ms arbitrary: m)
    case (Cons x xs)
    then have "applyRecord m (jsonLine (markerJson x)) = m(dm_id x := None)" by (simp add: applyRecord_def readLine_marker marker_ok_def)
    then show ?case using Cons by (auto simp: restrict_map_def fun_eq_iff)
  qed (simp add: restrict_map_def)
  then show "list_all marker_ok ms \<Longrightarrow> ?thesis" by (cases "ms = []") (simp_all add: appendStoreDeleteMarkers_def contents_append)
qed

section \<open>What the tools rely on\<close>

text \<open>Two lists of entries that have the same entries of a kind.\<close>

definition kept :: "(store_entry \<Rightarrow> bool) \<Rightarrow> store_entry list \<Rightarrow> store_entry list \<Rightarrow> bool" where
  "kept P es es' \<longleftrightarrow> (\<forall>e. P e \<longrightarrow> (e \<in> set es \<longleftrightarrow> e \<in> set es'))"

lemma kept_refl [simp]: "kept P es es"
  by (simp add: kept_def)

lemma kept_trans [trans]: "kept P es es' \<Longrightarrow> kept P es' es'' \<Longrightarrow> kept P es es''"
  by (simp add: kept_def)

locale entry_log =
  fixes contents :: "'f \<Rightarrow> string \<Rightarrow> store_entry option"
    and put :: "store_entry \<Rightarrow> 'f \<Rightarrow> 'f"
    and remove :: "delete_marker list \<Rightarrow> 'f \<Rightarrow> 'f"
    and entries :: "'f \<Rightarrow> store_entry list"
  assumes contents_put: "entry_ok e \<Longrightarrow> contents (put e f) = (contents f)(en_id e \<mapsto> e)"
    and contents_remove: "list_all marker_ok ms \<Longrightarrow> contents (remove ms f) = contents f |` (- dm_id ` set ms)"
    and entries_iff: "e \<in> set (entries f) \<longleftrightarrow> contents f (en_id e) = Some e"
    and entries_distinct: "distinct (map en_id (entries f))"
begin

lemma entries_put: "entry_ok e \<Longrightarrow> set (entries (put e f)) = insert e {x \<in> set (entries f). en_id x \<noteq> en_id e}"
  by (auto simp: entries_iff contents_put split: if_splits)

lemma entries_remove: "list_all marker_ok ms \<Longrightarrow> set (entries (remove ms f)) = {x \<in> set (entries f). en_id x \<notin> dm_id ` set ms}"
  by (auto simp: entries_iff contents_remove restrict_map_def split: if_splits)

lemma entries_inj: "e \<in> set (entries f) \<Longrightarrow> e' \<in> set (entries f) \<Longrightarrow> en_id e = en_id e' \<Longrightarrow> e = e'"
  by (simp add: entries_iff)

lemma kept_put:
  assumes "entry_ok e" "\<not> P e" "\<And>x. x \<in> set (entries f) \<Longrightarrow> en_id x = en_id e \<Longrightarrow> \<not> P x"
  shows "kept P (entries f) (entries (put e f))"
  using assms by (auto simp: kept_def entries_put)

lemma kept_remove:
  assumes "list_all marker_ok ms" "\<And>x. x \<in> set (entries f) \<Longrightarrow> en_id x \<in> dm_id ` set ms \<Longrightarrow> \<not> P x"
  shows "kept P (entries f) (entries (remove ms f))"
  using assms by (auto simp: kept_def entries_remove)

text \<open>The number of entries of a kind after a removal, and of all their bytes.\<close>

lemma filter_remove_set:
  assumes "list_all marker_ok ms"
  shows "set (filter P (entries (remove ms f))) = set (filter (\<lambda>e. P e \<and> en_id e \<notin> dm_id ` set ms) (entries f))"
  using entries_remove [OF assms] by auto

lemma filter_distinct: "distinct (filter P (entries f))"
  using entries_distinct [of f] by (simp add: distinct_map)

lemma filter_remove_length:
  assumes "list_all marker_ok ms"
  shows "length (filter P (entries (remove ms f))) = length (filter (\<lambda>e. P e \<and> en_id e \<notin> dm_id ` set ms) (entries f))"
  unfolding distinct_card [OF filter_distinct, symmetric] filter_remove_set [OF assms] ..

lemma filter_remove_sum:
  fixes w :: "store_entry \<Rightarrow> nat"
  assumes "list_all marker_ok ms"
  shows "sum_list (map w (filter P (entries (remove ms f)))) = sum_list (map w (filter (\<lambda>e. P e \<and> en_id e \<notin> dm_id ` set ms) (entries f)))"
  unfolding sum_list_distinct_conv_sum_set [OF filter_distinct] filter_remove_set [OF assms] ..

end

interpretation mem: entry_log contents appendStoreEntry appendStoreDeleteMarkers "loadStoreEntries None"
  by unfold_locales (simp_all add: contents_appendEntry contents_appendMarkers in_load_iff load_distinct)

section \<open>Eviction\<close>

lemma pick_sorted:
  "\<exists>ys. set ys = set es \<and> length ys = length es \<and> pickEvictionCandidate env policy es = (case ys of [] \<Rightarrow> None | e # _ \<Rightarrow> Some e)"
proof -
  define ys where "ys = (case policy of
              Oldest \<Rightarrow> sort_key (updatedMillis env) es
            | LowSignalFirst \<Rightarrow> sort_key lowSignalScore (sort_key (updatedMillis env) es)
            | StaleLowSignal \<Rightarrow> sort_key (computeEntrySignalScore env) (sort_key (updatedMillis env) es))"
  have "set ys = set es" "length ys = length es" by (cases policy; simp add: ys_def)+
  then show ?thesis unfolding pickEvictionCandidate_def ys_def [symmetric] by blast
qed

lemma pick_mem:
  assumes "pickEvictionCandidate env policy es = Some e"
  shows "e \<in> set es"
proof -
  obtain ys where "set ys = set es" "Some e = (case ys of [] \<Rightarrow> None | e # _ \<Rightarrow> Some e)" using pick_sorted [of es env policy] assms by auto
  then show ?thesis by (cases ys) auto
qed

lemma pick_None: "pickEvictionCandidate env policy es = None \<longleftrightarrow> es = []"
proof -
  obtain ys where "length ys = length es" "pickEvictionCandidate env policy es = (case ys of [] \<Rightarrow> None | e # _ \<Rightarrow> Some e)"
    using pick_sorted [of es env policy] by auto
  then show ?thesis by (cases ys) auto
qed

lemma remove_id_filter: "distinct (map en_id es) \<Longrightarrow> remove_id i es = filter (\<lambda>e. en_id e \<noteq> i) es"
proof (induction es)
  case (Cons e es)
  then have "i = en_id e \<Longrightarrow> filter (\<lambda>x. en_id x \<noteq> i) es = es" by (simp add: filter_id_conv) (metis image_eqI)
  then show ?case using Cons by auto
qed simp

definition within_quota :: "namespace_quota \<Rightarrow> string \<Rightarrow> store_entry list \<Rightarrow> bool" where
  "within_quota quota protected es \<longleftrightarrow>
     int (length es) \<le> nq_maxEntries quota \<and> total_bytes es \<le> nq_maxBytes quota \<or> list_all (\<lambda>e. en_id e = protected) es"

lemma evictLoop_result:
  assumes "distinct (map en_id active)"
  shows "\<exists>vs. evictLoop env quota protected active evicted = (filter (\<lambda>e. en_id e \<notin> en_id ` set vs) active, evicted @ vs)
    \<and> set vs \<subseteq> set active \<and> protected \<notin> en_id ` set vs \<and> within_quota quota protected (filter (\<lambda>e. en_id e \<notin> en_id ` set vs) active)"
  using assms
proof (induction env quota protected active evicted rule: evictLoop.induct)
  case (1 env quota protected active evicted)
  let ?cands = "filter (\<lambda>e. en_id e \<noteq> protected) active"
  have stop: ?case if "evictLoop env quota protected active evicted = (active, evicted)" "within_quota quota protected active"
    using that by (intro exI [of _ "[]"]) simp
  show ?case
  proof (cases "nq_maxEntries quota < int (length active) \<or> nq_maxBytes quota < total_bytes active")
    case over: True
    show ?thesis
    proof (cases "pickEvictionCandidate env (nq_policy quota) ?cands")
      case None
      then have "list_all (\<lambda>e. en_id e = protected) active" by (simp add: pick_None list_all_iff filter_empty_conv)
      then show ?thesis using over None by (intro stop) (simp_all add: evictLoop.simps [of env quota protected active] within_quota_def)
    next
      case (Some victim)
      then have v: "victim \<in> set active" "en_id victim \<noteq> protected" using pick_mem by fastforce+
      have r: "remove_id (en_id victim) active = filter (\<lambda>e. en_id e \<noteq> en_id victim) active" using "1.prems" by (rule remove_id_filter)
      have d: "distinct (map en_id (remove_id (en_id victim) active))" using "1.prems" by (simp add: r distinct_map_filter)
      obtain vs where vs: "evictLoop env quota protected (remove_id (en_id victim) active) (evicted @ [victim]) =
          (filter (\<lambda>e. en_id e \<notin> en_id ` set vs) (remove_id (en_id victim) active), (evicted @ [victim]) @ vs)"
          "set vs \<subseteq> set (remove_id (en_id victim) active)" "protected \<notin> en_id ` set vs"
          "within_quota quota protected (filter (\<lambda>e. en_id e \<notin> en_id ` set vs) (remove_id (en_id victim) active))"
        using "1.IH" [OF over Some _ d] v by blast
      have f: "filter (\<lambda>e. en_id e \<notin> en_id ` set vs) (remove_id (en_id victim) active) = filter (\<lambda>e. en_id e \<notin> en_id ` set (victim # vs)) active"
        unfolding r filter_filter by (rule filter_cong) auto
      have "evictLoop env quota protected active evicted =
          evictLoop env quota protected (remove_id (en_id victim) active) (evicted @ [victim])"
        using over Some v by (subst evictLoop.simps) simp
      then show ?thesis using vs v r unfolding f by (intro exI [of _ "victim # vs"]) auto
    qed
  next
    case False
    then show ?thesis by (intro stop) (auto simp: evictLoop.simps [of env quota protected active] within_quota_def)
  qed
qed

end
