(* ===== verification/Memory_Tools.thy ===== *)
theory Memory_Tools
  imports Memory_Store
begin

text \<open>
  The nine tools of \<open>agents/tools/memory-tools.ts\<close>: searching the store and the memory files, reading, saving, deleting, listing,
  pruning, statistics, feedback and compaction. A call maps the parameters and the store file to a result or an error and the file
  after it; the workspace is a tree of files that is only read. A namespace is left alone by calls on another, a saved
  memory is read back, quotas hold, and compaction changes nothing.
\<close>

section \<open>Context\<close>

record mem_ctx =
  mc_cwd :: string
  mc_workspaceDir :: string
  mc_storePath :: string
  mc_namespace :: string
  mc_minTrustTier :: trust_tier
  mc_quota :: quota_config

definition resolveStateDirFromEnv :: "string \<Rightarrow> string \<Rightarrow> (string \<Rightarrow> jsv) \<Rightarrow> string" where
  "resolveStateDirFromEnv home cwd env =
     (let raw = trim (str_or_empty (env ''T560_STATE_DIR'')) in
      if raw = [] then path_join home ''.t560''
      else if raw = ''~'' then home
      else if starts_with raw ''~/'' then path_join home (drop 2 raw)
      else path_resolve cwd raw)"

definition resolveMemoryStorePath :: "string \<Rightarrow> string \<Rightarrow> (string \<Rightarrow> jsv) \<Rightarrow> string option \<Rightarrow> string" where
  "resolveMemoryStorePath home cwd env stateDir =
     (let given = (case stateDir of Some d \<Rightarrow> trim d | None \<Rightarrow> []);
          stateRoot = (if given \<noteq> [] then given else resolveStateDirFromEnv home cwd env)
      in path_join (path_resolve cwd stateRoot) ''memory.jsonl'')"

definition buildMemoryToolsContext ::
  "(string \<Rightarrow> jsv option) \<Rightarrow> string \<Rightarrow> string \<Rightarrow> (string \<Rightarrow> jsv) \<Rightarrow> string \<Rightarrow> string option \<Rightarrow> mem_ctx" where
  "buildMemoryToolsContext parse home cwd env workspaceDir stateDir =
     \<lparr>mc_cwd = cwd, mc_workspaceDir = path_resolve cwd workspaceDir, mc_storePath = resolveMemoryStorePath home cwd env stateDir,
      mc_namespace = normalizeNamespace (env ''T560_MEMORY_NAMESPACE'') DEFAULT_NAMESPACE,
      mc_minTrustTier = normalizeTrustTier (env ''T560_MEMORY_MIN_TRUST_TIER'') Unverified,
      mc_quota = resolveNamespaceQuotaConfigFromEnv parse env\<rparr>"

definition resolveScope :: "jsv \<Rightarrow> string \<Rightarrow> trust_tier \<Rightarrow> memory_scope" where
  "resolveScope params namespace tier =
     \<lparr>sc_namespace = normalizeNamespace (jget params ''namespace'') namespace,
      sc_minTrustTier = normalizeTrustTier (jget params ''minTrustTier'') tier\<rparr>"

definition scopeOf :: "mem_ctx \<Rightarrow> jsv \<Rightarrow> memory_scope" where
  "scopeOf ctx params = resolveScope params (mc_namespace ctx) (mc_minTrustTier ctx)"

definition text_param :: "jsv \<Rightarrow> string \<Rightarrow> string" where
  "text_param params k = trim (str_or_empty (jget params k))"

definition opt_member :: "bool \<Rightarrow> string \<Rightarrow> jsv \<Rightarrow> (string \<times> jsv) list" where
  "opt_member b k v = (if b then [(k, v)] else [])"

definition or_null :: "string \<Rightarrow> jsv" where
  "or_null s = (if s \<noteq> [] then JStr s else JNull)"

definition storeRef :: "string \<Rightarrow> jsv" where
  "storeRef i = JStr (''store:'' @ i)"

definition jtags :: "string list \<Rightarrow> jsv" where
  "jtags ts = JArr (map JStr ts)"

definition jtier :: "trust_tier \<Rightarrow> jsv" where
  "jtier t = JStr (tier_name t)"

definition jrat :: "rat \<Rightarrow> jsv" where
  "jrat q = JNum (Fin q)"

text \<open>\<open>Number(q.toFixed(k))\<close>\<close>

definition fixed :: "nat \<Rightarrow> rat \<Rightarrow> rat" where
  "fixed k q = (if q < 0 then - (of_int \<lfloor>- q * 10 ^ k + 1 / 2\<rfloor> / 10 ^ k) else of_int \<lfloor>q * 10 ^ k + 1 / 2\<rfloor> / 10 ^ k)"

section \<open>Memory files\<close>

definition SURROUNDING_FILENAMES :: "string list" where
  "SURROUNDING_FILENAMES = [''AGENTS.md'', ''SOUL.md'', ''TOOLS.md'', ''IDENTITY.md'', ''USER.md'', ''HEARTBEAT.md'', ''BOOTSTRAP.md'', ''README.md'']"

definition MAX_FILE_SCAN :: nat where "MAX_FILE_SCAN = 200"

definition MAX_MEMORY_FILE_BYTES :: nat where "MAX_MEMORY_FILE_BYTES = 1000000"

definition normalizeRelativePath :: "string \<Rightarrow> string \<Rightarrow> string \<Rightarrow> string" where
  "normalizeRelativePath cwd workspaceDir target = replace_chars (\<lambda>c. c = CHR 0x5C) ''/'' (path_relative cwd workspaceDir target)"

definition relative_inside :: "string \<Rightarrow> bool" where
  "relative_inside relative \<longleftrightarrow> relative \<noteq> [] \<and> \<not> starts_with relative ''..'' \<and> \<not> is_absolute relative"

definition isMemoryFilePath :: "string \<Rightarrow> string \<Rightarrow> string \<Rightarrow> bool" where
  "isMemoryFilePath cwd workspaceDir target =
     (let relative = normalizeRelativePath cwd (path_resolve cwd workspaceDir) (path_resolve cwd target); lowered = to_lower relative in
      relative_inside relative \<and> (lowered = ''memory.md'' \<or> starts_with lowered ''memory/'' \<and> ends_with lowered ''.md''))"

definition isSurroundingFilePath :: "string \<Rightarrow> string \<Rightarrow> string \<Rightarrow> bool" where
  "isSurroundingFilePath cwd workspaceDir target =
     (let relative = normalizeRelativePath cwd (path_resolve cwd workspaceDir) (path_resolve cwd target) in
      relative_inside relative \<and> CHR ''/'' \<notin> set relative \<and> relative \<in> set SURROUNDING_FILENAMES)"

definition isMemorySourceFilePath :: "string \<Rightarrow> string \<Rightarrow> string \<Rightarrow> bool" where
  "isMemorySourceFilePath cwd workspaceDir target \<longleftrightarrow> isMemoryFilePath cwd workspaceDir target \<or> isSurroundingFilePath cwd workspaceDir target"

definition addIfMemoryFile :: "mem_ctx \<Rightarrow> node \<Rightarrow> string \<Rightarrow> string list \<Rightarrow> string list" where
  "addIfMemoryFile ctx fs candidate found =
     (if \<not> isMemorySourceFilePath (mc_cwd ctx) (mc_workspaceDir ctx) candidate then found
      else if isSensitivePath (mc_cwd ctx) candidate (mc_workspaceDir ctx) then found
      else case node_at fs (path_resolve (mc_cwd ctx) candidate) of
             Some (File _) \<Rightarrow> set_add found (path_resolve (mc_cwd ctx) candidate)
           | _ \<Rightarrow> found)"

text \<open>One directory: the files found and the directories pushed.\<close>

fun scanDirectory :: "mem_ctx \<Rightarrow> node \<Rightarrow> string \<Rightarrow> (string \<times> node) list \<Rightarrow> string list \<Rightarrow> string list \<times> (string \<times> node) list" where
  "scanDirectory ctx fs current [] found = (found, [])"
| "scanDirectory ctx fs current ((name, entry) # rest) found =
     (if MAX_FILE_SCAN \<le> length found then (found, [])
      else if name = [] \<or> starts_with name ''.'' then scanDirectory ctx fs current rest found
      else
        let absolute = path_join current name in
        case entry of
          Dir es \<Rightarrow> (let (found', dirs) = scanDirectory ctx fs current rest found in (found', (absolute, entry) # dirs))
        | File _ \<Rightarrow>
            scanDirectory ctx fs current rest (if ends_with (to_lower name) ''.md'' then addIfMemoryFile ctx fs absolute found else found)
        | _ \<Rightarrow> scanDirectory ctx fs current rest found)"

fun node_count :: "node \<Rightarrow> nat" where
  "node_count (File _) = 1"
| "node_count (Link _) = 1"
| "node_count Other = 1"
| "node_count (Dir es) = 1 + sum_list (map (\<lambda>(_, n). node_count n) es)"

definition stack_count :: "(string \<times> node) list \<Rightarrow> nat" where
  "stack_count st = sum_list (map (\<lambda>(_, n). node_count n) st)"

lemma scanDirectory_count: "scanDirectory ctx fs current es found = (found', dirs) \<Longrightarrow> stack_count dirs \<le> stack_count es"
proof (induction ctx fs current es found arbitrary: found' dirs rule: scanDirectory.induct)
  case (2 ctx fs current name entry rest found)
  have le: "stack_count rest \<le> stack_count ((name, entry) # rest)" by (simp add: stack_count_def)
  show ?case
  proof (cases "MAX_FILE_SCAN \<le> length found \<or> name = [] \<or> starts_with name ''.''")
    case True
    then show ?thesis using "2.prems" "2.IH"(1) le by (cases "MAX_FILE_SCAN \<le> length found") (auto simp: stack_count_def [of "[]"] intro: le_trans)
  next
    case False
    then have c: "\<not> MAX_FILE_SCAN \<le> length found" "\<not> (name = [] \<or> starts_with name ''.'')" by blast+
    note IH = "2.IH"(2-5) [OF c refl]
    show ?thesis
    proof (cases entry)
      case (Dir ds)
      obtain f d where r: "scanDirectory ctx fs current rest found = (f, d)" by (metis prod.collapse)
      then show ?thesis using "2.prems" c IH(2) [OF Dir r] by (simp add: Dir Let_def) (auto simp: stack_count_def)
    next
      case (File t)
      then show ?thesis using "2.prems" c IH(1) le by (simp add: Let_def) (meson le_trans)
    next
      case (Link t)
      then show ?thesis using "2.prems" c IH(3) le by (simp add: Let_def) (meson le_trans)
    next
      case Other
      then show ?thesis using "2.prems" c IH(4) le by (simp add: Let_def)
    qed
  qed
qed (simp add: stack_count_def)

lemma node_count_pos: "0 < node_count n"
  by (cases n) auto

lemma stack_count_rev: "stack_count (rev dirs @ stack) = stack_count dirs + stack_count stack"
  by (simp add: stack_count_def rev_map [symmetric])

text \<open>The loop over the stack of directories, the top first.\<close>

function walkMemory :: "mem_ctx \<Rightarrow> node \<Rightarrow> (string \<times> node) list \<Rightarrow> string list \<Rightarrow> string list" where
  "walkMemory ctx fs [] found = found"
| "walkMemory ctx fs ((current, n) # stack) found =
     (if MAX_FILE_SCAN \<le> length found then found
      else case n of
             Dir es \<Rightarrow> (case scanDirectory ctx fs current es found of (found', dirs) \<Rightarrow> walkMemory ctx fs (rev dirs @ stack) found')
           | _ \<Rightarrow> walkMemory ctx fs stack found)"
  by pat_completeness auto

termination
  by (relation "measure (\<lambda>(_, _, stack, _). stack_count stack)")
    (auto simp: stack_count_rev node_count_pos stack_count_def [of "_ # _"] dest!: scanDirectory_count [OF sym], simp_all add: stack_count_def)

definition collectMemoryFiles :: "mem_env \<Rightarrow> mem_ctx \<Rightarrow> node \<Rightarrow> bool \<Rightarrow> string list" where
  "collectMemoryFiles env ctx fs includeSurrounding =
     (let base = mc_workspaceDir ctx;
          add = (\<lambda>name. addIfMemoryFile ctx fs (path_join base name));
          f1 = add ''memory.md'' (add ''MEMORY.md'' []);
          f2 = (if includeSurrounding then foldl (\<lambda>f name. add name f) f1 SURROUNDING_FILENAMES else f1);
          memoryDir = path_join base ''memory'';
          f3 = (case node_at fs memoryDir of Some n \<Rightarrow> walkMemory ctx fs [(memoryDir, n)] f2 | None \<Rightarrow> f2)
      in me_sortPaths env f3)"

definition buildFileContextSnippet :: "string list \<Rightarrow> nat \<Rightarrow> nat \<Rightarrow> string" where
  "buildFileContextSnippet lines lineIndex contextLines =
     (let start = lineIndex - contextLines; stop = min (length lines) (lineIndex + contextLines + 1) in
      trim (js_join [CHR 0x0A] (map (\<lambda>i. nat_to_string (i + 1) @ '': '' @ lines ! i) [start..<stop])))"

section \<open>Searching\<close>

record search_hit =
  sh_row :: "(string \<times> jsv) list"
  sh_score :: int
  sh_isStore :: bool

definition hitJson :: "search_hit \<Rightarrow> jsv" where
  "hitJson h = JObj (sh_row h)"

definition haystackOf :: "store_entry \<Rightarrow> string" where
  "haystackOf e = en_title e @ [CHR 0x0A] @ en_content e @ [CHR 0x0A] @ js_join '' '' (en_tags e)"

definition entryScore :: "mem_env \<Rightarrow> (nat, nat) omap \<Rightarrow> store_entry \<Rightarrow> nat \<Rightarrow> int" where
  "entryScore env queryEmbedding e base =
     (let fresh = (case me_parseDate env (or_text (en_updatedAt e) (en_createdAt e)) of
                     Some t \<Rightarrow> max 0 (18 - days_since (me_now env) t div 14) | None \<Rightarrow> 0);
          used = (case me_parseDate env (or_text (en_lastAccessedAt e) (or_text (en_updatedAt e) (en_createdAt e))) of
                     Some t \<Rightarrow> max 0 (12 - days_since (me_now env) t div 21) | None \<Rightarrow> 0)
      in int base + fresh + used + en_importance e * 6 + \<lfloor>en_confidence e * 10 + 1 / 2\<rfloor> + min 24 (en_reinforceCount e * 3)
         + int (trustTierRank (en_trustTier e) * 2) + int (similarityPoints queryEmbedding (embedTokens (tokenizeForSimilarity (haystackOf e)))))"

definition searchStoreEntries :: "mem_env \<Rightarrow> store_entry list \<Rightarrow> string \<Rightarrow> string list \<Rightarrow> (nat, nat) omap \<Rightarrow> search_hit list" where
  "searchStoreEntries env entries query tokens queryEmbedding =
     concat (map (\<lambda>e.
       let haystack = haystackOf e; base = computeScore haystack query tokens; score = entryScore env queryEmbedding e base in
       if base = 0 then []
       else [\<lparr>sh_row =
               [(''kind'', JStr ''store''), (''ref'', storeRef (en_id e)), (''id'', JStr (en_id e)), (''title'', JStr (en_title e)),
                (''preview'', JStr (buildPreviewAroundQuery (en_content e) query)), (''tags'', jtags (en_tags e)),
                (''createdAt'', JStr (en_createdAt e)), (''updatedAt'', JStr (en_updatedAt e)), (''importance'', jint (en_importance e)),
                (''confidence'', jrat (en_confidence e)), (''source'', JStr (en_source e)), (''namespace'', JStr (en_namespace e)),
                (''trustTier'', jtier (en_trustTier e)), (''score'', jint score),
                (''exactMatch'', JBool (query \<noteq> [] \<and> str_includes (to_lower haystack) query)),
                (''matchedTokens'', jint (int (countMatchedTokens haystack tokens)))],
              sh_score = score, sh_isStore = True\<rparr>]) entries)"

definition fileRef :: "string \<Rightarrow> nat \<Rightarrow> jsv" where
  "fileRef relative line = JStr (''file:'' @ relative @ ''#L'' @ nat_to_string line)"

definition fileHit :: "string \<Rightarrow> string list \<Rightarrow> string \<Rightarrow> string list \<Rightarrow> nat \<Rightarrow> search_hit" where
  "fileHit relative lines query tokens i =
     (let score = int (computeScore (lines ! i) query tokens) + 6 in
      \<lparr>sh_row =
         [(''kind'', JStr ''file''), (''ref'', fileRef relative (i + 1)), (''path'', JStr relative), (''line'', jint (int (i + 1))),
          (''preview'', JStr (compactPreview (buildFileContextSnippet lines i 3) 320)), (''score'', jint score),
          (''exactMatch'', JBool (query \<noteq> [] \<and> str_includes (to_lower (lines ! i)) query)),
          (''matchedTokens'', jint (int (countMatchedTokens (lines ! i) tokens)))],
       sh_score = score, sh_isStore = False\<rparr>)"

text \<open>The best two lines of a file; the sort is stable, so that equal scores keep the order of the lines.\<close>

definition bestLines :: "string list \<Rightarrow> string \<Rightarrow> string list \<Rightarrow> nat list" where
  "bestLines lines query tokens =
     take 2 (sort_key (\<lambda>i. - int (computeScore (lines ! i) query tokens))
       (filter (\<lambda>i. trim (lines ! i) \<noteq> [] \<and> 0 < computeScore (lines ! i) query tokens) [0..<length lines]))"

definition searchMemoryFile :: "mem_ctx \<Rightarrow> node \<Rightarrow> string \<Rightarrow> string list \<Rightarrow> string \<Rightarrow> search_hit list" where
  "searchMemoryFile ctx fs query tokens filePath =
     (case node_at fs filePath of
        Some (File t) \<Rightarrow>
          if MAX_MEMORY_FILE_BYTES < byteLength t then []
          else
            let lines = normalizeLineBreaks t; relative = normalizeRelativePath (mc_cwd ctx) (mc_workspaceDir ctx) filePath in
            map (fileHit relative lines query tokens) (bestLines lines query tokens)
      | _ \<Rightarrow> [])"

definition memorySearch :: "mem_ctx \<Rightarrow> mem_env \<Rightarrow> node \<Rightarrow> jsv \<Rightarrow> mem_file option \<Rightarrow> (string + jsv) \<times> mem_file option" where
  "memorySearch ctx env fs params store =
     (let query = to_lower (text_param params ''query'') in
      if query = [] then (Inl ''query is required.'', store)
      else
        let limit = clampInt (jget params ''limit'') 1 20 8;
            includeStore = (jget params ''includeStore'' \<noteq> JBool False); includeFiles = (jget params ''includeFiles'' \<noteq> JBool False);
            includeSurrounding = (includeFiles \<and> jget params ''includeSurrounding'' \<noteq> JBool False);
            tokens = tokenizeQuery query; scope = scopeOf ctx params;
            entries = loadStoreEntries (Some MAX_STORE_SCAN) store;
            storeHits = (if includeStore
              then searchStoreEntries env (filter (\<lambda>e. entryMatchesScope e scope) entries) query tokens (embedTokens tokens) else []);
            files = (if includeFiles then collectMemoryFiles env ctx fs includeSurrounding else []);
            allHits = sort_key (\<lambda>h. - sh_score h) (storeHits @ concat (map (searchMemoryFile ctx fs query tokens) files))
        in (Inr (JObj
              [(''query'', JStr query), (''limit'', jint limit), (''results'', JArr (map hitJson (take (nat limit) allHits))),
               (''searched'', JObj
                 [(''includeStore'', JBool includeStore), (''includeFiles'', JBool includeFiles), (''includeSurrounding'', JBool includeSurrounding),
                  (''namespace'', JStr (sc_namespace scope)), (''minTrustTier'', jtier (sc_minTrustTier scope)),
                  (''storeEntriesScanned'', jint (if includeStore then int (length entries) else 0)),
                  (''storeEntriesMatchedScope'', jint (int (length (filter sh_isStore allHits)))),
                  (''filesScanned'', jint (int (length files)))])]), store))"

section \<open>Reading\<close>

definition line_suffix :: "string \<Rightarrow> string option" where
  "line_suffix s = (let ds = drop 2 s in if starts_with s ''#L'' \<and> ds \<noteq> [] \<and> list_all is_digit ds then Some ds else None)"

text \<open>\<open>/^(.*?)(?:#L(\d+))?$/\<close>: the shortest beginning that a line number or nothing follows.\<close>

fun splitFileRef :: "string \<Rightarrow> string \<times> string option" where
  "splitFileRef [] = ([], None)"
| "splitFileRef (c # s) =
     (case line_suffix (c # s) of Some ds \<Rightarrow> ([], Some ds) | None \<Rightarrow> (case splitFileRef s of (p, l) \<Rightarrow> (c # p, l)))"

definition parseFileRef :: "string \<Rightarrow> (string \<times> int option) option" where
  "parseFileRef ref =
     (let trimmed = trim ref; body = drop 5 trimmed in
      if \<not> starts_with trimmed ''file:'' then None
      else if \<not> list_all is_dot body then None
      else case splitFileRef body of (p, l) \<Rightarrow>
             if trim p = [] then None else Some (trim p, map_option (\<lambda>ds. clampInt (JStr ds) 1 1000000 1) l))"

definition targetIdOf :: "string \<Rightarrow> string \<Rightarrow> string" where
  "targetIdOf ref explicitId =
     (let idFromRef = (if starts_with ref ''store:'' then trim (drop 6 ref) else []) in
      if starts_with explicitId ''store:'' then trim (drop 6 explicitId) else or_text explicitId idFromRef)"

definition clampRat :: "rat \<Rightarrow> rat" where
  "clampRat q = max (1 / 20) (min 1 q)"

definition reinforced :: "string \<Rightarrow> store_entry \<Rightarrow> store_entry" where
  "reinforced now e = e\<lparr>en_updatedAt := now, en_lastAccessedAt := now, en_reinforceCount := min 10000 (en_reinforceCount e + 1),
     en_confidence := clampRat (en_confidence e + 1 / 50)\<rparr>"

definition getEntryResult :: "store_entry \<Rightarrow> store_entry \<Rightarrow> nat \<Rightarrow> bool \<Rightarrow> jsv" where
  "getEntryResult e m maxChars reinforce =
     (case clipText (en_content e) maxChars of (t, clipped) \<Rightarrow>
        JObj [(''source'', JStr ''store''), (''ref'', storeRef (en_id e)), (''id'', JStr (en_id e)), (''title'', JStr (en_title e)),
          (''content'', JStr t), (''truncated'', JBool clipped), (''tags'', jtags (en_tags e)), (''createdAt'', JStr (en_createdAt e)),
          (''updatedAt'', JStr (en_updatedAt m)), (''lastAccessedAt'', JStr (en_lastAccessedAt m)), (''reinforceCount'', jint (en_reinforceCount m)),
          (''importance'', jint (en_importance m)), (''confidence'', jrat (en_confidence m)), (''memorySource'', JStr (en_source m)),
          (''namespace'', JStr (en_namespace m)), (''trustTier'', jtier (en_trustTier m)), (''reinforced'', JBool reinforce)])"

definition NOT_A_MEMORY_FILE :: string where
  "NOT_A_MEMORY_FILE = ''memory_get path must target memory docs (MEMORY.md, memory.md, memory/*.md) or surrounding context files (AGENTS.md, USER.md, SOUL.md, TOOLS.md, IDENTITY.md, HEARTBEAT.md, BOOTSTRAP.md, README.md).''"

definition getFile :: "mem_ctx \<Rightarrow> mem_env \<Rightarrow> node \<Rightarrow> string \<Rightarrow> int \<Rightarrow> nat \<Rightarrow> nat \<Rightarrow> string + jsv" where
  "getFile ctx env fs rawPath line contextLines maxChars =
     (let absolutePath = resolve_from (mc_cwd ctx) (mc_workspaceDir ctx) rawPath in
      if \<not> isMemorySourceFilePath (mc_cwd ctx) (mc_workspaceDir ctx) absolutePath then Inl NOT_A_MEMORY_FILE
      else if isSensitivePath (mc_cwd ctx) absolutePath (mc_workspaceDir ctx) then Inl ''Access to sensitive credential files is blocked.''
      else case node_at fs absolutePath of
             None \<Rightarrow> Inl (''Memory file not found: '' @ rawPath)
           | Some (File t) \<Rightarrow>
               (let lines = normalizeLineBreaks t;
                    lineIndex = nat (max 0 (min (int (length lines) - 1) (line - 1)));
                    (s, clipped) = clipText (buildFileContextSnippet lines lineIndex contextLines) maxChars;
                    relative = normalizeRelativePath (mc_cwd ctx) (mc_workspaceDir ctx) absolutePath
                in Inr (JObj
                     [(''source'', JStr ''file''), (''ref'', fileRef relative (lineIndex + 1)), (''path'', JStr relative),
                      (''lineStart'', jint (int (max 1 (lineIndex + 1 - contextLines)))),
                      (''lineEnd'', jint (int (min (length lines) (lineIndex + 1 + contextLines)))),
                      (''content'', JStr s), (''truncated'', JBool clipped)]))
           | Some _ \<Rightarrow> Inl (me_ioError env absolutePath))"

definition memoryGet :: "mem_ctx \<Rightarrow> mem_env \<Rightarrow> node \<Rightarrow> jsv \<Rightarrow> mem_file option \<Rightarrow> (string + jsv) \<times> mem_file option" where
  "memoryGet ctx env fs params store =
     (let contextLines = nat (clampInt (jget params ''contextLines'') 0 20 3); maxChars = nat (clampInt (jget params ''maxChars'') 200 60000 12000);
          reinforce = (jget params ''reinforce'' \<noteq> JBool False);
          ref = text_param params ''ref''; targetId = targetIdOf ref (text_param params ''id'')
      in if targetId \<noteq> [] then
           (case findStoreEntryById store targetId (scopeOf ctx params) of
              None \<Rightarrow> (Inl (''Memory entry not found: '' @ targetId), store)
            | Some e \<Rightarrow>
                let m = (if reinforce then reinforced (me_nowIso env) e else e) in
                (Inr (getEntryResult e m maxChars reinforce), if reinforce then appendStoreEntry m store else store))
         else
           let fromRef = parseFileRef ref;
               rawPath = trim (to_str (coalesce (jget params ''path'') (JStr (case fromRef of Some (p, _) \<Rightarrow> p | None \<Rightarrow> []))));
               refLine = (case fromRef of Some (_, Some l) \<Rightarrow> jint l | _ \<Rightarrow> JUndef);
               line = clampInt (coalesce (jget params ''line'') refLine) 1 1000000 1
           in (if rawPath = [] then Inl ''Provide one of: ref, id, or path.'' else getFile ctx env fs rawPath line contextLines maxChars, store))"

section \<open>Saving\<close>

record conflict_hint =
  ch_id :: string
  ch_title :: string
  ch_reason :: string
  ch_similarity :: rat

definition titled :: "string \<Rightarrow> string \<Rightarrow> string" where
  "titled title content = title @ [CHR 0x0A] @ content"

definition findPotentialConflicts :: "store_entry list \<Rightarrow> string \<Rightarrow> string \<Rightarrow> conflict_hint list" where
  "findPotentialConflicts entries title content =
     (let titleKey = normalizeTitleKey title; incomingTokens = tokenizeForSimilarity (titled title content) in
      take 8 (sort_key (\<lambda>h. - ch_similarity h)
        (concat (map (\<lambda>e.
           let similarity = jaccardSimilarity incomingTokens (tokenizeForSimilarity (titled (en_title e) (en_content e))) in
           if normalizeTitleKey (en_title e) \<noteq> titleKey \<and> similarity < 13 / 20 then []
           else case detectConflictReason (en_content e) content of
                  None \<Rightarrow> []
                | Some reason \<Rightarrow>
                    [\<lparr>ch_id = en_id e, ch_title = en_title e, ch_reason = reason, ch_similarity = fixed 3 similarity\<rparr>]) entries))))"

fun bestMatch :: "string list \<Rightarrow> store_entry list \<Rightarrow> (store_entry \<times> rat) option \<Rightarrow> (store_entry \<times> rat) option" where
  "bestMatch tokens [] best = best"
| "bestMatch tokens (e # es) best =
     (let score = jaccardSimilarity tokens (tokenizeForSimilarity (titled (en_title e) (en_content e))) in
      if score < 18 / 25 then bestMatch tokens es best
      else bestMatch tokens es (case best of
             None \<Rightarrow> Some (e, score)
           | Some (b, s) \<Rightarrow> if s < score then Some (e, score) else Some (b, s)))"

definition pickStoreEntryForUpsert :: "store_entry list \<Rightarrow> string \<Rightarrow> string \<Rightarrow> store_entry option" where
  "pickStoreEntryForUpsert entries title content =
     (let titleKey = normalizeTitleKey title in
      if titleKey = [] then None
      else case List.find (\<lambda>e. normalizeTitleKey (en_title e) = titleKey) entries of
             Some e \<Rightarrow> Some e
           | None \<Rightarrow>
               let incomingTokens = tokenizeForSimilarity (titled title content) in
               if incomingTokens = [] then None else map_option fst (bestMatch incomingTokens entries None))"

record save_params =
  sp_title :: string
  sp_content :: string
  sp_tags :: "string list"
  sp_importance :: int
  sp_confidence :: rat
  sp_source :: string
  sp_namespace :: string
  sp_trustTier :: trust_tier
  sp_onConflict :: string

definition saveParams :: "mem_ctx \<Rightarrow> jsv \<Rightarrow> save_params" where
  "saveParams ctx params =
     (let source = normalizeSource (jget params ''source'') ''user'';
          tier = normalizeTrustTier (jget params ''trustTier'') (if source = ''user'' then Verified else Observed)
      in \<lparr>sp_title = text_param params ''title'', sp_content = text_param params ''content'', sp_tags = normalizeTags (jget params ''tags''),
          sp_importance = clampInt (jget params ''importance'') 1 5 3, sp_confidence = clampNumber (jget params ''confidence'') (1 / 20) 1 (4 / 5),
          sp_source = source, sp_namespace = normalizeNamespace (jget params ''namespace'') (mc_namespace ctx),
          sp_trustTier = (if source \<noteq> ''system'' \<and> tier = SystemTier then Verified else tier),
          sp_onConflict = or_text (to_lower (trim (to_str (coalesce (jget params ''onConflict'') (JStr ''upsert''))))) ''upsert''\<rparr>)"

definition newEntry :: "mem_env \<Rightarrow> save_params \<Rightarrow> store_entry" where
  "newEntry env p =
     \<lparr>en_id = me_uuid env, en_title = sp_title p, en_content = sp_content p, en_tags = sp_tags p, en_createdAt = me_nowIso env,
      en_updatedAt = me_nowIso env, en_lastAccessedAt = me_nowIso env, en_reinforceCount = 0, en_importance = sp_importance p,
      en_confidence = sp_confidence p, en_source = sp_source p, en_namespace = sp_namespace p, en_trustTier = sp_trustTier p\<rparr>"

definition mergedEntry :: "mem_env \<Rightarrow> save_params \<Rightarrow> store_entry \<Rightarrow> store_entry" where
  "mergedEntry env p old =
     old\<lparr>en_title := sp_title p, en_content := mergeMemoryContent (me_nowIso env) (en_content old) (sp_content p),
      en_tags := mergeMemoryTags (en_tags old) (sp_tags p), en_updatedAt := me_nowIso env,
      en_importance := max (en_importance old) (sp_importance p),
      en_confidence := clampRat ((en_confidence old + sp_confidence p) / 2 + 1 / 20),
      en_source := (if sp_source p = ''user'' then en_source old else sp_source p),
      en_trustTier := (if trustTierRank (sp_trustTier p) \<le> trustTierRank (en_trustTier old) then en_trustTier old else sp_trustTier p)\<rparr>"

definition quotaJson :: "string \<Rightarrow> namespace_quota option \<Rightarrow> jsv" where
  "quotaJson namespace q = JObj ((''namespace'', JStr namespace) # (case q of
     None \<Rightarrow> []
   | Some q \<Rightarrow> [(''maxEntries'', jint (nq_maxEntries q)), (''maxBytes'', jint (nq_maxBytes q)), (''evictionPolicy'', JStr (policy_name (nq_policy q)))]))"

definition conflictJson :: "conflict_hint \<Rightarrow> jsv" where
  "conflictJson h = JObj [(''ref'', storeRef (ch_id h)), (''id'', JStr (ch_id h)), (''title'', JStr (ch_title h)), (''reason'', JStr (ch_reason h)),
     (''similarity'', jrat (ch_similarity h))]"

definition refuseSave :: "save_params \<Rightarrow> string option" where
  "refuseSave p =
     (if sp_title p = [] then Some ''title is required.''
      else if sp_content p = [] then Some ''content is required.''
      else if sp_onConflict p \<notin> {''upsert'', ''replace''} then Some ''onConflict must be one of: upsert, replace.''
      else if containsLikelySecret (titled (sp_title p) (titled (sp_content p) (js_join '' '' (sp_tags p))))
      then Some ''memory_save blocked: suspected secret/credential content. Do not store secrets in memory.''
      else None)"

definition savedEntry :: "mem_env \<Rightarrow> save_params \<Rightarrow> bool \<Rightarrow> store_entry option \<Rightarrow> store_entry" where
  "savedEntry env p replace existing =
     (case existing of Some old \<Rightarrow> if replace then newEntry env p else mergedEntry env p old | None \<Rightarrow> newEntry env p)"

definition memorySave :: "mem_ctx \<Rightarrow> mem_env \<Rightarrow> node \<Rightarrow> jsv \<Rightarrow> mem_file option \<Rightarrow> (string + jsv) \<times> mem_file option" where
  "memorySave ctx env fs params store =
     (let p = saveParams ctx params in
      case refuseSave p of
        Some err \<Rightarrow> (Inl err, store)
      | None \<Rightarrow>
          let scopedEntries = filter (\<lambda>e. en_namespace e = sp_namespace p) (loadStoreEntries None store);
              existing = pickStoreEntryForUpsert scopedEntries (sp_title p) (sp_content p);
              conflicts = findPotentialConflicts scopedEntries (sp_title p) (sp_content p);
              conflictIds = dedup (map ch_id conflicts);
              replace = (sp_onConflict p = ''replace'' \<and> conflictIds \<noteq> []);
              store1 = (if replace
                then appendStoreDeleteMarkers (map (\<lambda>i. \<lparr>dm_id = i, dm_deletedAt = me_nowIso env,
                       dm_reason = Some (''Replaced by newer conflicting memory for '' @ quote_text (sp_title p))\<rparr>) conflictIds) store
                else store);
              e = savedEntry env p replace existing;
              ((evictedIds, quota), store2) = enforceNamespaceQuota env (mc_quota ctx) (en_namespace e) (en_id e) (appendStoreEntry e store1)
          in (Inr (JObj (
                [(''ok'', JBool True), (''ref'', storeRef (en_id e)), (''id'', JStr (en_id e)), (''title'', JStr (en_title e)),
                 (''tags'', jtags (en_tags e)), (''createdAt'', JStr (en_createdAt e)), (''updatedAt'', JStr (en_updatedAt e)),
                 (''importance'', jint (en_importance e)), (''confidence'', jrat (en_confidence e)), (''memorySource'', JStr (en_source e)),
                 (''namespace'', JStr (en_namespace e)), (''trustTier'', jtier (en_trustTier e)), (''onConflict'', JStr (sp_onConflict p)),
                 (''upserted'', JBool (existing \<noteq> None \<and> \<not> replace)), (''conflictDetected'', JBool (conflicts \<noteq> [])),
                 (''conflicts'', JArr (map conflictJson conflicts)), (''replacedIds'', jtags (if replace then conflictIds else [])),
                 (''quota'', quotaJson (en_namespace e) quota), (''evictedIds'', jtags evictedIds)] @
                opt_member (conflicts \<noteq> [] \<and> \<not> replace) ''conflictSuggestion''
                  (JStr (''Potential contradiction detected. Use onConflict='' @ [CHR 0x27] @ ''replace'' @ [CHR 0x27] @ '' to supersede older entry.'')))),
              store2))"

section \<open>Deleting and pruning\<close>

definition deleteTarget :: "mem_ctx \<Rightarrow> mem_env \<Rightarrow> jsv \<Rightarrow> mem_file option \<Rightarrow> string + store_entry" where
  "deleteTarget ctx env params store =
     (let ref = text_param params ''ref''; title = text_param params ''title''; scope = scopeOf ctx params;
          targetId = targetIdOf ref (text_param params ''id'')
      in if starts_with ref ''file:'' then Inl ''memory_delete only supports durable store entries (store:<id>), not file refs.''
         else if targetId = [] \<and> title = [] then Inl ''Provide one of: ref, id, or title.''
         else case (if targetId \<noteq> [] then findStoreEntryById store targetId scope else findStoreEntryByTitle env store title scope) of
                None \<Rightarrow> Inl ''Memory entry not found or already deleted.''
              | Some e \<Rightarrow> Inr e)"

definition memoryDelete :: "mem_ctx \<Rightarrow> mem_env \<Rightarrow> node \<Rightarrow> jsv \<Rightarrow> mem_file option \<Rightarrow> (string + jsv) \<times> mem_file option" where
  "memoryDelete ctx env fs params store =
     (case deleteTarget ctx env params store of
        Inl err \<Rightarrow> (Inl err, store)
      | Inr e \<Rightarrow>
          let reason = text_param params ''reason'' in
          (Inr (JObj (
             [(''ok'', JBool True), (''deleted'', JBool True), (''ref'', storeRef (en_id e)), (''id'', JStr (en_id e)), (''title'', JStr (en_title e)),
              (''namespace'', JStr (en_namespace e)), (''trustTier'', jtier (en_trustTier e)), (''deletedAt'', JStr (me_nowIso env))] @
             opt_member (reason \<noteq> []) ''reason'' (JStr reason))),
           appendStoreDeleteMarkers [\<lparr>dm_id = en_id e, dm_deletedAt = me_nowIso env, dm_reason = (if reason \<noteq> [] then Some reason else None)\<rparr>] store))"

definition finite_param :: "jsv \<Rightarrow> string \<Rightarrow> bool" where
  "finite_param params k = is_finite (to_num (jget params k))"

text \<open>\<open>filter((entry, idx) => ...)\<close> over the list sorted by date.\<close>

definition pruneCandidates :: "mem_env \<Rightarrow> int option \<Rightarrow> int option \<Rightarrow> store_entry list \<Rightarrow> store_entry list" where
  "pruneCandidates env maxEntries olderThanDays sorted_entries =
     (let threshold = map_option (\<lambda>d. me_now env - d * 86400000) olderThanDays in
      map snd (filter (\<lambda>(idx, e).
        (case maxEntries of Some m \<Rightarrow> m \<le> int idx | None \<Rightarrow> False) \<or>
        (case threshold of Some t \<Rightarrow> 0 < updatedMillis env e \<and> updatedMillis env e \<le> t | None \<Rightarrow> False))
        (enumerate 0 sorted_entries)))"

definition pruneScope :: "mem_ctx \<Rightarrow> mem_env \<Rightarrow> jsv \<Rightarrow> mem_file option \<Rightarrow> store_entry list" where
  "pruneScope ctx env params store =
     sort_key (\<lambda>e. - parseIsoMillis env (en_updatedAt e)) (filter (\<lambda>e. entryMatchesScope e (scopeOf ctx params)) (loadStoreEntries None store))"

definition pruneMax :: "jsv \<Rightarrow> int option" where
  "pruneMax params = (if finite_param params ''maxEntries'' then Some (clampInt (jget params ''maxEntries'') 1 10000 1000) else None)"

definition pruneDays :: "jsv \<Rightarrow> int option" where
  "pruneDays params = (if finite_param params ''olderThanDays'' then Some (clampInt (jget params ''olderThanDays'') 1 3650 365) else None)"

definition memoryPrune :: "mem_ctx \<Rightarrow> mem_env \<Rightarrow> node \<Rightarrow> jsv \<Rightarrow> mem_file option \<Rightarrow> (string + jsv) \<times> mem_file option" where
  "memoryPrune ctx env fs params store =
     (if pruneMax params = None \<and> pruneDays params = None
      then (Inl ''Provide at least one prune criterion: maxEntries or olderThanDays.'', store)
      else
        let dryRun = (jget params ''dryRun'' \<noteq> JBool False); reason = or_text (text_param params ''reason'') ''Pruned by retention policy'';
            scope = scopeOf ctx params; sorted_entries = pruneScope ctx env params store;
            candidates = pruneCandidates env (pruneMax params) (pruneDays params) sorted_entries
        in (Inr (JObj
              [(''ok'', JBool True), (''dryRun'', JBool dryRun), (''scanned'', jint (int (length sorted_entries))),
               (''kept'', jint (max 0 (int (length sorted_entries) - int (length candidates)))),
               (''pruned'', jint (if dryRun then 0 else int (length candidates))), (''wouldPrune'', jint (int (length candidates))),
               (''criteria'', JObj (
                  (case pruneMax params of Some m \<Rightarrow> [(''maxEntries'', jint m)] | None \<Rightarrow> []) @
                  (case pruneDays params of Some d \<Rightarrow> [(''olderThanDays'', jint d)] | None \<Rightarrow> []) @
                  [(''namespace'', JStr (sc_namespace scope)), (''minTrustTier'', jtier (sc_minTrustTier scope))])),
               (''reason'', JStr reason),
               (''samples'', JArr (map (\<lambda>e. JObj [(''ref'', storeRef (en_id e)), (''id'', JStr (en_id e)), (''title'', JStr (en_title e)),
                  (''updatedAt'', JStr (en_updatedAt e))]) (take 25 candidates)))]),
            if \<not> dryRun \<and> candidates \<noteq> []
            then appendStoreDeleteMarkers (map (\<lambda>e. \<lparr>dm_id = en_id e, dm_deletedAt = me_nowIso env, dm_reason = Some reason\<rparr>) candidates) store
            else store))"

section \<open>Listing and statistics\<close>

definition listOrder :: "mem_env \<Rightarrow> string \<Rightarrow> store_entry \<Rightarrow> int" where
  "listOrder env order e =
     (if order = ''updated_asc'' then parseIsoMillis env (en_updatedAt e)
      else if order = ''created_desc'' then - parseIsoMillis env (en_createdAt e)
      else if order = ''created_asc'' then parseIsoMillis env (en_createdAt e)
      else - parseIsoMillis env (en_updatedAt e))"

definition listRow :: "bool \<Rightarrow> nat \<Rightarrow> store_entry \<Rightarrow> jsv" where
  "listRow includeContent maxContentChars e =
     (case clipText (en_content e) maxContentChars of (t, clipped) \<Rightarrow>
        JObj ([(''ref'', storeRef (en_id e)), (''id'', JStr (en_id e)), (''title'', JStr (en_title e)),
          (''preview'', JStr (compactPreview (en_content e) 240)), (''tags'', jtags (en_tags e)), (''createdAt'', JStr (en_createdAt e)),
          (''updatedAt'', JStr (en_updatedAt e)), (''lastAccessedAt'', JStr (en_lastAccessedAt e)), (''reinforceCount'', jint (en_reinforceCount e)),
          (''importance'', jint (en_importance e)), (''confidence'', jrat (en_confidence e)), (''memorySource'', JStr (en_source e)),
          (''namespace'', JStr (en_namespace e)), (''trustTier'', jtier (en_trustTier e))] @
          opt_member includeContent ''content'' (JStr t) @ opt_member includeContent ''truncated'' (JBool clipped)))"

definition listFilter :: "memory_scope \<Rightarrow> string list \<Rightarrow> int \<Rightarrow> string \<Rightarrow> string \<Rightarrow> string list \<Rightarrow> store_entry \<Rightarrow> bool" where
  "listFilter scope tags importanceAtLeast sourceFilter query tokens e \<longleftrightarrow>
     entryMatchesScope e scope \<and> list_all (\<lambda>t. t \<in> set (en_tags e)) tags \<and> importanceAtLeast \<le> en_importance e
     \<and> (sourceFilter = [] \<or> en_source e = sourceFilter) \<and> (query = [] \<or> 0 < computeScore (haystackOf e) query tokens)"

definition memoryList :: "mem_ctx \<Rightarrow> mem_env \<Rightarrow> node \<Rightarrow> jsv \<Rightarrow> mem_file option \<Rightarrow> (string + jsv) \<times> mem_file option" where
  "memoryList ctx env fs params store =
     (let query = to_lower (text_param params ''query''); tags = normalizeTags (jget params ''tags'');
          limit = clampInt (jget params ''limit'') 1 500 50; importanceAtLeast = clampInt (jget params ''importanceAtLeast'') 1 5 1;
          sourceFilter = normalizeSource (jget params ''source'') []; scope = scopeOf ctx params;
          includeContent = (jget params ''includeContent'' = JBool True);
          maxContentChars = nat (clampInt (jget params ''maxContentChars'') 200 60000 12000);
          order = to_lower (trim (to_str (coalesce (jget params ''order'') (JStr ''updated_desc''))))
      in if order \<notin> {''updated_desc'', ''updated_asc'', ''created_desc'', ''created_asc''}
         then (Inl ''order must be one of: updated_desc, updated_asc, created_desc, created_asc.'', store)
         else
           let scanned = loadStoreEntries None store;
               found = sort_key (listOrder env order)
                 (filter (listFilter scope tags importanceAtLeast sourceFilter query (tokenizeQuery query)) scanned)
           in (Inr (JObj
                 [(''limit'', jint limit), (''total'', jint (int (length found))), (''scanned'', jint (int (length scanned))),
                  (''results'', JArr (map (listRow includeContent maxContentChars) (take (nat limit) found))),
                  (''filters'', JObj
                     [(''query'', or_null query), (''tags'', jtags tags), (''importanceAtLeast'', jint importanceAtLeast),
                      (''source'', or_null sourceFilter), (''namespace'', JStr (sc_namespace scope)), (''minTrustTier'', jtier (sc_minTrustTier scope)),
                      (''order'', JStr order), (''includeContent'', JBool includeContent)])]), store))"

definition average :: "(store_entry \<Rightarrow> rat) \<Rightarrow> store_entry list \<Rightarrow> rat" where
  "average f es = sum_list (map f es) / of_nat (max 1 (length es))"

definition first_date :: "(store_entry \<Rightarrow> int) \<Rightarrow> store_entry list \<Rightarrow> jsv" where
  "first_date k es = (case sort_key k es of e # _ \<Rightarrow> JStr (en_updatedAt e) | [] \<Rightarrow> JNull)"

definition countTier :: "store_entry list \<Rightarrow> trust_tier \<Rightarrow> string \<times> jsv" where
  "countTier es t = (tier_name t, jint (int (length (filter (\<lambda>e. en_trustTier e = t) es))))"

definition entriesBytes :: "store_entry list \<Rightarrow> nat" where
  "entriesBytes es = sum_list (map estimateEntryBytes es)"

text \<open>Without limits of its own, \<open>__proto__\<close> is shown the empty prototype; the function \<open>constructor\<close> has no JSON text.\<close>

definition namespaceRow :: "mem_ctx \<Rightarrow> mem_env \<Rightarrow> string \<Rightarrow> store_entry list \<Rightarrow> jsv" where
  "namespaceRow ctx env namespace es = JObj (
     [(''namespace'', JStr namespace), (''count'', jint (int (length es))), (''bytes'', jint (int (entriesBytes es))),
      (''avgImportance'', jrat (fixed 2 (average (\<lambda>e. of_int (en_importance e)) es))), (''avgConfidence'', jrat (fixed 3 (average en_confidence es))),
      (''avgReinforceCount'', jrat (fixed 2 (average (\<lambda>e. of_int (en_reinforceCount e)) es))), (''trustCounts'', JObj (map (countTier es) TRUST_TIERS)),
      (''newestUpdatedAt'', first_date (\<lambda>e. - parseIsoMillis env (en_updatedAt e)) es),
      (''oldestUpdatedAt'', first_date (\<lambda>e. parseIsoMillis env (en_updatedAt e)) es)] @
     (case resolveNamespaceQuota (mc_quota ctx) namespace of
        Some q \<Rightarrow> [(''quota'', JObj [(''maxEntries'', jint (nq_maxEntries q)), (''maxBytes'', jint (nq_maxBytes q)),
                     (''evictionPolicy'', JStr (policy_name (nq_policy q)))])]
      | None \<Rightarrow> opt_member (namespace = ''__proto__'') ''quota'' (JObj [])))"

definition groupByNamespace :: "store_entry list \<Rightarrow> (string, store_entry list) omap" where
  "groupByNamespace es = map (\<lambda>n. (n, filter (\<lambda>e. en_namespace e = n) es)) (dedup (map en_namespace es))"

definition staleRow :: "mem_env \<Rightarrow> store_entry \<Rightarrow> jsv" where
  "staleRow env e = JObj
     [(''ref'', storeRef (en_id e)), (''id'', JStr (en_id e)), (''title'', JStr (en_title e)), (''namespace'', JStr (en_namespace e)),
      (''trustTier'', jtier (en_trustTier e)), (''importance'', jint (en_importance e)), (''confidence'', jrat (en_confidence e)),
      (''reinforceCount'', jint (en_reinforceCount e)), (''lastAccessedAt'', JStr (en_lastAccessedAt e)), (''updatedAt'', JStr (en_updatedAt e)),
      (''score'', jrat (fixed 3 (computeEntrySignalScore env e)))]"

definition history_lines :: "mem_file option \<Rightarrow> nat" where
  "history_lines store = (case store of None \<Rightarrow> 0 | Some ls \<Rightarrow> length (filter (\<lambda>l. trim (line_text l) \<noteq> []) ls))"

definition memoryStats :: "mem_ctx \<Rightarrow> mem_env \<Rightarrow> node \<Rightarrow> jsv \<Rightarrow> mem_file option \<Rightarrow> (string + jsv) \<times> mem_file option" where
  "memoryStats ctx env fs params store =
     (let given = truthy (jget params ''namespace'');
          scope = resolveScope params (if given then normalizeNamespace (jget params ''namespace'') (mc_namespace ctx) else []) (mc_minTrustTier ctx);
          includeStale = (jget params ''includeStaleCandidates'' \<noteq> JBool False);
          staleLimit = clampInt (jget params ''staleLimit'') 1 50 12; limitNamespaces = clampInt (jget params ''limitNamespaces'') 1 200 40;
          active = loadStoreEntries None store;
          filtered = filter (\<lambda>e. (given \<longrightarrow> en_namespace e = sc_namespace scope)
            \<and> trustTierRank (sc_minTrustTier scope) \<le> trustTierRank (en_trustTier e)) active;
          groups = groupByNamespace filtered;
          rows = sort_key (\<lambda>(_, es). - int (length es)) (sort_key (\<lambda>(_, es). - int (entriesBytes es)) groups)
      in (Inr (JObj
            [(''ok'', JBool True), (''storePath'', JStr (mc_storePath ctx)),
             (''totals'', JObj
                [(''activeEntries'', jint (int (length active))), (''filteredEntries'', jint (int (length filtered))),
                 (''namespaces'', jint (int (length groups))), (''historyLines'', jint (int (history_lines store))),
                 (''reclaimedLinesPotential'', jint (max 0 (int (history_lines store) - int (length active)))),
                 (''estimatedActiveBytes'', jint (int (entriesBytes filtered)))]),
             (''filters'', JObj
                [(''namespace'', if given then JStr (sc_namespace scope) else JNull), (''minTrustTier'', jtier (sc_minTrustTier scope)),
                 (''includeStaleCandidates'', JBool includeStale)]),
             (''namespaces'', JArr (map (\<lambda>(n, es). namespaceRow ctx env n es) (take (nat limitNamespaces) rows))),
             (''staleCandidates'', JArr (if includeStale
                then map (staleRow env) (take (nat staleLimit) (sort_key (computeEntrySignalScore env) filtered)) else []))]), store))"

section \<open>Feedback and compaction\<close>

definition fedBack :: "string \<Rightarrow> bool \<Rightarrow> int \<Rightarrow> store_entry \<Rightarrow> store_entry" where
  "fedBack now useful weight e =
     (if useful
      then e\<lparr>en_updatedAt := now, en_lastAccessedAt := now, en_reinforceCount := min 10000 (en_reinforceCount e + weight),
             en_importance := max 1 (min 5 (en_importance e + weight)), en_confidence := clampRat (en_confidence e + 7 / 100 * of_int weight)\<rparr>
      else e\<lparr>en_updatedAt := now, en_lastAccessedAt := now, en_reinforceCount := max 0 (en_reinforceCount e - weight),
             en_importance := max 1 (min 5 (en_importance e - weight)), en_confidence := clampRat (en_confidence e - 2 / 25 * of_int weight)\<rparr>)"

definition memoryFeedback :: "mem_ctx \<Rightarrow> mem_env \<Rightarrow> node \<Rightarrow> jsv \<Rightarrow> mem_file option \<Rightarrow> (string + jsv) \<times> mem_file option" where
  "memoryFeedback ctx env fs params store =
     (let signal = to_lower (text_param params ''signal''); weight = clampInt (jget params ''weight'') 1 3 1; note = text_param params ''note'';
          targetId = targetIdOf (text_param params ''ref'') (text_param params ''id'')
      in if signal \<noteq> ''useful'' \<and> signal \<noteq> ''not_useful'' then (Inl ''signal must be one of: useful, not_useful.'', store)
         else if targetId = [] then (Inl ''Provide one of: ref or id.'', store)
         else case findStoreEntryById store targetId (scopeOf ctx params) of
                None \<Rightarrow> (Inl (''Memory entry not found: '' @ targetId), store)
              | Some e \<Rightarrow>
                  let u = fedBack (me_nowIso env) (signal = ''useful'') weight e in
                  (Inr (JObj
                     [(''ok'', JBool True), (''ref'', storeRef (en_id u)), (''id'', JStr (en_id u)), (''title'', JStr (en_title u)),
                      (''signal'', JStr signal), (''weight'', jint weight), (''note'', or_null note), (''updatedAt'', JStr (en_updatedAt u)),
                      (''lastAccessedAt'', JStr (en_lastAccessedAt u)), (''reinforceCount'', jint (en_reinforceCount u)),
                      (''importance'', jint (en_importance u)), (''confidence'', jrat (en_confidence u))]),
                   appendStoreEntry u store))"

definition file_bytes :: "mem_file \<Rightarrow> nat" where
  "file_bytes ls = sum_list (map (\<lambda>l. byteLength (line_text l) + 1) ls)"

definition compactedFile :: "mem_file option \<Rightarrow> mem_file" where
  "compactedFile store = map (\<lambda>e. jsonLine (entryJson e)) (loadStoreEntries None store)"

definition memoryCompact :: "mem_ctx \<Rightarrow> mem_env \<Rightarrow> node \<Rightarrow> jsv \<Rightarrow> mem_file option \<Rightarrow> (string + jsv) \<times> mem_file option" where
  "memoryCompact ctx env fs params store =
     (let dryRun = (jget params ''dryRun'' \<noteq> JBool False); scope = scopeOf ctx params;
          linesBefore = history_lines store; linesAfter = length (loadStoreEntries None store);
          report = (\<lambda>compacted before after bytesBefore bytesAfter. JObj
            [(''ok'', JBool True), (''dryRun'', JBool dryRun), (''compacted'', JBool compacted), (''storePath'', JStr (mc_storePath ctx)),
             (''linesBefore'', jint before), (''linesAfter'', jint after), (''reclaimedLines'', jint (max 0 (before - after))),
             (''bytesBefore'', jint bytesBefore), (''bytesAfter'', jint bytesAfter),
             (''scope'', JObj [(''namespace'', JStr (sc_namespace scope)), (''minTrustTier'', jtier (sc_minTrustTier scope))])])
      in case store of
           None \<Rightarrow> (Inr (report False 0 0 0 0), store)
         | Some ls \<Rightarrow>
             (Inr (report (\<not> dryRun \<and> linesAfter \<noteq> linesBefore) (int linesBefore) (int linesAfter) (int (file_bytes ls)) (int (file_bytes (compactedFile store)))),
              if dryRun then store else Some (compactedFile store)))"

datatype memory_tool = MemSearch | MemGet | MemSave | MemDelete | MemList | MemPrune | MemStats | MemFeedback | MemCompact

fun memoryExecute :: "memory_tool \<Rightarrow> mem_ctx \<Rightarrow> mem_env \<Rightarrow> node \<Rightarrow> jsv \<Rightarrow> mem_file option \<Rightarrow> (string + jsv) \<times> mem_file option" where
  "memoryExecute MemSearch = memorySearch"
| "memoryExecute MemGet = memoryGet"
| "memoryExecute MemSave = memorySave"
| "memoryExecute MemDelete = memoryDelete"
| "memoryExecute MemList = memoryList"
| "memoryExecute MemPrune = memoryPrune"
| "memoryExecute MemStats = memoryStats"
| "memoryExecute MemFeedback = memoryFeedback"
| "memoryExecute MemCompact = memoryCompact"

end
