(* ===== verification/Memory_Facts.thy ===== *)
theory Memory_Facts
  imports Memory_Tools
begin

text \<open>
  What the memory tools keep: entries outside the scope of a call, the quota of a namespace, what was saved, and the contents of the
  store under compaction. The proofs use the contract \<open>entry_log\<close> of the store.
\<close>

section \<open>Entries that are written are well formed\<close>

lemma clean_ends: "clean_name s \<longleftrightarrow> s \<noteq> [] \<and> \<not> is_ws (hd s) \<and> \<not> is_ws (last s)"
  using trim_id [of s] trim_ends [of s] by (auto simp: clean_name_def)

lemma clean_between: "clean_name a \<Longrightarrow> clean_name b \<Longrightarrow> clean_name (a @ m @ b)"
  by (simp add: clean_ends)

lemma merge_clean: "clean_name a \<Longrightarrow> clean_name b \<Longrightarrow> clean_name (mergeMemoryContent today a b)"
proof -
  assume c: "clean_name a" "clean_name b"
  then have t: "trim a = a" "trim b = b" "a \<noteq> []" "b \<noteq> []" by (auto simp: clean_name_def)
  have "clean_name (a @ ([CHR 0x0A, CHR 0x0A] @ ''Update ('' @ take 10 today @ ''): '') @ b)" using c by (rule clean_between)
  then show ?thesis using c t by (simp add: mergeMemoryContent_def)
qed

lemma merge_includes: "str_includes (mergeMemoryContent today a b) (trim b)"
proof -
  have s: "str_includes t t" "str_includes (u @ t) t" for t u :: string
    by (auto simp: str_includes_iff) (metis append_Nil append_Nil2, metis append_Nil2)
  show ?thesis
  proof (cases "trim a = [] \<or> trim b = [] \<or> trim a = trim b \<or> str_includes (trim b) (trim a) \<or> str_includes (trim a) (trim b)")
    case True
    then show ?thesis using s by (auto simp: mergeMemoryContent_def Let_def str_includes_iff [of _ "[]"])
  next
    case False
    then show ?thesis using s(2) [of "trim a @ [CHR 0x0A, CHR 0x0A] @ ''Update ('' @ take 10 today @ ''): ''" "trim b"]
      by (simp add: mergeMemoryContent_def Let_def)
  qed
qed

lemma clampRat_bounds: "1 / 20 \<le> clampRat q" "clampRat q \<le> 1"
  by (simp_all add: clampRat_def)

lemma reinforced_ok: "entry_ok e \<Longrightarrow> clean_name now \<Longrightarrow> entry_ok (reinforced now e)"
  using clampRat_bounds by (simp add: entry_ok_def reinforced_def)

lemma fedBack_ok: "entry_ok e \<Longrightarrow> clean_name now \<Longrightarrow> 0 \<le> weight \<Longrightarrow> entry_ok (fedBack now useful weight e)"
  using clampRat_bounds by (simp add: entry_ok_def fedBack_def)

definition saved_params_ok :: "save_params \<Rightarrow> bool" where
  "saved_params_ok p \<longleftrightarrow> clean_name (sp_title p) \<and> clean_name (sp_content p) \<and> tags_ok (sp_tags p) \<and> 1 \<le> sp_importance p \<and> sp_importance p \<le> 5
     \<and> 1 / 20 \<le> sp_confidence p \<and> sp_confidence p \<le> 1 \<and> shortName 2 32 (sp_source p) \<and> shortName 1 64 (sp_namespace p)"

lemma saveParams_ok:
  assumes "refuseSave (saveParams ctx params) = None" "shortName 1 64 (mc_namespace ctx)"
  shows "saved_params_ok (saveParams ctx params)"
proof -
  have "sp_title (saveParams ctx params) \<noteq> []" "sp_content (saveParams ctx params) \<noteq> []"
    using assms(1) by (auto simp: refuseSave_def split: if_split_asm)
  then have "clean_name (sp_title (saveParams ctx params))" "clean_name (sp_content (saveParams ctx params))"
    by (simp_all add: saveParams_def Let_def text_param_def clean_name_def)
  then show ?thesis unfolding saved_params_ok_def saveParams_def Let_def
    using normalizeTags_ok [of "jget params ''tags''"] clampInt_bounds [of 1 5 3] clampNumber_bounds [of "1 / 20" 1 "4 / 5"]
      normalizeSource_ok [OF default_names(1)] normalizeNamespace_ok [OF assms(2)] by simp
qed

lemma newEntry_ok: "saved_params_ok p \<Longrightarrow> clean_name (me_uuid env) \<Longrightarrow> clean_name (me_nowIso env) \<Longrightarrow> entry_ok (newEntry env p)"
  by (simp add: newEntry_def entry_ok_def saved_params_ok_def)

lemma mergedEntry_ok: "saved_params_ok p \<Longrightarrow> entry_ok old \<Longrightarrow> clean_name (me_nowIso env) \<Longrightarrow> entry_ok (mergedEntry env p old)"
  using clampRat_bounds merge_clean [of "en_content old" "sp_content p"] normalizeTags_ok
  by (simp add: mergedEntry_def entry_ok_def saved_params_ok_def mergeMemoryTags_def max_def)

section \<open>The scope of a call\<close>

text \<open>A new id and a time stamp that are not blank, and an id that no entry has.\<close>

definition stamps_ok :: "mem_ctx \<Rightarrow> mem_env \<Rightarrow> mem_file option \<Rightarrow> bool" where
  "stamps_ok ctx env store \<longleftrightarrow> clean_name (me_uuid env) \<and> clean_name (me_nowIso env) \<and> me_uuid env \<notin> en_id ` set (loadStoreEntries None store)
     \<and> shortName 1 64 (mc_namespace ctx)"

lemma markers_ok:
  "list_all entry_ok es \<Longrightarrow> clean_name now \<Longrightarrow> list_all marker_ok (map (\<lambda>e. \<lparr>dm_id = en_id e, dm_deletedAt = now, dm_reason = r\<rparr>) es)"
  by (auto simp: list_all_iff marker_ok_def entry_ok_def)

lemma dm_ids: "dm_id ` set (map (\<lambda>e. \<lparr>dm_id = en_id e, dm_deletedAt = now, dm_reason = r\<rparr>) es) = en_id ` set es"
  by (simp add: image_image)

lemma kept_delete:
  assumes "list_all entry_ok es" "clean_name now" "set es \<subseteq> set (loadStoreEntries None store)" "\<And>e. e \<in> set es \<Longrightarrow> \<not> P e"
  shows "kept P (loadStoreEntries None store)
     (loadStoreEntries None (appendStoreDeleteMarkers (map (\<lambda>e. \<lparr>dm_id = en_id e, dm_deletedAt = now, dm_reason = r\<rparr>) es) store))"
proof (rule mem.kept_remove [OF markers_ok [OF assms(1,2)]])
  fix x
  assume "x \<in> set (loadStoreEntries None store)" "en_id x \<in> dm_id ` set (map (\<lambda>e. \<lparr>dm_id = en_id e, dm_deletedAt = now, dm_reason = r\<rparr>) es)"
  then obtain e where "e \<in> set es" "en_id x = en_id e" unfolding dm_ids by auto
  then show "\<not> P x" using assms(3,4) mem.entries_inj [of x store e] \<open>x \<in> set (loadStoreEntries None store)\<close> by auto
qed

lemma find_in_scope:
  assumes "findStoreEntryById store i scope = Some e"
  shows "e \<in> set (loadStoreEntries None store)" "entryMatchesScope e scope" "en_id e = i" "entry_ok e"
  using assms contents_id [of store i e] contents_ok [of store i e]
  by (auto simp: findById_contents in_load_iff split: option.splits if_split_asm)

lemma kept_update:
  assumes "findStoreEntryById store i scope = Some e" "entry_ok u" "en_id u = en_id e" "en_namespace u = en_namespace e" "en_trustTier u = en_trustTier e"
  shows "kept (\<lambda>x. \<not> entryMatchesScope x scope) (loadStoreEntries None store) (loadStoreEntries None (appendStoreEntry u store))"
proof (rule mem.kept_put [OF assms(2)])
  show "\<not> \<not> entryMatchesScope u scope" using find_in_scope(2) [OF assms(1)] assms(4,5) by (simp add: entryMatchesScope_def)
next
  fix x
  assume "x \<in> set (loadStoreEntries None store)" "en_id x = en_id u"
  then have "x = e" using mem.entries_inj [of x store e] find_in_scope(1) [OF assms(1)] assms(3) by simp
  then show "\<not> \<not> entryMatchesScope x scope" using find_in_scope(2) [OF assms(1)] by simp
qed

lemma insert_sorted_set: "set (insert_sorted le x ys) = insert x (set ys)"
  by (induction ys) auto

lemma insertion_sort_set: "set (insertion_sort le xs) = set xs"
  by (induction xs) (simp_all add: insertion_sort_def insert_sorted_set)

lemma findByTitle_in_scope:
  assumes "findStoreEntryByTitle env store title scope = Some e"
  shows "e \<in> set (loadStoreEntries None store) \<and> entryMatchesScope e scope"
proof -
  obtain es where "insertion_sort (newer_first env) (filter (\<lambda>e. entryMatchesScope e scope)
      (filter (\<lambda>e. normalizeTitleKey (en_title e) = normalizeTitleKey title) (loadStoreEntries None store))) = e # es"
    using assms by (auto simp: findStoreEntryByTitle_def Let_def split: if_split_asm list.splits)
  then have "e \<in> set (filter (\<lambda>e. entryMatchesScope e scope) (filter (\<lambda>e. normalizeTitleKey (en_title e) = normalizeTitleKey title) (loadStoreEntries None store)))"
    using insertion_sort_set by (metis list.set_intros(1))
  then show ?thesis by simp
qed

lemma pruneCandidates_subset: "set (pruneCandidates env m d es) \<subseteq> set es"
  by (auto simp: pruneCandidates_def Let_def in_set_enumerate_eq)

lemma pruneScope_set: "set (pruneScope ctx env params store) = {e \<in> set (loadStoreEntries None store). entryMatchesScope e (scopeOf ctx params)}"
  by (auto simp: pruneScope_def)

section \<open>Quotas\<close>

lemma enforce_quota:
  assumes "enforceNamespaceQuota env cfg ns protected store = ((ids, q), store')" "clean_name (me_nowIso env)"
  shows "kept (\<lambda>e. en_namespace e \<noteq> ns \<or> en_id e = protected) (loadStoreEntries None store) (loadStoreEntries None store')
    \<and> q = resolveNamespaceQuota cfg ns
    \<and> (\<forall>quota. q = Some quota \<longrightarrow> within_quota quota protected (filter (\<lambda>e. en_namespace e = ns) (loadStoreEntries None store')))"
proof (cases "resolveNamespaceQuota cfg ns")
  case None
  then show ?thesis using assms(1) by (simp add: enforceNamespaceQuota_def)
next
  case (Some quota)
  let ?scoped = "filter (\<lambda>e. en_namespace e = ns) (loadStoreEntries None store)"
  have "distinct (map en_id ?scoped)" using load_distinct [of None store] by (simp add: distinct_map_filter)
  then obtain vs where vs: "evictLoop env quota protected ?scoped [] = (filter (\<lambda>e. en_id e \<notin> en_id ` set vs) ?scoped, vs)"
      "set vs \<subseteq> set ?scoped" "protected \<notin> en_id ` set vs" "within_quota quota protected (filter (\<lambda>e. en_id e \<notin> en_id ` set vs) ?scoped)"
    using evictLoop_result [of ?scoped env quota protected "[]"] by auto
  define ms where "ms = map (\<lambda>e. \<lparr>dm_id = en_id e, dm_deletedAt = me_nowIso env,
      dm_reason = Some (''Namespace quota eviction ('' @ policy_name (nq_policy quota) @ '')'')\<rparr>) vs"
  have st: "store' = appendStoreDeleteMarkers ms store" "q = Some quota"
    using assms(1) by (simp_all add: enforceNamespaceQuota_def Some vs(1) ms_def)
  have ok: "list_all entry_ok vs" using vs(2) load_ok [of _ None store] by (auto simp: list_all_iff)
  have mok: "list_all marker_ok ms" unfolding ms_def by (rule markers_ok [OF ok assms(2)])
  have ids: "dm_id ` set ms = en_id ` set vs" unfolding ms_def by (rule dm_ids)
  have "kept (\<lambda>e. en_namespace e \<noteq> ns \<or> en_id e = protected) (loadStoreEntries None store) (loadStoreEntries None store')"
    unfolding st(1) ms_def by (rule kept_delete [OF ok assms(2)]) (use vs(2,3) in auto)
  moreover have "within_quota quota protected (filter (\<lambda>e. en_namespace e = ns) (loadStoreEntries None store'))"
  proof -
    have f: "filter (\<lambda>e. en_id e \<notin> en_id ` set vs) ?scoped = filter (\<lambda>e. en_namespace e = ns \<and> en_id e \<notin> dm_id ` set ms) (loadStoreEntries None store)"
      unfolding ids filter_filter by (rule filter_cong) auto
    have "length (filter (\<lambda>e. en_namespace e = ns) (loadStoreEntries None store')) = length (filter (\<lambda>e. en_id e \<notin> en_id ` set vs) ?scoped)"
      unfolding f st(1) by (rule mem.filter_remove_length [OF mok])
    moreover have "total_bytes (filter (\<lambda>e. en_namespace e = ns) (loadStoreEntries None store')) = total_bytes (filter (\<lambda>e. en_id e \<notin> en_id ` set vs) ?scoped)"
      unfolding f st(1) total_bytes_def by (subst mem.filter_remove_sum [OF mok]) (rule refl)
    moreover have "set (filter (\<lambda>e. en_namespace e = ns) (loadStoreEntries None store')) = set (filter (\<lambda>e. en_id e \<notin> en_id ` set vs) ?scoped)"
      unfolding f st(1) by (rule mem.filter_remove_set [OF mok])
    ultimately show ?thesis using vs(4) by (auto simp: within_quota_def list_all_iff)
  qed
  ultimately show ?thesis using st(2) Some by auto
qed

section \<open>Saving\<close>

lemma conflict_ids:
  assumes "h \<in> set (findPotentialConflicts es title content)"
  shows "ch_id h \<in> en_id ` set es"
proof -
  let ?rows = "\<lambda>e. let similarity = jaccardSimilarity (tokenizeForSimilarity (titled title content)) (tokenizeForSimilarity (titled (en_title e) (en_content e))) in
           if normalizeTitleKey (en_title e) \<noteq> normalizeTitleKey title \<and> similarity < 13 / 20 then []
           else case detectConflictReason (en_content e) content of
                  None \<Rightarrow> []
                | Some reason \<Rightarrow>
                    [\<lparr>ch_id = en_id e, ch_title = en_title e, ch_reason = reason, ch_similarity = fixed 3 similarity\<rparr>]"
  have "h \<in> set (concat (map ?rows es))"
    using assms unfolding findPotentialConflicts_def Let_def by (auto dest!: in_set_takeD)
  then obtain e where "e \<in> set es" "h \<in> set (?rows e)" by auto
  then show ?thesis by (auto simp: Let_def split: if_split_asm option.splits)
qed

lemma bestMatch_mem: "bestMatch tokens es best = Some (e, q) \<Longrightarrow> e \<in> set es \<or> best = Some (e, q)"
  by (induction tokens es best rule: bestMatch.induct) (auto simp: Let_def split: if_split_asm option.splits)

lemma pickUpsert_mem:
  assumes "pickStoreEntryForUpsert es title content = Some e"
  shows "e \<in> set es"
proof (cases "List.find (\<lambda>e. normalizeTitleKey (en_title e) = normalizeTitleKey title) es")
  case (Some x)
  have "e = x" using assms by (simp add: pickStoreEntryForUpsert_def Let_def Some split: if_split_asm)
  moreover have "x \<in> set es" using Some by (auto simp: find_Some_iff)
  ultimately show ?thesis by simp
next
  case None
  then have "map_option fst (bestMatch (tokenizeForSimilarity (titled title content)) es None) = Some e"
    using assms by (auto simp: pickStoreEntryForUpsert_def Let_def split: if_split_asm)
  then show ?thesis using bestMatch_mem [of _ es None] by auto
qed

lemma savedEntry_ok:
  assumes p: "saved_params_ok p" "clean_name (me_uuid env)" "clean_name (me_nowIso env)"
    and old: "\<forall>x. existing = Some x \<longrightarrow> entry_ok x \<and> en_namespace x = sp_namespace p"
  shows "entry_ok (savedEntry env p replace existing)" "en_namespace (savedEntry env p replace existing) = sp_namespace p"
    "en_title (savedEntry env p replace existing) = sp_title p" "str_includes (en_content (savedEntry env p replace existing)) (sp_content p)"
    "en_id (savedEntry env p replace existing) = me_uuid env \<or> (\<exists>x. existing = Some x \<and> en_id (savedEntry env p replace existing) = en_id x)"
    "\<not> (existing \<noteq> None \<and> \<not> replace) \<Longrightarrow> en_content (savedEntry env p replace existing) = sp_content p"
proof -
  have t: "trim (sp_content p) = sp_content p" using p(1) by (simp add: saved_params_ok_def clean_name_def)
  have i: "str_includes (sp_content p) (sp_content p)" by (auto simp: str_includes_iff) (metis append_Nil append_Nil2)
  have n: "entry_ok (newEntry env p)" by (rule newEntry_ok [OF p])
  show "entry_ok (savedEntry env p replace existing)"
    using old n mergedEntry_ok [OF p(1) _ p(3)] by (cases existing) (simp_all add: savedEntry_def)
  show "en_namespace (savedEntry env p replace existing) = sp_namespace p"
    using old by (cases existing) (simp_all add: savedEntry_def newEntry_def mergedEntry_def)
  show "en_title (savedEntry env p replace existing) = sp_title p"
    by (cases existing) (simp_all add: savedEntry_def newEntry_def mergedEntry_def)
  show "str_includes (en_content (savedEntry env p replace existing)) (sp_content p)"
    using i merge_includes [of "me_nowIso env" _ "sp_content p"] by (cases existing) (simp_all add: savedEntry_def newEntry_def mergedEntry_def t)
  show "en_id (savedEntry env p replace existing) = me_uuid env \<or> (\<exists>x. existing = Some x \<and> en_id (savedEntry env p replace existing) = en_id x)"
    by (cases existing) (simp_all add: savedEntry_def newEntry_def mergedEntry_def)
  show "en_content (savedEntry env p replace existing) = sp_content p" if "\<not> (existing \<noteq> None \<and> \<not> replace)"
    using that by (cases existing) (simp_all add: savedEntry_def newEntry_def t)
qed

lemma save_refused: "refuseSave (saveParams ctx params) = Some err \<Longrightarrow> memorySave ctx env fs params store = (Inl err, store)"
  by (simp add: memorySave_def)

text \<open>What a save that succeeds has done: an entry was put after removals in its namespace, and the quota was enforced.\<close>

lemma save_steps:
  assumes "memorySave ctx env fs params store = (Inr v, store')" "stamps_ok ctx env store"
  defines "p \<equiv> saveParams ctx params"
  obtains e where "entry_ok e" "en_namespace e = sp_namespace p" "en_title e = sp_title p" "str_includes (en_content e) (sp_content p)"
    "jget v ''id'' = JStr (en_id e)" "jget v ''ref'' = storeRef (en_id e)"
    "jget v ''namespace'' = JStr (en_namespace e)" "jget v ''trustTier'' = jtier (en_trustTier e)"
    "jget v ''upserted'' = JBool False \<Longrightarrow> en_content e = sp_content p"
    "resolveNamespaceQuota (mc_quota ctx) (sp_namespace p) = None \<Longrightarrow> jget v ''evictedIds'' = JArr []" "e \<in> set (loadStoreEntries None store')"
    "kept (\<lambda>x. en_namespace x \<noteq> sp_namespace p) (loadStoreEntries None store) (loadStoreEntries None store')"
    "\<And>q. resolveNamespaceQuota (mc_quota ctx) (sp_namespace p) = Some q \<Longrightarrow>
       within_quota q (en_id e) (filter (\<lambda>x. en_namespace x = sp_namespace p) (loadStoreEntries None store'))"
proof -
  define ns where "ns = sp_namespace p"
  define scoped where "scoped = filter (\<lambda>e. en_namespace e = ns) (loadStoreEntries None store)"
  define existing where "existing = pickStoreEntryForUpsert scoped (sp_title p) (sp_content p)"
  define conflicts where "conflicts = findPotentialConflicts scoped (sp_title p) (sp_content p)"
  define ids where "ids = dedup (map ch_id conflicts)"
  define replace where "replace \<longleftrightarrow> sp_onConflict p = ''replace'' \<and> ids \<noteq> []"
  define reason where "reason = ''Replaced by newer conflicting memory for '' @ quote_text (sp_title p)"
  define ms where "ms = map (\<lambda>i. \<lparr>dm_id = i, dm_deletedAt = me_nowIso env, dm_reason = Some reason\<rparr>) ids"
  define store1 where "store1 = (if replace then appendStoreDeleteMarkers ms store else store)"
  define e where "e = savedEntry env p replace existing"
  obtain ev q store2 where en: "enforceNamespaceQuota env (mc_quota ctx) (en_namespace e) (en_id e) (appendStoreEntry e store1) = ((ev, q), store2)"
    by (metis prod.collapse)
  have ref: "refuseSave p = None" using assms(1) save_refused [of ctx params _ env fs store] unfolding p_def by (cases "refuseSave (saveParams ctx params)") auto
  then have res: "store' = store2" "jget v ''id'' = JStr (en_id e)" "jget v ''ref'' = storeRef (en_id e)" "jget v ''namespace'' = JStr (en_namespace e)"
    "jget v ''trustTier'' = jtier (en_trustTier e)" "jget v ''upserted'' = JBool (existing \<noteq> None \<and> \<not> replace)" "jget v ''evictedIds'' = jtags ev"
    using assms(1) unfolding memorySave_def Let_def p_def [symmetric] option.case ns_def [symmetric] scoped_def [symmetric] existing_def [symmetric]
      conflicts_def [symmetric] ids_def [symmetric] replace_def [symmetric] reason_def [symmetric] ms_def [symmetric] store1_def [symmetric] e_def [symmetric] en by auto
  have st: "clean_name (me_uuid env)" "clean_name (me_nowIso env)" "me_uuid env \<notin> en_id ` set (loadStoreEntries None store)" "shortName 1 64 (mc_namespace ctx)"
    using assms(2) by (auto simp: stamps_ok_def)
  have pok: "saved_params_ok p" unfolding p_def by (rule saveParams_ok) (use ref st(4) p_def in auto)
  have old: "x \<in> set (loadStoreEntries None store)" "en_namespace x = ns" if "existing = Some x" for x
  proof -
    have "x \<in> set scoped" by (rule pickUpsert_mem [OF that [unfolded existing_def]])
    then show "x \<in> set (loadStoreEntries None store)" "en_namespace x = ns" by (simp_all add: scoped_def)
  qed
  have "\<forall>x. existing = Some x \<longrightarrow> entry_ok x \<and> en_namespace x = sp_namespace p" using old load_ok ns_def by blast
  note saved = savedEntry_ok [OF pok st(1,2) this, where replace = replace, folded e_def]
  note eok = saved(1) and ens = saved(2) [folded ns_def] and et = saved(3) and ec = saved(4) and ei = saved(5) and ex = saved(6)
  have sub: "set (loadStoreEntries None store1) \<subseteq> set (loadStoreEntries None store)"
    and k1: "kept (\<lambda>x. en_namespace x \<noteq> ns) (loadStoreEntries None store) (loadStoreEntries None store1)"
  proof -
    have mi: "dm_id ` set ms = set ids" by (simp add: ms_def image_image)
    have i: "\<exists>y \<in> set (loadStoreEntries None store). en_id y = i \<and> en_namespace y = ns" if "i \<in> set ids" for i
      using that conflict_ids [of _ scoped] by (fastforce simp: ids_def conflicts_def scoped_def)
    have mok: "list_all marker_ok ms"
      using i load_ok [of _ None store] st(2) by (fastforce simp: ms_def list_all_iff marker_ok_def entry_ok_def)
    show "set (loadStoreEntries None store1) \<subseteq> set (loadStoreEntries None store)"
      using mem.entries_remove [OF mok, of store] by (auto simp: store1_def)
    have "kept (\<lambda>x. en_namespace x \<noteq> ns) (loadStoreEntries None store) (loadStoreEntries None (appendStoreDeleteMarkers ms store))"
    proof (rule mem.kept_remove [OF mok])
      fix x
      assume x: "x \<in> set (loadStoreEntries None store)" "en_id x \<in> dm_id ` set ms"
      then obtain y where "y \<in> set (loadStoreEntries None store)" "en_id y = en_id x" "en_namespace y = ns" using i unfolding mi by blast
      then show "\<not> en_namespace x \<noteq> ns" using mem.entries_inj [of x store y] x(1) by auto
    qed
    then show "kept (\<lambda>x. en_namespace x \<noteq> ns) (loadStoreEntries None store) (loadStoreEntries None store1)"
      by (simp add: store1_def)
  qed
  have k2: "kept (\<lambda>x. en_namespace x \<noteq> ns) (loadStoreEntries None store1) (loadStoreEntries None (appendStoreEntry e store1))"
  proof (rule mem.kept_put [OF eok])
    fix x
    assume "x \<in> set (loadStoreEntries None store1)" "en_id x = en_id e"
    then show "\<not> en_namespace x \<noteq> ns" using sub ei st(3) old mem.entries_inj [of x store] by (metis image_eqI subsetD)
  qed (simp add: ens)
  note enf = enforce_quota [OF en st(2)]
  have "kept (\<lambda>x. en_namespace x \<noteq> ns) (loadStoreEntries None (appendStoreEntry e store1)) (loadStoreEntries None store')"
    and "e \<in> set (loadStoreEntries None store')"
    using enf mem.entries_put [OF eok, of store1] by (auto simp: kept_def res(1) ens)
  moreover have "jget v ''evictedIds'' = JArr []" if "resolveNamespaceQuota (mc_quota ctx) (sp_namespace p) = None"
    using en that by (simp add: res(7) enforceNamespaceQuota_def ens ns_def jtags_def)
  ultimately show ?thesis using that [OF eok _ et ec res(2-5) ex] res(6) kept_trans [OF kept_trans [OF k1 k2]] enf ens
    by (auto simp: ns_def [symmetric] res(1))
qed

end
