(* ===== verification/Memory_Laws.thy ===== *)
theory Memory_Laws
  imports Memory_Facts
begin

text \<open>
  What callers of the memory tools rely on: scopes are respected, what was saved is read back, quotas hold, and compaction cannot be
  observed. The store is first described as the list of its entries, since the results of the tools depend on that list alone.
\<close>

section \<open>The store as a list\<close>

text \<open>What a line does to the list of entries, oldest write first.\<close>

definition listRecord :: "store_entry list \<Rightarrow> mem_line \<Rightarrow> store_entry list" where
  "listRecord es l = (case readLine l of
     Entry e \<Rightarrow> filter (\<lambda>x. en_id x \<noteq> en_id e) es @ [e]
   | Removal i \<Rightarrow> filter (\<lambda>x. en_id x \<noteq> i) es
   | Ignored \<Rightarrow> es)"

lemma scan_filter:
  "scanLines None ls found deleted = found @ filter (\<lambda>e. en_id e \<notin> en_id ` set found \<and> en_id e \<notin> set deleted) (scanLines None ls [] [])"
proof (induction ls arbitrary: found deleted)
  case (Cons l ls)
  show ?case
  proof (cases "readLine l")
    case (Entry e)
    then show ?thesis
      by (subst (1 2) scanLines.simps) (auto simp: Cons [of found] Cons [of "found @ [e]"] Cons [of "[e]"] intro!: filter_cong)
  next
    case (Removal i)
    then show ?thesis by (simp, subst (1 2) Cons) (auto intro!: filter_cong)
  next
    case Ignored
    then show ?thesis using Cons [of found deleted] by simp
  qed
qed simp

lemma load_snoc: "loadStoreEntries None (Some (ls @ [l])) = listRecord (loadStoreEntries None (Some ls)) l"
proof (cases "readLine l")
  case (Entry e)
  have "scanLines None (rev ls) [e] [] = e # filter (\<lambda>x. en_id x \<noteq> en_id e) (scanLines None (rev ls) [] [])"
    by (subst scan_filter) simp
  then show ?thesis using Entry by (simp add: loadStoreEntries_def listRecord_def rev_filter)
next
  case (Removal i)
  have "scanLines None (rev ls) [] [i] = filter (\<lambda>x. en_id x \<noteq> i) (scanLines None (rev ls) [] [])"
    by (subst scan_filter) simp
  then show ?thesis using Removal by (simp add: loadStoreEntries_def listRecord_def rev_filter)
qed (simp add: loadStoreEntries_def listRecord_def)

lemma load_appendLines: "loadStoreEntries None (appendLines ls store) = foldl listRecord (loadStoreEntries None store) ls"
proof -
  have "loadStoreEntries None (Some (old @ ls)) = foldl listRecord (loadStoreEntries None (Some old)) ls" for old
    by (induction ls rule: rev_induct) (simp_all add: load_snoc flip: append_assoc)
  from this [of "case store of Some old \<Rightarrow> old | None \<Rightarrow> []"] show ?thesis
    by (cases store) (simp_all add: appendLines_def, simp add: loadStoreEntries_def)
qed

lemma scan_bounded: "length found < k \<Longrightarrow> scanLines (Some k) ls found deleted = take k (scanLines None ls found deleted)"
proof (induction ls arbitrary: found deleted)
  case (Cons l ls)
  show ?case
  proof (cases "readLine l")
    case (Entry e)
    show ?thesis
    proof (cases "en_id e \<in> set deleted \<or> en_id e \<in> en_id ` set found")
      case new: False
      have "take k (scanLines None ls (found @ [e]) deleted) = found @ [e]" if "k \<le> Suc (length found)"
      proof -
        have "k = length (found @ [e])" using that Cons.prems by simp
        then show ?thesis by (subst scan_filter) simp
      qed
      then show ?thesis using Entry new Cons by auto
    qed (use Entry Cons in simp)
  qed (use Cons in simp_all)
qed simp

text \<open>The search reads the newest entries only, which are the last of the list.\<close>

lemma load_bounded: "0 < k \<Longrightarrow> loadStoreEntries (Some k) store = rev (take k (rev (loadStoreEntries None store)))"
  by (simp add: loadStoreEntries_def scan_bounded split: option.split)

lemma scan_entries:
  assumes "list_all entry_ok es" "distinct (map en_id (found @ es))"
  shows "scanLines None (map (\<lambda>e. jsonLine (entryJson e)) es) found [] = found @ es"
  using assms by (induction es arbitrary: found) (auto simp: readLine_entry)

lemma load_compacted: "loadStoreEntries None (Some (compactedFile store)) = loadStoreEntries None store"
proof -
  have "list_all entry_ok (rev (loadStoreEntries None store))" using load_ok [of _ None store] by (simp add: list_all_iff)
  moreover have "distinct (map en_id (rev (loadStoreEntries None store)))" using load_distinct [of None store] by (simp add: rev_map [symmetric])
  ultimately show ?thesis using scan_entries [of _ "[]"] by (simp add: loadStoreEntries_def [of None "Some _"] compactedFile_def rev_map)
qed

lemma load_compact: "memoryCompact ctx env fs params store = (r, store') \<Longrightarrow> loadStoreEntries None store' = loadStoreEntries None store"
  using load_compacted [of store] by (auto simp: memoryCompact_def Let_def split: option.splits if_split_asm)

section \<open>Stores with the same entries\<close>

definition same_entries :: "mem_file option \<Rightarrow> mem_file option \<Rightarrow> bool" where
  "same_entries s t \<longleftrightarrow> loadStoreEntries None s = loadStoreEntries None t"

text \<open>Two runs that give the same result and stores with the same entries.\<close>

definition agree :: "'a \<times> mem_file option \<Rightarrow> 'a \<times> mem_file option \<Rightarrow> bool" where
  "agree x y \<longleftrightarrow> fst x = fst y \<and> same_entries (snd x) (snd y)"

lemma agree_pair [simp]: "agree (a, s) (b, t) \<longleftrightarrow> a = b \<and> same_entries s t"
  by (simp add: agree_def)

lemma same_append: "same_entries s t \<Longrightarrow> same_entries (appendLines ls s) (appendLines ls t)"
  by (simp add: same_entries_def load_appendLines)

lemma same_appendEntry [simp]: "same_entries s t \<Longrightarrow> same_entries (appendStoreEntry e s) (appendStoreEntry e t)"
  by (simp add: appendStoreEntry_def same_append)

lemma same_appendMarkers [simp]: "same_entries s t \<Longrightarrow> same_entries (appendStoreDeleteMarkers ms s) (appendStoreDeleteMarkers ms t)"
  by (simp add: appendStoreDeleteMarkers_def same_append)

lemma same_load: "same_entries s t \<Longrightarrow> loadStoreEntries None s = loadStoreEntries None t"
  by (simp add: same_entries_def)

lemma same_find: "same_entries s t \<Longrightarrow> findStoreEntryById s i scope = findStoreEntryById t i scope"
  using load_contents [of s] load_contents [of t] by (simp add: findById_contents same_entries_def)

lemma same_title: "same_entries s t \<Longrightarrow> findStoreEntryByTitle env s title scope = findStoreEntryByTitle env t title scope"
  by (simp add: findStoreEntryByTitle_def Let_def same_load [of s t])

lemma same_scan: "same_entries s t \<Longrightarrow> loadStoreEntries (Some MAX_STORE_SCAN) s = loadStoreEntries (Some MAX_STORE_SCAN) t"
  by (simp add: load_bounded MAX_STORE_SCAN_def same_load [of s t])

lemma same_quota: "same_entries s t \<Longrightarrow> agree (enforceNamespaceQuota env cfg ns i s) (enforceNamespaceQuota env cfg ns i t)"
  by (simp add: enforceNamespaceQuota_def Let_def same_load [of s t] split: option.split)

lemma agree_case: "agree x y \<Longrightarrow> agree ((\<lambda>((i, q), s). (g i q, s)) x) ((\<lambda>((i, q), s). (g i q, s)) y)"
  by (cases x; cases y) auto

lemma same_save:
  assumes "same_entries s t"
  shows "agree (memorySave ctx env fs params s) (memorySave ctx env fs params t)"
proof -
  show ?thesis
  proof (cases "refuseSave (saveParams ctx params)")
    case None
    have m: "same_entries (if b then appendStoreDeleteMarkers ms s else s) (if b then appendStoreDeleteMarkers ms t else t)" for b ms
      using assms by simp
    show ?thesis unfolding memorySave_def Let_def None option.case same_load [OF assms]
      by (rule agree_case, rule same_quota, rule same_appendEntry, rule m)
  qed (use assms in \<open>simp add: memorySave_def Let_def\<close>)
qed

lemma same_get: "same_entries s t \<Longrightarrow> agree (memoryGet ctx env fs params s) (memoryGet ctx env fs params t)"
  by (simp add: memoryGet_def Let_def same_find [of s t] split: option.split)

lemma same_delete: "same_entries s t \<Longrightarrow> agree (memoryDelete ctx env fs params s) (memoryDelete ctx env fs params t)"
  by (simp add: memoryDelete_def deleteTarget_def Let_def same_find [of s t] same_title [of s t] split: sum.split option.split)

lemma same_prune: "same_entries s t \<Longrightarrow> agree (memoryPrune ctx env fs params s) (memoryPrune ctx env fs params t)"
  by (simp add: memoryPrune_def pruneScope_def Let_def same_load [of s t])

lemma same_feedback: "same_entries s t \<Longrightarrow> agree (memoryFeedback ctx env fs params s) (memoryFeedback ctx env fs params t)"
  by (simp add: memoryFeedback_def Let_def same_find [of s t] split: option.split)

lemma same_search: "same_entries s t \<Longrightarrow> agree (memorySearch ctx env fs params s) (memorySearch ctx env fs params t)"
  by (simp add: memorySearch_def Let_def same_scan [of s t])

lemma same_list: "same_entries s t \<Longrightarrow> agree (memoryList ctx env fs params s) (memoryList ctx env fs params t)"
  by (simp add: memoryList_def Let_def same_load [of s t])

lemma same_execute:
  "same_entries s t \<Longrightarrow> tool \<notin> {MemStats, MemCompact} \<Longrightarrow> agree (memoryExecute tool ctx env fs params s) (memoryExecute tool ctx env fs params t)"
  by (cases tool) (simp_all add: same_save same_get same_delete same_prune same_feedback same_search same_list)

text \<open>A sequence of calls, each with its time and its new id, and their results.\<close>

fun memoryResults :: "mem_ctx \<Rightarrow> node \<Rightarrow> (memory_tool \<times> mem_env \<times> jsv) list \<Rightarrow> mem_file option \<Rightarrow> (string + jsv) list" where
  "memoryResults ctx fs [] store = []"
| "memoryResults ctx fs ((t, env, params) # calls) store =
     (case memoryExecute t ctx env fs params store of (r, store') \<Rightarrow> r # memoryResults ctx fs calls store')"

lemma same_results:
  "same_entries s t \<Longrightarrow> list_all (\<lambda>(tool, _). tool \<notin> {MemStats, MemCompact}) calls \<Longrightarrow> memoryResults ctx fs calls s = memoryResults ctx fs calls t"
proof (induction calls arbitrary: s t)
  case (Cons c calls)
  obtain tool env params where c: "c = (tool, env, params)" by (cases c) auto
  obtain r s' where r: "memoryExecute tool ctx env fs params s = (r, s')" by (metis prod.collapse)
  obtain q t' where q: "memoryExecute tool ctx env fs params t = (q, t')" by (metis prod.collapse)
  have "agree (r, s') (q, t')" using same_execute [of s t tool ctx env fs params] Cons.prems unfolding r q c by simp
  then show ?case using Cons.IH [of s' t'] Cons.prems by (simp add: c r q)
qed simp

section \<open>An example\<close>

lemma save_accepted: "refuseSave (saveParams ctx params) = None \<Longrightarrow> \<exists>v. fst (memorySave ctx env fs params store) = Inr v"
  unfolding memorySave_def Let_def by (simp only: option.case case_prod_unfold fst_conv sum.inject) blast


definition demo_memory :: mem_ctx where
  "demo_memory = \<lparr>mc_cwd = ''/w'', mc_workspaceDir = ''/w'', mc_storePath = ''/s/memory.jsonl'', mc_namespace = ''global'', mc_minTrustTier = Unverified,
     mc_quota = \<lparr>qc_defaults = \<lparr>nq_maxEntries = 1, nq_maxBytes = 8000, nq_policy = Oldest\<rparr>, qc_perNamespace = []\<rparr>\<rparr>"

definition demo_day :: mem_env where
  "demo_day = \<lparr>me_now = 0, me_nowIso = ''2025-01-01T00:00:00.000Z'', me_parseDate = (\<lambda>_. None), me_uuid = ''u1'', me_sortPaths = (\<lambda>ps. ps),
     me_ioError = (\<lambda>_. ''EISDIR'')\<rparr>"

definition demo_save :: jsv where
  "demo_save = JObj [(''title'', JStr ''Editor''), (''content'', JStr ''Use tabs'')]"

definition demo_old :: store_entry where
  "demo_old = \<lparr>en_id = ''u0'', en_title = ''Shell'', en_content = ''Use zsh'', en_tags = [], en_createdAt = ''2024'', en_updatedAt = ''2024'',
     en_lastAccessedAt = ''2024'', en_reinforceCount = 0, en_importance = 3, en_confidence = 4 / 5, en_source = ''user'', en_namespace = ''global'',
     en_trustTier = Verified\<rparr>"

definition demo_other :: store_entry where
  "demo_other = demo_old\<lparr>en_id := ''u2'', en_namespace := ''work''\<rparr>"

definition demo_file :: "mem_file option" where
  "demo_file = Some [jsonLine (entryJson demo_old), OtherLine ''x'', jsonLine (entryJson demo_other), jsonLine (entryJson demo_old)]"

definition demo_saved :: "(string + jsv) \<times> mem_file option" where
  "demo_saved = memorySave demo_memory demo_day Other demo_save demo_file"

definition demo_compaction :: jsv where
  "demo_compaction = JObj [(''dryRun'', JBool False)]"

definition demo_calls :: "(memory_tool \<times> mem_env \<times> jsv) list" where
  "demo_calls = [(MemGet, demo_day, JObj [(''id'', JStr ''u0'')]), (MemDelete, demo_day, JObj [(''title'', JStr ''shell'')]),
     (MemGet, demo_day, JObj [(''id'', JStr ''u0'')])]"

lemma demo_stamps: "stamps_ok demo_memory demo_day demo_file"
  by code_simp

lemma demo_saved_ok: obtains v where "memorySave demo_memory demo_day Other demo_save demo_file = (Inr v, snd demo_saved)"
proof -
  have "refuseSave (saveParams demo_memory demo_save) = None" by code_simp
  then show ?thesis using save_accepted [of demo_memory demo_save demo_day Other demo_file] that unfolding demo_saved_def by (metis prod.collapse)
qed

section \<open>Properties\<close>

lemma save_scope: "sp_namespace (saveParams ctx params) = sc_namespace (scopeOf ctx params)"
  by (simp add: saveParams_def scopeOf_def resolveScope_def Let_def)

lemma delete_target_scope: "deleteTarget ctx env params store = Inr e \<Longrightarrow> e \<in> set (loadStoreEntries None store) \<and> entryMatchesScope e (scopeOf ctx params)"
  using find_in_scope(1,2) findByTitle_in_scope
  by (fastforce simp: deleteTarget_def Let_def split: if_split_asm option.splits)

lemma save_kept:
  assumes "memorySave ctx env fs params store = (r, store')" "stamps_ok ctx env store"
  shows "kept (\<lambda>e. en_namespace e \<noteq> sc_namespace (scopeOf ctx params)) (loadStoreEntries None store) (loadStoreEntries None store')"
proof (cases r)
  case (Inl a)
  then have "store' = store"
    using assms(1) save_accepted [of ctx params env fs store] save_refused [of ctx params _ env fs store]
    by (cases "refuseSave (saveParams ctx params)") auto
  then show ?thesis by simp
next
  case (Inr v)
  show ?thesis by (rule save_steps [OF assms(1) [unfolded Inr] assms(2)]) (simp add: save_scope)
qed

lemma delete_kept:
  assumes "memoryDelete ctx env fs params store = (r, store')" "clean_name (me_nowIso env)"
  shows "kept (\<lambda>e. \<not> entryMatchesScope e (scopeOf ctx params)) (loadStoreEntries None store) (loadStoreEntries None store')"
proof (cases "deleteTarget ctx env params store")
  case (Inr e)
  define reason where "reason = (if text_param params ''reason'' \<noteq> [] then Some (text_param params ''reason'') else None)"
  have s: "store' = appendStoreDeleteMarkers (map (\<lambda>e. \<lparr>dm_id = en_id e, dm_deletedAt = me_nowIso env, dm_reason = reason\<rparr>) [e]) store"
    using assms(1) by (simp add: memoryDelete_def Inr Let_def reason_def)
  show ?thesis unfolding s
    by (rule kept_delete) (use assms(2) delete_target_scope [OF Inr] load_ok [of e None store] in \<open>auto\<close>)
qed (use assms(1) in \<open>simp add: memoryDelete_def\<close>)

lemma prune_kept:
  assumes "memoryPrune ctx env fs params store = (r, store')" "clean_name (me_nowIso env)"
  shows "kept (\<lambda>e. \<not> entryMatchesScope e (scopeOf ctx params)) (loadStoreEntries None store) (loadStoreEntries None store')"
proof -
  define cs where "cs = pruneCandidates env (pruneMax params) (pruneDays params) (pruneScope ctx env params store)"
  define reason where "reason = or_text (text_param params ''reason'') ''Pruned by retention policy''"
  have c: "e \<in> set (loadStoreEntries None store)" "entryMatchesScope e (scopeOf ctx params)" if "e \<in> set cs" for e
    using that pruneCandidates_subset pruneScope_set unfolding cs_def by blast+
  have "store' = store \<or> store' = appendStoreDeleteMarkers (map (\<lambda>e. \<lparr>dm_id = en_id e, dm_deletedAt = me_nowIso env, dm_reason = Some reason\<rparr>) cs) store"
    using assms(1) unfolding memoryPrune_def Let_def cs_def [symmetric] reason_def [symmetric] by (auto split: if_split_asm)
  moreover have "list_all entry_ok cs" using c(1) load_ok [of _ None store] by (auto simp: list_all_iff)
  moreover have "set cs \<subseteq> set (loadStoreEntries None store)" using c(1) by blast
  ultimately show ?thesis using kept_delete [OF _ assms(2)] c(2) by (elim disjE) simp_all
qed

lemma get_kept:
  assumes "memoryGet ctx env fs params store = (r, store')" "clean_name (me_nowIso env)"
  shows "kept (\<lambda>e. \<not> entryMatchesScope e (scopeOf ctx params)) (loadStoreEntries None store) (loadStoreEntries None store')"
proof -
  have "store' = store \<or> (\<exists>i e. findStoreEntryById store i (scopeOf ctx params) = Some e \<and> store' = appendStoreEntry (reinforced (me_nowIso env) e) store)"
    using assms(1) unfolding memoryGet_def Let_def by (auto split: if_split_asm option.splits)
  then show ?thesis using kept_update [OF _ reinforced_ok [OF find_in_scope(4) assms(2)]] by (fastforce simp: reinforced_def)
qed

lemma feedback_kept:
  assumes "memoryFeedback ctx env fs params store = (r, store')" "clean_name (me_nowIso env)"
  shows "kept (\<lambda>e. \<not> entryMatchesScope e (scopeOf ctx params)) (loadStoreEntries None store) (loadStoreEntries None store')"
proof -
  define w where "w = clampInt (jget params ''weight'') 1 3 1"
  define u where "u \<longleftrightarrow> to_lower (text_param params ''signal'') = ''useful''"
  have "store' = store \<or> (\<exists>i e. findStoreEntryById store i (scopeOf ctx params) = Some e \<and> store' = appendStoreEntry (fedBack (me_nowIso env) u w e) store)"
    using assms(1) unfolding memoryFeedback_def Let_def w_def [symmetric] u_def [symmetric] by (auto split: if_split_asm option.splits)
  moreover have "0 \<le> w" using clampInt_bounds [of 1 3 1 "jget params ''weight''"] by (simp add: w_def)
  ultimately show ?thesis using kept_update [OF _ fedBack_ok [OF find_in_scope(4) assms(2)]] by (fastforce simp: fedBack_def)
qed

text \<open>
  C37. A call of a memory tool leaves every memory outside its scope alone: a save touches only entries of the namespace it
  saves to, and no other tool adds, changes or removes an entry of another namespace or below the trust tier of the call.
\<close>

theorem memory_scopes_respected:
  assumes "memoryExecute tool ctx env fs params store = (r, store')" "stamps_ok ctx env store"
  shows "kept (\<lambda>e. if tool = MemSave then en_namespace e \<noteq> sc_namespace (scopeOf ctx params) else \<not> entryMatchesScope e (scopeOf ctx params))
     (loadStoreEntries None store) (loadStoreEntries None store')"
proof (cases "store' = store")
  case False
  have now: "clean_name (me_nowIso env)" using assms(2) by (simp add: stamps_ok_def)
  consider "tool = MemSave" | "tool = MemGet" | "tool = MemDelete" | "tool = MemPrune" | "tool = MemFeedback" | "tool = MemCompact"
    using assms(1) False by (cases tool) (auto simp: memorySearch_def memoryList_def memoryStats_def Let_def split: if_split_asm)
  then show ?thesis
  proof cases
    case 1
    then show ?thesis using save_kept [OF _ assms(2)] assms(1) by simp
  next
    case 2
    then show ?thesis using get_kept [OF _ now] assms(1) by simp
  next
    case 3
    then show ?thesis using delete_kept [OF _ now] assms(1) by simp
  next
    case 4
    then show ?thesis using prune_kept [OF _ now] assms(1) by simp
  next
    case 5
    then show ?thesis using feedback_kept [OF _ now] assms(1) by simp
  next
    case 6
    then show ?thesis using load_compact assms(1) by simp
  qed
qed simp

theorem memory_scopes_respected_witness:
  "demo_other \<in> set (loadStoreEntries None demo_file) \<and> demo_other \<in> set (loadStoreEntries None (snd demo_saved))"
proof -
  have "memoryExecute MemSave demo_memory demo_day Other demo_save demo_file = (fst demo_saved, snd demo_saved)" by (simp add: demo_saved_def)
  from memory_scopes_respected [OF this demo_stamps]
  have "en_namespace demo_other \<noteq> sc_namespace (scopeOf demo_memory demo_save) \<Longrightarrow>
    demo_other \<in> set (loadStoreEntries None demo_file) \<longleftrightarrow> demo_other \<in> set (loadStoreEntries None (snd demo_saved))" by (simp add: kept_def)
  moreover have "en_namespace demo_other \<noteq> sc_namespace (scopeOf demo_memory demo_save)" by code_simp
  moreover have "demo_other \<in> set (loadStoreEntries None demo_file)" by code_simp
  ultimately show ?thesis by simp
qed

text \<open>
  C38. Whoever compacts the store changes nothing for later calls: after a compaction every sequence of searches, reads,
  saves, deletions, listings, prunings and feedback gives the results it would have given without it, and the file has one line for
  each entry.
\<close>

theorem compaction_unobservable:
  assumes "memoryCompact ctx env fs params store = (r, store')" "list_all (\<lambda>(tool, _). tool \<notin> {MemStats, MemCompact}) calls"
  shows "memoryResults ctx' fs' calls store' = memoryResults ctx' fs' calls store
    \<and> (jget params ''dryRun'' = JBool False \<and> store \<noteq> None \<longrightarrow> length (the store') = length (loadStoreEntries None store))"
proof -
  have "same_entries store' store" using load_compact [OF assms(1)] by (simp add: same_entries_def)
  then show ?thesis using same_results [OF _ assms(2)] assms(1)
    by (auto simp: memoryCompact_def compactedFile_def Let_def split: option.splits)
qed

theorem compaction_unobservable_witness:
  "case memoryCompact demo_memory demo_day Other demo_compaction demo_file of (_, store') \<Rightarrow>
     memoryResults demo_memory Other demo_calls store' = memoryResults demo_memory Other demo_calls demo_file \<and> length (the store') = 2"
proof -
  obtain r store' where m: "memoryCompact demo_memory demo_day Other demo_compaction demo_file = (r, store')" by (metis prod.collapse)
  have "list_all (\<lambda>(tool, _). tool \<notin> {MemStats, MemCompact}) demo_calls" by code_simp
  moreover have "jget demo_compaction ''dryRun'' = JBool False" by (simp add: demo_compaction_def)
  moreover have "demo_file \<noteq> None" by (simp add: demo_file_def)
  moreover have "length (loadStoreEntries None demo_file) = 2" by code_simp
  ultimately show ?thesis using compaction_unobservable [OF m, of demo_calls demo_memory Other] by (simp add: m)
qed

text \<open>
  C40. After a save the namespace is within its quota, in entries and in bytes, or the saved memory is its only one. The quota
  is the one configured for the namespace, else the default one. The namespaces \<open>constructor\<close> and \<open>__proto__\<close>, when no quota is
  configured for them, are read as inherited members without limits: nothing is evicted from them.
\<close>

theorem memory_quota_holds:
  assumes "memorySave ctx env fs params store = (Inr v, store')" "stamps_ok ctx env store"
    "ns = sc_namespace (scopeOf ctx params)" "own = map_of (qc_perNamespace (mc_quota ctx)) ns"
    "quota = (case own of Some q \<Rightarrow> q | None \<Rightarrow> qc_defaults (mc_quota ctx))"
    "es = filter (\<lambda>e. en_namespace e = ns) (loadStoreEntries None store')"
  shows "if inherited_member ns \<and> own = None then jget v ''evictedIds'' = JArr []
    else int (length es) \<le> nq_maxEntries quota \<and> total_bytes es \<le> nq_maxBytes quota
      \<or> (\<exists>e. es = [e] \<and> jget v ''id'' = JStr (en_id e))"
proof (rule save_steps [OF assms(1,2)], unfold save_scope assms(3) [symmetric])
  fix e
  assume e: "e \<in> set (loadStoreEntries None store')" "en_namespace e = ns" "jget v ''id'' = JStr (en_id e)"
    and n: "resolveNamespaceQuota (mc_quota ctx) ns = None \<Longrightarrow> jget v ''evictedIds'' = JArr []"
    and q: "\<And>q. resolveNamespaceQuota (mc_quota ctx) ns = Some q \<Longrightarrow>
       within_quota q (en_id e) (filter (\<lambda>x. en_namespace x = ns) (loadStoreEntries None store'))"
  have r: "resolveNamespaceQuota (mc_quota ctx) ns = (if inherited_member ns \<and> own = None then None else Some quota)"
    by (simp add: resolveNamespaceQuota_def assms(4,5) split: option.split)
  have d: "distinct es" unfolding assms(6) by (rule mem.filter_distinct)
  have "es = [e]" if "list_all (\<lambda>x. en_id x = en_id e) es"
  proof -
    have "x = e" if "x \<in> set es" for x
      by (rule mem.entries_inj [OF _ e(1)]) (use that \<open>list_all _ es\<close> in \<open>simp_all add: list_all_iff assms(6)\<close>)
    moreover have "e \<in> set es" using e(1,2) by (simp add: assms(6))
    ultimately have "set es = {e}" by blast
    then have "length es = 1" using d distinct_card by fastforce
    then show ?thesis using \<open>set es = {e}\<close> by (cases es) auto
  qed
  then show ?thesis using q n e(3) by (auto simp: r within_quota_def assms(6) [symmetric])
qed

theorem memory_quota_holds_witness:
  "length (filter (\<lambda>e. en_namespace e = ''global'') (loadStoreEntries None (snd demo_saved))) \<le> 1"
proof -
  obtain v where v: "memorySave demo_memory demo_day Other demo_save demo_file = (Inr v, snd demo_saved)" by (rule demo_saved_ok)
  have n: "sc_namespace (scopeOf demo_memory demo_save) = ''global''" by code_simp
  have "qc_perNamespace (mc_quota demo_memory) = []" "nq_maxEntries (qc_defaults (mc_quota demo_memory)) = 1" by (simp_all add: demo_memory_def)
  moreover have "\<not> inherited_member ''global''" by (simp add: inherited_member_def)
  ultimately show ?thesis using memory_quota_holds [OF v demo_stamps refl refl refl refl] unfolding n by auto
qed

text \<open>A reference to an entry names it.\<close>

lemma ref_target:
  assumes "clean_name i"
  shows "targetIdOf (trim (''store:'' @ i)) [] = i"
proof -
  have "trim (''store:'' @ i) = ''store:'' @ i"
    using assms by (intro trim_id) (auto simp: clean_ends is_ws_def code_of_def)
  then show ?thesis using assms by (simp add: targetIdOf_def or_text_def clean_name_def starts_with_def)
qed

text \<open>
  C39. What was saved is read back. \<open>memory_get\<close> with the reference that a save returned, whatever its other parameters, finds the entry
  when it asks in the namespace of the save and for a trust tier that is not above the one saved, and throws otherwise. What it
  gives is the title and the text of the entry, clipped at the limit of the call (12000 characters when the call names none, 60000 at
  most). That text includes the saved content, and is the saved content unless the save was merged into an older entry.
\<close>

theorem saved_memory_read_back:
  assumes "memorySave ctx env fs params store = (Inr v, store')" "stamps_ok ctx env store"
    "jget q ''ref'' = jget v ''ref''" "text_param q ''id'' = []"
    "scope = scopeOf ctx' q" "limit = nat (clampInt (jget q ''maxChars'') 200 60000 12000)"
  shows "\<exists>i tier c. jget v ''ref'' = JStr (''store:'' @ i) \<and> jget v ''trustTier'' = JStr (tier_name tier)
    \<and> str_includes c (text_param params ''content'') \<and> (jget v ''upserted'' = JBool False \<longrightarrow> c = text_param params ''content'')
    \<and> (if jget v ''namespace'' = JStr (sc_namespace scope) \<and> trustTierRank (sc_minTrustTier scope) \<le> trustTierRank tier
       then \<exists>w. fst (memoryGet ctx' env' fs' q store') = Inr w \<and> jget w ''ref'' = jget v ''ref''
         \<and> jget w ''title'' = JStr (text_param params ''title'')
         \<and> jget w ''content'' = JStr (fst (clipText c limit)) \<and> jget w ''truncated'' = JBool (snd (clipText c limit))
       else memoryGet ctx' env' fs' q store' = (Inl (''Memory entry not found: '' @ i), store'))"
proof (rule save_steps [OF assms(1,2)])
  fix e
  assume e: "entry_ok e" "en_title e = sp_title (saveParams ctx params)" "str_includes (en_content e) (sp_content (saveParams ctx params))"
    "jget v ''ref'' = storeRef (en_id e)" "jget v ''namespace'' = JStr (en_namespace e)" "e \<in> set (loadStoreEntries None store')"
    "jget v ''trustTier'' = jtier (en_trustTier e)"
    and u: "jget v ''upserted'' = JBool False \<Longrightarrow> en_content e = sp_content (saveParams ctx params)"
  have i: "clean_name (en_id e)" using e(1) by (simp add: entry_ok_def)
  have found: "findStoreEntryById store' (en_id e) scope = (if entryMatchesScope e scope then Some e else None)"
    using e(6) by (simp add: findById_contents in_load_iff)
  have "targetIdOf (text_param q ''ref'') (text_param q ''id'') = en_id e"
    using ref_target [OF i] by (simp add: assms(3,4) e(4) text_param_def [of _ "''ref''"] storeRef_def str_or_empty_def)
  moreover have "en_id e \<noteq> []" using i by (simp add: clean_name_def)
  ultimately have "\<exists>m r. if entryMatchesScope e scope then fst (memoryGet ctx' env' fs' q store') = Inr (getEntryResult e m limit r)
      else memoryGet ctx' env' fs' q store' = (Inl (''Memory entry not found: '' @ en_id e), store')"
    using found by (simp add: memoryGet_def Let_def assms(5,6)) blast
  then obtain m r where g: "if entryMatchesScope e scope then fst (memoryGet ctx' env' fs' q store') = Inr (getEntryResult e m limit r)
      else memoryGet ctx' env' fs' q store' = (Inl (''Memory entry not found: '' @ en_id e), store')"
    by blast
  have p: "sp_title (saveParams ctx params) = text_param params ''title''" "sp_content (saveParams ctx params) = text_param params ''content''"
    by (simp_all add: saveParams_def Let_def)
  have "entryMatchesScope e scope \<longleftrightarrow> jget v ''namespace'' = JStr (sc_namespace scope) \<and> trustTierRank (sc_minTrustTier scope) \<le> trustTierRank (en_trustTier e)"
    by (simp add: entryMatchesScope_def e(5))
  moreover have "jget (getEntryResult e m limit r) ''ref'' = storeRef (en_id e)" "jget (getEntryResult e m limit r) ''title'' = JStr (en_title e)"
    "jget (getEntryResult e m limit r) ''content'' = JStr (fst (clipText (en_content e) limit))"
    "jget (getEntryResult e m limit r) ''truncated'' = JBool (snd (clipText (en_content e) limit))"
    by (simp_all add: getEntryResult_def split: prod.split)
  ultimately show ?thesis using e(2,3,4,7) u p g
    by - (rule exI [of _ "en_id e"], rule exI [of _ "en_trustTier e"], rule exI [of _ "en_content e"], auto simp: storeRef_def jtier_def)
qed

theorem saved_memory_read_back_witness:
  "\<exists>v w. fst demo_saved = Inr v \<and> fst (memoryGet demo_memory demo_day Other (JObj [(''ref'', jget v ''ref'')]) (snd demo_saved)) = Inr w
    \<and> jget w ''title'' = JStr ''Editor'' \<and> jget w ''content'' = JStr ''Use tabs''"
proof -
  obtain v where v: "memorySave demo_memory demo_day Other demo_save demo_file = (Inr v, snd demo_saved)" by (rule demo_saved_ok)
  have f: "fst demo_saved = Inr v" using v unfolding demo_saved_def by (metis fst_conv)
  have "case fst demo_saved of Inr v \<Rightarrow> jget v ''namespace'' = JStr ''global'' \<and> jget v ''upserted'' = JBool False | Inl _ \<Rightarrow> False" by code_simp
  then have n: "jget v ''namespace'' = JStr ''global''" "jget v ''upserted'' = JBool False" by (simp_all add: f)
  have t: "text_param demo_save ''title'' = ''Editor''" "text_param demo_save ''content'' = ''Use tabs''" by code_simp+
  define q where "q = JObj [(''ref'', jget v ''ref'')]"
  have e: "normText JUndef = []" "\<not> shortName 1 64 []" "List.find (\<lambda>t. tier_name t = []) TRUST_TIERS = None" by code_simp+
  have q: "jget q ''ref'' = jget v ''ref''" "text_param q ''id'' = []" "jget q ''maxChars'' = JUndef" "scopeOf demo_memory q = \<lparr>sc_namespace = ''global'', sc_minTrustTier = Unverified\<rparr>"
    using e by (simp_all add: q_def text_param_def scopeOf_def resolveScope_def demo_memory_def normalizeNamespace_def normalizeTrustTier_def str_or_empty_def trim_def)
  have l: "nat (clampInt JUndef 200 60000 12000) = 12000" "clipText ''Use tabs'' 12000 = (''Use tabs'', False)" by code_simp+
  have "\<exists>w. fst (memoryGet demo_memory demo_day Other q (snd demo_saved)) = Inr w \<and> jget w ''title'' = JStr ''Editor'' \<and> jget w ''content'' = JStr ''Use tabs''"
    using saved_memory_read_back [OF v demo_stamps q(1,2) refl refl, of demo_memory demo_day Other] n t unfolding q(3,4) l by (auto simp: l)
  then show ?thesis using f unfolding q_def by blast
qed

end
