(* ===== verification/Spec2Isabelle.thy ===== *)
theory Spec2Isabelle
  imports Session_Store Process_Tool Pairing Setup_Flow Fs_Tools Config_State Checkout_Workflow Telegram_Relay Telegram_Bridge Chat_Service Coding_Tools Agent_Loop Memory_Laws
begin

text \<open>
  A verification development for t560, a personal AI assistant in TypeScript.

  \<^bold>\<open>The program.\<close> A message arrives over a channel (Telegram, terminal, web). The chat service sends it,
  with the saved session transcript and a list of tools, to a model provider and runs the tool
  calls the model asks for, until the model answers. What the development is about is the
  state and the guards around that loop: the transcript that is kept and repaired between
  turns, the tools a conversation is offered, the processes and files the tools touch, the
  people who may talk to the assistant, and the secrets it keeps.

  \<^bold>\<open>The theories\<close>, in the order of their imports (paths below the repository's \<open>src/\<close>):

  \<^item> \<open>T560_Prelude\<close>: strings as JavaScript treats them (\<open>trim\<close>, \<open>split\<close>, \<open>join\<close>, case), insertion-ordered maps, and
    the locale \<open>keyed_store\<close> with the laws of a \<open>Map\<close>, interpreted on association lists (\<open>omap\<close>).
  \<^item> \<open>Js_Value\<close>: untyped values with truthiness, coercions, property access, and what JSON keeps.
  \<^item> \<open>Tool_Policy\<close>: \<open>agents/tool-policy.ts\<close>, \<open>tool-policy-pipeline.ts\<close>, \<open>pi-tools.policy.ts\<close>, \<open>pi-tools.types.ts\<close>.
    The pipeline is the conjunction of its policies, deny wins, expansion is stable.
  \<^item> \<open>Tool_Call_Id\<close>: \<open>agents/tool-call-id.ts\<close>. Ids are renamed by one injective function, and a generated id is
    unused and has the shape providers demand; the locale \<open>id_source\<close> holds the contract of the generator.
  \<^item> \<open>Transcript_Repair\<close>: \<open>agents/session-transcript-repair.ts\<close>. After repair results directly follow their
    calls, every call has exactly one answer, all other messages are kept in order.
  \<^item> \<open>Session_Store\<close>: \<open>provider/session.ts\<close>. What is saved is loaded, capped and well formed, and the file of a
    session lies directly in the session directory whatever its id; the locale \<open>transcript_fixers\<close> is what the sanitiser relies on.
  \<^item> \<open>Session_Slug\<close>: \<open>agents/session-slug.ts\<close>. Generated names are fresh.
  \<^item> \<open>Process_Registry\<close>: \<open>agents/bash-process-registry.ts\<close>. The registry as a heap of sessions and two tables; an
    invariant of all reachable registries by rule induction over its operations.
  \<^item> \<open>Process_Tool\<close>: \<open>agents/bash-tools.process.ts\<close>. All actions of the tool; scopes are respected (with two
    exceptions that are shown), and every call returns.
  \<^item> \<open>Pairing\<close>: \<open>channels/pairing.ts\<close>. Codes, approvals and their file; approving grants exactly what was requested.
  \<^item> \<open>Credentials_Vault\<close>: \<open>security/credentials-vault.ts\<close>. Normalisation, envelope, key file and the four
    operations; \<open>Vault_Refinement\<close> shows that they implement a map from services to logins, up to the two names that a
    plain object inherits. A file that can be read but not opened is never overwritten; one that cannot be read is (a finding).
  \<^item> \<open>Setup_Flow\<close>: \<open>security/setup-flow.ts\<close>. The dialogue as a state machine over the operations of a vault; the
    locale \<open>login_store\<close> is the contract, interpreted on the credential vault.
  \<^item> \<open>Posix_Path\<close>: what the sources use of Node's \<open>path\<close>, with the meaning of the containment test.
  \<^item> \<open>Self_Protection\<close>: \<open>agents/self-protection.ts\<close>. Splitting and tokenising of shell commands, and the verdict.
  \<^item> \<open>Exec_Tool\<close>: \<open>agents/bash-tools.exec.ts\<close> and the sensitive-path tests of the vault. What reaches the shell.
  \<^item> \<open>Fs_Tools\<close>: \<open>agents/tools/fs-tools.ts\<close>. The six file tools over a tree of files and symbolic links: confinement where no
    link leads out of the workspace (the code does not look at links, which is shown), editable regions.
  \<^item> \<open>Config_State\<close>: \<open>config/state.ts\<close> and \<open>config/runtime-preflight.ts\<close>. Every section of the configuration,
    routing, senders, onboarding; the locale \<open>json_carrier\<close> covers the two ways a configuration is normalised.
  \<^item> \<open>Js_Regex\<close>: a matcher for the regular expressions the sources test texts with.
  \<^item> \<open>Checkout_Workflow\<close>: \<open>agents/checkout-workflow.ts\<close>. A purchase needs a standing confirmation of the user.
  \<^item> \<open>Telegram_Relay\<close>: \<open>agents/agent-events.ts\<close> and the progress relay of \<open>channels/telegram.ts\<close> as a step relation over
    events, timers, requests and suspended calls: bounds for every interleaving, termination, and when a relay at rest still sends.
  \<^item> \<open>Telegram_Bridge\<close>: the rest of \<open>channels/telegram.ts\<close> with \<open>gateway/heartbeat.ts\<close>: who reaches the assistant, also when
    configuration and approvals change while the bridge polls, how pairing opens a chat, and that updates are handled once.
  \<^item> \<open>Chat_Service\<close>: \<open>agent/chat-service.ts\<close> and the time limit of \<open>gateway/runtime.ts\<close>. Which provider receives what, the
    fallback to another route, typed secrets, and that a silent provider ends in an answer.
  \<^item> \<open>Tool_Result\<close>: \<open>agents/tool-result-contract.ts\<close> and the compaction of browser results in \<open>agents/pi-tool-definition-adapter.ts\<close>. The
    shape that a result gets and keeps, what is left as it is, and that a browser result is bounded.
  \<^item> \<open>Tool_Execution\<close>: the rest of \<open>agents/pi-tool-definition-adapter.ts\<close>, \<open>agents/tool-execution-events.ts\<close>, \<open>agents/tool-progress.ts\<close>
    and the time limit of \<open>provider/run.ts\<close>. A tool is a function on the world whose run has its times; every call is answered
    within the limit, and how it is reported.
  \<^item> \<open>Coding_Tools\<close>: \<open>agents/pi-tools.ts\<close> and \<open>agents/t560-tools.ts\<close>, the list of tools composed of the policies, the exec tool
    and the self-protection: a denied tool never runs, and the shell sees guarded commands only.
  \<^item> \<open>Run_Helpers\<close>: the functions of \<open>provider/run.ts\<close> that the loop consults (intents of a message, what a call changes or verifies, one-time
    codes, limits, the saved login of a page).
  \<^item> \<open>Agent_Loop\<close>: \<open>chatWithProvider\<close> of \<open>provider/run.ts\<close>, with the checkout guard, the tools and the session store. Requests are
    bounded, a purchase needs the user's word, an unverified change is not claimed, and every run is answered unless a look into the
    vault throws.
  \<^item> \<open>Memory_Text\<close>, \<open>Memory_Store\<close>, \<open>Memory_Tools\<close>: \<open>agents/tools/memory-tools.ts\<close>. Names, tokens, scores, conflicts and the check for secrets;
    the file of JSON lines with its quotas, whose contract as a map of entries is the locale \<open>entry_log\<close>; the nine tools.
  \<^item> \<open>Memory_Facts\<close>, \<open>Memory_Laws\<close>: entries stay well formed, calls stay in their scope, what was saved is read back, quotas hold, and
    compaction cannot be observed.

  \<^bold>\<open>Conventions.\<close> A class or object type is a record, a union a datatype, \<open>T | undefined\<close> an option; a thrown or
  rejected error is \<open>Inl\<close> with the message. Definitions carry the names of the source, and every
  operation is a function from the state to the state and its result. Loops are structural
  recursion or have a measure; two run on a bound that is proved to be enough: \<open>poll_wait\<close> of the process tool, the number
  of polls up to the deadline, and \<open>captureScreenshot\<close> of the provider loop, the two levels to which a screenshot
  can nest. Characters are the first 256 code
  points, numbers are rationals with the three special values. Where the source looks a name up in a plain object, the inherited members
  \<open>constructor\<close> and \<open>__proto__\<close> count (\<open>inherited_member\<close>), since names are lower case there.

  \<^bold>\<open>Arguments instead of code.\<close> What is not in the repository is an argument: AES-GCM and base64, the host name of
  a URL, SHA-1, random draws, the clock and the parsing of dates, the shell, the file system around the modelled files,
  the answers of Telegram and Tailscale. What is assumed of them is a named predicate (such as
  \<open>crypto_ok\<close>), and a witness instantiates it.

  \<^bold>\<open>Not modelled.\<close> The browser, email and web tools, the choice of a model and the prompts of the provider loop, the
  message formatter, the web dashboard, the terminal and web user interfaces, the onboarding
  wizard and the command line: they consist of input and output, of
  third-party libraries, or of text heuristics over regular expressions. Interleavings of
  asynchronous calls are modelled in the progress relay, and for the bridge what others change between two updates; elsewhere an operation is
  atomic. File modes, and errors of the file system on writing, are left out.

  \<^bold>\<open>Order of extension.\<close> Next would be the texts of the provider loop, tool schemas, the usage summary
  and the paths of the state directory.
\<close>

end
